(* ===== verification/Heddle_Prelude.thy ===== *)
theory Heddle_Prelude
  imports Main "HOL-Library.Word"
begin

text \<open>
  Shared vocabulary of the development: the machine integers of the Rust sources, the
  arithmetic of \<^verbatim>\<open>usize\<close> with its checked and saturating forms, slices, and the contract
  of a self-delimiting byte codec, which the pack formats implement.

  A Rust \<^verbatim>\<open>usize\<close> that only counts or indexes is a \<^typ>\<open>nat\<close>; where the source guards an
  addition with \<^verbatim>\<open>checked_add\<close> or \<^verbatim>\<open>saturating_add\<close>, the model guards it too, with the
  maximum of the 64-bit targets.
\<close>

unbundle bit_operations_syntax

named_theorems codec_simps \<open>unfolding rules of the byte codecs\<close>
named_theorems flag_simps \<open>tests of single flag bits\<close>

type_synonym u8 = "8 word"
type_synonym u16 = "16 word"
type_synonym u32 = "32 word"
type_synonym u64 = "64 word"
type_synonym bytes = "u8 list"

section \<open>Arithmetic of usize\<close>

definition usize_max :: nat where
  "usize_max = 2 ^ 64 - 1"

definition checked_add :: "nat \<Rightarrow> nat \<Rightarrow> nat option" where
  "checked_add a b = (if a + b \<le> usize_max then Some (a + b) else None)"

definition saturating_add :: "nat \<Rightarrow> nat \<Rightarrow> nat" where
  "saturating_add a b = min (a + b) usize_max"

definition saturating_mul :: "nat \<Rightarrow> nat \<Rightarrow> nat" where
  "saturating_mul a b = min (a * b) usize_max"

definition div_ceil :: "nat \<Rightarrow> nat \<Rightarrow> nat" where
  "div_ceil a b = (a + b - 1) div b"

text \<open>\<^verbatim>\<open>&xs[i..j]\<close>, for \<open>i \<le> j \<le> length xs\<close>.\<close>

definition subslice :: "'a list \<Rightarrow> nat \<Rightarrow> nat \<Rightarrow> 'a list" where
  "subslice xs i j = take (j - i) (drop i xs)"

lemma length_subslice [simp]: "j \<le> length xs \<Longrightarrow> length (subslice xs i j) = j - i"
  by (simp add: subslice_def)

lemma subslice_full [simp]: "subslice xs 0 (length xs) = xs"
  by (simp add: subslice_def)

lemma subslice_empty [simp]: "subslice xs i i = []"
  by (simp add: subslice_def)

lemma subslice_append: "i \<le> j \<Longrightarrow> j \<le> k \<Longrightarrow> subslice xs i j @ subslice xs j k = subslice xs i k"
proof -
  assume a: "i \<le> j" "j \<le> k"
  then have "k - i = (j - i) + (k - j)" by simp
  moreover have "drop j xs = drop (j - i) (drop i xs)" using a by simp
  ultimately show ?thesis by (simp add: subslice_def take_add)
qed

lemma subslice_Suc: "i < length xs \<Longrightarrow> subslice xs i (Suc i) = [xs ! i]"
  by (simp add: subslice_def take_Suc_conv_app_nth Cons_nth_drop_Suc [symmetric])

lemma nth_subslice: "k < j - i \<Longrightarrow> j \<le> length xs \<Longrightarrow> subslice xs i j ! k = xs ! (i + k)"
  by (simp add: subslice_def)

lemma subslice_eqI:
  assumes "i \<le> length xs" "j \<le> length ys" "i + n \<le> length xs" "j + n \<le> length ys"
    and "\<And>k. k < n \<Longrightarrow> xs ! (i + k) = ys ! (j + k)"
  shows "subslice xs i (i + n) = subslice ys j (j + n)"
  using assms by (intro nth_equalityI) (auto simp: subslice_def)

section \<open>Flag bits of a byte\<close>

lemma u8_flag [flag_simps]:
  fixes w :: u8
  shows "w AND 1 = 0 \<longleftrightarrow> \<not> bit w 0" "w AND 2 = 0 \<longleftrightarrow> \<not> bit w 1" "w AND 4 = 0 \<longleftrightarrow> \<not> bit w 2"
    "w AND 8 = 0 \<longleftrightarrow> \<not> bit w 3" "w AND 16 = 0 \<longleftrightarrow> \<not> bit w 4" "w AND 32 = 0 \<longleftrightarrow> \<not> bit w 5"
    "w AND 64 = 0 \<longleftrightarrow> \<not> bit w 6" "w AND 128 = 0 \<longleftrightarrow> \<not> bit w 7"
  using and_exp_eq_0_iff_not_bit [of w 0] and_exp_eq_0_iff_not_bit [of w 1]
    and_exp_eq_0_iff_not_bit [of w 2] and_exp_eq_0_iff_not_bit [of w 3]
    and_exp_eq_0_iff_not_bit [of w 4] and_exp_eq_0_iff_not_bit [of w 5]
    and_exp_eq_0_iff_not_bit [of w 6] and_exp_eq_0_iff_not_bit [of w 7]
  by simp_all

section \<open>Big-endian integers\<close>

definition u32_to_be_bytes :: "u32 \<Rightarrow> bytes" where
  "u32_to_be_bytes w = [ucast (drop_bit 24 w), ucast (drop_bit 16 w), ucast (drop_bit 8 w), ucast w]"

definition u32_from_be_bytes :: "u8 \<Rightarrow> u8 \<Rightarrow> u8 \<Rightarrow> u8 \<Rightarrow> u32" where
  "u32_from_be_bytes a b c d =
     push_bit 24 (ucast a) OR push_bit 16 (ucast b) OR push_bit 8 (ucast c) OR ucast d"

definition u64_to_be_bytes :: "u64 \<Rightarrow> bytes" where
  "u64_to_be_bytes w = map (\<lambda>k. ucast (drop_bit (8 * k) w)) [7, 6, 5, 4, 3, 2, 1, 0]"

fun u64_from_be_bytes :: "bytes \<Rightarrow> u64" where
  "u64_from_be_bytes bs = foldl (\<lambda>acc b. push_bit 8 acc OR ucast b) 0 bs"

lemma push_byte:
  fixes w :: "'a::len word"
  assumes "8 \<le> LENGTH('a)"
  shows "push_bit 8 (drop_bit (n + 8) w) OR ucast (ucast (drop_bit n w) :: u8) = drop_bit n w"
proof (rule bit_eqI)
  fix k
  show "bit (push_bit 8 (drop_bit (n + 8) w) OR ucast (ucast (drop_bit n w) :: u8)) k
      = bit (drop_bit n w) k"
    by (cases "k < 8") (use assms in \<open>auto simp: bit_simps ac_simps dest: bit_imp_le_length\<close>)
qed

lemma u32_be_roundtrip:
  "u32_from_be_bytes (ucast (drop_bit 24 w)) (ucast (drop_bit 16 w)) (ucast (drop_bit 8 w)) (ucast w)
    = (w :: u32)"
proof (rule bit_eqI)
  fix n assume "possible_bit TYPE(32 word) n"
  then have "n < 32" by simp
  then consider "n < 8" | "8 \<le> n" "n < 16" | "16 \<le> n" "n < 24" | "24 \<le> n" "n < 32"
    by linarith
  then show "bit (u32_from_be_bytes (ucast (drop_bit 24 w)) (ucast (drop_bit 16 w))
      (ucast (drop_bit 8 w)) (ucast w)) n = bit w n"
    by cases (auto simp: u32_from_be_bytes_def bit_simps)
qed

lemma length_be_bytes [simp]:
  "length (u32_to_be_bytes w) = 4" "length (u64_to_be_bytes v) = 8"
  by (simp_all add: u32_to_be_bytes_def u64_to_be_bytes_def)

lemma u64_be_roundtrip: "u64_from_be_bytes (u64_to_be_bytes w) = w"
proof -
  have top: "drop_bit 64 w = 0"
    by (rule bit_eqI) (auto simp: bit_simps dest: bit_imp_le_length)
  show ?thesis
    using top push_byte [of 56 w] push_byte [of 48 w] push_byte [of 40 w] push_byte [of 32 w]
      push_byte [of 24 w] push_byte [of 16 w] push_byte [of 8 w] push_byte [of 0 w]
    by (simp add: u64_to_be_bytes_def)
qed

section \<open>The contract of a self-delimiting codec\<close>

text \<open>
  An encoder whose output can be followed by arbitrary bytes: the decoder returns the value and
  how many bytes it consumed. The pack index, the pack entry headers and the delta stream rely
  on exactly this to find where one field ends and the next begins.
\<close>

locale prefix_codec =
  fixes enc :: "'a \<Rightarrow> bytes"
    and dec :: "bytes \<Rightarrow> ('a \<times> nat) option"
    and encodable :: "'a \<Rightarrow> bool"
  assumes dec_enc: "encodable x \<Longrightarrow> dec (enc x @ rest) = Some (x, length (enc x))"
begin

lemma enc_unambiguous:
  assumes "encodable x" "encodable y" "enc x @ r = enc y @ s"
  shows "x = y \<and> r = s"
proof -
  have "dec (enc x @ r) = Some (x, length (enc x))" "dec (enc y @ s) = Some (y, length (enc y))"
    using assms(1,2) by (simp_all add: dec_enc)
  then show ?thesis using assms(3) by auto
qed

lemma dec_enc_exact: "encodable x \<Longrightarrow> dec (enc x) = Some (x, length (enc x))"
  using dec_enc [of x "[]"] by simp

lemma dec_enc_rest:
  "encodable x \<Longrightarrow> dec (enc x @ rest) = Some (y, n) \<Longrightarrow> drop n (enc x @ rest) = rest"
  by (auto simp: dec_enc)

end

text \<open>
  A reader that sees only the beginning of an encoded value must ask for more bytes, never return
  a value: the streaming readers of the pack format rely on it.
\<close>

locale strict_codec = prefix_codec +
  assumes dec_truncated: "encodable x \<Longrightarrow> n < length (enc x) \<Longrightarrow> dec (take n (enc x)) = None"
begin

lemma dec_prefix:
  assumes "encodable x"
  shows "dec (take n (enc x @ rest)) =
    (if n < length (enc x) then None else Some (x, length (enc x)))"
proof (cases "n < length (enc x)")
  case True
  then show ?thesis using assms by (simp add: dec_truncated)
next
  case False
  then have "take n (enc x @ rest) = enc x @ take (n - length (enc x)) rest" by simp
  with False assms show ?thesis by (simp add: dec_enc)
qed

end

end
