(* ===== verification/Pack_Varint.thy ===== *)
theory Pack_Varint
  imports Heddle_Prelude
begin

text \<open>
  The variable-length integers of the pack format, \<^verbatim>\<open>src/crates/pack/src/store/pack/varint.rs\<close>,
  and the object types of \<^verbatim>\<open>src/crates/pack/src/store/pack/mod.rs\<close>. A \<^verbatim>\<open>&mut Vec<u8>\<close>
  argument is a list argument and the result is the extended list.
\<close>

section \<open>Object types\<close>

datatype ObjectType =
  OT_Blob | OT_Tree | OT_State | OT_Action | OT_Delta | OT_StateAttachment
| OT_SnapshotCommit | OT_TimelineOperation | OT_AnnotatedTag

text \<open>\<^verbatim>\<open>obj_type as u8\<close>: the discriminants of the \<^verbatim>\<open>repr(u8)\<close> enum.\<close>

fun object_type_u8 :: "ObjectType \<Rightarrow> u8" where
  "object_type_u8 OT_Blob = 0"
| "object_type_u8 OT_Tree = 1"
| "object_type_u8 OT_State = 2"
| "object_type_u8 OT_Action = 3"
| "object_type_u8 OT_Delta = 4"
| "object_type_u8 OT_StateAttachment = 5"
| "object_type_u8 OT_SnapshotCommit = 6"
| "object_type_u8 OT_TimelineOperation = 7"
| "object_type_u8 OT_AnnotatedTag = 8"

definition from_u8 :: "u8 \<Rightarrow> ObjectType option" where
  "from_u8 v =
     (if v = 0 then Some OT_Blob
      else if v = 1 then Some OT_Tree
      else if v = 2 then Some OT_State
      else if v = 3 then Some OT_Action
      else if v = 4 then Some OT_Delta
      else if v = 5 then Some OT_StateAttachment
      else if v = 6 then Some OT_SnapshotCommit
      else if v = 7 then Some OT_TimelineOperation
      else if v = 8 then Some OT_AnnotatedTag
      else None)"

lemma from_u8_object_type_u8: "from_u8 (object_type_u8 t) = Some t"
  by (cases t) (simp_all add: from_u8_def)

section \<open>Encoders\<close>

text \<open>The loop of \<^verbatim>\<open>encode_type_and_size\<close> over the bits above the low four.\<close>

function push_size :: "u64 \<Rightarrow> bytes \<Rightarrow> bytes" where
  "push_size val buf =
     (if val > 0x7F then push_size (drop_bit 7 val) (buf @ [0x80 OR ucast (val AND 0x7F)])
      else buf @ [ucast val])"
  by pat_completeness auto
termination
proof (relation "measure (\<lambda>(val, buf). unat val)")
  fix val :: u64 and buf :: bytes
  assume "val > 0x7F"
  then have "0 < unat val" by unat_arith
  then have "unat val div 128 < unat val" by simp
  then show "((drop_bit 7 val, buf @ [0x80 OR ucast (val AND 0x7F)]), (val, buf))
      \<in> measure (\<lambda>(val, buf). unat val)"
    by (simp add: drop_bit_eq_div unat_div)
qed simp

declare push_size.simps [simp del]

definition encode_type_and_size :: "ObjectType \<Rightarrow> u64 \<Rightarrow> bytes \<Rightarrow> bytes" where
  "encode_type_and_size obj_type sz buf =
     (let type_bits = object_type_u8 obj_type AND 0x07;
          low = (ucast (sz AND 0x0F) :: u8);
          val = drop_bit 4 sz
      in if val = 0 then buf @ [push_bit 4 type_bits OR low]
         else push_size val (buf @ [0x80 OR push_bit 4 type_bits OR low]))"

function encode_varint :: "u64 \<Rightarrow> bytes \<Rightarrow> bytes" where
  "encode_varint val buf =
     (let byte = (ucast (val AND 0x7F) :: u8); val' = drop_bit 7 val
      in if val' = 0 then buf @ [byte] else encode_varint val' (buf @ [byte OR 0x80]))"
  by pat_completeness auto
termination
proof (relation "measure (\<lambda>(val, buf). unat val)")
  fix val :: u64 and buf byte val'
  assume "val' = drop_bit 7 val" "val' \<noteq> 0"
  then have "0 < unat val" by (metis drop_bit_of_0 unat_gt_0)
  then have "unat val div 128 < unat val" by simp
  then show "((val', buf @ [byte OR 0x80]), (val, buf)) \<in> measure (\<lambda>(val, buf). unat val)"
    using \<open>val' = drop_bit 7 val\<close> by (simp add: drop_bit_eq_div unat_div)
qed simp

declare encode_varint.simps [simp del]

section \<open>Decoders\<close>

text \<open>
  The \<^verbatim>\<open>loop\<close> of \<^verbatim>\<open>decode_type_and_size\<close>. \<^verbatim>\<open>None\<close> is returned on truncation and once the
  shift passes 63, so every shift performed is below the width of \<^verbatim>\<open>u64\<close>.
\<close>

function read_size :: "bytes \<Rightarrow> nat \<Rightarrow> u64 \<Rightarrow> nat \<Rightarrow> (u64 \<times> nat) option" where
  "read_size data pos sz shift =
     (if pos \<ge> length data then None
      else let byte = data ! pos;
               sz' = sz OR push_bit shift (ucast (byte AND 0x7F));
               shift' = shift + 7
           in if byte AND 0x80 = 0 then Some (sz', pos + 1)
              else if shift' > 63 then None
              else read_size data (pos + 1) sz' shift')"
  by pat_completeness auto
termination by (relation "measure (\<lambda>(data, pos, sz, shift). length data - pos)") auto

declare read_size.simps [simp del]

definition decode_type_and_size :: "bytes \<Rightarrow> (ObjectType \<times> u64 \<times> nat) option" where
  "decode_type_and_size data =
     (case data of [] \<Rightarrow> None
      | first # _ \<Rightarrow>
          (case from_u8 (drop_bit 4 first AND 0x07) of None \<Rightarrow> None
           | Some obj_type \<Rightarrow>
               let sz = ucast (first AND 0x0F) in
               if first AND 0x80 \<noteq> 0
               then (case read_size data 1 sz 4 of None \<Rightarrow> None
                     | Some (sz', pos) \<Rightarrow> Some (obj_type, sz', pos))
               else Some (obj_type, sz, 1)))"

text \<open>The \<^verbatim>\<open>for (i, &byte)\<close> loop of \<^verbatim>\<open>decode_varint\<close>; \<open>i\<close> counts the bytes already read.\<close>

fun read_varint :: "bytes \<Rightarrow> nat \<Rightarrow> u64 \<Rightarrow> nat \<Rightarrow> (u64 \<times> nat) option" where
  "read_varint [] i val shift = None"
| "read_varint (byte # bs) i val shift =
     (let val' = val OR push_bit shift (ucast (byte AND 0x7F)); shift' = shift + 7
      in if byte AND 0x80 = 0 then Some (val', i + 1)
         else if shift' > 63 then None
         else read_varint bs (i + 1) val' shift')"

definition decode_varint :: "bytes \<Rightarrow> (u64 \<times> nat) option" where
  "decode_varint data = read_varint data 0 0 0"

section \<open>Round trips\<close>

lemma low_bits [codec_simps]:
  "(x :: u64) AND 0x7F = take_bit 7 x" "(y :: u8) AND 0x7F = take_bit 7 y"
  "(x :: u64) AND 0x0F = take_bit 4 x" "(y :: u8) AND 0x0F = take_bit 4 y"
  "(y :: u8) AND 0x07 = take_bit 3 y"
  by (simp_all add: take_bit_eq_mask mask_eq_exp_minus_1)

lemma bit_128 [simp]: "bit (0x80 :: u8) n \<longleftrightarrow> n = 7"
  using bit_exp_iff [of 7 n, where ?'a = u8] by (auto simp: possible_bit_def)

lemma split_low: "take_bit k val OR push_bit k (drop_bit k val) = (val :: 'a::len word)"
proof (rule bit_eqI)
  fix n
  show "bit (take_bit k val OR push_bit k (drop_bit k val)) n = bit val n"
    by (cases "n < k") (auto simp: bit_simps dest: bit_imp_le_length)
qed

lemma payload_byte:
  "(ucast (take_bit 7 (0x80 OR (ucast (take_bit 7 val) :: u8))) :: u64) = take_bit 7 val"
  "(ucast (take_bit 7 ((ucast (take_bit 7 val) :: u8) OR 0x80)) :: u64) = take_bit 7 val"
  "(ucast (take_bit 7 (ucast (take_bit 7 val) :: u8)) :: u64) = take_bit 7 val"
  by (rule bit_eqI; auto simp: bit_simps; fail)+

lemma continuation_bit:
  "(0x80 OR x :: u8) AND 0x80 \<noteq> 0" "(x OR 0x80 :: u8) AND 0x80 \<noteq> 0"
  "(ucast (take_bit 7 (val :: u64)) :: u8) AND 0x80 = 0"
  by (auto simp: flag_simps bit_simps)

text \<open>Both encoders emit the same continuation bytes, and both decoders read them alike.\<close>

lemma small_u64: "\<not> (0x7F :: u64) < val \<longleftrightarrow> drop_bit 7 val = 0"
proof -
  have "drop_bit 7 val = 0 \<longleftrightarrow> unat val div 128 = 0"
    by (simp add: drop_bit_eq_div word_unat_eq_iff unat_div)
  also have "\<dots> \<longleftrightarrow> unat val < 128" by auto
  also have "\<dots> \<longleftrightarrow> \<not> (0x7F :: u64) < val" by (auto simp: word_less_nat_alt)
  finally show ?thesis by simp
qed

lemma small_take_bit: "drop_bit 7 (val :: u64) = 0 \<Longrightarrow> take_bit 7 val = val"
  using split_low [of 7 val] by simp

lemma push_size_append: "push_size val (xs @ buf) = xs @ push_size val buf"
proof (induction val buf rule: push_size.induct)
  case (1 val buf)
  then show ?case
    by (simp add: push_size.simps [of val "xs @ buf"] push_size.simps [of val buf])
qed

lemma push_size_buf: "push_size val buf = buf @ push_size val []"
  using push_size_append [of val buf "[]"] by simp

lemma encode_varint_push_size: "encode_varint val buf = push_size val buf"
proof (induction val buf rule: encode_varint.induct)
  case (1 val buf)
  show ?case
  proof (cases "drop_bit 7 val = 0")
    case True
    then have "take_bit 7 val = val" "\<not> 0x7F < val"
      by (auto simp: small_take_bit small_u64)
    with True show ?thesis
      by (simp add: encode_varint.simps [of val] push_size.simps [of val] low_bits)
  next
    case False
    then have "0x7F < val" by (simp add: small_u64 [symmetric])
    with False 1 show ?thesis
      by (simp add: encode_varint.simps [of val] push_size.simps [of val] or.commute)
  qed
qed

lemma read_size_read_varint: "read_size data pos sz shift = read_varint (drop pos data) pos sz shift"
proof (induction data pos sz shift rule: read_size.induct)
  case (1 data pos sz shift)
  show ?case
  proof (cases "pos < length data")
    case True
    then have "drop pos data = data ! pos # drop (Suc pos) data" by (simp add: Cons_nth_drop_Suc)
    with True 1 show ?thesis by (simp add: read_size.simps [of data] Let_def)
  qed (simp add: read_size.simps [of data])
qed

lemma read_varint_push_size:
  assumes "unat val < 2 ^ (64 - shift)" "shift \<le> 63"
  shows "read_varint (push_size val [] @ rest) i acc shift =
    Some (acc OR push_bit shift val, i + length (push_size val []))"
  using assms
proof (induction "unat val" arbitrary: val shift i acc rule: less_induct)
  case less
  show ?case
  proof (cases "0x7F < val")
    case False
    then have "take_bit 7 val = val" by (auto simp: small_u64 small_take_bit)
    with False payload_byte(3) [of val] continuation_bit(3) [of val] show ?thesis
      by (simp add: push_size.simps [of val] low_bits Let_def)
  next
    case True
    let ?v = "drop_bit 7 val"
    have v: "unat ?v = unat val div 128" by (simp add: drop_bit_eq_div unat_div)
    have big: "128 \<le> unat val" using True by (auto simp: word_less_nat_alt)
    have "\<not> 64 - shift \<le> 7"
    proof
      assume "64 - shift \<le> 7"
      then have "(2::nat) ^ (64 - shift) \<le> 2 ^ 7" by (rule power_increasing) simp
      with less.prems(1) big show False by simp
    qed
    then have sh: "shift + 7 \<le> 63" by simp
    have "(2::nat) ^ (64 - shift) = 2 ^ (64 - (shift + 7) + 7)" using sh by simp
    also have "\<dots> = 2 ^ (64 - (shift + 7)) * 128" by (simp only: power_add) simp
    finally have "(2::nat) ^ (64 - shift) = 2 ^ (64 - (shift + 7)) * 128" .
    with less.prems(1) have bound: "unat ?v < 2 ^ (64 - (shift + 7))"
      by (simp add: v less_mult_imp_div_less)
    have dec: "unat ?v < unat val" using big v by simp
    have enc: "push_size val [] = (0x80 OR ucast (take_bit 7 val)) # push_size ?v []"
      using True push_size_buf [of ?v "[0x80 OR ucast (val AND 0x7F)]"]
      by (simp add: push_size.simps [of val] low_bits)
    have acc: "acc OR push_bit shift (take_bit 7 val) OR push_bit (shift + 7) ?v
        = acc OR push_bit shift val"
      using split_low [of 7 val]
      by (metis add.commute or.assoc push_bit_or push_bit_push_bit)
    show ?thesis
      using less.hyps [OF dec bound sh, of "i + 1" "acc OR push_bit shift (take_bit 7 val)"]
        sh acc payload_byte(1) [of val] continuation_bit(1) [of "ucast (take_bit 7 val)"]
      by (simp add: enc low_bits Let_def or.assoc)
  qed
qed

lemma read_varint_truncated:
  "n < length (push_size val []) \<Longrightarrow> read_varint (take n (push_size val [])) i acc shift = None"
proof (induction "unat val" arbitrary: val n i acc shift rule: less_induct)
  case less
  show ?case
  proof (cases "0x7F < val")
    case False
    with less.prems show ?thesis by (simp add: push_size.simps [of val])
  next
    case True
    let ?v = "drop_bit 7 val" and ?b = "0x80 OR ucast (take_bit 7 val) :: u8"
    have "128 \<le> unat val" using True by (auto simp: word_less_nat_alt)
    then have dec: "unat ?v < unat val" by (simp add: drop_bit_eq_div unat_div)
    have enc: "push_size val [] = ?b # push_size ?v []"
      using True push_size_buf [of ?v "[0x80 OR ucast (val AND 0x7F)]"]
      by (simp add: push_size.simps [of val] low_bits)
    have cont: "?b AND 0x80 \<noteq> 0" by (rule continuation_bit)
    show ?thesis
    proof (cases n)
      case (Suc m)
      with less.prems enc have "m < length (push_size ?v [])" by simp
      then show ?thesis using less.hyps [OF dec] cont Suc by (simp add: enc Let_def)
    qed simp
  qed
qed

interpretation varint: strict_codec "\<lambda>v. encode_varint v []" decode_varint "\<lambda>_. True"
proof
  fix x :: u64 and rest
  have "unat x < 2 ^ (64 - 0)" using unsigned_less [of x] by simp
  then show "decode_varint (encode_varint x [] @ rest) = Some (x, length (encode_varint x []))"
    by (simp add: decode_varint_def encode_varint_push_size read_varint_push_size)
next
  fix x :: u64 and n
  assume "n < length (encode_varint x [])"
  then show "decode_varint (take n (encode_varint x [])) = None"
    by (simp add: decode_varint_def encode_varint_push_size read_varint_truncated)
qed

lemma encode_varint_buf: "encode_varint val buf = buf @ encode_varint val []"
  by (metis encode_varint_push_size push_size_buf)

lemma encode_type_and_size_buf:
  "encode_type_and_size t sz buf = buf @ encode_type_and_size t sz []"
  by (simp add: encode_type_and_size_def Let_def push_size_buf [of _ "buf @ _"]
      push_size_buf [of _ "[_]"])

lemma header_byte_fields:
  fixes t :: u8 and low :: u64
  defines "b \<equiv> push_bit 4 (take_bit 3 t) OR ucast (take_bit 4 low)"
  shows "take_bit 3 (drop_bit 4 b) = take_bit 3 t"
    "take_bit 3 (drop_bit 4 (0x80 OR b)) = take_bit 3 t"
    "(ucast (take_bit 4 b) :: u64) = take_bit 4 low"
    "(ucast (take_bit 4 (0x80 OR b)) :: u64) = take_bit 4 low"
    "b AND 0x80 = 0" "(0x80 OR b) AND 0x80 \<noteq> 0"
  unfolding b_def
  by (rule bit_eqI; auto simp: bit_simps; fail | auto simp: flag_simps bit_simps; fail)+

lemma packable_type_bits:
  "t \<noteq> OT_AnnotatedTag \<Longrightarrow> from_u8 (take_bit 3 (object_type_u8 t)) = Some t"
  by (cases t) (simp_all add: from_u8_def)

lemma decode_encode_type_and_size:
  "decode_type_and_size (encode_type_and_size t sz [] @ rest) =
    map_option (\<lambda>t'. (t', sz, length (encode_type_and_size t sz [])))
      (from_u8 (take_bit 3 (object_type_u8 t)))"
proof (cases "drop_bit 4 sz = 0")
  case True
  then have "take_bit 4 sz = sz" using split_low [of 4 sz] by simp
  with True header_byte_fields(1,3,5) [of "object_type_u8 t" sz] show ?thesis
    by (simp add: decode_type_and_size_def encode_type_and_size_def low_bits Let_def
        split: option.split)
next
  case False
  let ?v = "drop_bit 4 sz"
  let ?b = "0x80 OR (push_bit 4 (take_bit 3 (object_type_u8 t)) OR ucast (take_bit 4 sz)) :: u8"
  have enc: "encode_type_and_size t sz [] = ?b # push_size ?v []"
    using False push_size_buf [of ?v "[?b]"]
    by (simp add: encode_type_and_size_def low_bits Let_def or.assoc)
  have "unat ?v < 2 ^ (64 - 4)"
    using unsigned_less [of sz, where ?'a = nat]
    by (simp add: drop_bit_eq_div unat_div less_mult_imp_div_less)
  then have "read_varint (push_size ?v [] @ rest) 1 (take_bit 4 sz) 4
      = Some (take_bit 4 sz OR push_bit 4 ?v, 1 + length (push_size ?v []))"
    by (rule read_varint_push_size) simp
  then show ?thesis
    using header_byte_fields(2,4,6) [of "object_type_u8 t" sz]
    by (simp add: decode_type_and_size_def enc read_size_read_varint split_low low_bits Let_def
        split: option.split)
qed

lemma decode_type_and_size_truncated:
  assumes "n < length (encode_type_and_size t sz [])"
  shows "decode_type_and_size (take n (encode_type_and_size t sz [])) = None"
proof (cases n)
  case (Suc m)
  let ?v = "drop_bit 4 sz"
  let ?b = "0x80 OR (push_bit 4 (take_bit 3 (object_type_u8 t)) OR ucast (take_bit 4 sz)) :: u8"
  have nz: "?v \<noteq> 0"
    using assms Suc by (auto simp: encode_type_and_size_def Let_def)
  then have enc: "encode_type_and_size t sz [] = ?b # push_size ?v []"
    using push_size_buf [of ?v "[?b]"]
    by (simp add: encode_type_and_size_def low_bits Let_def or.assoc)
  then have "m < length (push_size ?v [])" using assms Suc by simp
  then have "read_varint (take m (push_size ?v [])) 1 (ucast (take_bit 4 ?b)) 4 = None"
    by (rule read_varint_truncated)
  then show ?thesis
    using header_byte_fields(6) [of "object_type_u8 t" sz] Suc
    by (simp add: decode_type_and_size_def enc read_size_read_varint low_bits Let_def
        split: option.split)
qed (simp add: decode_type_and_size_def)

text \<open>
  Every object type but \<open>OT_AnnotatedTag\<close> fits the three type bits, and on those the encoder and
  the decoder are inverse, whatever follows in the buffer.
\<close>

interpretation type_and_size: strict_codec
  "\<lambda>(t, sz). encode_type_and_size t sz []"
  "\<lambda>data. map_option (\<lambda>(t, sz, n). ((t, sz), n)) (decode_type_and_size data)"
  "\<lambda>(t, sz). t \<noteq> OT_AnnotatedTag"
  by unfold_locales
    (auto simp: decode_encode_type_and_size packable_type_bits decode_type_and_size_truncated)

lemma read_varint_consumed:
  "read_varint data i acc shift = Some (v, n) \<Longrightarrow> shift \<le> 63 \<Longrightarrow>
    i < n \<and> n \<le> i + length data \<and> 7 * (n - i) \<le> 63 - shift + 7"
proof (induction data i acc shift rule: read_varint.induct)
  case (2 byte bs i val shift)
  show ?case
  proof (cases "byte AND 0x80 = 0")
    case True
    with 2 show ?thesis by (auto simp: Let_def)
  next
    case False
    with 2 show ?thesis by (fastforce simp: Let_def split: if_splits)
  qed
qed simp

lemma decode_type_and_size_consumed:
  "decode_type_and_size data = Some (t, sz, n) \<Longrightarrow> 0 < n \<and> n \<le> length data"
  by (auto simp: decode_type_and_size_def read_size_read_varint Let_def
      dest!: read_varint_consumed split: list.splits option.splits if_splits)

section \<open>Properties\<close>

text \<open>A varint written by \<^verbatim>\<open>encode_varint\<close> takes at most ten bytes and is read back by
  \<^verbatim>\<open>decode_varint\<close> with its exact length, whatever bytes follow it; no shorter prefix of it
  decodes.\<close>

theorem varint_roundtrip:
  "decode_varint (encode_varint v [] @ rest) = Some (v, length (encode_varint v []))
   \<and> length (encode_varint v []) \<le> 10
   \<and> (\<forall>k. decode_varint (take k (encode_varint v [])) =
         (if k < length (encode_varint v []) then None else Some (v, length (encode_varint v []))))"
proof (intro conjI allI)
  show d: "decode_varint (encode_varint v [] @ rest) = Some (v, length (encode_varint v []))"
    by (rule varint.dec_enc) simp
  then show "length (encode_varint v []) \<le> 10"
    by (auto simp: decode_varint_def dest!: read_varint_consumed)
  fix k
  show "decode_varint (take k (encode_varint v [])) =
      (if k < length (encode_varint v []) then None else Some (v, length (encode_varint v [])))"
    using varint.dec_prefix [where x = v and n = k and rest = "[]"] by simp
qed

text \<open>The type-and-size header of an object is read back exactly, whatever follows it, except
  that the three type bits cannot hold \<^verbatim>\<open>AnnotatedTag\<close> (8), which is written as, and read back as,
  a \<^verbatim>\<open>Blob\<close>.\<close>

theorem type_and_size_roundtrip:
  "decode_type_and_size (encode_type_and_size t sz [] @ rest) =
    Some (if t = OT_AnnotatedTag then OT_Blob else t, sz, length (encode_type_and_size t sz []))"
  by (cases t) (simp_all add: decode_encode_type_and_size from_u8_def)

end
