(* ===== verification/Pack_Entry.thy ===== *)
theory Pack_Entry
  imports Pack_Varint
begin

text \<open>
  Pack entry headers and the pack container frame: \<^verbatim>\<open>src/crates/pack/src/store/pack/shared.rs\<close> and
  \<^verbatim>\<open>src/crates/pack/src/store/pack/versioned_header.rs\<close>. A content hash and a state id are 32
  bytes, as \<open>wf_object_id\<close> states. BLAKE3 is a third-party function and a parameter.
  Each error message of the source is a constructor of \<open>StoreError\<close>.
\<close>

section \<open>Tagged object ids\<close>

datatype PackObjectId = PO_Hash bytes | PO_StateId bytes | PO_AnnotatedTag bytes

fun object_id_bytes :: "PackObjectId \<Rightarrow> bytes" where
  "object_id_bytes (PO_Hash h) = h"
| "object_id_bytes (PO_StateId h) = h"
| "object_id_bytes (PO_AnnotatedTag h) = h"

definition wf_object_id :: "PackObjectId \<Rightarrow> bool" where
  "wf_object_id oid \<longleftrightarrow> length (object_id_bytes oid) = 32"

datatype StoreError =
  MissingIdTag | HashIdTruncated | StateIdTruncated | AnnotatedTagIdTruncated | UnknownIdTag u8
| DeltaMissingBase | TruncatedTypeAndSize | AnnotatedTagBadType | TruncatedCompressedSize
| OutputSizeExceeded nat nat | PackTooShort | InvalidPackMagic | UnsupportedPackVersion u32
| PackChecksumMismatch | PackVersionTooNew u32 | PackVersionUnsupported u32

fun encode_tagged :: "PackObjectId \<Rightarrow> bytes \<Rightarrow> bytes" where
  "encode_tagged (PO_Hash h) buf = buf @ [0] @ h"
| "encode_tagged (PO_StateId s) buf = buf @ [1] @ s"
| "encode_tagged (PO_AnnotatedTag h) buf = buf @ [2] @ h"

definition decode_tagged :: "bytes \<Rightarrow> StoreError + (PackObjectId \<times> nat)" where
  "decode_tagged data =
     (case data of [] \<Rightarrow> Inl MissingIdTag
      | tag # _ \<Rightarrow>
          if tag = 0 then
            if length data < 33 then Inl HashIdTruncated else Inr (PO_Hash (subslice data 1 33), 33)
          else if tag = 1 then
            if length data < 33 then Inl StateIdTruncated
            else Inr (PO_StateId (subslice data 1 33), 33)
          else if tag = 2 then
            if length data < 33 then Inl AnnotatedTagIdTruncated
            else Inr (PO_AnnotatedTag (subslice data 1 33), 33)
          else Inl (UnknownIdTag tag))"

section \<open>Entry headers\<close>

record PackEntryHeader =
  entry_id :: PackObjectId
  obj_type :: ObjectType
  uncompressed_size :: nat
  compressed_size :: nat
  delta_base :: "PackObjectId option"
  header_len :: nat

definition MAX_PACK_OBJECT_OUTPUT_SIZE :: nat where
  "MAX_PACK_OBJECT_OUTPUT_SIZE = 1024 * 1024 * 1024"

definition reject_pack_object_output_over_limit :: "nat \<Rightarrow> nat \<Rightarrow> StoreError + unit" where
  "reject_pack_object_output_over_limit sz mx =
     (if sz > mx then Inl (OutputSizeExceeded sz mx) else Inr ())"

text \<open>
  \<^verbatim>\<open>checked_decoded_size\<close>: on a 64-bit target \<^verbatim>\<open>usize::try_from\<close> of a \<^verbatim>\<open>u64\<close> never fails, so the
  limit on the uncompressed size is the check that remains.
\<close>

definition checked_decoded_size :: "bool \<Rightarrow> u64 \<Rightarrow> StoreError + nat" where
  "checked_decoded_size is_uncompressed sz =
     (if is_uncompressed
      then (case reject_pack_object_output_over_limit (unat sz) MAX_PACK_OBJECT_OUTPUT_SIZE of
              Inl e \<Rightarrow> Inl e | Inr _ \<Rightarrow> Inr (unat sz))
      else Inr (unat sz))"

text \<open>
  \<^verbatim>\<open>encode_tagged_entry_parts\<close> appends to the buffer before it can fail, so the model returns the
  buffer together with the result.
\<close>

definition encode_tagged_entry_parts ::
  "bytes \<Rightarrow> PackObjectId \<Rightarrow> ObjectType \<Rightarrow> u64 \<Rightarrow> PackObjectId option \<Rightarrow> bytes
    \<Rightarrow> bytes \<times> (StoreError + unit)" where
  "encode_tagged_entry_parts buf oid stored_type usz base compressed =
     (let buf1 = encode_tagged oid buf;
          encoded_type = (if stored_type = OT_AnnotatedTag then OT_Blob else stored_type);
          buf2 = encode_type_and_size encoded_type usz buf1;
          buf3 = encode_varint (word_of_nat (length compressed)) buf2
      in if stored_type = OT_Delta
         then (case base of None \<Rightarrow> (buf3, Inl DeltaMissingBase)
               | Some b \<Rightarrow> (encode_tagged b buf3 @ compressed, Inr ()))
         else (buf3 @ compressed, Inr ()))"

text \<open>The struct literal both decoders end with: its fields are checked in order.\<close>

definition finish_header ::
  "PackObjectId \<Rightarrow> ObjectType \<Rightarrow> u64 \<Rightarrow> u64 \<Rightarrow> PackObjectId option \<Rightarrow> nat
    \<Rightarrow> StoreError + PackEntryHeader" where
  "finish_header oid t usz csz base hl =
     (case checked_decoded_size True usz of Inl e \<Rightarrow> Inl e
      | Inr u \<Rightarrow>
          (case checked_decoded_size False csz of Inl e \<Rightarrow> Inl e
           | Inr c \<Rightarrow> Inr \<lparr>entry_id = oid, obj_type = t, uncompressed_size = u, compressed_size = c,
                delta_base = base, header_len = hl\<rparr>))"

fun is_annotated_tag :: "PackObjectId \<Rightarrow> bool" where
  "is_annotated_tag (PO_AnnotatedTag _) = True"
| "is_annotated_tag _ = False"

definition decode_tagged_entry_header :: "bytes \<Rightarrow> StoreError + PackEntryHeader" where
  "decode_tagged_entry_header data =
     (case decode_tagged data of Inl e \<Rightarrow> Inl e
      | Inr (oid, id_len) \<Rightarrow>
        (case decode_type_and_size (drop id_len data) of None \<Rightarrow> Inl TruncatedTypeAndSize
         | Some (t, usz, type_len) \<Rightarrow>
           if is_annotated_tag oid \<and> t \<noteq> OT_Blob then Inl AnnotatedTagBadType
           else
             let t' = (if is_annotated_tag oid then OT_AnnotatedTag else t);
                 varint_start = id_len + type_len
             in (case decode_varint (drop varint_start data) of None \<Rightarrow> Inl TruncatedCompressedSize
                 | Some (csz, comp_len) \<Rightarrow>
                   let hl = varint_start + comp_len in
                   if t' = OT_Delta
                   then (case decode_tagged (drop hl data) of Inl e \<Rightarrow> Inl e
                         | Inr (base, base_len) \<Rightarrow>
                             finish_header oid t' usz csz (Some base) (hl + base_len))
                   else finish_header oid t' usz csz None hl)))"

text \<open>
  \<^verbatim>\<open>try_decode_tagged_entry_header\<close>, the decoder of a buffer that may still be growing:
  \<open>Inr None\<close> asks for more bytes.
\<close>

definition try_decode_tagged_entry_header :: "bytes \<Rightarrow> StoreError + PackEntryHeader option" where
  "try_decode_tagged_entry_header data =
     (case data of [] \<Rightarrow> Inr None
      | tag # _ \<Rightarrow>
        if tag \<noteq> 0 \<and> tag \<noteq> 1 \<and> tag \<noteq> 2 then Inl (UnknownIdTag tag)
        else if length data < 33 then Inr None
        else
          let h = subslice data 1 33;
              oid = (if tag = 0 then PO_Hash h else if tag = 1 then PO_StateId h
                     else PO_AnnotatedTag h);
              id_len = 33
          in (case decode_type_and_size (drop id_len data) of None \<Rightarrow> Inr None
              | Some (t, usz, type_len) \<Rightarrow>
                if is_annotated_tag oid \<and> t \<noteq> OT_Blob then Inl AnnotatedTagBadType
                else
                  let t' = (if is_annotated_tag oid then OT_AnnotatedTag else t);
                      varint_start = id_len + type_len
                  in (case decode_varint (drop varint_start data) of None \<Rightarrow> Inr None
                      | Some (csz, comp_len) \<Rightarrow>
                        let hl = varint_start + comp_len in
                        if t' = OT_Delta
                        then if length data \<le> hl then Inr None
                          else let base_tag = data ! hl in
                            if base_tag \<noteq> 0 \<and> base_tag \<noteq> 1 then Inl (UnknownIdTag base_tag)
                            else if length data < hl + 33 then Inr None
                            else let bh = subslice data (hl + 1) (hl + 33);
                                     base = (if base_tag = 0 then PO_Hash bh else PO_StateId bh)
                                 in map_sum id Some
                                      (finish_header oid t' usz csz (Some base) (hl + 33))
                        else map_sum id Some (finish_header oid t' usz csz None hl))))"

text \<open>The record a builder hands to \<^verbatim>\<open>encode_tagged_entry\<close>.\<close>

record PackObjectRecord =
  rec_id :: PackObjectId
  rec_type :: ObjectType
  rec_data :: bytes
  rec_delta_base :: "PackObjectId option"
  rec_path_hint :: "string option"

definition encode_tagged_entry ::
  "bytes \<Rightarrow> PackObjectRecord \<Rightarrow> ObjectType \<Rightarrow> bytes \<Rightarrow> bytes \<times> (StoreError + unit)" where
  "encode_tagged_entry buf r stored_type compressed =
     encode_tagged_entry_parts buf (rec_id r) stored_type (word_of_nat (length (rec_data r)))
       (rec_delta_base r) compressed"

section \<open>The container frame\<close>

datatype HeaderChecksum = HC_None | HC_Blake3Trailer

record VersionedHeader =
  magic :: bytes
  version :: u32
  checksum :: HeaderChecksum

record VerifiedHeader =
  count :: u64
  vh_header_len :: nat
  content_end :: nat

definition VERSIONED_HEADER_LEN :: nat where "VERSIONED_HEADER_LEN = 16"
definition BLAKE3_TRAILER_LEN :: nat where "BLAKE3_TRAILER_LEN = 32"

definition write_vec :: "VersionedHeader \<Rightarrow> bytes \<Rightarrow> u64 \<Rightarrow> bytes" where
  "write_vec h buf n = buf @ magic h @ u32_to_be_bytes (version h) @ u64_to_be_bytes n"

fun trailer_len :: "HeaderChecksum \<Rightarrow> nat" where
  "trailer_len HC_None = 0"
| "trailer_len HC_Blake3Trailer = BLAKE3_TRAILER_LEN"

fun append_checksum :: "(bytes \<Rightarrow> bytes) \<Rightarrow> HeaderChecksum \<Rightarrow> bytes \<Rightarrow> bytes" where
  "append_checksum blake3 HC_None buf = buf"
| "append_checksum blake3 HC_Blake3Trailer buf = buf @ blake3 buf"

fun verify_checksum :: "(bytes \<Rightarrow> bytes) \<Rightarrow> HeaderChecksum \<Rightarrow> bytes \<Rightarrow> nat \<Rightarrow> StoreError + unit" where
  "verify_checksum blake3 HC_None data ce = Inr ()"
| "verify_checksum blake3 HC_Blake3Trailer data ce =
     (if blake3 (take ce data) \<noteq> drop ce data then Inl PackChecksumMismatch else Inr ())"

definition verify_layout :: "VersionedHeader \<Rightarrow> bytes \<Rightarrow> StoreError + VerifiedHeader" where
  "verify_layout h data =
     (if length data < VERSIONED_HEADER_LEN + trailer_len (checksum h) then Inl PackTooShort
      else if take 4 data \<noteq> magic h then Inl InvalidPackMagic
      else let v = u32_from_be_bytes (data ! 4) (data ! 5) (data ! 6) (data ! 7) in
        if v \<noteq> version h then Inl (UnsupportedPackVersion v)
        else Inr \<lparr>count = u64_from_be_bytes (subslice data 8 16),
               vh_header_len = VERSIONED_HEADER_LEN,
               content_end = length data - trailer_len (checksum h)\<rparr>)"

definition verify_header ::
  "(bytes \<Rightarrow> bytes) \<Rightarrow> VersionedHeader \<Rightarrow> bytes \<Rightarrow> StoreError + VerifiedHeader" where
  "verify_header blake3 h data =
     (case verify_layout h data of Inl e \<Rightarrow> Inl e
      | Inr vh \<Rightarrow> (case verify_checksum blake3 (checksum h) data (content_end vh) of
            Inl e \<Rightarrow> Inl e | Inr _ \<Rightarrow> Inr vh))"

text \<open>\<^verbatim>\<open>pack_container_spec\<close>: magic \<^verbatim>\<open>LMPK\<close>, version 4, with a BLAKE3 trailer.\<close>

definition pack_container_header :: VersionedHeader where
  "pack_container_header =
     \<lparr>magic = [0x4C, 0x4D, 0x50, 0x4B], version = 4, checksum = HC_Blake3Trailer\<rparr>"

definition write_container_header :: "bytes \<Rightarrow> u64 \<Rightarrow> bytes" where
  "write_container_header buf n = write_vec pack_container_header buf n"

definition append_container_checksum :: "(bytes \<Rightarrow> bytes) \<Rightarrow> bytes \<Rightarrow> bytes" where
  "append_container_checksum blake3 buf = append_checksum blake3 HC_Blake3Trailer buf"

definition verified_triple :: "StoreError + VerifiedHeader \<Rightarrow> StoreError + (u64 \<times> nat \<times> nat)" where
  "verified_triple r = map_sum id (\<lambda>vh. (count vh, vh_header_len vh, content_end vh)) r"

definition verify_supported_container_with ::
  "(bytes \<Rightarrow> bytes) \<Rightarrow> bytes \<Rightarrow> bool \<Rightarrow> StoreError + (u64 \<times> nat \<times> nat)" where
  "verify_supported_container_with blake3 data layout_only =
     (let verify_current = verified_triple
            (if layout_only then verify_layout pack_container_header data
             else verify_header blake3 pack_container_header data)
      in if length data < 8 \<or> take 4 data \<noteq> magic pack_container_header then verify_current
         else let v = u32_from_be_bytes (data ! 4) (data ! 5) (data ! 6) (data ! 7) in
           if v > version pack_container_header then Inl (PackVersionTooNew v)
           else if v < version pack_container_header then Inl (PackVersionUnsupported v)
           else verify_current)"

section \<open>Round trips and streaming\<close>

lemma encode_tagged_buf: "encode_tagged oid buf = buf @ encode_tagged oid []"
  by (cases oid) simp_all

lemma length_encode_tagged: "wf_object_id oid \<Longrightarrow> length (encode_tagged oid []) = 33"
  by (cases oid) (simp_all add: wf_object_id_def)

lemma decode_tagged_encode:
  "wf_object_id oid \<Longrightarrow> decode_tagged (encode_tagged oid [] @ rest) = Inr (oid, 33)"
  by (cases oid) (simp_all add: wf_object_id_def decode_tagged_def subslice_def)

lemma encode_tagged_hd: "\<exists>bs. encode_tagged oid [] =
    (case oid of PO_Hash _ \<Rightarrow> 0 | PO_StateId _ \<Rightarrow> 1 | PO_AnnotatedTag _ \<Rightarrow> 2) # bs"
  by (cases oid) simp_all

interpretation object_id: strict_codec "\<lambda>oid. encode_tagged oid []"
  "\<lambda>data. case decode_tagged data of Inl _ \<Rightarrow> None | Inr r \<Rightarrow> Some r" wf_object_id
proof
  fix oid rest
  assume "wf_object_id oid"
  then show "(case decode_tagged (encode_tagged oid [] @ rest) of Inl _ \<Rightarrow> None | Inr r \<Rightarrow> Some r)
      = Some (oid, length (encode_tagged oid []))"
    by (simp add: decode_tagged_encode length_encode_tagged)
next
  fix oid n
  assume "wf_object_id oid" "n < length (encode_tagged oid [])"
  then have "length (take n (encode_tagged oid [])) < 33" by (simp add: length_encode_tagged)
  then show "(case decode_tagged (take n (encode_tagged oid [])) of Inl _ \<Rightarrow> None | Inr r \<Rightarrow> Some r)
      = None"
    by (auto simp: decode_tagged_def split: list.splits)
qed

text \<open>The header bytes an entry is written with, before its compressed payload.\<close>

definition header_bytes ::
  "PackObjectId \<Rightarrow> ObjectType \<Rightarrow> u64 \<Rightarrow> nat \<Rightarrow> PackObjectId option \<Rightarrow> bytes" where
  "header_bytes oid t usz n base =
     encode_tagged oid [] @ encode_type_and_size (if t = OT_AnnotatedTag then OT_Blob else t) usz []
     @ encode_varint (word_of_nat n) []
     @ (case base of Some b \<Rightarrow> if t = OT_Delta then encode_tagged b [] else [] | None \<Rightarrow> [])"

lemma encode_tagged_entry_parts_eq:
  "encode_tagged_entry_parts buf oid t usz base compressed =
    (if t = OT_Delta \<and> base = None
     then (buf @ header_bytes oid t usz (length compressed) None, Inl DeltaMissingBase)
     else (buf @ header_bytes oid t usz (length compressed) base @ compressed, Inr ()))"
  by (cases base)
    (simp_all add: encode_tagged_entry_parts_def header_bytes_def Let_def
      encode_tagged_buf [of oid buf] encode_type_and_size_buf [of _ _ "buf @ _"]
      encode_varint_buf [of _ "buf @ _"] encode_tagged_buf [of _ "buf @ _"])

text \<open>
  What an entry must satisfy to be readable: ids of 32 bytes, the annotated-tag id exactly on
  annotated-tag objects, a base exactly on deltas, and sizes the reader accepts.
\<close>

definition entry_ok ::
  "PackObjectId \<Rightarrow> ObjectType \<Rightarrow> u64 \<Rightarrow> nat \<Rightarrow> PackObjectId option \<Rightarrow> bool" where
  "entry_ok oid t usz n base \<longleftrightarrow>
     wf_object_id oid \<and> (is_annotated_tag oid \<longleftrightarrow> t = OT_AnnotatedTag)
     \<and> (case base of None \<Rightarrow> t \<noteq> OT_Delta | Some b \<Rightarrow> t = OT_Delta \<and> wf_object_id b)
     \<and> unat usz \<le> MAX_PACK_OBJECT_OUTPUT_SIZE \<and> n < 2 ^ 64"

definition entry_header ::
  "PackObjectId \<Rightarrow> ObjectType \<Rightarrow> u64 \<Rightarrow> nat \<Rightarrow> PackObjectId option \<Rightarrow> PackEntryHeader" where
  "entry_header oid t usz n base =
     \<lparr>entry_id = oid, obj_type = t, uncompressed_size = unat usz, compressed_size = n,
      delta_base = base, header_len = length (header_bytes oid t usz n base)\<rparr>"

lemma finish_header_ok:
  "unat usz \<le> MAX_PACK_OBJECT_OUTPUT_SIZE \<Longrightarrow>
    finish_header oid t usz csz base hl =
      Inr \<lparr>entry_id = oid, obj_type = t, uncompressed_size = unat usz, compressed_size = unat csz,
        delta_base = base, header_len = hl\<rparr>"
  by (simp add: finish_header_def checked_decoded_size_def reject_pack_object_output_over_limit_def)

lemma unat_of_length: "n < 2 ^ 64 \<Longrightarrow> unat (word_of_nat n :: u64) = n"
  by (simp add: unat_of_nat take_bit_nat_eq_self)

lemma decode_header_bytes:
  assumes ok: "entry_ok oid t usz n base"
  shows "decode_tagged_entry_header (header_bytes oid t usz n base @ rest) =
    Inr (entry_header oid t usz n base)"
proof -
  let ?et = "if t = OT_AnnotatedTag then OT_Blob else t"
  let ?I = "encode_tagged oid []" and ?T = "encode_type_and_size ?et usz []"
    and ?V = "encode_varint (word_of_nat n) []"
    and ?B = "case base of Some b \<Rightarrow> if t = OT_Delta then encode_tagged b [] else [] | None \<Rightarrow> []"
  let ?D = "header_bytes oid t usz n base @ rest"
  have D: "?D = ?I @ ?T @ ?V @ ?B @ rest" by (simp add: header_bytes_def)
  have I: "length ?I = 33" and idt: "decode_tagged ?D = Inr (oid, 33)"
    using ok by (simp_all add: entry_ok_def length_encode_tagged decode_tagged_encode D)
  have et: "?et \<noteq> OT_AnnotatedTag" by simp
  have T: "decode_type_and_size (drop 33 ?D) = Some (?et, usz, length ?T)"
    using I et by (simp add: D decode_encode_type_and_size packable_type_bits)
  have V: "decode_varint (drop (33 + length ?T) ?D) = Some (word_of_nat n, length ?V)"
    using I by (simp add: D varint.dec_enc)
  have B: "t = OT_Delta \<Longrightarrow> base = Some b \<Longrightarrow>
      decode_tagged (drop (33 + length ?T + length ?V) ?D) = Inr (b, 33)" for b
    unfolding D using I ok by (simp add: decode_tagged_encode entry_ok_def)
  have len: "length (header_bytes oid t usz n base) = 33 + length ?T + length ?V + length ?B"
    using I by (simp add: header_bytes_def)
  show ?thesis
  proof (cases "t = OT_Delta")
    case True
    then obtain b where b: "base = Some b" "wf_object_id b" and na: "\<not> is_annotated_tag oid"
      using ok by (auto simp: entry_ok_def split: option.splits)
    show ?thesis
      using ok True b na T V B [OF True b(1)] idt len
      by (simp add: decode_tagged_entry_header_def finish_header_ok entry_ok_def entry_header_def
          unat_of_length length_encode_tagged Let_def)
  next
    case False
    then have "base = None" using ok by (auto simp: entry_ok_def split: option.splits)
    then show ?thesis
      using ok False T V idt len
      by (auto simp: decode_tagged_entry_header_def finish_header_ok entry_ok_def entry_header_def
          unat_of_length Let_def)
  qed
qed

text \<open>
  The streaming decoder on the first \<open>m\<close> bytes: the id, the type and size, the payload size and
  the delta base are each either complete or answered with \<open>Inr None\<close>.
\<close>

fun streamable_base :: "PackObjectId option \<Rightarrow> bool" where
  "streamable_base (Some (PO_AnnotatedTag _)) = False"
| "streamable_base _ = True"

lemma encode_tagged_parts:
  "encode_tagged oid [] ! 0 =
    (case oid of PO_Hash _ \<Rightarrow> 0 | PO_StateId _ \<Rightarrow> 1 | PO_AnnotatedTag _ \<Rightarrow> 2)"
  "drop 1 (encode_tagged oid []) = object_id_bytes oid"
  by (cases oid; simp)+

lemma try_decode_id:
  assumes "wf_object_id oid" "take m (encode_tagged oid [] @ rest) = data" "data \<noteq> []"
  shows "hd data \<in> {0, 1, 2}"
    and "33 \<le> m \<Longrightarrow> (if hd data = 0 then PO_Hash (subslice data 1 33)
          else if hd data = 1 then PO_StateId (subslice data 1 33)
          else PO_AnnotatedTag (subslice data 1 33)) = oid"
proof -
  have m: "m \<noteq> 0" using assms by auto
  then have hd: "hd data = (case oid of PO_Hash _ \<Rightarrow> 0 | PO_StateId _ \<Rightarrow> 1 | PO_AnnotatedTag _ \<Rightarrow> 2)"
    using assms(2) [symmetric] by (cases oid; cases m) auto
  then show "hd data \<in> {0, 1, 2}" by (cases oid) auto
  assume "33 \<le> m"
  then have "subslice data 1 33 = object_id_bytes oid"
    using assms(1,2) by (cases oid; cases m) (auto simp: subslice_def wf_object_id_def)
  with hd show "(if hd data = 0 then PO_Hash (subslice data 1 33)
      else if hd data = 1 then PO_StateId (subslice data 1 33)
      else PO_AnnotatedTag (subslice data 1 33)) = oid"
    by (cases oid) simp_all
qed

lemma try_decode_cases:
  assumes "data \<noteq> []" "hd data \<in> {0, 1, 2}"
    and "33 \<le> length data \<Longrightarrow> (if hd data = 0 then PO_Hash (subslice data 1 33)
          else if hd data = 1 then PO_StateId (subslice data 1 33)
          else PO_AnnotatedTag (subslice data 1 33)) = oid"
  shows "try_decode_tagged_entry_header data =
    (if length data < 33 then Inr None
     else (case decode_type_and_size (drop 33 data) of None \<Rightarrow> Inr None
        | Some (t, usz, type_len) \<Rightarrow>
          if is_annotated_tag oid \<and> t \<noteq> OT_Blob then Inl AnnotatedTagBadType
          else let t' = (if is_annotated_tag oid then OT_AnnotatedTag else t)
            in (case decode_varint (drop (33 + type_len) data) of None \<Rightarrow> Inr None
                | Some (csz, comp_len) \<Rightarrow>
                  let hl = 33 + type_len + comp_len in
                  if t' = OT_Delta
                  then if length data \<le> hl then Inr None
                    else if data ! hl \<noteq> 0 \<and> data ! hl \<noteq> 1 then Inl (UnknownIdTag (data ! hl))
                    else if length data < hl + 33 then Inr None
                    else let bh = subslice data (hl + 1) (hl + 33)
                         in map_sum id Some (finish_header oid t' usz csz
                              (Some (if data ! hl = 0 then PO_Hash bh else PO_StateId bh)) (hl + 33))
                  else map_sum id Some (finish_header oid t' usz csz None hl))))"
proof -
  obtain tag tl where data: "data = tag # tl" using assms(1) by (cases data) auto
  have tag: "(tag \<noteq> 0 \<and> tag \<noteq> 1 \<and> tag \<noteq> 2) = False" using assms(2) data by auto
  show ?thesis
  proof (cases "length data < 33")
    case True
    then show ?thesis by (simp add: try_decode_tagged_entry_header_def data tag del: length_Cons)
  next
    case False
    have "(if tag = 0 then PO_Hash (subslice (tag # tl) 1 33)
        else if tag = 1 then PO_StateId (subslice (tag # tl) 1 33)
        else PO_AnnotatedTag (subslice (tag # tl) 1 33)) = oid"
      using assms(3) False by (simp only: data list.sel)
    with False tag show ?thesis
      by (simp only: try_decode_tagged_entry_header_def data list.case Let_def if_False)
  qed
qed

lemma drop_take_append: "drop (length xs) (take m (xs @ ys)) = take (m - length xs) ys"
  by (simp add: drop_take del: take_append)

lemma stream_fields:
  fixes oid :: PackObjectId and usz :: u64
  assumes D: "D = take m (encode_tagged oid [] @ encode_type_and_size et usz []
      @ encode_varint w [] @ rest)"
    and wf: "wf_object_id oid" and et: "et \<noteq> OT_AnnotatedTag" and m: "m \<noteq> 0"
    and tyl: "tyl = length (encode_type_and_size et usz [])" and vl: "vl = length (encode_varint w [])"
  shows "D \<noteq> []" "hd D \<in> {0, 1, 2}"
    "33 \<le> length D \<Longrightarrow> (if hd D = 0 then PO_Hash (subslice D 1 33)
       else if hd D = 1 then PO_StateId (subslice D 1 33) else PO_AnnotatedTag (subslice D 1 33)) = oid"
    "length D = min m (33 + tyl + vl + length rest)"
    "decode_type_and_size (drop 33 D) = (if m - 33 < tyl then None else Some (et, usz, tyl))"
    "decode_varint (drop (33 + tyl) D) = (if m - (33 + tyl) < vl then None else Some (w, vl))"
    "drop (33 + tyl + vl) D = take (m - (33 + tyl + vl)) rest"
proof -
  define I T V where "I = encode_tagged oid []" and "T = encode_type_and_size et usz []"
    and "V = encode_varint w []"
  have lenI: "length I = 33" and lens: "length T = tyl" "length V = vl"
    using wf by (simp_all add: length_encode_tagged I_def T_def V_def tyl vl)
  have D': "D = take m (I @ T @ V @ rest)" by (simp add: D I_def T_def V_def)
  show len: "length D = min m (33 + tyl + vl + length rest)"
    using lenI lens by (simp add: D' del: take_append)
  then show ne: "D \<noteq> []" using m by auto
  note idc = try_decode_id [OF wf D [symmetric] ne]
  show "hd D \<in> {0, 1, 2}" by (rule idc(1))
  show "33 \<le> length D \<Longrightarrow> (if hd D = 0 then PO_Hash (subslice D 1 33)
       else if hd D = 1 then PO_StateId (subslice D 1 33) else PO_AnnotatedTag (subslice D 1 33)) = oid"
    using idc(2) len by simp
  have drops: "drop 33 D = take (m - 33) (T @ V @ rest)"
    "drop (33 + tyl) D = take (m - (33 + tyl)) (V @ rest)"
    "drop (33 + tyl + vl) D = take (m - (33 + tyl + vl)) rest"
    using drop_take_append [of I m "T @ V @ rest"] drop_take_append [of "I @ T" m "V @ rest"]
      drop_take_append [of "I @ T @ V" m rest] lenI lens
    by (simp_all only: D' append_assoc length_append add.assoc)
  show "drop (33 + tyl + vl) D = take (m - (33 + tyl + vl)) rest" by (rule drops(3))
  show "decode_type_and_size (drop 33 D) = (if m - 33 < tyl then None else Some (et, usz, tyl))"
    using type_and_size.dec_prefix [where x = "(et, usz)" and n = "m - 33" and rest = "V @ rest"] et lens
    by (auto simp: drops T_def [symmetric] split: if_splits)
  show "decode_varint (drop (33 + tyl) D) = (if m - (33 + tyl) < vl then None else Some (w, vl))"
    using varint.dec_prefix [where x = w and n = "m - (33 + tyl)" and rest = rest] lens by (simp add: drops V_def [symmetric])
qed

lemma stream_base:
  assumes "drop hl D = take (m - hl) (encode_tagged b [] @ rest)" "wf_object_id b"
    and "streamable_base (Some b)"
  shows "hl < m \<Longrightarrow> hl < length D \<Longrightarrow> D ! hl = 0 \<or> D ! hl = 1"
    "hl + 33 \<le> m \<Longrightarrow> hl < length D \<Longrightarrow> (if D ! hl = 0
       then PO_Hash (subslice D (hl + 1) (hl + 33)) else PO_StateId (subslice D (hl + 1) (hl + 33))) = b"
proof -
  have tag: "D ! hl = encode_tagged b [] ! 0" if "hl < m" "hl < length D"
    using that arg_cong [OF assms(1), of "\<lambda>xs. xs ! 0"] length_encode_tagged [OF assms(2)]
    by (simp add: nth_append)
  then show "hl < m \<Longrightarrow> hl < length D \<Longrightarrow> D ! hl = 0 \<or> D ! hl = 1"
    using assms(3) by (cases b) simp_all
  assume m: "hl + 33 \<le> m" and l: "hl < length D"
  have "drop (hl + 1) D = drop 1 (take (m - hl) (encode_tagged b [] @ rest))"
    using assms(1) by (metis add.commute drop_drop)
  then have "subslice D (hl + 1) (hl + 33) = object_id_bytes b"
    using m encode_tagged_parts(2) [of b] assms(2) length_encode_tagged [OF assms(2)]
    by (simp add: subslice_def drop_take wf_object_id_def)
  with tag m l show "(if D ! hl = 0 then PO_Hash (subslice D (hl + 1) (hl + 33))
      else PO_StateId (subslice D (hl + 1) (hl + 33))) = b"
    using assms(3) by (cases b) simp_all
qed

lemma try_decode_header_bytes:
  assumes ok: "entry_ok oid t usz n base" and str: "streamable_base base"
  shows "try_decode_tagged_entry_header (take m (header_bytes oid t usz n base @ rest)) =
    Inr (if m < length (header_bytes oid t usz n base) then None
         else Some (entry_header oid t usz n base))"
proof (cases "m = 0")
  case True
  then show ?thesis
    using ok by (simp add: try_decode_tagged_entry_header_def header_bytes_def entry_ok_def
        length_encode_tagged)
next
  case m0: False
  define et where "et = (if t = OT_AnnotatedTag then OT_Blob else t)"
  define B where "B = (case base of Some b \<Rightarrow> if t = OT_Delta then encode_tagged b [] else []
     | None \<Rightarrow> [])"
  define D where "D = take m (header_bytes oid t usz n base @ rest)"
  let ?tl = "length (encode_type_and_size et usz [])"
  let ?vl = "length (encode_varint (word_of_nat n) [])"
  have wf: "wf_object_id oid" and usz: "unat usz \<le> MAX_PACK_OBJECT_OUTPUT_SIZE"
    and ann: "is_annotated_tag oid \<longleftrightarrow> t = OT_AnnotatedTag" and n: "unat (word_of_nat n :: u64) = n"
    using ok by (simp_all add: entry_ok_def unat_of_length)
  have D: "D = take m (encode_tagged oid [] @ encode_type_and_size et usz []
      @ encode_varint (word_of_nat n) [] @ B @ rest)"
    by (simp add: D_def header_bytes_def et_def B_def)
  have et: "et \<noteq> OT_AnnotatedTag" by (simp add: et_def)
  have hlen: "length (header_bytes oid t usz n base) = 33 + ?tl + ?vl + length B"
    using wf by (simp add: header_bytes_def length_encode_tagged et_def B_def)
  note f = stream_fields [OF D wf et m0 refl refl]
  note step = try_decode_cases [OF f(1,2,3)]
  show ?thesis
  proof (cases "t = OT_Delta")
    case False
    then have "base = None" "B = []"
      using ok by (auto simp: entry_ok_def B_def split: option.splits)
    then show ?thesis
      unfolding D_def [symmetric] using step f(4-6) False ann usz n hlen
      by (auto simp: finish_header_ok entry_header_def et_def Let_def)
  next
    case True
    then obtain b where b: "base = Some b" and wfb: "wf_object_id b" and na: "\<not> is_annotated_tag oid"
      using ok by (auto simp: entry_ok_def split: option.splits)
    have B: "B = encode_tagged b []" and lenB: "length B = 33"
      using True b wfb by (simp_all add: B_def length_encode_tagged)
    note sb = stream_base [OF f(7) [unfolded B] wfb str [unfolded b]]
    show ?thesis
      unfolding D_def [symmetric] using step f(4-6) sb True ann usz n hlen b lenB
      by (auto simp: finish_header_ok entry_header_def et_def Let_def)
  qed
qed

text \<open>A delta whose base is an annotated tag: the streaming decoder fails at the tag of the base.\<close>

lemma try_decode_annotated_base:
  assumes ok: "entry_ok oid OT_Delta usz n (Some (PO_AnnotatedTag h))"
  shows "try_decode_tagged_entry_header (take m (header_bytes oid OT_Delta usz n (Some (PO_AnnotatedTag h)) @ rest)) =
    (if m + 33 \<le> length (header_bytes oid OT_Delta usz n (Some (PO_AnnotatedTag h))) then Inr None
     else Inl (UnknownIdTag 2))"
proof (cases "m = 0")
  case True
  then show ?thesis
    using ok by (simp add: try_decode_tagged_entry_header_def header_bytes_def entry_ok_def length_encode_tagged)
next
  case m0: False
  define D where "D = take m (header_bytes oid OT_Delta usz n (Some (PO_AnnotatedTag h)) @ rest)"
  define hl where "hl = 33 + length (encode_type_and_size OT_Delta usz []) + length (encode_varint (word_of_nat n) [])"
  have wf: "wf_object_id oid" and na: "\<not> is_annotated_tag oid" and h: "length h = 32"
    using ok by (auto simp: entry_ok_def wf_object_id_def)
  have D: "D = take m (encode_tagged oid [] @ encode_type_and_size OT_Delta usz []
      @ encode_varint (word_of_nat n) [] @ (2 # h) @ rest)"
    by (simp add: D_def header_bytes_def)
  have len: "length (header_bytes oid OT_Delta usz n (Some (PO_AnnotatedTag h))) = hl + 33"
    using wf h by (simp add: hl_def header_bytes_def length_encode_tagged)
  have et: "OT_Delta \<noteq> OT_AnnotatedTag" by simp
  note f = stream_fields [OF D wf et m0 refl refl, folded hl_def]
  have tag: "D ! hl = 2" if "hl < length D"
  proof -
    have "D ! hl = hd (drop hl D)" using that by (simp add: hd_drop_conv_nth)
    then show ?thesis using that f(4,7) by (cases "m - hl") (auto simp: hl_def)
  qed
  show ?thesis
    unfolding D_def [symmetric] using try_decode_cases [OF f(1,2,3)] f(4-6) na tag len h
    by (auto simp: Let_def hl_def)
qed

section \<open>The container frame is readable\<close>

lemma framed_fields:
  fixes h :: VersionedHeader and n :: u64 and rest :: bytes
  assumes "length (magic h) = 4"
  defines "d \<equiv> write_vec h [] n @ rest"
  shows "take 4 d = magic h" "u32_from_be_bytes (d ! 4) (d ! 5) (d ! 6) (d ! 7) = version h"
    "u64_from_be_bytes (subslice d 8 16) = n" "length d = 16 + length rest"
proof -
  obtain a b c e where m: "magic h = [a, b, c, e]"
    using assms(1) by (auto simp: numeral_eq_Suc length_Suc_conv)
  show "take 4 d = magic h" "length d = 16 + length rest"
    using assms(1) by (simp_all add: d_def write_vec_def)
  show "u32_from_be_bytes (d ! 4) (d ! 5) (d ! 6) (d ! 7) = version h"
    using u32_be_roundtrip [of "version h"] by (simp add: d_def write_vec_def m u32_to_be_bytes_def)
  have "subslice d 8 16 = u64_to_be_bytes n"
    by (simp add: d_def write_vec_def m u32_to_be_bytes_def subslice_def)
  then show "u64_from_be_bytes (subslice d 8 16) = n" by (simp only: u64_be_roundtrip)
qed

lemma verify_header_written:
  assumes "length (magic h) = 4" "\<And>bs. length (blake3 bs) = BLAKE3_TRAILER_LEN"
  shows "verify_header blake3 h (append_checksum blake3 (checksum h) (write_vec h [] n @ body)) =
    Inr \<lparr>count = n, vh_header_len = 16, content_end = 16 + length body\<rparr>"
proof (cases "checksum h")
  case HC_None
  then show ?thesis
    using framed_fields [OF assms(1), of n body]
    by (simp add: verify_header_def verify_layout_def VERSIONED_HEADER_LEN_def)
next
  case HC_Blake3Trailer
  let ?t = "blake3 (write_vec h [] n @ body)"
  show ?thesis
    using framed_fields [OF assms(1), of n "body @ ?t"] framed_fields(4) [OF assms(1), of n body]
      HC_Blake3Trailer assms(2) [of "write_vec h [] n @ body"]
    by (simp add: verify_header_def verify_layout_def VERSIONED_HEADER_LEN_def)
qed

lemma verify_written_pack:
  assumes "\<And>bs. length (blake3 bs) = BLAKE3_TRAILER_LEN"
  shows "verify_supported_container_with blake3
      (append_container_checksum blake3 (write_container_header [] n @ body)) layout_only =
    Inr (n, 16, 16 + length body)"
proof -
  let ?d = "write_vec pack_container_header [] n @ body @ blake3 (write_vec pack_container_header [] n @ body)"
  have m: "length (magic pack_container_header) = 4" by (simp add: pack_container_header_def)
  have v: "verify_header blake3 pack_container_header ?d =
      Inr \<lparr>count = n, vh_header_len = 16, content_end = 16 + length body\<rparr>"
    using verify_header_written [OF m, of blake3 n body] assms by (simp add: pack_container_header_def)
  then have "verify_layout pack_container_header ?d =
      Inr \<lparr>count = n, vh_header_len = 16, content_end = 16 + length body\<rparr>"
    by (auto simp: verify_header_def split: sum.splits)
  with v framed_fields(1,2,4) [OF m, of n "body @ blake3 (write_vec pack_container_header [] n @ body)"]
  show ?thesis
    by (simp add: verify_supported_container_with_def append_container_checksum_def
        write_container_header_def verified_triple_def)
qed

section \<open>Properties\<close>

text \<open>C9: An entry written by \<^verbatim>\<open>encode_tagged_entry_parts\<close> after any buffer contents is read back
  by \<^verbatim>\<open>decode_tagged_entry_header\<close> with its id, type, sizes and delta base, and the payload lies
  where the header says: at \<^verbatim>\<open>header_len\<close>, \<^verbatim>\<open>compressed_size\<close> bytes long.\<close>

theorem pack_entry_roundtrip:
  assumes "entry_ok oid t usz (length compressed) base"
    and "encode_tagged_entry_parts buf oid t usz base compressed = (out, r)"
  shows "r = Inr () \<and> take (length buf) out = buf \<and>
    (\<exists>h. decode_tagged_entry_header (drop (length buf) out @ rest) = Inr h
      \<and> entry_id h = oid \<and> obj_type h = t \<and> uncompressed_size h = unat usz \<and> delta_base h = base
      \<and> subslice (drop (length buf) out @ rest) (header_len h) (header_len h + compressed_size h)
          = compressed)"
proof -
  have out: "out = buf @ header_bytes oid t usz (length compressed) base @ compressed" and r: "r = Inr ()"
    using assms by (auto simp: encode_tagged_entry_parts_eq entry_ok_def split: if_splits)
  have d: "decode_tagged_entry_header (drop (length buf) out @ rest) =
      Inr (entry_header oid t usz (length compressed) base)"
    using decode_header_bytes [OF assms(1), of "compressed @ rest"] by (simp add: out)
  show ?thesis
    using d r by (simp add: out entry_header_def subslice_def)
qed

theorem pack_entry_roundtrip_witness:
  "entry_ok (PO_StateId (replicate 32 7)) OT_Delta 5 (length [1, 2, 3]) (Some (PO_Hash (replicate 32 9)))
   \<and> snd (encode_tagged_entry_parts [0xAA] (PO_StateId (replicate 32 7)) OT_Delta 5
        (Some (PO_Hash (replicate 32 9))) [1, 2, 3]) = Inr ()"
proof -
  let ?p = "encode_tagged_entry_parts [0xAA] (PO_StateId (replicate 32 7)) OT_Delta 5
        (Some (PO_Hash (replicate 32 9))) [1, 2, 3]"
  have ok: "entry_ok (PO_StateId (replicate 32 7)) OT_Delta 5 (length [1, 2, 3 :: u8])
      (Some (PO_Hash (replicate 32 9)))"
    by (simp add: entry_ok_def wf_object_id_def MAX_PACK_OBJECT_OUTPUT_SIZE_def)
  show ?thesis
    using ok pack_entry_roundtrip [OF ok, of "[0xAA]" "fst ?p" "snd ?p"] by simp
qed

text \<open>C10: The streaming decoder, given the first \<open>m\<close> bytes of a well-formed entry, which the strict decoder accepts, asks for
  more bytes exactly while the header is incomplete and then returns the same header as the strict
  decoder: it never fails on, nor misreads, a truncated header. The one exception is a delta whose base is an annotated tag: there
  the streaming decoder fails, from the byte on that tags the base, with the base tag as unknown.\<close>

theorem streaming_decoder_complete:
  assumes "entry_ok oid t usz n base"
  shows "decode_tagged_entry_header (header_bytes oid t usz n base @ rest) = Inr (entry_header oid t usz n base)
    \<and> try_decode_tagged_entry_header (take m (header_bytes oid t usz n base @ rest)) =
      (case base of
         Some (PO_AnnotatedTag _) \<Rightarrow>
           if m + 33 \<le> length (header_bytes oid t usz n base) then Inr None else Inl (UnknownIdTag 2)
       | _ \<Rightarrow>
           if m < length (header_bytes oid t usz n base) then Inr None
           else map_sum id Some (decode_tagged_entry_header (header_bytes oid t usz n base @ rest)))"
proof (cases "\<exists>h. base = Some (PO_AnnotatedTag h)")
  case True
  then obtain h where h: "base = Some (PO_AnnotatedTag h)" by blast
  then have "t = OT_Delta" using assms by (simp add: entry_ok_def)
  then show ?thesis using assms try_decode_annotated_base [of oid usz n h] decode_header_bytes [OF assms] by (simp add: h)
next
  case False
  then have "streamable_base base" by (cases base rule: streamable_base.cases) auto
  then show ?thesis
    using False unfolding try_decode_header_bytes [OF assms \<open>streamable_base base\<close>] decode_header_bytes [OF assms]
    by (auto split: option.splits PackObjectId.splits)
qed

theorem streaming_decoder_complete_witness:
  "try_decode_tagged_entry_header
     (take 34 (header_bytes (PO_Hash (replicate 32 1)) OT_Blob 300 2 None @ [5, 6])) = Inr None"
proof -
  have ok: "entry_ok (PO_Hash (replicate 32 1)) OT_Blob 300 2 None"
    by (simp add: entry_ok_def wf_object_id_def MAX_PACK_OBJECT_OUTPUT_SIZE_def)
  have len: "34 < length (header_bytes (PO_Hash (replicate 32 1)) OT_Blob 300 2 None)"
    by (simp add: header_bytes_def encode_type_and_size_def push_size.simps encode_varint.simps Let_def)
  show ?thesis
    using streaming_decoder_complete [OF ok, of "[5, 6]" 34] len by simp
qed

text \<open>The two decoders disagree on a delta whose base is an annotated tag: the strict decoder
  returns the header, the streaming decoder rejects the base tag 2 as unknown.\<close>

theorem decoders_disagree_on_annotated_base:
  assumes "entry_ok oid OT_Delta usz n (Some (PO_AnnotatedTag h))"
  shows "decode_tagged_entry_header (header_bytes oid OT_Delta usz n (Some (PO_AnnotatedTag h)) @ rest) =
      Inr (entry_header oid OT_Delta usz n (Some (PO_AnnotatedTag h)))
    \<and> try_decode_tagged_entry_header (header_bytes oid OT_Delta usz n (Some (PO_AnnotatedTag h)) @ rest) =
      Inl (UnknownIdTag 2)"
proof -
  have len: "33 \<le> length (header_bytes oid OT_Delta usz n (Some (PO_AnnotatedTag h)))"
    using assms by (simp add: header_bytes_def entry_ok_def length_encode_tagged)
  show ?thesis
    using try_decode_annotated_base [OF assms, of "length (header_bytes oid OT_Delta usz n (Some (PO_AnnotatedTag h)) @ rest)" rest]
      decode_header_bytes [OF assms] len by simp
qed

theorem decoders_disagree_on_annotated_base_witness:
  "try_decode_tagged_entry_header (header_bytes (PO_Hash (replicate 32 1)) OT_Delta 4 3
      (Some (PO_AnnotatedTag (replicate 32 2))) @ [0, 0, 0]) = Inl (UnknownIdTag 2)"
proof -
  have "entry_ok (PO_Hash (replicate 32 1)) OT_Delta 4 3 (Some (PO_AnnotatedTag (replicate 32 2)))"
    by (simp add: entry_ok_def wf_object_id_def MAX_PACK_OBJECT_OUTPUT_SIZE_def)
  then show ?thesis by (rule decoders_disagree_on_annotated_base [THEN conjunct2])
qed

text \<open>C11: A pack framed by \<^verbatim>\<open>write_container_header\<close> and \<^verbatim>\<open>append_container_checksum\<close> is accepted by
  the reader with its object count and the bounds of its content, for every hash function with
  32-byte digests.\<close>

theorem pack_container_roundtrip:
  assumes "\<And>bs. length (blake3 bs) = BLAKE3_TRAILER_LEN"
  shows "verify_supported_container_with blake3
      (append_container_checksum blake3 (write_container_header [] n @ body)) layout_only =
    Inr (n, 16, 16 + length body)"
  using assms by (rule verify_written_pack)

theorem pack_container_roundtrip_witness:
  "verify_supported_container_with (\<lambda>_. replicate 32 0)
     (append_container_checksum (\<lambda>_. replicate 32 0) (write_container_header [] 2 @ [1, 2, 3])) False
    = Inr (2, 16, 19)"
  using pack_container_roundtrip [of "\<lambda>_. replicate 32 0" 2 "[1, 2, 3]" False]
  by (simp add: BLAKE3_TRAILER_LEN_def)

text \<open>Whatever the full check accepts is a version-4 pack whose trailer is the digest of
  everything before it, and the content ends where the trailer starts.\<close>

theorem pack_container_integrity:
  assumes "verify_supported_container_with blake3 data False = Inr (n, hl, ce)"
  shows "take 4 data = magic pack_container_header \<and> 48 \<le> length data
    \<and> u32_from_be_bytes (data ! 4) (data ! 5) (data ! 6) (data ! 7) = 4
    \<and> n = u64_from_be_bytes (subslice data 8 16) \<and> hl = 16 \<and> ce = length data - 32
    \<and> data = take ce data @ blake3 (take ce data)"
proof -
  have "\<exists>vh. verify_header blake3 pack_container_header data = Inr vh
      \<and> n = count vh \<and> hl = vh_header_len vh \<and> ce = content_end vh"
    using assms
    by (auto simp: verify_supported_container_with_def verified_triple_def Let_def map_sum_def
        split: if_splits sum.splits)
  then obtain vh where vh: "verify_header blake3 pack_container_header data = Inr vh"
      "n = count vh" "hl = vh_header_len vh" "ce = content_end vh" by blast
  from vh(1) have "verify_layout pack_container_header data = Inr vh"
    and "blake3 (take (content_end vh) data) = drop (content_end vh) data"
    by (auto simp: verify_header_def pack_container_header_def split: sum.splits if_splits)
  with vh(2-4) show ?thesis
    by (auto simp: verify_layout_def pack_container_header_def VERSIONED_HEADER_LEN_def
        BLAKE3_TRAILER_LEN_def Let_def split: if_splits)
qed

theorem pack_container_integrity_witness:
  "take 4 (append_container_checksum (\<lambda>_. replicate 32 0) (write_container_header [] 2 @ [1, 2, 3]))
    = magic pack_container_header"
proof -
  have "verify_supported_container_with (\<lambda>_. replicate 32 0)
     (append_container_checksum (\<lambda>_. replicate 32 0) (write_container_header [] 2 @ [1, 2, 3])) False
    = Inr (2, 16, 19)"
    using verify_written_pack [of "\<lambda>_. replicate 32 0" 2 "[1, 2, 3]" False]
    by (simp add: BLAKE3_TRAILER_LEN_def)
  then show ?thesis by (rule pack_container_integrity [THEN conjunct1])
qed

end
