(* ===== verification/Delta_Decoder.thy ===== *)
theory Delta_Decoder
  imports Heddle_Prelude
begin

text \<open>
  The delta decoder of \<^verbatim>\<open>src/crates/format/src/delta/delta_decoder.rs\<close>: insert and copy
  instructions applied to a base, with every way it can fail as a value of \<open>DeltaError\<close>.
\<close>

definition MAX_DELTA_OUTPUT_SIZE :: nat where
  "MAX_DELTA_OUTPUT_SIZE = 128 * 1024 * 1024"

text \<open>The fields, in the order of the source: attempted and limit; instruction offset, length and
  available bytes; instruction offset, expected and available bytes; instruction offset, copy start,
  copy end and base length; instruction offset.\<close>

datatype DeltaError =
  OutputLimitExceeded nat nat
| TruncatedLiteral nat nat nat
| TruncatedCopyInstruction nat nat nat
| InvalidBaseRange nat nat nat nat
| ReservedInstruction nat

definition ensure_output_limit :: "nat \<Rightarrow> nat \<Rightarrow> nat \<Rightarrow> DeltaError + unit" where
  "ensure_output_limit current_len append_len max_output =
     (case checked_add current_len append_len of
        None \<Rightarrow> Inl (OutputLimitExceeded usize_max max_output)
      | Some attempted \<Rightarrow>
          if attempted > max_output then Inl (OutputLimitExceeded attempted max_output) else Inr ())"

text \<open>How many argument bytes a copy header announces.\<close>

definition copy_expected :: "u8 \<Rightarrow> nat" where
  "copy_expected header =
     of_bool (header AND 0x01 \<noteq> 0) + of_bool (header AND 0x02 \<noteq> 0) + of_bool (header AND 0x04 \<noteq> 0)
     + of_bool (header AND 0x08 \<noteq> 0) + of_bool (header AND 0x10 \<noteq> 0)
     + of_bool (header AND 0x20 \<noteq> 0) + of_bool (header AND 0x40 \<noteq> 0)"

text \<open>
  \<^verbatim>\<open>if header & flag != 0 { acc |= (delta[pos] as usize) << shift; pos += 1 }\<close>, one step of the
  operand decoding. The accumulated values stay below \<open>2 ^ 32\<close>, so a 64-bit word holds them.
\<close>

definition operand_step :: "bytes \<Rightarrow> bool \<Rightarrow> nat \<Rightarrow> u64 \<times> nat \<Rightarrow> u64 \<times> nat" where
  "operand_step delta flag shift = (\<lambda>(acc, pos).
     if flag then (acc OR push_bit shift (ucast (delta ! pos)), pos + 1) else (acc, pos))"

definition decode_copy_offset :: "u8 \<Rightarrow> bytes \<Rightarrow> nat \<Rightarrow> u64 \<times> nat" where
  "decode_copy_offset header delta pos =
     operand_step delta (header AND 0x08 \<noteq> 0) 24 (operand_step delta (header AND 0x04 \<noteq> 0) 16
       (operand_step delta (header AND 0x02 \<noteq> 0) 8 (operand_step delta (header AND 0x01 \<noteq> 0) 0 (0, pos))))"

definition decode_copy_length :: "u8 \<Rightarrow> bytes \<Rightarrow> nat \<Rightarrow> u64 \<times> nat" where
  "decode_copy_length header delta pos =
     (case operand_step delta (header AND 0x40 \<noteq> 0) 16 (operand_step delta (header AND 0x20 \<noteq> 0) 8
             (operand_step delta (header AND 0x10 \<noteq> 0) 0 (0, pos))) of
        (len, pos') \<Rightarrow> (if len = 0 then 0x10000 else len, pos'))"

text \<open>One iteration of the \<^verbatim>\<open>while pos < delta.len()\<close> loop: the next position and output.\<close>

definition decode_step ::
  "bytes \<Rightarrow> bytes \<Rightarrow> nat \<Rightarrow> nat \<Rightarrow> bytes \<Rightarrow> DeltaError + (nat \<times> bytes)" where
  "decode_step base delta max_output pos0 target =
     (let header = delta ! pos0; pos = pos0 + 1 in
      if header AND 0x80 = 0 then
        let len = unat (header + 1) in
        if pos + len > length delta then Inl (TruncatedLiteral pos0 len (length delta - pos))
        else (case ensure_output_limit (length target) len max_output of Inl e \<Rightarrow> Inl e
              | Inr _ \<Rightarrow> Inr (pos + len, target @ subslice delta pos (pos + len)))
      else if header = 0x80 then Inl (ReservedInstruction pos0)
      else if pos + copy_expected header > length delta then
        Inl (TruncatedCopyInstruction pos0 (copy_expected header) (length delta - pos))
      else
        let (off, pos1) = decode_copy_offset header delta pos;
            (len, pos2) = decode_copy_length header delta pos1;
            offset = unat off; length' = unat len
        in (case checked_add offset length' of
              None \<Rightarrow> Inl (InvalidBaseRange pos0 offset usize_max (length base))
            | Some copy_end \<Rightarrow>
                if copy_end > length base then
                  Inl (InvalidBaseRange pos0 offset copy_end (length base))
                else (case ensure_output_limit (length target) length' max_output of Inl e \<Rightarrow> Inl e
                      | Inr _ \<Rightarrow> Inr (pos2, target @ subslice base offset copy_end))))"

lemma operand_step_le:
  "pos \<le> snd (operand_step delta f sh (acc, pos))" "snd (operand_step delta f sh p) \<le> snd p + 1"
  by (cases p; simp add: operand_step_def)+

lemma operand_step_mono: "snd p \<le> snd (operand_step delta f sh p)"
  by (cases p) (simp add: operand_step_def)

lemma decode_copy_offset_le: "pos \<le> snd (decode_copy_offset header delta pos)"
  unfolding decode_copy_offset_def by (rule order_trans [OF _ operand_step_mono])+ simp

lemma decode_copy_length_le: "pos \<le> snd (decode_copy_length header delta pos)"
proof -
  have "pos \<le> snd (operand_step delta (header AND 0x40 \<noteq> 0) 16
      (operand_step delta (header AND 0x20 \<noteq> 0) 8 (operand_step delta (header AND 0x10 \<noteq> 0) 0 (0, pos))))"
    by (rule order_trans [OF _ operand_step_mono])+ simp
  then show ?thesis by (auto simp: decode_copy_length_def split: prod.splits)
qed

lemma decode_step_advances:
  "decode_step base delta mx pos target = Inr (pos', target') \<Longrightarrow> pos < pos'"
  using decode_copy_offset_le [of "Suc pos" "delta ! pos" delta]
    decode_copy_length_le [of "snd (decode_copy_offset (delta ! pos) delta (Suc pos))" "delta ! pos" delta]
  by (auto simp: decode_step_def Let_def split: if_splits sum.splits option.splits prod.splits)

function decode_loop :: "bytes \<Rightarrow> bytes \<Rightarrow> nat \<Rightarrow> nat \<Rightarrow> bytes \<Rightarrow> DeltaError + bytes" where
  "decode_loop base delta max_output pos target =
     (if pos < length delta
      then (case decode_step base delta max_output pos target of Inl e \<Rightarrow> Inl e
            | Inr (pos', target') \<Rightarrow> decode_loop base delta max_output pos' target')
      else Inr target)"
  by pat_completeness auto
termination
  by (relation "measure (\<lambda>(base, delta, mx, pos, target). length delta - pos)")
    (auto dest!: decode_step_advances)

declare decode_loop.simps [simp del]

definition delta_decode :: "bytes \<Rightarrow> bytes \<Rightarrow> nat \<Rightarrow> DeltaError + bytes" where
  "delta_decode base delta max_output = decode_loop base delta max_output 0 []"

section \<open>Output bound and failure modes\<close>

lemma ensure_output_limit_ok:
  "ensure_output_limit a b mx = Inr u \<Longrightarrow> a + b \<le> mx"
  by (auto simp: ensure_output_limit_def checked_add_def split: if_splits)

lemma decode_step_length:
  assumes "decode_step base delta mx pos target = Inr (pos', target')" "pos < length delta"
  shows "length target' \<le> mx" and "take (length target) target' = target"
  using assms
  by (auto simp: decode_step_def Let_def checked_add_def dest!: ensure_output_limit_ok
      split: if_splits sum.splits option.splits prod.splits)

lemma decode_loop_length:
  "decode_loop base delta mx pos target = Inr out \<Longrightarrow> length target \<le> mx \<Longrightarrow> length out \<le> mx"
proof (induction base delta mx pos target rule: decode_loop.induct)
  case (1 base delta mx pos target)
  show ?case
  proof (cases "pos < length delta")
    case True
    then obtain pos' target' where step: "decode_step base delta mx pos target = Inr (pos', target')"
      and rest: "decode_loop base delta mx pos' target' = Inr out"
      using "1.prems"(1) by (auto simp: decode_loop.simps [of base delta mx pos] split: sum.splits)
    show ?thesis
      using "1.IH" [OF True step refl rest] decode_step_length(1) [OF step True] by blast
  next
    case False
    then show ?thesis using "1.prems" by (simp add: decode_loop.simps [of base delta mx pos])
  qed
qed

end
