(* ===== verification/Rust_Search.thy ===== *)
theory Rust_Search
  imports Main
begin

text \<open>
  The halving loop of \<^verbatim>\<open>slice::binary_search_by\<close> in the standard library: on a sorted slice it finds a key that is there.
\<close>

function bsearch_loop :: "'a :: linorder list \<Rightarrow> 'a \<Rightarrow> nat \<Rightarrow> nat \<Rightarrow> nat" where
  "bsearch_loop keys key base sz =
     (if sz > 1
      then let half = sz div 2; mid = base + half
           in bsearch_loop keys key (if keys ! mid > key then base else mid) (sz - half)
      else base)"
  by pat_completeness auto
termination by (relation "measure (\<lambda>(keys, key, base, sz). sz)") auto

declare bsearch_loop.simps [simp del]

lemma bsearch_loop_range:
  assumes "base + sz \<le> length keys" "0 < sz"
  shows "bsearch_loop keys key base sz < length keys"
  using assms
proof (induction keys key base sz rule: bsearch_loop.induct)
  case (1 keys key base sz)
  show ?case
  proof (cases "sz > 1")
    case True
    then show ?thesis
      using "1.IH" [OF True refl refl] "1.prems"
      by (cases "keys ! (base + sz div 2) > key") (simp_all add: bsearch_loop.simps [of _ _ _ sz] Let_def)
  next
    case False
    then show ?thesis using "1.prems" by (simp add: bsearch_loop.simps [of _ _ _ sz])
  qed
qed

lemma bsearch_loop_finds:
  assumes "sorted keys" "base + sz \<le> length keys" "0 < sz" "key \<in> set keys"
    and "base = 0 \<or> keys ! base \<le> key" "\<And>j. base + sz \<le> j \<Longrightarrow> j < length keys \<Longrightarrow> key < keys ! j"
  shows "keys ! bsearch_loop keys key base sz = key"
  using assms
proof (induction keys key base sz rule: bsearch_loop.induct)
  case (1 keys key base sz)
  show ?case
  proof (cases "sz > 1")
    case True
    let ?half = "sz div 2"
    have mid: "base + ?half < length keys" using True "1.prems"(2) by simp
    show ?thesis
    proof (cases "keys ! (base + ?half) > key")
      case gt: True
      have "key < keys ! j" if "base + (sz - ?half) \<le> j" "j < length keys" for j
        using that gt True sorted_nth_mono [OF "1.prems"(1), of "base + ?half" j] by force
      then show ?thesis
        using True gt "1.prems" "1.IH" [OF True refl refl] by (simp add: bsearch_loop.simps [of _ _ _ sz] Let_def)
    next
      case le: False
      note IH = "1.IH" [OF True refl refl, unfolded if_not_P [OF le]]
      have "keys ! bsearch_loop keys key (base + ?half) (sz - ?half) = key"
        using "1.prems"(2,6) le True by (intro IH "1.prems"(1,4)) (auto simp: not_less)
      then show ?thesis using True le by (simp add: bsearch_loop.simps [of _ _ _ sz] Let_def)
    qed
  next
    case False
    then have sz: "sz = 1" using "1.prems"(3) by simp
    obtain j where j: "j < length keys" "keys ! j = key" using "1.prems"(4) by (auto simp: in_set_conv_nth)
    have "j \<le> base" using "1.prems"(6) [of j] j sz by force
    then have "key \<le> keys ! base"
      using sorted_nth_mono [OF "1.prems"(1), of j base] j "1.prems"(2) sz by simp
    then show ?thesis using "1.prems"(5) \<open>j \<le> base\<close> j by (auto simp: bsearch_loop.simps [of _ _ _ "Suc 0"] sz)
  qed
qed

end
