(* ===== verification/Delta_Encoder.thy ===== *)
theory Delta_Encoder
  imports Delta_Decoder Rust_Search "HOL-Library.Product_Lexorder"
begin

text \<open>
  The delta encoder of \<^verbatim>\<open>src/crates/format/src/delta/delta_encoder.rs\<close>: the sampled index of a base,
  the search for the longest match, the emission of copy and insert instructions, and the size
  estimator that shares the search. \<^verbatim>\<open>slice::binary_search_by_key\<close> is modelled by the halving loop
  of the standard library and \<^verbatim>\<open>partition_point\<close> by the length of the prefix that satisfies the
  predicate, which is its documented result on a partitioned slice.
\<close>

section \<open>Constants and the index\<close>

definition MIN_MATCH_LENGTH_LARGE :: nat where "MIN_MATCH_LENGTH_LARGE = 16"
definition MIN_MATCH_LENGTH_SMALL :: nat where "MIN_MATCH_LENGTH_SMALL = 8"
definition MAX_MATCH_CANDIDATES :: nat where "MAX_MATCH_CANDIDATES = 1024"
definition MATCH_CHUNK_SIZE :: nat where "MATCH_CHUNK_SIZE = 32"
definition MAX_COPY_LENGTH :: nat where "MAX_COPY_LENGTH = 0xFFFFFF"
definition INDEX_BLOCK_SIZE :: nat where "INDEX_BLOCK_SIZE = 16"
definition MAX_INDEX_BYTES :: nat where "MAX_INDEX_BYTES = 4 * 1024 * 1024"
definition DENSE_INDEX_BELOW :: nat where "DENSE_INDEX_BELOW = 1024"
definition u32_max :: nat where "u32_max = 2 ^ 32 - 1"

record IndexEntry =
  ie_key :: u32
  ie_offset :: u32

record DeltaIndex =
  index_entries :: "IndexEntry list"

definition next_multiple_of :: "nat \<Rightarrow> nat \<Rightarrow> nat" where
  "next_multiple_of a b = div_ceil a b * b"

text \<open>\<^verbatim>\<open>size_of::<IndexEntry>()\<close> is 8.\<close>

definition index_stride :: "nat \<Rightarrow> nat \<Rightarrow> nat" where
  "index_stride base_len last_offset =
     (if base_len < DENSE_INDEX_BELOW then 1
      else next_multiple_of (max (div_ceil (last_offset + 1) (MAX_INDEX_BYTES div 8)) INDEX_BLOCK_SIZE)
             INDEX_BLOCK_SIZE)"

definition base_key :: "bytes \<Rightarrow> nat \<Rightarrow> u32" where
  "base_key base offset =
     u32_from_be_bytes (base ! offset) (base ! (offset + 1)) (base ! (offset + 2)) (base ! (offset + 3))"

definition build_index :: "bytes \<Rightarrow> DeltaIndex" where
  "build_index base =
     (if length base < 4 then \<lparr>index_entries = []\<rparr>
      else
        let last_offset = min (length base - 4) u32_max;
            stride = index_stride (length base) last_offset;
            offsets = map (\<lambda>i. i * stride) [0..<last_offset div stride + 1];
            entries = map (\<lambda>offset. \<lparr>ie_key = base_key base offset, ie_offset = word_of_nat offset\<rparr>) offsets
        in \<lparr>index_entries = sort_key (\<lambda>e. (ie_key e, ie_offset e)) entries\<rparr>)"

section \<open>Searching for a match\<close>

definition target_key :: "bytes \<Rightarrow> nat \<Rightarrow> u32 option" where
  "target_key target pos =
     (case checked_add pos 4 of None \<Rightarrow> None
      | Some e \<Rightarrow>
          if e > length target then None
          else Some (u32_from_be_bytes (target ! pos) (target ! (pos + 1)) (target ! (pos + 2))
                 (target ! (pos + 3))))"

definition roll_target_key :: "u32 option \<Rightarrow> bytes \<Rightarrow> nat \<Rightarrow> u32 option" where
  "roll_target_key key target pos =
     (case checked_add pos 3 of None \<Rightarrow> None
      | Some i \<Rightarrow>
          if i \<ge> length target then None
          else (case key of None \<Rightarrow> None
                | Some k \<Rightarrow> Some (push_bit 8 k OR ucast (target ! i))))"

function chunk_loop :: "bytes \<Rightarrow> nat \<Rightarrow> bytes \<Rightarrow> nat \<Rightarrow> nat \<Rightarrow> nat \<Rightarrow> nat" where
  "chunk_loop base bp target tp max_len len =
     (if len + MATCH_CHUNK_SIZE \<le> max_len
         \<and> subslice base (bp + len) (bp + len + MATCH_CHUNK_SIZE)
           = subslice target (tp + len) (tp + len + MATCH_CHUNK_SIZE)
      then chunk_loop base bp target tp max_len (len + MATCH_CHUNK_SIZE)
      else len)"
  by pat_completeness auto
termination
  by (relation "measure (\<lambda>(base, bp, target, tp, max_len, len). max_len - len)")
    (auto simp: MATCH_CHUNK_SIZE_def)

function byte_loop :: "bytes \<Rightarrow> nat \<Rightarrow> bytes \<Rightarrow> nat \<Rightarrow> nat \<Rightarrow> nat \<Rightarrow> nat" where
  "byte_loop base bp target tp max_len len =
     (if len < max_len \<and> base ! (bp + len) = target ! (tp + len)
      then byte_loop base bp target tp max_len (len + 1) else len)"
  by pat_completeness auto
termination
  by (relation "measure (\<lambda>(base, bp, target, tp, max_len, len). max_len - len)") auto

declare chunk_loop.simps [simp del] byte_loop.simps [simp del]

text \<open>
  \<^verbatim>\<open>base.len() - base_pos\<close> needs \<^verbatim>\<open>base_pos <= base.len()\<close>: an index is searched together with the
  base it was built from.
\<close>

definition match_max_len :: "bytes \<Rightarrow> nat \<Rightarrow> bytes \<Rightarrow> nat \<Rightarrow> nat" where
  "match_max_len base base_pos target target_pos =
     min (min (length base - base_pos) (length target - target_pos))
       (saturating_add (u32_max - base_pos) 1)"

definition match_length :: "bytes \<Rightarrow> nat \<Rightarrow> bytes \<Rightarrow> nat \<Rightarrow> nat" where
  "match_length base base_pos target target_pos =
     (let max_len = match_max_len base base_pos target target_pos
      in byte_loop base base_pos target target_pos max_len
           (chunk_loop base base_pos target target_pos max_len 0))"

definition binary_search_by_key :: "IndexEntry list \<Rightarrow> u32 \<Rightarrow> nat option" where
  "binary_search_by_key entries key =
     (if entries = [] then None
      else let i = bsearch_loop (map ie_key entries) key 0 (length entries)
           in if ie_key (entries ! i) = key then Some i else None)"

fun scan_candidates ::
  "bytes \<Rightarrow> bytes \<Rightarrow> nat \<Rightarrow> nat \<Rightarrow> IndexEntry list \<Rightarrow> nat \<times> nat \<Rightarrow> nat \<times> nat" where
  "scan_candidates base target pos remaining [] best = best"
| "scan_candidates base target pos remaining (e # es) (best_offset, best_length) =
     (let offset = unat (ie_offset e);
          len = match_length base offset target pos;
          best = (if len > best_length then (offset, len) else (best_offset, best_length))
      in if len = remaining then best else scan_candidates base target pos remaining es best)"

definition find_best_match ::
  "DeltaIndex \<Rightarrow> bytes \<Rightarrow> bytes \<Rightarrow> nat \<Rightarrow> u32 option \<Rightarrow> nat \<Rightarrow> (nat \<times> nat) option" where
  "find_best_match index base target pos key min_match =
     (case key of None \<Rightarrow> None
      | Some k \<Rightarrow>
        (case binary_search_by_key (index_entries index) k of None \<Rightarrow> None
         | Some found \<Rightarrow>
           let entries = index_entries index;
               first = length (takeWhile (\<lambda>e. ie_key e < k) (take found entries));
               last = found + length (takeWhile (\<lambda>e. ie_key e = k) (drop found entries));
               offsets = subslice entries first last;
               remaining = length target - pos;
               recent_start = length offsets - MAX_MATCH_CANDIDATES;
               finish = (\<lambda>(best_offset, best_length).
                  if best_length \<ge> min_match then Some (best_offset, best_length) else None)
           in if recent_start > 0
              then let offset = unat (ie_offset (offsets ! 0));
                       len = match_length base offset target pos;
                       best = (if len > 0 then (offset, len) else (0, 0))
                   in if len = remaining then Some best
                      else finish (scan_candidates base target pos remaining
                             (drop (length offsets - (MAX_MATCH_CANDIDATES - 1)) offsets) best)
              else finish (scan_candidates base target pos remaining
                     (drop (length offsets - MAX_MATCH_CANDIDATES) offsets) (0, 0))))"

section \<open>Emitting instructions\<close>

definition emit_copy_instruction :: "bytes \<Rightarrow> nat \<Rightarrow> nat \<Rightarrow> bytes" where
  "emit_copy_instruction delta offset length' =
     (let off = (word_of_nat offset :: u32); len = (word_of_nat length' :: u32);
          o1 = off AND 0xFF00 \<noteq> 0; o2 = off AND 0xFF0000 \<noteq> 0; o3 = off AND 0xFF000000 \<noteq> 0;
          sized = len \<noteq> 0x10000;
          s0 = sized \<and> len AND 0xFF \<noteq> 0; s1 = sized \<and> len AND 0xFF00 \<noteq> 0;
          s2 = sized \<and> len AND 0xFF0000 \<noteq> 0;
          cmd = (0x80 OR 0x01 OR (if o1 then 0x02 else 0) OR (if o2 then 0x04 else 0)
            OR (if o3 then 0x08 else 0) OR (if s0 then 0x10 else 0) OR (if s1 then 0x20 else 0)
            OR (if s2 then 0x40 else 0) :: u8)
      in delta @ [cmd, ucast off]
         @ (if o1 then [ucast (drop_bit 8 off)] else []) @ (if o2 then [ucast (drop_bit 16 off)] else [])
         @ (if o3 then [ucast (drop_bit 24 off)] else [])
         @ (if s0 then [ucast len] else []) @ (if s1 then [ucast (drop_bit 8 len)] else [])
         @ (if s2 then [ucast (drop_bit 16 len)] else []))"

function emit_copy :: "bytes \<Rightarrow> nat \<Rightarrow> nat \<Rightarrow> bytes" where
  "emit_copy delta offset remaining =
     (if remaining > 0
      then let chunk = min remaining MAX_COPY_LENGTH
           in emit_copy (emit_copy_instruction delta offset chunk) (offset + chunk) (remaining - chunk)
      else delta)"
  by pat_completeness auto
termination
  by (relation "measure (\<lambda>(delta, offset, remaining). remaining)") (auto simp: MAX_COPY_LENGTH_def)

declare emit_copy.simps [simp del]

definition copy_instruction_size_one :: "nat \<Rightarrow> nat \<Rightarrow> nat" where
  "copy_instruction_size_one offset length' =
     (let off = (word_of_nat offset :: u32); len = (word_of_nat length' :: u32)
      in 2 + of_bool (off AND 0xFF00 \<noteq> 0) + of_bool (off AND 0xFF0000 \<noteq> 0)
         + of_bool (off AND 0xFF000000 \<noteq> 0)
         + (if len \<noteq> 0x10000
            then of_bool (len AND 0xFF \<noteq> 0) + of_bool (len AND 0xFF00 \<noteq> 0) + of_bool (len AND 0xFF0000 \<noteq> 0)
            else 0))"

function copy_instruction_size :: "nat \<Rightarrow> nat \<Rightarrow> nat \<Rightarrow> nat" where
  "copy_instruction_size offset remaining sz =
     (if remaining > 0
      then let chunk = min remaining MAX_COPY_LENGTH
           in copy_instruction_size (offset + chunk) (remaining - chunk)
                (sz + copy_instruction_size_one offset chunk)
      else sz)"
  by pat_completeness auto
termination
  by (relation "measure (\<lambda>(offset, remaining, sz). remaining)") (auto simp: MAX_COPY_LENGTH_def)

declare copy_instruction_size.simps [simp del]

definition min_match_for :: "nat \<Rightarrow> nat" where
  "min_match_for target_len =
     (if target_len < 1024 then MIN_MATCH_LENGTH_SMALL else MIN_MATCH_LENGTH_LARGE)"

text \<open>\<^verbatim>\<open>data.chunks(128)\<close>, one insert instruction per chunk.\<close>

function encode_insert :: "bytes \<Rightarrow> bytes" where
  "encode_insert data =
     (if data = [] then []
      else let chunk = take 128 data
           in word_of_nat (length chunk - 1) # chunk @ encode_insert (drop 128 data))"
  by pat_completeness auto
termination by (relation "measure length") (auto simp: neq_Nil_conv)

declare encode_insert.simps [simp del]

section \<open>The encoder and the estimator\<close>

text \<open>
  The inner loop that collects at most 127 literal bytes: it moves the position first, rolls the key,
  and stops as soon as a match starts.
\<close>

function scan_insert ::
  "DeltaIndex \<Rightarrow> bytes \<Rightarrow> bytes \<Rightarrow> nat \<Rightarrow> nat \<Rightarrow> nat \<Rightarrow> u32 option \<Rightarrow> nat \<times> u32 option" where
  "scan_insert index base target min_match start pos key =
     (if pos < length target \<and> pos - start < 127
      then let pos' = pos + 1; key' = roll_target_key key target pos'
           in if find_best_match index base target pos' key' min_match \<noteq> None then (pos', key')
              else scan_insert index base target min_match start pos' key'
      else (pos, key))"
  by pat_completeness auto
termination
  by (relation "measure (\<lambda>(index, base, target, m, start, pos, key). length target - pos)") auto

declare scan_insert.simps [simp del]

lemma find_best_match_progress:
  assumes "find_best_match index base target pos key (min_match_for n) = Some (o', l)"
    and "pos < length target"
  shows "0 < l"
  using assms
  by (auto simp: find_best_match_def Let_def min_match_for_def MIN_MATCH_LENGTH_SMALL_def
      MIN_MATCH_LENGTH_LARGE_def split: option.splits if_splits prod.splits)

lemma scan_insert_progress:
  "pos \<le> fst (scan_insert index base target m start pos key)"
  "pos < length target \<Longrightarrow> pos - start < 127 \<Longrightarrow> pos < fst (scan_insert index base target m start pos key)"
proof -
  show le: "pos \<le> fst (scan_insert index base target m start pos key)" for pos key
  proof (induction index base target m start pos key rule: scan_insert.induct)
    case (1 index base target m start pos key)
    then show ?case by (subst scan_insert.simps) (fastforce simp: Let_def)
  qed
  show "pos < fst (scan_insert index base target m start pos key)"
    if "pos < length target" "pos - start < 127"
    using that le [of "pos + 1" "roll_target_key key target (pos + 1)"]
    by (subst scan_insert.simps) (auto simp: Let_def)
qed

function encode_loop ::
  "DeltaIndex \<Rightarrow> bytes \<Rightarrow> bytes \<Rightarrow> nat \<Rightarrow> u32 option \<Rightarrow> bytes \<Rightarrow> bytes" where
  "encode_loop index base target pos key delta =
     (if pos < length target
      then (case find_best_match index base target pos key (min_match_for (length target)) of
              Some (offset, len) \<Rightarrow>
                encode_loop index base target (pos + len) (target_key target (pos + len))
                  (emit_copy delta offset len)
            | None \<Rightarrow>
                (let scanned = scan_insert index base target (min_match_for (length target)) pos pos key;
                     pos' = fst scanned
                 in encode_loop index base target pos' (snd scanned)
                      (delta @ [word_of_nat (pos' - pos) - 1] @ subslice target pos pos')))
      else delta)"
  by pat_completeness auto
termination
  by (relation "measure (\<lambda>(index, base, target, pos, key, delta). length target - pos)")
    (auto dest: find_best_match_progress intro!: diff_less_mono2 scan_insert_progress(2))

declare encode_loop.simps [simp del]

definition encode_with_index :: "DeltaIndex \<Rightarrow> bytes \<Rightarrow> bytes \<Rightarrow> bytes" where
  "encode_with_index index base target =
     (if base = [] then encode_insert target
      else encode_loop index base target 0 (target_key target 0) [])"

definition encode :: "bytes \<Rightarrow> bytes \<Rightarrow> bytes" where
  "encode base target =
     (if base = [] then encode_insert target else encode_with_index (build_index base) base target)"

function estimate_loop :: "DeltaIndex \<Rightarrow> bytes \<Rightarrow> bytes \<Rightarrow> nat \<Rightarrow> u32 option \<Rightarrow> nat \<Rightarrow> nat" where
  "estimate_loop index base target pos key sz =
     (if pos < length target
      then (case find_best_match index base target pos key (min_match_for (length target)) of
              Some (offset, len) \<Rightarrow>
                estimate_loop index base target (pos + len) (target_key target (pos + len))
                  (sz + copy_instruction_size offset len 0)
            | None \<Rightarrow>
                (let scanned = scan_insert index base target (min_match_for (length target)) pos pos key;
                     pos' = fst scanned
                 in estimate_loop index base target pos' (snd scanned) (sz + (1 + (pos' - pos)))))
      else sz)"
  by pat_completeness auto
termination
  by (relation "measure (\<lambda>(index, base, target, pos, key, sz). length target - pos)")
    (auto dest: find_best_match_progress intro!: diff_less_mono2 scan_insert_progress(2))

declare estimate_loop.simps [simp del]

definition estimate_delta_size_with_index :: "DeltaIndex \<Rightarrow> bytes \<Rightarrow> bytes \<Rightarrow> nat" where
  "estimate_delta_size_with_index index base target =
     (if base = [] then length target + div_ceil (length target) 128
      else estimate_loop index base target 0 (target_key target 0) 0)"

definition estimate_delta_size :: "bytes \<Rightarrow> bytes \<Rightarrow> nat" where
  "estimate_delta_size base target =
     (if base = [] then length target + div_ceil (length target) 128
      else estimate_delta_size_with_index (build_index base) base target)"

end
