(* ===== verification/Delta_Roundtrip.thy ===== *)
theory Delta_Roundtrip
  imports Delta_Encoder
begin

text \<open>
  Correctness of the delta codec: every delta the encoder writes decodes to its target, the estimator
  returns the length of that delta, the rolling key is the key recomputed at the new position, the
  index stays within its memory cap, and the decoder never produces more than its limit.
\<close>

section \<open>Segments of a delta stream\<close>

text \<open>\<open>decodes base d t\<close>: wherever \<open>d\<close> stands in a stream, the decoder turns it into \<open>t\<close>.\<close>

definition decodes :: "bytes \<Rightarrow> bytes \<Rightarrow> bytes \<Rightarrow> bool" where
  "decodes base d t \<longleftrightarrow> (\<forall>pre rest mx out. length out + length t \<le> mx \<longrightarrow> mx \<le> usize_max \<longrightarrow>
     decode_loop base (pre @ d @ rest) mx (length pre) out
       = decode_loop base (pre @ d @ rest) mx (length pre + length d) (out @ t))"

lemma decodes_Nil: "decodes base [] []"
  by (simp add: decodes_def)

lemma decodes_append:
  assumes "decodes base d1 t1" "decodes base d2 t2"
  shows "decodes base (d1 @ d2) (t1 @ t2)"
  unfolding decodes_def
proof (intro allI impI)
  fix pre rest mx and out :: bytes
  assume mx: "length out + length (t1 @ t2) \<le> mx" "mx \<le> usize_max"
  have "decode_loop base (pre @ d1 @ d2 @ rest) mx (length pre) out
      = decode_loop base (pre @ d1 @ d2 @ rest) mx (length pre + length d1) (out @ t1)"
    using assms(1) mx by (simp add: decodes_def)
  also have "\<dots> = decode_loop base ((pre @ d1) @ d2 @ rest) mx (length (pre @ d1)) (out @ t1)"
    by simp
  also have "\<dots> = decode_loop base ((pre @ d1) @ d2 @ rest) mx (length (pre @ d1) + length d2) ((out @ t1) @ t2)"
    using assms(2) [unfolded decodes_def, rule_format, of "out @ t1" mx "pre @ d1" rest] mx by simp
  finally show "decode_loop base (pre @ (d1 @ d2) @ rest) mx (length pre) out
      = decode_loop base (pre @ (d1 @ d2) @ rest) mx (length pre + length (d1 @ d2)) (out @ t1 @ t2)"
    by (simp add: add.assoc)
qed

lemma decodes_step:
  assumes "d \<noteq> []"
    and "\<And>pre rest mx out. length out + length t \<le> mx \<Longrightarrow> mx \<le> usize_max \<Longrightarrow>
      decode_step base (pre @ d @ rest) mx (length pre) out = Inr (length pre + length d, out @ t)"
  shows "decodes base d t"
  unfolding decodes_def using assms by (simp add: decode_loop.simps [of _ _ _ "length _"])

lemma decodes_sound:
  assumes "decodes base d t" "length t \<le> mx" "mx \<le> usize_max"
  shows "delta_decode base d mx = Inr t"
  using assms(1) [unfolded decodes_def, rule_format, of "[]" mx "[]" "[]"] assms(2,3)
  by (simp add: delta_decode_def decode_loop.simps [of base d mx "length d"])

lemma ensure_output_limit_fits:
  "a + b \<le> mx \<Longrightarrow> mx \<le> usize_max \<Longrightarrow> ensure_output_limit a b mx = Inr ()"
  by (simp add: ensure_output_limit_def checked_add_def)

section \<open>Insert instructions\<close>

lemma insert_header:
  assumes "0 < n" "n \<le> 128"
  shows "(word_of_nat n - 1 :: u8) AND 0x80 = 0" "unat (word_of_nat n - 1 + 1 :: u8) = n"
proof -
  have eq: "(word_of_nat n - 1 :: u8) = word_of_nat (n - 1)"
    using assms by (simp add: of_nat_diff)
  have "\<not> bit (n - 1) 7" using assms by (simp add: bit_iff_odd)
  then show "(word_of_nat n - 1 :: u8) AND 0x80 = 0"
    unfolding eq flag_simps by (simp add: bit_of_nat_iff)
  show "unat (word_of_nat n - 1 + 1 :: u8) = n" using assms by (simp add: unat_of_nat)
qed

lemma decodes_insert:
  assumes "lits \<noteq> []" "length lits \<le> 128"
  shows "decodes base ((word_of_nat (length lits) - 1) # lits) lits"
proof (rule decodes_step)
  fix pre rest mx and out :: bytes
  assume mx: "length out + length lits \<le> mx" "mx \<le> usize_max"
  have n: "0 < length lits" "length lits \<le> 128" using assms by auto
  show "decode_step base (pre @ ((word_of_nat (length lits) - 1) # lits) @ rest) mx (length pre) out
      = Inr (length pre + length ((word_of_nat (length lits) - 1 :: u8) # lits), out @ lits)"
    using insert_header [OF n] ensure_output_limit_fits [OF mx]
    by (simp add: decode_step_def nth_append subslice_def)
qed simp

lemma decodes_encode_insert: "decodes base (encode_insert data) data"
proof (induction data rule: encode_insert.induct)
  case (1 data)
  show ?case
  proof (cases "data = []")
    case True then show ?thesis by (simp add: encode_insert.simps decodes_Nil)
  next
    case False
    let ?c = "take 128 data"
    have ne: "0 < length ?c" using False by simp
    have hd: "word_of_nat (length ?c - 1) = (word_of_nat (length ?c) - 1 :: u8)"
      using ne by (subst of_nat_diff) (auto simp: Suc_leI)
    have "decodes base (((word_of_nat (length ?c) - 1) # ?c) @ encode_insert (drop 128 data))
        (?c @ drop 128 data)"
      by (intro decodes_append decodes_insert) (use False 1 in auto)
    then show ?thesis using False unfolding hd [symmetric] by (simp add: encode_insert.simps [of data] Let_def)
  qed
qed

section \<open>Copy instructions\<close>

definition opt_byte :: "bool \<Rightarrow> u8 \<Rightarrow> bytes" where
  "opt_byte f b = (if f then [b] else [])"

lemma operand_step_reads:
  assumes "drop pos delta = opt_byte f b @ rest"
  shows "operand_step delta f sh (acc, pos)
      = (acc OR (if f then push_bit sh (ucast b) else 0), pos + length (opt_byte f b))"
    and "drop (pos + length (opt_byte f b)) delta = rest"
proof -
  have "f \<Longrightarrow> delta ! pos = b"
    using assms by (metis append_Cons append_Nil drop_eq_Nil hd_drop_conv_nth linorder_not_le
        list.distinct(1) list.sel(1) opt_byte_def)
  then show "operand_step delta f sh (acc, pos)
      = (acc OR (if f then push_bit sh (ucast b) else 0), pos + length (opt_byte f b))"
    by (simp add: operand_step_def opt_byte_def)
  show "drop (pos + length (opt_byte f b)) delta = rest"
    using assms by (metis add.commute append_eq_conv_conj drop_drop)
qed

text \<open>The bytes of a word that are written only when they are not zero.\<close>

definition byte_of :: "nat \<Rightarrow> u32 \<Rightarrow> u8" where
  "byte_of sh w = ucast (drop_bit sh w)"

lemma byte_mask:
  fixes w :: u32
  shows "w AND 0xFF = 0 \<longleftrightarrow> byte_of 0 w = 0" "w AND 0xFF00 = 0 \<longleftrightarrow> byte_of 8 w = 0"
    "w AND 0xFF0000 = 0 \<longleftrightarrow> byte_of 16 w = 0" "w AND 0xFF000000 = 0 \<longleftrightarrow> byte_of 24 w = 0"
proof -
  have mask: "w AND push_bit sh 0xFF = 0 \<longleftrightarrow> byte_of sh w = 0" if "sh \<le> 24" for sh
  proof -
    have ff: "(0xFF :: u32) = mask 8" by (simp add: mask_eq_exp_minus_1)
    have "w AND push_bit sh 0xFF = push_bit sh (take_bit 8 (drop_bit sh w))"
      unfolding ff by (rule bit_eqI) (auto simp: bit_simps)
    moreover have "ucast (byte_of sh w) = take_bit 8 (drop_bit sh w)"
      by (simp add: byte_of_def unsigned_ucast_eq)
    moreover have "push_bit sh (ucast (byte_of sh w) :: u32) = 0 \<longleftrightarrow> byte_of sh w = 0"
    proof
      assume z: "push_bit sh (ucast (byte_of sh w) :: u32) = 0"
      show "byte_of sh w = 0"
      proof (rule bit_eqI)
        fix n assume "possible_bit TYPE(8 word) n"
        then have "n < 8" by simp
        moreover have "bit (push_bit sh (ucast (byte_of sh w) :: u32)) (sh + n) = False" using z by simp
        ultimately show "bit (byte_of sh w) n = bit 0 n" using that by (simp add: bit_simps)
      qed
    qed simp
    ultimately show ?thesis by simp
  qed
  show "w AND 0xFF = 0 \<longleftrightarrow> byte_of 0 w = 0" "w AND 0xFF00 = 0 \<longleftrightarrow> byte_of 8 w = 0"
    "w AND 0xFF0000 = 0 \<longleftrightarrow> byte_of 16 w = 0" "w AND 0xFF000000 = 0 \<longleftrightarrow> byte_of 24 w = 0"
    using mask [of 0] mask [of 8] mask [of 16] mask [of 24] by (simp_all add: push_bit_eq_mult)
qed

lemma byte_of_add: "(if byte_of sh w \<noteq> 0 then push_bit sh (ucast (byte_of sh w)) else 0 :: u64)
    = push_bit sh (ucast (byte_of sh w))"
  by simp

lemma bytes_of_u32:
  "((ucast (byte_of 0 w) OR push_bit 8 (ucast (byte_of 8 w))) OR push_bit 16 (ucast (byte_of 16 w)))
     OR push_bit 24 (ucast (byte_of 24 w)) = (ucast w :: u64)"
proof (rule bit_eqI)
  fix n assume "possible_bit TYPE(64 word) n"
  consider "n < 8" | "8 \<le> n" "n < 16" | "16 \<le> n" "n < 24" | "24 \<le> n" "n < 32" | "32 \<le> n" by linarith
  then show "bit (((ucast (byte_of 0 w) OR push_bit 8 (ucast (byte_of 8 w)))
      OR push_bit 16 (ucast (byte_of 16 w))) OR push_bit 24 (ucast (byte_of 24 w)) :: u64) n
      = bit (ucast w :: u64) n"
    using \<open>possible_bit TYPE(64 word) n\<close> by cases (auto simp: byte_of_def bit_simps dest: bit_imp_le_length)
qed

lemma byte_of_high:
  assumes "l < 2 ^ 24"
  shows "byte_of 24 (word_of_nat l) = 0"
proof -
  have "\<not> bit l (24 + n)" for n
    using assms by (simp add: bit_iff_odd power_add div_mult2_eq)
  then have "drop_bit 24 (word_of_nat l :: u32) = 0"
    by (intro bit_eqI) (simp add: bit_simps)
  then show ?thesis by (simp add: byte_of_def)
qed

definition copy_cmd :: "bool \<Rightarrow> bool \<Rightarrow> bool \<Rightarrow> bool \<Rightarrow> bool \<Rightarrow> bool \<Rightarrow> u8" where
  "copy_cmd o1 o2 o3 s0 s1 s2 = 0x80 OR 0x01 OR (if o1 then 0x02 else 0) OR (if o2 then 0x04 else 0)
            OR (if o3 then 0x08 else 0) OR (if s0 then 0x10 else 0) OR (if s1 then 0x20 else 0)
            OR (if s2 then 0x40 else 0)"

lemma copy_cmd_bits:
  "copy_cmd o1 o2 o3 s0 s1 s2 AND 0x80 \<noteq> 0" "copy_cmd o1 o2 o3 s0 s1 s2 \<noteq> 0x80"
  "copy_cmd o1 o2 o3 s0 s1 s2 AND 0x01 \<noteq> 0" "copy_cmd o1 o2 o3 s0 s1 s2 AND 0x02 \<noteq> 0 \<longleftrightarrow> o1"
  "copy_cmd o1 o2 o3 s0 s1 s2 AND 0x04 \<noteq> 0 \<longleftrightarrow> o2" "copy_cmd o1 o2 o3 s0 s1 s2 AND 0x08 \<noteq> 0 \<longleftrightarrow> o3"
  "copy_cmd o1 o2 o3 s0 s1 s2 AND 0x10 \<noteq> 0 \<longleftrightarrow> s0" "copy_cmd o1 o2 o3 s0 s1 s2 AND 0x20 \<noteq> 0 \<longleftrightarrow> s1"
  "copy_cmd o1 o2 o3 s0 s1 s2 AND 0x40 \<noteq> 0 \<longleftrightarrow> s2"
  by (cases o1; cases o2; cases o3; cases s0; cases s1; cases s2; simp add: copy_cmd_def)+

definition offset_bytes :: "u32 \<Rightarrow> bytes" where
  "offset_bytes off = opt_byte True (byte_of 0 off) @ opt_byte (byte_of 8 off \<noteq> 0) (byte_of 8 off)
     @ opt_byte (byte_of 16 off \<noteq> 0) (byte_of 16 off) @ opt_byte (byte_of 24 off \<noteq> 0) (byte_of 24 off)"

definition size_bytes :: "u32 \<Rightarrow> bytes" where
  "size_bytes len = (let sized = len \<noteq> 0x10000 in
     opt_byte (sized \<and> byte_of 0 len \<noteq> 0) (byte_of 0 len) @ opt_byte (sized \<and> byte_of 8 len \<noteq> 0) (byte_of 8 len)
     @ opt_byte (sized \<and> byte_of 16 len \<noteq> 0) (byte_of 16 len))"

definition cmd_byte :: "u32 \<Rightarrow> u32 \<Rightarrow> u8" where
  "cmd_byte off len = copy_cmd (byte_of 8 off \<noteq> 0) (byte_of 16 off \<noteq> 0) (byte_of 24 off \<noteq> 0)
     (len \<noteq> 0x10000 \<and> byte_of 0 len \<noteq> 0) (len \<noteq> 0x10000 \<and> byte_of 8 len \<noteq> 0)
     (len \<noteq> 0x10000 \<and> byte_of 16 len \<noteq> 0)"

lemma ucast_byte_of: "(ucast w :: u8) = byte_of 0 w" "byte_of 0 (drop_bit n w) = byte_of n w"
  by (simp_all add: byte_of_def)

lemma emit_copy_instruction_layout:
  "emit_copy_instruction delta offset n
    = delta @ cmd_byte (word_of_nat offset) (word_of_nat n)
        # offset_bytes (word_of_nat offset) @ size_bytes (word_of_nat n)"
  by (simp add: emit_copy_instruction_def offset_bytes_def size_bytes_def cmd_byte_def copy_cmd_def
      byte_mask ucast_byte_of opt_byte_def Let_def del: ucast_drop_bit_eq)

lemma length_opt_byte: "length (opt_byte f b) = of_bool f"
  by (simp add: opt_byte_def)

lemma copy_expected_cmd: "copy_expected (cmd_byte off len) = length (offset_bytes off) + length (size_bytes len)"
  by (simp only: copy_expected_def cmd_byte_def copy_cmd_bits offset_bytes_def size_bytes_def
      length_append length_opt_byte Let_def) simp

lemma decode_copy_offset_cmd:
  assumes "drop pos delta = offset_bytes off @ rest"
  shows "decode_copy_offset (cmd_byte off len) delta pos = (ucast off, pos + length (offset_bytes off))"
    and "drop (pos + length (offset_bytes off)) delta = rest"
proof -
  note d1 = assms [unfolded offset_bytes_def append_assoc]
  note d2 = operand_step_reads(2) [OF d1]
  note d3 = operand_step_reads(2) [OF d2]
  note d4 = operand_step_reads(2) [OF d3]
  show "decode_copy_offset (cmd_byte off len) delta pos = (ucast off, pos + length (offset_bytes off))"
    unfolding decode_copy_offset_def cmd_byte_def copy_cmd_bits
    by (simp add: copy_cmd_bits operand_step_reads(1) [OF d1] operand_step_reads(1) [OF d2]
        operand_step_reads(1) [OF d3] operand_step_reads(1) [OF d4] byte_of_add
        bytes_of_u32 offset_bytes_def del: if_cancel)
  show "drop (pos + length (offset_bytes off)) delta = rest"
    using operand_step_reads(2) [OF d4] by (simp add: offset_bytes_def add.assoc)
qed

lemma unat_u32_u64: "n < 2 ^ 32 \<Longrightarrow> unat (ucast (word_of_nat n :: u32) :: u64) = n"
  by (simp add: unsigned_ucast_eq unat_of_nat take_bit_eq_mod)

lemma decode_copy_length_cmd:
  assumes "drop pos delta = size_bytes (word_of_nat n) @ rest" "0 < n" "n < 2 ^ 24"
  shows "decode_copy_length (cmd_byte off (word_of_nat n)) delta pos
    = (ucast (word_of_nat n :: u32), pos + length (size_bytes (word_of_nat n)))"
proof -
  define len :: u32 where "len = word_of_nat n"
  have "unat (ucast len :: u64) = n" using assms(3) unfolding len_def by (intro unat_u32_u64) simp
  then have nz: "(ucast len :: u64) \<noteq> 0" using assms(2) by auto
  have sum: "(ucast (byte_of 0 len) OR push_bit 8 (ucast (byte_of 8 len))) OR push_bit 16 (ucast (byte_of 16 len))
      = (ucast len :: u64)"
    using bytes_of_u32 [of len] byte_of_high [OF assms(3)] by (simp add: len_def)
  note d1 = assms(1) [folded len_def, unfolded size_bytes_def Let_def append_assoc]
  note d2 = operand_step_reads(2) [OF d1]
  note d3 = operand_step_reads(2) [OF d2]
  have acc: "operand_step delta (len \<noteq> 0x10000 \<and> byte_of 16 len \<noteq> 0) 16
      (operand_step delta (len \<noteq> 0x10000 \<and> byte_of 8 len \<noteq> 0) 8
        (operand_step delta (len \<noteq> 0x10000 \<and> byte_of 0 len \<noteq> 0) 0 (0, pos)))
      = (if len \<noteq> 0x10000 then ucast len else 0, pos + length (size_bytes len))"
    unfolding operand_step_reads(1) [OF d1] operand_step_reads(1) [OF d2] operand_step_reads(1) [OF d3]
    using sum by (auto simp: size_bytes_def Let_def)
  show ?thesis
    unfolding decode_copy_length_def cmd_byte_def copy_cmd_bits len_def [symmetric] acc using nz by auto
qed

lemma decodes_copy_instruction:
  assumes "0 < n" "n \<le> MAX_COPY_LENGTH" "offset < 2 ^ 32" "offset + n \<le> length base"
  shows "decodes base (emit_copy_instruction [] offset n) (subslice base offset (offset + n))"
proof (rule decodes_step)
  show "emit_copy_instruction [] offset n \<noteq> []" by (simp add: emit_copy_instruction_layout)
next
  fix pre rest mx and out :: bytes
  assume mx: "length out + length (subslice base offset (offset + n)) \<le> mx" "mx \<le> usize_max"
  define off len :: u32 where "off = word_of_nat offset" "len = word_of_nat n"
  define delta where "delta = pre @ (cmd_byte off len # offset_bytes off @ size_bytes len) @ rest"
  have n: "n < 2 ^ 24" using assms(2) by (simp add: MAX_COPY_LENGTH_def)
  have hd: "delta ! length pre = cmd_byte off len" by (simp add: delta_def nth_append)
  have d: "drop (length pre + 1) delta = offset_bytes off @ size_bytes len @ rest" by (simp add: delta_def)
  have d': "drop (length pre + 1 + length (offset_bytes off)) delta = size_bytes len @ rest"
    by (rule decode_copy_offset_cmd(2) [OF d])
  have room: "length pre + 1 + copy_expected (cmd_byte off len) \<le> length delta"
    by (simp add: delta_def copy_expected_cmd)
  have offset: "decode_copy_offset (cmd_byte off len) delta (length pre + 1)
      = (ucast off, length pre + 1 + length (offset_bytes off))"
    by (rule decode_copy_offset_cmd(1) [OF d])
  have size: "decode_copy_length (cmd_byte off len) delta (length pre + 1 + length (offset_bytes off))
      = (ucast len, length pre + 1 + length (offset_bytes off) + length (size_bytes len))"
    using decode_copy_length_cmd [OF d' [unfolded off_len_def(2)] assms(1) n] by (simp add: off_len_def(2))
  have vals: "unat (ucast off :: u64) = offset" "unat (ucast len :: u64) = n"
    unfolding off_len_def using assms(3) n by (intro unat_u32_u64; simp)+
  have sum: "checked_add offset n = Some (offset + n)"
    using assms(3) n by (simp add: checked_add_def usize_max_def)
  have cmd: "cmd_byte off len AND 0x80 \<noteq> 0" "cmd_byte off len \<noteq> 0x80"
    by (simp_all only: cmd_byte_def copy_cmd_bits not_False_eq_True)
  have limit: "ensure_output_limit (length out) n mx = Inr ()"
    using ensure_output_limit_fits [OF _ mx(2), of "length out" n] mx(1) assms(4) by simp
  have "decode_step base delta mx (length pre) out
      = Inr (length pre + 1 + length (offset_bytes off) + length (size_bytes len),
             out @ subslice base offset (offset + n))"
    unfolding decode_step_def Let_def hd using cmd room assms(4)
    by (simp only: if_False not_less if_not_P offset size split_conv vals sum limit option.case sum.case)
  then show "decode_step base (pre @ emit_copy_instruction [] offset n @ rest) mx (length pre) out
      = Inr (length pre + length (emit_copy_instruction [] offset n), out @ subslice base offset (offset + n))"
    by (simp add: emit_copy_instruction_layout delta_def off_len_def)
qed

lemma emit_copy_append: "emit_copy delta offset n = delta @ emit_copy [] offset n"
proof (induction n arbitrary: delta offset rule: less_induct)
  case (less n)
  show ?case
  proof (cases "n > 0")
    case True
    let ?c = "min n MAX_COPY_LENGTH"
    have lt: "n - ?c < n" using True by (simp add: MAX_COPY_LENGTH_def)
    show ?thesis
      using True less [OF lt, of "emit_copy_instruction delta offset ?c" "offset + ?c"]
        less [OF lt, of "emit_copy_instruction [] offset ?c" "offset + ?c"]
      by (simp add: emit_copy.simps [of _ offset n] Let_def emit_copy_instruction_layout)
  qed (simp add: emit_copy.simps)
qed

lemma decodes_emit_copy:
  assumes "offset + n \<le> length base" "offset + n \<le> 2 ^ 32"
  shows "decodes base (emit_copy [] offset n) (subslice base offset (offset + n))"
  using assms
proof (induction n arbitrary: offset rule: less_induct)
  case (less n)
  show ?case
  proof (cases "n > 0")
    case True
    let ?c = "min n MAX_COPY_LENGTH"
    have c: "0 < ?c" "?c \<le> n" "n - ?c < n" using True by (simp_all add: MAX_COPY_LENGTH_def)
    have "decodes base (emit_copy_instruction [] offset ?c @ emit_copy [] (offset + ?c) (n - ?c))
        (subslice base offset (offset + ?c) @ subslice base (offset + ?c) (offset + ?c + (n - ?c)))"
      using less.prems c by (intro decodes_append decodes_copy_instruction less.IH) auto
    moreover have "emit_copy [] offset n = emit_copy_instruction [] offset ?c @ emit_copy [] (offset + ?c) (n - ?c)"
      using True emit_copy_append [of "emit_copy_instruction [] offset ?c"]
      by (simp add: emit_copy.simps [of "[]" offset n] Let_def)
    ultimately show ?thesis using c(2) by (simp add: subslice_append)
  qed (simp add: emit_copy.simps decodes_Nil)
qed

section \<open>Matches\<close>

definition agree :: "bytes \<Rightarrow> nat \<Rightarrow> bytes \<Rightarrow> nat \<Rightarrow> nat \<Rightarrow> bool" where
  "agree base bp target tp n \<longleftrightarrow> (\<forall>k < n. base ! (bp + k) = target ! (tp + k))"

lemma agree_extend:
  assumes "agree base bp target tp n"
    and "subslice base (bp + n) (bp + n + m) = subslice target (tp + n) (tp + n + m)"
    and "bp + n + m \<le> length base" "tp + n + m \<le> length target"
  shows "agree base bp target tp (n + m)"
  unfolding agree_def
proof (intro allI impI)
  fix k assume k: "k < n + m"
  show "base ! (bp + k) = target ! (tp + k)"
  proof (cases "k < n")
    case True then show ?thesis using assms(1) by (simp add: agree_def)
  next
    case False
    then have "subslice base (bp + n) (bp + n + m) ! (k - n) = base ! (bp + k)"
      "subslice target (tp + n) (tp + n + m) ! (k - n) = target ! (tp + k)"
      using k assms(3,4) by (simp_all add: nth_subslice)
    then show ?thesis using assms(2) by simp
  qed
qed

lemma chunk_loop_agree:
  assumes "agree base bp target tp n" "n \<le> mx" "bp + mx \<le> length base" "tp + mx \<le> length target"
  shows "agree base bp target tp (chunk_loop base bp target tp mx n) \<and> chunk_loop base bp target tp mx n \<le> mx"
  using assms
proof (induction base bp target tp mx n rule: chunk_loop.induct)
  case (1 base bp target tp mx n)
  show ?case
  proof (cases "n + MATCH_CHUNK_SIZE \<le> mx \<and> subslice base (bp + n) (bp + n + MATCH_CHUNK_SIZE)
      = subslice target (tp + n) (tp + n + MATCH_CHUNK_SIZE)")
    case True
    then have "agree base bp target tp (n + MATCH_CHUNK_SIZE)"
      using "1.prems" by (intro agree_extend) simp_all
    then show ?thesis using True "1.IH" "1.prems" by (simp add: chunk_loop.simps [of _ _ _ _ _ n])
  next
    case False
    then show ?thesis using "1.prems" by (auto simp: chunk_loop.simps [of _ _ _ _ _ n])
  qed
qed

text \<open>The byte loop stops at the first difference.\<close>

lemma byte_loop_agree:
  assumes "agree base bp target tp n" "n \<le> mx"
  shows "agree base bp target tp (byte_loop base bp target tp mx n) \<and> byte_loop base bp target tp mx n \<le> mx
    \<and> (byte_loop base bp target tp mx n < mx \<longrightarrow>
        base ! (bp + byte_loop base bp target tp mx n) \<noteq> target ! (tp + byte_loop base bp target tp mx n))"
  using assms
proof (induction base bp target tp mx n rule: byte_loop.induct)
  case (1 base bp target tp mx n)
  show ?case
  proof (cases "n < mx \<and> base ! (bp + n) = target ! (tp + n)")
    case True
    then have "agree base bp target tp (n + 1)" using "1.prems" by (auto simp: agree_def less_Suc_eq)
    then show ?thesis using True "1.IH" by (simp add: byte_loop.simps [of _ _ _ _ _ n])
  next
    case False
    then show ?thesis using "1.prems" by (auto simp: byte_loop.simps [of _ _ _ _ _ n])
  qed
qed

lemma match_length_agree:
  fixes base target :: bytes
  assumes "bp \<le> length base" "tp \<le> length target"
  defines "mx \<equiv> match_max_len base bp target tp" and "m \<equiv> match_length base bp target tp"
  shows "agree base bp target tp m" "m \<le> mx" "m < mx \<Longrightarrow> base ! (bp + m) \<noteq> target ! (tp + m)"
proof -
  have mx: "bp + mx \<le> length base" "tp + mx \<le> length target"
    using assms(1,2) by (auto simp: mx_def match_max_len_def)
  have "agree base bp target tp 0" by (simp add: agree_def)
  note c = chunk_loop_agree [OF this _ mx, simplified]
  note b = byte_loop_agree [of base bp target tp "chunk_loop base bp target tp mx 0" mx]
  show "agree base bp target tp m" "m \<le> mx" "m < mx \<Longrightarrow> base ! (bp + m) \<noteq> target ! (tp + m)"
    using b c by (auto simp: m_def match_length_def mx_def Let_def)
qed

text \<open>The reference: the length of the common prefix of the two windows.\<close>

definition common_prefix_length :: "bytes \<Rightarrow> bytes \<Rightarrow> nat" where
  "common_prefix_length xs ys = length (takeWhile (\<lambda>(a, b). a = b) (zip xs ys))"

lemma common_prefix_length_eqI:
  assumes "m \<le> length xs" "m \<le> length ys" "\<And>k. k < m \<Longrightarrow> xs ! k = ys ! k"
    and "m < length xs \<Longrightarrow> m < length ys \<Longrightarrow> xs ! m \<noteq> ys ! m"
  shows "common_prefix_length xs ys = m"
proof -
  have "takeWhile (\<lambda>(a, b). a = b) (zip xs ys) = take m (zip xs ys)"
    by (rule takeWhile_eq_take_P_nth) (use assms in auto)
  then show ?thesis using assms(1,2) by (simp add: common_prefix_length_def)
qed

definition index_for :: "bytes \<Rightarrow> DeltaIndex \<Rightarrow> bool" where
  "index_for base index \<longleftrightarrow> (\<forall>e \<in> set (index_entries index). unat (ie_offset e) + 4 \<le> length base)"

text \<open>A candidate: an entry of the index with its match length.\<close>

definition candidate :: "DeltaIndex \<Rightarrow> bytes \<Rightarrow> bytes \<Rightarrow> nat \<Rightarrow> nat \<times> nat \<Rightarrow> bool" where
  "candidate index base target pos = (\<lambda>(offset, n). n = 0 \<or>
     (\<exists>e \<in> set (index_entries index). offset = unat (ie_offset e) \<and> n = match_length base offset target pos))"

lemma scan_candidates_candidate:
  "set es \<subseteq> set (index_entries index) \<Longrightarrow> candidate index base target pos best \<Longrightarrow>
    candidate index base target pos (scan_candidates base target pos remaining es best)"
proof (induction es arbitrary: best)
  case (Cons e es)
  then have "candidate index base target pos (unat (ie_offset e), match_length base (unat (ie_offset e)) target pos)"
    by (auto simp: candidate_def)
  with Cons show ?case by (cases best) (auto simp: Let_def)
qed simp

lemma set_subslice: "set (subslice xs i j) \<subseteq> set xs"
  unfolding subslice_def by (metis set_drop_subset set_take_subset subset_trans)

lemma find_best_match_candidate:
  assumes "find_best_match index base target pos key m = Some best"
  shows "candidate index base target pos best"
proof -
  obtain k found where k: "key = Some k" "binary_search_by_key (index_entries index) k = Some found"
    using assms by (auto simp: find_best_match_def split: option.splits)
  define offsets where "offsets = subslice (index_entries index)
    (length (takeWhile (\<lambda>e. ie_key e < k) (take found (index_entries index))))
    (found + length (takeWhile (\<lambda>e. ie_key e = k) (drop found (index_entries index))))"
  have sub: "set offsets \<subseteq> set (index_entries index)" unfolding offsets_def by (rule set_subslice)
  have tail: "candidate index base target pos b \<Longrightarrow>
      candidate index base target pos (scan_candidates base target pos r (drop n offsets) b)" for r n b
    using sub set_drop_subset [of n offsets] by (intro scan_candidates_candidate) auto
  have zero: "candidate index base target pos (0, 0)" by (simp add: candidate_def)
  have hd: "candidate index base target pos (unat (ie_offset (offsets ! 0)),
      match_length base (unat (ie_offset (offsets ! 0))) target pos)" if "offsets \<noteq> []"
  proof -
    have "offsets ! 0 \<in> set (index_entries index)" using that sub by (cases offsets) auto
    then show ?thesis by (auto simp: candidate_def)
  qed
  show ?thesis
  proof (cases "length offsets - MAX_MATCH_CANDIDATES > 0")
    case True
    then have "offsets \<noteq> []" by auto
    then show ?thesis
      using assms True zero hd tail
      by (auto simp: find_best_match_def k Let_def offsets_def [symmetric] split: if_splits prod.splits)
  next
    case False
    then show ?thesis
      using assms tail [OF zero, of "length target - pos" 0]
      by (auto simp: find_best_match_def k Let_def offsets_def [symmetric] split: if_splits prod.splits)
  qed
qed

lemma find_best_match_sound:
  assumes "index_for base index" "pos < length target"
    and "find_best_match index base target pos key (min_match_for k) = Some (offset, n)"
  shows "offset + n \<le> length base" "offset + n \<le> 2 ^ 32" "pos + n \<le> length target"
    and "subslice base offset (offset + n) = subslice target pos (pos + n)"
proof -
  have "0 < n" using find_best_match_progress assms(2,3) by blast
  then obtain e where e: "e \<in> set (index_entries index)" "offset = unat (ie_offset e)"
    and n: "n = match_length base offset target pos"
    using find_best_match_candidate [OF assms(3)] by (auto simp: candidate_def)
  have off: "offset \<le> length base" using assms(1) e by (auto simp: index_for_def)
  note m = match_length_agree [OF off less_imp_le [OF assms(2)], folded n]
  have lt: "offset < 2 ^ 32" using e(2) unsigned_less [of "ie_offset e"] by simp
  show *: "offset + n \<le> length base" "pos + n \<le> length target" "offset + n \<le> 2 ^ 32"
    using m(2) off assms(2) lt by (auto simp: match_max_len_def saturating_add_def u32_max_def)
  show "subslice base offset (offset + n) = subslice target pos (pos + n)"
    using * m(1) by (intro subslice_eqI) (auto simp: agree_def)
qed

lemma sampled_offset: "i < lst div stride + 1 \<Longrightarrow> i * stride \<le> (lst :: nat)"
  by (metis Suc_eq_plus1 less_Suc_eq_le mult_le_mono1 order_trans div_times_less_eq_dividend)

lemma build_index_entry:
  assumes "e \<in> set (index_entries (build_index base))"
  shows "unat (ie_offset e) + 4 \<le> length base" "ie_key e = base_key base (unat (ie_offset e))"
proof -
  define lst where "lst = min (length base - 4) u32_max"
  have len: "4 \<le> length base" using assms by (auto simp: build_index_def split: if_splits)
  then obtain i where i: "i < lst div index_stride (length base) lst + 1"
    and e: "e = \<lparr>ie_key = base_key base (i * index_stride (length base) lst),
                  ie_offset = word_of_nat (i * index_stride (length base) lst)\<rparr>"
    using assms by (auto simp: build_index_def lst_def [symmetric] Let_def simp del: upt_Suc of_nat_mult)
  have "i * index_stride (length base) lst \<le> lst" by (rule sampled_offset [OF i])
  then have "unat (ie_offset e) = i * index_stride (length base) lst"
      "i * index_stride (length base) lst + 4 \<le> length base"
    using e len by (auto simp: lst_def u32_max_def unat_of_nat simp del: of_nat_mult)
  then show "unat (ie_offset e) + 4 \<le> length base" "ie_key e = base_key base (unat (ie_offset e))"
    using e by auto
qed

lemma build_index_for: "index_for base (build_index base)"
  by (simp add: index_for_def build_index_entry)

section \<open>Encoding and decoding\<close>

lemma scan_insert_bound:
  assumes "start \<le> pos" "pos \<le> length target" "pos - start \<le> 127"
  shows "fst (scan_insert index base target m start pos key) \<le> length target"
    and "fst (scan_insert index base target m start pos key) - start \<le> 127"
  using assms
proof (induction index base target m start pos key rule: scan_insert.induct)
  case (1 index base target m start pos key)
  {
    case 1
    then show ?case using "1.IH"(1) by (subst scan_insert.simps) (auto simp: Let_def)
  next
    case 2
    then show ?case using "1.IH"(2) by (subst scan_insert.simps) (auto simp: Let_def)
  }
qed

lemma encode_loop_decodes:
  assumes "index_for base index" "pos \<le> length target"
  shows "\<exists>d. encode_loop index base target pos key delta = delta @ d \<and> decodes base d (drop pos target)"
  using assms
proof (induction index base target pos key delta rule: encode_loop.induct)
  case (1 index base target pos key delta)
  show ?case
  proof (cases "pos < length target")
    case False
    then show ?thesis using "1.prems" by (simp add: encode_loop.simps decodes_Nil)
  next
    case pos: True
    show ?thesis
    proof (cases "find_best_match index base target pos key (min_match_for (length target))")
      case (Some best)
      obtain offset n where [simp]: "best = (offset, n)" by force
      note m = find_best_match_sound [OF "1.prems"(1) pos Some [simplified]]
      obtain d where d: "encode_loop index base target (pos + n) (target_key target (pos + n)) (emit_copy delta offset n)
          = emit_copy delta offset n @ d" "decodes base d (drop (pos + n) target)"
        using "1.IH"(2) [OF pos Some] "1.prems" m(3) by auto
      have "decodes base (emit_copy [] offset n @ d) (subslice target pos (pos + n) @ drop (pos + n) target)"
        using decodes_append [OF decodes_emit_copy [OF m(1,2)] d(2)] m(4) by simp
      moreover have "subslice target pos (pos + n) @ drop (pos + n) target = drop pos target"
        by (simp add: subslice_def add.commute flip: drop_drop)
      ultimately show ?thesis
        using pos Some d(1) emit_copy_append [of delta] by (simp add: encode_loop.simps [of _ _ _ pos])
    next
      case None
      define pos' key' where "pos' = fst (scan_insert index base target (min_match_for (length target)) pos pos key)"
        "key' = snd (scan_insert index base target (min_match_for (length target)) pos pos key)"
      have p: "pos < pos'" "pos' \<le> length target" "pos' - pos \<le> 127"
        unfolding pos'_key'_def using pos scan_insert_progress(2) scan_insert_bound by simp_all
      let ?lits = "subslice target pos pos'"
      let ?delta = "delta @ [word_of_nat (pos' - pos) - 1] @ ?lits"
      obtain d where d: "encode_loop index base target pos' key' ?delta = ?delta @ d"
        "decodes base d (drop pos' target)"
        using "1.IH"(1) [OF pos None refl refl] "1.prems" p by (auto simp: pos'_key'_def)
      have "decodes base (((word_of_nat (length ?lits) - 1) # ?lits) @ d) (?lits @ drop pos' target)"
        using p d(2) by (intro decodes_append decodes_insert) (auto simp flip: length_0_conv)
      moreover have "?lits @ drop pos' target = drop pos target"
        using p by (metis append_take_drop_id drop_drop le_add_diff_inverse2 less_imp_le subslice_def)
      ultimately show ?thesis
        using pos None d(1) p by (simp add: encode_loop.simps [of _ _ _ pos] Let_def pos'_key'_def)
    qed
  qed
qed

text \<open>C36: Whatever the base and the target, decoding the delta that the encoder writes for them, under any
  output limit that admits the target, gives back the target. The limit is a \<^verbatim>\<open>usize\<close>.\<close>

theorem delta_roundtrip:
  assumes "length target \<le> max_output" "max_output \<le> usize_max"
  shows "delta_decode base (encode base target) max_output = Inr target"
proof -
  have "decodes base (encode base target) target"
    using encode_loop_decodes [OF build_index_for, of 0 target base "target_key target 0" "[]"]
      decodes_encode_insert [of base target]
    by (auto simp: encode_def encode_with_index_def)
  then show ?thesis using assms by (rule decodes_sound)
qed

theorem delta_roundtrip_witness:
  "delta_decode [1, 2, 3, 4, 5, 6, 7, 8, 9] (encode [1, 2, 3, 4, 5, 6, 7, 8, 9] [0, 1, 2, 3, 4, 5, 6, 7, 8, 9]) 10
     = Inr [0, 1, 2, 3, 4, 5, 6, 7, 8, 9]"
  by (rule delta_roundtrip) (simp_all add: usize_max_def)

lemma encode_insert_length: "length (encode_insert data) = length data + div_ceil (length data) 128"
proof (induction data rule: encode_insert.induct)
  case (1 data)
  show ?case
  proof (cases "data = []")
    case True then show ?thesis by (simp add: encode_insert.simps div_ceil_def)
  next
    case False
    have "div_ceil n 128 = 1 + div_ceil (n - 128) 128" if "0 < n" for n
      using that by (cases "n \<le> 128") (auto simp: div_ceil_def div_add_self2 [symmetric] not_le
          le_div_geq)
    then show ?thesis
      using False 1 [OF False refl] by (simp add: encode_insert.simps [of data] Let_def)
  qed
qed

lemma emit_copy_instruction_length:
  "length (emit_copy_instruction delta offset n) = length delta + copy_instruction_size_one offset n"
  by (simp add: emit_copy_instruction_def copy_instruction_size_one_def Let_def)

lemma copy_instruction_size_length: "copy_instruction_size offset n sz = sz + length (emit_copy [] offset n)"
proof (induction n arbitrary: offset sz rule: less_induct)
  case (less n)
  show ?case
  proof (cases "n > 0")
    case True
    let ?c = "min n MAX_COPY_LENGTH"
    have lt: "n - ?c < n" using True by (simp add: MAX_COPY_LENGTH_def)
    show ?thesis
      using True less [OF lt] emit_copy_append [of "emit_copy_instruction [] offset ?c"]
      by (simp add: emit_copy.simps [of "[]" offset n] copy_instruction_size.simps [of offset n] Let_def
          emit_copy_instruction_length)
  qed (simp add: emit_copy.simps copy_instruction_size.simps)
qed

lemma estimate_loop_length:
  "estimate_loop index base target pos key sz + length delta
     = sz + length (encode_loop index base target pos key delta)"
proof (induction index base target pos key delta arbitrary: sz rule: encode_loop.induct)
  case (1 index base target pos key delta)
  show ?case
  proof (cases "pos < length target")
    case False
    then show ?thesis by (simp add: encode_loop.simps estimate_loop.simps)
  next
    case pos: True
    show ?thesis
    proof (cases "find_best_match index base target pos key (min_match_for (length target))")
      case (Some best)
      then show ?thesis
        using pos "1.IH"(2) [OF pos Some surjective_pairing [symmetric],
            of "sz + copy_instruction_size (fst best) (snd best) 0"]
          emit_copy_append [of delta "fst best" "snd best"]
          copy_instruction_size_length [of "fst best" "snd best" 0]
        by (cases best) (simp add: encode_loop.simps [of _ _ _ pos] estimate_loop.simps [of _ _ _ pos])
    next
      case None
      define pos' where "pos' = fst (scan_insert index base target (min_match_for (length target)) pos pos key)"
      have p: "pos < pos'" "pos' \<le> length target"
        unfolding pos'_def using pos scan_insert_progress(2) scan_insert_bound(1) by simp_all
      then show ?thesis
        using pos None "1.IH"(1) [OF pos None refl refl, of "sz + (1 + (pos' - pos))"]
        by (simp add: encode_loop.simps [of _ _ _ pos] estimate_loop.simps [of _ _ _ pos] Let_def pos'_def)
    qed
  qed
qed

text \<open>The estimator, which decides which base a pack writer picks, returns exactly the number of bytes
  the encoder will write.\<close>

theorem estimate_is_encoded_length: "estimate_delta_size base target = length (encode base target)"
  using estimate_loop_length [of "build_index base" base target 0 "target_key target 0" 0 "[]"]
  by (simp add: estimate_delta_size_def estimate_delta_size_with_index_def encode_def encode_with_index_def
      encode_insert_length)

section \<open>The match search\<close>

text \<open>The chunked comparison returns the length of the common prefix of the two windows, which end at
  the end of the base, at the end of the target, or where the last 32-bit copy offset would be passed.\<close>

theorem match_length_is_common_prefix:
  assumes "base_pos \<le> length base" "target_pos \<le> length target"
  shows "match_length base base_pos target target_pos
    = common_prefix_length (take (match_max_len base base_pos target target_pos) (drop base_pos base))
        (take (match_max_len base base_pos target target_pos) (drop target_pos target))"
proof -
  note m = match_length_agree [OF assms]
  have "match_max_len base base_pos target target_pos \<le> length base - base_pos"
    "match_max_len base base_pos target target_pos \<le> length target - target_pos"
    by (simp_all add: match_max_len_def)
  then show ?thesis
    using m assms by (intro common_prefix_length_eqI [symmetric]) (auto simp: agree_def)
qed

theorem match_length_is_common_prefix_witness:
  "match_length [9, 1, 2, 3, 7] 1 [1, 2, 3, 4] 0 = common_prefix_length [1, 2, 3, 7] [1, 2, 3, 4]"
  using match_length_is_common_prefix [of 1 "[9, 1, 2, 3, 7]" 0 "[1, 2, 3, 4]"]
  by (simp add: match_max_len_def saturating_add_def usize_max_def u32_max_def)

text \<open>Rolling the four-byte key by one byte gives the key that reading it afresh at the new position
  gives, also at the end of the target, where there is none.\<close>

theorem rolled_key_is_target_key:
  assumes "pos + 5 \<le> usize_max"
  shows "roll_target_key (target_key target pos) target (pos + 1) = target_key target (pos + 1)"
proof -
  have roll: "push_bit 8 (u32_from_be_bytes a b c d) OR ucast e = u32_from_be_bytes b c d e" for a b c d e
    by (rule bit_eqI) (auto simp: u32_from_be_bytes_def bit_simps dest: bit_imp_le_length)
  have "pos + 4 \<le> usize_max" "pos + 1 + 3 \<le> usize_max" "pos + 1 + 4 \<le> usize_max" using assms by simp_all
  then show ?thesis
    using roll by (auto simp: roll_target_key_def target_key_def checked_add_def numeral_eq_Suc split: option.splits)
qed

theorem rolled_key_is_target_key_witness:
  "roll_target_key (target_key [1, 2, 3, 4, 5] 0) [1, 2, 3, 4, 5] 1 = target_key [1, 2, 3, 4, 5] 1"
  using rolled_key_is_target_key [of 0 "[1, 2, 3, 4, 5]"] by (simp add: usize_max_def)

text \<open>C37: Whatever the bytes of a delta, and however hostile, a successful decode never returns more than
  the output limit.\<close>

theorem decoder_output_bounded: "delta_decode base delta max_output = Inr out \<Longrightarrow> length out \<le> max_output"
  using decode_loop_length [of base delta max_output 0 "[]" out] by (simp add: delta_decode_def)

theorem decoder_output_bounded_witness: "length [7 :: u8, 8] \<le> 2"
  by (rule decoder_output_bounded [of "[]" "[1, 7, 8]"])
    (simp add: delta_decode_def decode_loop.simps decode_step_def ensure_output_limit_def checked_add_def
      usize_max_def subslice_def)

section \<open>The index\<close>

lemma binary_search_by_key_complete:
  assumes "sorted (map ie_key es)" "k \<in> ie_key ` set es"
  obtains i where "binary_search_by_key es k = Some i" "i < length es" "ie_key (es ! i) = k"
proof -
  let ?i = "bsearch_loop (map ie_key es) k 0 (length es)"
  have ne: "es \<noteq> []" using assms(2) by auto
  then have "?i < length (map ie_key es)" by (intro bsearch_loop_range) simp_all
  moreover have "map ie_key es ! ?i = k"
    using assms ne by (intro bsearch_loop_finds) auto
  ultimately show thesis using that [of ?i] ne by (simp add: binary_search_by_key_def)
qed

text \<open>A sorted list falls into three parts around a key.\<close>

lemma sorted_partition:
  assumes "sorted (map f xs)"
  shows "filter (\<lambda>x. f x < k) xs @ filter (\<lambda>x. f x = k) xs @ filter (\<lambda>x. k < f x) xs = (xs :: 'a list)"
  using assms
proof (induction xs)
  case (Cons x xs)
  have "filter (\<lambda>y. f y < k) xs = []" if "k \<le> f x"
    using that Cons.prems by (auto simp: filter_empty_conv)
  moreover have "filter (\<lambda>y. f y = k) xs = []" if "k < f x"
    using that Cons.prems by (auto simp: filter_empty_conv)
  ultimately show ?case using Cons by (auto simp: not_less)
qed simp

lemma takeWhile_append_all: "\<forall>x \<in> set xs. P x \<Longrightarrow> \<forall>y \<in> set ys. \<not> P y \<Longrightarrow> takeWhile P (xs @ ys) = xs"
  by (cases ys) (auto simp: takeWhile_append)

lemma candidate_slice:
  assumes "sorted (map ie_key es)" "found < length es" "ie_key (es ! found) = k"
  shows "subslice es (length (takeWhile (\<lambda>e. ie_key e < k) (take found es)))
      (found + length (takeWhile (\<lambda>e. ie_key e = k) (drop found es))) = filter (\<lambda>e. ie_key e = k) es"
proof -
  define A B C where "A = filter (\<lambda>e. ie_key e < k) es" "B = filter (\<lambda>e. ie_key e = k) es"
    "C = filter (\<lambda>e. k < ie_key e) es"
  have es: "es = A @ B @ C" using sorted_partition [OF assms(1), of k] by (simp add: A_B_C_def)
  have ABC: "\<forall>e \<in> set A. ie_key e < k" "\<forall>e \<in> set B. ie_key e = k" "\<forall>e \<in> set C. k < ie_key e"
    by (auto simp: A_B_C_def)
  have "length A \<le> found"
  proof (rule ccontr)
    assume "\<not> length A \<le> found"
    then have "es ! found \<in> set A" using es by (simp add: nth_append)
    then show False using ABC(1) assms(3) by auto
  qed
  moreover have "found - length A < length B"
  proof (rule ccontr)
    assume "\<not> found - length A < length B"
    then have "es ! found \<in> set C" using es assms(2) \<open>length A \<le> found\<close> by (auto simp: nth_append)
    then show False using ABC(3) assms(3) by auto
  qed
  ultimately obtain j where j: "found = length A + j" "j < length B" by (metis le_iff_add add_diff_cancel_left')
  have "take found es = A @ take j B" "drop found es = drop j B @ C" using es j by simp_all
  moreover have "takeWhile (\<lambda>e. ie_key e < k) (A @ take j B) = A"
    using ABC by (intro takeWhile_append_all) (auto dest: in_set_takeD)
  moreover have "takeWhile (\<lambda>e. ie_key e = k) (drop j B @ C) = drop j B"
    using ABC by (intro takeWhile_append_all) (auto dest: in_set_dropD)
  ultimately have "subslice es (length (takeWhile (\<lambda>e. ie_key e < k) (take found es)))
      (found + length (takeWhile (\<lambda>e. ie_key e = k) (drop found es))) = B"
    using es j by (simp add: subslice_def)
  then show ?thesis unfolding A_B_C_def(2) .
qed

lemma build_index_sorted: "sorted (map ie_key (index_entries (build_index base)))"
proof -
  have "sorted (map (\<lambda>e. (ie_key e, ie_offset e)) (index_entries (build_index base)))"
    by (simp add: build_index_def Let_def)
  then show ?thesis
    by (auto simp: sorted_map less_eq_prod_def elim!: sorted_wrt_mono_rel [rotated])
qed

text \<open>Looking a key up in an index built from a base never misses: for the key of any sampled position,
  the binary search succeeds and the slice of candidates around the hit is exactly the list of all index
  entries with that key.\<close>

theorem index_lookup_complete:
  assumes "e \<in> set (index_entries (build_index base))"
  shows "\<exists>found. binary_search_by_key (index_entries (build_index base)) (ie_key e) = Some found
    \<and> subslice (index_entries (build_index base))
        (length (takeWhile (\<lambda>x. ie_key x < ie_key e) (take found (index_entries (build_index base)))))
        (found + length (takeWhile (\<lambda>x. ie_key x = ie_key e) (drop found (index_entries (build_index base)))))
      = filter (\<lambda>x. ie_key x = ie_key e) (index_entries (build_index base))"
proof -
  obtain i where "binary_search_by_key (index_entries (build_index base)) (ie_key e) = Some i"
    "i < length (index_entries (build_index base))" "ie_key (index_entries (build_index base) ! i) = ie_key e"
    using binary_search_by_key_complete [OF build_index_sorted, of "ie_key e" base] assms by blast
  then show ?thesis using candidate_slice [OF build_index_sorted] by blast
qed

theorem index_lookup_complete_witness:
  "\<exists>found. binary_search_by_key (index_entries (build_index [1, 2, 3, 4])) 0x01020304 = Some found"
  using index_lookup_complete [of "\<lparr>ie_key = 0x01020304, ie_offset = 0\<rparr>" "[1, 2, 3, 4]"]
  by (auto simp: build_index_def index_stride_def DENSE_INDEX_BELOW_def base_key_def u32_from_be_bytes_def
      push_bit_eq_mult)

lemma div_ceil_mult: "0 < b \<Longrightarrow> a \<le> div_ceil a b * b"
proof -
  assume "0 < b"
  then have "(a + b - 1) mod b < b" by simp
  then show ?thesis
    using div_mult_mod_eq [of "a + b - 1" b] \<open>0 < b\<close> unfolding div_ceil_def by linarith
qed

text \<open>The index of any base, however large, stays within its cap of 4 MiB of eight-byte entries.\<close>

theorem index_within_memory_cap: "length (index_entries (build_index base)) * 8 \<le> MAX_INDEX_BYTES"
proof (cases "length base < 4")
  case False
  define lst stride where "lst = min (length base - 4) u32_max" "stride = index_stride (length base) lst"
  have len: "length (index_entries (build_index base)) = lst div stride + 1"
    using False by (simp add: build_index_def lst_stride_def Let_def)
  have "lst < 524288 * stride"
  proof (cases "length base < DENSE_INDEX_BELOW")
    case True
    then show ?thesis by (auto simp: lst_stride_def index_stride_def DENSE_INDEX_BELOW_def)
  next
    case dense: False
    define m where "m = max (div_ceil (lst + 1) 524288) INDEX_BLOCK_SIZE"
    have "stride = div_ceil m 16 * 16"
      using dense by (simp add: lst_stride_def(2) index_stride_def next_multiple_of_def m_def INDEX_BLOCK_SIZE_def
          MAX_INDEX_BYTES_def)
    then have "m \<le> stride" using div_ceil_mult [of 16 m] by simp
    moreover have "lst + 1 \<le> m * 524288"
      using div_ceil_mult [of 524288 "lst + 1"] by (simp add: m_def max_def)
    ultimately have "lst + 1 \<le> stride * 524288" by (meson mult_le_mono1 order_trans)
    then show ?thesis by simp
  qed
  then have "lst div stride < 524288" by (simp add: less_mult_imp_div_less mult.commute)
  then show ?thesis by (simp add: len MAX_INDEX_BYTES_def)
qed (simp add: build_index_def)

end
