(* ===== verification/Text_Merge.thy ===== *)
theory Text_Merge
  imports Heddle_Prelude
begin

text \<open>
  The line-based three-way merge of \<^verbatim>\<open>src/crates/merge/src\<close> (\<^verbatim>\<open>lib.rs\<close>, \<^verbatim>\<open>lines.rs\<close>,
  \<^verbatim>\<open>markers.rs\<close>, \<^verbatim>\<open>whitespace.rs\<close>, \<^verbatim>\<open>preflight.rs\<close>, \<^verbatim>\<open>diff3.rs\<close>).

  \<^verbatim>\<open>similar::capture_diff_slices\<close> is a crate of its own: it is the parameter \<open>diff\<close> of the
  definitions, and what the merge relies on, that it returns an edit script from the first list of
  lines to the second, is the hypothesis \<open>differ\<close>.
\<close>

section \<open>Edit scripts\<close>

text \<open>\<^verbatim>\<open>similar::DiffOp\<close>, fields in the order of the source: Equal old new len, Delete old len new,
  Insert old new len, Replace old old-len new new-len.\<close>

datatype DiffOp =
  DiffEqual nat nat nat
| DiffDelete nat nat nat
| DiffInsert nat nat nat
| DiffReplace nat nat nat nat

type_synonym line = bytes
type_synonym differ_fn = "line list \<Rightarrow> line list \<Rightarrow> DiffOp list"

text \<open>An edit script walks both lists from left to right without gaps, and its equal runs are equal.\<close>

fun script_from :: "line list \<Rightarrow> line list \<Rightarrow> nat \<Rightarrow> nat \<Rightarrow> DiffOp list \<Rightarrow> bool" where
  "script_from old new i j [] \<longleftrightarrow> i = length old \<and> j = length new"
| "script_from old new i j (DiffEqual a b n # ops) \<longleftrightarrow>
     a = i \<and> b = j \<and> i + n \<le> length old \<and> j + n \<le> length new
     \<and> subslice old i (i + n) = subslice new j (j + n) \<and> script_from old new (i + n) (j + n) ops"
| "script_from old new i j (DiffDelete a n b # ops) \<longleftrightarrow>
     a = i \<and> b = j \<and> i + n \<le> length old \<and> script_from old new (i + n) j ops"
| "script_from old new i j (DiffInsert a b n # ops) \<longleftrightarrow>
     a = i \<and> b = j \<and> j + n \<le> length new \<and> script_from old new i (j + n) ops"
| "script_from old new i j (DiffReplace a m b n # ops) \<longleftrightarrow>
     a = i \<and> b = j \<and> 0 < m \<and> i + m \<le> length old \<and> j + n \<le> length new
     \<and> script_from old new (i + m) (j + n) ops"

definition differ :: "differ_fn \<Rightarrow> bool" where
  "differ diff \<longleftrightarrow> (\<forall>old new. script_from old new 0 0 (diff old new))"

section \<open>Lines, markers and whitespace\<close>

definition BINARY_SNIFF_LEN :: nat where "BINARY_SNIFF_LEN = 8192"

definition is_binary :: "bytes \<Rightarrow> bool" where
  "is_binary bytes = (0 \<in> set (take (min (length bytes) BINARY_SNIFF_LEN) bytes))"

definition any_binary :: "bytes \<Rightarrow> bytes \<Rightarrow> bytes \<Rightarrow> bool" where
  "any_binary base ours theirs \<longleftrightarrow> is_binary base \<or> is_binary ours \<or> is_binary theirs"

definition newline :: u8 where "newline = 0x0A"

text \<open>\<^verbatim>\<open>bytes.split_inclusive(|&b| b == b'\n').collect()\<close>\<close>

fun split_lines :: "bytes \<Rightarrow> line list" where
  "split_lines [] = []"
| "split_lines (b # bs) =
     (if b = newline then [b] # split_lines bs
      else (case split_lines bs of [] \<Rightarrow> [[b]] | l # ls \<Rightarrow> (b # l) # ls))"

definition apply_equal :: "nat option list \<Rightarrow> DiffOp \<Rightarrow> nat option list" where
  "apply_equal align op =
     (case op of
        DiffEqual old_index new_index n \<Rightarrow>
          fold (\<lambda>k al. al[old_index + k := Some (new_index + k)]) [0..<n] align
      | _ \<Rightarrow> align)"

definition build_alignment :: "differ_fn \<Rightarrow> line list \<Rightarrow> line list \<Rightarrow> nat option list" where
  "build_alignment diff base_lines other_lines =
     foldl apply_equal (replicate (length base_lines) None) (diff base_lines other_lines)"

record ConflictMarkers =
  marker_ours :: bytes
  marker_theirs :: bytes

text \<open>\<^verbatim>\<open>"CURRENT"\<close> and \<^verbatim>\<open>"INCOMING"\<close>.\<close>

definition DEFAULT_MARKERS :: ConflictMarkers where
  "DEFAULT_MARKERS = \<lparr>marker_ours = [0x43, 0x55, 0x52, 0x52, 0x45, 0x4E, 0x54],
                      marker_theirs = [0x49, 0x4E, 0x43, 0x4F, 0x4D, 0x49, 0x4E, 0x47]\<rparr>"

definition emit_lines :: "bytes \<Rightarrow> line list \<Rightarrow> bytes" where
  "emit_lines out lines = foldl (@) out lines"

definition ensure_trailing_newline :: "bytes \<Rightarrow> bytes" where
  "ensure_trailing_newline out = (if out \<noteq> [] \<and> last out \<noteq> newline then out @ [newline] else out)"

definition emit_conflict :: "bytes \<Rightarrow> line list \<Rightarrow> line list \<Rightarrow> ConflictMarkers \<Rightarrow> bytes" where
  "emit_conflict out our_slice their_slice markers =
     (let out = out @ [0x3C, 0x3C, 0x3C, 0x3C, 0x3C, 0x3C, 0x3C, 0x20];
          out = out @ marker_ours markers;
          out = out @ [newline];
          out = emit_lines out our_slice;
          out = ensure_trailing_newline out;
          out = out @ [0x3D, 0x3D, 0x3D, 0x3D, 0x3D, 0x3D, 0x3D, newline];
          out = emit_lines out their_slice;
          out = ensure_trailing_newline out;
          out = out @ [0x3E, 0x3E, 0x3E, 0x3E, 0x3E, 0x3E, 0x3E, 0x20];
          out = out @ marker_theirs markers
      in out @ [newline])"

definition strip_suffix :: "bytes \<Rightarrow> bytes \<Rightarrow> bytes option" where
  "strip_suffix suf xs =
     (if length suf \<le> length xs \<and> drop (length xs - length suf) xs = suf
      then Some (take (length xs - length suf) xs) else None)"

definition split_line_ending :: "bytes \<Rightarrow> bytes \<times> bytes" where
  "split_line_ending line =
     (case strip_suffix [0x0D, newline] line of
        Some stripped \<Rightarrow> (stripped, [0x0D, newline])
      | None \<Rightarrow> (case strip_suffix [newline] line of
                  Some stripped \<Rightarrow> (stripped, [newline])
                | None \<Rightarrow> (line, [])))"

definition is_blank :: "u8 \<Rightarrow> bool" where
  "is_blank b \<longleftrightarrow> b = 0x20 \<or> b = 0x09"

text \<open>\<^verbatim>\<open>Iterator::rposition\<close>: the last index whose element satisfies the predicate.\<close>

definition rposition :: "('a \<Rightarrow> bool) \<Rightarrow> 'a list \<Rightarrow> nat option" where
  "rposition P xs = (case filter (\<lambda>i. P (xs ! i)) (rev [0..<length xs]) of [] \<Rightarrow> None | i # _ \<Rightarrow> Some i)"

definition trailing_ws_key :: "bytes \<Rightarrow> bytes \<times> bytes" where
  "trailing_ws_key line =
     (case split_line_ending line of (body, ending) \<Rightarrow>
        ((case rposition (\<lambda>b. \<not> is_blank b) body of Some idx \<Rightarrow> take (idx + 1) body | None \<Rightarrow> []), ending))"

definition count_trailing_ws :: "bytes \<Rightarrow> nat" where
  "count_trailing_ws line = length (takeWhile is_blank (rev (fst (split_line_ending line))))"

fun compare_ws_loop :: "line list \<Rightarrow> line list \<Rightarrow> nat \<Rightarrow> nat \<Rightarrow> (nat \<times> nat) option" where
  "compare_ws_loop (x # xs) (y # ys) a_ws b_ws =
     (if trailing_ws_key x \<noteq> trailing_ws_key y then None
      else compare_ws_loop xs ys (a_ws + count_trailing_ws x) (b_ws + count_trailing_ws y))"
| "compare_ws_loop _ _ a_ws b_ws = Some (a_ws, b_ws)"

definition compare_trailing_ws :: "line list \<Rightarrow> line list \<Rightarrow> line list option" where
  "compare_trailing_ws a b =
     (if length a \<noteq> length b then None
      else (case compare_ws_loop a b 0 0 of None \<Rightarrow> None
            | Some (a_ws, b_ws) \<Rightarrow> Some (if a_ws \<le> b_ws then a else b)))"

section \<open>Composition of disjoint edits\<close>

datatype LineAction = Keep | Replace "line list" | Delete

text \<open>One operation of the script entered in the tables: an action per base line, and the lines inserted
  in the gap before each base line and after the last.\<close>

definition classify_op ::
  "nat \<Rightarrow> line list \<Rightarrow> LineAction list \<times> line list list \<Rightarrow> DiffOp \<Rightarrow> LineAction list \<times> line list list" where
  "classify_op base_len side = (\<lambda>(actions, inserts) op.
     case op of
       DiffEqual _ _ _ \<Rightarrow> (actions, inserts)
     | DiffInsert old_index new_index new_len \<Rightarrow>
         let slot = min old_index base_len
         in (actions, fold (\<lambda>k ins. ins[slot := ins ! slot @ [side ! (new_index + k)]]) [0..<new_len] inserts)
     | DiffDelete old_index old_len _ \<Rightarrow>
         (fold (\<lambda>k acts. acts[old_index + k := Delete]) [0..<old_len] actions, inserts)
     | DiffReplace old_index old_len new_index new_len \<Rightarrow>
         let repl = map (\<lambda>k. side ! (new_index + k)) [0..<new_len];
             actions = actions[old_index := Replace repl]
         in (fold (\<lambda>k acts. acts[old_index + k := Delete]) [1..<old_len] actions, inserts))"

definition classify_against_base ::
  "differ_fn \<Rightarrow> line list \<Rightarrow> line list \<Rightarrow> LineAction list \<times> line list list" where
  "classify_against_base diff base side =
     foldl (classify_op (length base) side) (replicate (length base) Keep, replicate (length base + 1) [])
       (diff base side)"

definition compose_gap :: "bytes \<Rightarrow> line list \<Rightarrow> line list \<Rightarrow> bytes option" where
  "compose_gap out ours theirs =
     (if ours = [] \<and> theirs = [] then Some out
      else if ours = [] then Some (foldl (@) out theirs)
      else if theirs = [] then Some (foldl (@) out ours)
      else if length ours = length theirs \<and> list_all (\<lambda>(a, b). a = b) (zip ours theirs)
      then Some (foldl (@) out ours)
      else None)"

definition compose_action :: "bytes \<Rightarrow> line \<Rightarrow> LineAction \<Rightarrow> LineAction \<Rightarrow> bytes option" where
  "compose_action out base_line our their =
     (case (our, their) of
        (Keep, Keep) \<Rightarrow> Some (out @ base_line)
      | (Keep, Replace repl) \<Rightarrow> Some (foldl (@) out repl)
      | (Replace repl, Keep) \<Rightarrow> Some (foldl (@) out repl)
      | (Keep, Delete) \<Rightarrow> Some out
      | (Delete, Keep) \<Rightarrow> Some out
      | (_, _) \<Rightarrow> None)"

fun compose_loop ::
  "line list \<Rightarrow> LineAction list \<Rightarrow> line list list \<Rightarrow> LineAction list \<Rightarrow> line list list \<Rightarrow> nat list \<Rightarrow> bytes
   \<Rightarrow> bytes option" where
  "compose_loop base our_actions our_inserts their_actions their_inserts [] out = Some out"
| "compose_loop base our_actions our_inserts their_actions their_inserts (i # is) out =
     (case compose_gap out (our_inserts ! i) (their_inserts ! i) of None \<Rightarrow> None
      | Some out \<Rightarrow>
        (case compose_action out (base ! i) (our_actions ! i) (their_actions ! i) of None \<Rightarrow> None
         | Some out \<Rightarrow> compose_loop base our_actions our_inserts their_actions their_inserts is out))"

definition compose_disjoint :: "differ_fn \<Rightarrow> line list \<Rightarrow> line list \<Rightarrow> line list \<Rightarrow> bytes option" where
  "compose_disjoint diff base ours theirs =
     (let (our_actions, our_inserts) = classify_against_base diff base ours;
          (their_actions, their_inserts) = classify_against_base diff base theirs
      in case compose_loop base our_actions our_inserts their_actions their_inserts [0..<length base] [] of
           None \<Rightarrow> None
         | Some out \<Rightarrow> compose_gap out (our_inserts ! length base) (their_inserts ! length base))"

section \<open>The diff3 walk\<close>

record ConflictLineRange =
  range_start :: nat
  range_end :: nat

record TextConflictRegion =
  region_base :: ConflictLineRange
  region_ours :: ConflictLineRange
  region_theirs :: ConflictLineRange
  region_merged :: ConflictLineRange

datatype MergeOutcome = Clean bytes | Conflicts bytes nat | Binary | DeleteVsModify

definition output_line_count :: "bytes \<Rightarrow> nat" where
  "output_line_count bytes =
     length (filter (\<lambda>b. b = newline) bytes) + of_bool (bytes \<noteq> [] \<and> last bytes \<noteq> newline)"

definition emit_hunk ::
  "differ_fn \<Rightarrow> bytes \<Rightarrow> TextConflictRegion list \<Rightarrow> line list \<Rightarrow> line list \<Rightarrow> line list
   \<Rightarrow> TextConflictRegion \<Rightarrow> ConflictMarkers \<Rightarrow> bytes \<times> TextConflictRegion list" where
  "emit_hunk diff out regions base_slice our_slice their_slice region markers =
     (if our_slice = base_slice then (emit_lines out their_slice, regions)
      else if their_slice = base_slice \<or> our_slice = their_slice then (emit_lines out our_slice, regions)
      else (case compare_trailing_ws our_slice their_slice of
              Some clean \<Rightarrow> (emit_lines out clean, regions)
            | None \<Rightarrow>
        (case compose_disjoint diff base_slice our_slice their_slice of
           Some composed \<Rightarrow> (out @ composed, regions)
         | None \<Rightarrow>
             if base_slice = [] \<and> our_slice \<noteq> [] \<and> their_slice \<noteq> []
             then (emit_lines (emit_lines out our_slice) their_slice, regions)
             else let merged_start = output_line_count out;
                      out' = emit_conflict out our_slice their_slice markers
                  in (out', regions @ [region\<lparr>region_merged :=
                        \<lparr>range_start = merged_start, range_end = output_line_count out'\<rparr>\<rparr>]))))"

text \<open>The scan for the base line at which both sides align again: \<open>(j, end_our, end_their)\<close>.\<close>

function realign ::
  "nat option list \<Rightarrow> nat option list \<Rightarrow> nat \<Rightarrow> nat \<Rightarrow> nat \<Rightarrow> nat \<Rightarrow> nat \<Rightarrow> nat \<Rightarrow> nat \<times> nat \<times> nat" where
  "realign our_align their_align base_len our_len their_len our_pos their_pos j =
     (if j \<ge> base_len then (j, our_len, their_len)
      else (case (our_align ! j, their_align ! j) of
              (Some o', Some t) \<Rightarrow>
                if o' \<ge> our_pos \<and> t \<ge> their_pos then (j, o', t)
                else realign our_align their_align base_len our_len their_len our_pos their_pos (j + 1)
            | _ \<Rightarrow> realign our_align their_align base_len our_len their_len our_pos their_pos (j + 1)))"
  by pat_completeness auto
termination
  by (relation "measure (\<lambda>(oa, ta, n, ol, tl, op, tp, j). n - j)") auto

declare realign.simps [simp del]

definition stable_at :: "nat option list \<Rightarrow> nat option list \<Rightarrow> nat \<Rightarrow> nat \<Rightarrow> nat \<Rightarrow> bool" where
  "stable_at our_align their_align i our_pos their_pos \<longleftrightarrow>
     our_align ! i = Some our_pos \<and> their_align ! i = Some their_pos"

lemma realign_result:
  assumes "realign oa ta n ol thl up tp j = (j', eo, et)"
  shows "j \<le> j'"
    and "j' < n \<Longrightarrow> stable_at oa ta j' eo et \<and> up \<le> eo \<and> tp \<le> et"
    and "n \<le> j' \<Longrightarrow> eo = ol \<and> et = thl"
    and "j \<le> n \<Longrightarrow> j' \<le> n"
proof -
  have "j \<le> j' \<and> (j' < n \<longrightarrow> stable_at oa ta j' eo et \<and> up \<le> eo \<and> tp \<le> et)
      \<and> (n \<le> j' \<longrightarrow> eo = ol \<and> et = thl) \<and> (j \<le> n \<longrightarrow> j' \<le> n)"
    using assms
  proof (induction oa ta n ol thl up tp j rule: realign.induct)
    case (1 oa ta n ol thl up tp j)
    show ?case
    proof (cases "j \<ge> n")
      case True
      then show ?thesis using "1.prems" by (simp add: realign.simps [of _ _ _ _ _ _ _ j])
    next
      case j: False
      show ?thesis
      proof (cases "\<exists>o' t. oa ! j = Some o' \<and> ta ! j = Some t \<and> up \<le> o' \<and> tp \<le> t")
        case True
        then show ?thesis
          using "1.prems" j by (auto simp: realign.simps [of _ _ _ _ _ _ _ j] stable_at_def)
      next
        case False
        then have "realign oa ta n ol thl up tp (j + 1) = (j', eo, et)"
          using "1.prems" j by (auto simp: realign.simps [of _ _ _ _ _ _ _ j] split: option.splits if_splits)
        then show ?thesis
          using 1 j False by (cases "oa ! j"; cases "ta ! j") force+
      qed
    qed
  qed
  then show "j \<le> j'" "j' < n \<Longrightarrow> stable_at oa ta j' eo et \<and> up \<le> eo \<and> tp \<le> et"
    "n \<le> j' \<Longrightarrow> eo = ol \<and> et = thl" "j \<le> n \<Longrightarrow> j' \<le> n" by auto
qed

definition hunk_region :: "nat \<Rightarrow> nat \<Rightarrow> nat \<Rightarrow> nat \<Rightarrow> nat \<Rightarrow> nat \<Rightarrow> TextConflictRegion" where
  "hunk_region b0 b1 o0 o1 t0 t1 =
     \<lparr>region_base = \<lparr>range_start = b0, range_end = b1\<rparr>,
      region_ours = \<lparr>range_start = o0, range_end = o1\<rparr>,
      region_theirs = \<lparr>range_start = t0, range_end = t1\<rparr>,
      region_merged = \<lparr>range_start = 0, range_end = 0\<rparr>\<rparr>"

text \<open>The \<^verbatim>\<open>while i < base.len()\<close> loop; the result has the output, the regions and where both sides
  were left. An unstable hunk that starts at an aligned base line moves only the two sides, and the next
  iteration is then stable, which is why the loop ends.\<close>

function walk_loop ::
  "differ_fn \<Rightarrow> line list \<Rightarrow> line list \<Rightarrow> line list \<Rightarrow> nat option list \<Rightarrow> nat option list \<Rightarrow> ConflictMarkers
   \<Rightarrow> nat \<Rightarrow> nat \<Rightarrow> nat \<Rightarrow> bytes \<Rightarrow> TextConflictRegion list
   \<Rightarrow> bytes \<times> TextConflictRegion list \<times> nat \<times> nat" where
  "walk_loop diff base ours theirs our_align their_align markers i our_pos their_pos output regions =
     (if i < length base
      then if stable_at our_align their_align i our_pos their_pos
           then walk_loop diff base ours theirs our_align their_align markers
                  (i + 1) (our_pos + 1) (their_pos + 1) (output @ base ! i) regions
           else (let hunk = realign our_align their_align (length base) (length ours) (length theirs)
                              our_pos their_pos i;
                     j = fst hunk; end_our = fst (snd hunk); end_their = snd (snd hunk);
                     emitted = emit_hunk diff output regions (subslice base i j)
                       (subslice ours our_pos end_our) (subslice theirs their_pos end_their)
                       (hunk_region i j our_pos end_our their_pos end_their) markers
                 in walk_loop diff base ours theirs our_align their_align markers
                      j end_our end_their (fst emitted) (snd emitted))
      else (output, regions, our_pos, their_pos))"
  by pat_completeness auto
termination
proof (relation "measure (\<lambda>(diff, base, ours, theirs, oa, ta, m, i, up, tp, out, regs).
    2 * (length base - i) + of_bool (\<not> stable_at oa ta i up tp))", goal_cases)
  case (3 diff base ours theirs oa ta m i up tp out regs hunk j eo et emitted)
  have r: "realign oa ta (length base) (length ours) (length theirs) up tp i = (j, eo, et)"
    using 3 by simp
  show ?case
  proof (cases "j < length base")
    case True
    then show ?thesis
      using realign_result(1,2) [OF r] 3 by (auto simp: le_less)
  next
    case False
    then show ?thesis using 3 by simp
  qed
qed auto

declare walk_loop.simps [simp del]

definition walk_and_emit ::
  "differ_fn \<Rightarrow> line list \<Rightarrow> line list \<Rightarrow> line list \<Rightarrow> nat option list \<Rightarrow> nat option list \<Rightarrow> ConflictMarkers
   \<Rightarrow> MergeOutcome \<times> TextConflictRegion list" where
  "walk_and_emit diff base ours theirs our_align their_align markers =
     (let (output, regions, our_pos, their_pos) =
            walk_loop diff base ours theirs our_align their_align markers 0 0 0 [] [];
          (output, regions) =
            (if our_pos < length ours \<or> their_pos < length theirs
             then emit_hunk diff output regions [] (drop our_pos ours) (drop their_pos theirs)
                    (hunk_region (length base) (length base) our_pos (length ours) their_pos (length theirs))
                    markers
             else (output, regions));
          outcome = (if regions = [] then Clean output else Conflicts output (length regions))
      in (outcome, regions))"

definition run :: "differ_fn \<Rightarrow> bytes \<Rightarrow> bytes \<Rightarrow> bytes \<Rightarrow> ConflictMarkers \<Rightarrow> MergeOutcome" where
  "run diff base ours theirs markers =
     (if base = ours \<and> base = theirs then Clean base
      else if base = ours then Clean theirs
      else if base = theirs then Clean ours
      else if ours = theirs then Clean ours
      else let base_lines = split_lines base; our_lines = split_lines ours; their_lines = split_lines theirs;
               our_align = build_alignment diff base_lines our_lines;
               their_align = build_alignment diff base_lines their_lines
           in fst (walk_and_emit diff base_lines our_lines their_lines our_align their_align markers))"

definition regions :: "differ_fn \<Rightarrow> bytes \<Rightarrow> bytes \<Rightarrow> bytes \<Rightarrow> TextConflictRegion list" where
  "regions diff base ours theirs =
     (if base = ours \<or> base = theirs \<or> ours = theirs then []
      else let base_lines = split_lines base; our_lines = split_lines ours; their_lines = split_lines theirs;
               our_align = build_alignment diff base_lines our_lines;
               their_align = build_alignment diff base_lines their_lines
           in snd (walk_and_emit diff base_lines our_lines their_lines our_align their_align DEFAULT_MARKERS))"

definition text_hunk_merge_with_markers ::
  "differ_fn \<Rightarrow> bytes \<Rightarrow> bytes \<Rightarrow> bytes \<Rightarrow> ConflictMarkers \<Rightarrow> MergeOutcome" where
  "text_hunk_merge_with_markers diff base ours theirs markers =
     (if any_binary base ours theirs then Binary else run diff base ours theirs markers)"

definition text_hunk_merge :: "differ_fn \<Rightarrow> bytes \<Rightarrow> bytes \<Rightarrow> bytes \<Rightarrow> MergeOutcome" where
  "text_hunk_merge diff base ours theirs =
     text_hunk_merge_with_markers diff base ours theirs DEFAULT_MARKERS"

definition text_conflict_regions :: "differ_fn \<Rightarrow> bytes \<Rightarrow> bytes \<Rightarrow> bytes \<Rightarrow> TextConflictRegion list" where
  "text_conflict_regions diff base ours theirs =
     (if any_binary base ours theirs then [] else regions diff base ours theirs)"

end
