(* ===== verification/Text_Merge_Correct.thy ===== *)
theory Text_Merge_Correct
  imports Text_Merge
begin

text \<open>
  Correctness of the three-way text merge: the walk partitions all three inputs, the tables of the
  composer are lossless, the reported regions address the conflict blocks of the output, and the one
  branch of the merge that joins two lines.
\<close>

section \<open>Lines\<close>

definition ends_nl :: "bytes \<Rightarrow> bool" where
  "ends_nl xs \<longleftrightarrow> xs = [] \<or> last xs = newline"

lemma split_lines_concat: "concat (split_lines bs) = bs"
  by (induction bs) (auto split: list.splits)

lemma split_lines_ne: "[] \<notin> set (split_lines bs)"
  by (induction bs) (auto split: list.splits)

lemma split_lines_Nil_iff [simp]: "split_lines bs = [] \<longleftrightarrow> bs = []"
  by (cases bs) (auto split: list.splits)

lemma split_lines_ends: "k + 1 < length (split_lines bs) \<Longrightarrow> ends_nl (split_lines bs ! k)"
proof (induction bs arbitrary: k)
  case (Cons b bs)
  show ?case
  proof (cases "b = newline")
    case True
    then show ?thesis using Cons by (cases k) (auto simp: ends_nl_def)
  next
    case False
    then obtain l ls where ls: "split_lines bs = l # ls"
      using Cons.prems by (cases "split_lines bs") auto
    have "ends_nl (split_lines bs ! k)" "l \<noteq> []"
      using Cons False ls split_lines_ne [of bs] by auto
    then show ?thesis using False ls by (cases k) (auto simp: ends_nl_def)
  qed
qed simp

lemma split_lines_append: "ends_nl xs \<Longrightarrow> split_lines (xs @ ys) = split_lines xs @ split_lines ys"
proof (induction xs)
  case (Cons x xs)
  show ?case
  proof (cases xs)
    case Nil
    then show ?thesis using Cons.prems by (simp add: ends_nl_def)
  next
    case (Cons y zs)
    then have "split_lines (xs @ ys) = split_lines xs @ split_lines ys"
      using Cons.IH Cons.prems by (simp add: ends_nl_def)
    moreover have "split_lines xs \<noteq> []" using Cons by (simp del: split_lines.simps)
    ultimately show ?thesis by (cases "split_lines xs") auto
  qed
qed simp

lemma output_line_count_length: "output_line_count out = length (split_lines out)"
proof (induction out)
  case (Cons b bs)
  then show ?case
    by (cases bs) (auto simp: output_line_count_def split: list.splits)
qed (simp add: output_line_count_def)

lemma emit_lines_concat [simp]: "foldl (@) out ls = out @ concat ls"
  by (induction ls arbitrary: out) auto

lemma ends_nl_append: "ends_nl xs \<Longrightarrow> ends_nl ys \<Longrightarrow> ends_nl (xs @ ys)"
  by (auto simp: ends_nl_def last_append)

lemma ends_nl_concat: "(\<And>l. l \<in> set ls \<Longrightarrow> ends_nl l) \<Longrightarrow> ends_nl (concat ls)"
  by (induction ls) (auto intro: ends_nl_append, simp add: ends_nl_def)

lemma emit_conflict_append: "emit_conflict out x y m = out @ emit_conflict [] x y m"
  by (auto simp: emit_conflict_def emit_lines_def ensure_trailing_newline_def Let_def last_append)

lemma emit_conflict_ends: "ends_nl (emit_conflict out x y m)"
  by (simp add: emit_conflict_def ends_nl_def Let_def)

section \<open>Alignments\<close>

lemma fold_update:
  assumes "a + n \<le> length xs"
  shows "length (fold (\<lambda>k ys. ys[a + k := f k]) [0..<n] xs) = length xs"
    and "fold (\<lambda>k ys. ys[a + k := f k]) [0..<n] xs ! m = (if a \<le> m \<and> m < a + n then f (m - a) else xs ! m)"
  using assms
proof (induction n arbitrary: m)
  case (Suc n)
  { case 1 then show ?case using Suc.IH(1) by simp }
  { case 2 then show ?case using Suc.IH by (auto simp: nth_list_update) }
qed auto

definition align_ok :: "line list \<Rightarrow> line list \<Rightarrow> nat option list \<Rightarrow> bool" where
  "align_ok base other align \<longleftrightarrow> length align = length base
     \<and> (\<forall>i j. i < length base \<longrightarrow> align ! i = Some j \<longrightarrow> j < length other \<and> base ! i = other ! j)"

lemma apply_equal_ok:
  assumes "align_ok old new align" "script_from old new i j (op # ops)"
  shows "align_ok old new (apply_equal align op)"
proof (cases op)
  case (DiffEqual a b n)
  then have s: "a = i" "b = j" "i + n \<le> length old" "j + n \<le> length new"
    "subslice old i (i + n) = subslice new j (j + n)" using assms(2) by auto
  have "old ! m = new ! (j + (m - i))" if "i \<le> m" "m < i + n" for m
  proof -
    have "subslice old i (i + n) ! (m - i) = old ! m" "subslice new j (j + n) ! (m - i) = new ! (j + (m - i))"
      using that s nth_subslice [of "m - i" "j + n" j new] nth_subslice [of "m - i" "i + n" i old] by simp_all
    then show ?thesis using s(5) by simp
  qed
  moreover have "i + n \<le> length align" using assms(1) s by (simp add: align_ok_def)
  ultimately show ?thesis
    using assms(1) s DiffEqual by (auto simp: align_ok_def apply_equal_def fold_update split: if_splits)
qed (use assms in \<open>simp_all add: apply_equal_def\<close>)

lemma script_next: "script_from old new i j (op # ops) \<Longrightarrow> \<exists>i' j'. script_from old new i' j' ops"
  by (cases op) auto

lemma build_alignment_ok:
  assumes "differ diff"
  shows "align_ok base other (build_alignment diff base other)"
proof -
  have "align_ok base other (foldl apply_equal align ops)"
    if "script_from base other i j ops" "align_ok base other align" for i j ops align
    using that
  proof (induction ops arbitrary: i j align)
    case (Cons op ops)
    then show ?case using script_next [of base other i j op ops] apply_equal_ok [of base other align i j op ops] by auto
  qed simp
  moreover have "align_ok base other (replicate (length base) None)" by (simp add: align_ok_def)
  ultimately show ?thesis using assms unfolding build_alignment_def differ_def by blast
qed

section \<open>The tables of the composer\<close>

fun action_lines :: "line \<Rightarrow> LineAction \<Rightarrow> line list" where
  "action_lines l Keep = [l]"
| "action_lines l (Replace repl) = repl"
| "action_lines l Delete = []"

text \<open>The first \<open>i\<close> base lines with the edits and insertions of the tables carried out.\<close>

definition rebuild :: "line list \<Rightarrow> LineAction list \<Rightarrow> line list list \<Rightarrow> nat \<Rightarrow> line list" where
  "rebuild base acts ins i =
     concat (map (\<lambda>k. ins ! k @ action_lines (base ! k) (acts ! k)) [0..<i]) @ ins ! i"

lemma rebuild_add:
  "(\<And>k. i < k \<Longrightarrow> k \<le> i + n \<Longrightarrow> ins ! k = []) \<Longrightarrow>
    rebuild base acts ins (i + n)
      = rebuild base acts ins i @ concat (map (\<lambda>k. action_lines (base ! k) (acts ! k)) [i..<i + n])"
proof (induction n)
  case (Suc n)
  have "rebuild base acts ins (Suc (i + n))
      = rebuild base acts ins (i + n) @ action_lines (base ! (i + n)) (acts ! (i + n)) @ ins ! Suc (i + n)"
    by (simp add: rebuild_def)
  then show ?case using Suc by simp
qed simp

lemma rebuild_cong:
  "(\<And>k. k < i \<Longrightarrow> acts' ! k = acts ! k) \<Longrightarrow> rebuild base acts' ins i = rebuild base acts ins i"
  by (auto simp: rebuild_def intro!: arg_cong [of _ _ concat])

lemma map_nth_subslice: "b + m \<le> length xs \<Longrightarrow> map (\<lambda>k. xs ! (b + k)) [0..<m] = subslice xs b (b + m)"
  by (intro nth_equalityI) (simp_all add: subslice_def)

lemma map_nth_range: "i + n \<le> length xs \<Longrightarrow> map ((!) xs) [i..<i + n] = subslice xs i (i + n)"
  by (intro nth_equalityI) (simp_all add: subslice_def)

lemma fold_insert_lines:
  "slot < length ins \<Longrightarrow>
    fold (\<lambda>k ins. ins[slot := ins ! slot @ [f k]]) [0..<m] ins = ins[slot := ins ! slot @ map f [0..<m]]"
  by (induction m) simp_all

definition tables_ok :: "line list \<Rightarrow> line list \<Rightarrow> nat \<Rightarrow> nat \<Rightarrow> LineAction list \<times> line list list \<Rightarrow> bool" where
  "tables_ok base side i j = (\<lambda>(acts, ins). length acts = length base \<and> length ins = length base + 1
     \<and> (\<forall>k. i \<le> k \<longrightarrow> k < length base \<longrightarrow> acts ! k = Keep) \<and> (\<forall>k. i < k \<longrightarrow> k \<le> length base \<longrightarrow> ins ! k = [])
     \<and> rebuild base acts ins i = take j side)"

lemma take_subslice: "j \<le> k \<Longrightarrow> take j xs @ subslice xs j k = take k xs"
  by (metis le_add_diff_inverse subslice_def take_add)

lemma tables_ok_equal:
  assumes "tables_ok base side i j (acts, ins)" "i + n \<le> length base" "j + n \<le> length side"
    and "subslice base i (i + n) = subslice side j (j + n)"
  shows "tables_ok base side (i + n) (j + n) (acts, ins)"
proof -
  have "rebuild base acts ins (i + n)
      = rebuild base acts ins i @ concat (map (\<lambda>k. action_lines (base ! k) (acts ! k)) [i..<i + n])"
    using assms(1,2) by (intro rebuild_add) (auto simp: tables_ok_def)
  also have "map (\<lambda>k. action_lines (base ! k) (acts ! k)) [i..<i + n] = map (\<lambda>k. [base ! k]) [i..<i + n]"
    using assms(1,2) by (simp add: tables_ok_def)
  finally show ?thesis
    using assms by (simp add: tables_ok_def map_nth_range take_subslice)
qed

lemma tables_ok_delete:
  assumes "tables_ok base side i j (acts, ins)" "i + n \<le> length base" "length acts' = length base"
    and "\<And>k. k < i \<or> i + n \<le> k \<Longrightarrow> acts' ! k = acts ! k"
    and "concat (map (\<lambda>k. action_lines (base ! k) (acts' ! k)) [i..<i + n]) = subslice side j (j + m)"
  shows "tables_ok base side (i + n) (j + m) (acts', ins)"
proof -
  have "rebuild base acts' ins (i + n)
      = rebuild base acts' ins i @ concat (map (\<lambda>k. action_lines (base ! k) (acts' ! k)) [i..<i + n])"
    using assms(1,2) by (intro rebuild_add) (auto simp: tables_ok_def)
  also have "rebuild base acts' ins i = rebuild base acts ins i" using assms(4) by (intro rebuild_cong) simp
  finally show ?thesis
    using assms by (simp add: tables_ok_def take_subslice)
qed

lemma tables_ok_insert:
  assumes "tables_ok base side i j (acts, ins)" "i \<le> length base" "j + n \<le> length side"
  shows "tables_ok base side i (j + n) (acts, ins[i := ins ! i @ subslice side j (j + n)])"
proof -
  let ?ins = "ins[i := ins ! i @ subslice side j (j + n)]"
  have len: "i < length ins" using assms by (simp add: tables_ok_def)
  have "map (\<lambda>k. ?ins ! k @ action_lines (base ! k) (acts ! k)) [0..<i]
      = map (\<lambda>k. ins ! k @ action_lines (base ! k) (acts ! k)) [0..<i]" by simp
  then have "rebuild base acts ?ins i = rebuild base acts ins i @ subslice side j (j + n)"
    using len unfolding rebuild_def by (simp only: nth_list_update_eq append_assoc)
  then show ?thesis using assms by (simp add: tables_ok_def take_subslice)
qed

lemma fold_delete_from:
  assumes "a + n \<le> length acts" "0 < n"
  defines "acts' \<equiv> fold (\<lambda>k acts. acts[a + k := Delete]) [1..<n] acts"
  shows "length acts' = length acts" "acts' ! m = (if a < m \<and> m < a + n then Delete else acts ! m)"
proof -
  have "fold (\<lambda>k acts. acts[a + k := Delete]) [1..<n] acts = fold (\<lambda>k acts. acts[Suc a + k := Delete]) [0..<n - 1] acts"
    using assms(2) by (cases n) (simp_all add: fold_map comp_def map_Suc_upt [symmetric] del: upt_Suc)
  then show "length acts' = length acts" "acts' ! m = (if a < m \<and> m < a + n then Delete else acts ! m)"
    using fold_update [of "Suc a" "n - 1" acts "\<lambda>_. Delete"] assms by auto
qed

lemma classify_op_ok:
  assumes "tables_ok base side i j tabs" "script_from base side i j (op # ops)" "i \<le> length base"
  shows "\<exists>i' j'. tables_ok base side i' j' (classify_op (length base) side tabs op)
    \<and> script_from base side i' j' ops \<and> i' \<le> length base"
proof -
  obtain acts ins where tabs: "tabs = (acts, ins)" by force
  note T = assms(1) [unfolded tabs]
  have len: "length acts = length base" "length ins = length base + 1" using T by (simp_all add: tables_ok_def)
  show ?thesis
  proof (cases op)
    case (DiffEqual a b n)
    then show ?thesis using tables_ok_equal [OF T] assms(2,3) by (auto simp: tabs classify_op_def)
  next
    case (DiffDelete a n b)
    then have d: "a = i" "i + n \<le> length base" "script_from base side (i + n) j ops" using assms(2) by auto
    let ?acts = "fold (\<lambda>k acts. acts[i + k := Delete]) [0..<n] acts"
    have u: "length ?acts = length base" "?acts ! m = (if i \<le> m \<and> m < i + n then Delete else acts ! m)" for m
      using fold_update [of i n acts "\<lambda>_. Delete"] d(2) len by simp_all
    have "concat (map (\<lambda>k. action_lines (base ! k) (?acts ! k)) [i..<i + n]) = subslice side j (j + 0)"
      using u by (auto simp: concat_eq_Nil_conv)
    then have "tables_ok base side (i + n) (j + 0) (?acts, ins)"
      using u by (intro tables_ok_delete [OF T d(2)]) auto
    then show ?thesis using d DiffDelete by (auto simp: tabs classify_op_def)
  next
    case (DiffInsert a b n)
    then have d: "a = i" "b = j" "j + n \<le> length side" "script_from base side i (j + n) ops" using assms(2) by auto
    have "classify_op (length base) side tabs op = (acts, ins[i := ins ! i @ subslice side j (j + n)])"
      using d assms(3) len DiffInsert
      by (simp add: classify_op_def tabs Let_def fold_insert_lines min_absorb1 map_nth_subslice)
    then show ?thesis using tables_ok_insert [OF T assms(3) d(3)] d assms(3) by auto
  next
    case (DiffReplace a m b n)
    then have d: "a = i" "b = j" "0 < m" "i + m \<le> length base" "j + n \<le> length side"
      "script_from base side (i + m) (j + n) ops" using assms(2) by auto
    let ?acts = "fold (\<lambda>k acts. acts[i + k := Delete]) [1..<m] (acts[i := Replace (subslice side j (j + n))])"
    have u: "length ?acts = length base" "?acts ! k = (if i < k \<and> k < i + m then Delete
        else acts[i := Replace (subslice side j (j + n))] ! k)" for k
      using fold_delete_from [of i m "acts[i := Replace (subslice side j (j + n))]"] d len by simp_all
    have "[i..<i + m] = i # [Suc i..<i + m]" using d(3) by (simp add: upt_conv_Cons)
    then have "concat (map (\<lambda>k. action_lines (base ! k) (?acts ! k)) [i..<i + m]) = subslice side j (j + n)"
      using u d len by (auto simp: concat_eq_Nil_conv)
    then have "tables_ok base side (i + m) (j + n) (?acts, ins)"
      using u d(3) by (intro tables_ok_delete [OF T d(4)]) auto
    then show ?thesis
      using d DiffReplace by (auto simp: tabs classify_op_def Let_def map_nth_subslice)
  qed
qed

lemma classify_tables_ok:
  assumes "differ diff"
  shows "tables_ok base side (length base) (length side) (classify_against_base diff base side)"
proof -
  have "tables_ok base side (length base) (length side) (foldl (classify_op (length base) side) tabs ops)"
    if "script_from base side i j ops" "tables_ok base side i j tabs" "i \<le> length base" for i j ops tabs
    using that
  proof (induction ops arbitrary: i j tabs)
    case (Cons op ops)
    then obtain i' j' where "tables_ok base side i' j' (classify_op (length base) side tabs op)"
      "script_from base side i' j' ops" "i' \<le> length base"
      using classify_op_ok by blast
    then show ?case using Cons.IH unfolding foldl_Cons by blast
  qed simp
  moreover have "tables_ok base side 0 0 (replicate (length base) Keep, replicate (length base + 1) [])"
    by (simp add: tables_ok_def rebuild_def)
  ultimately show ?thesis using assms unfolding classify_against_base_def differ_def by blast
qed

lemma rebuild_parts:
  assumes "i \<le> n"
  shows "set (ins ! i) \<subseteq> set (rebuild base acts ins n)"
    and "i < n \<Longrightarrow> set (action_lines (base ! i) (acts ! i)) \<subseteq> set (rebuild base acts ins n)"
  using assms by (cases "i = n"; force simp: rebuild_def)+

text \<open>Whatever the composer returns consists of lines of the three inputs.\<close>

lemma compose_gap_lines:
  "compose_gap out xs ys = Some out' \<Longrightarrow> \<exists>ls. out' = out @ concat ls \<and> set ls \<subseteq> set xs \<union> set ys"
  by (force simp: compose_gap_def split: if_splits)

lemma compose_action_lines:
  "compose_action out l a b = Some out' \<Longrightarrow>
    \<exists>ls. out' = out @ concat ls \<and> set ls \<subseteq> insert l (set (action_lines l a) \<union> set (action_lines l b))"
proof (cases a; cases b)
  assume "compose_action out l a b = Some out'" "a = Keep" "b = Keep"
  then show ?thesis by (intro exI [of _ "[l]"]) (simp add: compose_action_def)
qed (auto simp: compose_action_def intro: exI [of _ "[]"])

lemma compose_loop_lines:
  assumes "compose_loop base oa oi ta ti is out = Some out'"
    and "\<And>i. i \<in> set is \<Longrightarrow> base ! i \<in> L \<and> set (oi ! i) \<subseteq> L \<and> set (ti ! i) \<subseteq> L
      \<and> set (action_lines (base ! i) (oa ! i)) \<subseteq> L \<and> set (action_lines (base ! i) (ta ! i)) \<subseteq> L"
  shows "\<exists>ls. out' = out @ concat ls \<and> set ls \<subseteq> L"
  using assms
proof (induction "is" arbitrary: out)
  case Nil
  then show ?case by (intro exI [of _ "[]"]) simp
next
  case (Cons i "is")
  from Cons.prems(1) obtain g a where g: "compose_gap out (oi ! i) (ti ! i) = Some g"
    and a: "compose_action g (base ! i) (oa ! i) (ta ! i) = Some a"
    and r: "compose_loop base oa oi ta ti is a = Some out'"
    by (auto split: option.splits)
  have i: "i \<in> set (i # is)" by simp
  obtain l1 where "g = out @ concat l1" "set l1 \<subseteq> L"
    using compose_gap_lines [OF g] Cons.prems(2) [OF i] by blast
  moreover obtain l2 where "a = g @ concat l2" "set l2 \<subseteq> L"
    using compose_action_lines [OF a] Cons.prems(2) [OF i] by blast
  moreover obtain l3 where "out' = a @ concat l3" "set l3 \<subseteq> L"
    using Cons.IH [OF r] Cons.prems(2) by auto
  ultimately show ?case by (intro exI [of _ "l1 @ l2 @ l3"]) simp
qed

lemma compose_disjoint_lines:
  assumes "differ diff" "compose_disjoint diff base ours theirs = Some out"
  shows "\<exists>ls. out = concat ls \<and> set ls \<subseteq> set base \<union> set ours \<union> set theirs"
proof -
  obtain oa oi where o: "classify_against_base diff base ours = (oa, oi)" by force
  obtain ta ti where t: "classify_against_base diff base theirs = (ta, ti)" by force
  have R: "rebuild base oa oi (length base) = ours" "rebuild base ta ti (length base) = theirs"
    using classify_tables_ok [OF assms(1), of base ours] classify_tables_ok [OF assms(1), of base theirs] o t
    by (simp_all add: tables_ok_def)
  let ?L = "set base \<union> set ours \<union> set theirs"
  obtain mid where m: "compose_loop base oa oi ta ti [0..<length base] [] = Some mid"
    and g: "compose_gap mid (oi ! length base) (ti ! length base) = Some out"
    using assms(2) o t by (auto simp: compose_disjoint_def split: option.splits)
  have parts: "set (oi ! i) \<subseteq> ?L" "set (ti ! i) \<subseteq> ?L" if "i \<le> length base" for i
    using that rebuild_parts(1) [of i "length base" oi base oa] rebuild_parts(1) [of i "length base" ti base ta] R by auto
  have acts: "set (action_lines (base ! i) (oa ! i)) \<subseteq> ?L" "set (action_lines (base ! i) (ta ! i)) \<subseteq> ?L"
    if "i < length base" for i
    using that rebuild_parts(2) [of i "length base" base oa oi] rebuild_parts(2) [of i "length base" base ta ti] R by auto
  have "\<exists>ls. mid = [] @ concat ls \<and> set ls \<subseteq> ?L"
    by (rule compose_loop_lines [OF m]) (simp add: parts acts)
  then obtain l1 where "mid = concat l1" "set l1 \<subseteq> ?L" by auto
  moreover obtain l2 where "out = mid @ concat l2" "set l2 \<subseteq> ?L"
    using compose_gap_lines [OF g] parts [of "length base"] by blast
  ultimately show ?thesis by (intro exI [of _ "l1 @ l2"]) simp
qed

lemma compare_trailing_ws_pick: "compare_trailing_ws a b = Some c \<Longrightarrow> c = a \<or> c = b"
  by (auto simp: compare_trailing_ws_def split: if_splits option.splits)

text \<open>A hunk is either resolved with lines of its inputs, or becomes a conflict block and a region.\<close>

lemma emit_hunk_cases:
  assumes "differ diff"
  obtains (resolved) ls where "emit_hunk diff out regs b o' t r m = (out @ concat ls, regs)"
      "set ls \<subseteq> set b \<union> set o' \<union> set t"
  | (conflict) "emit_hunk diff out regs b o' t r m = (out @ emit_conflict [] o' t m,
      regs @ [r\<lparr>region_merged := \<lparr>range_start = length (split_lines out),
        range_end = length (split_lines (out @ emit_conflict [] o' t m))\<rparr>\<rparr>])"
proof -
  have "(\<exists>ls. emit_hunk diff out regs b o' t r m = (out @ concat ls, regs) \<and> set ls \<subseteq> set b \<union> set o' \<union> set t)
    \<or> emit_hunk diff out regs b o' t r m = (out @ emit_conflict [] o' t m,
      regs @ [r\<lparr>region_merged := \<lparr>range_start = length (split_lines out),
        range_end = length (split_lines (out @ emit_conflict [] o' t m))\<rparr>\<rparr>])"
  proof (cases "compare_trailing_ws o' t")
    case (Some c)
    then show ?thesis
      using compare_trailing_ws_pick [OF Some] by (auto simp: emit_hunk_def emit_lines_def)
  next
    case ws: None
    show ?thesis
    proof (cases "compose_disjoint diff b o' t")
      case (Some x)
      then show ?thesis using ws compose_disjoint_lines [OF assms Some] by (auto simp: emit_hunk_def emit_lines_def)
    next
      case None
      show ?thesis
      proof (cases "b = [] \<and> o' \<noteq> [] \<and> t \<noteq> []")
        case True
        then have "o' \<noteq> t \<Longrightarrow> emit_hunk diff out regs b o' t r m = (out @ concat (o' @ t), regs)"
          using ws None by (simp add: emit_hunk_def emit_lines_def)
        moreover have "o' = t \<Longrightarrow> emit_hunk diff out regs b o' t r m = (out @ concat t, regs)"
          using True by (simp add: emit_hunk_def emit_lines_def)
        moreover have "set (o' @ t) \<subseteq> set b \<union> set o' \<union> set t" "set t \<subseteq> set b \<union> set o' \<union> set t" by auto
        ultimately show ?thesis by blast
      next
        case False
        then show ?thesis using ws None
          by (auto simp: emit_hunk_def emit_lines_def Let_def emit_conflict_append [of out] output_line_count_length)
      qed
    qed
  qed
  then show thesis using that by blast
qed

section \<open>The walk\<close>

text \<open>Every line but the last of a split input ends with a newline.\<close>

definition lines_ok :: "line list \<Rightarrow> bool" where
  "lines_ok ls \<longleftrightarrow> (\<forall>k. k + 1 < length ls \<longrightarrow> ends_nl (ls ! k))"

lemma lines_ok_subslice:
  assumes "lines_ok ls" "j < length ls" "l \<in> set (subslice ls i j)"
  shows "ends_nl l"
proof -
  obtain k where "k < length (subslice ls i j)" "subslice ls i j ! k = l" using assms(3) by (auto simp: in_set_conv_nth)
  then have "k < j - i" "l = ls ! (i + k)" using assms(2) by (auto simp: nth_subslice)
  then show ?thesis using assms(1,2) by (simp add: lines_ok_def)
qed

text \<open>A reported region addresses its conflict block in the output.\<close>

definition region_in ::
  "line list \<Rightarrow> line list \<Rightarrow> ConflictMarkers \<Rightarrow> bytes \<Rightarrow> TextConflictRegion \<Rightarrow> bool" where
  "region_in ours theirs m out r \<longleftrightarrow>
     range_end (region_merged r) \<le> length (split_lines out)
     \<and> subslice (split_lines out) (range_start (region_merged r)) (range_end (region_merged r))
       = split_lines (emit_conflict []
           (subslice ours (range_start (region_ours r)) (range_end (region_ours r)))
           (subslice theirs (range_start (region_theirs r)) (range_end (region_theirs r))) m)"

lemma region_in_append:
  assumes "ends_nl out" "region_in ours theirs m out r"
  shows "region_in ours theirs m (out @ x) r"
  using assms by (auto simp: region_in_def split_lines_append subslice_def drop_append)

definition walk_inv ::
  "line list \<Rightarrow> line list \<Rightarrow> line list \<Rightarrow> ConflictMarkers \<Rightarrow> nat \<Rightarrow> nat \<Rightarrow> nat \<Rightarrow> bytes
   \<Rightarrow> TextConflictRegion list \<Rightarrow> bool" where
  "walk_inv base ours theirs m i ou th out regs \<longleftrightarrow>
     i \<le> length base \<and> ou \<le> length ours \<and> th \<le> length theirs
     \<and> (i < length base \<or> ou < length ours \<or> th < length theirs \<longrightarrow> ends_nl out)
     \<and> (\<forall>r \<in> set regs. region_in ours theirs m out r)"

lemma subslice_append_right: "subslice (xs @ ys) (length xs) (length xs + length ys) = ys"
  by (simp add: subslice_def)

lemma emit_hunk_regions:
  assumes "differ diff" "ends_nl out" "\<forall>r \<in> set regs. region_in ours theirs m out r"
    and "emit_hunk diff out regs b (subslice ours o0 o1) (subslice theirs t0 t1)
      (hunk_region b0 b1 o0 o1 t0 t1) m = (out', regs')"
  shows "\<forall>r \<in> set regs'. region_in ours theirs m out' r"
    and "(\<And>l. l \<in> set b \<union> set (subslice ours o0 o1) \<union> set (subslice theirs t0 t1) \<Longrightarrow> ends_nl l) \<Longrightarrow> ends_nl out'"
proof -
  have split: "split_lines (out @ emit_conflict [] x y m) = split_lines out @ split_lines (emit_conflict [] x y m)" for x y
    by (rule split_lines_append [OF assms(2)])
  show "\<forall>r \<in> set regs'. region_in ours theirs m out' r"
    using assms(1)
  proof (cases rule: emit_hunk_cases [where out = out and regs = regs and b = b and o' = "subslice ours o0 o1"
        and t = "subslice theirs t0 t1" and r = "hunk_region b0 b1 o0 o1 t0 t1" and m = m])
    case (resolved ls)
    then show ?thesis using assms(2-4) region_in_append by auto
  next
    case conflict
    define nr where "nr = (hunk_region b0 b1 o0 o1 t0 t1)\<lparr>region_merged := \<lparr>range_start = length (split_lines out),
        range_end = length (split_lines (out @ emit_conflict [] (subslice ours o0 o1) (subslice theirs t0 t1) m))\<rparr>\<rparr>"
    have e: "out' = out @ emit_conflict [] (subslice ours o0 o1) (subslice theirs t0 t1) m" "regs' = regs @ [nr]"
      using assms(4) conflict by (auto simp: nr_def)
    have "region_in ours theirs m out' nr"
      unfolding e(1) region_in_def nr_def by (simp add: hunk_region_def split subslice_append_right)
    moreover have "region_in ours theirs m out' r" if "r \<in> set regs" for r
      unfolding e(1) by (rule region_in_append [OF assms(2)]) (use that assms(3) in blast)
    ultimately show ?thesis by (simp add: e(2))
  qed
  show "ends_nl out'"
    if "\<And>l. l \<in> set b \<union> set (subslice ours o0 o1) \<union> set (subslice theirs t0 t1) \<Longrightarrow> ends_nl l"
    using assms(1)
  proof (cases rule: emit_hunk_cases [where out = out and regs = regs and b = b and o' = "subslice ours o0 o1"
        and t = "subslice theirs t0 t1" and r = "hunk_region b0 b1 o0 o1 t0 t1" and m = m])
    case (resolved ls)
    then have "ends_nl (concat ls)" using that by (intro ends_nl_concat) auto
    then show ?thesis using resolved assms(2,4) ends_nl_append by auto
  next
    case conflict
    then show ?thesis using assms(4) emit_conflict_ends [of out] by (auto simp: emit_conflict_append [of out])
  qed
qed

lemma walk_loop_inv:
  assumes "differ diff" "lines_ok base" "lines_ok ours" "lines_ok theirs"
    and "align_ok base ours oa" "align_ok base theirs ta"
    and "walk_inv base ours theirs m i ou th out regs"
    and "walk_loop diff base ours theirs oa ta m i ou th out regs = (out', regs', ou', th')"
  shows "walk_inv base ours theirs m (length base) ou' th' out' regs'"
  using assms
proof (induction diff base ours theirs oa ta m i ou th out regs rule: walk_loop.induct)
  case (1 diff base ours theirs oa ta m i ou th out regs)
  note inv = "1.prems"(7) [unfolded walk_inv_def]
  show ?case
  proof (cases "i < length base")
    case False
    then have "walk_loop diff base ours theirs oa ta m i ou th out regs = (out, regs, ou, th)"
      by (subst walk_loop.simps) simp
    then show ?thesis using False "1.prems"(7,8) by (simp add: walk_inv_def)
  next
    case i: True
    show ?thesis
    proof (cases "stable_at oa ta i ou th")
      case True
      then have eq: "ou < length ours" "th < length theirs" "base ! i = ours ! ou" "base ! i = theirs ! th"
        using "1.prems"(5,6) i by (auto simp: stable_at_def align_ok_def)
      have nl: "i + 1 < length base \<or> ou + 1 < length ours \<or> th + 1 < length theirs \<Longrightarrow> ends_nl (base ! i)"
        using "1.prems"(2-4) eq by (metis lines_ok_def)
      have step: "walk_inv base ours theirs m (i + 1) (ou + 1) (th + 1) (out @ base ! i) regs"
        using inv i eq nl by (auto simp: walk_inv_def intro!: ends_nl_append region_in_append)
      show ?thesis
        using "1.IH"(1) [OF i True "1.prems"(1-6) step] "1.prems"(8) i True
        by (simp add: walk_loop.simps [of _ _ _ _ _ _ _ i])
    next
      case False
      obtain j eo et where r: "realign oa ta (length base) (length ours) (length theirs) ou th i = (j, eo, et)"
        by (metis prod_cases3)
      obtain out1 regs1 where e: "emit_hunk diff out regs (subslice base i j) (subslice ours ou eo)
          (subslice theirs th et) (hunk_region i j ou eo th et) m = (out1, regs1)" by force
      have ends: "ends_nl out" using inv i by simp
      note rr = realign_result [OF r]
      have mid: "eo < length ours" "et < length theirs" if "j < length base"
        using rr(2) [OF that] "1.prems"(5,6) that by (auto simp: stable_at_def align_ok_def)
      have regs1: "\<forall>r \<in> set regs1. region_in ours theirs m out1 r"
        by (rule emit_hunk_regions(1) [OF "1.prems"(1) ends _ e]) (use inv in blast)
      have "ends_nl out1" if "j < length base"
        by (rule emit_hunk_regions(2) [OF "1.prems"(1) ends _ e])
          (use that mid inv "1.prems"(2-4) in \<open>auto dest: lines_ok_subslice\<close>)
      then have step: "walk_inv base ours theirs m j eo et out1 regs1"
        using regs1 mid rr(3,4) i by (cases "j < length base") (auto simp: walk_inv_def)
      have "walk_loop diff base ours theirs oa ta m j eo et out1 regs1 = (out', regs', ou', th')"
        using "1.prems"(8) i False by (simp add: walk_loop.simps [of _ _ _ _ _ _ _ i] r e Let_def)
      then show ?thesis
        using "1.IH"(2) [OF i False refl refl refl refl refl] "1.prems"(1-6) step r e by simp
    qed
  qed
qed

lemma split_lines_ok: "lines_ok (split_lines bs)"
  by (simp add: lines_ok_def split_lines_ends)

lemma subslice_drop: "subslice xs i (length xs) = drop i xs"
  by (simp add: subslice_def)

lemma walk_and_emit_regions:
  assumes "differ diff" "lines_ok base" "lines_ok ours" "lines_ok theirs"
    and "align_ok base ours oa" "align_ok base theirs ta"
    and "walk_and_emit diff base ours theirs oa ta m = (outcome, regs)"
  shows "\<exists>out. outcome = (if regs = [] then Clean out else Conflicts out (length regs))
    \<and> (\<forall>r \<in> set regs. region_in ours theirs m out r)"
proof -
  obtain out0 regs0 ou th where w: "walk_loop diff base ours theirs oa ta m 0 0 0 [] [] = (out0, regs0, ou, th)"
    by (metis prod_cases4)
  have "walk_inv base ours theirs m 0 0 0 [] []" by (simp add: walk_inv_def ends_nl_def)
  note inv = walk_loop_inv [OF assms(1-6) this w, unfolded walk_inv_def]
  show ?thesis
  proof (cases "ou < length ours \<or> th < length theirs")
    case True
    obtain out1 regs1 where e: "emit_hunk diff out0 regs0 [] (subslice ours ou (length ours))
        (subslice theirs th (length theirs)) (hunk_region (length base) (length base) ou (length ours) th (length theirs)) m
      = (out1, regs1)" by force
    have "\<forall>r \<in> set regs1. region_in ours theirs m out1 r"
      by (rule emit_hunk_regions(1) [OF assms(1) _ _ e]) (use inv True in blast)+
    then show ?thesis using assms(7) w True e by (auto simp: walk_and_emit_def Let_def subslice_drop)
  next
    case False
    then show ?thesis using assms(7) w inv by (auto simp: walk_and_emit_def)
  qed
qed

text \<open>When a merge ends in conflicts, the reported count is the number of regions that the region query
  returns for the same inputs, and the merged line range of each region addresses, in the rendered file,
  exactly the lines of its own conflict block, markers included, with the two sides of its ranges.\<close>

theorem regions_address_conflict_blocks:
  assumes "differ diff" "text_hunk_merge diff base ours theirs = Conflicts out n"
  shows "n = length (text_conflict_regions diff base ours theirs)
    \<and> (\<forall>r \<in> set (text_conflict_regions diff base ours theirs).
         subslice (split_lines out) (range_start (region_merged r)) (range_end (region_merged r))
           = split_lines (emit_conflict []
               (subslice (split_lines ours) (range_start (region_ours r)) (range_end (region_ours r)))
               (subslice (split_lines theirs) (range_start (region_theirs r)) (range_end (region_theirs r)))
               DEFAULT_MARKERS))"
proof -
  have ne: "\<not> any_binary base ours theirs" "base \<noteq> ours" "base \<noteq> theirs" "ours \<noteq> theirs"
    using assms(2) by (auto simp: text_hunk_merge_def text_hunk_merge_with_markers_def run_def split: if_splits)
  obtain outcome regs where w: "walk_and_emit diff (split_lines base) (split_lines ours) (split_lines theirs)
      (build_alignment diff (split_lines base) (split_lines ours))
      (build_alignment diff (split_lines base) (split_lines theirs)) DEFAULT_MARKERS = (outcome, regs)" by force
  have R: "text_conflict_regions diff base ours theirs = regs" "text_hunk_merge diff base ours theirs = outcome"
    using ne w by (auto simp: text_conflict_regions_def regions_def text_hunk_merge_def
        text_hunk_merge_with_markers_def run_def Let_def)
  obtain out' where "outcome = (if regs = [] then Clean out' else Conflicts out' (length regs))"
    "\<forall>r \<in> set regs. region_in (split_lines ours) (split_lines theirs) DEFAULT_MARKERS out' r"
    using walk_and_emit_regions [OF assms(1) split_lines_ok split_lines_ok split_lines_ok
        build_alignment_ok [OF assms(1)] build_alignment_ok [OF assms(1)] w] by blast
  then show ?thesis using assms(2) R by (auto simp: region_in_def split: if_splits)
qed

text \<open>A small differ, to evaluate the merge on concrete inputs: it keeps the common prefix and replaces the
  rest.\<close>

fun shared_prefix :: "line list \<Rightarrow> line list \<Rightarrow> nat" where
  "shared_prefix (x # xs) (y # ys) = (if x = y then Suc (shared_prefix xs ys) else 0)"
| "shared_prefix _ _ = 0"

definition prefix_diff :: differ_fn where
  "prefix_diff old new =
     (let p = shared_prefix old new in
      DiffEqual 0 0 p #
        (if p = length old then [DiffInsert p p (length new - p)] else [DiffReplace p (length old - p) p (length new - p)]))"

lemma shared_prefix_take:
  "shared_prefix old new \<le> length old \<and> shared_prefix old new \<le> length new
    \<and> take (shared_prefix old new) old = take (shared_prefix old new) new"
  by (induction old new rule: shared_prefix.induct) auto

lemma prefix_diff_differ: "differ prefix_diff"
  unfolding differ_def
proof (intro allI)
  fix old new
  show "script_from old new 0 0 (prefix_diff old new)"
    using shared_prefix_take [of old new] by (auto simp: prefix_diff_def Let_def subslice_def le_neq_implies_less)
qed

lemmas merge_eval = text_hunk_merge_def text_hunk_merge_with_markers_def any_binary_def is_binary_def
  BINARY_SNIFF_LEN_def run_def newline_def walk_and_emit_def walk_loop.simps realign.simps stable_at_def
  build_alignment_def apply_equal_def emit_hunk_def compare_trailing_ws_def trailing_ws_key_def
  split_line_ending_def strip_suffix_def rposition_def is_blank_def compose_disjoint_def
  classify_against_base_def classify_op_def compose_gap_def compose_action_def subslice_def Let_def

lemma conflict_example:
  "text_hunk_merge prefix_diff [0x61, 10] [0x62, 10] [0x63, 10]
     = Conflicts (emit_conflict [] [[0x62, 10]] [[0x63, 10]] DEFAULT_MARKERS) 1"
  by (simp add: merge_eval prefix_diff_def)

theorem regions_address_conflict_blocks_witness:
  "1 = length (text_conflict_regions prefix_diff [0x61, 10] [0x62, 10] [0x63, 10])"
  using regions_address_conflict_blocks [OF prefix_diff_differ conflict_example] by blast

text \<open>The tables the composer builds from one side's edit script lose nothing: carrying out the recorded
  insertions, replacements and deletions on the base gives back that side, line for line.\<close>

theorem classification_lossless:
  assumes "differ diff" "classify_against_base diff base side = (actions, inserts)"
  shows "length actions = length base \<and> length inserts = length base + 1
    \<and> rebuild base actions inserts (length base) = side"
  using classify_tables_ok [OF assms(1), of base side] assms(2) by (simp add: tables_ok_def)

theorem classification_lossless_witness:
  "rebuild [[1], [2]] [Replace [[3]], Delete] [[], [], []] (Suc (Suc 0)) = [[3]]"
  using classification_lossless [OF prefix_diff_differ, of "[[1], [2]]" "[[3]]" "[Replace [[3]], Delete]" "[[], [], []]"]
  by (simp add: classify_against_base_def prefix_diff_def classify_op_def)

lemma compose_gap_commute: "compose_gap out xs ys = compose_gap out ys xs"
proof (cases "xs = ys")
  case False
  have "\<not> (length us = length vs \<and> list_all (\<lambda>(a, b). a = b) (zip us vs))" if "us \<noteq> vs" for us vs :: "line list"
    using that by (auto simp: list_eq_iff_nth_eq list_all_length)
  then show ?thesis using False by (auto simp: compose_gap_def)
qed simp

lemma compose_action_commute: "compose_action out l a b = compose_action out l b a"
  by (cases a; cases b) (simp_all add: compose_action_def)

lemma compose_loop_commute: "compose_loop base oa oi ta ti is out = compose_loop base ta ti oa oi is out"
  by (induction "is" arbitrary: out)
    (simp_all add: compose_gap_commute [of _ "oi ! _"] compose_action_commute [of _ _ "oa ! _"] split: option.splits)

text \<open>The composer treats the two sides alike: it composes ours with theirs exactly when it composes
  theirs with ours, and to the same bytes.\<close>

theorem compose_disjoint_commutes: "compose_disjoint diff base ours theirs = compose_disjoint diff base theirs ours"
  by (simp add: compose_disjoint_def compose_loop_commute [of base "fst (classify_against_base diff base ours)"]
      compose_gap_commute [of _ "snd (classify_against_base diff base ours) ! _"] split_beta split: option.splits)

text \<open>When both sides append different last lines without a final newline, the merge is reported as clean
  and joins the two lines into one that neither side has: \<^verbatim>\<open>b\<close> and \<^verbatim>\<open>c\<close> become \<^verbatim>\<open>bc\<close>.\<close>

theorem parallel_appends_join_lines:
  "differ prefix_diff \<and>
   text_hunk_merge prefix_diff [0x61, 10] [0x61, 10, 0x62] [0x61, 10, 0x63] = Clean [0x61, 10, 0x62, 0x63]"
  by (rule conjI, rule prefix_diff_differ) (simp add: merge_eval emit_lines_def prefix_diff_def)

section \<open>The walk as a partition of its inputs\<close>

datatype chunk = Stable line | Unstable TextConflictRegion

definition slice_of :: "'a list \<Rightarrow> ConflictLineRange \<Rightarrow> 'a list" where
  "slice_of xs r = subslice xs (range_start r) (range_end r)"

definition chunk_part :: "line list \<Rightarrow> (TextConflictRegion \<Rightarrow> ConflictLineRange) \<Rightarrow> chunk \<Rightarrow> line list" where
  "chunk_part xs side c = (case c of Stable l \<Rightarrow> [l] | Unstable r \<Rightarrow> slice_of xs (side r))"

definition render_chunk ::
  "differ_fn \<Rightarrow> line list \<Rightarrow> line list \<Rightarrow> line list \<Rightarrow> ConflictMarkers
   \<Rightarrow> bytes \<times> TextConflictRegion list \<Rightarrow> chunk \<Rightarrow> bytes \<times> TextConflictRegion list" where
  "render_chunk diff base ours theirs m = (\<lambda>(out, regs) c.
     case c of Stable l \<Rightarrow> (out @ l, regs)
     | Unstable r \<Rightarrow> emit_hunk diff out regs (slice_of base (region_base r)) (slice_of ours (region_ours r))
                     (slice_of theirs (region_theirs r)) r m)"

lemma chunk_part_stable:
  "chunk_part xs side (Stable l) = [l]"
  "render_chunk diff base ours theirs m (out, regs) (Stable l) = (out @ l, regs)"
  by (simp_all add: chunk_part_def render_chunk_def)

lemma chunk_part_hunk:
  "chunk_part xs region_base (Unstable (hunk_region b0 b1 o0 o1 t0 t1)) = subslice xs b0 b1"
  "chunk_part xs region_ours (Unstable (hunk_region b0 b1 o0 o1 t0 t1)) = subslice xs o0 o1"
  "chunk_part xs region_theirs (Unstable (hunk_region b0 b1 o0 o1 t0 t1)) = subslice xs t0 t1"
  "render_chunk diff base ours theirs m (out, regs) (Unstable (hunk_region b0 b1 o0 o1 t0 t1))
    = emit_hunk diff out regs (subslice base b0 b1) (subslice ours o0 o1) (subslice theirs t0 t1)
        (hunk_region b0 b1 o0 o1 t0 t1) m"
  by (simp_all add: chunk_part_def render_chunk_def slice_of_def hunk_region_def)

lemma walk_loop_chunks:
  assumes "align_ok base ours oa" "align_ok base theirs ta"
    and "i \<le> length base" "ou \<le> length ours" "th \<le> length theirs"
    and "walk_loop diff base ours theirs oa ta m i ou th out regs = (out', regs', ou', th')"
  shows "\<exists>cs. foldl (render_chunk diff base ours theirs m) (out, regs) cs = (out', regs')
    \<and> concat (map (chunk_part base region_base) cs) = drop i base
    \<and> ou \<le> ou' \<and> ou' \<le> length ours \<and> concat (map (chunk_part ours region_ours) cs) = subslice ours ou ou'
    \<and> th \<le> th' \<and> th' \<le> length theirs \<and> concat (map (chunk_part theirs region_theirs) cs) = subslice theirs th th'"
  using assms
proof (induction diff base ours theirs oa ta m i ou th out regs rule: walk_loop.induct)
  case (1 diff base ours theirs oa ta m i ou th out regs)
  show ?case
  proof (cases "i < length base")
    case False
    then have "walk_loop diff base ours theirs oa ta m i ou th out regs = (out, regs, ou, th)"
      by (subst walk_loop.simps) simp
    then show ?thesis using False "1.prems" by (intro exI [of _ "[]"]) simp
  next
    case i: True
    show ?thesis
    proof (cases "stable_at oa ta i ou th")
      case True
      then have eq: "ou < length ours" "th < length theirs" "base ! i = ours ! ou" "base ! i = theirs ! th"
        using "1.prems"(1,2) i by (auto simp: stable_at_def align_ok_def)
      have "walk_loop diff base ours theirs oa ta m (i + 1) (ou + 1) (th + 1) (out @ base ! i) regs
          = (out', regs', ou', th')"
        using "1.prems"(6) i True by (simp add: walk_loop.simps [of _ _ _ _ _ _ _ i])
      then obtain cs where cs: "foldl (render_chunk diff base ours theirs m) (out @ base ! i, regs) cs = (out', regs')"
        "concat (map (chunk_part base region_base) cs) = drop (i + 1) base"
        "ou + 1 \<le> ou'" "ou' \<le> length ours" "concat (map (chunk_part ours region_ours) cs) = subslice ours (ou + 1) ou'"
        "th + 1 \<le> th'" "th' \<le> length theirs" "concat (map (chunk_part theirs region_theirs) cs) = subslice theirs (th + 1) th'"
        using "1.IH"(1) [OF i True "1.prems"(1,2)] i eq by auto
      have "ours ! ou # subslice ours (ou + 1) ou' = subslice ours ou ou'"
        "theirs ! th # subslice theirs (th + 1) th' = subslice theirs th th'"
        using subslice_append [of ou "Suc ou" ou' ours] subslice_append [of th "Suc th" th' theirs] eq cs(3,6)
        by (simp_all add: subslice_Suc)
      then show ?thesis
        using cs eq Cons_nth_drop_Suc [OF i] by (intro exI [of _ "Stable (base ! i) # cs"])
          (simp add: chunk_part_stable)
    next
      case False
      obtain j eo et where r: "realign oa ta (length base) (length ours) (length theirs) ou th i = (j, eo, et)"
        by (metis prod_cases3)
      obtain out1 regs1 where e: "emit_hunk diff out regs (subslice base i j) (subslice ours ou eo)
          (subslice theirs th et) (hunk_region i j ou eo th et) m = (out1, regs1)" by force
      note rr = realign_result [OF r]
      have mid: "i \<le> j" "j \<le> length base" "ou \<le> eo" "th \<le> et" "eo \<le> length ours" "et \<le> length theirs"
        using rr "1.prems"(1-5) i by (cases "j < length base"; auto simp: stable_at_def align_ok_def)+
      have "walk_loop diff base ours theirs oa ta m j eo et out1 regs1 = (out', regs', ou', th')"
        using "1.prems"(6) i False by (simp add: walk_loop.simps [of _ _ _ _ _ _ _ i] r e Let_def)
      then obtain cs where cs: "foldl (render_chunk diff base ours theirs m) (out1, regs1) cs = (out', regs')"
        "concat (map (chunk_part base region_base) cs) = drop j base"
        "eo \<le> ou'" "ou' \<le> length ours" "concat (map (chunk_part ours region_ours) cs) = subslice ours eo ou'"
        "et \<le> th'" "th' \<le> length theirs" "concat (map (chunk_part theirs region_theirs) cs) = subslice theirs et th'"
        using "1.IH"(2) [OF i False refl refl refl refl refl] "1.prems"(1,2) mid r e by auto
      have "subslice base i j @ drop j base = drop i base"
        using mid subslice_append [of i j "length base" base] by (simp add: subslice_drop)
      then show ?thesis
        using cs mid e by (intro exI [of _ "Unstable (hunk_region i j ou eo th et) # cs"])
          (simp add: chunk_part_hunk subslice_append)
    qed
  qed
qed

text \<open>C38: The walk cuts the three inputs into one common sequence of chunks, stable lines and hunks: put
  together, the chunks give back the base, ours and theirs completely and in order, a stable line is the
  same line in all three, and the outcome is what rendering the chunks one after another gives.\<close>

theorem walk_partitions_inputs:
  assumes "align_ok base ours our_align" "align_ok base theirs their_align"
  shows "\<exists>cs. concat (map (chunk_part base region_base) cs) = base
    \<and> concat (map (chunk_part ours region_ours) cs) = ours
    \<and> concat (map (chunk_part theirs region_theirs) cs) = theirs
    \<and> walk_and_emit diff base ours theirs our_align their_align markers
      = (let (out, regs) = foldl (render_chunk diff base ours theirs markers) ([], []) cs
         in (if regs = [] then Clean out else Conflicts out (length regs), regs))"
proof -
  obtain out0 regs0 ou th
    where w: "walk_loop diff base ours theirs our_align their_align markers 0 0 0 [] [] = (out0, regs0, ou, th)"
    by (metis prod_cases4)
  then obtain cs where cs: "foldl (render_chunk diff base ours theirs markers) ([], []) cs = (out0, regs0)"
    "concat (map (chunk_part base region_base) cs) = base" "ou \<le> length ours" "th \<le> length theirs"
    "concat (map (chunk_part ours region_ours) cs) = subslice ours 0 ou"
    "concat (map (chunk_part theirs region_theirs) cs) = subslice theirs 0 th"
    using walk_loop_chunks [OF assms _ _ _ w] by auto
  show ?thesis
  proof (cases "ou < length ours \<or> th < length theirs")
    case True
    let ?h = "hunk_region (length base) (length base) ou (length ours) th (length theirs)"
    have "subslice ours 0 ou @ drop ou ours = ours" "subslice theirs 0 th @ drop th theirs = theirs"
      by (simp_all add: subslice_def)
    then show ?thesis
      using cs w True by (intro exI [of _ "cs @ [Unstable ?h]"])
        (simp add: chunk_part_hunk subslice_drop walk_and_emit_def)
  next
    case False
    then show ?thesis using cs w by (intro exI [of _ cs]) (simp add: walk_and_emit_def)
  qed
qed

theorem walk_partitions_inputs_witness:
  "\<exists>cs. concat (map (chunk_part [[1]] region_base) cs) = [[1]] \<and> concat (map (chunk_part [[2], [1]] region_ours) cs) = [[2], [1]]"
  using walk_partitions_inputs [of "[[1]]" "[[2], [1]]" "[Some 1]" "[[1]]" "[Some 0]"]
  by (simp add: align_ok_def) blast

end
