(* ===== verification/Visibility.thy ===== *)
theory Visibility
  imports Rust_Str
begin

text \<open>
  Who may see what: the tiers of content and of readers (\<^verbatim>\<open>visibility_tier.rs\<close>, \<^verbatim>\<open>audience_tier.rs\<close>),
  the per-state visibility records with their supersede chain (\<^verbatim>\<open>state_visibility.rs\<close>) and the per-entry
  sidecar (\<^verbatim>\<open>entry_visibility.rs\<close>), all of \<^verbatim>\<open>src/crates/object-model/src/object\<close>.

  The msgpack encoding with its BLAKE3 digest (\<^verbatim>\<open>content_hash\<close>) and the RFC 3339 rendering of a time are
  library code: they are the parameters \<open>content_hash\<close> and \<open>to_rfc3339\<close> of the definitions that use them.
\<close>

type_synonym StateId = bytes
type_synonym ChangeId = bytes
type_synonym ContentHash = bytes

section \<open>Tiers\<close>

datatype VisibilityTier =
  Public
| Internal
| TeamScoped (team_id: string)
| Restricted (scope_label: string)
| Private (private_label: string)

datatype AudienceTier =
  AudInternal
| AudPublic
| AudTeam string
| AudRestricted string

fun visible :: "VisibilityTier \<Rightarrow> AudienceTier \<Rightarrow> bool" where
  "visible Public _ = True"
| "visible (Private l) (AudRestricted viewer) = (l = viewer)"
| "visible (Private _) _ = False"
| "visible _ AudInternal = True"
| "visible Internal AudPublic = False"
| "visible Internal (AudRestricted _) = False"
| "visible Internal (AudTeam _) = True"
| "visible (TeamScoped t) (AudTeam name) = (t = name)"
| "visible (TeamScoped _) _ = False"
| "visible (Restricted l) (AudRestricted viewer) = (l = viewer)"
| "visible (Restricted _) _ = False"

definition is_no_more_visible_than :: "VisibilityTier \<Rightarrow> VisibilityTier \<Rightarrow> bool" where
  "is_no_more_visible_than self source \<longleftrightarrow>
     self = source \<or> source = Public
     \<or> (case (self, source) of (TeamScoped _, Internal) \<Rightarrow> True | _ \<Rightarrow> False)
     \<or> (case (self, source) of (Private target, Restricted s) \<Rightarrow> target = s | _ \<Rightarrow> False)"

fun is_embargo :: "VisibilityTier \<Rightarrow> bool" where
  "is_embargo (Private _) = True"
| "is_embargo (Restricted _) = True"
| "is_embargo _ = False"

fun tier_as_str :: "VisibilityTier \<Rightarrow> string" where
  "tier_as_str Public = ''public''"
| "tier_as_str Internal = ''internal''"
| "tier_as_str (TeamScoped _) = ''team_scoped''"
| "tier_as_str (Restricted _) = ''restricted''"
| "tier_as_str (Private _) = ''private''"

fun restrictiveness_rank :: "VisibilityTier \<Rightarrow> nat" where
  "restrictiveness_rank Public = 0"
| "restrictiveness_rank Internal = 1"
| "restrictiveness_rank (TeamScoped _) = 2"
| "restrictiveness_rank (Restricted _) = 3"
| "restrictiveness_rank (Private _) = 4"

definition is_strictly_less_restrictive_than :: "VisibilityTier \<Rightarrow> VisibilityTier \<Rightarrow> bool" where
  "is_strictly_less_restrictive_than self other \<longleftrightarrow> restrictiveness_rank self < restrictiveness_rank other"

datatype AudienceParseError = UnknownAudience | MissingTeamName | MissingRestrictedLabel

definition audience_from_str :: "string \<Rightarrow> AudienceParseError + AudienceTier" where
  "audience_from_str s =
     (let trimmed = trim s in
      if eq_ignore_ascii_case trimmed ''internal'' then Inr AudInternal
      else if eq_ignore_ascii_case trimmed ''public'' then Inr AudPublic
      else (case strip_prefix ''team:'' trimmed of
              Some rest \<Rightarrow>
                (let name = trim rest in if name = [] then Inl MissingTeamName else Inr (AudTeam name))
            | None \<Rightarrow>
        (case strip_prefix ''restricted:'' trimmed of
           Some rest \<Rightarrow>
             (let label = trim rest in if label = [] then Inl MissingRestrictedLabel else Inr (AudRestricted label))
         | None \<Rightarrow> Inl UnknownAudience)))"

section \<open>Per-state records\<close>

record Principal =
  principal_name :: bytes
  principal_email :: bytes

text \<open>\<^verbatim>\<open>DateTime<Utc>\<close> is the type \<open>'t\<close>, the signature of a record is opaque bytes.\<close>

record 't StateVisibility =
  sv_state :: StateId
  sv_tier :: VisibilityTier
  sv_embargo_until :: "'t option"
  sv_declarer :: Principal
  sv_declared_at :: 't
  sv_signature :: "bytes option"
  sv_supersedes :: "ContentHash option"

datatype StateVisibilityError =
  SvUnsupportedVersion u8
| SvCodec string
| EmptyTierLabel string

text \<open>\<^verbatim>\<open>b"hd-statevis-v1\x00"\<close>\<close>

definition STATE_VISIBILITY_SIGNING_PAYLOAD_VERSION_TAG :: bytes where
  "STATE_VISIBILITY_SIGNING_PAYLOAD_VERSION_TAG = utf8 ''hd-statevis-v1'' @ [0]"

definition canonical_signing_payload :: "('t \<Rightarrow> bytes) \<Rightarrow> 't StateVisibility \<Rightarrow> bytes" where
  "canonical_signing_payload to_rfc3339 r =
     STATE_VISIBILITY_SIGNING_PAYLOAD_VERSION_TAG
     @ sv_state r
     @ utf8 (tier_as_str (sv_tier r))
     @ [0]
     @ (case sv_tier r of
          TeamScoped team \<Rightarrow> utf8 team
        | Restricted label \<Rightarrow> utf8 label
        | Private label \<Rightarrow> utf8 label
        | _ \<Rightarrow> [])
     @ [0]
     @ (case sv_embargo_until r of Some t \<Rightarrow> to_rfc3339 t | None \<Rightarrow> [])
     @ [0]
     @ principal_name (sv_declarer r)
     @ [0]
     @ principal_email (sv_declarer r)
     @ [0]
     @ to_rfc3339 (sv_declared_at r)
     @ (case sv_supersedes r of Some h \<Rightarrow> h | None \<Rightarrow> [])"

definition sv_validate :: "'t StateVisibility \<Rightarrow> StateVisibilityError + unit" where
  "sv_validate r =
     (case sv_tier r of
        TeamScoped team \<Rightarrow> if trim team = [] then Inl (EmptyTierLabel ''team_scoped'') else Inr ()
      | Restricted label \<Rightarrow> if trim label = [] then Inl (EmptyTierLabel ''restricted'') else Inr ()
      | Private label \<Rightarrow> if trim label = [] then Inl (EmptyTierLabel ''private'') else Inr ()
      | _ \<Rightarrow> Inr ())"

record 't StateVisibilityBlob =
  svb_format_version :: u8
  svb_records :: "'t StateVisibility list"

definition svb_new :: "'t StateVisibility list \<Rightarrow> 't StateVisibilityBlob" where
  "svb_new rs = \<lparr>svb_format_version = 1, svb_records = rs\<rparr>"

definition svb_empty :: "'t StateVisibilityBlob" where "svb_empty = svb_new []"

definition svb_push :: "'t StateVisibilityBlob \<Rightarrow> 't StateVisibility \<Rightarrow> 't StateVisibilityBlob" where
  "svb_push b r = b\<lparr>svb_records := svb_records b @ [r]\<rparr>"

definition svb_has_record :: "'t StateVisibilityBlob \<Rightarrow> bool" where
  "svb_has_record b \<longleftrightarrow> svb_records b \<noteq> []"

text \<open>The loop of \<^verbatim>\<open>latest\<close>: \<open>head\<close> is the best record so far with its hash.\<close>

fun latest_loop ::
  "('t StateVisibility \<Rightarrow> StateVisibilityError + ContentHash) \<Rightarrow> ContentHash set
   \<Rightarrow> 't StateVisibility list \<Rightarrow> ('t StateVisibility \<times> ContentHash) option
   \<Rightarrow> StateVisibilityError + ('t StateVisibility \<times> ContentHash) option" where
  "latest_loop content_hash superseded [] head = Inr head"
| "latest_loop content_hash superseded (r # rs) head =
     (case content_hash r of Inl e \<Rightarrow> Inl e
      | Inr h \<Rightarrow>
        if h \<in> superseded then latest_loop content_hash superseded rs head
        else latest_loop content_hash superseded rs
               (case head of
                  Some (b, best) \<Rightarrow> if h > best then Some (r, h) else head
                | None \<Rightarrow> Some (r, h)))"

definition svb_latest ::
  "('t StateVisibility \<Rightarrow> StateVisibilityError + ContentHash) \<Rightarrow> 't StateVisibilityBlob
   \<Rightarrow> StateVisibilityError + 't StateVisibility option" where
  "svb_latest content_hash b =
     (let superseded = set (List.map_filter sv_supersedes (svb_records b))
      in case latest_loop content_hash superseded (svb_records b) None of
           Inl e \<Rightarrow> Inl e | Inr head \<Rightarrow> Inr (map_option fst head))"

section \<open>Per-entry overrides\<close>

definition ENTRY_VISIBILITY_FORMAT_VERSION :: u8 where "ENTRY_VISIBILITY_FORMAT_VERSION = 1"

record EntryVisibilityEntry =
  ev_tree_id :: ContentHash
  ev_leaf_hash :: ContentHash
  ev_tier :: VisibilityTier

record EntryVisibility =
  evs_format_version :: u8
  evs_change_id :: ChangeId
  evs_tree_root :: ContentHash
  evs_entries :: "EntryVisibilityEntry list"

text \<open>The hexadecimal forms in the error are given by the two hashes themselves.\<close>

datatype EntryVisibilityError =
  EvUnsupportedVersion u8
| EvCodec string
| ConflictingDuplicate ContentHash ContentHash

fun dedup_loop ::
  "EntryVisibilityEntry list \<Rightarrow> EntryVisibilityEntry list \<Rightarrow> EntryVisibilityError + EntryVisibilityEntry list" where
  "dedup_loop deduped [] = Inr deduped"
| "dedup_loop deduped (e # es) =
     (if deduped \<noteq> [] \<and> ev_tree_id (last deduped) = ev_tree_id e \<and> ev_leaf_hash (last deduped) = ev_leaf_hash e
      then if ev_tier (last deduped) \<noteq> ev_tier e then Inl (ConflictingDuplicate (ev_tree_id e) (ev_leaf_hash e))
           else dedup_loop deduped es
      else dedup_loop (deduped @ [e]) es)"

definition entry_visibility_new ::
  "ChangeId \<Rightarrow> ContentHash \<Rightarrow> EntryVisibilityEntry list \<Rightarrow> EntryVisibilityError + EntryVisibility" where
  "entry_visibility_new change_id tree_root entries =
     (case dedup_loop [] (sort_key (\<lambda>e. (ev_tree_id e, ev_leaf_hash e)) entries) of
        Inl e \<Rightarrow> Inl e
      | Inr deduped \<Rightarrow>
          Inr \<lparr>evs_format_version = ENTRY_VISIBILITY_FORMAT_VERSION, evs_change_id = change_id,
               evs_tree_root = tree_root, evs_entries = deduped\<rparr>)"

definition evs_has_records :: "EntryVisibility \<Rightarrow> bool" where
  "evs_has_records s \<longleftrightarrow> evs_entries s \<noteq> []"

section \<open>Tiers and readers\<close>

lemma all_audience:
  "(\<forall>a. P a) \<longleftrightarrow> P AudInternal \<and> P AudPublic \<and> (\<forall>n. P (AudTeam n)) \<and> (\<forall>l. P (AudRestricted l))"
  by (metis AudienceTier.exhaust)

lemma another_string: "\<exists>n :: string. n \<noteq> s" "\<exists>n :: string. s \<noteq> n"
  by (metis append_self_conv not_Cons_self2)+

lemma narrowing_by_readers:
  "is_no_more_visible_than target source \<longleftrightarrow> (\<forall>audience. visible target audience \<longrightarrow> visible source audience)"
  unfolding all_audience
  by (cases target; cases source) (auto simp: is_no_more_visible_than_def another_string)

text \<open>C39: The syntactic narrowing check is exactly inclusion of the reader sets that the visibility matrix
  defines: one tier is no more visible than another if and only if every audience that may read the first
  may read the second.\<close>

theorem narrowing_is_reader_inclusion:
  "is_no_more_visible_than target source \<longleftrightarrow> (\<forall>audience. visible target audience \<longrightarrow> visible source audience)"
  by (rule narrowing_by_readers)

theorem narrowing_is_reader_inclusion_witness:
  "visible (TeamScoped ''core'') (AudTeam ''core'') \<and> visible Internal (AudTeam ''core'')"
  using narrowing_is_reader_inclusion [of "TeamScoped ''core''" Internal]
  by (simp add: is_no_more_visible_than_def)

text \<open>The rank behind \<^verbatim>\<open>visibility promote\<close> respects the reader sets: whenever one tier has strictly
  fewer readers than another, the other is strictly less restrictive by rank, so an opening of the audience
  is never refused as a narrowing.\<close>

theorem rank_respects_readers:
  assumes "\<And>a. visible narrow a \<Longrightarrow> visible wide a" "visible wide b" "\<not> visible narrow b"
  shows "is_strictly_less_restrictive_than wide narrow"
proof -
  have "is_no_more_visible_than narrow wide"
    using assms(1) narrowing_by_readers [of narrow wide] by blast
  moreover have "narrow \<noteq> wide" using assms(2,3) by blast
  ultimately show ?thesis
    using assms(2,3)
    by (cases narrow; cases wide) (auto simp: is_no_more_visible_than_def is_strictly_less_restrictive_than_def)
qed

theorem rank_respects_readers_witness:
  "is_strictly_less_restrictive_than (Restricted ''legal'') (Private ''legal'')"
  by (rule rank_respects_readers [of _ _ AudInternal]) (auto elim: visible.elims)

text \<open>The embargo tiers, whose hidden states also block their descendants, are exactly the tiers that no
  team can read; every other tier is open to at least one team.\<close>

theorem embargo_excludes_teams: "is_embargo t \<longleftrightarrow> (\<forall>team. \<not> visible t (AudTeam team))"
  by (cases t) auto

section \<open>The effective record of a state\<close>

definition superseded_by :: "'t StateVisibility list \<Rightarrow> ContentHash set" where
  "superseded_by rs = {h. \<exists>r \<in> set rs. sv_supersedes r = Some h}"

lemma superseded_set: "set (List.map_filter sv_supersedes rs) = superseded_by rs"
  by (force simp: superseded_by_def List.map_filter_def)

text \<open>A best head among a list: greatest hash, not superseded.\<close>

definition best_head ::
  "('t StateVisibility \<Rightarrow> ContentHash) \<Rightarrow> ContentHash set \<Rightarrow> 't StateVisibility set \<Rightarrow> 't StateVisibility \<Rightarrow> bool" where
  "best_head h S R r \<longleftrightarrow> r \<in> R \<and> h r \<notin> S \<and> (\<forall>q \<in> R. h q \<notin> S \<longrightarrow> h q \<le> h r)"

lemma latest_loop_best:
  assumes "\<And>r. r \<in> set rs \<Longrightarrow> ch r = Inr (h r)"
    and "\<And>q. head = Some q \<Longrightarrow> best_head h S R (fst q) \<and> snd q = h (fst q)"
    and "head = None \<Longrightarrow> \<forall>r \<in> R. h r \<in> S"
  shows "\<exists>res. latest_loop ch S rs head = Inr res
    \<and> (\<forall>q. res = Some q \<longrightarrow> best_head h S (R \<union> set rs) (fst q) \<and> snd q = h (fst q))
    \<and> (res = None \<longrightarrow> (\<forall>r \<in> R \<union> set rs. h r \<in> S))"
  using assms
proof (induction rs arbitrary: head R)
  case (Cons r rs)
  let ?head = "if h r \<in> S then head
    else (case head of Some (b, best) \<Rightarrow> if h r > best then Some (r, h r) else head | None \<Rightarrow> Some (r, h r))"
  have step: "latest_loop ch S (r # rs) head = latest_loop ch S rs ?head"
    using Cons.prems(1) [of r] by (simp split: option.splits)
  have "best_head h S (insert r R) (fst q) \<and> snd q = h (fst q)" if q: "?head = Some q" for q
  proof (cases head)
    case None
    then show ?thesis using q Cons.prems(3) by (auto simp: best_head_def split: if_splits)
  next
    case (Some c)
    have c: "best_head h S R (fst c)" "snd c = h (fst c)" using Cons.prems(2) Some by auto
    show ?thesis
    proof (cases "h r \<notin> S \<and> h r > snd c")
      case True
      then have "q = (r, h r)" using q Some by (simp split: prod.splits)
      then show ?thesis using True c by (auto simp: best_head_def intro: order.trans less_imp_le)
    next
      case False
      then have "q = c" using q Some by (auto split: prod.splits if_splits)
      then show ?thesis using False c by (auto simp: best_head_def not_less)
    qed
  qed
  note some = this
  have none: "\<forall>q \<in> insert r R. h q \<in> S" if "?head = None"
    using that Cons.prems(3) by (auto split: if_splits option.splits)
  have "insert r R \<union> set rs = R \<union> set (r # rs)" by auto
  then show ?case
    using Cons.IH [OF _ some none] Cons.prems(1) unfolding step by simp
qed auto

lemma svb_latest_best:
  assumes "\<And>r. r \<in> set (svb_records b) \<Longrightarrow> ch r = Inr (h r)"
  shows "\<exists>res. svb_latest ch b = Inr res
    \<and> (case res of None \<Rightarrow> \<forall>r \<in> set (svb_records b). h r \<in> superseded_by (svb_records b)
       | Some r \<Rightarrow> best_head h (superseded_by (svb_records b)) (set (svb_records b)) r)"
proof -
  obtain res where "latest_loop ch (superseded_by (svb_records b)) (svb_records b) None = Inr res"
    "\<forall>q. res = Some q \<longrightarrow> best_head h (superseded_by (svb_records b)) (set (svb_records b)) (fst q)"
    "res = None \<longrightarrow> (\<forall>r \<in> set (svb_records b). h r \<in> superseded_by (svb_records b))"
    using latest_loop_best [of "svb_records b" ch h None "superseded_by (svb_records b)" "{}"] assms by auto
  then show ?thesis
    by (intro exI [of _ "map_option fst res"]) (auto simp: svb_latest_def superseded_set split: option.splits)
qed

lemma best_head_unique:
  assumes "best_head h S R r" "best_head h S R q" "inj_on h R"
  shows "r = q"
proof -
  have "h r = h q" using assms(1,2) by (intro antisym) (auto simp: best_head_def)
  then show ?thesis using assms by (auto simp: best_head_def dest: inj_onD)
qed

text \<open>Replicas agree: two sidecars that hold the same records, in whatever order the records arrived, have
  the same effective record, as long as the content hash is defined on them and has no collision there.
  Declaration times play no part.\<close>

theorem latest_is_replica_independent:
  assumes "set (svb_records a) = set (svb_records b)"
    and "\<And>r. r \<in> set (svb_records a) \<Longrightarrow> content_hash r = Inr (h r)"
    and "inj_on h (set (svb_records a))"
  shows "svb_latest content_hash a = svb_latest content_hash b"
proof -
  have S: "superseded_by (svb_records a) = superseded_by (svb_records b)"
    using assms(1) by (simp add: superseded_by_def)
  have hb: "\<And>r. r \<in> set (svb_records b) \<Longrightarrow> content_hash r = Inr (h r)" using assms(1,2) by simp
  obtain ra where ra: "svb_latest content_hash a = Inr ra"
    "case ra of None \<Rightarrow> \<forall>r \<in> set (svb_records a). h r \<in> superseded_by (svb_records a)
     | Some r \<Rightarrow> best_head h (superseded_by (svb_records a)) (set (svb_records a)) r"
    using svb_latest_best [of a content_hash h] assms(2) by blast
  obtain rb where rb: "svb_latest content_hash b = Inr rb"
    "case rb of None \<Rightarrow> \<forall>r \<in> set (svb_records a). h r \<in> superseded_by (svb_records a)
     | Some r \<Rightarrow> best_head h (superseded_by (svb_records a)) (set (svb_records a)) r"
    using svb_latest_best [of b content_hash h] hb unfolding S [symmetric] assms(1) [symmetric] by blast
  have "ra = rb"
    using ra(2) rb(2) best_head_unique [OF _ _ assms(3)]
    by (cases ra; cases rb) (auto simp: best_head_def)
  then show ?thesis using ra(1) rb(1) by simp
qed

text \<open>An example record, for the witnesses.\<close>

definition sample_record :: "VisibilityTier \<Rightarrow> ContentHash option \<Rightarrow> nat StateVisibility" where
  "sample_record tier prior = \<lparr>sv_state = [], sv_tier = tier, sv_embargo_until = None,
     sv_declarer = \<lparr>principal_name = [], principal_email = []\<rparr>, sv_declared_at = 0, sv_signature = None,
     sv_supersedes = prior\<rparr>"

theorem latest_is_replica_independent_witness:
  "svb_latest (\<lambda>r. Inr (utf8 (tier_as_str (sv_tier r)))) (svb_new [sample_record Public None, sample_record Internal None])
   = svb_latest (\<lambda>r. Inr (utf8 (tier_as_str (sv_tier r)))) (svb_new [sample_record Internal None, sample_record Public None])"
  by (rule latest_is_replica_independent [where h = "\<lambda>r. utf8 (tier_as_str (sv_tier r))"])
    (auto simp: svb_new_def sample_record_def utf8_def utf8_char_def)

text \<open>The state of a sidecar whose declarations were made one after another: one record is current, every
  other one is superseded.\<close>

definition current_record ::
  "('t StateVisibility \<Rightarrow> ContentHash) \<Rightarrow> 't StateVisibilityBlob \<Rightarrow> 't StateVisibility \<Rightarrow> bool" where
  "current_record h b cur \<longleftrightarrow> cur \<in> set (svb_records b)
     \<and> (\<forall>r \<in> set (svb_records b). h r \<notin> superseded_by (svb_records b) \<longleftrightarrow> r = cur)"

text \<open>A new declaration takes effect: if it supersedes the current record and its own hash is fresh, it is
  the effective record after being pushed, and it is current for the next one, whatever its declaration
  time and whatever the order of the hashes.\<close>

theorem pushed_record_is_latest:
  assumes "\<And>r. content_hash r = Inr (h r)" "current_record h b cur"
    and "sv_supersedes r = Some (h cur)" "h r \<notin> superseded_by (svb_records b)" "h r \<noteq> h cur"
  shows "svb_latest content_hash (svb_push b r) = Inr (Some r) \<and> current_record h (svb_push b r) r"
proof -
  have recs: "svb_records (svb_push b r) = svb_records b @ [r]" by (simp add: svb_push_def)
  have sup: "superseded_by (svb_records b @ [r]) = insert (h cur) (superseded_by (svb_records b))"
    using assms(3) by (auto simp: superseded_by_def)
  have cur: "current_record h (svb_push b r) r"
    using assms(2,4,5) unfolding current_record_def recs sup by auto
  obtain res where res: "svb_latest content_hash (svb_push b r) = Inr res"
    "case res of None \<Rightarrow> \<forall>q \<in> set (svb_records (svb_push b r)). h q \<in> superseded_by (svb_records (svb_push b r))
     | Some q \<Rightarrow> best_head h (superseded_by (svb_records (svb_push b r))) (set (svb_records (svb_push b r))) q"
    using svb_latest_best [of "svb_push b r" content_hash h] assms(1) by blast
  have "res = Some r"
    using res(2) cur by (cases res) (auto simp: current_record_def best_head_def)
  then show ?thesis using res(1) cur by simp
qed

theorem pushed_record_is_latest_witness:
  "svb_latest (\<lambda>r :: nat StateVisibility. Inr (utf8 (tier_as_str (sv_tier r))))
     (svb_push (svb_new [sample_record Internal None]) (sample_record Public (Some (utf8 ''internal''))))
   = Inr (Some (sample_record Public (Some (utf8 ''internal''))))"
  using pushed_record_is_latest [of "\<lambda>r. Inr (utf8 (tier_as_str (sv_tier r)))" "\<lambda>r. utf8 (tier_as_str (sv_tier r))"
      "svb_new [sample_record Internal None]" "sample_record Internal None" "sample_record Public (Some (utf8 ''internal''))"]
  by (simp add: current_record_def superseded_by_def svb_new_def sample_record_def utf8_def utf8_char_def)

section \<open>Per-entry overrides\<close>

definition entry_key :: "EntryVisibilityEntry \<Rightarrow> ContentHash \<times> ContentHash" where
  "entry_key e = (ev_tree_id e, ev_leaf_hash e)"

definition conflicting :: "EntryVisibilityEntry list \<Rightarrow> bool" where
  "conflicting es \<longleftrightarrow> (\<exists>e \<in> set es. \<exists>f \<in> set es. entry_key e = entry_key f \<and> ev_tier e \<noteq> ev_tier f)"

lemma entry_eqI: "entry_key e = entry_key f \<Longrightarrow> ev_tier e = ev_tier f \<Longrightarrow> e = (f :: EntryVisibilityEntry)"
  by (cases e; cases f) (simp add: entry_key_def)

lemma same_key_conv: "ev_tree_id e = ev_tree_id f \<and> ev_leaf_hash e = ev_leaf_hash f \<longleftrightarrow> entry_key e = entry_key f"
  by (simp add: entry_key_def)

lemma strict_le_last:
  "sorted_wrt (<) (map f d) \<Longrightarrow> x \<in> set d \<Longrightarrow> f x \<le> (f (last d) :: 'b :: linorder)"
  by (induction d rule: rev_induct) (auto simp: sorted_wrt_append)

lemma dedup_loop_spec:
  assumes "sorted (map entry_key (d @ es))" "sorted_wrt (<) (map entry_key d)"
  shows "(\<exists>out. dedup_loop d es = Inr out \<and> set out = set (d @ es) \<and> sorted_wrt (<) (map entry_key out))
    \<or> (\<exists>e. dedup_loop d es = Inl e) \<and> conflicting (d @ es)"
  using assms
proof (induction d es rule: dedup_loop.induct)
  case (2 d e es)
  show ?case
  proof (cases "d \<noteq> [] \<and> entry_key (last d) = entry_key e")
    case True
    then have last: "last d \<in> set d" by simp
    show ?thesis
    proof (cases "ev_tier (last d) = ev_tier e")
      case eq: True
      then have "last d = e" using True entry_eqI by blast
      then have set: "set (d @ e # es) = set (d @ es)" using last by auto
      have conf: "conflicting (d @ e # es) = conflicting (d @ es)" by (simp only: conflicting_def set)
      have step: "dedup_loop d (e # es) = dedup_loop d es" using True eq by (simp add: same_key_conv)
      have "sorted (map entry_key (d @ es))" using "2.prems"(1) by (simp add: sorted_append)
      then show ?thesis
        unfolding set conf step using "2.IH"(1) True eq "2.prems"(2) by (simp add: same_key_conv)
    next
      case False
      then have "conflicting (d @ e # es)"
        using True last unfolding conflicting_def by (intro bexI [of _ "last d"] bexI [of _ e]) simp_all
      then show ?thesis using True False by (simp add: same_key_conv)
    qed
  next
    case False
    have lt: "entry_key x < entry_key e" if "x \<in> set d" for x
    proof -
      have "entry_key x \<le> entry_key (last d)"
        using that "2.prems"(2) by (rule strict_le_last [rotated])
      moreover have "entry_key (last d) \<le> entry_key e"
      proof -
        have "last d \<in> set d" using that by (cases d) auto
        then show ?thesis using "2.prems"(1) unfolding map_append sorted_append by simp
      qed
      moreover have "entry_key (last d) \<noteq> entry_key e" using False that by auto
      ultimately show ?thesis by simp
    qed
    then have "sorted_wrt (<) (map entry_key (d @ [e]))"
      using "2.prems"(2) by (auto simp: sorted_wrt_append)
    moreover have "dedup_loop d (e # es) = dedup_loop (d @ [e]) es" using False by (auto simp: same_key_conv)
    ultimately show ?thesis using "2.IH"(2) False "2.prems"(1) by (auto simp: same_key_conv)
  qed
qed auto

lemma strict_key_unique:
  assumes "sorted_wrt (<) (map entry_key xs)" "sorted_wrt (<) (map entry_key ys)" "set xs = set ys"
  shows "xs = ys"
proof -
  have "map entry_key xs = map entry_key ys"
    using assms by (intro strict_sorted_equal) simp_all
  moreover have "inj_on entry_key (set xs \<union> set ys)"
    using assms by (simp add: strict_sorted_iff distinct_map)
  ultimately show ?thesis by (rule map_inj_on)
qed

text \<open>An entry-visibility sidecar is built exactly when no two overrides give one tree entry different
  tiers. Its entries are then the given overrides without repetition, strictly ordered by tree and leaf, so
  equal sets of overrides give the same sidecar and therefore the same encoded bytes.\<close>

theorem entry_visibility_canonical:
  assumes "set entries = set entries'"
  shows "(entry_visibility_new change_id root entries = Inr s \<longleftrightarrow> entry_visibility_new change_id root entries' = Inr s)
    \<and> ((\<exists>s. entry_visibility_new change_id root entries = Inr s) \<longleftrightarrow> \<not> conflicting entries)
    \<and> (entry_visibility_new change_id root entries = Inr s \<longrightarrow>
        set (evs_entries s) = set entries \<and> sorted_wrt (<) (map entry_key (evs_entries s)))"
proof (intro conjI impI)
  have key: "(\<lambda>e. (ev_tree_id e, ev_leaf_hash e)) = entry_key" by (simp add: entry_key_def fun_eq_iff)
  have loop: "(\<exists>out. dedup_loop [] (sort_key entry_key es) = Inr out \<and> set out = set es \<and> sorted_wrt (<) (map entry_key out))
      \<or> (\<exists>e. dedup_loop [] (sort_key entry_key es) = Inl e) \<and> conflicting es" for es
    using dedup_loop_spec [of "[]" "sort_key entry_key es"] by (simp add: conflicting_def)
  have clean: "\<not> conflicting es" if "set out = set es" "sorted_wrt (<) (map entry_key out)" for es out
    using that by (auto simp: conflicting_def strict_sorted_iff distinct_map dest: inj_onD)
  have new: "entry_visibility_new change_id root es = Inr s \<longleftrightarrow> (\<exists>out. dedup_loop [] (sort_key entry_key es) = Inr out
      \<and> s = \<lparr>evs_format_version = ENTRY_VISIBILITY_FORMAT_VERSION, evs_change_id = change_id, evs_tree_root = root,
        evs_entries = out\<rparr>)" for es s
    by (auto simp: entry_visibility_new_def key split: sum.splits)
  show "set (evs_entries s) = set entries" "sorted_wrt (<) (map entry_key (evs_entries s))"
    if built: "entry_visibility_new change_id root entries = Inr s"
  proof -
    obtain out where "dedup_loop [] (sort_key entry_key entries) = Inr out" "evs_entries s = out"
      using built unfolding new by (elim exE conjE) simp
    then show "set (evs_entries s) = set entries" "sorted_wrt (<) (map entry_key (evs_entries s))"
      using loop [of entries] by force+
  qed
  have "(\<exists>s. entry_visibility_new change_id root entries = Inr s)
      \<longleftrightarrow> (\<exists>out. dedup_loop [] (sort_key entry_key entries) = Inr out)" by (simp add: new)
  also have "\<dots> \<longleftrightarrow> \<not> conflicting entries"
  proof
    assume "\<exists>out. dedup_loop [] (sort_key entry_key entries) = Inr out"
    then show "\<not> conflicting entries" using loop [of entries] clean [of _ entries] by force
  next
    assume "\<not> conflicting entries"
    then show "\<exists>out. dedup_loop [] (sort_key entry_key entries) = Inr out" using loop [of entries] by blast
  qed
  finally show "(\<exists>s. entry_visibility_new change_id root entries = Inr s) \<longleftrightarrow> \<not> conflicting entries" .
  have same: "dedup_loop [] (sort_key entry_key es') = Inr out"
    if a: "dedup_loop [] (sort_key entry_key es) = Inr out" and eq: "set es = set es'" for es es' out
  proof -
    have out: "set out = set es" "sorted_wrt (<) (map entry_key out)" using loop [of es] a by auto
    then have "\<not> conflicting es'" using clean [of out es'] eq by simp
    then obtain out' where "dedup_loop [] (sort_key entry_key es') = Inr out'" "set out' = set es'"
      "sorted_wrt (<) (map entry_key out')" using loop [of es'] by auto
    then show ?thesis using strict_key_unique [of out out'] out eq by simp
  qed
  show "entry_visibility_new change_id root entries = Inr s \<longleftrightarrow> entry_visibility_new change_id root entries' = Inr s"
    using same assms unfolding new by metis
qed

theorem entry_visibility_canonical_witness:
  "\<exists>s. entry_visibility_new [] [] (replicate 2 \<lparr>ev_tree_id = [1], ev_leaf_hash = [2], ev_tier = Public\<rparr>) = Inr s"
  using entry_visibility_canonical [of "replicate 2 \<lparr>ev_tree_id = [1], ev_leaf_hash = [2], ev_tier = Public\<rparr>"
      "[\<lparr>ev_tree_id = [1], ev_leaf_hash = [2], ev_tier = Public\<rparr>]" "[]" "[]"]
  by (simp add: numeral_2_eq_2 conflicting_def) blast

section \<open>The signed bytes\<close>

text \<open>The bytes a signer covers do not determine the declarer: name and email are raw bytes separated by a
  zero byte, so a zero byte inside either of them moves the border. Two records with different declarers
  have the same signing payload, and one signature covers both.\<close>

theorem signing_payload_ambiguous:
  "canonical_signing_payload fmt (sample_record Public None\<lparr>sv_declarer := \<lparr>principal_name = [65, 0, 66], principal_email = [67]\<rparr>\<rparr>)
   = canonical_signing_payload fmt (sample_record Public None\<lparr>sv_declarer := \<lparr>principal_name = [65], principal_email = [66, 0, 67]\<rparr>\<rparr>)"
  by (simp add: canonical_signing_payload_def sample_record_def)

end
