(* ===== verification/Op_Record.thy ===== *)
theory Op_Record
  imports Visibility
begin

text \<open>
  The records of the operation log, \<^verbatim>\<open>src/crates/object-model/src/op_record/types.rs\<close>: what an operation
  remembers, which isolation keys it touches, what its undo and redo need, and entries and batches.
\<close>

section \<open>Records\<close>

datatype ConflictResolutionMode = Ours | Theirs | Edit | Auto

fun mode_as_str :: "ConflictResolutionMode \<Rightarrow> string" where
  "mode_as_str Ours = ''ours''"
| "mode_as_str Theirs = ''theirs''"
| "mode_as_str Edit = ''edit''"
| "mode_as_str Auto = ''auto''"

datatype IsolationKey =
  KeyThread string
| KeyLocalHead string
| KeyStateVisibility StateId

text \<open>The derived order of the source: by variant, then by field.\<close>

definition key_code :: "IsolationKey \<Rightarrow> nat \<times> string \<times> bytes" where
  "key_code k = (case k of KeyThread s \<Rightarrow> (0, s, []) | KeyLocalHead s \<Rightarrow> (1, s, [])
     | KeyStateVisibility i \<Rightarrow> (2, [], i))"

lemma key_code_eq: "key_code k = key_code l \<longleftrightarrow> k = l"
  by (cases k; cases l) (auto simp: key_code_def)

instantiation IsolationKey :: linorder
begin

definition less_eq_IsolationKey :: "IsolationKey \<Rightarrow> IsolationKey \<Rightarrow> bool" where
  "less_eq_IsolationKey k l \<longleftrightarrow> key_code k \<le> key_code l"

definition less_IsolationKey :: "IsolationKey \<Rightarrow> IsolationKey \<Rightarrow> bool" where
  "less_IsolationKey k l \<longleftrightarrow> key_code k < key_code l"

instance
  by standard (auto simp: less_eq_IsolationKey_def less_IsolationKey_def order.strict_iff_not simp flip: key_code_eq)

end

text \<open>A \<^verbatim>\<open>BTreeSet\<close> of keys is a finite set; its iteration order is the order above.\<close>

record IsolationPrecondition =
  since_head_id :: nat
  isolation_keys :: "IsolationKey set"

datatype RecordedHead = HeadAttached string | HeadDetached StateId

record Agent =
  agent_provider :: string
  agent_model :: string
  agent_session_id :: "string option"
  agent_segment_id :: "string option"
  agent_policy_id :: "string option"
  agent_thought_level :: "string option"
  agent_parent :: "string option"

record Attribution =
  attr_principal :: Principal
  attr_agent :: "Agent option"

record ThreadUpdateSnapshots =
  snap_old :: "bytes option"
  snap_new :: "bytes option"
  snap_old_records :: "bytes list"
  snap_new_records :: "bytes list"
  snap_old_ref_absent :: bool

text \<open>The variants with their fields in the order of the source.\<close>

datatype OpRecord =
  Snapshot StateId "StateId option" "StateId option" "string option"
| Goto StateId "StateId option" StateId
| ThreadCreate string StateId "bytes option"
| ThreadDelete string StateId
| ThreadUpdate string StateId StateId "ThreadUpdateSnapshots option"
| Fork StateId StateId "string option" "StateId option"
| Collapse "StateId list" StateId "string option" "StateId option"
| MarkerCreate string StateId
| MarkerDelete string StateId
| Checkpoint "StateId option" StateId "string option"
| TransactionAbort string string
| EphemeralThreadCollapse string StateId
| ConflictResolved string string Attribution ConflictResolutionMode
| TransactionCommit string u32
| Redact ContentHash ContentHash StateId string
| Purge ContentHash ContentHash
| FastForward string string StateId StateId
| GitCheckpoint string StateId "string option" string
| RemoteThreadUpdate string string StateId
| RemoteThreadDelete string string StateId
| UndoRecoveryUpdate StateId
| StateVisibilitySet StateId ContentHash VisibilityTier "bytes option" "bytes option"
| StateVisibilityPromote StateId ContentHash ContentHash VisibilityTier "bytes option" "bytes option"
| HeadUpdate RecordedHead RecordedHead
| EntryVisibilitySet ChangeId ContentHash "bytes option" "bytes option"

fun is_transaction_commit :: "OpRecord \<Rightarrow> bool" where
  "is_transaction_commit (TransactionCommit _ _) = True"
| "is_transaction_commit _ = False"

fun is_transaction_commit_for :: "OpRecord \<Rightarrow> string \<Rightarrow> bool" where
  "is_transaction_commit_for (TransactionCommit i _) transaction_id = (i = transaction_id)"
| "is_transaction_commit_for _ _ = False"

definition snapshots_from_parts :: "bytes option \<Rightarrow> bytes option \<Rightarrow> ThreadUpdateSnapshots option" where
  "snapshots_from_parts old new =
     (if old = None \<and> new = None then None
      else Some \<lparr>snap_old = old, snap_new = new, snap_old_records = [], snap_new_records = [],
                 snap_old_ref_absent = False\<rparr>)"

definition snapshots_from_record_sets ::
  "bytes option \<Rightarrow> bytes option \<Rightarrow> bytes list \<Rightarrow> bytes list \<Rightarrow> bool \<Rightarrow> ThreadUpdateSnapshots option" where
  "snapshots_from_record_sets old new old_records new_records old_ref_absent =
     (if old = None \<and> new = None \<and> old_records = [] \<and> new_records = [] \<and> \<not> old_ref_absent then None
      else Some \<lparr>snap_old = old, snap_new = new, snap_old_records = old_records,
                 snap_new_records = new_records, snap_old_ref_absent = old_ref_absent\<rparr>)"

section \<open>Isolation keys\<close>

definition local_head_keys :: "string option \<Rightarrow> IsolationKey set" where
  "local_head_keys scope = (case scope of Some s \<Rightarrow> {KeyLocalHead s} | None \<Rightarrow> {})"

definition isolation_keys_for_record :: "OpRecord \<Rightarrow> string option \<Rightarrow> IsolationKey set" where
  "isolation_keys_for_record record scope =
     (case record of
        Snapshot _ _ _ (Some thread) \<Rightarrow> {KeyThread thread}
      | Checkpoint _ _ (Some thread) \<Rightarrow> {KeyThread thread}
      | ThreadCreate thread _ _ \<Rightarrow> {KeyThread thread}
      | ThreadDelete thread _ \<Rightarrow> {KeyThread thread}
      | ThreadUpdate thread _ _ _ \<Rightarrow> {KeyThread thread}
      | EphemeralThreadCollapse thread _ \<Rightarrow> {KeyThread thread}
      | GitCheckpoint thread _ _ _ \<Rightarrow> {KeyThread thread}
      | RemoteThreadUpdate _ thread _ \<Rightarrow> {KeyThread thread}
      | RemoteThreadDelete _ thread _ \<Rightarrow> {KeyThread thread}
      | Snapshot _ _ _ None \<Rightarrow> local_head_keys scope
      | Checkpoint _ _ None \<Rightarrow> local_head_keys scope
      | Goto _ _ _ \<Rightarrow> local_head_keys scope
      | HeadUpdate _ _ \<Rightarrow> local_head_keys scope
      | UndoRecoveryUpdate _ \<Rightarrow> local_head_keys scope
      | FastForward source_thread target_thread _ _ \<Rightarrow> {KeyThread source_thread, KeyThread target_thread}
      | Fork _ _ (Some thread) _ \<Rightarrow> {KeyThread thread}
      | Collapse _ _ (Some thread) _ \<Rightarrow> {KeyThread thread}
      | Fork _ _ None head \<Rightarrow> if head \<noteq> None then local_head_keys scope else {}
      | Collapse _ _ None _ \<Rightarrow> local_head_keys scope
      | StateVisibilitySet state _ _ _ _ \<Rightarrow> {KeyStateVisibility state}
      | StateVisibilityPromote state _ _ _ _ _ \<Rightarrow> {KeyStateVisibility state}
      | MarkerCreate _ _ \<Rightarrow> {}
      | MarkerDelete _ _ \<Rightarrow> {}
      | TransactionAbort _ _ \<Rightarrow> {}
      | ConflictResolved _ _ _ _ \<Rightarrow> {}
      | TransactionCommit _ _ \<Rightarrow> {}
      | Redact _ _ _ _ \<Rightarrow> {}
      | EntryVisibilitySet _ _ _ _ \<Rightarrow> {}
      | Purge _ _ \<Rightarrow> {})"

lemma finite_isolation_keys: "finite (isolation_keys_for_record record scope)"
  by (auto simp: isolation_keys_for_record_def local_head_keys_def split: OpRecord.split option.split)

definition conflict_resolved :: "string \<Rightarrow> Attribution \<Rightarrow> ConflictResolutionMode \<Rightarrow> OpRecord" where
  "conflict_resolved conflict_id resolver mode = ConflictResolved conflict_id (mode_as_str mode) resolver mode"

section \<open>Undo and redo\<close>

fun states_required_for_undo :: "OpRecord \<Rightarrow> StateId list" where
  "states_required_for_undo (Snapshot _ (Some prev) _ _) = [prev]"
| "states_required_for_undo (Goto _ (Some prev) _) = [prev]"
| "states_required_for_undo (ThreadDelete _ state) = [state]"
| "states_required_for_undo (ThreadUpdate _ old_state _ _) = [old_state]"
| "states_required_for_undo (MarkerDelete _ state) = [state]"
| "states_required_for_undo (FastForward _ _ pre_target_id _) = [pre_target_id]"
| "states_required_for_undo (HeadUpdate (HeadDetached state) _) = [state]"
| "states_required_for_undo _ = []"

fun states_required_for_redo :: "OpRecord \<Rightarrow> StateId list" where
  "states_required_for_redo (Snapshot new_state _ _ _) = [new_state]"
| "states_required_for_redo (Goto target _ _) = [target]"
| "states_required_for_redo (ThreadCreate _ state _) = [state]"
| "states_required_for_redo (ThreadUpdate _ _ new_state _) = [new_state]"
| "states_required_for_redo (MarkerCreate _ state) = [state]"
| "states_required_for_redo (FastForward _ _ _ post_target_id) = [post_target_id]"
| "states_required_for_redo (HeadUpdate _ (HeadDetached state)) = [state]"
| "states_required_for_redo _ = []"

fun redo_unsupported_label :: "OpRecord \<Rightarrow> string option" where
  "redo_unsupported_label (Redact _ _ _ _) = Some ''Redact''"
| "redo_unsupported_label (Purge _ _) = Some ''Purge''"
| "redo_unsupported_label _ = None"

datatype RedactionUndoClass = ClassPurge ContentHash | ClassRedact ContentHash StateId string | ClassOther

fun redaction_undo_class :: "OpRecord \<Rightarrow> RedactionUndoClass" where
  "redaction_undo_class (Purge redaction_id _) = ClassPurge redaction_id"
| "redaction_undo_class (Redact _ blob state path) = ClassRedact blob state path"
| "redaction_undo_class _ = ClassOther"

fun thread_worktree_undo_hazard_name :: "OpRecord \<Rightarrow> string option" where
  "thread_worktree_undo_hazard_name (ThreadCreate name _ _) = Some name"
| "thread_worktree_undo_hazard_name _ = None"

section \<open>Verbs\<close>

fun verb :: "OpRecord \<Rightarrow> string" where
  "verb (Snapshot _ _ _ _) = ''snapshot''"
| "verb (Goto _ _ _) = ''goto''"
| "verb (ThreadCreate _ _ _) = ''thread_create''"
| "verb (ThreadDelete _ _) = ''thread_delete''"
| "verb (ThreadUpdate _ _ _ _) = ''thread_update''"
| "verb (Fork _ _ _ _) = ''fork''"
| "verb (Collapse _ _ _ _) = ''collapse''"
| "verb (MarkerCreate _ _) = ''marker_create''"
| "verb (MarkerDelete _ _) = ''marker_delete''"
| "verb (Checkpoint _ _ _) = ''checkpoint''"
| "verb (TransactionAbort _ _) = ''transaction_abort''"
| "verb (EphemeralThreadCollapse _ _) = ''ephemeral_thread_collapse''"
| "verb (ConflictResolved _ _ _ _) = ''conflict_resolved''"
| "verb (TransactionCommit _ _) = ''transaction_commit''"
| "verb (Redact _ _ _ _) = ''redact''"
| "verb (Purge _ _) = ''purge''"
| "verb (FastForward _ _ _ _) = ''fast_forward''"
| "verb (GitCheckpoint _ _ _ _) = ''git_checkpoint''"
| "verb (RemoteThreadUpdate _ _ _) = ''remote_thread_update''"
| "verb (RemoteThreadDelete _ _ _) = ''remote_thread_delete''"
| "verb (UndoRecoveryUpdate _) = ''undo_recovery_update''"
| "verb (StateVisibilitySet _ _ _ _ _) = ''state_visibility_set''"
| "verb (StateVisibilityPromote _ _ _ _ _ _) = ''state_visibility_promote''"
| "verb (EntryVisibilitySet _ _ _ _) = ''entry_visibility_set''"
| "verb (HeadUpdate _ _) = ''head_update''"

fun is_checkpoint_verb :: "OpRecord \<Rightarrow> bool" where
  "is_checkpoint_verb (Checkpoint _ _ _) = True"
| "is_checkpoint_verb _ = False"

definition OP_VERB_CATALOG :: "(string \<times> bool) list" where
  "OP_VERB_CATALOG =
     [(''snapshot'', False), (''goto'', False), (''thread_create'', False), (''thread_delete'', False),
      (''thread_update'', False), (''fork'', False), (''collapse'', False), (''marker_create'', False),
      (''marker_delete'', False), (''checkpoint'', True), (''transaction_abort'', False),
      (''ephemeral_thread_collapse'', False), (''conflict_resolved'', False), (''transaction_commit'', False),
      (''redact'', False), (''purge'', False), (''fast_forward'', False), (''git_checkpoint'', False),
      (''remote_thread_update'', False), (''remote_thread_delete'', False), (''undo_recovery_update'', False),
      (''state_visibility_set'', False), (''state_visibility_promote'', False), (''entry_visibility_set'', False),
      (''head_update'', False)]"

definition verbs :: "bool \<Rightarrow> string list" where
  "verbs include_checkpoints =
     foldl (\<lambda>out (verb, is_checkpoint).
       if (include_checkpoints \<or> \<not> is_checkpoint) \<and> verb \<notin> set out then out @ [verb] else out) [] OP_VERB_CATALOG"

section \<open>Entries and batches\<close>

text \<open>Entry and batch ids are the numbers the log hands out from 1; \<^verbatim>\<open>batch_id\<close> 0 means the entry is a
  batch of its own. The time and the client's operation id are opaque.\<close>

record 't OpEntry =
  entry_id :: nat
  entry_timestamp :: 't
  operation :: OpRecord
  undone :: bool
  batch_id :: nat
  batch_index :: nat
  entry_scope :: "string option"
  entry_actor :: Principal
  operation_id :: "bytes option"

record 't OpBatch =
  opb_id :: nat
  opb_entries :: "'t OpEntry list"

definition is_transaction_marker_only :: "'t OpBatch \<Rightarrow> bool" where
  "is_transaction_marker_only b \<longleftrightarrow>
     opb_entries b \<noteq> [] \<and> list_all (\<lambda>e. is_transaction_commit (operation e)) (opb_entries b)"

end
