(* ===== verification/Oplog_Index.thy ===== *)
theory Oplog_Index
  imports Op_Record
begin

text \<open>
  One oplog container with its index sections, \<^verbatim>\<open>src/crates/oplog/src/oplog/packed_oplog.rs\<close>: how the
  batch and transaction directories are built when a container is written, how they are checked when it
  is opened, and how they are read.

  The byte offset of an entry in the file is modelled by its position in the entry stream: the header then
  ends at 0, the entry section at the number of entries, and reading the entry at an offset is indexing the
  stream. The msgpack encoding of the single entries is library code.
\<close>

section \<open>Results\<close>

text \<open>Errors of the storage layer, by the variant of \<^verbatim>\<open>HeddleError\<close> and its message.\<close>

datatype HeddleError =
  InvalidObject string
| Config string
| IoError string
| Conflict string
| InvalidRefName string
| StorageFormatTooOld string nat nat
| StorageFormatTooNew string nat nat

type_synonym 'a outcome = "HeddleError + 'a"

section \<open>The container and its sections\<close>

record EntryOffsetRecord =
  eor_entry_id :: nat
  eor_entry_offset :: nat

record BatchDirRecord =
  bdr_batch_id :: nat
  bdr_newest_entry_id :: nat
  bdr_first_offset_index :: nat
  bdr_entry_count :: nat
  bdr_scope_state :: nat

record TxDirRecord =
  tdr_key_offset :: nat
  tdr_key_len :: nat
  tdr_commit_entry_id :: nat
  tdr_batch_id :: nat

text \<open>\<^verbatim>\<open>enum ScopeState { None = 0, One = 1, Mixed = 2 }\<close>\<close>

definition ScopeState_None :: nat where "ScopeState_None = 0"
definition ScopeState_One :: nat where "ScopeState_One = 1"
definition ScopeState_Mixed :: nat where "ScopeState_Mixed = 2"

text \<open>The sections of a container file, with the counts its header has.\<close>

record IndexSections =
  pk_entry_count :: nat
  pk_head_id :: nat
  pk_entry_offsets :: "EntryOffsetRecord list"
  pk_batch_offsets :: "nat list"
  pk_batch_dir :: "BatchDirRecord list"
  pk_tx_key_bytes :: string
  pk_tx_dir :: "TxDirRecord list"

text \<open>
  An open container: its sections and its entries, by position in the stream, which stands for their byte
  offset. \<^verbatim>\<open>pk_file\<close> says whether the index has a container file behind it (\<^verbatim>\<open>file.is_some()\<close>).
\<close>

record 't PackedOpLogIndex = IndexSections +
  pk_file :: bool
  pk_stream :: "'t OpEntry list"

definition pk_empty :: "'t PackedOpLogIndex" where
  "pk_empty = \<lparr>pk_entry_count = 0, pk_head_id = 0, pk_entry_offsets = [], pk_batch_offsets = [],
     pk_batch_dir = [], pk_tx_key_bytes = [], pk_tx_dir = [], pk_file = False, pk_stream = []\<rparr>"

definition effective_batch_id :: "'t OpEntry \<Rightarrow> nat" where
  "effective_batch_id e = (if batch_id e = 0 then entry_id e else batch_id e)"

definition entry_range :: "'t PackedOpLogIndex \<Rightarrow> (nat \<times> nat) option" where
  "entry_range ix =
     (if pk_entry_offsets ix = [] then None
      else Some (eor_entry_id (hd (pk_entry_offsets ix)), eor_entry_id (last (pk_entry_offsets ix))))"

section \<open>Building the sections\<close>

fun scope_state_loop :: "string option option \<Rightarrow> string option list \<Rightarrow> nat" where
  "scope_state_loop first [] =
     (case first of Some None \<Rightarrow> ScopeState_None | None \<Rightarrow> ScopeState_None | Some (Some _) \<Rightarrow> ScopeState_One)"
| "scope_state_loop first (scope # scopes) =
     (case first of
        None \<Rightarrow> scope_state_loop (Some scope) scopes
      | Some prev \<Rightarrow> if prev = scope then scope_state_loop first scopes else ScopeState_Mixed)"

definition scope_state :: "string option list \<Rightarrow> nat" where
  "scope_state scopes = scope_state_loop None scopes"

text \<open>
  \<^verbatim>\<open>groups\<close> and \<^verbatim>\<open>tx_first\<close> are ordered maps filled in entry order: the group of a batch id is the
  entries of that batch in stream order, and the transaction map keeps the first commit of each id.
\<close>

definition batch_group :: "('t OpEntry \<times> nat) list \<Rightarrow> nat \<Rightarrow> ('t OpEntry \<times> nat) list" where
  "batch_group es b = filter (\<lambda>(e, _). effective_batch_id e = b) es"

definition batch_record ::
  "('t OpEntry \<times> nat) list \<Rightarrow> nat \<Rightarrow> nat \<times> nat \<times> nat \<times> ('t OpEntry \<times> nat) list" where
  "batch_record es b =
     (let entries = sort_key (\<lambda>(e, _). (batch_index e, entry_id e)) (batch_group es b)
      in (b, Max (set (map (\<lambda>(e, _). entry_id e) entries)),
          scope_state (map (\<lambda>(e, _). entry_scope e) entries), entries))"

definition batch_records ::
  "('t OpEntry \<times> nat) list \<Rightarrow> (nat \<times> nat \<times> nat \<times> ('t OpEntry \<times> nat) list) list" where
  "batch_records es =
     sort_key (\<lambda>(_, newest, _, _). - int newest)
       (map (batch_record es) (sorted_list_of_set (set (map (\<lambda>(e, _). effective_batch_id e) es))))"

fun layout_batches ::
  "(nat \<times> nat \<times> nat \<times> ('t OpEntry \<times> nat) list) list \<Rightarrow> nat list \<Rightarrow> BatchDirRecord list
   \<Rightarrow> nat list \<times> BatchDirRecord list" where
  "layout_batches [] batch_offsets batch_dir = (batch_offsets, batch_dir)"
| "layout_batches ((b, newest, state, entries) # rest) batch_offsets batch_dir =
     layout_batches rest (batch_offsets @ map snd entries)
       (batch_dir @ [\<lparr>bdr_batch_id = b, bdr_newest_entry_id = newest,
          bdr_first_offset_index = length batch_offsets, bdr_entry_count = length entries,
          bdr_scope_state = state\<rparr>])"

fun commit_id :: "OpRecord \<Rightarrow> string option" where
  "commit_id (TransactionCommit i _) = Some i"
| "commit_id _ = None"

definition tx_first :: "('t OpEntry \<times> nat) list \<Rightarrow> string \<Rightarrow> (nat \<times> nat) option" where
  "tx_first es key =
     map_option (\<lambda>(e, _). (entry_id e, effective_batch_id e))
       (find (\<lambda>(e, _). commit_id (operation e) = Some key) es)"

fun layout_txs ::
  "(string \<times> nat \<times> nat) list \<Rightarrow> string \<Rightarrow> TxDirRecord list \<Rightarrow> string \<times> TxDirRecord list" where
  "layout_txs [] tx_key_bytes tx_dir = (tx_key_bytes, tx_dir)"
| "layout_txs ((key, commit_entry, b) # rest) tx_key_bytes tx_dir =
     layout_txs rest (tx_key_bytes @ key)
       (tx_dir @ [\<lparr>tdr_key_offset = length tx_key_bytes, tdr_key_len = length key,
          tdr_commit_entry_id = commit_entry, tdr_batch_id = b\<rparr>])"

definition tx_records :: "('t OpEntry \<times> nat) list \<Rightarrow> (string \<times> nat \<times> nat) list" where
  "tx_records es =
     map (\<lambda>key. (key, the (tx_first es key)))
       (sorted_list_of_set (set (List.map_filter (\<lambda>(e, _). commit_id (operation e)) es)))"

definition build_index_sections ::
  "('t OpEntry \<times> nat) list \<Rightarrow> nat list \<times> BatchDirRecord list \<times> string \<times> TxDirRecord list" where
  "build_index_sections es =
     (let (batch_offsets, batch_dir) = layout_batches (batch_records es) [] [];
          (tx_key_bytes, tx_dir) = layout_txs (tx_records es) [] []
      in (batch_offsets, batch_dir, tx_key_bytes, tx_dir))"

text \<open>
  What saving a log of entries and opening the file reads back, before validation, when the entries can be stored: a scope, a name
  or an email of 2^16 bytes or more and an empty scope are not read back (\<^verbatim>\<open>Oplog_Container\<close>). The bytes of the file are the
  \<^verbatim>\<open>encode_current_container\<close> of \<^verbatim>\<open>Oplog_Codec\<close>.
\<close>

definition encode_container :: "'t OpEntry list \<Rightarrow> nat \<Rightarrow> 't PackedOpLogIndex" where
  "encode_container es head_id =
     (let entry_offsets = map (\<lambda>(i, e). \<lparr>eor_entry_id = entry_id e, eor_entry_offset = i\<rparr>) (enumerate 0 es);
          (batch_offsets, batch_dir, tx_key_bytes, tx_dir) =
            build_index_sections (zip es (map eor_entry_offset entry_offsets))
      in \<lparr>pk_entry_count = length es, pk_head_id = head_id, pk_entry_offsets = entry_offsets,
          pk_batch_offsets = batch_offsets, pk_batch_dir = batch_dir,
          pk_tx_key_bytes = tx_key_bytes, pk_tx_dir = tx_dir, pk_file = True, pk_stream = es\<rparr>)"

section \<open>Validation\<close>

definition tx_record_key :: "string \<Rightarrow> TxDirRecord \<Rightarrow> string outcome" where
  "tx_record_key key_bytes r =
     (case checked_add (tdr_key_offset r) (tdr_key_len r) of
        None \<Rightarrow> Inl (InvalidObject ''transaction key range overflow'')
      | Some e \<Rightarrow>
          if e > length key_bytes then Inl (InvalidObject ''transaction key range points outside key section'')
          else Inr (subslice key_bytes (tdr_key_offset r) e))"

fun check_entry_offsets ::
  "nat \<Rightarrow> nat \<Rightarrow> nat option \<Rightarrow> EntryOffsetRecord list \<Rightarrow> unit outcome" where
  "check_entry_offsets header_len data_end last_id [] = Inr ()"
| "check_entry_offsets header_len data_end last_id (r # rs) =
     (if eor_entry_offset r < header_len \<or> eor_entry_offset r \<ge> data_end
      then Inl (InvalidObject ''oplog entry offset points outside entry section'')
      else if (case last_id of Some i \<Rightarrow> eor_entry_id r \<le> i | None \<Rightarrow> False)
      then Inl (InvalidObject ''oplog entry offsets are not sorted by id'')
      else check_entry_offsets header_len data_end (Some (eor_entry_id r)) rs)"

fun check_batch_dir ::
  "nat \<Rightarrow> nat option \<Rightarrow> nat \<Rightarrow> BatchDirRecord list \<Rightarrow> nat outcome" where
  "check_batch_dir offsets_count prev_newest tot [] = Inr tot"
| "check_batch_dir offsets_count prev_newest tot (r # rs) =
     (if (case prev_newest of Some i \<Rightarrow> bdr_newest_entry_id r \<ge> i | None \<Rightarrow> False)
      then Inl (InvalidObject ''oplog batch directory is not newest-first'')
      else if bdr_first_offset_index r + bdr_entry_count r > offsets_count
      then Inl (InvalidObject ''oplog batch directory range points outside offset list'')
      else check_batch_dir offsets_count (Some (bdr_newest_entry_id r)) (tot + bdr_entry_count r) rs)"

text \<open>The offset of an entry id, by the offset table; the record of the entry at an offset.\<close>

definition offset_of :: "EntryOffsetRecord list \<Rightarrow> nat \<Rightarrow> nat option" where
  "offset_of offsets i = map_of (rev (map (\<lambda>r. (eor_entry_id r, eor_entry_offset r)) offsets)) i"

fun check_tx_dir ::
  "EntryOffsetRecord list \<Rightarrow> nat \<Rightarrow> (nat \<Rightarrow> OpRecord outcome) \<Rightarrow> string \<Rightarrow> string option \<Rightarrow> TxDirRecord list
   \<Rightarrow> unit outcome" where
  "check_tx_dir offsets data_end record_at key_bytes prev_key [] = Inr ()"
| "check_tx_dir offsets data_end record_at key_bytes prev_key (r # rs) =
     (case tx_record_key key_bytes r of Inl e \<Rightarrow> Inl e
      | Inr key \<Rightarrow>
        if (case prev_key of Some prev \<Rightarrow> key \<le> prev | None \<Rightarrow> False)
        then Inl (InvalidObject ''oplog transaction directory is not sorted'')
        else (case offset_of offsets (tdr_commit_entry_id r) of
                None \<Rightarrow> Inl (InvalidObject ''oplog transaction directory references a missing entry'')
              | Some off \<Rightarrow>
                  if off \<ge> data_end
                  then Inl (InvalidObject ''oplog transaction directory points past entry data'')
                  else (case record_at off of Inl e \<Rightarrow> Inl e
                        | Inr record \<Rightarrow>
                          (case commit_id record of
                             None \<Rightarrow> Inl (InvalidObject ''oplog transaction directory references a non-commit entry'')
                           | Some i \<Rightarrow>
                               if i \<noteq> key then Inl (InvalidObject
                                 ''oplog transaction directory key disagrees with commit transaction_id'')
                               else check_tx_dir offsets data_end record_at key_bytes (Some key) rs))))"

definition validate_sections ::
  "nat \<Rightarrow> nat \<Rightarrow> (nat \<Rightarrow> OpRecord outcome) \<Rightarrow> 'a IndexSections_scheme \<Rightarrow> unit outcome" where
  "validate_sections header_len data_end record_at ix =
     (if length (pk_entry_offsets ix) \<noteq> pk_entry_count ix
      then Inl (InvalidObject ''oplog entry-offset count disagrees with header'')
      else if pk_entry_count ix = 0 \<and> pk_head_id ix \<noteq> 0
      then Inl (InvalidObject ''empty oplog has non-zero head_id'')
      else if pk_entry_count ix \<noteq> 0 \<and> eor_entry_id (last (pk_entry_offsets ix)) \<noteq> pk_head_id ix
      then Inl (InvalidObject ''oplog entry-offset tail disagrees with head_id'')
      else (case check_entry_offsets header_len data_end None (pk_entry_offsets ix) of Inl e \<Rightarrow> Inl e
            | Inr _ \<Rightarrow>
        if list_ex (\<lambda>o'. o' < header_len \<or> o' \<ge> data_end) (pk_batch_offsets ix)
        then Inl (InvalidObject ''oplog batch directory points outside entry section'')
        else (case check_batch_dir (length (pk_batch_offsets ix)) None 0 (pk_batch_dir ix) of Inl e \<Rightarrow> Inl e
              | Inr tot \<Rightarrow>
                if tot \<noteq> length (pk_batch_offsets ix)
                then Inl (InvalidObject ''oplog batch offset list disagrees with batch directory'')
                else check_tx_dir (pk_entry_offsets ix) data_end record_at (pk_tx_key_bytes ix) None (pk_tx_dir ix))))"

definition validate_index_records :: "'t PackedOpLogIndex \<Rightarrow> unit outcome" where
  "validate_index_records ix =
     validate_sections 0 (length (pk_stream ix)) (\<lambda>off. Inr (operation (pk_stream ix ! off))) ix"

text \<open>\<^verbatim>\<open>PackedOpLog::save\<close> followed by \<^verbatim>\<open>PackedOpLogIndex::open\<close> of the written file.\<close>

definition save_and_open :: "'t OpEntry list \<Rightarrow> nat \<Rightarrow> 't PackedOpLogIndex outcome" where
  "save_and_open es head_id =
     (let ix = encode_container es head_id
      in case validate_index_records ix of Inl e \<Rightarrow> Inl e | Inr _ \<Rightarrow> Inr ix)"

section \<open>Reading\<close>

definition read_entry_at :: "'t PackedOpLogIndex \<Rightarrow> nat \<Rightarrow> 't OpEntry" where
  "read_entry_at ix off = pk_stream ix ! off"

text \<open>\<^verbatim>\<open>partition_point\<close> on the sorted offset records.\<close>

definition pk_entries_after :: "'t PackedOpLogIndex \<Rightarrow> nat \<Rightarrow> 't OpEntry list outcome" where
  "pk_entries_after ix since_id =
     (let offsets = pk_entry_offsets ix;
          start = length (takeWhile (\<lambda>r. eor_entry_id r \<le> since_id) offsets)
      in if \<not> pk_file ix then Inl (InvalidObject ''empty oplog has no container'')
         else Inr (map (\<lambda>r. read_entry_at ix (eor_entry_offset r)) (drop start offsets)))"

definition pk_recent_entries :: "'t PackedOpLogIndex \<Rightarrow> nat \<Rightarrow> 't OpEntry list" where
  "pk_recent_entries ix count =
     (if count = 0 \<or> pk_entry_count ix = 0 then []
      else map (\<lambda>r. read_entry_at ix (eor_entry_offset r))
             (take (min count (length (pk_entry_offsets ix))) (rev (pk_entry_offsets ix))))"

fun collect_loop ::
  "'t PackedOpLogIndex \<Rightarrow> nat \<Rightarrow> nat \<Rightarrow> ('t OpBatch \<Rightarrow> bool) \<Rightarrow> string option \<Rightarrow> BatchDirRecord list
   \<Rightarrow> 't OpBatch list \<Rightarrow> 't OpBatch list outcome" where
  "collect_loop ix since_id count predicate scope [] batches = Inr batches"
| "collect_loop ix since_id count predicate scope (r # rs) batches =
     (if bdr_newest_entry_id r \<le> since_id then Inr batches
      else if (case scope of Some s \<Rightarrow> bdr_scope_state r = ScopeState_None \<and> s \<noteq> [] | None \<Rightarrow> False)
      then collect_loop ix since_id count predicate scope rs batches
      else (case checked_add (bdr_first_offset_index r) (bdr_entry_count r) of
              None \<Rightarrow> Inl (InvalidObject ''oplog batch directory range overflows'')
            | Some e \<Rightarrow>
        if e > length (pk_batch_offsets ix)
        then Inl (InvalidObject ''oplog batch directory range points outside offset list'')
        else
          let entries = filter (\<lambda>en. entry_id en > since_id)
                (map (read_entry_at ix) (subslice (pk_batch_offsets ix) (bdr_first_offset_index r) e))
          in if entries = [] then collect_loop ix since_id count predicate scope rs batches
             else
               let batch = \<lparr>opb_id = bdr_batch_id r, opb_entries = sort_key batch_index entries\<rparr>
               in if (case scope of Some s \<Rightarrow> \<not> list_all (\<lambda>en. entry_scope en = Some s) (opb_entries batch)
                      | None \<Rightarrow> False)
                  then collect_loop ix since_id count predicate scope rs batches
                  else if predicate batch
                  then (if length (batches @ [batch]) = count then Inr (batches @ [batch])
                        else collect_loop ix since_id count predicate scope rs (batches @ [batch]))
                  else collect_loop ix since_id count predicate scope rs batches))"

definition pk_collect_batches_after_scoped ::
  "'t PackedOpLogIndex \<Rightarrow> nat \<Rightarrow> nat \<Rightarrow> ('t OpBatch \<Rightarrow> bool) \<Rightarrow> string option \<Rightarrow> 't OpBatch list outcome" where
  "pk_collect_batches_after_scoped ix since_id count predicate scope =
     (if count = 0 \<or> pk_entry_count ix = 0 then Inr []
      else collect_loop ix since_id count predicate scope (pk_batch_dir ix) [])"

function tx_search :: "'t PackedOpLogIndex \<Rightarrow> string \<Rightarrow> nat \<Rightarrow> nat \<Rightarrow> (nat \<times> nat) option outcome" where
  "tx_search ix needle left right =
     (if left < right
      then let mid = left + (right - left) div 2
           in (case tx_record_key (pk_tx_key_bytes ix) (pk_tx_dir ix ! mid) of Inl e \<Rightarrow> Inl e
               | Inr key \<Rightarrow>
                   if key < needle then tx_search ix needle (mid + 1) right
                   else if needle < key then tx_search ix needle left mid
                   else Inr (Some (tdr_commit_entry_id (pk_tx_dir ix ! mid), tdr_batch_id (pk_tx_dir ix ! mid))))
      else Inr None)"
  by pat_completeness auto
termination by (relation "measure (\<lambda>(ix, needle, left, right). right - left)") auto

declare tx_search.simps [simp del]

definition pk_transaction_commit :: "'t PackedOpLogIndex \<Rightarrow> string \<Rightarrow> (nat \<times> nat) option outcome" where
  "pk_transaction_commit ix transaction_id = tx_search ix transaction_id 0 (length (pk_tx_dir ix))"

end
