(* ===== verification/Byte_Cursor.thy ===== *)
theory Byte_Cursor
  imports Heddle_Prelude
begin

text \<open>
  What the binary formats of the operation log share: the \<^verbatim>\<open>?\<close> operator of Rust, little-endian
  integers of a given width, UTF-8 validation, decimal formatting and parsing.

  In the operation log a Rust \<^verbatim>\<open>String\<close> is the list of its UTF-8 bytes, each a \<^typ>\<open>char\<close>, so that
  \<^const>\<open>length\<close> is \<^verbatim>\<open>len()\<close> and \<open>str_bytes\<close> is \<^verbatim>\<open>as_bytes()\<close>.
\<close>

section \<open>Early return\<close>

text \<open>\<^verbatim>\<open>let x = r?; k(x)\<close>\<close>

definition and_then :: "'e + 'a \<Rightarrow> ('a \<Rightarrow> 'e + 'b) \<Rightarrow> 'e + 'b" where
  "and_then r k = (case r of Inl e \<Rightarrow> Inl e | Inr x \<Rightarrow> k x)"

lemma and_then_simps [simp]: "and_then (Inl e) k = Inl e" "and_then (Inr x) k = k x"
  by (simp_all add: and_then_def)

lemma and_then_cong [fundef_cong]:
  "r = r' \<Longrightarrow> (\<And>x. r' = Inr x \<Longrightarrow> k x = k' x) \<Longrightarrow> and_then r k = and_then r' k'"
  by (cases r') auto

lemma and_then_Inr: "and_then r k = Inr y \<longleftrightarrow> (\<exists>x. r = Inr x \<and> k x = Inr y)"
  by (cases r) auto

text \<open>A loop whose body may fail.\<close>

fun try_map :: "('a \<Rightarrow> 'e + 'b) \<Rightarrow> 'a list \<Rightarrow> 'e + 'b list" where
  "try_map f [] = Inr []"
| "try_map f (x # xs) = and_then (f x) (\<lambda>y. and_then (try_map f xs) (\<lambda>ys. Inr (y # ys)))"

lemma try_map_all: "(\<And>x. x \<in> set xs \<Longrightarrow> f x = Inr (g x)) \<Longrightarrow> try_map f xs = Inr (map g xs)"
  by (induction xs) auto

lemma try_map_Inr: "try_map f xs = Inr ys \<longleftrightarrow> list_all2 (\<lambda>x y. f x = Inr y) xs ys"
  by (induction xs arbitrary: ys) (auto simp: and_then_Inr list_all2_Cons1)

section \<open>Little-endian integers\<close>

text \<open>\<^verbatim>\<open>n.to_le_bytes()\<close> of an integer of \<open>k\<close> bytes; a wider \<open>n\<close> is truncated, as by \<^verbatim>\<open>as\<close>.\<close>

fun le_bytes :: "nat \<Rightarrow> nat \<Rightarrow> bytes" where
  "le_bytes 0 n = []"
| "le_bytes (Suc k) n = word_of_nat (n mod 256) # le_bytes k (n div 256)"

fun from_le_bytes :: "bytes \<Rightarrow> nat" where
  "from_le_bytes [] = 0"
| "from_le_bytes (b # bs) = unat b + 256 * from_le_bytes bs"

lemma length_le_bytes [simp]: "length (le_bytes k n) = k"
  by (induction k arbitrary: n) auto

lemma from_le_bytes_mod: "from_le_bytes (le_bytes k n) = n mod 256 ^ k"
proof (induction k arbitrary: n)
  case (Suc k)
  have "unat (word_of_nat (n mod 256) :: u8) = n mod 256" by (simp add: unat_of_nat)
  then have "from_le_bytes (le_bytes (Suc k) n) = n mod 256 + 256 * (n div 256 mod 256 ^ k)"
    using Suc by simp
  also have "\<dots> = n mod (256 * 256 ^ k)" by (simp add: mod_mult2_eq)
  finally show ?case by simp
qed simp

lemma le_bytes_roundtrip: "n < 256 ^ k \<Longrightarrow> from_le_bytes (le_bytes k n) = n"
  by (simp add: from_le_bytes_mod)

lemma from_le_bytes_bound: "from_le_bytes bs < 256 ^ length bs"
proof (induction bs)
  case (Cons b bs)
  have "unat b < 256" using unsigned_less [of b] by simp
  then show ?case using Cons by simp
qed simp

text \<open>\<^verbatim>\<open>i64\<close> in two's complement.\<close>

definition le_bytes_i64 :: "int \<Rightarrow> bytes" where
  "le_bytes_i64 i = le_bytes 8 (nat (i mod 2 ^ 64))"

definition from_le_bytes_i64 :: "bytes \<Rightarrow> int" where
  "from_le_bytes_i64 bs = (let n = int (from_le_bytes bs) in if n < 2 ^ 63 then n else n - 2 ^ 64)"

lemma length_le_bytes_i64 [simp]: "length (le_bytes_i64 i) = 8"
  by (simp add: le_bytes_i64_def)

lemma le_bytes_i64_roundtrip:
  assumes "- (2 ^ 63) \<le> i" "i < 2 ^ 63"
  shows "from_le_bytes_i64 (le_bytes_i64 i) = i"
proof -
  have "nat (i mod 2 ^ 64) < 256 ^ 8" by (simp add: nat_less_iff)
  then have r: "from_le_bytes (le_bytes 8 (nat (i mod 2 ^ 64))) = nat (i mod 2 ^ 64)"
    by (rule le_bytes_roundtrip)
  show ?thesis
  proof (cases "0 \<le> i")
    case True
    then have "i mod 2 ^ 64 = i" using assms by simp
    then show ?thesis using r True assms by (simp add: from_le_bytes_i64_def le_bytes_i64_def)
  next
    case False
    then have "(i + 2 ^ 64) mod 2 ^ 64 = i + 2 ^ 64" using assms by (intro mod_pos_pos_trivial) auto
    then have "i mod 2 ^ 64 = i + 2 ^ 64" by simp
    then show ?thesis using r False assms by (simp add: from_le_bytes_i64_def le_bytes_i64_def)
  qed
qed

section \<open>UTF-8\<close>

definition str_bytes :: "string \<Rightarrow> bytes" where
  "str_bytes s = map (\<lambda>c. word_of_nat (of_char c)) s"

definition bytes_str :: "bytes \<Rightarrow> string" where
  "bytes_str bs = map (\<lambda>b. char_of (unat b)) bs"

lemma length_str_bytes [simp]: "length (str_bytes s) = length s" "length (bytes_str bs) = length bs"
  by (simp_all add: str_bytes_def bytes_str_def)

lemma bytes_str_inverse [simp]: "bytes_str (str_bytes s) = s"
proof -
  have "char_of (unat (word_of_nat (of_char c) :: u8)) = c" for c
    using of_char_mod_256 [of c, where ?'a = nat] by (simp add: unat_of_nat)
  then show ?thesis by (simp add: bytes_str_def str_bytes_def comp_def)
qed

definition utf8_cont :: "nat \<Rightarrow> bool" where
  "utf8_cont n \<longleftrightarrow> 0x80 \<le> n \<and> n \<le> 0xBF"

text \<open>The well-formed byte sequences of the Unicode standard: what \<^verbatim>\<open>String::from_utf8\<close> accepts.\<close>

fun utf8_valid :: "nat list \<Rightarrow> bool" where
  "utf8_valid [] \<longleftrightarrow> True"
| "utf8_valid (a # bs) \<longleftrightarrow>
     (if a < 0x80 then utf8_valid bs
      else case bs of [] \<Rightarrow> False
      | b # bs' \<Rightarrow>
        if 0xC2 \<le> a \<and> a \<le> 0xDF then utf8_cont b \<and> utf8_valid bs'
        else case bs' of [] \<Rightarrow> False
        | c # bs'' \<Rightarrow>
          if 0xE0 \<le> a \<and> a \<le> 0xEF
          then utf8_cont b \<and> (a = 0xE0 \<longrightarrow> 0xA0 \<le> b) \<and> (a = 0xED \<longrightarrow> b \<le> 0x9F) \<and> utf8_cont c \<and> utf8_valid bs''
          else case bs'' of [] \<Rightarrow> False
          | d # bs''' \<Rightarrow>
            0xF0 \<le> a \<and> a \<le> 0xF4 \<and> utf8_cont b \<and> (a = 0xF0 \<longrightarrow> 0x90 \<le> b) \<and> (a = 0xF4 \<longrightarrow> b \<le> 0x8F)
              \<and> utf8_cont c \<and> utf8_cont d \<and> utf8_valid bs''')"

declare utf8_valid.simps(2) [simp del]

definition is_utf8 :: "string \<Rightarrow> bool" where
  "is_utf8 s \<longleftrightarrow> utf8_valid (map of_char s)"

definition from_utf8 :: "bytes \<Rightarrow> string option" where
  "from_utf8 bs = (if is_utf8 (bytes_str bs) then Some (bytes_str bs) else None)"

lemma from_utf8_str_bytes: "is_utf8 s \<Longrightarrow> from_utf8 (str_bytes s) = Some s"
  by (simp add: from_utf8_def)

lemma ascii_is_utf8: "(\<And>c. c \<in> set s \<Longrightarrow> (of_char c :: nat) < 128) \<Longrightarrow> is_utf8 s"
  unfolding is_utf8_def by (induction s) (auto simp: utf8_valid.simps(2))

section \<open>Decimal numbers\<close>

fun dec_digits :: "nat \<Rightarrow> string" where
  "dec_digits n = (if n < 10 then [char_of (48 + n)] else dec_digits (n div 10) @ [char_of (48 + n mod 10)])"

declare dec_digits.simps [simp del]

text \<open>\<^verbatim>\<open>format!("{:0w}", n)\<close>\<close>

definition pad_dec :: "nat \<Rightarrow> nat \<Rightarrow> string" where
  "pad_dec w n = replicate (w - length (dec_digits n)) (CHR ''0'') @ dec_digits n"

fun parse_digits :: "nat \<Rightarrow> string \<Rightarrow> nat option" where
  "parse_digits acc [] = Some acc"
| "parse_digits acc (c # cs) =
     (let n = (of_char c :: nat) in if 48 \<le> n \<and> n \<le> 57 then parse_digits (10 * acc + (n - 48)) cs else None)"

text \<open>\<^verbatim>\<open>str::parse\<close> of an unsigned integer with maximum \<open>m\<close>: one or more digits after an optional plus sign.\<close>

definition parse_uint :: "nat \<Rightarrow> string \<Rightarrow> nat option" where
  "parse_uint m s =
     (let digits = (case s of c # cs \<Rightarrow> if c = CHR ''+'' then cs else s | [] \<Rightarrow> [])
      in if digits = [] then None
         else case parse_digits 0 digits of None \<Rightarrow> None | Some n \<Rightarrow> if n \<le> m then Some n else None)"

lemma parse_digits_append:
  "parse_digits acc (xs @ ys) = (case parse_digits acc xs of None \<Rightarrow> None | Some n \<Rightarrow> parse_digits n ys)"
  by (induction acc xs rule: parse_digits.induct) (auto simp: Let_def)

lemma of_char_digit: "n < 10 \<Longrightarrow> (of_char (char_of (48 + n) :: char) :: nat) = 48 + n"
  by (simp add: of_char_of)

lemma dec_digits_digit: "c \<in> set (dec_digits n) \<Longrightarrow> 48 \<le> (of_char c :: nat) \<and> (of_char c :: nat) \<le> 57"
proof (induction n rule: dec_digits.induct)
  case (1 n)
  have "n mod 10 < 10" by simp
  then show ?case
    using 1 dec_digits.simps [of n] by (auto simp: of_char_digit split: if_splits)
qed

lemma dec_digits_not_Nil [simp]: "dec_digits n \<noteq> []"
  by (subst dec_digits.simps) simp

lemma parse_dec_digits: "parse_digits 0 (dec_digits n) = Some n"
proof (induction n rule: dec_digits.induct)
  case (1 n)
  show ?case
  proof (cases "n < 10")
    case True
    then show ?thesis by (subst dec_digits.simps) (simp add: of_char_digit)
  next
    case False
    have "n mod 10 < 10" by simp
    then show ?thesis
      using 1 False by (subst dec_digits.simps) (simp add: parse_digits_append of_char_digit)
  qed
qed

lemma parse_zeros: "parse_digits 0 (replicate k (CHR ''0'') @ s) = parse_digits 0 s"
  by (induction k) auto

lemma parse_pad_dec: "parse_digits 0 (pad_dec w n) = Some n"
  by (simp add: pad_dec_def parse_zeros parse_dec_digits)

lemma pad_dec_inj: "pad_dec w m = pad_dec w n \<longleftrightarrow> m = n"
  by (metis parse_pad_dec option.inject)

lemma length_dec_digits: "0 < w \<Longrightarrow> n < 10 ^ w \<Longrightarrow> length (dec_digits n) \<le> w"
proof (induction n arbitrary: w rule: dec_digits.induct)
  case (1 n)
  show ?case
  proof (cases "n < 10")
    case True
    then show ?thesis using 1 by (subst dec_digits.simps) simp
  next
    case False
    obtain v where v: "w = Suc v" using 1 by (cases w) auto
    have "0 < v" using False 1 v by (cases v) auto
    moreover have "n div 10 < 10 ^ v" using 1 v by (simp add: less_mult_imp_div_less mult.commute)
    ultimately show ?thesis using 1 False v by (subst dec_digits.simps) simp
  qed
qed

lemma length_pad_dec: "0 < w \<Longrightarrow> n < 10 ^ w \<Longrightarrow> length (pad_dec w n) = w"
  using length_dec_digits [of w n] by (simp add: pad_dec_def)

lemma pad_dec_digit: "c \<in> set (pad_dec w n) \<Longrightarrow> 48 \<le> (of_char c :: nat) \<and> (of_char c :: nat) \<le> 57"
  by (auto simp: pad_dec_def dec_digits_digit)

lemma parse_uint_pad_dec: "n \<le> m \<Longrightarrow> parse_uint m (pad_dec w n) = Some n"
proof -
  assume n: "n \<le> m"
  obtain c cs where c: "pad_dec w n = c # cs"
    by (cases "pad_dec w n") (auto simp: pad_dec_def)
  have "c \<noteq> CHR ''+''" using pad_dec_digit [of c w n] by (auto simp: c)
  then show ?thesis using n parse_pad_dec [of w n] by (simp add: parse_uint_def c)
qed

end
