(* ===== verification/Oplog_Segments.thy ===== *)
theory Oplog_Segments
  imports Oplog_Index Byte_Cursor
begin

text \<open>
  The segmented operation log, \<^verbatim>\<open>src/crates/oplog/src/oplog/segmented_oplog.rs\<close>: an atomic manifest
  over immutable containers. A base container holds the oldest entries, segments of strictly descending
  levels the newer ones; an append merges the trailing segments like the carry of a binary counter.

  The disk is the manifest file and a map from paths, relative to the directory of the log and split into
  components, to containers. File operations succeed unless the file is missing.
\<close>

section \<open>The manifest\<close>

record SegmentDescriptor =
  sd_level :: nat
  sd_path :: string

record Manifest =
  mf_generation :: nat
  mf_base :: string
  mf_segments :: "SegmentDescriptor list"
  mf_entry_count :: nat
  mf_head_id :: nat

definition u64_max :: nat where "u64_max = 2 ^ 64 - 1"
definition u32_max :: nat where "u32_max = 2 ^ 32 - 1"
definition u8_max :: nat where "u8_max = 255"

definition MANIFEST_MAGIC :: string where "MANIFEST_MAGIC = ''HDOPV5'' @ [CHR 0x00, CHR 0x00]"
definition MANIFEST_VERSION :: nat where "MANIFEST_VERSION = 2"

definition write_string :: "bytes \<Rightarrow> string \<Rightarrow> bytes outcome" where
  "write_string out value =
     (if length value > u32_max then Inl (InvalidObject ''oplog manifest path too long'')
      else Inr (out @ le_bytes 4 (length value) @ str_bytes value))"

fun write_segments :: "bytes \<Rightarrow> SegmentDescriptor list \<Rightarrow> bytes outcome" where
  "write_segments out [] = Inr out"
| "write_segments out (segment # rest) =
     and_then (write_string (out @ le_bytes 1 (sd_level segment)) (sd_path segment))
       (\<lambda>out. write_segments out rest)"

definition encode_manifest :: "Manifest \<Rightarrow> bytes outcome" where
  "encode_manifest m =
     and_then (write_string
         (str_bytes MANIFEST_MAGIC @ le_bytes 4 MANIFEST_VERSION @ le_bytes 8 (mf_generation m)
            @ le_bytes 8 (mf_entry_count m) @ le_bytes 8 (mf_head_id m)) (mf_base m))
       (\<lambda>out. if length (mf_segments m) > u32_max then Inl (InvalidObject ''too many oplog segments'')
              else write_segments (out @ le_bytes 4 (length (mf_segments m))) (mf_segments m))"

text \<open>\<^verbatim>\<open>ManifestCursor\<close>: the bytes and the offset reached; every read returns the value and the new offset.\<close>

definition mc_read :: "bytes \<Rightarrow> nat \<Rightarrow> nat \<Rightarrow> (bytes \<times> nat) outcome" where
  "mc_read bs offset len =
     (case checked_add offset len of
        None \<Rightarrow> Inl (InvalidObject ''oplog manifest length overflow'')
      | Some e \<Rightarrow> if e \<le> length bs then Inr (subslice bs offset e, e)
                   else Inl (InvalidObject ''truncated oplog manifest''))"

definition mc_read_u32 :: "bytes \<Rightarrow> nat \<Rightarrow> (nat \<times> nat) outcome" where
  "mc_read_u32 bs offset = and_then (mc_read bs offset 4) (\<lambda>(v, e). Inr (from_le_bytes v, e))"

definition mc_read_u64 :: "bytes \<Rightarrow> nat \<Rightarrow> (nat \<times> nat) outcome" where
  "mc_read_u64 bs offset = and_then (mc_read bs offset 8) (\<lambda>(v, e). Inr (from_le_bytes v, e))"

definition mc_read_string :: "bytes \<Rightarrow> nat \<Rightarrow> (string \<times> nat) outcome" where
  "mc_read_string bs offset =
     and_then (mc_read_u32 bs offset) (\<lambda>(len, offset).
     and_then (mc_read bs offset len) (\<lambda>(v, e).
       case from_utf8 v of
         None \<Rightarrow> Inl (InvalidObject ''non-UTF-8 oplog manifest path'')
       | Some s \<Rightarrow> Inr (s, e)))"

fun mc_read_segments :: "bytes \<Rightarrow> nat \<Rightarrow> nat \<Rightarrow> (SegmentDescriptor list \<times> nat) outcome" where
  "mc_read_segments bs offset 0 = Inr ([], offset)"
| "mc_read_segments bs offset (Suc n) =
     and_then (mc_read bs offset 1) (\<lambda>(level, offset).
     and_then (mc_read_string bs offset) (\<lambda>(path, offset).
     and_then (mc_read_segments bs offset n) (\<lambda>(segments, offset).
       Inr (\<lparr>sd_level = unat (level ! 0), sd_path = path\<rparr> # segments, offset))))"

definition parse_manifest :: "bytes \<Rightarrow> Manifest outcome" where
  "parse_manifest bs =
     and_then (mc_read bs 0 8) (\<lambda>(magic, offset).
     if magic \<noteq> str_bytes MANIFEST_MAGIC then Inl (InvalidObject ''invalid oplog manifest magic'') else
     and_then (mc_read_u32 bs offset) (\<lambda>(version, offset).
     if version < MANIFEST_VERSION
     then Inl (StorageFormatTooOld ''oplog manifest'' version MANIFEST_VERSION)
     else if version > MANIFEST_VERSION
     then Inl (StorageFormatTooNew ''oplog manifest'' version MANIFEST_VERSION) else
     and_then (mc_read_u64 bs offset) (\<lambda>(generation, offset).
     and_then (mc_read_u64 bs offset) (\<lambda>(entry_count, offset).
     and_then (mc_read_u64 bs offset) (\<lambda>(head_id, offset).
     and_then (mc_read_string bs offset) (\<lambda>(base, offset).
     and_then (mc_read_u32 bs offset) (\<lambda>(segment_count, offset).
     if segment_count > 64 then Inl (InvalidObject ''oplog manifest exceeds binary tier bound'') else
     and_then (mc_read_segments bs offset segment_count) (\<lambda>(segments, offset).
     if offset \<noteq> length bs then Inl (InvalidObject ''oplog manifest has trailing bytes'')
     else Inr \<lparr>mf_generation = generation, mf_base = base, mf_segments = segments,
                mf_entry_count = entry_count, mf_head_id = head_id\<rparr>))))))))"

section \<open>Paths\<close>

fun split_char :: "char \<Rightarrow> string \<Rightarrow> string list" where
  "split_char c [] = [[]]"
| "split_char c (x # xs) =
     (if x = c then [] # split_char c xs
      else case split_char c xs of [] \<Rightarrow> [[x]] | p # ps \<Rightarrow> (x # p) # ps)"

text \<open>\<^verbatim>\<open>Path::components\<close> drops empty components and every \<^verbatim>\<open>.\<close> but a leading one.\<close>

definition resolve_relative :: "string \<Rightarrow> string list outcome" where
  "resolve_relative relative =
     (let parts = split_char (CHR ''/'') relative
      in if (relative \<noteq> [] \<and> hd relative = CHR ''/'') \<or> hd parts = ''.'' \<or> ''..'' \<in> set parts
         then Inl (InvalidObject ''oplog manifest contains an unsafe path'')
         else Inr (filter (\<lambda>p. p \<noteq> [] \<and> p \<noteq> ''.'') parts))"

definition OPLOG_BIN :: string where "OPLOG_BIN = ''oplog.bin''"
definition SEGMENT_DIR :: string where "SEGMENT_DIR = ''oplog.segments''"

definition segment_name :: "nat \<Rightarrow> nat \<Rightarrow> nat \<Rightarrow> nat \<Rightarrow> string" where
  "segment_name level start head generation =
     ''oplog.segments/segment-l'' @ pad_dec 2 level @ ''-'' @ pad_dec 20 start @ ''-'' @ pad_dec 20 head
       @ ''-g'' @ pad_dec 20 generation @ ''.bin''"

definition base_name :: "nat \<Rightarrow> nat \<Rightarrow> string" where
  "base_name head generation =
     ''oplog.segments/base-'' @ pad_dec 20 head @ ''-g'' @ pad_dec 20 generation @ ''.bin''"

section \<open>Opening\<close>

record 't disk =
  dk_files :: "string list \<Rightarrow> 't PackedOpLogIndex option"
  dk_manifest :: "bytes option"

record 't SegmentedOpLogIndex =
  sg_manifest :: Manifest
  sg_manifest_bytes :: "bytes option"
  sg_base :: "'t PackedOpLogIndex"
  sg_segments :: "'t PackedOpLogIndex list"

text \<open>\<^verbatim>\<open>PackedOpLogIndex::open\<close> of a path.\<close>

definition pk_open :: "'t disk \<Rightarrow> string list \<Rightarrow> 't PackedOpLogIndex outcome" where
  "pk_open d path =
     (case dk_files d path of
        None \<Rightarrow> Inl (IoError ''no such file'')
      | Some ix \<Rightarrow> and_then (validate_index_records ix) (\<lambda>_. Inr ix))"

definition open_container :: "'t disk \<Rightarrow> string \<Rightarrow> 't PackedOpLogIndex outcome" where
  "open_container d relative = and_then (resolve_relative relative) (pk_open d)"

definition validate_first_entry_id :: "'t PackedOpLogIndex \<Rightarrow> unit outcome" where
  "validate_first_entry_id base =
     (if (case entry_range base of Some (first, _) \<Rightarrow> first \<noteq> 1 | None \<Rightarrow> False)
      then Inl (InvalidObject ''oplog EntryId sequence must start at 1'') else Inr ())"

fun check_segments :: "nat option \<Rightarrow> 't PackedOpLogIndex list \<Rightarrow> unit outcome" where
  "check_segments previous [] = Inr ()"
| "check_segments previous (segment # segments) =
     (case entry_range segment of
        None \<Rightarrow> Inl (InvalidObject ''oplog append segment is empty'')
      | Some (first, last_id) \<Rightarrow>
          and_then
            (case previous of
               Some p \<Rightarrow>
                 if p + 1 > u64_max then Inl (InvalidObject ''oplog entry id overflow'')
                 else if first \<noteq> p + 1 then Inl (InvalidObject ''oplog manifest container ids are not contiguous'')
                 else Inr ()
             | None \<Rightarrow>
                 if first \<noteq> 1 then Inl (InvalidObject ''oplog EntryId sequence must start at 1'') else Inr ())
            (\<lambda>_. if last_id < first then Inl (InvalidObject ''oplog manifest container id range is invalid'')
                 else check_segments (Some last_id) segments))"

definition validate_container_sequence ::
  "Manifest \<Rightarrow> 't PackedOpLogIndex \<Rightarrow> 't PackedOpLogIndex list \<Rightarrow> unit outcome" where
  "validate_container_sequence manifest base segments =
     (let levels = map sd_level (mf_segments manifest)
      in if \<not> distinct (mf_base manifest # map sd_path (mf_segments manifest))
         then Inl (InvalidObject ''oplog manifest repeats a container path'')
         else if list_ex (\<lambda>(a, b). a \<le> b) (zip levels (drop 1 levels))
         then Inl (InvalidObject ''oplog segment levels are not strictly descending'')
         else and_then (validate_first_entry_id base)
                (\<lambda>_. check_segments (map_option snd (entry_range base)) segments))"

definition sg_open :: "'t disk \<Rightarrow> 't SegmentedOpLogIndex outcome" where
  "sg_open d =
     (case dk_manifest d of
        None \<Rightarrow>
          and_then (pk_open d [OPLOG_BIN]) (\<lambda>base.
          and_then (validate_first_entry_id base) (\<lambda>_.
            Inr \<lparr>sg_manifest = \<lparr>mf_generation = 0, mf_base = OPLOG_BIN, mf_segments = [],
                   mf_entry_count = pk_entry_count base, mf_head_id = pk_head_id base\<rparr>,
                 sg_manifest_bytes = None, sg_base = base, sg_segments = []\<rparr>))
      | Some bs \<Rightarrow>
          and_then (parse_manifest bs) (\<lambda>manifest.
          and_then (open_container d (mf_base manifest)) (\<lambda>base.
          and_then (try_map (\<lambda>descriptor. open_container d (sd_path descriptor)) (mf_segments manifest)) (\<lambda>segments.
          and_then (validate_container_sequence manifest base segments) (\<lambda>_.
            let actual_count = pk_entry_count base + sum_list (map pk_entry_count segments);
                actual_head = (if segments = [] then pk_head_id base else pk_head_id (last segments))
            in if actual_count \<noteq> mf_entry_count manifest \<or> actual_head \<noteq> mf_head_id manifest
               then Inl (InvalidObject ''oplog manifest disagrees with immutable segments'')
               else Inr \<lparr>sg_manifest = manifest, sg_manifest_bytes = Some bs, sg_base = base,
                          sg_segments = segments\<rparr>)))))"

definition sg_exists :: "'t disk \<Rightarrow> bool" where
  "sg_exists d \<longleftrightarrow> dk_files d [OPLOG_BIN] \<noteq> None \<or> dk_manifest d \<noteq> None"

definition sg_empty :: "'t SegmentedOpLogIndex" where
  "sg_empty =
     \<lparr>sg_manifest = \<lparr>mf_generation = 0, mf_base = OPLOG_BIN, mf_segments = [], mf_entry_count = 0, mf_head_id = 0\<rparr>,
      sg_manifest_bytes = None, sg_base = pk_empty, sg_segments = []\<rparr>"

definition sg_head_id :: "'t SegmentedOpLogIndex \<Rightarrow> nat" where
  "sg_head_id s = mf_head_id (sg_manifest s)"

definition sg_read_head_id :: "'t disk \<Rightarrow> nat outcome" where
  "sg_read_head_id d =
     (case dk_manifest d of
        Some bs \<Rightarrow> and_then (parse_manifest bs) (\<lambda>m. Inr (mf_head_id m))
      | None \<Rightarrow> (case dk_files d [OPLOG_BIN] of
                    None \<Rightarrow> Inl (IoError ''no such file'') | Some ix \<Rightarrow> Inr (pk_head_id ix)))"

section \<open>Reading\<close>

fun entries_after_loop :: "nat \<Rightarrow> 't PackedOpLogIndex list \<Rightarrow> 't OpEntry list \<Rightarrow> 't OpEntry list outcome" where
  "entries_after_loop since_id [] out = Inr out"
| "entries_after_loop since_id (segment # rest) out =
     (if pk_head_id segment > since_id
      then and_then (pk_entries_after segment since_id) (\<lambda>es. entries_after_loop since_id rest (out @ es))
      else entries_after_loop since_id rest out)"

definition sg_entries_after :: "'t SegmentedOpLogIndex \<Rightarrow> nat \<Rightarrow> 't OpEntry list outcome" where
  "sg_entries_after s since_id = entries_after_loop since_id (sg_base s # sg_segments s) []"

definition materialize_entries :: "'t SegmentedOpLogIndex \<Rightarrow> 't OpEntry list outcome" where
  "materialize_entries s = sg_entries_after s 0"

fun recent_loop :: "nat \<Rightarrow> 't PackedOpLogIndex list \<Rightarrow> 't OpEntry list \<Rightarrow> 't OpEntry list" where
  "recent_loop remaining [] out = out"
| "recent_loop remaining (segment # rest) out =
     (if remaining = 0 then out
      else let entries = pk_recent_entries segment remaining
           in recent_loop (remaining - length entries) rest (out @ entries))"

definition sg_recent_entries :: "'t SegmentedOpLogIndex \<Rightarrow> nat \<Rightarrow> 't OpEntry list" where
  "sg_recent_entries s count = recent_loop count (rev (sg_segments s) @ [sg_base s]) []"

definition sg_last_entry :: "'t SegmentedOpLogIndex \<Rightarrow> 't OpEntry option" where
  "sg_last_entry s = (let entries = sg_recent_entries s 1 in if entries = [] then None else Some (last entries))"

fun collect_segments_loop ::
  "nat \<Rightarrow> nat \<Rightarrow> ('t OpBatch \<Rightarrow> bool) \<Rightarrow> string option \<Rightarrow> 't PackedOpLogIndex list \<Rightarrow> 't OpBatch list
   \<Rightarrow> 't OpBatch list outcome" where
  "collect_segments_loop since_id count predicate scope [] out = Inr out"
| "collect_segments_loop since_id count predicate scope (segment # rest) out =
     (if length out = count \<or> pk_head_id segment \<le> since_id
      then collect_segments_loop since_id count predicate scope rest out
      else and_then (pk_collect_batches_after_scoped segment since_id (count - length out) predicate scope)
             (\<lambda>batches. collect_segments_loop since_id count predicate scope rest (out @ batches)))"

definition sg_collect_batches_after_scoped ::
  "'t SegmentedOpLogIndex \<Rightarrow> nat \<Rightarrow> nat \<Rightarrow> ('t OpBatch \<Rightarrow> bool) \<Rightarrow> string option \<Rightarrow> 't OpBatch list outcome" where
  "sg_collect_batches_after_scoped s since_id count predicate scope =
     collect_segments_loop since_id count predicate scope (rev (sg_segments s) @ [sg_base s]) []"

definition sg_collect_batches_scoped ::
  "'t SegmentedOpLogIndex \<Rightarrow> nat \<Rightarrow> ('t OpBatch \<Rightarrow> bool) \<Rightarrow> string option \<Rightarrow> 't OpBatch list outcome" where
  "sg_collect_batches_scoped s count predicate scope = sg_collect_batches_after_scoped s 0 count predicate scope"

fun commit_loop :: "'t PackedOpLogIndex list \<Rightarrow> string \<Rightarrow> (nat \<times> nat) option outcome" where
  "commit_loop [] transaction_id = Inr None"
| "commit_loop (segment # rest) transaction_id =
     and_then (pk_transaction_commit segment transaction_id)
       (\<lambda>c. if c \<noteq> None then Inr c else commit_loop rest transaction_id)"

definition sg_transaction_commit :: "'t SegmentedOpLogIndex \<Rightarrow> string \<Rightarrow> (nat \<times> nat) option outcome" where
  "sg_transaction_commit s transaction_id = commit_loop (sg_base s # sg_segments s) transaction_id"

definition sg_committed_batch :: "'t SegmentedOpLogIndex \<Rightarrow> string \<Rightarrow> 't OpBatch option outcome" where
  "sg_committed_batch s transaction_id =
     and_then (sg_transaction_commit s transaction_id) (\<lambda>c.
       case c of None \<Rightarrow> Inr None
       | Some (_, b) \<Rightarrow>
           and_then (sg_collect_batches_scoped s 1 (\<lambda>batch. opb_id batch = b) None)
             (\<lambda>batches. Inr (if batches = [] then None else Some (last batches))))"

definition sg_committed_batch_records :: "'t SegmentedOpLogIndex \<Rightarrow> string \<Rightarrow> OpRecord list outcome" where
  "sg_committed_batch_records s transaction_id =
     and_then (sg_transaction_commit s transaction_id) (\<lambda>c.
       case c of None \<Rightarrow> Inr []
       | Some (_, b) \<Rightarrow>
           and_then (sg_collect_batches_scoped s 1 (\<lambda>batch. opb_id batch = b) None)
             (\<lambda>batches. Inr (if batches = [] then []
                else map operation (filter (\<lambda>e. \<not> is_transaction_commit (operation e)) (opb_entries (last batches))))))"

definition sg_committed_transaction_ids ::
  "'t SegmentedOpLogIndex \<Rightarrow> string list \<Rightarrow> string set outcome" where
  "sg_committed_transaction_ids s candidates =
     and_then (try_map (\<lambda>candidate. and_then (sg_transaction_commit s candidate) (\<lambda>c. Inr (candidate, c))) candidates)
       (\<lambda>found. Inr (set (map fst (filter (\<lambda>(_, c). c \<noteq> None) found))))"

end
