(* ===== verification/Oplog_Append.thy ===== *)
theory Oplog_Append
  imports Oplog_Segments
begin

text \<open>
  The writing side of the segmented log, \<^verbatim>\<open>segmented_oplog.rs\<close>: appending with the binary-counter
  merge, replacing all entries, sweeping files no manifest lists, and repairing the manifest.

  An operation returns the disk it leaves, also when it fails, and its result. An append is the three
  phases of the source: the new container is written, the manifest is replaced, leftovers are swept.
\<close>

section \<open>Sweeping\<close>

text \<open>What the file system tells the sweep: whether a file is older than the grace period, and the clock.\<close>

record sweep_env =
  env_old :: "string list \<Rightarrow> bool"
  env_now_nanos :: nat

definition ATOMIC_TEMP_SWEEP_GRACE_NANOS :: nat where
  "ATOMIC_TEMP_SWEEP_GRACE_NANOS = 60 * 10 ^ 9"

definition u128_max :: nat where "u128_max = 2 ^ 128 - 1"

definition starts_with :: "string \<Rightarrow> string \<Rightarrow> bool" where
  "starts_with pre s \<longleftrightarrow> strip_prefix pre s \<noteq> None"

definition strip_suffix :: "string \<Rightarrow> string \<Rightarrow> string option" where
  "strip_suffix suf s = map_option rev (strip_prefix (rev suf) (rev s))"

fun rsplit_once :: "string \<Rightarrow> string \<Rightarrow> (string \<times> string) option" where
  "rsplit_once pat [] = None"
| "rsplit_once pat (c # cs) =
     (case rsplit_once pat cs of
        Some (a, b) \<Rightarrow> Some (c # a, b)
      | None \<Rightarrow> map_option (\<lambda>r. ([], r)) (strip_prefix pat (c # cs)))"

fun contains_str :: "string \<Rightarrow> string \<Rightarrow> bool" where
  "contains_str pat [] = (pat = [])"
| "contains_str pat (c # cs) = (starts_with pat (c # cs) \<or> contains_str pat cs)"

text \<open>\<^verbatim>\<open>s.split(pat).next()\<close>\<close>

fun before_str :: "string \<Rightarrow> string \<Rightarrow> string" where
  "before_str pat [] = []"
| "before_str pat (c # cs) = (if starts_with pat (c # cs) then [] else c # before_str pat cs)"

definition generation_container_is_sweepable :: "sweep_env \<Rightarrow> string list \<Rightarrow> string \<Rightarrow> nat \<Rightarrow> bool" where
  "generation_container_is_sweepable env path name selected_generation =
     (if \<not> (starts_with ''base-'' name \<or> starts_with ''segment-'' name) then False
      else case strip_suffix ''.bin'' name of
        None \<Rightarrow> False
      | Some stem \<Rightarrow>
          (case rsplit_once ''-g'' stem of
             None \<Rightarrow> False
           | Some (_, generation) \<Rightarrow>
               (case parse_uint u64_max generation of
                  None \<Rightarrow> False
                | Some g \<Rightarrow> if g > selected_generation then False else env_old env path)))"

definition atomic_temp_is_stale :: "sweep_env \<Rightarrow> string \<Rightarrow> string \<Rightarrow> bool" where
  "atomic_temp_is_stale env name target =
     (case Option.bind (strip_prefix target name) (strip_prefix ''.tmp-'') of
        None \<Rightarrow> False
      | Some suffix \<Rightarrow>
          (case split_char (CHR ''-'') suffix of
             [pid, timestamp, counter] \<Rightarrow>
               if parse_uint u32_max pid = None \<or> parse_uint u64_max counter = None then False
               else (case parse_uint u128_max timestamp of
                       None \<Rightarrow> False
                     | Some t \<Rightarrow> env_now_nanos env - t \<ge> ATOMIC_TEMP_SWEEP_GRACE_NANOS)
           | _ \<Rightarrow> False))"

definition is_stale_generation_atomic_temp :: "sweep_env \<Rightarrow> string \<Rightarrow> bool" where
  "is_stale_generation_atomic_temp env name =
     (case strip_prefix ''.'' name of
        None \<Rightarrow> False
      | Some target \<Rightarrow>
          ((starts_with ''base-'' target \<or> starts_with ''segment-'' target) \<and> contains_str ''.bin.tmp-'' target)
            \<and> atomic_temp_is_stale env name (''.'' @ before_str ''.tmp-'' target))"

definition container_paths :: "Manifest \<Rightarrow> string list" where
  "container_paths m = mf_base m # map sd_path (mf_segments m)"

definition live_paths :: "Manifest \<Rightarrow> string list set" where
  "live_paths m =
     set (List.map_filter (\<lambda>r. case resolve_relative r of Inl _ \<Rightarrow> None | Inr p \<Rightarrow> Some p) (container_paths m))"

definition swept :: "sweep_env \<Rightarrow> Manifest \<Rightarrow> string list \<Rightarrow> bool" where
  "swept env m path =
     (case path of
        [name] \<Rightarrow>
          (name = OPLOG_BIN \<and> path \<notin> live_paths m) \<or> atomic_temp_is_stale env name ''.oplog.manifest''
      | [dir, name] \<Rightarrow>
          dir = SEGMENT_DIR
          \<and> (generation_container_is_sweepable env path name (mf_generation m)
             \<or> is_stale_generation_atomic_temp env name)
          \<and> path \<notin> live_paths m
      | _ \<Rightarrow> False)"

definition remove_files :: "(string list \<Rightarrow> bool) \<Rightarrow> 't disk \<Rightarrow> 't disk" where
  "remove_files gone d = d\<lparr>dk_files := (\<lambda>p. if gone p then None else dk_files d p)\<rparr>"

definition sweep_unlisted_containers :: "sweep_env \<Rightarrow> Manifest \<Rightarrow> 't disk \<Rightarrow> 't disk" where
  "sweep_unlisted_containers env m d = remove_files (swept env m) d"

section \<open>Writing\<close>

text \<open>
  A written container keeps its entries, as \<^verbatim>\<open>encode_container\<close> does: that its bytes are read back so is proved, for entries the
  byte format can store, in \<^verbatim>\<open>Oplog_Container\<close> and \<^verbatim>\<open>Oplog_Bytes\<close>.
\<close>

definition write_container :: "'t disk \<Rightarrow> string list \<Rightarrow> 't OpEntry list \<Rightarrow> nat \<Rightarrow> 't disk" where
  "write_container d path es head_id = d\<lparr>dk_files := (dk_files d)(path \<mapsto> encode_container es head_id)\<rparr>"

definition write_manifest :: "'t disk \<Rightarrow> bytes \<Rightarrow> 't disk" where
  "write_manifest d bs = d\<lparr>dk_manifest := Some bs\<rparr>"

text \<open>The merge loop: while the last segment has the level of the new one, its entries go in front.\<close>

function carry_loop ::
  "SegmentDescriptor list \<Rightarrow> 't PackedOpLogIndex list \<Rightarrow> 't OpEntry list \<Rightarrow> nat
   \<Rightarrow> (SegmentDescriptor list \<times> 't PackedOpLogIndex list \<times> 't OpEntry list \<times> nat) outcome" where
  "carry_loop descriptors indexes carry level =
     (if descriptors \<noteq> [] \<and> sd_level (last descriptors) = level
      then if indexes = [] then Inl (InvalidObject ''oplog segment index count mismatch'')
           else and_then (pk_entries_after (last indexes) 0) (\<lambda>merged.
             if level + 1 > u8_max then Inl (InvalidObject ''oplog segment level overflow'')
             else carry_loop (butlast descriptors) (butlast indexes) (merged @ carry) (level + 1))
      else Inr (descriptors, indexes, carry, level))"
  by pat_completeness auto
termination by (relation "measure (\<lambda>(descriptors, _). length descriptors)") auto

declare carry_loop.simps [simp del]

text \<open>What an append is about to publish: the segments kept, the entries and level of the new segment.\<close>

definition plan_append ::
  "'t SegmentedOpLogIndex \<Rightarrow> 't OpEntry list
   \<Rightarrow> (SegmentDescriptor list \<times> 't PackedOpLogIndex list \<times> 't OpEntry list \<times> nat) outcome" where
  "plan_append s entries = carry_loop (mf_segments (sg_manifest s)) (sg_segments s) entries 0"

definition append_entries ::
  "sweep_env \<Rightarrow> 't disk \<Rightarrow> 't SegmentedOpLogIndex \<Rightarrow> 't OpEntry list
   \<Rightarrow> 't disk \<times> 't SegmentedOpLogIndex outcome" where
  "append_entries env d s entries =
     (let m = sg_manifest s; generation = mf_generation m + 1
      in if entries = [] then (d, Inr s)
         else if generation > u64_max then (d, Inl (InvalidObject ''oplog manifest generation overflow''))
         else case plan_append s entries of Inl e \<Rightarrow> (d, Inl e)
         | Inr (descriptors, indexes, carry, level) \<Rightarrow>
           let start = (if carry = [] then sg_head_id s else entry_id (hd carry));
               head = entry_id (last entries);
               relative = segment_name level start head generation
           in case resolve_relative relative of Inl e \<Rightarrow> (d, Inl e)
           | Inr path \<Rightarrow>
             let d1 = write_container d path carry head
             in case pk_open d1 path of Inl e \<Rightarrow> (d1, Inl e)
             | Inr index \<Rightarrow>
               if mf_entry_count m + length entries > u64_max
               then (d1, Inl (InvalidObject ''oplog entry count overflow''))
               else
                 let manifest = m\<lparr>mf_generation := generation,
                       mf_segments := descriptors @ [\<lparr>sd_level = level, sd_path = relative\<rparr>],
                       mf_entry_count := mf_entry_count m + length entries, mf_head_id := head\<rparr>
                 in case encode_manifest manifest of Inl e \<Rightarrow> (d1, Inl e)
                 | Inr bs \<Rightarrow>
                     (sweep_unlisted_containers env manifest (write_manifest d1 bs),
                      Inr \<lparr>sg_manifest = manifest, sg_manifest_bytes = Some bs, sg_base = sg_base s,
                           sg_segments = indexes @ [index]\<rparr>))"

definition obsolete_paths :: "Manifest \<Rightarrow> string list list" where
  "obsolete_paths m =
     List.map_filter (\<lambda>r. case resolve_relative r of Inl _ \<Rightarrow> None | Inr p \<Rightarrow> Some p)
       (filter (starts_with ''oplog.segments/'') (map sd_path (mf_segments m) @ [mf_base m]))"

definition replace_entries ::
  "sweep_env \<Rightarrow> 't disk \<Rightarrow> 't SegmentedOpLogIndex \<Rightarrow> 't OpEntry list
   \<Rightarrow> 't disk \<times> 't SegmentedOpLogIndex outcome" where
  "replace_entries env d s entries =
     (let m = sg_manifest s;
          head = (if entries = [] then 0 else entry_id (last entries));
          generation = mf_generation m + 1
      in if generation > u64_max then (d, Inl (InvalidObject ''oplog manifest generation overflow''))
         else let relative = base_name head generation
           in case resolve_relative relative of Inl e \<Rightarrow> (d, Inl e)
           | Inr path \<Rightarrow>
             let d1 = write_container d path entries head
             in case pk_open d1 path of Inl e \<Rightarrow> (d1, Inl e)
             | Inr base \<Rightarrow>
               let manifest = \<lparr>mf_generation = generation, mf_base = relative, mf_segments = [],
                     mf_entry_count = pk_entry_count base, mf_head_id = head\<rparr>
               in case encode_manifest manifest of Inl e \<Rightarrow> (d1, Inl e)
               | Inr bs \<Rightarrow>
                   let d2 = write_manifest d1 bs;
                       d3 = remove_files (\<lambda>p. p \<in> set (obsolete_paths m) \<and> p \<noteq> path) d2
                   in (sweep_unlisted_containers env manifest d3,
                       Inr \<lparr>sg_manifest = manifest, sg_manifest_bytes = Some bs, sg_base = base, sg_segments = []\<rparr>))"

section \<open>Repair\<close>

fun reconcile_loop ::
  "'t disk \<Rightarrow> SegmentDescriptor list \<Rightarrow> nat \<Rightarrow> nat \<Rightarrow> (nat \<times> nat) outcome" where
  "reconcile_loop d [] entry_count head_id = Inr (entry_count, head_id)"
| "reconcile_loop d (descriptor # rest) entry_count head_id =
     and_then (open_container d (sd_path descriptor)) (\<lambda>segment.
       if entry_count + pk_entry_count segment > u64_max
       then Inl (InvalidObject ''oplog entry count overflow'')
       else reconcile_loop d rest (entry_count + pk_entry_count segment) (pk_head_id segment))"

definition reconcile_manifest_metadata :: "'t disk \<Rightarrow> Manifest \<Rightarrow> Manifest outcome" where
  "reconcile_manifest_metadata d m =
     and_then (open_container d (mf_base m)) (\<lambda>base.
     and_then (reconcile_loop d (mf_segments m) (pk_entry_count base) (pk_head_id base)) (\<lambda>(entry_count, head_id).
       Inr (m\<lparr>mf_entry_count := entry_count, mf_head_id := head_id\<rparr>)))"

text \<open>How many of the segments, from the first, still continue the ids; the loop stops at the first gap.\<close>

fun valid_prefix ::
  "'t disk \<Rightarrow> nat option \<Rightarrow> SegmentDescriptor list \<Rightarrow> nat \<Rightarrow> nat outcome" where
  "valid_prefix d previous [] valid = Inr valid"
| "valid_prefix d previous (descriptor # rest) valid =
     and_then (open_container d (sd_path descriptor)) (\<lambda>segment.
       case entry_range segment of
         None \<Rightarrow> Inr valid
       | Some (first, last_id) \<Rightarrow>
           (case previous of
              Some p \<Rightarrow>
                if p + 1 > u64_max then Inl (InvalidObject ''oplog entry id overflow'')
                else if first \<noteq> p + 1 then Inr valid
                else valid_prefix d (Some last_id) rest (valid + 1)
            | None \<Rightarrow>
                if first \<noteq> 1 then Inr valid
                else valid_prefix d (Some last_id) rest (valid + 1)))"

fun count_entries :: "'t disk \<Rightarrow> SegmentDescriptor list \<Rightarrow> nat \<Rightarrow> nat outcome" where
  "count_entries d [] count = Inr count"
| "count_entries d (descriptor # rest) count =
     and_then (open_container d (sd_path descriptor)) (\<lambda>segment.
       if count + pk_entry_count segment > u64_max then Inl (InvalidObject ''oplog entry count overflow'')
       else count_entries d rest (count + pk_entry_count segment))"

record DiscardedSuffix =
  ds_segments :: nat
  ds_entries :: nat

definition invalid_suffix :: "Manifest \<Rightarrow> 't disk \<Rightarrow> DiscardedSuffix outcome" where
  "invalid_suffix m d =
     and_then (open_container d (mf_base m)) (\<lambda>base.
     and_then (validate_first_entry_id base) (\<lambda>_.
     and_then (valid_prefix d (map_option snd (entry_range base)) (mf_segments m) 0) (\<lambda>valid.
     and_then (count_entries d (drop valid (mf_segments m)) 0) (\<lambda>entries.
       Inr \<lparr>ds_segments = length (mf_segments m) - valid, ds_entries = entries\<rparr>))))"

text \<open>
  \<^verbatim>\<open>PackedOpLog::ensure_current\<close> and \<^verbatim>\<open>validate_current\<close>: the containers that do not open are salvaged, and
  the manifest is published anew when any was. \<open>salvage\<close> stands for \<^verbatim>\<open>recover_truncated_latest\<close>, which works on
  the bytes of a damaged container and says whether it rebuilt one; the recovery report it leaves beside the
  container is not modelled.
\<close>

type_synonym 't salvager = "string list \<Rightarrow> 't disk \<Rightarrow> 't disk \<times> bool outcome"

definition ensure_current :: "'t salvager \<Rightarrow> string list \<Rightarrow> 't disk \<Rightarrow> 't disk \<times> unit outcome" where
  "ensure_current salvage path d =
     (if dk_files d path = None then (d, Inr ())
      else case pk_open d path of
        Inr _ \<Rightarrow> (d, Inr ())
      | Inl err \<Rightarrow>
          (case salvage path d of
             (d', Inl e) \<Rightarrow> (d', Inl e)
           | (d', Inr rebuilt) \<Rightarrow>
               if \<not> rebuilt then (d', Inl err)
               else (d', and_then (pk_open d' path) (\<lambda>_. Inr ()))))"

fun salvage_loop :: "'t salvager \<Rightarrow> string list \<Rightarrow> bool \<Rightarrow> 't disk \<Rightarrow> 't disk \<times> bool outcome" where
  "salvage_loop salvage [] salvaged d = (d, Inr salvaged)"
| "salvage_loop salvage (relative # rest) salvaged d =
     (case resolve_relative relative of Inl e \<Rightarrow> (d, Inl e)
      | Inr path \<Rightarrow>
          (case pk_open d path of
             Inr _ \<Rightarrow> salvage_loop salvage rest salvaged d
           | Inl _ \<Rightarrow>
               (case ensure_current salvage path d of
                  (d', Inl e) \<Rightarrow> (d', Inl e)
                | (d', Inr _) \<Rightarrow> salvage_loop salvage rest True d')))"

definition validate_current :: "'t salvager \<Rightarrow> sweep_env \<Rightarrow> 't disk \<Rightarrow> 't disk \<times> unit outcome" where
  "validate_current salvage env d =
     (case dk_manifest d of
        None \<Rightarrow> ensure_current salvage [OPLOG_BIN] d
      | Some bytes \<Rightarrow>
          (case parse_manifest bytes of Inl e \<Rightarrow> (d, Inl e)
           | Inr manifest \<Rightarrow>
          (case salvage_loop salvage (container_paths manifest) False d of
             (d1, Inl e) \<Rightarrow> (d1, Inl e)
           | (d1, Inr salvaged) \<Rightarrow>
          if \<not> salvaged then (d1, Inr ())
          else (case invalid_suffix manifest d1 of Inl e \<Rightarrow> (d1, Inl e)
           | Inr discarded \<Rightarrow>
          if ds_segments discarded > 0
          then (d1, Inl (InvalidObject ''oplog recovery would discard later segments''))
          else if mf_generation manifest + 1 > u64_max
          then (d1, Inl (InvalidObject ''oplog manifest generation overflow''))
          else (case reconcile_manifest_metadata d1 (manifest\<lparr>mf_generation := mf_generation manifest + 1\<rparr>) of
             Inl e \<Rightarrow> (d1, Inl e)
           | Inr manifest' \<Rightarrow>
          (case encode_manifest manifest' of Inl e \<Rightarrow> (d1, Inl e)
           | Inr bs \<Rightarrow> (sweep_unlisted_containers env manifest' (write_manifest d1 bs), Inr ())))))))"

section \<open>Framing\<close>

text \<open>
  \<^verbatim>\<open>is_healthy\<close> probes headers and trailers only. The containers of the model always have both, so what is
  left is that every listed file is there.
\<close>

fun healthy_loop :: "'t disk \<Rightarrow> string list \<Rightarrow> bool outcome" where
  "healthy_loop d [] = Inr True"
| "healthy_loop d (relative # rest) =
     and_then (resolve_relative relative) (\<lambda>path.
       if dk_files d path = None then Inl (IoError ''no such file'') else healthy_loop d rest)"

definition sg_is_healthy :: "'t disk \<Rightarrow> bool outcome" where
  "sg_is_healthy d =
     (case dk_manifest d of
        Some bytes \<Rightarrow> and_then (parse_manifest bytes) (\<lambda>m. healthy_loop d (container_paths m))
      | None \<Rightarrow> if dk_files d [OPLOG_BIN] = None then Inl (IoError ''no such file'') else Inr True)"

text \<open>The stamp of an open container file is the file itself: it matches while its path still holds it.\<close>

definition file_is :: "'t disk \<Rightarrow> string \<Rightarrow> 't PackedOpLogIndex \<Rightarrow> bool" where
  "file_is d relative ix =
     (case resolve_relative relative of Inl _ \<Rightarrow> False | Inr p \<Rightarrow> dk_files d p = Some ix)"

definition sg_matches_file_on_disk :: "'t disk \<Rightarrow> 't SegmentedOpLogIndex \<Rightarrow> bool" where
  "sg_matches_file_on_disk d s =
     (case sg_manifest_bytes s of
        Some expected \<Rightarrow>
          dk_manifest d = Some expected
          \<and> list_all (\<lambda>(r, ix). file_is d r ix) (zip (container_paths (sg_manifest s)) (sg_base s # sg_segments s))
      | None \<Rightarrow> dk_manifest d = None \<and> file_is d OPLOG_BIN (sg_base s))"

end
