(* ===== verification/Oplog.thy ===== *)
theory Oplog
  imports Oplog_Append
begin

text \<open>
  The operation log, \<^verbatim>\<open>src/crates/oplog/src/oplog/oplog_core.rs\<close>: recording batches, exactly-once and
  conditional commits, undo marks, coalescing, and the queries over batches.

  A handle has a cached view, which another process may have made stale, and the view a reconstructible
  commit is materializing. The operations run under the write lock of the log, one after another; the
  materialization that the source hands to a thread with the lock runs before any other writer.
\<close>

section \<open>The handle\<close>

record 't OpLog =
  ol_disk :: "'t disk"
  ol_cached :: "'t SegmentedOpLogIndex option"
  ol_pending :: "'t SegmentedOpLogIndex outcome option"
  ol_actor :: Principal

text \<open>What an operation gets from outside: the clock, the file system's ages, the salvage of damaged containers.\<close>

record 't call_env =
  ce_now :: 't
  ce_sweep :: sweep_env
  ce_salvage :: "'t salvager"

type_synonym ('t, 'a) call = "'t OpLog \<times> 'a outcome"

definition oplog_init :: "'t OpLog \<Rightarrow> 't OpLog" where
  "oplog_init st =
     (if sg_exists (ol_disk st) then st else st\<lparr>ol_disk := write_container (ol_disk st) [OPLOG_BIN] [] 0\<rparr>)"

definition finish_pending_reconstructible_view :: "'t OpLog \<Rightarrow> ('t, unit) call" where
  "finish_pending_reconstructible_view st =
     (case ol_pending st of
        None \<Rightarrow> (st, Inr ())
      | Some (Inr index) \<Rightarrow> (st\<lparr>ol_pending := None, ol_cached := Some index\<rparr>, Inr ())
      | Some (Inl e) \<Rightarrow> (st\<lparr>ol_pending := None, ol_cached := None\<rparr>, Inl e))"

text \<open>\<^verbatim>\<open>let (st, x) = call?\<close>: the state goes on, an error returns with the state reached.\<close>

definition call_then :: "('t, 'a) call \<Rightarrow> ('t OpLog \<Rightarrow> 'a \<Rightarrow> ('t, 'b) call) \<Rightarrow> ('t, 'b) call" where
  "call_then c k = (case c of (st, Inl e) \<Rightarrow> (st, Inl e) | (st, Inr x) \<Rightarrow> k st x)"

lemma call_then_simps [simp]:
  "call_then (st, Inl e) k = (st, Inl e)" "call_then (st, Inr x) k = k st x"
  by (simp_all add: call_then_def)

definition on_disk_call :: "'t OpLog \<Rightarrow> 't disk \<times> 'a outcome \<Rightarrow> ('t, 'a) call" where
  "on_disk_call st r = (st\<lparr>ol_disk := fst r\<rparr>, snd r)"

definition write_lock :: "'t OpLog \<Rightarrow> ('t, unit) call" where
  "write_lock st = finish_pending_reconstructible_view st"

definition build_entries ::
  "Principal \<Rightarrow> OpRecord list \<Rightarrow> nat \<Rightarrow> 't \<Rightarrow> string option \<Rightarrow> 't OpEntry list" where
  "build_entries actor operations start_id timestamp scope =
     map (\<lambda>(index, operation).
       \<lparr>entry_id = start_id + index, entry_timestamp = timestamp, operation = operation, undone = False,
        batch_id = start_id, batch_index = index mod 2 ^ 32, entry_scope = scope, entry_actor = actor,
        operation_id = None\<rparr>) (enumerate 0 operations)"

section \<open>Opening the view\<close>

definition open_index_for_write :: "'t call_env \<Rightarrow> 't OpLog \<Rightarrow> ('t, 't SegmentedOpLogIndex) call" where
  "open_index_for_write env st =
     (let d = ol_disk st
      in if sg_exists d
         then case (sg_read_head_id d, ol_cached st) of
                (Inr disk_head, Some index) \<Rightarrow>
                  if sg_head_id index = disk_head \<and> sg_matches_file_on_disk d index then (st, Inr index)
                  else call_then (on_disk_call st (validate_current (ce_salvage env) (ce_sweep env) d))
                         (\<lambda>st _. (st, sg_open (ol_disk st)))
              | _ \<Rightarrow>
                  call_then (on_disk_call st (validate_current (ce_salvage env) (ce_sweep env) d))
                    (\<lambda>st _. (st, sg_open (ol_disk st)))
         else let st' = st\<lparr>ol_disk := write_container d [OPLOG_BIN] [] 0\<rparr>
              in (st', sg_open (ol_disk st')))"

fun is_format_error :: "HeddleError \<Rightarrow> bool" where
  "is_format_error (StorageFormatTooOld _ _ _) = True"
| "is_format_error (StorageFormatTooNew _ _ _) = True"
| "is_format_error _ = False"

definition ensure_current_format :: "'t call_env \<Rightarrow> 't OpLog \<Rightarrow> ('t, unit) call" where
  "ensure_current_format env st =
     (let d = ol_disk st
      in if \<not> sg_exists d then (st, Inr ())
         else let repair =
                (\<lambda>_. call_then (write_lock st) (\<lambda>st _.
                   if sg_is_healthy (ol_disk st) = Inr True then (st, Inr ())
                   else on_disk_call st (validate_current (ce_salvage env) (ce_sweep env) (ol_disk st))))
              in case sg_is_healthy d of
                   Inr healthy \<Rightarrow> if healthy then (st, Inr ()) else repair ()
                 | Inl e \<Rightarrow> if is_format_error e then (st, Inl e) else repair ())"

definition load_fresh_for_write :: "'t OpLog \<Rightarrow> 't OpEntry list outcome" where
  "load_fresh_for_write st =
     (if sg_exists (ol_disk st) then and_then (sg_open (ol_disk st)) materialize_entries else Inr [])"

definition open_index_for_read :: "'t call_env \<Rightarrow> 't OpLog \<Rightarrow> ('t, 't SegmentedOpLogIndex) call" where
  "open_index_for_read env st =
     (case sg_open (ol_disk st) of
        Inr index \<Rightarrow> (st, Inr index)
      | Inl e \<Rightarrow>
          if is_format_error e then (st, Inl e)
          else call_then (write_lock st) (\<lambda>st _.
            case sg_open (ol_disk st) of
              Inr index \<Rightarrow> (st, Inr index)
            | Inl _ \<Rightarrow>
                call_then (on_disk_call st (validate_current (ce_salvage env) (ce_sweep env) (ol_disk st)))
                  (\<lambda>st _. (st, sg_open (ol_disk st)))))"

definition reload_cached :: "'t call_env \<Rightarrow> 't OpLog \<Rightarrow> ('t, 't SegmentedOpLogIndex) call" where
  "reload_cached env st =
     call_then (if sg_exists (ol_disk st) then open_index_for_read env st else (st, Inr sg_empty))
       (\<lambda>st index. (st\<lparr>ol_cached := Some index\<rparr>, Inr index))"

definition load_cached :: "'t call_env \<Rightarrow> 't OpLog \<Rightarrow> ('t, 't SegmentedOpLogIndex) call" where
  "load_cached env st =
     call_then (finish_pending_reconstructible_view st) (\<lambda>st _.
       case ol_cached st of
         Some index \<Rightarrow> (st, Inr index)
       | None \<Rightarrow>
           call_then (ensure_current_format env st) (\<lambda>st _.
             case ol_cached st of
               Some index \<Rightarrow> (st, Inr index)
             | None \<Rightarrow> reload_cached env st))"

definition refresh_cached :: "'t call_env \<Rightarrow> 't OpLog \<Rightarrow> ('t, 't SegmentedOpLogIndex) call" where
  "refresh_cached env st =
     call_then (finish_pending_reconstructible_view st) (\<lambda>st _.
     call_then (ensure_current_format env st) (\<lambda>st _. reload_cached env st))"

definition oplog_head_id :: "'t call_env \<Rightarrow> 't OpLog \<Rightarrow> ('t, nat) call" where
  "oplog_head_id env st =
     call_then (finish_pending_reconstructible_view st) (\<lambda>st _.
     call_then (ensure_current_format env st) (\<lambda>st _.
       case sg_read_head_id (ol_disk st) of
         Inr i \<Rightarrow> (st, Inr i)
       | Inl e \<Rightarrow> if \<not> sg_exists (ol_disk st) then (st, Inr 0) else (st, Inl e)))"

section \<open>Recording\<close>

text \<open>The common end of the recording operations: append, remember the new view, return the ids.\<close>

definition append_built ::
  "'t call_env \<Rightarrow> 't OpLog \<Rightarrow> 't SegmentedOpLogIndex \<Rightarrow> 't OpEntry list \<Rightarrow> 'a \<Rightarrow> ('t, 'a) call" where
  "append_built env st index entries result =
     call_then (on_disk_call st (append_entries (ce_sweep env) (ol_disk st) index entries))
       (\<lambda>st updated. (st\<lparr>ol_cached := Some updated\<rparr>, Inr result))"

definition new_entries ::
  "'t call_env \<Rightarrow> 't OpLog \<Rightarrow> 't SegmentedOpLogIndex \<Rightarrow> OpRecord list \<Rightarrow> string option \<Rightarrow> 't OpEntry list" where
  "new_entries env st index operations scope =
     build_entries (ol_actor st) operations (sg_head_id index + 1) (ce_now env) scope"

definition record_batch_scoped ::
  "'t call_env \<Rightarrow> 't OpLog \<Rightarrow> OpRecord list \<Rightarrow> string option \<Rightarrow> ('t, nat list) call" where
  "record_batch_scoped env st operations scope =
     (if operations = [] then (st, Inr [])
      else call_then (write_lock st) (\<lambda>st _.
           call_then (open_index_for_write env st) (\<lambda>st index.
             let entries = new_entries env st index operations scope
             in append_built env st index entries (map entry_id entries))))"

fun build_groups ::
  "Principal \<Rightarrow> 't \<Rightarrow> nat \<Rightarrow> (OpRecord list \<times> string option) list \<Rightarrow> 't OpEntry list \<times> nat list list" where
  "build_groups actor now next_id [] = ([], [])"
| "build_groups actor now next_id ((operations, scope) # groups) =
     (if operations = []
      then let (all_entries, result) = build_groups actor now next_id groups in (all_entries, [] # result)
      else let entries = build_entries actor operations next_id now scope;
               (all_entries, result) = build_groups actor now (next_id + length entries) groups
           in (entries @ all_entries, map entry_id entries # result))"

definition record_batches_scoped ::
  "'t call_env \<Rightarrow> 't OpLog \<Rightarrow> (OpRecord list \<times> string option) list \<Rightarrow> ('t, nat list list) call" where
  "record_batches_scoped env st groups =
     (if list_all (\<lambda>(ops, _). ops = []) groups then (st, Inr (map (\<lambda>_. []) groups))
      else call_then (write_lock st) (\<lambda>st _.
           call_then (open_index_for_write env st) (\<lambda>st index.
             let (all_entries, result) = build_groups (ol_actor st) (ce_now env) (sg_head_id index + 1) groups
             in append_built env st index all_entries result)))"

definition record_batch_scoped_if_no_transaction ::
  "'t call_env \<Rightarrow> 't OpLog \<Rightarrow> OpRecord list \<Rightarrow> string option \<Rightarrow> string \<Rightarrow> nat \<Rightarrow> ('t, nat list option) call" where
  "record_batch_scoped_if_no_transaction env st operations scope transaction_id recent_window =
     (if operations = [] then (st, Inr (Some []))
      else call_then (write_lock st) (\<lambda>st _.
           call_then (open_index_for_write env st) (\<lambda>st index.
           call_then (st, sg_collect_batches_scoped index recent_window (\<lambda>_. True) scope) (\<lambda>st recent.
             if list_ex (\<lambda>batch. list_ex (\<lambda>e. is_transaction_commit_for (operation e) transaction_id) (opb_entries batch)) recent
             then (st, Inr None)
             else let entries = new_entries env st index operations scope
                  in append_built env st index entries (Some (map entry_id entries))))))"

definition record_batch_exactly_once ::
  "'t call_env \<Rightarrow> 't OpLog \<Rightarrow> OpRecord list \<Rightarrow> string option \<Rightarrow> string \<Rightarrow> ('t, nat list option) call" where
  "record_batch_exactly_once env st operations scope transaction_id =
     (if operations = [] then (st, Inr (Some []))
      else call_then (write_lock st) (\<lambda>st _.
           call_then (open_index_for_write env st) (\<lambda>st index.
           call_then (st, sg_transaction_commit index transaction_id) (\<lambda>st commit.
             if commit \<noteq> None then (st, Inr None)
             else let entries = new_entries env st index operations scope
                  in append_built env st index entries (Some (map entry_id entries))))))"

datatype ConditionalCommitOutcome =
  Committed "nat list"
| AlreadyCommitted "OpRecord list"
| IsolationConflict IsolationKey nat nat

text \<open>The first entry, in log order, that touches one of the keys, with the least such key.\<close>

fun isolation_conflict :: "IsolationPrecondition \<Rightarrow> 't OpEntry list \<Rightarrow> (IsolationKey \<times> nat) option" where
  "isolation_conflict precondition [] = None"
| "isolation_conflict precondition (e # rest) =
     (let touched = isolation_keys_for_record (operation e) (entry_scope e) \<inter> isolation_keys precondition
      in if touched \<noteq> {} then Some (Min touched, entry_id e) else isolation_conflict precondition rest)"

definition check_isolation ::
  "IsolationPrecondition \<Rightarrow> 't SegmentedOpLogIndex \<Rightarrow> (IsolationKey \<times> nat) option outcome" where
  "check_isolation precondition index =
     (if isolation_keys precondition \<noteq> {} \<and> sg_head_id index \<noteq> since_head_id precondition
      then and_then (sg_entries_after index (since_head_id precondition))
             (\<lambda>entries. Inr (isolation_conflict precondition entries))
      else Inr None)"

definition record_batch_exactly_once_if_unchanged ::
  "'t call_env \<Rightarrow> 't OpLog \<Rightarrow> OpRecord list \<Rightarrow> string option \<Rightarrow> string \<Rightarrow> IsolationPrecondition
   \<Rightarrow> ('t, ConditionalCommitOutcome) call" where
  "record_batch_exactly_once_if_unchanged env st operations scope transaction_id precondition =
     (if operations = [] then (st, Inr (Committed []))
      else call_then (write_lock st) (\<lambda>st _.
           call_then (open_index_for_write env st) (\<lambda>st index.
           call_then (st, sg_transaction_commit index transaction_id) (\<lambda>st commit.
             if commit \<noteq> None
             then call_then (st, sg_committed_batch_records index transaction_id)
                    (\<lambda>st committed. (st, Inr (AlreadyCommitted committed)))
             else call_then (st, check_isolation precondition index) (\<lambda>st conflict.
               case conflict of
                 Some (key, i) \<Rightarrow> (st, Inr (IsolationConflict key (since_head_id precondition) i))
               | None \<Rightarrow>
                   let entries = new_entries env st index operations scope
                   in append_built env st index entries (Committed (map entry_id entries)))))))"

datatype 'a ReconstructibleCommitOutcome =
  RCommitted 'a nat
| RAlreadyCommitted "OpRecord list"
| RIsolationConflict IsolationKey nat nat

text \<open>\<open>install\<close> makes the independently durable artifact; the log entry that follows can be rebuilt from it.\<close>

definition commit_reconstructible_batch_if_unchanged ::
  "'t call_env \<Rightarrow> 't OpLog \<Rightarrow> OpRecord list \<Rightarrow> string option \<Rightarrow> string \<Rightarrow> IsolationPrecondition
   \<Rightarrow> (nat \<Rightarrow> OpRecord list \<Rightarrow> 'a outcome) \<Rightarrow> ('t, 'a ReconstructibleCommitOutcome) call" where
  "commit_reconstructible_batch_if_unchanged env st operations scope transaction_id precondition install =
     call_then (write_lock st) (\<lambda>st _.
     call_then (open_index_for_write env st) (\<lambda>st index.
     call_then (st, sg_transaction_commit index transaction_id) (\<lambda>st commit.
       if commit \<noteq> None
       then call_then (st, sg_committed_batch_records index transaction_id)
              (\<lambda>st committed. (st, Inr (RAlreadyCommitted committed)))
       else call_then (st, check_isolation precondition index) (\<lambda>st conflict.
         case conflict of
           Some (key, i) \<Rightarrow> (st, Inr (RIsolationConflict key (since_head_id precondition) i))
         | None \<Rightarrow>
             let op_count = word_of_nat (length operations);
                 operations' = operations @ [TransactionCommit transaction_id op_count]
             in call_then (st, install (sg_head_id index) operations') (\<lambda>st artifact.
                  let entries = new_entries env st index operations' scope;
                      committed_tip = (if entries = [] then sg_head_id index else entry_id (last entries));
                      (d, view) = append_entries (ce_sweep env) (ol_disk st) index entries
                  in (st\<lparr>ol_disk := d, ol_pending := Some view, ol_cached := None\<rparr>,
                      Inr (RCommitted artifact committed_tip)))))))"

section \<open>Undo marks and coalescing\<close>

definition set_undone :: "'t OpEntry list \<Rightarrow> nat \<Rightarrow> bool \<Rightarrow> 't OpEntry list" where
  "set_undone entries batch flag =
     map (\<lambda>e. if batch_id e = batch \<or> (batch_id e = 0 \<and> entry_id e = batch) then e\<lparr>undone := flag\<rparr> else e) entries"

definition update_batch_undone_state ::
  "'t call_env \<Rightarrow> 't OpLog \<Rightarrow> 't OpBatch \<Rightarrow> bool \<Rightarrow> ('t, 't OpBatch) call" where
  "update_batch_undone_state env st batch flag =
     call_then (write_lock st) (\<lambda>st _.
     call_then (st, load_fresh_for_write st) (\<lambda>st entries.
     call_then (st, sg_open (ol_disk st)) (\<lambda>st current.
     call_then (on_disk_call st
         (replace_entries (ce_sweep env) (ol_disk st) current (set_undone entries (opb_id batch) flag))) (\<lambda>st updated.
       (st\<lparr>ol_cached := Some updated\<rparr>,
        Inr \<lparr>opb_id = opb_id batch, opb_entries = map (\<lambda>e. e\<lparr>undone := flag\<rparr>) (opb_entries batch)\<rparr>)))))"

definition mark_batch_undone :: "'t call_env \<Rightarrow> 't OpLog \<Rightarrow> 't OpBatch \<Rightarrow> ('t, 't OpBatch) call" where
  "mark_batch_undone env st batch = update_batch_undone_state env st batch True"

definition mark_batch_redone :: "'t call_env \<Rightarrow> 't OpLog \<Rightarrow> 't OpBatch \<Rightarrow> ('t, 't OpBatch) call" where
  "mark_batch_redone env st batch = update_batch_undone_state env st batch False"

section \<open>Queries\<close>

definition collect_batches_scoped ::
  "'t call_env \<Rightarrow> 't OpLog \<Rightarrow> nat \<Rightarrow> ('t OpBatch \<Rightarrow> bool) \<Rightarrow> string option \<Rightarrow> ('t, 't OpBatch list) call" where
  "collect_batches_scoped env st count predicate scope =
     call_then (load_cached env st) (\<lambda>st index. (st, sg_collect_batches_scoped index count predicate scope))"

definition recent_batches_scoped ::
  "'t call_env \<Rightarrow> 't OpLog \<Rightarrow> nat \<Rightarrow> string option \<Rightarrow> ('t, 't OpBatch list) call" where
  "recent_batches_scoped env st count scope = collect_batches_scoped env st count (\<lambda>_. True) scope"

definition recent_batches_after_scoped ::
  "'t call_env \<Rightarrow> 't OpLog \<Rightarrow> nat \<Rightarrow> nat \<Rightarrow> string option \<Rightarrow> ('t, 't OpBatch list) call" where
  "recent_batches_after_scoped env st since_id count scope =
     call_then (refresh_cached env st)
       (\<lambda>st index. (st, sg_collect_batches_after_scoped index since_id count (\<lambda>_. True) scope))"

definition recent_user_batches_scoped ::
  "'t call_env \<Rightarrow> 't OpLog \<Rightarrow> nat \<Rightarrow> string option \<Rightarrow> ('t, 't OpBatch list) call" where
  "recent_user_batches_scoped env st count scope =
     collect_batches_scoped env st count (\<lambda>batch. \<not> is_transaction_marker_only batch) scope"

definition undoable :: "'t OpBatch \<Rightarrow> bool" where
  "undoable batch \<longleftrightarrow> list_ex (\<lambda>e. \<not> undone e \<and> \<not> is_transaction_commit (operation e)) (opb_entries batch)"

definition redoable :: "'t OpBatch \<Rightarrow> bool" where
  "redoable batch \<longleftrightarrow> list_ex (\<lambda>e. undone e \<and> \<not> is_transaction_commit (operation e)) (opb_entries batch)"

definition undo_batches_scoped ::
  "'t call_env \<Rightarrow> 't OpLog \<Rightarrow> nat \<Rightarrow> string option \<Rightarrow> ('t, 't OpBatch list) call" where
  "undo_batches_scoped env st count scope = collect_batches_scoped env st count undoable scope"

definition redo_batches_scoped ::
  "'t call_env \<Rightarrow> 't OpLog \<Rightarrow> nat \<Rightarrow> string option \<Rightarrow> ('t, 't OpBatch list) call" where
  "redo_batches_scoped env st count scope = collect_batches_scoped env st count redoable scope"

definition oplog_last :: "'t call_env \<Rightarrow> 't OpLog \<Rightarrow> ('t, 't OpEntry option) call" where
  "oplog_last env st = call_then (load_cached env st) (\<lambda>st index. (st, Inr (sg_last_entry index)))"

definition oplog_recent :: "'t call_env \<Rightarrow> 't OpLog \<Rightarrow> nat \<Rightarrow> ('t, 't OpEntry list) call" where
  "oplog_recent env st count =
     call_then (load_cached env st) (\<lambda>st index. (st, Inr (sg_recent_entries index count)))"

definition oplog_committed_batch_records :: "'t call_env \<Rightarrow> 't OpLog \<Rightarrow> string \<Rightarrow> ('t, OpRecord list) call" where
  "oplog_committed_batch_records env st transaction_id =
     call_then (refresh_cached env st) (\<lambda>st index. (st, sg_committed_batch_records index transaction_id))"

definition oplog_committed_transaction_ids ::
  "'t call_env \<Rightarrow> 't OpLog \<Rightarrow> string list \<Rightarrow> ('t, string set) call" where
  "oplog_committed_transaction_ids env st candidates =
     call_then (refresh_cached env st) (\<lambda>st index. (st, sg_committed_transaction_ids index candidates))"

definition oplog_committed_batch :: "'t call_env \<Rightarrow> 't OpLog \<Rightarrow> string \<Rightarrow> ('t, 't OpBatch option) call" where
  "oplog_committed_batch env st transaction_id =
     call_then (refresh_cached env st) (\<lambda>st index. (st, sg_committed_batch index transaction_id))"

text \<open>The rewrite of \<^verbatim>\<open>coalesce_batches\<close>: the entries of both batches, by id, become one batch.\<close>

definition matching_indices :: "'t OpEntry list \<Rightarrow> nat \<Rightarrow> nat \<Rightarrow> nat list" where
  "matching_indices entries primary secondary =
     sort_key (\<lambda>i. entry_id (entries ! i))
       (map fst (filter (\<lambda>(_, e). effective_batch_id e = primary \<or> effective_batch_id e = secondary)
          (enumerate 0 entries)))"

fun rebatch :: "nat \<Rightarrow> nat \<Rightarrow> nat list \<Rightarrow> 't OpEntry list \<Rightarrow> 't OpEntry list" where
  "rebatch primary n [] entries = entries"
| "rebatch primary n (i # rest) entries =
     rebatch primary (n + 1) rest
       (entries[i := (entries ! i)\<lparr>batch_id := primary, batch_index := n mod 2 ^ 32\<rparr>])"

definition coalesce_batches :: "'t call_env \<Rightarrow> 't OpLog \<Rightarrow> nat \<Rightarrow> nat \<Rightarrow> ('t, 't OpBatch) call" where
  "coalesce_batches env st primary secondary =
     (if primary = secondary
      then call_then (collect_batches_scoped env st 1 (\<lambda>batch. opb_id batch = primary) None)
             (\<lambda>st batches. (st, if batches = [] then Inl (Config ''oplog batch not found'') else Inr (last batches)))
      else call_then (write_lock st) (\<lambda>st _.
           call_then (st, load_fresh_for_write st) (\<lambda>st entries.
             let matching = matching_indices entries primary secondary
             in if \<not> list_ex (\<lambda>e. effective_batch_id e = primary) entries
                   \<or> \<not> list_ex (\<lambda>e. effective_batch_id e = secondary) entries
                then (st, Inl (Config ''cannot coalesce missing oplog batch(es)''))
                else let entries' = rebatch primary 0 matching entries
                     in call_then (st, sg_open (ol_disk st)) (\<lambda>st current.
                        call_then (on_disk_call st (replace_entries (ce_sweep env) (ol_disk st) current entries'))
                          (\<lambda>st updated.
                             (st\<lparr>ol_cached := Some updated\<rparr>,
                              Inr \<lparr>opb_id = primary, opb_entries = map (\<lambda>i. entries' ! i) matching\<rparr>))))))"

end
