(* ===== verification/Oplog_Index_Correct.thy ===== *)
theory Oplog_Index_Correct
  imports Oplog_Index
begin

text \<open>
  Correctness of one oplog container: a written container passes its own validation, the transaction
  directory answers like a scan of the whole stream for the first commit, and reading batches through the
  directory gives the batches of the stream, newest first.
\<close>

section \<open>The transaction directory\<close>

text \<open>The reference: the first commit entry of a transaction in the stream.\<close>

definition first_commit :: "'t OpEntry list \<Rightarrow> string \<Rightarrow> (nat \<times> nat) option" where
  "first_commit es key =
     map_option (\<lambda>e. (entry_id e, effective_batch_id e)) (find (\<lambda>e. commit_id (operation e) = Some key) es)"

definition tx_entry_ok :: "string \<Rightarrow> TxDirRecord \<Rightarrow> string \<times> nat \<times> nat \<Rightarrow> bool" where
  "tx_entry_ok kb r = (\<lambda>(key, c, b). tdr_key_offset r + tdr_key_len r \<le> length kb
     \<and> subslice kb (tdr_key_offset r) (tdr_key_offset r + tdr_key_len r) = key
     \<and> tdr_commit_entry_id r = c \<and> tdr_batch_id r = b)"

lemma tx_entry_ok_append: "tx_entry_ok kb r t \<Longrightarrow> tx_entry_ok (kb @ x) r t"
  by (auto simp: tx_entry_ok_def subslice_def)

lemma layout_txs_ok:
  assumes "list_all2 (tx_entry_ok kb) dir done" "layout_txs recs kb dir = (kb', dir')"
  shows "list_all2 (tx_entry_ok kb') dir' (done @ recs)"
  using assms
proof (induction recs kb dir arbitrary: "done" rule: layout_txs.induct)
  case (2 key c b rest kb dir)
  let ?r = "\<lparr>tdr_key_offset = length kb, tdr_key_len = length key, tdr_commit_entry_id = c, tdr_batch_id = b\<rparr>"
  have "list_all2 (tx_entry_ok (kb @ key)) dir done"
    using "2.prems"(1) tx_entry_ok_append by (rule list_all2_mono)
  then have "list_all2 (tx_entry_ok (kb @ key)) (dir @ [?r]) (done @ [(key, c, b)])"
    by (intro list_all2_appendI) (simp_all add: tx_entry_ok_def subslice_def)
  then show ?case using "2.IH" "2.prems"(2) by force
qed simp

lemma build_txs_ok:
  assumes "build_index_sections es = (bo, bd, kb, dir)"
  shows "list_all2 (tx_entry_ok kb) dir (tx_records es)"
proof -
  have "layout_txs (tx_records es) [] [] = (kb, dir)"
    using assms by (simp add: build_index_sections_def split: prod.splits)
  then show ?thesis using layout_txs_ok [of "[]" "[]" "[]"] by simp
qed

lemma tx_record_key_ok:
  "tx_entry_ok kb r (key, c, b) \<Longrightarrow> length kb \<le> usize_max \<Longrightarrow> tx_record_key kb r = Inr key"
  by (auto simp: tx_entry_ok_def tx_record_key_def checked_add_def)

lemma tx_search_ok:
  assumes "list_all2 (tx_entry_ok (pk_tx_key_bytes ix)) (pk_tx_dir ix) recs" "length (pk_tx_key_bytes ix) \<le> usize_max"
    and "sorted_wrt (<) (map fst recs)" "left \<le> right" "right \<le> length recs"
    and "\<And>k. k < left \<Longrightarrow> fst (recs ! k) < needle" "\<And>k. right \<le> k \<Longrightarrow> k < length recs \<Longrightarrow> needle < fst (recs ! k)"
  shows "tx_search ix needle left right = Inr (map_of recs needle)"
  using assms
proof (induction ix needle left right rule: tx_search.induct)
  case (1 ix needle left right)
  show ?case
  proof (cases "left < right")
    case False
    then have "needle \<notin> fst ` set recs"
      using "1.prems"(4,6,7) by (auto simp: in_set_conv_nth) (metis fst_conv le_antisym less_irrefl not_le)
    then have "map_of recs needle = None" by (simp add: map_of_eq_None_iff)
    then show ?thesis using False by (simp add: tx_search.simps)
  next
    case True
    define mid where "mid = left + (right - left) div 2"
    have mid: "left \<le> mid" "mid < right" "mid < length recs" using True "1.prems"(5) by (auto simp: mid_def)
    obtain key c b where r: "recs ! mid = (key, c, b)" by (metis prod_cases3)
    have len: "length (pk_tx_dir ix) = length recs" using "1.prems"(1) by (rule list_all2_lengthD)
    then have ok: "tx_entry_ok (pk_tx_key_bytes ix) (pk_tx_dir ix ! mid) (key, c, b)"
      using "1.prems"(1) mid r by (metis list_all2_nthD2)
    have key: "tx_record_key (pk_tx_key_bytes ix) (pk_tx_dir ix ! mid) = Inr key"
      by (rule tx_record_key_ok [OF ok "1.prems"(2)])
    have mono: "fst (recs ! i) < fst (recs ! j)" if "i < j" "j < length recs" for i j
      using "1.prems"(3) that by (auto simp: sorted_wrt_map sorted_wrt_iff_nth_less)
    note step = tx_search.simps [of ix needle left right, folded mid_def]
    consider "key < needle" | "needle < key" | "key = needle" by (metis linorder_neqE)
    then show ?thesis
    proof cases
      case 1
      have "fst (recs ! k) < needle" if "k < mid + 1" for k
        using that mono [of k mid] mid(3) r 1 by (cases "k = mid") auto
      then have "tx_search ix needle (mid + 1) right = Inr (map_of recs needle)"
        using "1.prems" mid 1 "1.IH"(1) [OF True mid_def key 1] by auto
      then show ?thesis using True key 1 by (simp add: step)
    next
      case 2
      have "needle < fst (recs ! k)" if "mid \<le> k" "k < length recs" for k
        using that mono [of mid k] r 2 by (cases "k = mid") auto
      then have "tx_search ix needle left mid = Inr (map_of recs needle)"
        using "1.prems" mid 2 "1.IH"(2) [OF True mid_def key _ 2] by auto
      moreover have "\<not> key < needle" using 2 by simp
      ultimately show ?thesis using True key 2 by (simp add: step)
    next
      case 3
      have "distinct (map fst recs)" using "1.prems"(3) by (simp add: strict_sorted_iff)
      then have "map_of recs needle = Some (c, b)" using r mid(3) 3 by (metis map_of_is_SomeI nth_mem)
      then show ?thesis using True key 3 ok by (simp add: step tx_entry_ok_def)
    qed
  qed
qed

lemma find_None_map_filter:
  "key \<notin> set (List.map_filter f es) \<Longrightarrow> find (\<lambda>e. f e = Some key) es = None"
  by (force simp: find_None_iff List.map_filter_def)

lemma tx_first_zip: "length xs = length es \<Longrightarrow> tx_first (zip es xs) key = first_commit es key"
  unfolding tx_first_def first_commit_def by (induction es xs rule: list_induct2') auto

lemma map_of_tx_records: "length xs = length es \<Longrightarrow> map_of (tx_records (zip es xs)) key = first_commit es key"
proof -
  assume len: "length xs = length es"
  let ?ids = "set (List.map_filter (\<lambda>(e, _). commit_id (operation e)) (zip es xs))"
  have dom: "key \<in> ?ids \<longleftrightarrow> first_commit es key \<noteq> None"
    unfolding tx_first_zip [OF len, symmetric] tx_first_def
    by (force simp: find_None_iff List.map_filter_def)
  have "map_of (tx_records (zip es xs)) key = (if key \<in> ?ids then Some (the (tx_first (zip es xs) key)) else None)"
    unfolding tx_records_def by (auto simp: map_of_map_restrict)
  then show ?thesis using dom by (cases "first_commit es key") (auto simp: tx_first_zip [OF len])
qed

lemma encode_container_tx:
  "pk_tx_dir (encode_container es h) = snd (layout_txs (tx_records (zip es [0..<length es])) [] [])"
  "pk_tx_key_bytes (encode_container es h) = fst (layout_txs (tx_records (zip es [0..<length es])) [] [])"
  by (simp_all add: encode_container_def build_index_sections_def Let_def enumerate_eq_zip comp_def
      split_beta map_fst_zip [where xs = "[0..<length es]"])

lemma tx_records_sorted: "sorted_wrt (<) (map fst (tx_records es))"
  by (simp add: tx_records_def comp_def)

lemma transaction_commit_first:
  assumes "length (pk_tx_key_bytes (encode_container es h)) \<le> usize_max"
  shows "pk_transaction_commit (encode_container es h) key = Inr (first_commit es key)"
proof -
  let ?recs = "tx_records (zip es [0..<length es])"
  have "list_all2 (tx_entry_ok (pk_tx_key_bytes (encode_container es h))) (pk_tx_dir (encode_container es h)) ?recs"
    using layout_txs_ok [of "[]" "[]" "[]" ?recs] by (simp add: encode_container_tx)
  moreover from this have "length (pk_tx_dir (encode_container es h)) = length ?recs" by (rule list_all2_lengthD)
  ultimately show ?thesis
    using tx_search_ok [where recs = ?recs and left = 0 and right = "length ?recs" and needle = key
        and ix = "encode_container es h", OF _ assms tx_records_sorted] map_of_tx_records [of "[0..<length es]" es]
    by (simp add: pk_transaction_commit_def)
qed

section \<open>The batch directory\<close>

type_synonym 't placed = "'t OpEntry \<times> nat"

definition batch_entry_ok :: "nat list \<Rightarrow> BatchDirRecord \<Rightarrow> nat \<times> nat \<times> nat \<times> 't placed list \<Rightarrow> bool" where
  "batch_entry_ok bo r = (\<lambda>(b, newest, state, entries).
     bdr_first_offset_index r + bdr_entry_count r \<le> length bo
     \<and> subslice bo (bdr_first_offset_index r) (bdr_first_offset_index r + bdr_entry_count r) = map snd entries
     \<and> bdr_entry_count r = length entries \<and> bdr_batch_id r = b \<and> bdr_newest_entry_id r = newest
     \<and> bdr_scope_state r = state)"

lemma batch_entry_ok_append: "batch_entry_ok bo r t \<Longrightarrow> batch_entry_ok (bo @ x) r t"
  by (auto simp: batch_entry_ok_def subslice_def)

lemma layout_batches_ok:
  assumes "list_all2 (batch_entry_ok bo) bd done" "layout_batches recs bo bd = (bo', bd')"
  shows "list_all2 (batch_entry_ok bo') bd' (done @ recs)"
    and "bo' = bo @ concat (map (\<lambda>(_, _, _, entries). map snd entries) recs)"
    and "sum_list (map bdr_entry_count bd') = sum_list (map bdr_entry_count bd) + length bo' - length bo"
  using assms
proof (induction recs bo bd arbitrary: "done" rule: layout_batches.induct)
  case (2 b newest state entries rest bo bd)
  let ?r = "\<lparr>bdr_batch_id = b, bdr_newest_entry_id = newest, bdr_first_offset_index = length bo,
    bdr_entry_count = length entries, bdr_scope_state = state\<rparr>"
  have ok: "list_all2 (batch_entry_ok (bo @ map snd entries)) (bd @ [?r]) (done @ [(b, newest, state, entries)])"
    if "list_all2 (batch_entry_ok bo) bd done" for "done"
    using that
    by (intro list_all2_appendI) (auto intro: list_all2_mono batch_entry_ok_append simp: batch_entry_ok_def subslice_def)
  {
    case 1
    then show ?case using "2.IH"(1) [OF ok [OF "1"(1)]] by simp
  next
    case 2
    then show ?case using "2.IH"(2) [OF ok [OF "2"(1)]] by simp
  next
    case 3
    then show ?case using "2.IH"(2,3) [OF ok [OF "3"(1)]] by simp
  }
qed simp_all

definition stream_ok :: "'t OpEntry list \<Rightarrow> nat \<Rightarrow> bool" where
  "stream_ok es h \<longleftrightarrow> sorted_wrt (<) (map entry_id es) \<and> h = (if es = [] then 0 else entry_id (last es))"

lemma encode_container_parts:
  fixes es :: "'t OpEntry list" and h :: nat
  defines "ix \<equiv> encode_container es h" and "placed \<equiv> zip es [0..<length es]"
  shows "pk_stream ix = es" "pk_entry_count ix = length es" "pk_head_id ix = h"
    and "pk_entry_offsets ix = map (\<lambda>i. \<lparr>eor_entry_id = entry_id (es ! i), eor_entry_offset = i\<rparr>) [0..<length es]"
    and "list_all2 (batch_entry_ok (pk_batch_offsets ix)) (pk_batch_dir ix) (batch_records placed)"
    and "pk_batch_offsets ix = concat (map (\<lambda>(_, _, _, entries). map snd entries) (batch_records placed))"
    and "sum_list (map bdr_entry_count (pk_batch_dir ix)) = length (pk_batch_offsets ix)"
    and "list_all2 (tx_entry_ok (pk_tx_key_bytes ix)) (pk_tx_dir ix) (tx_records placed)"
    and "pk_file ix"
proof -
  have off: "map eor_entry_offset (map (\<lambda>(i, e). \<lparr>eor_entry_id = entry_id e, eor_entry_offset = i\<rparr>) (enumerate 0 es))
      = [0..<length es]"
    by (intro nth_equalityI) (auto simp: nth_enumerate_eq)
  obtain bo bd where B: "layout_batches (batch_records placed) [] [] = (bo, bd)" by force
  obtain kb dir where T: "layout_txs (tx_records placed) [] [] = (kb, dir)" by force
  have ix: "ix = \<lparr>pk_entry_count = length es, pk_head_id = h,
      pk_entry_offsets = map (\<lambda>(i, e). \<lparr>eor_entry_id = entry_id e, eor_entry_offset = i\<rparr>) (enumerate 0 es),
      pk_batch_offsets = bo, pk_batch_dir = bd, pk_tx_key_bytes = kb, pk_tx_dir = dir, pk_file = True, pk_stream = es\<rparr>"
    unfolding ix_def encode_container_def Let_def off placed_def [symmetric] build_index_sections_def B T by simp
  show "pk_file ix" by (simp add: ix)
  show "pk_stream ix = es" "pk_entry_count ix = length es" "pk_head_id ix = h" by (simp_all add: ix)
  show "pk_entry_offsets ix = map (\<lambda>i. \<lparr>eor_entry_id = entry_id (es ! i), eor_entry_offset = i\<rparr>) [0..<length es]"
    unfolding ix by (intro nth_equalityI) (auto simp: nth_enumerate_eq)
  show "list_all2 (batch_entry_ok (pk_batch_offsets ix)) (pk_batch_dir ix) (batch_records placed)"
    "pk_batch_offsets ix = concat (map (\<lambda>(_, _, _, entries). map snd entries) (batch_records placed))"
    "sum_list (map bdr_entry_count (pk_batch_dir ix)) = length (pk_batch_offsets ix)"
    using layout_batches_ok [OF _ B, of "[]"] by (simp_all add: ix)
  show "list_all2 (tx_entry_ok (pk_tx_key_bytes ix)) (pk_tx_dir ix) (tx_records placed)"
    using layout_txs_ok [OF _ T, of "[]"] by (simp add: ix)
qed

lemma set_batch_group: "set (batch_group es b) = {p \<in> set es. effective_batch_id (fst p) = b}"
  by (auto simp: batch_group_def)

lemma batch_records_facts:
  fixes es :: "'t OpEntry list"
  assumes "sorted_wrt (<) (map entry_id es)"
  defines "placed \<equiv> zip es [0..<length es]"
  shows "sorted_wrt (\<lambda>r s. fst (snd s) < fst (snd r)) (batch_records placed)"
    and "\<And>r. r \<in> set (batch_records placed) \<Longrightarrow> r = batch_record placed (fst r) \<and> fst r \<in> effective_batch_id ` set es"
    and "\<And>b. b \<in> effective_batch_id ` set es \<Longrightarrow> batch_record placed b \<in> set (batch_records placed)"
proof -
  have ids: "set (map (\<lambda>(e, _). effective_batch_id e) placed) = effective_batch_id ` set es"
    by (force simp: placed_def in_set_zip in_set_conv_nth image_iff)
  let ?bs = "sorted_list_of_set (effective_batch_id ` set es)"
  have "(\<lambda>(_, newest, _, _). - int newest) = (\<lambda>r :: nat \<times> nat \<times> nat \<times> 't placed list. - int (fst (snd r)))"
    by (simp add: fun_eq_iff)
  then have recs: "batch_records placed = sort_key (\<lambda>r. - int (fst (snd r))) (map (batch_record placed) ?bs)"
    unfolding batch_records_def ids by simp
  show "\<And>r. r \<in> set (batch_records placed) \<Longrightarrow> r = batch_record placed (fst r) \<and> fst r \<in> effective_batch_id ` set es"
    "\<And>b. b \<in> effective_batch_id ` set es \<Longrightarrow> batch_record placed b \<in> set (batch_records placed)"
    unfolding recs by (auto simp: batch_record_def Let_def)
  have newest: "\<exists>e \<in> set es. entry_id e = fst (snd (batch_record placed b)) \<and> effective_batch_id e = b"
    if b: "b \<in> effective_batch_id ` set es" for b
  proof -
    let ?ids = "set (map (\<lambda>(e, _). entry_id e) (sort_key (\<lambda>(e, _). (batch_index e, entry_id e)) (batch_group placed b)))"
    have eq: "?ids = {entry_id e | e. e \<in> set es \<and> effective_batch_id e = b}"
      by (force simp: set_batch_group placed_def in_set_zip in_set_conv_nth)
    have "Max ?ids \<in> ?ids" using b eq by (intro Max_in) auto
    then have "Max ?ids \<in> {entry_id e | e. e \<in> set es \<and> effective_batch_id e = b}" unfolding eq .
    then show ?thesis by (auto simp: batch_record_def Let_def)
  qed
  have inj: "inj_on entry_id (set es)" using assms(1) by (simp add: strict_sorted_iff distinct_map)
  have d: "inj_on (\<lambda>b. fst (snd (batch_record placed b))) (set ?bs)"
  proof (rule inj_onI)
    fix b c assume "b \<in> set ?bs" "c \<in> set ?bs" "fst (snd (batch_record placed b)) = fst (snd (batch_record placed c))"
    then obtain e f where "e \<in> set es" "f \<in> set es" "entry_id e = entry_id f" "effective_batch_id e = b" "effective_batch_id f = c"
      using newest [of b] newest [of c] by fastforce
    then show "b = c" using inj by (auto dest: inj_onD)
  qed
  have "inj_on (batch_record placed) (set ?bs)" by (rule inj_onI) (metis d inj_onD)
  then have "distinct (map (batch_record placed) ?bs)" by (simp add: distinct_map)
  then have "distinct (batch_records placed)" unfolding recs by (simp only: distinct_sort)
  moreover have "inj_on (\<lambda>r. - int (fst (snd r))) (set (batch_records placed))"
    unfolding recs set_sort set_map
  proof (rule inj_onI)
    fix r s assume r: "r \<in> batch_record placed ` set ?bs" and s: "s \<in> batch_record placed ` set ?bs"
      and eq: "- int (fst (snd r)) = - int (fst (snd s))"
    obtain b where b: "b \<in> set ?bs" "r = batch_record placed b" using r by blast
    obtain c where c: "c \<in> set ?bs" "s = batch_record placed c" using s by blast
    have "b = c" by (rule inj_onD [OF d _ b(1) c(1)]) (use eq b(2) c(2) in simp)
    then show "r = s" using b(2) c(2) by simp
  qed
  ultimately have "distinct (map (\<lambda>r. - int (fst (snd r))) (batch_records placed))"
    by (simp add: distinct_map)
  moreover have "sorted (map (\<lambda>r. - int (fst (snd r))) (batch_records placed))"
    unfolding recs by simp
  ultimately have "sorted_wrt (<) (map (\<lambda>r. - int (fst (snd r))) (batch_records placed))"
    by (simp add: strict_sorted_iff)
  then show "sorted_wrt (\<lambda>r s. fst (snd s) < fst (snd r)) (batch_records placed)"
    unfolding sorted_wrt_map by (rule sorted_wrt_mono_rel [rotated]) simp
qed

section \<open>A written container is valid\<close>

lemma check_entry_offsets_ok:
  assumes "\<forall>r \<in> set rs. h \<le> eor_entry_offset r \<and> eor_entry_offset r < n" "sorted_wrt (<) (map eor_entry_id rs)"
    and "\<forall>i. last_id = Some i \<longrightarrow> (\<forall>r \<in> set rs. i < eor_entry_id r)"
  shows "check_entry_offsets h n last_id rs = Inr ()"
  using assms by (induction rs arbitrary: last_id) (auto split: option.splits simp: not_le)

lemma check_batch_dir_ok:
  assumes "list_all2 (batch_entry_ok bo) bd recs" "sorted_wrt (\<lambda>r s. fst (snd s) < fst (snd r)) recs"
    and "\<forall>i. prev = Some i \<longrightarrow> (\<forall>r \<in> set recs. fst (snd r) < i)"
  shows "check_batch_dir (length bo) prev tot bd = Inr (tot + sum_list (map bdr_entry_count bd))"
  using assms
proof (induction bd arbitrary: recs prev tot)
  case (Cons r rs)
  obtain t recs' where t: "recs = t # recs'" "batch_entry_ok bo r t" "list_all2 (batch_entry_ok bo) rs recs'"
    using Cons.prems(1) by (cases recs) auto
  have "bdr_newest_entry_id r = fst (snd t)" "bdr_first_offset_index r + bdr_entry_count r \<le> length bo"
    using t(2) by (auto simp: batch_entry_ok_def split: prod.splits)
  then show ?case
    using Cons.IH [OF t(3), of "Some (bdr_newest_entry_id r)" "tot + bdr_entry_count r"] Cons.prems(2,3) t(1)
    by (auto split: option.splits simp: not_le add.assoc)
qed simp

lemma check_tx_dir_ok:
  assumes "list_all2 (tx_entry_ok kb) dir recs" "length kb \<le> usize_max"
    and "sorted_wrt (<) (map fst recs)" "\<forall>k. prev = Some k \<longrightarrow> (\<forall>r \<in> set recs. k < fst r)"
    and "\<And>key c b. (key, c, b) \<in> set recs \<Longrightarrow> \<exists>off r. offset_of offsets c = Some off
      \<and> off < data_end \<and> record_at off = Inr r \<and> commit_id r = Some key"
  shows "check_tx_dir offsets data_end record_at kb prev dir = Inr ()"
  using assms
proof (induction dir arbitrary: recs prev)
  case (Cons r rs)
  obtain key c b recs' where t: "recs = (key, c, b) # recs'" "tx_entry_ok kb r (key, c, b)"
    "list_all2 (tx_entry_ok kb) rs recs'"
    using Cons.prems(1) by (cases recs) auto
  have k: "tx_record_key kb r = Inr key" "tdr_commit_entry_id r = c"
    using tx_record_key_ok [OF t(2) Cons.prems(2)] t(2) by (simp_all add: tx_entry_ok_def)
  obtain off rc where off: "offset_of offsets c = Some off" "off < data_end" "record_at off = Inr rc" "commit_id rc = Some key"
    using Cons.prems(5) [of key c b] t(1) by auto
  have "check_tx_dir offsets data_end record_at kb (Some key) rs = Inr ()"
  proof (rule Cons.IH [OF t(3) Cons.prems(2)])
    fix k' c' b' assume "(k', c', b') \<in> set recs'"
    then show "\<exists>off r. offset_of offsets c' = Some off \<and> off < data_end \<and> record_at off = Inr r \<and> commit_id r = Some k'"
      using t(1) by (intro Cons.prems(5) [of k' c' b']) simp
  qed (use Cons.prems(3) t(1) in auto)
  moreover have "\<not> (case prev of Some p \<Rightarrow> key \<le> p | None \<Rightarrow> False)"
    using Cons.prems(4) t(1) by (auto split: option.splits simp: not_le)
  ultimately show ?case using k off by simp
qed simp

text \<open>Entry ids that ascend have the offsets they were given.\<close>

lemma offset_of_ascending:
  assumes "sorted_wrt (<) (map eor_entry_id offsets)" "r \<in> set offsets"
  shows "offset_of offsets (eor_entry_id r) = Some (eor_entry_offset r)"
  unfolding offset_of_def
proof (rule map_of_is_SomeI)
  show "distinct (map fst (rev (map (\<lambda>r. (eor_entry_id r, eor_entry_offset r)) offsets)))"
    using assms(1) by (simp add: rev_map [symmetric] comp_def strict_sorted_iff)
qed (use assms(2) in force)

lemma first_commit_at:
  assumes "first_commit es key = Some (c, b)"
  shows "\<exists>i < length es. entry_id (es ! i) = c \<and> commit_id (operation (es ! i)) = Some key"
  using assms by (auto simp: first_commit_def find_Some_iff)

text \<open>
  The same sections with other offsets: what is valid for positions in the stream is valid for any offsets
  that lie in the entry section and lead to the same records.
\<close>

definition shift_offsets :: "(nat \<Rightarrow> nat) \<Rightarrow> 'a IndexSections_scheme \<Rightarrow> 'a IndexSections_scheme" where
  "shift_offsets f ix = ix\<lparr>pk_entry_offsets := map (\<lambda>r. r\<lparr>eor_entry_offset := f (eor_entry_offset r)\<rparr>) (pk_entry_offsets ix),
     pk_batch_offsets := map f (pk_batch_offsets ix)\<rparr>"

lemma shift_offsets_parts [simp]:
  "pk_entry_count (shift_offsets f ix) = pk_entry_count ix" "pk_head_id (shift_offsets f ix) = pk_head_id ix"
  "pk_entry_offsets (shift_offsets f ix) = map (\<lambda>r. r\<lparr>eor_entry_offset := f (eor_entry_offset r)\<rparr>) (pk_entry_offsets ix)"
  "pk_batch_offsets (shift_offsets f ix) = map f (pk_batch_offsets ix)"
  "pk_batch_dir (shift_offsets f ix) = pk_batch_dir ix" "pk_tx_key_bytes (shift_offsets f ix) = pk_tx_key_bytes ix"
  "pk_tx_dir (shift_offsets f ix) = pk_tx_dir ix"
  by (simp_all add: shift_offsets_def)

lemma batch_offsets_below:
  assumes "sorted_wrt (<) (map entry_id es)"
  shows "set (pk_batch_offsets (encode_container es h)) \<subseteq> {..<length es}"
  unfolding encode_container_parts(6) using batch_records_facts(2) [OF assms]
  by (force simp: batch_record_def Let_def set_batch_group in_set_zip)

lemma written_sections_valid:
  assumes "stream_ok es h" "length (pk_tx_key_bytes (encode_container es h)) \<le> usize_max"
    and f: "\<And>i. i < length es \<Longrightarrow> lo \<le> f i \<and> f i < hi \<and> record_at (f i) = Inr (operation (es ! i))"
  shows "validate_sections lo hi record_at (shift_offsets f (encode_container es h)) = Inr ()"
proof -
  let ?ix = "shift_offsets f (encode_container es h)" and ?placed = "zip es [0..<length es]"
  note P = encode_container_parts [where es = es and h = h]
  have ids: "sorted_wrt (<) (map entry_id es)" using assms(1) by (simp add: stream_ok_def)
  have offs: "pk_entry_offsets ?ix = map (\<lambda>i. \<lparr>eor_entry_id = entry_id (es ! i), eor_entry_offset = f i\<rparr>) [0..<length es]"
    by (simp add: P(4) comp_def)
  have map_ids: "map eor_entry_id (pk_entry_offsets ?ix) = map entry_id es"
    unfolding offs by (intro nth_equalityI) simp_all
  have last: "es \<noteq> [] \<Longrightarrow> eor_entry_id (last (pk_entry_offsets ?ix)) = h"
    using assms(1) unfolding offs by (simp add: stream_ok_def last_map last_conv_nth [of es])
  have eo: "check_entry_offsets lo hi None (pk_entry_offsets ?ix) = Inr ()"
    using ids map_ids f unfolding offs by (intro check_entry_offsets_ok) auto
  have bo: "\<not> list_ex (\<lambda>o'. o' < lo \<or> o' \<ge> hi) (pk_batch_offsets ?ix)"
    using batch_offsets_below [OF ids, of h] f by (fastforce simp: list_ex_iff)
  have bd: "check_batch_dir (length (pk_batch_offsets ?ix)) None 0 (pk_batch_dir ?ix) = Inr (length (pk_batch_offsets ?ix))"
    using check_batch_dir_ok [OF P(5) batch_records_facts(1) [OF ids], of None 0] P(7) by simp
  have lookup: "offset_of (pk_entry_offsets ?ix) (entry_id (es ! i)) = Some (f i)" if "i < length es" for i
  proof -
    have "\<lparr>eor_entry_id = entry_id (es ! i), eor_entry_offset = f i\<rparr> \<in> set (pk_entry_offsets ?ix)"
      unfolding offs using that by simp
    moreover have "sorted_wrt (<) (map eor_entry_id (pk_entry_offsets ?ix))" using ids by (simp only: map_ids)
    ultimately show ?thesis using offset_of_ascending by fastforce
  qed
  have dir: "check_tx_dir (pk_entry_offsets ?ix) hi record_at (pk_tx_key_bytes ?ix) None (pk_tx_dir ?ix) = Inr ()"
    unfolding shift_offsets_parts(6,7)
  proof (rule check_tx_dir_ok [OF P(8) assms(2) tx_records_sorted])
    fix key c b assume "(key, c, b) \<in> set (tx_records ?placed)"
    then have "map_of (tx_records ?placed) key = Some (c, b)"
      using tx_records_sorted [of ?placed] by (simp add: strict_sorted_iff)
    then have "first_commit es key = Some (c, b)" using map_of_tx_records [of "[0..<length es]" es] by simp
    then obtain i where "i < length es" "entry_id (es ! i) = c" "commit_id (operation (es ! i)) = Some key"
      using first_commit_at by blast
    then show "\<exists>off r. offset_of (pk_entry_offsets ?ix) c = Some off \<and> off < hi \<and> record_at off = Inr r \<and> commit_id r = Some key"
      using lookup [of i] f [of i] by auto
  qed simp
  have "length (pk_entry_offsets ?ix) = length es" unfolding offs by simp
  moreover have "es = [] \<Longrightarrow> h = 0" using assms(1) by (simp add: stream_ok_def)
  ultimately show ?thesis
    using last eo bo bd dir by (cases "es = []") (simp_all add: validate_sections_def encode_container_parts(2,3) list_ex_iff)
qed

lemma save_and_open_ok:
  assumes "stream_ok es h" "length (pk_tx_key_bytes (encode_container es h)) \<le> usize_max"
  shows "save_and_open es h = Inr (encode_container es h)"
proof -
  have "validate_index_records (encode_container es h) = Inr ()"
    using written_sections_valid [OF assms, of 0 "\<lambda>i. i" "length es" "\<lambda>off. Inr (operation (es ! off))"]
    by (simp add: validate_index_records_def encode_container_parts(1) shift_offsets_def)
  then show ?thesis by (simp add: save_and_open_def Let_def)
qed

section \<open>Sections of shifted entries\<close>

lemma insort_key_map: "insort_key k (g x) (map g xs) = map g (insort_key (\<lambda>x. k (g x)) x xs)"
  by (induction xs) auto

lemma sort_key_map: "sort_key k (map g xs) = map g (sort_key (\<lambda>x. k (g x)) xs)"
  by (induction xs) (auto simp: insort_key_map)

lemma batch_record_map:
  fixes f :: "nat \<Rightarrow> nat"
  defines "g \<equiv> \<lambda>(e, i). (e, f i)"
  shows "batch_record (map g ps) b = (\<lambda>(b, n, s, es). (b, n, s, map g es)) (batch_record ps b)"
proof -
  have k: "(\<lambda>x. (\<lambda>(e, _). (batch_index e, entry_id e)) (g x)) = (\<lambda>(e, _). (batch_index e, entry_id e))"
    by (auto simp: g_def fun_eq_iff)
  have "batch_group (map g ps) b = map g (batch_group ps b)"
    by (induction ps) (auto simp: batch_group_def g_def)
  moreover have "(\<lambda>(e, _). entry_id e) \<circ> g = (\<lambda>(e, _). entry_id e)" "(\<lambda>(e, _). entry_scope e) \<circ> g = (\<lambda>(e, _). entry_scope e)"
    by (auto simp: g_def fun_eq_iff)
  ultimately show ?thesis
    using k by (simp add: batch_record_def Let_def sort_key_map del: set_map)
qed

lemma layout_batches_map:
  "layout_batches (map (\<lambda>(b, n, s, es). (b, n, s, map (\<lambda>(e, i). (e, f i)) es)) recs) (map f bo) bd
    = apfst (map f) (layout_batches recs bo bd)"
proof (induction recs bo bd rule: layout_batches.induct)
  case (2 b newest state entries rest bo bd)
  have "map snd (map (\<lambda>(e, i). (e, f i)) entries) = map f (map snd entries)" by (induction entries) auto
  then show ?case using 2 by (simp del: map_map)
qed simp

lemma build_sections_map:
  fixes ps :: "('t OpEntry \<times> nat) list"
  shows "build_index_sections (map (\<lambda>(e, i). (e, f i)) ps) = apfst (map f) (build_index_sections ps)"
proof -
  let ?g = "\<lambda>(e :: 't OpEntry, i). (e, f i)" and ?h = "\<lambda>(b :: nat, n :: nat, s :: nat, es). (b, n, s, map (\<lambda>(e :: 't OpEntry, i). (e, f i)) es)"
  have k: "(\<lambda>x. (\<lambda>(_ :: nat, newest :: nat, _ :: nat, _ :: ('t OpEntry \<times> nat) list). - int newest) (?h x)) = (\<lambda>(_, newest, _, _). - int newest)"
    by (auto simp: fun_eq_iff)
  have "batch_records (map ?g ps) = map ?h (batch_records ps)"
  proof -
    let ?bs = "sorted_list_of_set (set (map (\<lambda>(e, _). effective_batch_id e) ps))"
    have ids: "map ((\<lambda>(e, _). effective_batch_id e) \<circ> ?g) ps = map (\<lambda>(e, _). effective_batch_id e) ps" by auto
    have "map (batch_record (map ?g ps)) bs = map ?h (map (batch_record ps) bs)" for bs
      by (simp add: batch_record_map)
    then have "batch_records (map ?g ps) = sort_key (\<lambda>(_, newest, _, _). - int newest) (map ?h (map (batch_record ps) ?bs))"
      by (simp only: batch_records_def map_map [of _ ?g] ids)
    also have "\<dots> = map ?h (sort_key (\<lambda>x. (\<lambda>(_, newest, _, _). - int newest) (?h x)) (map (batch_record ps) ?bs))"
      by (rule sort_key_map)
    also have "\<dots> = map ?h (batch_records ps)" by (simp only: k batch_records_def)
    finally show ?thesis .
  qed
  moreover have "tx_records (map ?g ps) = tx_records ps"
  proof -
    have "find (\<lambda>(e, _). commit_id (operation e) = Some key) (map ?g ps)
        = map_option ?g (find (\<lambda>(e, _). commit_id (operation e) = Some key) ps)" for key
      by (induction ps) auto
    then have "tx_first (map ?g ps) = tx_first ps" by (auto simp: tx_first_def fun_eq_iff option.map_comp comp_def split_def)
    moreover have "List.map_filter (\<lambda>(e, _). commit_id (operation e)) (map ?g ps) = List.map_filter (\<lambda>(e, _). commit_id (operation e)) ps"
      by (induction ps) (auto simp: List.map_filter_simps split: option.splits)
    ultimately show ?thesis by (simp add: tx_records_def)
  qed
  ultimately show ?thesis
    using layout_batches_map [of f "batch_records ps" "[]" "[]"]
    by (simp add: build_index_sections_def split: prod.splits)
qed


section \<open>Reading batches\<close>

text \<open>The reference: the entries of a batch after a given id, in batch order, and the batch ids, newest first.\<close>

definition log_batch :: "'t OpEntry list \<Rightarrow> nat \<Rightarrow> nat \<Rightarrow> 't OpBatch" where
  "log_batch es since_id b = \<lparr>opb_id = b, opb_entries = sort_key (\<lambda>e. (batch_index e, entry_id e))
     (filter (\<lambda>e. since_id < entry_id e) (filter (\<lambda>e. effective_batch_id e = b) es))\<rparr>"

definition batch_order :: "'t OpEntry list \<Rightarrow> nat list" where
  "batch_order es = rev (remdups (map effective_batch_id es))"

definition in_scope :: "string option \<Rightarrow> 't OpBatch \<Rightarrow> bool" where
  "in_scope scope batch \<longleftrightarrow> (\<forall>s. scope = Some s \<longrightarrow> (\<forall>e \<in> set (opb_entries batch). entry_scope e = Some s))"

definition log_batches ::
  "'t OpEntry list \<Rightarrow> nat \<Rightarrow> ('t OpBatch \<Rightarrow> bool) \<Rightarrow> string option \<Rightarrow> 't OpBatch list" where
  "log_batches es since_id predicate scope =
     filter (\<lambda>batch. opb_entries batch \<noteq> [] \<and> in_scope scope batch \<and> predicate batch)
       (map (log_batch es since_id) (batch_order es))"

lemma map_fst_insort: "map fst (insort_key (\<lambda>p. k (fst p)) p ps) = insort_key k (fst p) (map fst ps)"
  by (induction ps) auto

lemma map_fst_sort_key: "map fst (sort_key (\<lambda>p. k (fst p)) ps) = sort_key k (map fst ps)"
  by (induction ps) (auto simp: map_fst_insort)

lemma map_fst_filter_zip:
  "length ys = length xs \<Longrightarrow> map fst (filter (\<lambda>p. P (fst p)) (zip xs ys)) = filter P xs"
  by (induction xs ys rule: list_induct2') auto

lemma batch_group_fst:
  fixes es :: "'t OpEntry list"
  shows "map fst (batch_group (zip es [0..<length es]) b) = filter (\<lambda>e. effective_batch_id e = b) es"
proof -
  have "(\<lambda>(e, _). effective_batch_id e = b) = (\<lambda>p :: 't placed. effective_batch_id (fst p) = b)"
    by (simp add: fun_eq_iff)
  then show ?thesis
    using map_fst_filter_zip [of "[0..<length es]" es "\<lambda>e. effective_batch_id e = b"] by (simp add: batch_group_def)
qed

lemma batch_record_entries:
  fixes es :: "'t OpEntry list"
  shows "map fst (snd (snd (snd (batch_record (zip es [0..<length es]) b))))
     = sort_key (\<lambda>e. (batch_index e, entry_id e)) (filter (\<lambda>e. effective_batch_id e = b) es)"
proof -
  have "(\<lambda>(e, _). (batch_index e, entry_id e)) = (\<lambda>p :: 't placed. (batch_index (fst p), entry_id (fst p)))"
    by (simp add: fun_eq_iff)
  then show ?thesis
    by (simp add: batch_record_def Let_def batch_group_fst map_fst_sort_key [of "\<lambda>e. (batch_index e, entry_id e)"])
qed

text \<open>What the loop makes of one directory record.\<close>

lemma record_batch_read:
  assumes "r = batch_record (zip es [0..<length es]) b"
  shows "sort_key batch_index (filter (\<lambda>e. since_id < entry_id e) (map fst (snd (snd (snd r)))))
    = opb_entries (log_batch es since_id b)"
proof -
  let ?k = "\<lambda>e :: 'a OpEntry. (batch_index e, entry_id e)"
  let ?xs = "filter (\<lambda>e. since_id < entry_id e) (filter (\<lambda>e. effective_batch_id e = b) es)"
  have "filter (\<lambda>e. since_id < entry_id e) (map fst (snd (snd (snd r)))) = sort_key ?k ?xs"
    unfolding assms batch_record_entries by (simp add: filter_sort)
  moreover have "sorted (map batch_index (sort_key ?k ?xs))"
    using sorted_sort_key [of ?k ?xs] by (auto simp: sorted_map elim!: sorted_wrt_mono_rel [rotated])
  ultimately show ?thesis by (simp add: sort_key_id_if_sorted log_batch_def)
qed

lemma scope_state_none: "scope_state scopes = ScopeState_None \<Longrightarrow> sc \<in> set scopes \<Longrightarrow> sc = None"
proof -
  have loop: "scope_state_loop first scopes = ScopeState_None \<Longrightarrow> (first = None \<or> first = Some None) \<and>
      (\<forall>sc \<in> set scopes. sc = None)" for first scopes
    by (induction first scopes rule: scope_state_loop.induct)
      (auto simp: ScopeState_None_def ScopeState_One_def ScopeState_Mixed_def split: option.splits if_splits)
  then show "scope_state scopes = ScopeState_None \<Longrightarrow> sc \<in> set scopes \<Longrightarrow> sc = None"
    by (auto simp: scope_state_def)
qed

text \<open>The newest entry id of a batch; in a stream with rising ids it belongs to the last entry.\<close>

definition newest_id :: "'t OpEntry list \<Rightarrow> nat \<Rightarrow> nat" where
  "newest_id es b = entry_id (last (filter (\<lambda>e. effective_batch_id e = b) es))"

lemma batch_order_newest:
  assumes "sorted_wrt (<) (map entry_id es)"
  shows "sorted_wrt (\<lambda>b c. newest_id es b < newest_id es c) (remdups (map effective_batch_id es))"
  using assms
proof (induction es)
  case (Cons e es)
  have same: "newest_id (e # es) c = newest_id es c" if "c \<in> effective_batch_id ` set es" for c
  proof -
    have "filter (\<lambda>e. effective_batch_id e = c) es \<noteq> []" using that by (auto simp: filter_empty_conv)
    then show ?thesis by (simp add: newest_id_def)
  qed
  have IH: "sorted_wrt (\<lambda>b c. newest_id (e # es) b < newest_id (e # es) c) (remdups (map effective_batch_id es))"
    using Cons by (auto simp: same elim!: sorted_wrt_mono_rel [rotated])
  show ?case
  proof (cases "effective_batch_id e \<in> effective_batch_id ` set es")
    case True
    then show ?thesis using IH by (simp only: list.map remdups.simps set_map if_True)
  next
    case False
    then have "filter (\<lambda>f. effective_batch_id f = effective_batch_id e) es = []"
      by (auto simp: filter_empty_conv image_iff)
    then have hd: "newest_id (e # es) (effective_batch_id e) = entry_id e" by (simp add: newest_id_def)
    have "entry_id e < newest_id (e # es) c" if c: "c \<in> effective_batch_id ` set es" for c
    proof -
      have ne: "filter (\<lambda>e. effective_batch_id e = c) es \<noteq> []" using c by (auto simp: filter_empty_conv)
      then have "last (filter (\<lambda>e. effective_batch_id e = c) es) \<in> set es"
        by (meson last_in_set filter_is_subset subsetD)
      then show ?thesis using Cons.prems ne unfolding same [OF c] newest_id_def by simp
    qed
    then show ?thesis using IH False hd by simp
  qed
qed simp

lemma batch_record_newest:
  assumes "sorted_wrt (<) (map entry_id es)" "b \<in> effective_batch_id ` set es"
  shows "fst (snd (batch_record (zip es [0..<length es]) b)) = newest_id es b"
proof -
  let ?g = "filter (\<lambda>e. effective_batch_id e = b) es"
  have ne: "?g \<noteq> []" using assms(2) by (auto simp: filter_empty_conv)
  have sorted: "sorted_wrt (<) (map entry_id ?g)"
    using assms(1) by (simp add: sorted_wrt_map sorted_wrt_filter)
  have "map fst (batch_group (zip es [0..<length es]) b) = ?g" by (rule batch_group_fst)
  then have "fst ` set (batch_group (zip es [0..<length es]) b) = set ?g" by (metis list.set_map)
  then have "(\<lambda>(e, _). entry_id e) ` set (batch_group (zip es [0..<length es]) b) = entry_id ` set ?g"
    by (metis (no_types, lifting) image_cong image_image split_beta)
  then have "fst (snd (batch_record (zip es [0..<length es]) b)) = Max (entry_id ` set ?g)"
    by (simp add: batch_record_def Let_def)
  also have "\<dots> = entry_id (last ?g)"
  proof (rule Max_eqI)
    show "entry_id (last ?g) \<in> entry_id ` set ?g" using last_in_set [OF ne] by (rule imageI)
  qed (use strict_le_last [OF sorted] in auto)
  finally show ?thesis by (simp add: newest_id_def)
qed

lemma decreasing_unique:
  fixes N :: "nat \<Rightarrow> nat"
  assumes "sorted_wrt (\<lambda>b c. N c < N b) xs" "sorted_wrt (\<lambda>b c. N c < N b) ys" "set xs = set ys"
  shows "xs = (ys :: nat list)"
proof -
  have s: "sorted_wrt (<) (map N (rev xs))" "sorted_wrt (<) (map N (rev ys))"
    using assms(1,2) by (simp_all add: sorted_wrt_map sorted_wrt_rev)
  then have "map N (rev xs) = map N (rev ys)" using assms(3) by (intro strict_sorted_equal) simp_all
  moreover have "inj_on N (set (rev xs) \<union> set (rev ys))"
    using s(1) assms(3) by (simp add: strict_sorted_iff distinct_map)
  ultimately have "rev xs = rev ys" by (rule map_inj_on)
  then show ?thesis by simp
qed

lemma batch_order_sorted:
  assumes "sorted_wrt (<) (map entry_id es)"
  shows "map fst (batch_records (zip es [0..<length es])) = batch_order es"
proof (rule decreasing_unique [where N = "newest_id es"])
  let ?recs = "batch_records (zip es [0..<length es])"
  note F = batch_records_facts [OF assms]
  have N: "fst (snd r) = newest_id es (fst r)" if "r \<in> set ?recs" for r
    using F(2) [OF that] batch_record_newest [OF assms, of "fst r"] by metis
  show "sorted_wrt (\<lambda>b c. newest_id es c < newest_id es b) (map fst ?recs)"
    using F(1) N by (auto simp: sorted_wrt_map elim!: sorted_wrt_mono_rel [rotated])
  show "sorted_wrt (\<lambda>b c. newest_id es c < newest_id es b) (batch_order es)"
    using batch_order_newest [OF assms] by (simp add: batch_order_def sorted_wrt_rev)
  have "fst (batch_record (zip es [0..<length es]) b) = b" for b by (simp add: batch_record_def Let_def)
  then have "b \<in> set (map fst ?recs)" if "b \<in> effective_batch_id ` set es" for b
    using F(3) [OF that] by (metis image_eqI list.set_map)
  moreover have "fst r \<in> effective_batch_id ` set es" if "r \<in> set ?recs" for r using F(2) [OF that] by simp
  ultimately show "set (map fst ?recs) = set (batch_order es)" by (auto simp: batch_order_def)
qed

lemma collect_loop_batches:
  fixes es :: "'t OpEntry list" and pred :: "'t OpBatch \<Rightarrow> bool" and since_id :: nat
  assumes "list_all2 (batch_entry_ok (pk_batch_offsets ix)) bd recs" "length (pk_batch_offsets ix) \<le> usize_max"
    and "pk_stream ix = es" "sorted_wrt (<) (map entry_id es)"
    and "sorted_wrt (\<lambda>r s. fst (snd s) < fst (snd r)) recs"
    and "\<And>r. r \<in> set recs \<Longrightarrow> r = batch_record (zip es [0..<length es]) (fst r) \<and> fst r \<in> effective_batch_id ` set es"
    and "length acc < count"
  shows "collect_loop ix since_id count pred scope bd acc = Inr (acc @ take (count - length acc)
    (filter (\<lambda>batch. opb_entries batch \<noteq> [] \<and> in_scope scope batch \<and> pred batch)
      (map (\<lambda>r. log_batch es since_id (fst r)) recs)))"
  using assms(1,5-7)
proof (induction bd arbitrary: recs acc)
  case (Cons d ds)
  obtain r recs' where r: "recs = r # recs'" "batch_entry_ok (pk_batch_offsets ix) d r"
    "list_all2 (batch_entry_ok (pk_batch_offsets ix)) ds recs'"
    using Cons.prems(1) by (cases recs) auto
  define b where "b = fst r"
  have rec: "r = batch_record (zip es [0..<length es]) b" "b \<in> effective_batch_id ` set es"
    using Cons.prems(3) [of r] r(1) by (simp_all add: b_def)
  let ?B = "log_batch es since_id b"
  let ?ok = "\<lambda>batch. opb_entries batch \<noteq> [] \<and> in_scope scope batch \<and> pred batch"
  let ?rest = "map (\<lambda>r. log_batch es since_id (fst r)) recs'"
  have IH: "length acc' < count \<Longrightarrow> collect_loop ix since_id count pred scope ds acc'
      = Inr (acc' @ take (count - length acc') (filter ?ok ?rest))" for acc'
    using Cons.IH [OF r(3)] Cons.prems(2,3) r(1) by simp
  define entries where "entries = filter (\<lambda>e. since_id < entry_id e) (map fst (snd (snd (snd r))))"
  have d: "bdr_newest_entry_id d = newest_id es b" "bdr_batch_id d = b"
    "bdr_scope_state d = scope_state (map (\<lambda>(e, _). entry_scope e) (snd (snd (snd r))))"
    "checked_add (bdr_first_offset_index d) (bdr_entry_count d) = Some (bdr_first_offset_index d + bdr_entry_count d)"
    "bdr_first_offset_index d + bdr_entry_count d \<le> length (pk_batch_offsets ix)"
    "subslice (pk_batch_offsets ix) (bdr_first_offset_index d) (bdr_first_offset_index d + bdr_entry_count d)
      = map snd (snd (snd (snd r)))"
    using r(2) assms(2) batch_record_newest [OF assms(4) rec(2)] unfolding rec(1)
    by (auto simp: batch_entry_ok_def checked_add_def batch_record_def Let_def)
  have "\<forall>p \<in> set (snd (snd (snd r))). read_entry_at ix (snd p) = fst p"
    unfolding rec(1) by (auto simp: batch_record_def Let_def set_batch_group in_set_zip read_entry_at_def assms(3))
  then have read: "filter (\<lambda>en. entry_id en > since_id) (map (read_entry_at ix) (subslice (pk_batch_offsets ix)
      (bdr_first_offset_index d) (bdr_first_offset_index d + bdr_entry_count d))) = entries"
    unfolding d(6) entries_def by (simp add: comp_def cong: map_cong)
  have B: "opb_entries ?B = sort_key batch_index entries" "?B = \<lparr>opb_id = b, opb_entries = sort_key batch_index entries\<rparr>"
    using record_batch_read [OF rec(1), of since_id] by (simp_all add: entries_def log_batch_def)
  have scope: "(case scope of Some s \<Rightarrow> \<not> list_all (\<lambda>en. entry_scope en = Some s) (opb_entries ?B) | None \<Rightarrow> False)
      \<longleftrightarrow> \<not> in_scope scope ?B"
    by (auto simp: in_scope_def list_all_iff split: option.splits)
  have older: "newest_id es c \<le> since_id \<Longrightarrow> c \<in> effective_batch_id ` set es \<Longrightarrow> opb_entries (log_batch es since_id c) = []" for c
  proof -
    assume a: "newest_id es c \<le> since_id" "c \<in> effective_batch_id ` set es"
    have "sorted_wrt (<) (map entry_id (filter (\<lambda>e. effective_batch_id e = c) es))"
      using assms(4) by (simp add: sorted_wrt_map sorted_wrt_filter)
    then have "\<forall>e \<in> set (filter (\<lambda>e. effective_batch_id e = c) es). entry_id e \<le> newest_id es c"
      using strict_le_last [of entry_id] unfolding newest_id_def by blast
    then have "\<forall>e \<in> set (filter (\<lambda>e. effective_batch_id e = c) es). \<not> since_id < entry_id e"
      using a(1) by (meson leD order_trans)
    then have "filter (\<lambda>e. since_id < entry_id e) (filter (\<lambda>e. effective_batch_id e = c) es) = []"
      by (rule filter_False)
    then show ?thesis by (simp only: log_batch_def OpBatch.simps sort_key_simps)
  qed
  show ?case
  proof (cases "newest_id es b \<le> since_id")
    case True
    have "opb_entries (log_batch es since_id (fst q)) = []" if "q \<in> set recs" for q
    proof (rule older)
      show "fst q \<in> effective_batch_id ` set es" using Cons.prems(3) that by blast
      have N: "fst (snd q) = newest_id es (fst q)" if "q \<in> set recs" for q
        using batch_record_newest [OF assms(4)] Cons.prems(3) [OF that] by metis
      have "q = r \<or> fst (snd q) < fst (snd r)" using Cons.prems(2) r(1) that by auto
      then show "newest_id es (fst q) \<le> since_id"
        using N [OF that] N [of r] r(1) True b_def by auto
    qed
    then have "filter ?ok (map (\<lambda>r. log_batch es since_id (fst r)) recs) = []" by (simp add: filter_empty_conv)
    then show ?thesis using True d(1) by simp
  next
    case False
    show ?thesis
    proof (cases "case scope of Some s \<Rightarrow> bdr_scope_state d = ScopeState_None \<and> s \<noteq> [] | None \<Rightarrow> False")
      case True
      then obtain s where s: "scope = Some s" "bdr_scope_state d = ScopeState_None"
        by (auto split: option.splits)
      have "entry_scope e = None" if "e \<in> set (map fst (snd (snd (snd r))))" for e
        using s(2) that unfolding d(3) by (intro scope_state_none) force+
      then have "\<forall>e \<in> set entries. entry_scope e = None" by (simp add: entries_def)
      then have "opb_entries ?B = [] \<or> \<not> in_scope scope ?B"
        unfolding B(1) in_scope_def s(1)
        by (cases "entries = []") (simp, metis hd_in_set set_sort option.distinct(1))
      moreover have "collect_loop ix since_id count pred scope (d # ds) acc = collect_loop ix since_id count pred scope ds acc"
        using False True d(1) by simp
      ultimately show ?thesis using IH [OF Cons.prems(4)] r(1) b_def by auto
    next
      case skip: False
      have room: "\<not> length (pk_batch_offsets ix) < bdr_first_offset_index d + bdr_entry_count d" using d(5) by simp
      have newer: "\<not> bdr_newest_entry_id d \<le> since_id" using False d(1) by simp
      have step: "collect_loop ix since_id count pred scope (d # ds) acc =
          (if entries = [] then collect_loop ix since_id count pred scope ds acc
           else if \<not> in_scope scope ?B then collect_loop ix since_id count pred scope ds acc
           else if pred ?B
           then (if length (acc @ [?B]) = count then Inr (acc @ [?B])
                 else collect_loop ix since_id count pred scope ds (acc @ [?B]))
           else collect_loop ix since_id count pred scope ds acc)"
        unfolding collect_loop.simps if_not_P [OF newer] if_not_P [OF skip] d(4) option.case if_not_P [OF room] read
          Let_def d(2) B(2) [symmetric] scope ..
      have empty: "opb_entries ?B = [] \<longleftrightarrow> entries = []"
        unfolding B(1) by (metis length_0_conv length_sort)
      show ?thesis
      proof (cases "opb_entries ?B = [] \<or> \<not> in_scope scope ?B \<or> \<not> pred ?B")
        case True
        then have "collect_loop ix since_id count pred scope (d # ds) acc = collect_loop ix since_id count pred scope ds acc"
          unfolding step empty by auto
        then show ?thesis using True IH [OF Cons.prems(4)] r(1) b_def by auto
      next
        case ok: False
        then have "collect_loop ix since_id count pred scope (d # ds) acc
            = (if length (acc @ [?B]) = count then Inr (acc @ [?B])
               else collect_loop ix since_id count pred scope ds (acc @ [?B]))"
          unfolding step empty by auto
        moreover have "count - length acc = Suc (count - Suc (length acc))" using Cons.prems(4) by simp
        ultimately show ?thesis using ok IH [of "acc @ [?B]"] Cons.prems(4) r(1) b_def by auto
      qed
    qed
  qed
qed simp

lemma map_fst_collect:
  assumes "map fst recs = bs"
  shows "map (\<lambda>r. log_batch es since_id (fst r)) recs = map (log_batch es since_id) bs"
  by (simp add: assms [symmetric])

lemma collect_batches_encoded:
  fixes es :: "'t OpEntry list"
  assumes "sorted_wrt (<) (map entry_id es)" "length (pk_batch_offsets (encode_container es h)) \<le> usize_max"
  shows "pk_collect_batches_after_scoped (encode_container es h) since_id count pred scope
    = Inr (take count (log_batches es since_id pred scope))"
proof (cases "count = 0 \<or> es = []")
  case True
  then show ?thesis
    by (auto simp: pk_collect_batches_after_scoped_def encode_container_parts log_batches_def batch_order_def)
next
  case False
  let ?recs = "batch_records (zip es [0..<length es])"
  have F: "r = batch_record (zip es [0..<length es]) (fst r)" "fst r \<in> effective_batch_id ` set es"
    if "r \<in> set ?recs" for r
    using batch_records_facts [OF assms(1)] that by auto
  have "collect_loop (encode_container es h) since_id count pred scope (pk_batch_dir (encode_container es h)) []
      = Inr ([] @ take (count - length []) (filter (\<lambda>batch. opb_entries batch \<noteq> [] \<and> in_scope scope batch \<and> pred batch)
          (map (\<lambda>r. log_batch es since_id (fst r)) ?recs)))"
    using collect_loop_batches [OF encode_container_parts(5) assms(2) encode_container_parts(1) assms(1)
        batch_records_facts(1) [OF assms(1)] conjI [OF F], of "[]" count since_id pred scope] False by simp
  then show ?thesis
    using False map_fst_collect [OF batch_order_sorted [OF assms(1)], of es since_id]
    by (simp add: pk_collect_batches_after_scoped_def encode_container_parts log_batches_def)
qed

section \<open>Reading entries\<close>

lemma takeWhile_drop_sorted:
  fixes f :: "'a \<Rightarrow> nat"
  assumes "sorted_wrt (<) (map f xs)"
  shows "drop (length (takeWhile (\<lambda>x. f x \<le> n) xs)) xs = filter (\<lambda>x. n < f x) xs"
proof -
  have "dropWhile (\<lambda>x. f x \<le> n) xs = filter (\<lambda>x. n < f x) xs"
    using assms
  proof (induction xs)
    case (Cons x xs)
    show ?case
    proof (cases "f x \<le> n")
      case False
      then have "\<forall>y \<in> set xs. n < f y" using Cons.prems by auto
      then show ?thesis using False by simp
    qed (use Cons in simp)
  qed simp
  then show ?thesis by (simp add: dropWhile_eq_drop)
qed

lemma offsets_are_stream:
  "map (\<lambda>r. read_entry_at (encode_container es h) (eor_entry_offset r)) (pk_entry_offsets (encode_container es h)) = es"
  by (intro nth_equalityI) (simp_all add: encode_container_parts read_entry_at_def)

lemma offsets_ids: "map eor_entry_id (pk_entry_offsets (encode_container es h)) = map entry_id es"
  by (intro nth_equalityI) (simp_all add: encode_container_parts)

lemma entries_after_encoded:
  assumes "sorted_wrt (<) (map entry_id es)"
  shows "pk_entries_after (encode_container es h) since_id = Inr (filter (\<lambda>e. since_id < entry_id e) es)"
proof -
  let ?offs = "pk_entry_offsets (encode_container es h)"
  have "length (takeWhile (\<lambda>r. eor_entry_id r \<le> since_id) ?offs)
      = length (takeWhile (\<lambda>i. i \<le> since_id) (map eor_entry_id ?offs))"
    by (simp add: takeWhile_map comp_def)
  also have "\<dots> = length (takeWhile (\<lambda>e. entry_id e \<le> since_id) es)"
    unfolding offsets_ids by (simp add: takeWhile_map comp_def)
  finally show ?thesis
    using takeWhile_drop_sorted [OF assms, of since_id] offsets_are_stream [of es h]
    by (simp add: pk_entries_after_def encode_container_parts(9) drop_map [symmetric] Let_def)
qed

lemma recent_entries_encoded: "pk_recent_entries (encode_container es h) count = take count (rev es)"
proof -
  have "map (\<lambda>r. read_entry_at (encode_container es h) (eor_entry_offset r))
      (take n (rev (pk_entry_offsets (encode_container es h)))) = take n (rev es)" for n
    by (simp only: take_map [symmetric] rev_map [symmetric] offsets_are_stream)
  then show ?thesis by (auto simp: pk_recent_entries_def encode_container_parts min_def)
qed

lemma entry_range_encoded:
  "entry_range (encode_container es h) = (if es = [] then None else Some (entry_id (hd es), entry_id (last es)))"
  by (cases "es = []") (auto simp: entry_range_def encode_container_parts hd_map last_map last_conv_nth hd_conv_nth)

end
