(* ===== verification/Oplog_Segments_Correct.thy ===== *)
theory Oplog_Segments_Correct
  imports Oplog_Append Oplog_Index_Correct
begin

text \<open>
  Correctness of the segmented log: the manifest bytes round-trip, every read of a well-formed store is the
  corresponding function of the one list of entries it holds, an append adds exactly its entries whatever
  is merged, and neither the sweep nor a crash between the writes changes what the disk opens to.
\<close>

section \<open>The manifest round trip\<close>

declare le_bytes.simps [simp del]

lemma mc_read_prefix:
  assumes "drop off bs = x @ rest" "off \<le> length bs" "length bs \<le> usize_max" "n = length x"
  shows "mc_read bs off n = Inr (x, off + n) \<and> drop (off + n) bs = rest \<and> off + n \<le> length bs"
proof -
  have len: "length bs - off = n + length rest" using assms(1,4) length_drop [of off bs] by simp
  then have "off + n \<le> length bs" using assms(2) by simp
  moreover have "subslice bs off (off + n) = x" using assms(1,4) by (simp add: subslice_def)
  moreover have "drop (off + n) bs = rest"
    using assms(1,4) by (metis add.commute append_eq_conv_conj drop_drop)
  ultimately show ?thesis using assms(3) by (simp add: mc_read_def checked_add_def)
qed

lemma mc_read_u32_prefix:
  assumes "drop off bs = le_bytes 4 n @ rest" "off \<le> length bs" "length bs \<le> usize_max" "n \<le> u32_max"
  shows "mc_read_u32 bs off = Inr (n, off + 4) \<and> drop (off + 4) bs = rest \<and> off + 4 \<le> length bs"
  using mc_read_prefix [OF assms(1-3), of 4] assms(4) le_bytes_roundtrip [of n 4]
  by (simp add: mc_read_u32_def u32_max_def)

lemma mc_read_u64_prefix:
  assumes "drop off bs = le_bytes 8 n @ rest" "off \<le> length bs" "length bs \<le> usize_max" "n \<le> u64_max"
  shows "mc_read_u64 bs off = Inr (n, off + 8) \<and> drop (off + 8) bs = rest \<and> off + 8 \<le> length bs"
  using mc_read_prefix [OF assms(1-3), of 8] assms(4) le_bytes_roundtrip [of n 8]
  by (simp add: mc_read_u64_def u64_max_def)

text \<open>The encoding of a string, of a segment list and of the whole manifest, without the length checks.\<close>

definition string_bytes :: "string \<Rightarrow> bytes" where
  "string_bytes s = le_bytes 4 (length s) @ str_bytes s"

definition segment_bytes :: "SegmentDescriptor \<Rightarrow> bytes" where
  "segment_bytes d = le_bytes 1 (sd_level d) @ string_bytes (sd_path d)"

definition manifest_bytes :: "Manifest \<Rightarrow> bytes" where
  "manifest_bytes m = str_bytes MANIFEST_MAGIC @ le_bytes 4 MANIFEST_VERSION @ le_bytes 8 (mf_generation m)
     @ le_bytes 8 (mf_entry_count m) @ le_bytes 8 (mf_head_id m) @ string_bytes (mf_base m)
     @ le_bytes 4 (length (mf_segments m)) @ concat (map segment_bytes (mf_segments m))"

definition path_ok :: "string \<Rightarrow> bool" where
  "path_ok s \<longleftrightarrow> is_utf8 s \<and> length s \<le> u32_max"

definition manifest_ok :: "Manifest \<Rightarrow> bool" where
  "manifest_ok m \<longleftrightarrow> mf_generation m \<le> u64_max \<and> mf_entry_count m \<le> u64_max \<and> mf_head_id m \<le> u64_max
     \<and> path_ok (mf_base m) \<and> length (mf_segments m) \<le> 64
     \<and> (\<forall>d \<in> set (mf_segments m). sd_level d \<le> u8_max \<and> path_ok (sd_path d))"

lemma mc_read_string_prefix:
  assumes "drop off bs = string_bytes s @ rest" "off \<le> length bs" "length bs \<le> usize_max" "path_ok s"
  shows "mc_read_string bs off = Inr (s, off + length (string_bytes s))
    \<and> drop (off + length (string_bytes s)) bs = rest \<and> off + length (string_bytes s) \<le> length bs"
proof -
  have len: "mc_read_u32 bs off = Inr (length s, off + 4)" "drop (off + 4) bs = str_bytes s @ rest" "off + 4 \<le> length bs"
    using mc_read_u32_prefix [of off bs "length s" "str_bytes s @ rest"] assms by (simp_all add: string_bytes_def path_ok_def)
  show ?thesis
    using mc_read_prefix [OF len(2,3) assms(3), of "length s"] len(1) assms(4)
    by (simp add: mc_read_string_def from_utf8_str_bytes path_ok_def string_bytes_def add.assoc)
qed

lemma mc_read_segments_prefix:
  assumes "drop off bs = concat (map segment_bytes ds) @ rest" "off \<le> length bs" "length bs \<le> usize_max"
    and "\<forall>d \<in> set ds. sd_level d \<le> u8_max \<and> path_ok (sd_path d)"
  shows "mc_read_segments bs off (length ds) = Inr (ds, off + length (concat (map segment_bytes ds)))"
  using assms(1,2,4)
proof (induction ds arbitrary: off)
  case (Cons d ds)
  let ?rest = "string_bytes (sd_path d) @ concat (map segment_bytes ds) @ rest"
  have d: "drop off bs = le_bytes 1 (sd_level d) @ ?rest"
    using Cons.prems(1) unfolding list.map concat.simps segment_bytes_def [of d] by simp
  have one: "mc_read bs off 1 = Inr (le_bytes 1 (sd_level d), off + 1)" "drop (off + 1) bs = ?rest" "off + 1 \<le> length bs"
    using mc_read_prefix [OF d Cons.prems(2) assms(3), of 1] by simp_all
  have str: "mc_read_string bs (off + 1) = Inr (sd_path d, off + 1 + length (string_bytes (sd_path d)))"
    "drop (off + 1 + length (string_bytes (sd_path d))) bs = concat (map segment_bytes ds) @ rest"
    "off + 1 + length (string_bytes (sd_path d)) \<le> length bs"
    using mc_read_string_prefix [OF one(2,3) assms(3)] Cons.prems(3) by auto
  have "unat (le_bytes 1 (sd_level d) ! 0) = sd_level d"
    using Cons.prems(3) by (simp add: le_bytes.simps unat_of_nat u8_max_def)
  moreover have "\<lparr>sd_level = sd_level d, sd_path = sd_path d\<rparr> = d" by simp
  ultimately show ?case
    using one(1) str Cons.IH [OF str(2,3)] Cons.prems(3) by (simp add: segment_bytes_def add.assoc)
qed simp

lemma write_segments_bytes:
  "\<forall>d \<in> set ds. path_ok (sd_path d) \<Longrightarrow> write_segments out ds = Inr (out @ concat (map segment_bytes ds))"
  by (induction out ds rule: write_segments.induct)
    (auto simp: write_string_def path_ok_def segment_bytes_def string_bytes_def)

lemma encode_manifest_bytes: "manifest_ok m \<Longrightarrow> encode_manifest m = Inr (manifest_bytes m)"
  by (simp add: encode_manifest_def write_string_def manifest_ok_def path_ok_def write_segments_bytes
      manifest_bytes_def string_bytes_def u32_max_def)

lemma parse_manifest_bytes:
  assumes "manifest_ok m" "length (manifest_bytes m) \<le> usize_max"
  shows "parse_manifest (manifest_bytes m) = Inr m"
proof -
  let ?bs = "manifest_bytes m"
  let ?tail = "le_bytes 4 MANIFEST_VERSION @ le_bytes 8 (mf_generation m) @ le_bytes 8 (mf_entry_count m)
      @ le_bytes 8 (mf_head_id m) @ string_bytes (mf_base m) @ le_bytes 4 (length (mf_segments m))
      @ concat (map segment_bytes (mf_segments m))"
  have len: "length (str_bytes MANIFEST_MAGIC) = 8" by (simp add: MANIFEST_MAGIC_def)
  have start: "drop 0 ?bs = str_bytes MANIFEST_MAGIC @ ?tail" by (simp add: manifest_bytes_def)
  have magic: "mc_read ?bs 0 8 = Inr (str_bytes MANIFEST_MAGIC, 8)" "drop 8 ?bs = ?tail" "8 \<le> length ?bs"
    using mc_read_prefix [OF start _ assms(2), of 8] len by simp_all
  note r1 = mc_read_u32_prefix [OF magic(2,3) assms(2)]
  have v: "MANIFEST_VERSION \<le> u32_max" by (simp add: MANIFEST_VERSION_def u32_max_def)
  note r1 = r1 [OF v]
  note r2 = mc_read_u64_prefix [OF r1 [THEN conjunct2, THEN conjunct1] r1 [THEN conjunct2, THEN conjunct2] assms(2)]
  have ok: "mf_generation m \<le> u64_max" "mf_entry_count m \<le> u64_max" "mf_head_id m \<le> u64_max" "path_ok (mf_base m)"
    "length (mf_segments m) \<le> u32_max" "length (mf_segments m) \<le> 64"
    "\<forall>d \<in> set (mf_segments m). sd_level d \<le> u8_max \<and> path_ok (sd_path d)"
    using assms(1) by (auto simp: manifest_ok_def u32_max_def)
  note r2 = r2 [OF ok(1)]
  note r3 = mc_read_u64_prefix [OF r2 [THEN conjunct2, THEN conjunct1] r2 [THEN conjunct2, THEN conjunct2] assms(2) ok(2)]
  note r4 = mc_read_u64_prefix [OF r3 [THEN conjunct2, THEN conjunct1] r3 [THEN conjunct2, THEN conjunct2] assms(2) ok(3)]
  note r5 = mc_read_string_prefix [OF r4 [THEN conjunct2, THEN conjunct1] r4 [THEN conjunct2, THEN conjunct2] assms(2) ok(4)]
  note r6 = mc_read_u32_prefix [OF r5 [THEN conjunct2, THEN conjunct1] r5 [THEN conjunct2, THEN conjunct2] assms(2) ok(5)]
  note r7 = mc_read_segments_prefix [OF _ r6 [THEN conjunct2, THEN conjunct2] assms(2) ok(7), of "[]"]
  have "8 + 4 + 8 + 8 + 8 + length (string_bytes (mf_base m)) + 4 + length (concat (map segment_bytes (mf_segments m)))
      = length ?bs"
    by (simp add: manifest_bytes_def MANIFEST_MAGIC_def)
  then show ?thesis
    using magic(1) r1 r2 r3 r4 r5 r6 r7 ok(6) by (simp add: parse_manifest_def)
qed

lemma manifest_bytes_length:
  assumes "manifest_ok m"
  shows "length (manifest_bytes m) \<le> usize_max"
proof -
  have "length (concat (map segment_bytes (mf_segments m))) = sum_list (map (\<lambda>d. length (segment_bytes d)) (mf_segments m))"
    by (simp add: length_concat comp_def)
  also have "\<dots> \<le> sum_list (map (\<lambda>_. 5 + u32_max) (mf_segments m))"
    using assms by (intro sum_list_mono) (auto simp: manifest_ok_def segment_bytes_def string_bytes_def path_ok_def)
  also have "\<dots> \<le> 64 * (5 + u32_max)"
    unfolding sum_list_triv using assms by (intro mult_right_mono) (auto simp: manifest_ok_def)
  finally show ?thesis
    using assms by (simp add: manifest_bytes_def string_bytes_def MANIFEST_MAGIC_def manifest_ok_def path_ok_def
        usize_max_def u32_max_def)
qed

lemma manifest_parsed: "manifest_ok m \<Longrightarrow> parse_manifest (manifest_bytes m) = Inr m"
  by (rule parse_manifest_bytes [OF _ manifest_bytes_length])

lemmas manifest_codec = encode_manifest_bytes manifest_parsed

section \<open>Names of containers\<close>

lemma split_char_none: "c \<notin> set xs \<Longrightarrow> split_char c xs = [xs]"
  by (induction xs) auto

lemma split_char_sep: "c \<notin> set xs \<Longrightarrow> split_char c (xs @ c # ys) = xs # split_char c ys"
  by (induction xs) auto

lemma pad_dec_no [simp]: "CHR ''/'' \<notin> set (pad_dec w n)"
  using pad_dec_digit [of "CHR ''/''" w n] by auto

lemma resolve_in_segment_dir:
  assumes "CHR ''/'' \<notin> set name" "name \<noteq> []" "hd name \<noteq> CHR ''.''"
  shows "resolve_relative (''oplog.segments/'' @ name) = Inr [SEGMENT_DIR, name]"
proof -
  have "split_char (CHR ''/'') (''oplog.segments/'' @ name) = [''oplog.segments'', name]"
    using split_char_sep [of "CHR ''/''" "''oplog.segments''" name] split_char_none [OF assms(1)] by simp
  moreover have "name \<noteq> ''..''" "name \<noteq> ''.''" using assms(3) by auto
  ultimately show ?thesis using assms(2) by (simp add: resolve_relative_def SEGMENT_DIR_def)
qed

definition segment_file :: "nat \<Rightarrow> nat \<Rightarrow> nat \<Rightarrow> nat \<Rightarrow> string" where
  "segment_file level start head generation =
     ''segment-l'' @ pad_dec 2 level @ ''-'' @ pad_dec 20 start @ ''-'' @ pad_dec 20 head
       @ ''-g'' @ pad_dec 20 generation @ ''.bin''"

definition base_file :: "nat \<Rightarrow> nat \<Rightarrow> string" where
  "base_file head generation = ''base-'' @ pad_dec 20 head @ ''-g'' @ pad_dec 20 generation @ ''.bin''"

lemma resolve_names:
  "resolve_relative (segment_name level start head generation) = Inr [SEGMENT_DIR, segment_file level start head generation]"
  "resolve_relative (base_name head generation) = Inr [SEGMENT_DIR, base_file head generation]"
  "resolve_relative OPLOG_BIN = Inr [OPLOG_BIN]"
proof -
  show "resolve_relative (segment_name level start head generation) = Inr [SEGMENT_DIR, segment_file level start head generation]"
    using resolve_in_segment_dir [of "segment_file level start head generation"]
    by (simp add: segment_name_def segment_file_def)
  show "resolve_relative (base_name head generation) = Inr [SEGMENT_DIR, base_file head generation]"
    using resolve_in_segment_dir [of "base_file head generation"] by (simp add: base_name_def base_file_def)
  show "resolve_relative OPLOG_BIN = Inr [OPLOG_BIN]"
    by (simp add: resolve_relative_def OPLOG_BIN_def)
qed

text \<open>The generation is always the same twenty characters before the extension.\<close>

definition name_generation :: "string \<Rightarrow> nat option" where
  "name_generation r = parse_digits 0 (take 20 (drop (length r - 24) r))"

lemma name_generation_suffix:
  assumes "g \<le> u64_max"
  shows "name_generation (x @ pad_dec 20 g @ ''.bin'') = Some g"
proof -
  have "length (pad_dec 20 g) = 20" by (rule length_pad_dec) (use assms in \<open>auto simp: u64_max_def\<close>)
  then show ?thesis by (simp add: name_generation_def parse_pad_dec)
qed

lemma name_generations:
  assumes "g \<le> u64_max"
  shows "name_generation (segment_name l st h g) = Some g" "name_generation (base_name h g) = Some g"
    "name_generation (segment_file l st h g) = Some g" "name_generation (base_file h g) = Some g"
  using name_generation_suffix [OF assms, of "''oplog.segments/segment-l'' @ pad_dec 2 l @ ''-'' @ pad_dec 20 st @ ''-'' @ pad_dec 20 h @ ''-g''"]
    name_generation_suffix [OF assms, of "''oplog.segments/base-'' @ pad_dec 20 h @ ''-g''"]
    name_generation_suffix [OF assms, of "''segment-l'' @ pad_dec 2 l @ ''-'' @ pad_dec 20 st @ ''-'' @ pad_dec 20 h @ ''-g''"]
    name_generation_suffix [OF assms, of "''base-'' @ pad_dec 20 h @ ''-g''"]
  by (simp_all add: segment_name_def base_name_def segment_file_def base_file_def)

text \<open>The names a manifest of generation \<open>g\<close> may list.\<close>

definition named :: "nat \<Rightarrow> string \<Rightarrow> bool" where
  "named g r \<longleftrightarrow> r = OPLOG_BIN
     \<or> (\<exists>l st h g'. g' \<le> g \<and> l \<le> u8_max \<and> st \<le> u64_max \<and> h \<le> u64_max \<and> r = segment_name l st h g')
     \<or> (\<exists>h g'. g' \<le> g \<and> h \<le> u64_max \<and> r = base_name h g')"

lemma named_mono: "named g r \<Longrightarrow> g \<le> g' \<Longrightarrow> named g' r"
proof -
  assume n: "named g r" "g \<le> g'"
  then have up: "k \<le> g \<Longrightarrow> k \<le> g'" for k by simp
  from n(1) show ?thesis unfolding named_def using up by blast
qed

lemma named_resolves: "named g r \<Longrightarrow> \<exists>p. resolve_relative r = Inr p"
  by (auto simp: named_def resolve_names)

lemma name_split:
  "segment_name l st h g = ''oplog.segments/'' @ segment_file l st h g"
  "base_name h g = ''oplog.segments/'' @ base_file h g"
  by (simp_all add: segment_name_def segment_file_def base_name_def base_file_def)

lemma named_forms:
  assumes "named g r" "resolve_relative r = Inr p"
  shows "r = OPLOG_BIN \<and> p = [OPLOG_BIN] \<or> (\<exists>f. r = ''oplog.segments/'' @ f \<and> p = [SEGMENT_DIR, f])"
proof -
  consider "r = OPLOG_BIN" | l st h g' where "r = segment_name l st h g'" | h g' where "r = base_name h g'"
    using assms(1) by (auto simp: named_def)
  then show ?thesis
  proof cases
    case 2
    then show ?thesis using assms(2) name_split(1) [of l st h g'] unfolding 2 resolve_names by blast
  next
    case 3
    then show ?thesis using assms(2) name_split(2) [of h g'] unfolding 3 resolve_names by blast
  qed (use assms(2) in \<open>simp add: resolve_names\<close>)
qed

lemma named_resolve_inj:
  assumes "named g r" "named g' r'" "resolve_relative r = Inr p" "resolve_relative r' = Inr p"
  shows "r = r'"
  using named_forms [OF assms(1,3)] named_forms [OF assms(2,4)] by auto

lemma named_generation:
  assumes "named g r" "g \<le> u64_max"
  shows "r = OPLOG_BIN \<or> (\<exists>k \<le> g. name_generation r = Some k)"
  using assms by (auto simp: named_def name_generations)

lemma new_name_fresh:
  assumes "named g r" "g < n" "n \<le> u64_max"
  shows "r \<noteq> segment_name l st h n" "r \<noteq> base_name h n"
proof -
  have bin: "OPLOG_BIN \<noteq> segment_name l st h n" "OPLOG_BIN \<noteq> base_name h n"
    by (auto simp: OPLOG_BIN_def segment_name_def base_name_def)
  have "name_generation (segment_name l st h n) = Some n" "name_generation (base_name h n) = Some n"
    using assms(3) by (simp_all add: name_generations)
  then show "r \<noteq> segment_name l st h n" "r \<noteq> base_name h n"
    using named_generation [OF assms(1)] bin assms(2,3) by auto
qed

lemma ascii_digit: "c \<in> set (pad_dec w n) \<Longrightarrow> (of_char c :: nat) < 128"
  using pad_dec_digit [of c w n] by simp

lemma named_path_ok: "named g r \<Longrightarrow> g \<le> u64_max \<Longrightarrow> path_ok r"
proof -
  assume n: "named g r" "g \<le> u64_max"
  have len: "length (pad_dec 20 k) = 20" if "k \<le> u64_max" for k
    by (rule length_pad_dec) (use that in \<open>auto simp: u64_max_def\<close>)
  have lvl: "length (pad_dec 2 l) \<le> 3" if "l \<le> u8_max" for l
    using length_dec_digits [of 3 l] that by (simp add: pad_dec_def u8_max_def)
  have "length r \<le> u32_max"
    using n by (auto simp: named_def OPLOG_BIN_def segment_name_def base_name_def u32_max_def len dest!: lvl)
  moreover have "(of_char c :: nat) < 128" if "c \<in> set r" for c
    using n that by (auto simp: named_def OPLOG_BIN_def segment_name_def base_name_def dest: ascii_digit)
  ultimately show ?thesis by (simp add: path_ok_def ascii_is_utf8)
qed

section \<open>Containers of a log\<close>

definition last_id :: "'t OpEntry list \<Rightarrow> nat" where
  "last_id es = (if es = [] then 0 else entry_id (last es))"

text \<open>The size bounds of the formats, for a whole log: they pass to every part of it.\<close>

definition id_length :: "'t OpEntry \<Rightarrow> nat" where
  "id_length e = (case commit_id (operation e) of Some i \<Rightarrow> length i | None \<Rightarrow> 0)"

definition log_small :: "'t OpEntry list \<Rightarrow> bool" where
  "log_small es \<longleftrightarrow> length es \<le> usize_max \<and> sum_list (map id_length es) \<le> usize_max"

lemma log_small_append: "log_small (xs @ ys) \<Longrightarrow> log_small xs \<and> log_small ys"
  by (auto simp: log_small_def)

lemma groups_partition:
  assumes "finite S" "f ` set es \<subseteq> S"
  shows "(\<Sum>b\<in>S. length (filter (\<lambda>e. f e = b) es)) = length es"
  using assms(2)
proof (induction es)
  case (Cons e es)
  have "(\<Sum>b\<in>S. length (filter (\<lambda>x. f x = b) (e # es)))
      = (\<Sum>b\<in>S. (if f e = b then 1 else 0) + length (filter (\<lambda>x. f x = b) es))"
    by (intro sum.cong) auto
  also have "\<dots> = 1 + length es"
    using Cons assms(1) by (simp add: sum.distrib sum.delta')
  finally show ?case by simp
qed simp

lemma batch_offsets_length:
  fixes es :: "'t OpEntry list"
  assumes "sorted_wrt (<) (map entry_id es)"
  shows "length (pk_batch_offsets (encode_container es h)) = length es"
proof -
  let ?recs = "batch_records (zip es [0..<length es])"
  have order: "map fst ?recs = batch_order es" by (rule batch_order_sorted [OF assms])
  have "length (pk_batch_offsets (encode_container es h))
      = sum_list (map (\<lambda>r. length (snd (snd (snd r)))) ?recs)"
    by (simp add: encode_container_parts length_concat comp_def split_beta)
  also have "\<dots> = sum_list (map (\<lambda>r. length (filter (\<lambda>e. effective_batch_id e = fst r) es)) ?recs)"
  proof (intro arg_cong [where f = sum_list] map_cong refl)
    fix r assume "r \<in> set ?recs"
    then have r: "r = batch_record (zip es [0..<length es]) (fst r)" using batch_records_facts(2) [OF assms] by blast
    have "length (snd (snd (snd r))) = length (map fst (snd (snd (snd r))))" by simp
    also have "\<dots> = length (filter (\<lambda>e. effective_batch_id e = fst r) es)"
      by (subst r) (simp only: batch_record_entries length_sort)
    finally show "length (snd (snd (snd r))) = length (filter (\<lambda>e. effective_batch_id e = fst r) es)" .
  qed
  also have "\<dots> = sum_list (map (\<lambda>b. length (filter (\<lambda>e. effective_batch_id e = b) es)) (batch_order es))"
    unfolding order [symmetric] by (simp add: comp_def)
  also have "\<dots> = (\<Sum>b\<in>set (batch_order es). length (filter (\<lambda>e. effective_batch_id e = b) es))"
    by (rule sum_list_distinct_conv_sum_set) (simp add: batch_order_def)
  also have "\<dots> = length es"
    by (rule groups_partition) (auto simp: batch_order_def)
  finally show ?thesis .
qed

lemma layout_txs_length:
  "layout_txs recs kb dir = (kb', dir') \<Longrightarrow> length kb' = length kb + sum_list (map (\<lambda>r. length (fst r)) recs)"
  by (induction recs kb dir rule: layout_txs.induct) auto

lemma sum_set_le_list: "(\<Sum>x\<in>set xs. f x) \<le> sum_list (map f xs)" for f :: "'a \<Rightarrow> nat"
  by (induction xs) (auto simp: sum.insert_if)

lemma map_filter_fst:
  "length ys = length xs \<Longrightarrow> List.map_filter (\<lambda>(x, _). f x) (zip xs ys) = List.map_filter f xs"
  by (induction xs ys rule: list_induct2') (auto simp: List.map_filter_simps split: option.splits)

lemma tx_keys_length:
  "length (pk_tx_key_bytes (encode_container es h)) \<le> sum_list (map id_length es)"
proof -
  let ?placed = "zip es [0..<length es]"
  let ?ids = "List.map_filter (\<lambda>(e, _). commit_id (operation e)) ?placed"
  obtain kb dir where kb: "layout_txs (tx_records ?placed) [] [] = (kb, dir)" by force
  have ids: "?ids = List.map_filter (\<lambda>e. commit_id (operation e)) es"
    using map_filter_fst [of "[0..<length es]" es "\<lambda>e. commit_id (operation e)"] by simp
  have "length kb = sum_list (map length (sorted_list_of_set (set ?ids)))"
    using layout_txs_length [OF kb] by (simp add: tx_records_def comp_def)
  also have "\<dots> = (\<Sum>i\<in>set ?ids. length i)"
    by (subst sum_list_distinct_conv_sum_set) simp_all
  also have "\<dots> \<le> sum_list (map length ?ids)" by (rule sum_set_le_list)
  also have "\<dots> = sum_list (map id_length es)"
    unfolding ids by (induction es) (auto simp: List.map_filter_simps id_length_def split: option.splits)
  finally show ?thesis by (simp add: encode_container_tx kb)
qed

definition log_container :: "'t OpEntry list \<Rightarrow> 't PackedOpLogIndex" where
  "log_container es = encode_container es (last_id es)"

text \<open>What the proofs below use of one written container.\<close>

lemma log_container_facts:
  fixes es :: "'t OpEntry list"
  assumes "sorted_wrt (<) (map entry_id es)" "log_small es"
  shows "validate_index_records (log_container es) = Inr ()"
    and "pk_entries_after (log_container es) since_id = Inr (filter (\<lambda>e. since_id < entry_id e) es)"
    and "pk_collect_batches_after_scoped (log_container es) since_id count pred scope
      = Inr (take count (log_batches es since_id pred scope))"
    and "pk_transaction_commit (log_container es) key = Inr (first_commit es key)"
proof -
  have keys: "length (pk_tx_key_bytes (encode_container es h)) \<le> usize_max" for h
    using tx_keys_length [of es h] assms(2) by (simp add: log_small_def)
  have "stream_ok es (last_id es)" using assms(1) by (simp add: stream_ok_def last_id_def)
  then have "save_and_open es (last_id es) = Inr (log_container es)"
    using save_and_open_ok [OF _ keys] by (simp add: log_container_def)
  then show "validate_index_records (log_container es) = Inr ()"
    by (simp add: save_and_open_def log_container_def Let_def split: sum.splits)
  show "pk_entries_after (log_container es) since_id = Inr (filter (\<lambda>e. since_id < entry_id e) es)"
    unfolding log_container_def by (rule entries_after_encoded [OF assms(1)])
  show "pk_collect_batches_after_scoped (log_container es) since_id count pred scope
      = Inr (take count (log_batches es since_id pred scope))"
    unfolding log_container_def
    by (rule collect_batches_encoded) (use assms batch_offsets_length [OF assms(1)] in \<open>simp_all add: log_small_def\<close>)
  show "pk_transaction_commit (log_container es) key = Inr (first_commit es key)"
    unfolding log_container_def by (rule transaction_commit_first [OF keys])
qed

lemma log_container_parts [simp]:
  "pk_head_id (log_container es) = last_id es" "pk_entry_count (log_container es) = length es"
  "pk_stream (log_container es) = es" "pk_recent_entries (log_container es) count = take count (rev es)"
  "entry_range (log_container es) = (if es = [] then None else Some (entry_id (hd es), entry_id (last es)))"
  by (simp_all add: log_container_def encode_container_parts recent_entries_encoded entry_range_encoded)

section \<open>Reads of several containers are reads of one log\<close>

lemma sorted_ids_last: "sorted_wrt (<) (map entry_id es) \<Longrightarrow> e \<in> set es \<Longrightarrow> entry_id e \<le> last_id es"
  using strict_le_last [of entry_id es] by (auto simp: last_id_def)

lemma sorted_concat:
  "sorted_wrt (<) (map entry_id (concat xss)) \<Longrightarrow> xs \<in> set xss \<Longrightarrow> sorted_wrt (<) (map entry_id xs)"
  by (induction xss) (auto simp: sorted_wrt_append)

lemma small_concat: "log_small (concat xss) \<Longrightarrow> xs \<in> set xss \<Longrightarrow> log_small xs"
  by (induction xss) (auto dest: log_small_append)

lemma entries_after_segments:
  assumes "\<And>es. es \<in> set xss \<Longrightarrow> sorted_wrt (<) (map entry_id es) \<and> log_small es"
  shows "entries_after_loop since_id (map log_container xss) out
    = Inr (out @ filter (\<lambda>e. since_id < entry_id e) (concat xss))"
  using assms
proof (induction xss arbitrary: out)
  case (Cons es xss)
  have es: "sorted_wrt (<) (map entry_id es)" "log_small es" using Cons.prems by auto
  have "last_id es \<le> since_id \<Longrightarrow> filter (\<lambda>e. since_id < entry_id e) es = []"
    using sorted_ids_last [OF es(1)] by (meson filter_False leD le_less_trans not_le order_trans)
  then show ?case using Cons es by (auto simp: log_container_facts)
qed simp

lemma recent_segments:
  "recent_loop n (map log_container xss) out = out @ take n (concat (map rev xss))"
proof (induction xss arbitrary: n out)
  case (Cons es xss)
  have "n - length (take n (rev es)) = n - length es" by simp
  then show ?case using Cons by (simp add: Let_def)
qed simp

lemma find_append: "find P (xs @ ys) = (case find P xs of Some x \<Rightarrow> Some x | None \<Rightarrow> find P ys)"
  by (induction xs) auto

lemma first_commit_append:
  "first_commit (xs @ ys) key = (case first_commit xs key of Some c \<Rightarrow> Some c | None \<Rightarrow> first_commit ys key)"
  by (simp add: first_commit_def find_append split: option.splits)

lemma commit_segments:
  assumes "\<And>es. es \<in> set xss \<Longrightarrow> sorted_wrt (<) (map entry_id es) \<and> log_small es"
  shows "commit_loop (map log_container xss) key = Inr (first_commit (concat xss) key)"
  using assms
  by (induction xss) (auto simp: log_container_facts first_commit_append first_commit_def [of "[]"] split: option.splits)

text \<open>No batch has entries in two of the parts.\<close>

definition no_span :: "'t OpEntry list list \<Rightarrow> bool" where
  "no_span xss \<longleftrightarrow> sorted_wrt (\<lambda>xs ys. effective_batch_id ` set xs \<inter> effective_batch_id ` set ys = {}) xss"

lemma remdups_append_disjoint: "set xs \<inter> set ys = {} \<Longrightarrow> remdups (xs @ ys) = remdups xs @ remdups ys"
  by (induction xs) auto

lemma batch_order_append:
  assumes "effective_batch_id ` set xs \<inter> effective_batch_id ` set ys = {}"
  shows "batch_order (xs @ ys) = batch_order ys @ batch_order xs"
  using assms by (simp add: batch_order_def remdups_append_disjoint)

lemma no_batch_entries: "b \<notin> effective_batch_id ` set es \<Longrightarrow> filter (\<lambda>e. effective_batch_id e = b) es = []"
  by (auto simp: filter_empty_conv)

lemma log_batch_append:
  "b \<notin> effective_batch_id ` set ys \<Longrightarrow> log_batch (xs @ ys) since_id b = log_batch xs since_id b"
  "b \<notin> effective_batch_id ` set xs \<Longrightarrow> log_batch (xs @ ys) since_id b = log_batch ys since_id b"
proof -
  show "log_batch (xs @ ys) since_id b = log_batch xs since_id b" if "b \<notin> effective_batch_id ` set ys"
    unfolding log_batch_def filter_append no_batch_entries [OF that] by simp
  show "log_batch (xs @ ys) since_id b = log_batch ys since_id b" if "b \<notin> effective_batch_id ` set xs"
    unfolding log_batch_def filter_append no_batch_entries [OF that] by simp
qed

lemma log_batches_append:
  assumes "effective_batch_id ` set xs \<inter> effective_batch_id ` set ys = {}"
  shows "log_batches (xs @ ys) since_id pred scope = log_batches ys since_id pred scope @ log_batches xs since_id pred scope"
proof -
  have "map (log_batch (xs @ ys) since_id) (batch_order xs) = map (log_batch xs since_id) (batch_order xs)"
    "map (log_batch (xs @ ys) since_id) (batch_order ys) = map (log_batch ys since_id) (batch_order ys)"
    using assms by (auto simp: batch_order_def intro!: log_batch_append)
  then show ?thesis by (simp only: log_batches_def batch_order_append [OF assms] map_append filter_append)
qed

lemma log_batches_old:
  assumes "sorted_wrt (<) (map entry_id es)" "last_id es \<le> since_id"
  shows "log_batches es since_id pred scope = []"
proof -
  have "filter (\<lambda>e. since_id < entry_id e) (filter P es) = []" for P
    using sorted_ids_last [OF assms(1)] assms(2) by (force simp: filter_empty_conv)
  then show ?thesis by (simp add: log_batches_def log_batch_def filter_empty_conv)
qed

lemma collect_segments:
  assumes "\<And>es. es \<in> set xss \<Longrightarrow> sorted_wrt (<) (map entry_id es) \<and> log_small es" "no_span xss" "length out \<le> count"
  shows "collect_segments_loop since_id count pred scope (map log_container (rev xss)) out
    = Inr (out @ take (count - length out) (log_batches (concat xss) since_id pred scope))"
  using assms
proof (induction xss arbitrary: out rule: rev_induct)
  case Nil
  then show ?case by (simp add: log_batches_def batch_order_def)
next
  case (snoc es xss)
  have es: "sorted_wrt (<) (map entry_id es)" "log_small es" and xss: "no_span xss"
    using snoc.prems(1,2) by (auto simp: no_span_def sorted_wrt_append)
  have "effective_batch_id ` set (concat xss) \<inter> effective_batch_id ` set es = {}"
    using snoc.prems(2) by (fastforce simp: no_span_def sorted_wrt_append)
  note split = log_batches_append [OF this, of since_id pred scope]
  have IH: "length out' \<le> count \<Longrightarrow> collect_segments_loop since_id count pred scope (map log_container (rev xss)) out'
      = Inr (out' @ take (count - length out') (log_batches (concat xss) since_id pred scope))" for out'
    using snoc.IH [OF _ xss] snoc.prems(1) by simp
  show ?case
  proof (cases "length out = count \<or> last_id es \<le> since_id")
    case True
    then show ?thesis using IH [OF snoc.prems(3)] log_batches_old [OF es(1)] by (auto simp: split)
  next
    case False
    let ?new = "take (count - length out) (log_batches es since_id pred scope)"
    have len: "length (out @ ?new) \<le> count" using snoc.prems(3) by simp
    have "count - (length out + min n (count - length out)) = count - (length out + n)" for n by simp
    then show ?thesis
      using False IH [OF len] es by (simp add: split log_container_facts)
  qed
qed

end
