(* ===== verification/Oplog_Append_Correct.thy ===== *)
theory Oplog_Append_Correct
  imports Oplog_Segments_Correct
begin

text \<open>
  The segmented log keeps its invariant: a store that represents a list of streams is opened from disk as
  it was written, an append adds its entries at the end and merges like a binary counter, a replacement
  sets the whole log, and no crash between the writes is visible to a reader.
\<close>

declare upt_Suc [simp del]

section \<open>The invariant\<close>

definition weight :: "SegmentDescriptor list \<Rightarrow> nat" where
  "weight ds = sum_list (map (\<lambda>d. 2 ^ sd_level d) ds)"

text \<open>The store holds the streams \<open>xss\<close>, the base first; the whole log is their concatenation.\<close>

definition represents :: "'t SegmentedOpLogIndex \<Rightarrow> 't OpEntry list list \<Rightarrow> bool" where
  "represents s xss \<longleftrightarrow>
     sg_base s # sg_segments s = map log_container xss
     \<and> [] \<notin> set (drop 1 xss)
     \<and> map entry_id (concat xss) = [1..<Suc (length (concat xss))]
     \<and> no_span xss \<and> log_small (concat xss)
     \<and> mf_entry_count (sg_manifest s) = length (concat xss) \<and> mf_head_id (sg_manifest s) = length (concat xss)
     \<and> length (mf_segments (sg_manifest s)) = length (sg_segments s)
     \<and> mf_generation (sg_manifest s) \<le> u64_max
     \<and> sorted_wrt (>) (map sd_level (mf_segments (sg_manifest s)))
     \<and> weight (mf_segments (sg_manifest s)) \<le> mf_generation (sg_manifest s)
     \<and> (\<forall>r \<in> set (container_paths (sg_manifest s)). named (mf_generation (sg_manifest s)) r)
     \<and> distinct (container_paths (sg_manifest s))"

definition at_path :: "'t disk \<Rightarrow> string \<Rightarrow> 't PackedOpLogIndex \<Rightarrow> bool" where
  "at_path d r ix \<longleftrightarrow> (\<exists>p. resolve_relative r = Inr p \<and> dk_files d p = Some ix)"

lemma at_path_manifest [simp]: "at_path (d\<lparr>dk_manifest := x\<rparr>) = at_path d"
  by (intro ext) (simp add: at_path_def)

definition on_disk :: "'t disk \<Rightarrow> 't SegmentedOpLogIndex \<Rightarrow> bool" where
  "on_disk d s \<longleftrightarrow>
     dk_manifest d = sg_manifest_bytes s
     \<and> (case sg_manifest_bytes s of
          Some bs \<Rightarrow> bs = manifest_bytes (sg_manifest s)
        | None \<Rightarrow> mf_generation (sg_manifest s) = 0 \<and> mf_base (sg_manifest s) = OPLOG_BIN
            \<and> mf_segments (sg_manifest s) = [])
     \<and> list_all2 (at_path d) (container_paths (sg_manifest s)) (sg_base s # sg_segments s)"

lemma sorted_upt_ids: "map entry_id es = [a..<b] \<Longrightarrow> sorted_wrt (<) (map entry_id es)"
  by (simp add: sorted_wrt_upt)

lemma represents_streams:
  assumes "represents s xss" "es \<in> set xss"
  shows "sorted_wrt (<) (map entry_id es)" "log_small es"
proof -
  have log: "map entry_id (concat xss) = [1..<Suc (length (concat xss))]" "log_small (concat xss)"
    using assms(1) unfolding represents_def by blast+
  show "sorted_wrt (<) (map entry_id es)" by (rule sorted_concat [OF sorted_upt_ids [OF log(1)] assms(2)])
  show "log_small es" by (rule small_concat [OF log(2) assms(2)])
qed

lemma weight_level:
  assumes "d \<in> set ds"
  shows "2 ^ sd_level d \<le> weight ds"
  unfolding weight_def using assms by (intro member_le_sum_list) auto

lemma weight_bound:
  assumes "weight ds \<le> u64_max" "d \<in> set ds"
  shows "sd_level d < 64"
proof -
  have "(2 :: nat) ^ sd_level d < 2 ^ 64"
    using weight_level [OF assms(2)] assms(1) by (simp add: u64_max_def)
  then show ?thesis by (rule power_less_imp_less_exp [rotated]) simp
qed

lemma descending_count:
  assumes "sorted_wrt (>) (map sd_level ds)" "weight ds \<le> u64_max"
  shows "length ds \<le> 64"
proof -
  have "distinct (map sd_level ds)" using assms(1) by (induction ds) auto
  then have "length ds = card (sd_level ` set ds)" by (metis distinct_card length_map set_map)
  also have "\<dots> \<le> card {..<64 :: nat}"
    using weight_bound [OF assms(2)] by (intro card_mono) auto
  finally show ?thesis by simp
qed

text \<open>The manifest of a well-formed store is within every bound the parser enforces.\<close>

lemma represents_manifest_ok:
  assumes "represents s xss"
  shows "manifest_ok (sg_manifest s)"
proof -
  have w: "weight (mf_segments (sg_manifest s)) \<le> u64_max" using assms by (simp add: represents_def)
  have "sd_level d \<le> u8_max" if "d \<in> set (mf_segments (sg_manifest s))" for d
    using weight_bound [OF w that] by (simp add: u8_max_def)
  moreover have "path_ok r" if "r \<in> set (container_paths (sg_manifest s))" for r
    using assms that by (intro named_path_ok) (auto simp: represents_def)
  moreover have "length (mf_segments (sg_manifest s)) \<le> 64"
    using assms w by (intro descending_count) (auto simp: represents_def)
  ultimately show ?thesis
    using assms by (auto simp: manifest_ok_def represents_def container_paths_def log_small_def usize_max_def u64_max_def)
qed

section \<open>Opening\<close>

lemma ids_split:
  assumes "map entry_id (xs @ ys) = [a..<b]"
  shows "map entry_id xs = [a..<a + length xs]" "map entry_id ys = [a + length xs..<b]"
proof -
  have len: "length xs + length ys = b - a" using assms by (metis length_append length_map length_upt)
  have "take (length xs) [a..<b] = [a..<a + length xs]"
  proof (cases xs)
    case (Cons x xs')
    then have "a + length xs \<le> b" using len by simp
    then show ?thesis by (rule take_upt)
  qed simp
  then show "map entry_id xs = [a..<a + length xs]"
    using arg_cong [OF assms, of "take (length xs)"] by simp
  show "map entry_id ys = [a + length xs..<b]"
    using arg_cong [OF assms, of "drop (length xs)"] by (simp add: add.commute)
qed

lemma ids_ends:
  assumes "map entry_id es = [a..<a + length es]" "es \<noteq> []"
  shows "entry_id (hd es) = a" "entry_id (last es) = a + length es - 1" "last_id es = a + length es - 1"
proof -
  have "hd (map entry_id es) = a" "last (map entry_id es) = a + length es - 1"
    unfolding assms(1) using assms(2) by (simp_all add: hd_upt last_upt)
  then show "entry_id (hd es) = a" "entry_id (last es) = a + length es - 1" "last_id es = a + length es - 1"
    using assms(2) by (simp_all add: hd_map last_map last_id_def)
qed

lemma check_segments_ok:
  assumes "[] \<notin> set yss" "map entry_id (concat yss) = [Suc p..<Suc p + length (concat yss)]"
    and "p + length (concat yss) \<le> u64_max" "previous = (if p = 0 then None else Some p)"
  shows "check_segments previous (map log_container yss) = Inr ()"
  using assms
proof (induction yss arbitrary: p previous)
  case (Cons es yss)
  have es: "map entry_id es = [Suc p..<Suc p + length es]" "es \<noteq> []"
    and rest: "map entry_id (concat yss) = [Suc (p + length es)..<Suc (p + length es) + length (concat yss)]"
    using ids_split [of es "concat yss" "Suc p" "Suc p + length (concat (es # yss))"] Cons.prems(1,2)
    by (auto simp: add.assoc)
  have "check_segments (Some (p + length es)) (map log_container yss) = Inr ()"
    using Cons.IH [OF _ rest, of "Some (p + length es)"] Cons.prems(1,3) es(2) by simp
  moreover have "Suc p \<le> u64_max" using Cons.prems(3) es(2) by (cases es) auto
  ultimately show ?case
    using Cons.prems es ids_ends [of es "Suc p"] by (auto simp: Suc_le_eq)
qed simp

lemma levels_ok:
  fixes ls :: "nat list"
  assumes "sorted_wrt (>) ls"
  shows "\<not> list_ex (\<lambda>(a, b). a \<le> b) (zip ls (drop 1 ls))"
  using assms by (induction ls rule: induct_list012) (auto simp: list_ex_iff)

lemma validate_sequence_ok:
  assumes "represents s xss"
  shows "validate_container_sequence (sg_manifest s) (sg_base s) (sg_segments s) = Inr ()"
proof -
  obtain es yss where xss: "xss = es # yss" using assms by (cases xss) (auto simp: represents_def)
  have parts: "sg_base s = log_container es" "sg_segments s = map log_container yss" "[] \<notin> set yss"
    using assms by (auto simp: represents_def xss)
  have ids: "map entry_id (es @ concat yss) = [1..<Suc (length (concat xss))]"
    using assms by (simp add: represents_def xss)
  have es: "map entry_id es = [1..<1 + length es]" using ids_split(1) [OF ids] by simp
  have first: "validate_first_entry_id (log_container es) = Inr ()"
    using ids_ends [OF es] by (cases "es = []") (auto simp: validate_first_entry_id_def)
  have "check_segments (if length es = 0 then None else Some (length es)) (map log_container yss) = Inr ()"
  proof (rule check_segments_ok [OF parts(3)])
    show "map entry_id (concat yss) = [Suc (length es)..<Suc (length es) + length (concat yss)]"
      using ids_split(2) [OF ids] by (simp add: xss)
    show "length es + length (concat yss) \<le> u64_max"
      using assms by (simp add: represents_def log_small_def xss usize_max_def u64_max_def)
  qed simp
  moreover have "map_option snd (entry_range (log_container es)) = (if length es = 0 then None else Some (length es))"
    using ids_ends [OF es] by (cases "es = []") auto
  moreover have "\<not> list_ex (\<lambda>(a, b). a \<le> b) (zip (map sd_level (mf_segments (sg_manifest s)))
      (drop 1 (map sd_level (mf_segments (sg_manifest s)))))"
    using assms by (intro levels_ok) (simp add: represents_def)
  moreover have "distinct (mf_base (sg_manifest s) # map sd_path (mf_segments (sg_manifest s)))"
    using assms by (simp add: represents_def container_paths_def)
  ultimately show ?thesis
    using first unfolding validate_container_sequence_def parts(1,2) Let_def by simp
qed

lemma open_at_path:
  assumes "at_path d r (log_container es)" "sorted_wrt (<) (map entry_id es)" "log_small es"
  shows "open_container d r = Inr (log_container es)"
  using assms log_container_facts(1) [OF assms(2,3)]
  by (auto simp: at_path_def open_container_def pk_open_def)

lemma sum_counts: "sum_list (map pk_entry_count (map log_container yss)) = length (concat yss)"
  by (induction yss) auto

lemma open_on_disk:
  assumes "represents s xss" "on_disk d s"
  shows "sg_open d = Inr s"
proof -
  let ?m = "sg_manifest s"
  obtain es yss where xss: "xss = es # yss" using assms by (cases xss) (auto simp: represents_def)
  have parts: "sg_base s = log_container es" "sg_segments s = map log_container yss" "[] \<notin> set yss"
    using assms by (auto simp: represents_def xss)
  have streams: "sorted_wrt (<) (map entry_id ys)" "log_small ys" if "ys = es \<or> ys \<in> set yss" for ys
    using represents_streams [OF assms(1)] that by (auto simp: xss)
  have base: "open_container d (mf_base ?m) = Inr (sg_base s)"
    using assms(2) streams by (auto simp: on_disk_def container_paths_def parts intro!: open_at_path)
  have "list_all2 (at_path d) (map sd_path (mf_segments ?m)) (map log_container yss)"
    using assms(2) by (auto simp: on_disk_def container_paths_def parts)
  then have "list_all2 (\<lambda>descriptor ix. open_container d (sd_path descriptor) = Inr ix) (mf_segments ?m) (sg_segments s)"
    unfolding parts using streams
    by (auto simp: list_all2_map1 list_all2_map2 intro!: open_at_path elim: list_all2_mono
        simp: list_all2_conv_all_nth)
  then have segs: "try_map (\<lambda>descriptor. open_container d (sd_path descriptor)) (mf_segments ?m) = Inr (sg_segments s)"
    by (simp add: try_map_Inr)
  have ids: "map entry_id (concat xss) = [1..<1 + length (concat xss)]" using assms(1) by (simp add: represents_def)
  have counts: "pk_entry_count (sg_base s) + sum_list (map pk_entry_count (sg_segments s)) = mf_entry_count ?m"
    using assms(1) sum_counts [of yss] by (simp add: represents_def parts xss)
  have head: "(if sg_segments s = [] then pk_head_id (sg_base s) else pk_head_id (last (sg_segments s))) = mf_head_id ?m"
  proof (cases "yss = []")
    case True
    then show ?thesis
      using assms(1) ids_ends(3) [of es 1] ids by (cases "es = []") (auto simp: represents_def parts xss last_id_def)
  next
    case False
    then have "last yss \<noteq> []" using parts(3) by (metis last_in_set)
    moreover from False have "concat yss = concat (butlast yss) @ last yss"
      by (metis append_butlast_last_id concat.simps concat_append append_Nil2)
    ultimately have "last_id (last yss) = last_id (concat xss)"
      by (simp add: last_id_def xss)
    moreover have "concat xss \<noteq> []"
      using \<open>concat yss = _\<close> \<open>last yss \<noteq> []\<close> by (simp add: xss)
    ultimately show ?thesis
      using assms(1) ids_ends(3) [OF ids] False by (simp add: represents_def parts last_map)
  qed
  show ?thesis
  proof (cases "sg_manifest_bytes s")
    case (Some bs)
    then have "dk_manifest d = Some (manifest_bytes ?m)" "bs = manifest_bytes ?m" using assms(2) by (simp_all add: on_disk_def)
    then show ?thesis
      using base segs validate_sequence_ok [OF assms(1)] counts head Some
        manifest_codec(2) [OF represents_manifest_ok [OF assms(1)]]
      by (simp add: sg_open_def Let_def)
  next
    case None
    then have m: "dk_manifest d = None" "?m = \<lparr>mf_generation = 0, mf_base = OPLOG_BIN, mf_segments = [],
        mf_entry_count = pk_entry_count (sg_base s), mf_head_id = pk_head_id (sg_base s)\<rparr>"
      and empty: "sg_segments s = []"
      using assms counts head by (auto simp: on_disk_def represents_def)
    have "pk_open d [OPLOG_BIN] = Inr (sg_base s)"
      using base m(2) by (simp add: open_container_def resolve_names)
    moreover have "validate_first_entry_id (sg_base s) = Inr ()"
      using validate_sequence_ok [OF assms(1)]
      by (auto simp: validate_container_sequence_def Let_def and_then_Inr split: if_splits)
    ultimately show ?thesis
      using m empty None by (simp add: sg_open_def)
  qed
qed

section \<open>The merge loop\<close>

lemma weight_snoc [simp]: "weight (ds @ [d]) = weight ds + 2 ^ sd_level d" "weight [] = 0"
  by (simp_all add: weight_def)

lemma filter_new_ids: "(\<And>e. e \<in> set es \<Longrightarrow> 0 < entry_id e) \<Longrightarrow> filter (\<lambda>e. 0 < entry_id e) es = es"
  by (simp add: filter_id_conv)

text \<open>
  The loop pops the segments of levels \<open>lvl\<close>, \<open>lvl + 1\<close> and so on, in front of the carried entries; as for a
  binary counter, the popped weight reappears in the level it stops at.
\<close>

lemma carry_loop_ok:
  fixes yss :: "'t OpEntry list list"
  assumes "length ds = length yss" "sorted_wrt (>) (map sd_level ds)" "\<forall>d \<in> set ds. lvl \<le> sd_level d"
    and "weight ds + 2 ^ lvl \<le> 2 ^ 64"
    and "\<And>es. es \<in> set yss \<Longrightarrow> sorted_wrt (<) (map entry_id es) \<and> log_small es \<and> (\<forall>e \<in> set es. 0 < entry_id e)"
  shows "\<exists>k lvl'. k \<le> length ds
    \<and> carry_loop ds (map log_container yss) carry lvl
        = Inr (take k ds, map log_container (take k yss), concat (drop k yss) @ carry, lvl')
    \<and> (\<forall>d \<in> set (take k ds). lvl' < sd_level d) \<and> weight (take k ds) + 2 ^ lvl' = weight ds + 2 ^ lvl"
  using assms
proof (induction "length ds" arbitrary: ds yss carry lvl)
  case 0
  then show ?case by (auto simp: carry_loop.simps)
next
  case (Suc n)
  obtain ds' d where ds: "ds = ds' @ [d]" using Suc.hyps(2) by (cases ds rule: rev_cases) auto
  obtain yss' es where yss: "yss = yss' @ [es]" using Suc.hyps(2) Suc.prems(1) by (cases yss rule: rev_cases) auto
  have len: "length ds' = n" "length ds' = length yss'" using Suc.hyps(2) Suc.prems(1) by (simp_all add: ds yss)
  have above: "\<forall>x \<in> set ds'. sd_level d < sd_level x" and desc: "sorted_wrt (>) (map sd_level ds')"
    using Suc.prems(2) by (auto simp: ds sorted_wrt_append)
  show ?case
  proof (cases "sd_level d = lvl")
    case False
    then have "\<forall>x \<in> set ds. lvl < sd_level x"
      using Suc.prems(3) above by (fastforce simp: ds)
    then show ?thesis
      using False Suc.prems(1)
      by (rule_tac exI [of _ "length ds"], rule_tac exI [of _ lvl]) (simp add: carry_loop.simps ds yss)
  next
    case True
    have "(2 :: nat) ^ Suc lvl \<le> 2 ^ 64" using Suc.prems(4) by (simp add: ds True)
    then have small: "\<not> u8_max < Suc lvl" using power_le_imp_le_exp [of "2 :: nat" "Suc lvl" 64] by (simp add: u8_max_def)
    have es: "sorted_wrt (<) (map entry_id es)" "log_small es" "filter (\<lambda>e. 0 < entry_id e) es = es"
      using Suc.prems(5) [of es] by (auto simp: yss intro!: filter_new_ids)
    have step: "carry_loop ds (map log_container yss) carry lvl
        = carry_loop ds' (map log_container yss') (es @ carry) (Suc lvl)"
      using small es True by (subst carry_loop.simps) (simp add: ds yss log_container_facts)
    have "\<forall>x \<in> set ds'. Suc lvl \<le> sd_level x" using above True by (simp add: Suc_le_eq)
    moreover have "weight ds' + 2 ^ Suc lvl \<le> 2 ^ 64" using Suc.prems(4) by (simp add: ds True)
    moreover have "\<And>ys. ys \<in> set yss' \<Longrightarrow> sorted_wrt (<) (map entry_id ys) \<and> log_small ys \<and> (\<forall>e \<in> set ys. 0 < entry_id e)"
      using Suc.prems(5) unfolding yss by simp blast
    ultimately obtain k lvl' where IH: "k \<le> length ds'"
      "carry_loop ds' (map log_container yss') (es @ carry) (Suc lvl)
        = Inr (take k ds', map log_container (take k yss'), concat (drop k yss') @ es @ carry, lvl')"
      "\<forall>x \<in> set (take k ds'). lvl' < sd_level x" "weight (take k ds') + 2 ^ lvl' = weight ds' + 2 ^ Suc lvl"
      using Suc.hyps(1) [of ds' yss' "Suc lvl" "es @ carry"] len desc by blast
    then show ?thesis
      using len step by (rule_tac exI [of _ k], rule_tac exI [of _ lvl']) (simp add: ds yss True)
  qed
qed

section \<open>Publishing\<close>

lemma live_path: "p \<in> live_paths m \<longleftrightarrow> (\<exists>r \<in> set (container_paths m). resolve_relative r = Inr p)"
proof -
  let ?f = "\<lambda>r. case resolve_relative r of Inl _ \<Rightarrow> None | Inr p \<Rightarrow> Some p"
  have f: "?f r = Some q \<longleftrightarrow> resolve_relative r = Inr q" for r q by (auto split: sum.splits)
  have "q \<in> set (List.map_filter ?f rs) \<longleftrightarrow> (\<exists>r \<in> set rs. ?f r = Some q)" for q rs
    by (induction rs) (auto simp: List.map_filter_simps split: option.splits)
  then show ?thesis by (simp only: live_paths_def f)
qed

lemma on_disk_keep:
  assumes "on_disk d s" "dk_manifest d' = dk_manifest d"
    and "\<And>p. p \<in> live_paths (sg_manifest s) \<Longrightarrow> dk_files d' p = dk_files d p"
  shows "on_disk d' s"
proof -
  have "list_all2 (at_path d') (container_paths (sg_manifest s)) (sg_base s # sg_segments s)"
  proof -
    have "list_all2 (at_path d) (container_paths (sg_manifest s)) (sg_base s # sg_segments s)"
      using assms(1) by (simp add: on_disk_def)
    moreover have "at_path d' r ix" if at: "at_path d r ix" and r: "r \<in> set (container_paths (sg_manifest s))" for r ix
    proof -
      obtain p where p: "resolve_relative r = Inr p" "dk_files d p = Some ix" using at by (auto simp: at_path_def)
      then have "p \<in> live_paths (sg_manifest s)" using r by (auto simp: live_path)
      then show ?thesis using p assms(3) by (simp add: at_path_def)
    qed
    ultimately show ?thesis unfolding list_all2_conv_all_nth by auto
  qed
  then show ?thesis using assms(1,2) by (simp add: on_disk_def)
qed

lemma on_disk_write:
  assumes "on_disk d s" "path \<notin> live_paths (sg_manifest s)"
  shows "on_disk (d\<lparr>dk_files := (dk_files d)(path \<mapsto> c)\<rparr>) s"
proof (rule on_disk_keep [OF assms(1)])
  show "dk_files (d\<lparr>dk_files := (dk_files d)(path \<mapsto> c)\<rparr>) p = dk_files d p" if "p \<in> live_paths (sg_manifest s)" for p
    using assms(2) that by (cases "p = path") simp_all
qed simp

lemma on_disk_remove:
  assumes "on_disk d s" "\<And>p. p \<in> live_paths (sg_manifest s) \<Longrightarrow> \<not> gone p"
  shows "on_disk (remove_files gone d) s"
proof (rule on_disk_keep [OF assms(1)])
  show "dk_manifest (remove_files gone d) = dk_manifest d" by (simp add: remove_files_def)
  show "dk_files (remove_files gone d) p = dk_files d p" if "p \<in> live_paths (sg_manifest s)" for p
    using assms(2) [OF that] by (simp add: remove_files_def)
qed

text \<open>The sweep never touches a container the manifest lists.\<close>

lemma swept_not_live:
  assumes "represents s xss" "p \<in> live_paths (sg_manifest s)"
  shows "\<not> swept env (sg_manifest s) p"
proof -
  obtain r where r: "r \<in> set (container_paths (sg_manifest s))" "resolve_relative r = Inr p"
    using assms(2) by (auto simp: live_path)
  then have "p = [OPLOG_BIN] \<or> (\<exists>f. p = [SEGMENT_DIR, f])"
    using assms(1) named_forms [of "mf_generation (sg_manifest s)" r p] by (auto simp: represents_def)
  then show ?thesis
    using assms(2) by (auto simp: swept_def atomic_temp_is_stale_def strip_prefix_def OPLOG_BIN_def)
qed

lemma fresh_path:
  assumes "represents s xss" "n = Suc (mf_generation (sg_manifest s))" "n \<le> u64_max"
    and "r = segment_name l st h n \<or> r = base_name h n" "l \<le> u8_max" "st \<le> u64_max" "h \<le> u64_max"
    and "resolve_relative r = Inr p"
  shows "p \<notin> live_paths (sg_manifest s)" "r \<notin> set (container_paths (sg_manifest s))" "named n r"
proof -
  show new: "named n r" using assms(4-7) by (auto simp: named_def)
  have old: "named (mf_generation (sg_manifest s)) r'" if "r' \<in> set (container_paths (sg_manifest s))" for r'
    using assms(1) that by (simp add: represents_def)
  show fresh: "r \<notin> set (container_paths (sg_manifest s))"
    using new_name_fresh [OF old, of r n] assms(2,3,4) by auto
  show "p \<notin> live_paths (sg_manifest s)"
    using named_resolve_inj [OF old new _ assms(8)] fresh by (auto simp: live_path)
qed

lemma no_span_merge:
  assumes "no_span xss" "k \<le> length xss" "ys = concat (drop k xss) @ es"
    and "effective_batch_id ` set (concat xss) \<inter> effective_batch_id ` set es = {}"
  shows "no_span (take k xss @ [ys])"
proof -
  have "no_span (take k xss @ drop k xss)" using assms(1) by simp
  then have parts: "no_span (take k xss)"
    "\<forall>xs \<in> set (take k xss). \<forall>zs \<in> set (drop k xss). effective_batch_id ` set xs \<inter> effective_batch_id ` set zs = {}"
    unfolding no_span_def sorted_wrt_append by blast+
  moreover have "effective_batch_id ` set xs \<inter> effective_batch_id ` set ys = {}" if "xs \<in> set (take k xss)" for xs
  proof -
    have "xs \<in> set xss" using that by (meson in_set_takeD)
    then have "effective_batch_id ` set xs \<inter> effective_batch_id ` set es = {}" using assms(4) by auto
    moreover have "effective_batch_id ` set xs \<inter> effective_batch_id ` set (concat (drop k xss)) = {}"
      using parts(2) that by fastforce
    ultimately show ?thesis by (simp only: assms(3) set_append image_Un) blast
  qed
  ultimately show ?thesis by (simp add: no_span_def sorted_wrt_append)
qed

text \<open>What a caller must give to append: the next ids, new batches, a log that stays within the bounds.\<close>

definition appendable :: "'t OpEntry list \<Rightarrow> 't OpEntry list \<Rightarrow> bool" where
  "appendable log entries \<longleftrightarrow>
     map entry_id entries = [Suc (length log)..<Suc (length log + length entries)]
     \<and> effective_batch_id ` set log \<inter> effective_batch_id ` set entries = {} \<and> log_small (log @ entries)"

lemma append_publishes:
  fixes entries :: "'t OpEntry list"
  assumes rep: "represents s xss" and disk: "on_disk d s" and new: "appendable (concat xss) entries" "entries \<noteq> []"
    and gen: "mf_generation (sg_manifest s) < u64_max"
  shows "\<exists>path carry head bs s' xss'. append_entries env d s entries
        = (sweep_unlisted_containers env (sg_manifest s') (write_manifest (write_container d path carry head) bs), Inr s')
    \<and> path \<notin> live_paths (sg_manifest s)
    \<and> represents s' xss' \<and> concat xss' = concat xss @ entries \<and> mf_generation (sg_manifest s') = Suc (mf_generation (sg_manifest s))
    \<and> on_disk (write_manifest (write_container d path carry head) bs) s'"
proof -
  let ?m = "sg_manifest s" and ?n = "length (concat xss)"
  let ?gen = "Suc (mf_generation ?m)"
  obtain es yss where xss: "xss = es # yss" using rep by (cases xss) (auto simp: represents_def)
  have parts: "sg_base s = log_container es" "sg_segments s = map log_container yss" "[] \<notin> set yss"
    "map entry_id (concat xss) = [1..<Suc ?n]" "length (mf_segments ?m) = length yss" "mf_head_id ?m = ?n"
    "mf_entry_count ?m = ?n"
    using rep by (auto simp: represents_def xss)
  have desc: "sorted_wrt (>) (map sd_level (mf_segments ?m))" and w: "weight (mf_segments ?m) \<le> mf_generation ?m"
    using rep by (simp_all add: represents_def)
  have ids: "0 < entry_id e" if "e \<in> set (concat xss)" for e
  proof -
    have "entry_id e \<in> set [1..<Suc ?n]" unfolding parts(4) [symmetric] using that by simp
    then show ?thesis by simp
  qed
  have streams: "sorted_wrt (<) (map entry_id ys) \<and> log_small ys \<and> (\<forall>e \<in> set ys. 0 < entry_id e)" if "ys \<in> set yss" for ys
    using represents_streams [OF rep, of ys] ids that by (auto simp: xss)
  have "weight (mf_segments ?m) + 2 ^ 0 \<le> 2 ^ 64" using w gen by (simp add: u64_max_def)
  from carry_loop_ok [OF parts(5) desc _ this streams, of entries] obtain k lvl where k: "k \<le> length yss"
    "plan_append s entries = Inr (take k (mf_segments ?m), map log_container (take k yss), concat (drop k yss) @ entries, lvl)"
    "\<forall>d \<in> set (take k (mf_segments ?m)). lvl < sd_level d"
    "weight (take k (mf_segments ?m)) + 2 ^ lvl = Suc (weight (mf_segments ?m))"
    using parts(2,5) by (auto simp: plan_append_def)
  define carry where "carry = concat (drop k yss) @ entries"
  define head where "head = entry_id (last entries)"
  define relative where "relative = segment_name lvl (entry_id (hd carry)) head ?gen"
  define path where "path = [SEGMENT_DIR, segment_file lvl (entry_id (hd carry)) head ?gen]"
  have carry: "carry \<noteq> []" "concat xss @ entries = concat (take (Suc k) xss) @ carry"
    using new(2) by (auto simp: carry_def xss simp flip: concat_append)
  have all_ids: "map entry_id (concat xss @ entries) = [1..<Suc (?n + length entries)]"
    using parts(4) new(1) upt_add_eq_append [of 1 "Suc ?n" "length entries"] by (simp add: appendable_def)
  have total: "?n + length entries \<le> u64_max" "log_small (concat xss @ entries)"
    using new(1) by (auto simp: appendable_def log_small_def usize_max_def u64_max_def)
  have head: "head = ?n + length entries"
    using ids_ends(2) [of entries "Suc ?n"] new by (simp add: head_def appendable_def)
  have "lvl < 64"
  proof -
    have "(2 :: nat) ^ lvl < 2 ^ 64" using k(4) w gen by (simp add: u64_max_def)
    then show ?thesis by (rule power_less_imp_less_exp [rotated]) simp
  qed
  then have lvl: "lvl \<le> u8_max" by (simp add: u8_max_def)
  have start: "entry_id (hd carry) \<le> u64_max"
  proof -
    have "hd carry \<in> set (concat xss @ entries)" using carry by (metis Un_iff hd_in_set set_append)
    then have "entry_id (hd carry) \<in> set [1..<Suc (?n + length entries)]"
      unfolding all_ids [symmetric] set_map by (rule imageI)
    then show ?thesis using total by simp
  qed
  have headle: "head \<le> u64_max" using head total by simp
  have resolved: "resolve_relative relative = Inr path" by (simp add: relative_def path_def resolve_names)
  note fresh = fresh_path [OF rep refl _ disjI1 [OF relative_def] lvl start headle resolved]
  have gen_le: "?gen \<le> u64_max" using gen by simp
  note fresh = fresh [OF gen_le]
  have last_carry: "last_id carry = head" using new(2) by (simp add: carry_def last_id_def head_def)
  have container: "encode_container carry head = log_container carry" by (simp add: log_container_def last_carry)
  define d1 where "d1 = write_container d path carry head"
  have sorted_all: "sorted_wrt (<) (map entry_id (concat (take (Suc k) xss @ [carry])))"
    using sorted_upt_ids [OF all_ids] carry(2) by simp
  have carry_ok: "sorted_wrt (<) (map entry_id carry)" "log_small carry"
    using sorted_concat [OF sorted_all] total(2) log_small_append [of "concat (take (Suc k) xss)" carry] carry(2) by simp_all
  have opened: "pk_open d1 path = Inr (log_container carry)"
    using log_container_facts(1) [OF carry_ok] by (simp add: pk_open_def d1_def write_container_def container)
  define m' where "m' = ?m\<lparr>mf_generation := ?gen, mf_segments := take k (mf_segments ?m) @ [\<lparr>sd_level = lvl, sd_path = relative\<rparr>],
      mf_entry_count := ?n + length entries, mf_head_id := head\<rparr>"
  define s' where "s' = \<lparr>sg_manifest = m', sg_manifest_bytes = Some (manifest_bytes m'), sg_base = sg_base s,
      sg_segments = map log_container (take k yss) @ [log_container carry]\<rparr>"
  define xss' where "xss' = take (Suc k) xss @ [carry]"
  have log': "concat xss' = concat xss @ entries" by (simp add: xss'_def carry(2))
  have paths': "container_paths m' = take (Suc k) (container_paths ?m) @ [relative]"
    by (simp add: container_paths_def m'_def take_map)
  have rep': "represents s' xss'"
  proof -
    have "no_span xss'"
      unfolding xss'_def
      by (rule no_span_merge [of _ _ _ entries])
        (use rep new(1) k(1) in \<open>auto simp: represents_def appendable_def xss carry_def\<close>)
    moreover have "sg_base s' # sg_segments s' = map log_container xss'"
      by (simp add: s'_def xss'_def xss parts(1))
    moreover have "[] \<notin> set (drop 1 xss')"
      using parts(3) carry(1) by (auto simp: xss'_def xss dest: in_set_takeD)
    moreover have "sorted_wrt (>) (map sd_level (mf_segments m'))"
    proof -
      have "\<forall>x \<in> set (take k (map sd_level (mf_segments ?m))). lvl < x" using k(3) by (simp add: take_map)
      then show ?thesis using desc by (simp add: m'_def sorted_wrt_append sorted_wrt_take take_map [symmetric])
    qed
    moreover have "weight (mf_segments m') \<le> ?gen" using k(4) w by (simp add: m'_def)
    moreover have "\<forall>r \<in> set (container_paths m'). named ?gen r"
    proof
      fix r assume "r \<in> set (container_paths m')"
      then have "r \<in> set (container_paths ?m) \<or> r = relative" by (auto simp: paths' dest: in_set_takeD)
      then show "named ?gen r" using rep fresh(3) named_mono [of "mf_generation ?m" r ?gen] by (auto simp: represents_def)
    qed
    moreover have "distinct (container_paths m')"
      using rep fresh(2) by (auto simp: paths' represents_def dest: in_set_takeD)
    moreover have "length (mf_segments m') = length (sg_segments s')" using parts(5) by (simp add: m'_def s'_def)
    ultimately show ?thesis
      using all_ids total(2) gen_le head
      unfolding represents_def log' by (simp add: s'_def m'_def)
  qed
  have plan: "append_entries env d s entries
      = (sweep_unlisted_containers env m' (write_manifest d1 (manifest_bytes m')), Inr s')"
  proof -
    have enc: "encode_manifest m' = Inr (manifest_bytes m')"
      using represents_manifest_ok [OF rep'] by (intro manifest_codec) (simp add: s'_def)
    have planned: "plan_append s entries = Inr (take k (mf_segments ?m), map log_container (take k yss), carry, lvl)"
      using k(2) by (simp add: carry_def)
    have name: "segment_name lvl (entry_id (hd carry)) (entry_id (last entries)) (mf_generation ?m + 1) = relative"
      by (simp add: relative_def head_def)
    have written: "write_container d path carry (entry_id (last entries)) = d1" by (simp add: d1_def head_def)
    have manifest: "?m\<lparr>mf_generation := mf_generation ?m + 1,
        mf_segments := take k (mf_segments ?m) @ [\<lparr>sd_level = lvl, sd_path = relative\<rparr>],
        mf_entry_count := mf_entry_count ?m + length entries, mf_head_id := entry_id (last entries)\<rparr> = m'"
      by (simp add: m'_def parts(7) head_def)
    have conds: "(entries = []) = False" "(carry = []) = False" "(mf_generation ?m + 1 > u64_max) = False"
      "(mf_entry_count ?m + length entries > u64_max) = False"
      using new(2) carry(1) gen total(1) by (simp_all add: parts(7))
    show ?thesis
      by (simp only: append_entries_def Let_def conds if_False planned sum.case prod.case name resolved written opened
          manifest enc s'_def)
  qed
  have "list_all2 (at_path d1) (take (Suc k) (container_paths ?m)) (take (Suc k) (sg_base s # sg_segments s))"
  proof -
    have "on_disk d1 s" unfolding d1_def write_container_def by (rule on_disk_write [OF disk fresh(1)])
    then show ?thesis by (simp only: on_disk_def list_all2_takeI)
  qed
  moreover have "at_path d1 relative (log_container carry)"
    using resolved by (simp add: at_path_def d1_def write_container_def container)
  ultimately have "list_all2 (at_path d1) (take (Suc k) (container_paths ?m) @ [relative])
      (take (Suc k) (sg_base s # sg_segments s) @ [log_container carry])"
    by (intro list_all2_appendI) simp_all
  moreover have "take (Suc k) (sg_base s # sg_segments s) @ [log_container carry] = sg_base s' # sg_segments s'"
    by (simp add: s'_def parts take_map)
  ultimately have "list_all2 (at_path d1) (container_paths m') (sg_base s' # sg_segments s')"
    by (simp only: paths')
  then have "on_disk (write_manifest d1 (manifest_bytes m')) s'"
    by (simp add: on_disk_def s'_def write_manifest_def)
  then show ?thesis
    using plan rep' log' fresh(1)
    by (rule_tac exI [of _ path], rule_tac exI [of _ carry], rule_tac exI [of _ head],
        rule_tac exI [of _ "manifest_bytes m'"], rule_tac exI [of _ s'], rule_tac exI [of _ xss'])
      (simp add: d1_def s'_def m'_def)
qed

section \<open>Replacing the log\<close>

lemma container_replaceable:
  fixes entries :: "'t OpEntry list"
  assumes "map entry_id entries = [1..<Suc (length entries)]" "log_small entries"
  shows "last_id entries = length entries" "length entries \<le> u64_max"
proof -
  show "last_id entries = length entries"
    using assms(1) ids_ends(3) [of entries 1] by (cases "entries = []") (simp_all add: last_id_def)
  show "length entries \<le> u64_max" using assms(2) by (simp add: log_small_def usize_max_def u64_max_def)
qed

lemma replace_publishes:
  fixes entries :: "'t OpEntry list"
  assumes rep: "represents s xss" and disk: "on_disk d s" and gen: "mf_generation (sg_manifest s) < u64_max"
    and new: "map entry_id entries = [1..<Suc (length entries)]" "log_small entries"
  shows "\<exists>d' s'. replace_entries env d s entries = (d', Inr s') \<and> represents s' [entries] \<and> on_disk d' s'
    \<and> mf_generation (sg_manifest s') = Suc (mf_generation (sg_manifest s))"
proof -
  let ?m = "sg_manifest s" and ?n = "length entries"
  let ?gen = "Suc (mf_generation ?m)"
  define relative where "relative = base_name (last_id entries) ?gen"
  define path where "path = [SEGMENT_DIR, base_file (last_id entries) ?gen]"
  have size: "last_id entries = ?n" "?n \<le> u64_max" using container_replaceable [OF new] by simp_all
  have resolved: "resolve_relative relative = Inr path" by (simp add: relative_def path_def resolve_names)
  have gen_le: "?gen \<le> u64_max" using gen by simp
  note fresh = fresh_path [OF rep refl gen_le disjI2 [OF relative_def], of 0 0, OF _ _ _ resolved, simplified]
  define d1 where "d1 = write_container d path entries (last_id entries)"
  have opened: "pk_open d1 path = Inr (log_container entries)"
    using log_container_facts(1) [OF sorted_upt_ids [OF new(1)] new(2)]
    by (simp add: pk_open_def d1_def write_container_def log_container_def)
  define m' where "m' = \<lparr>mf_generation = ?gen, mf_base = relative, mf_segments = [], mf_entry_count = ?n, mf_head_id = last_id entries\<rparr>"
  define s' where "s' = \<lparr>sg_manifest = m', sg_manifest_bytes = Some (manifest_bytes m'), sg_base = log_container entries,
      sg_segments = []\<rparr>"
  have name_ok: "named ?gen relative" using fresh(3) size by simp
  have rep': "represents s' [entries]"
    using new gen_le size name_ok
    by (simp add: represents_def s'_def m'_def no_span_def weight_def container_paths_def)
  have enc: "encode_manifest m' = Inr (manifest_bytes m')"
    using represents_manifest_ok [OF rep'] by (intro manifest_codec) (simp add: s'_def)
  let ?obsolete = "\<lambda>p. p \<in> set (obsolete_paths ?m) \<and> p \<noteq> path"
  let ?d3 = "remove_files ?obsolete (write_manifest d1 (manifest_bytes m'))"
  have manifest: "\<lparr>mf_generation = mf_generation ?m + 1, mf_base = relative, mf_segments = [],
      mf_entry_count = pk_entry_count (log_container entries), mf_head_id = last_id entries\<rparr> = m'"
    by (simp add: m'_def)
  have head: "(if entries = [] then 0 else entry_id (last entries)) = last_id entries" by (simp add: last_id_def)
  have name: "base_name (last_id entries) (mf_generation ?m + 1) = relative" by (simp add: relative_def)
  have conds: "(mf_generation ?m + 1 > u64_max) = False" using gen by simp
  have run: "replace_entries env d s entries = (sweep_unlisted_containers env m' ?d3, Inr s')"
    by (simp only: replace_entries_def Let_def head name conds if_False resolved sum.case d1_def [symmetric] opened
        manifest enc s'_def)
  have live: "live_paths (sg_manifest s') = {path}"
    using resolved by (simp add: live_paths_def container_paths_def s'_def m'_def List.map_filter_simps)
  have "on_disk (write_manifest d1 (manifest_bytes m')) s'"
    using resolved
    by (simp add: on_disk_def s'_def write_manifest_def m'_def container_paths_def at_path_def d1_def write_container_def
        log_container_def)
  then have "on_disk ?d3 s'" by (rule on_disk_remove) (simp add: live)
  then have "on_disk (remove_files (swept env (sg_manifest s')) ?d3) s'"
    by (rule on_disk_remove) (rule swept_not_live [OF rep'])
  then show ?thesis using run rep' by (simp add: sweep_unlisted_containers_def s'_def m'_def)
qed

end
