(* ===== verification/Oplog_Correct.thy ===== *)
theory Oplog_Correct
  imports Oplog Oplog_Append_Correct
begin

text \<open>
  Correctness of the operation log: a handle over a healthy disk holds one log of entries with ids 1, 2 and
  so on; every operation changes that log as its specification says; a committed transaction is never
  recorded twice; a conditional commit refuses exactly on a touched key; undo marks and coalescing rewrite
  only what they name.
\<close>

declare upt_Suc [simp del]

section \<open>What a handle holds\<close>

definition bytes_ok :: "'t SegmentedOpLogIndex \<Rightarrow> bool" where
  "bytes_ok s \<longleftrightarrow>
     (case sg_manifest_bytes s of
        Some bs \<Rightarrow> bs = manifest_bytes (sg_manifest s)
      | None \<Rightarrow> mf_generation (sg_manifest s) = 0 \<and> mf_base (sg_manifest s) = OPLOG_BIN
          \<and> mf_segments (sg_manifest s) = [])"

definition cache_ok :: "'t SegmentedOpLogIndex \<Rightarrow> bool" where
  "cache_ok s \<longleftrightarrow> (\<exists>xss. represents s xss) \<and> bytes_ok s"

definition stores :: "'t disk \<Rightarrow> 't SegmentedOpLogIndex \<Rightarrow> 't OpEntry list \<Rightarrow> bool" where
  "stores d s log \<longleftrightarrow> (\<exists>xss. represents s xss \<and> concat xss = log) \<and> on_disk d s
     \<and> (\<forall>e \<in> set log. effective_batch_id e \<le> length log)"

definition holds :: "'t OpLog \<Rightarrow> 't OpEntry list \<Rightarrow> bool" where
  "holds st log \<longleftrightarrow> (\<exists>s. stores (ol_disk st) s log)
     \<and> (\<forall>c. ol_cached st = Some c \<longrightarrow> cache_ok c)
     \<and> (\<forall>v. ol_pending st = Some v \<longrightarrow> (\<exists>c. v = Inr c \<and> cache_ok c))"

lemma stores_cache_ok: "stores d s log \<Longrightarrow> cache_ok s"
  by (auto simp: stores_def cache_ok_def bytes_ok_def on_disk_def)

lemma stores_open: "stores d s log \<Longrightarrow> sg_open d = Inr s"
  by (auto simp: stores_def intro: open_on_disk)

lemma stores_log:
  assumes "stores d s log"
  shows "map entry_id log = [1..<Suc (length log)]" "sg_head_id s = length log" "log_small log"
    "sorted_wrt (<) (map entry_id log)" "mf_generation (sg_manifest s) \<le> u64_max"
proof -
  obtain xss where x: "represents s xss" "concat xss = log" using assms by (auto simp: stores_def)
  show "map entry_id log = [1..<Suc (length log)]" "sg_head_id s = length log" "log_small log"
    "mf_generation (sg_manifest s) \<le> u64_max"
    using x(1) unfolding represents_def x(2) sg_head_id_def by blast+
  then show "sorted_wrt (<) (map entry_id log)" using sorted_upt_ids by blast
qed

text \<open>The reads of the view are the reads of the log.\<close>

text \<open>Every read of a store is the read of the one log its containers make up.\<close>

lemma represents_reads:
  assumes "represents s xss" "concat xss = log"
  shows "sg_entries_after s since_id = Inr (filter (\<lambda>e. since_id < entry_id e) log)"
    and "sg_recent_entries s count = take count (rev log)"
    and "sg_transaction_commit s key = Inr (first_commit log key)"
    and "sg_collect_batches_after_scoped s since_id count pred scope = Inr (take count (log_batches log since_id pred scope))"
    and "materialize_entries s = Inr log"
proof -
  have c: "sg_base s # sg_segments s = map log_container xss" and span: "no_span xss"
    and ids: "map entry_id log = [1..<Suc (length log)]"
    using assms by (auto simp: represents_def)
  have streams: "es \<in> set xss \<Longrightarrow> sorted_wrt (<) (map entry_id es) \<and> log_small es" for es
    using represents_streams [OF assms(1)] by blast
  have rev_c: "rev (sg_segments s) @ [sg_base s] = map log_container (rev xss)"
    using arg_cong [OF c, of rev] by (simp add: rev_map)
  show after: "sg_entries_after s since_id = Inr (filter (\<lambda>e. since_id < entry_id e) log)" for since_id
    unfolding sg_entries_after_def c using entries_after_segments [OF streams, of xss since_id "[]"] by (simp add: assms(2))
  show "sg_recent_entries s count = take count (rev log)"
    unfolding sg_recent_entries_def rev_c recent_segments assms(2) [symmetric]
    by (simp add: rev_concat rev_map)
  show "sg_transaction_commit s key = Inr (first_commit log key)"
    unfolding sg_transaction_commit_def c using commit_segments [of xss key, OF streams] by (simp add: assms(2))
  show "sg_collect_batches_after_scoped s since_id count pred scope = Inr (take count (log_batches log since_id pred scope))"
    unfolding sg_collect_batches_after_scoped_def rev_c
    using collect_segments [OF streams span, of "[]" count since_id pred scope] by (simp add: assms(2))
  have "0 < entry_id e" if "e \<in> set log" for e
  proof -
    have "entry_id e \<in> set [1..<Suc (length log)]" unfolding ids [symmetric] using that by simp
    then show ?thesis by simp
  qed
  then show "materialize_entries s = Inr log"
    by (simp add: materialize_entries_def after filter_new_ids)
qed

lemma stores_reads:
  assumes "stores d s log"
  shows "sg_entries_after s since_id = Inr (filter (\<lambda>e. since_id < entry_id e) log)"
    and "sg_recent_entries s count = take count (rev log)"
    and "sg_transaction_commit s key = Inr (first_commit log key)"
    and "sg_collect_batches_after_scoped s since_id count pred scope = Inr (take count (log_batches log since_id pred scope))"
    and "materialize_entries s = Inr log"
proof -
  obtain xss where x: "represents s xss" "concat xss = log" using assms by (auto simp: stores_def)
  note reads = represents_reads [OF x]
  show "sg_entries_after s since_id = Inr (filter (\<lambda>e. since_id < entry_id e) log)" by (rule reads(1))
  show "sg_recent_entries s count = take count (rev log)" by (rule reads(2))
  show "sg_transaction_commit s key = Inr (first_commit log key)" by (rule reads(3))
  show "sg_collect_batches_after_scoped s since_id count pred scope = Inr (take count (log_batches log since_id pred scope))"
    by (rule reads(4))
  show "materialize_entries s = Inr log" by (rule reads(5))
qed

section \<open>Opening the view for a writer\<close>

lemma salvage_loop_healthy:
  assumes "list_all2 (at_path d) rs (map log_container xss)"
    and "\<And>es. es \<in> set xss \<Longrightarrow> sorted_wrt (<) (map entry_id es) \<and> log_small es"
  shows "salvage_loop salvage rs salvaged d = (d, Inr salvaged)"
  using assms
proof (induction rs arbitrary: xss)
  case (Cons r rs)
  then obtain es yss where xss: "xss = es # yss" "at_path d r (log_container es)" "list_all2 (at_path d) rs (map log_container yss)"
    by (auto simp: list_all2_Cons1)
  have "open_container d r = Inr (log_container es)"
    using Cons.prems(2) xss by (intro open_at_path) auto
  then obtain p where "resolve_relative r = Inr p" "pk_open d p = Inr (log_container es)"
    by (auto simp: open_container_def and_then_Inr)
  then show ?case using Cons.IH [OF xss(3)] Cons.prems(2) xss(1) by simp
qed simp

lemma validate_current_healthy:
  assumes "stores d s log"
  shows "validate_current salvage env d = (d, Inr ())"
proof -
  obtain xss where x: "represents s xss" "concat xss = log" using assms by (auto simp: stores_def)
  have disk: "on_disk d s" using assms by (simp add: stores_def)
  have c: "sg_base s # sg_segments s = map log_container xss" using x(1) by (simp add: represents_def)
  have streams: "es \<in> set xss \<Longrightarrow> sorted_wrt (<) (map entry_id es) \<and> log_small es" for es
    using represents_streams [OF x(1)] by blast
  show ?thesis
  proof (cases "sg_manifest_bytes s")
    case (Some bs)
    then have "dk_manifest d = Some (manifest_bytes (sg_manifest s))" using disk by (simp add: on_disk_def)
    moreover have "list_all2 (at_path d) (container_paths (sg_manifest s)) (map log_container xss)"
      using disk c by (simp add: on_disk_def)
    then have "salvage_loop salvage (container_paths (sg_manifest s)) False d = (d, Inr False)"
      by (rule salvage_loop_healthy [OF _ streams])
    ultimately show ?thesis
      using manifest_codec(2) [OF represents_manifest_ok [OF x(1)]] by (simp add: validate_current_def)
  next
    case None
    then have m: "dk_manifest d = None" "container_paths (sg_manifest s) = [OPLOG_BIN]"
      using disk by (auto simp: on_disk_def container_paths_def)
    have "sg_open d = Inr s" by (rule stores_open [OF assms])
    then obtain base where "pk_open d [OPLOG_BIN] = Inr base" by (auto simp: sg_open_def m(1) and_then_Inr)
    then show ?thesis
      by (auto simp: validate_current_def m(1) ensure_current_def pk_open_def split: option.splits)
  qed
qed

lemma on_disk_exists: "on_disk d s \<Longrightarrow> sg_exists d"
  by (cases "sg_manifest_bytes s") (auto simp: on_disk_def sg_exists_def container_paths_def at_path_def resolve_names)

lemma on_disk_head:
  assumes "stores d s log"
  shows "sg_read_head_id d = Inr (length log)"
proof -
  obtain xss where x: "represents s xss" using assms by (auto simp: stores_def)
  have disk: "on_disk d s" using assms by (simp add: stores_def)
  have head: "mf_head_id (sg_manifest s) = length log" using stores_log(2) [OF assms] by (simp add: sg_head_id_def)
  show ?thesis
  proof (cases "sg_manifest_bytes s")
    case (Some bs)
    then show ?thesis
      using disk manifest_codec(2) [OF represents_manifest_ok [OF x]] head by (simp add: on_disk_def sg_read_head_id_def)
  next
    case None
    then have m: "dk_manifest d = None" using disk by (simp add: on_disk_def)
    obtain base where b: "pk_open d [OPLOG_BIN] = Inr base" "mf_head_id (sg_manifest s) = pk_head_id base"
      using stores_open [OF assms] by (auto simp: sg_open_def m and_then_Inr)
    then show ?thesis
      using head by (auto simp: sg_read_head_id_def m pk_open_def and_then_Inr split: option.splits)
  qed
qed

lemma file_is_at_path: "file_is d r ix = at_path d r ix"
  by (auto simp: file_is_def at_path_def split: sum.splits)

text \<open>A cached view that still matches the disk is the view the disk opens to.\<close>

lemma matching_cache:
  assumes "stores d s log" "cache_ok c" "sg_matches_file_on_disk d c"
    and head: "sg_head_id c = length log"
  shows "c = s"
proof -
  obtain xss yss where x: "represents s xss" "represents c yss" using assms by (auto simp: stores_def cache_ok_def)
  have disk: "on_disk d s" and cb: "bytes_ok c" using assms by (simp_all add: stores_def cache_ok_def)
  have match: "list_all2 (at_path d) (container_paths (sg_manifest c)) (sg_base c # sg_segments c)"
    if "list_all (\<lambda>(r, ix). file_is d r ix) (zip (container_paths (sg_manifest c)) (sg_base c # sg_segments c))"
  proof -
    have "length (mf_segments (sg_manifest c)) = length (sg_segments c)"
      using x(2) unfolding represents_def by blast
    then have "length (container_paths (sg_manifest c)) = length (sg_base c # sg_segments c)"
      by (simp add: container_paths_def)
    then show ?thesis
      using that by (auto simp: list_all2_iff list_all_iff file_is_at_path)
  qed
  have "on_disk d c"
  proof (cases "sg_manifest_bytes c")
    case (Some bs)
    then show ?thesis using assms(3) match cb by (simp add: on_disk_def bytes_ok_def sg_matches_file_on_disk_def)
  next
    case None
    then have m: "mf_base (sg_manifest c) = OPLOG_BIN" "mf_segments (sg_manifest c) = []" "dk_manifest d = None"
      "file_is d OPLOG_BIN (sg_base c)" "mf_generation (sg_manifest c) = 0"
      using cb assms(3) by (auto simp: bytes_ok_def sg_matches_file_on_disk_def)
    moreover have "sg_segments c = []" using x(2) m(2) by (auto simp: represents_def)
    ultimately show ?thesis
      using None by (auto simp: on_disk_def container_paths_def at_path_def file_is_def split: sum.splits)
  qed
  then have "sg_open d = Inr c" by (rule open_on_disk [OF x(2)])
  then show ?thesis using stores_open [OF assms(1)] by simp
qed

lemma write_lock_ok:
  assumes "holds st log"
  shows "\<exists>st'. write_lock st = (st', Inr ()) \<and> holds st' log \<and> ol_pending st' = None
    \<and> ol_disk st' = ol_disk st \<and> ol_actor st' = ol_actor st"
  using assms
  by (auto simp: write_lock_def finish_pending_reconstructible_view_def holds_def split: option.splits sum.splits)

lemma open_for_write_ok:
  assumes "holds st log"
  shows "\<exists>s. open_index_for_write env st = (st, Inr s) \<and> stores (ol_disk st) s log"
proof -
  obtain s where s: "stores (ol_disk st) s log" using assms by (auto simp: holds_def)
  have exists: "sg_exists (ol_disk st)" using s by (auto simp: stores_def intro: on_disk_exists)
  have valid: "on_disk_call st (validate_current (ce_salvage env) (ce_sweep env) (ol_disk st)) = (st, Inr ())"
    by (simp add: on_disk_call_def validate_current_healthy [OF s])
  have cached: "c = s" if "ol_cached st = Some c" "sg_head_id c = length log" "sg_matches_file_on_disk (ol_disk st) c" for c
    using matching_cache [OF s _ that(3,2)] assms that(1) by (simp add: holds_def)
  have "open_index_for_write env st = (st, Inr s)"
  proof (cases "ol_cached st")
    case None
    then show ?thesis
      by (simp add: open_index_for_write_def Let_def exists valid stores_open [OF s] on_disk_head [OF s])
  next
    case (Some c)
    then show ?thesis
      using cached [OF Some]
      by (simp add: open_index_for_write_def Let_def exists valid stores_open [OF s] on_disk_head [OF s])
  qed
  then show ?thesis using s by blast
qed

section \<open>Recording\<close>

definition op_id_length :: "OpRecord \<Rightarrow> nat" where
  "op_id_length r = (case commit_id r of Some i \<Rightarrow> length i | None \<Rightarrow> 0)"

text \<open>The formats have room for these records: the manifest generation, the count and the transaction keys.\<close>

definition room :: "'t OpLog \<Rightarrow> 't OpEntry list \<Rightarrow> OpRecord list \<Rightarrow> bool" where
  "room st log operations \<longleftrightarrow>
     (\<forall>s. sg_open (ol_disk st) = Inr s \<longrightarrow> mf_generation (sg_manifest s) < u64_max)
     \<and> length log + length operations \<le> usize_max
     \<and> sum_list (map id_length log) + sum_list (map op_id_length operations) \<le> usize_max"

lemma build_entries_parts [simp]:
  "length (build_entries actor ops start_id now scope) = length ops"
  "map operation (build_entries actor ops start_id now scope) = ops"
  "map entry_id (build_entries actor ops start_id now scope) = [start_id..<start_id + length ops]"
  "build_entries actor ops start_id now scope = [] \<longleftrightarrow> ops = []"
proof -
  show "map operation (build_entries actor ops start_id now scope) = ops"
    by (intro nth_equalityI) (simp_all add: build_entries_def nth_enumerate_eq)
  show "map entry_id (build_entries actor ops start_id now scope) = [start_id..<start_id + length ops]"
    by (intro nth_equalityI) (simp_all add: build_entries_def nth_enumerate_eq)
  show "length (build_entries actor ops start_id now scope) = length ops"
    by (simp add: build_entries_def)
  show "build_entries actor ops start_id now scope = [] \<longleftrightarrow> ops = []"
    by (simp add: build_entries_def flip: length_0_conv)
qed

lemma build_entries_batch:
  "e \<in> set (build_entries actor ops (Suc n) now scope) \<Longrightarrow> effective_batch_id e = Suc n"
  by (auto simp: build_entries_def effective_batch_id_def)

lemma build_entries_ids: "sum_list (map id_length (build_entries actor ops i now scope)) = sum_list (map op_id_length ops)"
proof -
  have "map id_length es = map op_id_length (map operation es)" for es :: "'t OpEntry list"
    by (simp add: id_length_def op_id_length_def)
  then show ?thesis by (metis build_entries_parts(2))
qed

lemma build_entries_appendable:
  assumes "stores d s log" "length log + length ops \<le> usize_max"
    and "sum_list (map id_length log) + sum_list (map op_id_length ops) \<le> usize_max"
  shows "appendable log (build_entries actor ops (Suc (length log)) now scope)"
proof -
  have "effective_batch_id ` set log \<inter> effective_batch_id ` set (build_entries actor ops (Suc (length log)) now scope) = {}"
    using assms(1) build_entries_batch by (fastforce simp: stores_def)
  then show ?thesis
    using assms(2,3) by (simp add: appendable_def log_small_def build_entries_ids)
qed

definition generation :: "'t OpLog \<Rightarrow> nat" where
  "generation st = (case sg_open (ol_disk st) of Inr s \<Rightarrow> mf_generation (sg_manifest s) | Inl _ \<Rightarrow> 0)"

lemma stores_generation: "stores (ol_disk st) s log \<Longrightarrow> generation st = mf_generation (sg_manifest s)"
  by (simp add: generation_def stores_open)

lemma append_built_ok:
  assumes "stores (ol_disk st) s log" "appendable log entries" "entries \<noteq> []"
    and "mf_generation (sg_manifest s) < u64_max" "\<forall>e \<in> set entries. effective_batch_id e \<le> length log + length entries"
    and "ol_pending st = None"
  shows "\<exists>st'. append_built env st s entries r = (st', Inr r) \<and> holds st' (log @ entries)
    \<and> ol_pending st' = None \<and> ol_actor st' = ol_actor st \<and> generation st' = Suc (generation st)"
proof -
  obtain xss where x: "represents s xss" "concat xss = log" "on_disk (ol_disk st) s" using assms(1) by (auto simp: stores_def)
  obtain path carry head bs s' xss' where a:
    "append_entries (ce_sweep env) (ol_disk st) s entries
       = (sweep_unlisted_containers (ce_sweep env) (sg_manifest s')
            (write_manifest (write_container (ol_disk st) path carry head) bs), Inr s')"
    "represents s' xss'" "concat xss' = log @ entries"
    "on_disk (write_manifest (write_container (ol_disk st) path carry head) bs) s'"
    "mf_generation (sg_manifest s') = Suc (generation st)"
    using append_publishes [OF x(1,3) _ assms(3,4)] assms(2) x(2) unfolding stores_generation [OF assms(1)] by blast
  let ?d = "sweep_unlisted_containers (ce_sweep env) (sg_manifest s')
            (write_manifest (write_container (ol_disk st) path carry head) bs)"
  have "on_disk ?d s'"
    unfolding sweep_unlisted_containers_def by (rule on_disk_remove [OF a(4)]) (rule swept_not_live [OF a(2)])
  moreover have "\<forall>e \<in> set (log @ entries). effective_batch_id e \<le> length (log @ entries)"
    using assms(1,5) by (fastforce simp: stores_def)
  ultimately have st: "stores ?d s' (log @ entries)" using a(2,3) by (auto simp: stores_def)
  have "generation (st\<lparr>ol_disk := ?d, ol_cached := Some s'\<rparr>) = Suc (generation st)"
    using stores_open [OF st] a(5) by (simp add: generation_def)
  then show ?thesis
    using assms(6) st stores_cache_ok
    by (auto simp: append_built_def on_disk_call_def a(1) holds_def)
qed

text \<open>The three openings of a recording operation, in one step.\<close>

lemma writer_opens:
  assumes "holds st log"
  obtains st' s where "write_lock st = (st', Inr ())" "open_index_for_write env st' = (st', Inr s)"
    "stores (ol_disk st') s log" "holds st' log" "ol_pending st' = None" "ol_disk st' = ol_disk st" "ol_actor st' = ol_actor st"
proof -
  obtain st' where l: "write_lock st = (st', Inr ())" "holds st' log" "ol_pending st' = None"
    "ol_disk st' = ol_disk st" "ol_actor st' = ol_actor st"
    using write_lock_ok [OF assms] by blast
  obtain s where "open_index_for_write env st' = (st', Inr s)" "stores (ol_disk st') s log"
    using open_for_write_ok [OF l(2)] by blast
  then show ?thesis using that l by blast
qed

definition recorded :: "'t call_env \<Rightarrow> 't OpLog \<Rightarrow> 't OpEntry list \<Rightarrow> OpRecord list \<Rightarrow> string option \<Rightarrow> 't OpEntry list" where
  "recorded env st log operations scope = build_entries (ol_actor st) operations (Suc (length log)) (ce_now env) scope"

lemma record_new_entries:
  assumes "stores (ol_disk st') s log" "ol_pending st' = None" "ol_disk st' = ol_disk st" "ol_actor st' = ol_actor st"
    and "room st log operations" "operations \<noteq> []"
  shows "new_entries env st' s operations scope = recorded env st log operations scope"
    and "\<exists>st''. append_built env st' s (recorded env st log operations scope) r = (st'', Inr r)
      \<and> holds st'' (log @ recorded env st log operations scope)"
    and "\<exists>st''. append_built env st' s (recorded env st log operations scope) r = (st'', Inr r)
      \<and> holds st'' (log @ recorded env st log operations scope) \<and> generation st'' = Suc (generation st)"
proof -
  show "new_entries env st' s operations scope = recorded env st log operations scope"
    using stores_log(2) [OF assms(1)] assms(4) by (simp add: new_entries_def recorded_def)
  have gen: "mf_generation (sg_manifest s) < u64_max"
    using assms(5) stores_open [OF assms(1)] by (simp add: room_def assms(3))
  let ?new = "recorded env st log operations scope"
  have app: "appendable log ?new"
    unfolding recorded_def using assms(5) by (intro build_entries_appendable [OF assms(1)]) (auto simp: room_def)
  have "effective_batch_id e \<le> length log + length ?new" if "e \<in> set ?new" for e
  proof -
    have "Suc 0 \<le> length operations" using assms(6) by (simp add: Suc_le_eq)
    moreover have "effective_batch_id e = Suc (length log)"
      using that unfolding recorded_def by (rule build_entries_batch)
    ultimately show ?thesis by (simp add: recorded_def)
  qed
  then have bounded: "\<forall>e \<in> set ?new. effective_batch_id e \<le> length log + length ?new" by blast
  have "?new \<noteq> []" using assms(6) by (simp add: recorded_def)
  note built = append_built_ok [OF assms(1) app this gen bounded assms(2), of env r]
  have "generation st' = generation st" by (simp add: generation_def assms(3))
  with built show all: "\<exists>st''. append_built env st' s ?new r = (st'', Inr r) \<and> holds st'' (log @ ?new)
      \<and> generation st'' = Suc (generation st)" by metis
  then show "\<exists>st''. append_built env st' s ?new r = (st'', Inr r) \<and> holds st'' (log @ ?new)" by blast
qed

lemma recorded_ids: "map entry_id (recorded env st log operations scope) = [Suc (length log)..<Suc (length log) + length operations]"
  by (simp add: recorded_def)

lemma record_batch_ok:
  assumes "holds st log" "room st log operations" "operations \<noteq> []"
  shows "\<exists>st'. record_batch_scoped env st operations scope
        = (st', Inr [Suc (length log)..<Suc (length log) + length operations])
    \<and> holds st' (log @ recorded env st log operations scope)"
proof -
  obtain st' s where w: "write_lock st = (st', Inr ())" "open_index_for_write env st' = (st', Inr s)"
    "stores (ol_disk st') s log" "ol_pending st' = None" "ol_disk st' = ol_disk st" "ol_actor st' = ol_actor st"
    using writer_opens [OF assms(1)] by metis
  note new = record_new_entries(1,2) [OF w(3-6) assms(2,3)]
  show ?thesis
    using new(2) assms(3) by (simp add: record_batch_scoped_def w(1,2) Let_def new(1) recorded_ids)
qed

lemma exactly_once_ok:
  assumes "holds st log" "operations \<noteq> []"
  shows "first_commit log transaction_id \<noteq> None \<Longrightarrow>
      \<exists>st'. record_batch_exactly_once env st operations scope transaction_id = (st', Inr None) \<and> holds st' log"
    and "first_commit log transaction_id = None \<Longrightarrow> room st log operations \<Longrightarrow>
      \<exists>st'. record_batch_exactly_once env st operations scope transaction_id
          = (st', Inr (Some [Suc (length log)..<Suc (length log) + length operations]))
        \<and> holds st' (log @ recorded env st log operations scope) \<and> generation st' = Suc (generation st)"
proof -
  obtain st' s where w: "write_lock st = (st', Inr ())" "open_index_for_write env st' = (st', Inr s)"
    "stores (ol_disk st') s log" "ol_pending st' = None" "ol_disk st' = ol_disk st" "ol_actor st' = ol_actor st" "holds st' log"
    using writer_opens [OF assms(1)] by metis
  have commit: "sg_transaction_commit s transaction_id = Inr (first_commit log transaction_id)"
    by (rule stores_reads(3) [OF w(3)])
  show "\<exists>st'. record_batch_exactly_once env st operations scope transaction_id = (st', Inr None) \<and> holds st' log"
    if "first_commit log transaction_id \<noteq> None"
    using that assms(2) w(7) by (auto simp: record_batch_exactly_once_def w(1,2) commit)
  show "\<exists>st'. record_batch_exactly_once env st operations scope transaction_id
          = (st', Inr (Some [Suc (length log)..<Suc (length log) + length operations]))
        \<and> holds st' (log @ recorded env st log operations scope) \<and> generation st' = Suc (generation st)"
    if "first_commit log transaction_id = None" "room st log operations"
    using record_new_entries(1,3) [OF w(3-6) that(2) assms(2)] assms(2) that(1)
    by (simp add: record_batch_exactly_once_def w(1,2) commit Let_def recorded_ids)
qed

section \<open>Conditional commits\<close>

text \<open>The specification: the first later entry that touches a watched key, with the least such key.\<close>

definition touched_keys :: "IsolationPrecondition \<Rightarrow> 't OpEntry \<Rightarrow> IsolationKey set" where
  "touched_keys pre e = isolation_keys_for_record (operation e) (entry_scope e) \<inter> isolation_keys pre"

definition first_conflict :: "IsolationPrecondition \<Rightarrow> 't OpEntry list \<Rightarrow> (IsolationKey \<times> nat) option" where
  "first_conflict pre log =
     map_option (\<lambda>e. (Min (touched_keys pre e), entry_id e))
       (find (\<lambda>e. since_head_id pre < entry_id e \<and> touched_keys pre e \<noteq> {}) log)"

lemma isolation_conflict_find:
  "isolation_conflict pre es = map_option (\<lambda>e. (Min (touched_keys pre e), entry_id e)) (find (\<lambda>e. touched_keys pre e \<noteq> {}) es)"
  by (induction es) (auto simp: touched_keys_def Let_def)

lemma find_filter: "find P (filter Q xs) = find (\<lambda>x. Q x \<and> P x) xs"
  by (induction xs) auto

lemma check_isolation_ok:
  assumes "stores d s log"
  shows "check_isolation pre s = Inr (first_conflict pre log)"
proof (cases "isolation_keys pre = {} \<or> sg_head_id s = since_head_id pre")
  case True
  have "first_conflict pre log = None"
  proof (cases "isolation_keys pre = {}")
    case False
    then have "since_head_id pre = length log" using True stores_log(2) [OF assms] by simp
    moreover have "entry_id e \<le> length log" if "e \<in> set log" for e
    proof -
      have "entry_id e \<in> set [1..<Suc (length log)]" unfolding stores_log(1) [OF assms, symmetric] using that by simp
      then show ?thesis by simp
    qed
    ultimately show ?thesis by (fastforce simp: first_conflict_def find_None_iff)
  qed (simp add: first_conflict_def touched_keys_def find_None_iff)
  moreover have "check_isolation pre s = Inr None" using True by (auto simp: check_isolation_def)
  ultimately show ?thesis by simp
next
  case False
  then show ?thesis
    using stores_reads(1) [OF assms]
    by (simp add: check_isolation_def isolation_conflict_find find_filter first_conflict_def)
qed

lemma first_conflict_None:
  "first_conflict pre log = None \<longleftrightarrow> (\<forall>e \<in> set log. since_head_id pre < entry_id e \<longrightarrow> touched_keys pre e = {})"
  by (auto simp: first_conflict_def find_None_iff)

lemma conditional_commit_ok:
  assumes "holds st log" "operations \<noteq> []" "first_commit log transaction_id = None"
  shows "first_conflict pre log = Some (key, i) \<Longrightarrow>
      \<exists>st'. record_batch_exactly_once_if_unchanged env st operations scope transaction_id pre
          = (st', Inr (IsolationConflict key (since_head_id pre) i)) \<and> holds st' log"
    and "first_conflict pre log = None \<Longrightarrow> room st log operations \<Longrightarrow>
      \<exists>st'. record_batch_exactly_once_if_unchanged env st operations scope transaction_id pre
          = (st', Inr (Committed [Suc (length log)..<Suc (length log) + length operations]))
        \<and> holds st' (log @ recorded env st log operations scope)"
proof -
  obtain st' s where w: "write_lock st = (st', Inr ())" "open_index_for_write env st' = (st', Inr s)"
    "stores (ol_disk st') s log" "ol_pending st' = None" "ol_disk st' = ol_disk st" "ol_actor st' = ol_actor st" "holds st' log"
    using writer_opens [OF assms(1)] by metis
  have commit: "sg_transaction_commit s transaction_id = Inr None"
    using stores_reads(3) [OF w(3)] assms(3) by simp
  show "\<exists>st'. record_batch_exactly_once_if_unchanged env st operations scope transaction_id pre
          = (st', Inr (IsolationConflict key (since_head_id pre) i)) \<and> holds st' log"
    if "first_conflict pre log = Some (key, i)"
    using assms(2) w(7) that
    by (simp add: record_batch_exactly_once_if_unchanged_def w(1,2) commit check_isolation_ok [OF w(3)])
  show "\<exists>st'. record_batch_exactly_once_if_unchanged env st operations scope transaction_id pre
          = (st', Inr (Committed [Suc (length log)..<Suc (length log) + length operations]))
        \<and> holds st' (log @ recorded env st log operations scope)"
    if "first_conflict pre log = None" "room st log operations"
    using record_new_entries(1,2) [OF w(3-6) that(2) assms(2)] assms(2) that(1)
    by (simp add: record_batch_exactly_once_if_unchanged_def w(1,2) commit check_isolation_ok [OF w(3)] Let_def recorded_ids)
qed

section \<open>Rewriting: undo marks and coalescing\<close>

text \<open>What a rewrite may change: nothing but the undo mark and the batch number and position of an entry.\<close>

definition core :: "'t OpEntry \<Rightarrow> 't OpEntry" where
  "core e = e\<lparr>undone := False, batch_id := 0, batch_index := 0\<rparr>"

lemma core_keeps [simp]:
  "entry_id (core e) = entry_id e" "operation (core e) = operation e" "entry_scope (core e) = entry_scope e"
  by (simp_all add: core_def)

definition same_history :: "'t OpEntry list \<Rightarrow> 't OpEntry list \<Rightarrow> bool" where
  "same_history log log' \<longleftrightarrow> map core log' = map core log"

lemma same_history_facts:
  fixes log log' :: "'t OpEntry list"
  assumes "same_history log log'"
  shows "map entry_id log' = map entry_id log" "map operation log' = map operation log" "length log' = length log"
    "log_small log \<Longrightarrow> log_small log'"
proof -
  have f: "map core log' = map core log" using assms by (simp add: same_history_def)
  show ids: "map entry_id log' = map entry_id log" using arg_cong [OF f, of "map entry_id"] by (simp add: comp_def)
  show ops: "map operation log' = map operation log" using arg_cong [OF f, of "map operation"] by (simp add: comp_def)
  show len: "length log' = length log" using arg_cong [OF ids, of length] by simp
  have "map id_length log' = map id_length log"
  proof -
    have "map id_length es = map op_id_length (map operation es)" for es :: "'t OpEntry list"
      by (simp add: id_length_def op_id_length_def)
    then show ?thesis by (simp only: ops)
  qed
  then show "log_small log \<Longrightarrow> log_small log'" by (simp add: log_small_def len)
qed

lemma rewrite_ok:
  assumes "holds st log" "same_history log log'" "\<forall>e \<in> set log'. effective_batch_id e \<le> length log'"
    and "\<And>s. sg_open (ol_disk st) = Inr s \<Longrightarrow> mf_generation (sg_manifest s) < u64_max" "stores (ol_disk st) s log"
  shows "\<exists>d s'. replace_entries env (ol_disk st) s log' = (d, Inr s') \<and> stores d s' log'
    \<and> mf_generation (sg_manifest s') = Suc (mf_generation (sg_manifest s))"
proof -
  obtain xss where x: "represents s xss" "on_disk (ol_disk st) s" using assms(5) by (auto simp: stores_def)
  have "map entry_id log' = [1..<Suc (length log')]" "log_small log'"
    using same_history_facts [OF assms(2)] stores_log(1,3) [OF assms(5)] by simp_all
  then obtain d s' where r: "replace_entries env (ol_disk st) s log' = (d, Inr s')" "represents s' [log']" "on_disk d s'"
    "mf_generation (sg_manifest s') = Suc (mf_generation (sg_manifest s))"
    using replace_publishes [OF x(1,2), of log' env] assms(4) [OF stores_open [OF assms(5)]] by blast
  then have "stores d s' log'" using assms(3) unfolding stores_def by (intro conjI exI [of _ "[log']"]) simp_all
  then show ?thesis using r(1,4) by blast
qed

lemma load_fresh_ok: "stores (ol_disk st) s log \<Longrightarrow> load_fresh_for_write st = Inr log"
  by (auto simp: load_fresh_for_write_def stores_open stores_reads(5) stores_def intro: on_disk_exists)

lemma set_undone_history: "same_history log (set_undone log b flag)"
  by (simp add: same_history_def set_undone_def core_def)

lemma set_undone_batches: "map effective_batch_id (set_undone log b flag) = map effective_batch_id log"
  by (simp add: set_undone_def effective_batch_id_def)

lemma set_undone_effective:
  "0 < b \<Longrightarrow> set_undone log b flag = map (\<lambda>e. if effective_batch_id e = b then e\<lparr>undone := flag\<rparr> else e) log"
  by (auto simp: set_undone_def effective_batch_id_def)

definition rewritable :: "'t OpLog \<Rightarrow> bool" where
  "rewritable st \<longleftrightarrow> (\<forall>s. sg_open (ol_disk st) = Inr s \<longrightarrow> mf_generation (sg_manifest s) < u64_max)"

lemma mark_ok:
  assumes "holds st log" "rewritable st"
  shows "\<exists>st'. update_batch_undone_state env st batch flag
      = (st', Inr \<lparr>opb_id = opb_id batch, opb_entries = map (\<lambda>e. e\<lparr>undone := flag\<rparr>) (opb_entries batch)\<rparr>)
    \<and> holds st' (set_undone log (opb_id batch) flag) \<and> generation st' = Suc (generation st)"
proof -
  obtain st' where l: "write_lock st = (st', Inr ())" "holds st' log" "ol_pending st' = None" "ol_disk st' = ol_disk st"
    using write_lock_ok [OF assms(1)] by blast
  obtain s where s: "stores (ol_disk st') s log" using l(2) by (auto simp: holds_def)
  have "\<forall>e \<in> set (set_undone log (opb_id batch) flag). effective_batch_id e \<le> length (set_undone log (opb_id batch) flag)"
  proof
    fix e assume "e \<in> set (set_undone log (opb_id batch) flag)"
    then have "effective_batch_id e \<in> set (map effective_batch_id (set_undone log (opb_id batch) flag))" by simp
    then show "effective_batch_id e \<le> length (set_undone log (opb_id batch) flag)"
      using s unfolding set_undone_batches by (auto simp: stores_def set_undone_def)
  qed
  from rewrite_ok [OF l(2) set_undone_history this _ s, of "ce_sweep env"] obtain d s' where
    "replace_entries (ce_sweep env) (ol_disk st') s (set_undone log (opb_id batch) flag) = (d, Inr s')"
    "stores d s' (set_undone log (opb_id batch) flag)"
    "mf_generation (sg_manifest s') = Suc (mf_generation (sg_manifest s))"
    using assms(2) l(4) by (auto simp: rewritable_def)
  moreover have "generation st = mf_generation (sg_manifest s)"
    using stores_open [OF s] l(4) by (simp add: generation_def)
  ultimately show ?thesis
    using l(3) stores_cache_ok
    by (auto simp: update_batch_undone_state_def l(1) load_fresh_ok [OF s] stores_open [OF s] on_disk_call_def holds_def generation_def dest: stores_open)
qed

subsection \<open>Coalescing\<close>

text \<open>The specification: going through the log, the entries of either batch are renumbered into the primary.\<close>

fun coalesced :: "('t OpEntry \<Rightarrow> bool) \<Rightarrow> nat \<Rightarrow> nat \<Rightarrow> 't OpEntry list \<Rightarrow> 't OpEntry list" where
  "coalesced M primary n [] = []"
| "coalesced M primary n (e # es) =
     (if M e then e\<lparr>batch_id := primary, batch_index := n mod 2 ^ 32\<rparr> # coalesced M primary (n + 1) es
      else e # coalesced M primary n es)"

definition of_batches :: "nat \<Rightarrow> nat \<Rightarrow> 't OpEntry \<Rightarrow> bool" where
  "of_batches primary secondary e \<longleftrightarrow> effective_batch_id e = primary \<or> effective_batch_id e = secondary"

lemma rebatch_filter:
  "rebatch primary n (filter (\<lambda>i. M ((pre @ es) ! i)) [length pre..<length pre + length es]) (pre @ es)
    = pre @ coalesced M primary n es"
proof (induction es arbitrary: pre n)
  case (Cons e es)
  have upt: "[length pre..<length pre + length (e # es)] = length pre # [length (pre @ [x])..<length (pre @ [x]) + length es]" for x :: "'a OpEntry"
    by (simp add: upt_conv_Cons)
  have same: "filter (\<lambda>i. M ((pre @ e # es) ! i)) [length (pre @ [x])..<length (pre @ [x]) + length es]
      = filter (\<lambda>i. M (((pre @ [x]) @ es) ! i)) [length (pre @ [x])..<length (pre @ [x]) + length es]" for x
    by (intro filter_cong) (auto simp: nth_append)
  show ?case
  proof (cases "M e")
    case True
    let ?x = "e\<lparr>batch_id := primary, batch_index := n mod 2 ^ 32\<rparr>"
    have "filter (\<lambda>i. M ((pre @ e # es) ! i)) [length pre..<length pre + length (e # es)]
        = length pre # filter (\<lambda>i. M (((pre @ [?x]) @ es) ! i)) [length (pre @ [?x])..<length (pre @ [?x]) + length es]"
      unfolding upt [of ?x] same [symmetric] using True by simp
    then show ?thesis using Cons.IH [of "n + 1" "pre @ [?x]"] True by simp
  next
    case False
    have "filter (\<lambda>i. M ((pre @ e # es) ! i)) [length pre..<length pre + length (e # es)]
        = filter (\<lambda>i. M (((pre @ [e]) @ es) ! i)) [length (pre @ [e])..<length (pre @ [e]) + length es]"
      unfolding upt [of e] same [symmetric] using False by simp
    then show ?thesis using Cons.IH [of n "pre @ [e]"] False by simp
  qed
qed simp

lemma matching_indices_sorted:
  assumes "sorted_wrt (<) (map entry_id es)"
  shows "matching_indices es p q = filter (\<lambda>i. of_batches p q (es ! i)) [0..<length es]"
proof -
  have "map fst (filter (\<lambda>(_, e). effective_batch_id e = p \<or> effective_batch_id e = q) (enumerate 0 es))
      = filter (\<lambda>i. of_batches p q (es ! i)) [0..<length es]"
  proof -
    have "enumerate 0 es = map (\<lambda>i. (i, es ! i)) [0..<length es]"
      by (intro nth_equalityI) (simp_all add: nth_enumerate_eq)
    then show ?thesis by (simp add: filter_map comp_def of_batches_def)
  qed
  moreover have "sorted (map (\<lambda>i. entry_id (es ! i)) (filter (\<lambda>i. of_batches p q (es ! i)) [0..<length es]))"
  proof -
    have "sorted_wrt (\<lambda>i j. entry_id (es ! i) \<le> entry_id (es ! j)) [0..<length es]"
    proof (rule sorted_wrt_mono_rel [of _ "(<)"])
      fix i j assume "i \<in> set [0..<length es]" "j \<in> set [0..<length es]" "i < j"
      then show "entry_id (es ! i) \<le> entry_id (es ! j)"
        using assms by (auto simp: sorted_wrt_map sorted_wrt_iff_nth_less intro: less_imp_le)
    qed (simp add: sorted_wrt_upt)
    then show ?thesis by (simp add: sorted_map sorted_wrt_filter)
  qed
  ultimately show ?thesis by (simp add: matching_indices_def sort_key_id_if_sorted)
qed

lemma coalesced_history: "same_history es (coalesced M p n es)"
  unfolding same_history_def by (induction M p n es rule: coalesced.induct) (auto simp: core_def)

lemma coalesced_effective:
  assumes "p \<noteq> 0"
  shows "map effective_batch_id (coalesced M p n es) = map (\<lambda>e. if M e then p else effective_batch_id e) es"
  using assms by (induction M p n es rule: coalesced.induct) (auto simp: effective_batch_id_def)

lemma map_nth_filter: "map ((!) xs) (filter (\<lambda>i. P (xs ! i)) [0..<length xs]) = filter P xs"
proof -
  have "filter P (map ((!) xs) [0..<length xs]) = map ((!) xs) (filter (P \<circ> (!) xs) [0..<length xs])" by (rule filter_map)
  then show ?thesis by (simp add: map_nth comp_def)
qed

lemma coalesce_entries:
  assumes "p \<noteq> 0"
  shows "map ((!) (coalesced (of_batches p q) p 0 es)) (filter (\<lambda>i. of_batches p q (es ! i)) [0..<length es])
    = filter (\<lambda>e. effective_batch_id e = p) (coalesced (of_batches p q) p 0 es)"
proof -
  let ?es = "coalesced (of_batches p q) p 0 es"
  have len: "length ?es = length es" by (rule same_history_facts(3) [OF coalesced_history])
  have "of_batches p q (es ! i) \<longleftrightarrow> effective_batch_id (?es ! i) = p" if "i < length es" for i
  proof -
    have "map effective_batch_id ?es ! i = map (\<lambda>e. if of_batches p q e then p else effective_batch_id e) es ! i"
      using coalesced_effective [OF assms, of "of_batches p q" 0 es] by simp
    then show ?thesis using that len by (auto simp: of_batches_def)
  qed
  then have "filter (\<lambda>i. of_batches p q (es ! i)) [0..<length es] = filter (\<lambda>i. effective_batch_id (?es ! i) = p) [0..<length ?es]"
    unfolding len by (intro filter_cong) auto
  then show ?thesis using map_nth_filter [of ?es "\<lambda>e. effective_batch_id e = p"] by (simp only:)
qed

lemma effective_pos: "e \<in> set log \<Longrightarrow> map entry_id log = [1..<Suc (length log)] \<Longrightarrow> 0 < effective_batch_id e"
proof -
  assume a: "e \<in> set log" "map entry_id log = [1..<Suc (length log)]"
  have "entry_id e \<in> set [1..<Suc (length log)]" unfolding a(2) [symmetric] using a(1) by simp
  then show ?thesis by (simp add: effective_batch_id_def)
qed

lemma coalesce_ok:
  fixes log :: "'t OpEntry list"
  assumes "holds st log" "rewritable st" "p \<noteq> q" "p \<in> effective_batch_id ` set log" "q \<in> effective_batch_id ` set log"
  shows "\<exists>st'. coalesce_batches env st p q
      = (st', Inr \<lparr>opb_id = p, opb_entries = filter (\<lambda>e. effective_batch_id e = p) (coalesced (of_batches p q) p 0 log)\<rparr>)
    \<and> holds st' (coalesced (of_batches p q) p 0 log)"
proof -
  let ?log = "coalesced (of_batches p q) p 0 log"
  obtain st' where l: "write_lock st = (st', Inr ())" "holds st' log" "ol_pending st' = None" "ol_disk st' = ol_disk st"
    using write_lock_ok [OF assms(1)] by blast
  obtain s where s: "stores (ol_disk st') s log" using l(2) by (auto simp: holds_def)
  have p: "p \<noteq> 0" using assms(4) effective_pos [OF _ stores_log(1) [OF s]] by auto
  have matching: "matching_indices log p q = filter (\<lambda>i. of_batches p q (log ! i)) [0..<length log]"
    by (rule matching_indices_sorted [OF stores_log(4) [OF s]])
  have log': "rebatch p 0 (matching_indices log p q) log = ?log"
    using rebatch_filter [of p 0 "of_batches p q" "[]" log] by (simp add: matching)
  have "effective_batch_id e \<le> length ?log" if "e \<in> set ?log" for e
  proof -
    have "effective_batch_id e \<in> set (map effective_batch_id ?log)" using that by simp
    then have "effective_batch_id e \<in> insert p (effective_batch_id ` set log)"
      unfolding coalesced_effective [OF p] by auto
    moreover have "\<forall>x \<in> set log. effective_batch_id x \<le> length log" using s by (simp add: stores_def)
    moreover have "length ?log = length log" by (rule same_history_facts(3) [OF coalesced_history])
    ultimately show ?thesis using assms(4) by auto
  qed
  then have "\<forall>e \<in> set ?log. effective_batch_id e \<le> length ?log" by blast
  from rewrite_ok [OF l(2) coalesced_history this _ s, of "ce_sweep env"] obtain d s' where
    r: "replace_entries (ce_sweep env) (ol_disk st') s ?log = (d, Inr s')" "stores d s' ?log"
    using assms(2) l(4) by (auto simp: rewritable_def)
  have saw: "list_ex (\<lambda>e. effective_batch_id e = p) log" "list_ex (\<lambda>e. effective_batch_id e = q) log"
    using assms(4,5) by (auto simp: list_ex_iff)
  have "coalesce_batches env st p q
      = (st'\<lparr>ol_disk := d, ol_cached := Some s'\<rparr>, Inr \<lparr>opb_id = p, opb_entries = map ((!) ?log) (matching_indices log p q)\<rparr>)"
    using assms(3) saw
    by (simp add: coalesce_batches_def l(1) load_fresh_ok [OF s] Let_def stores_open [OF s] on_disk_call_def log' r(1))
  then show ?thesis
    using r(2) l(3) stores_cache_ok
    by (auto simp: matching coalesce_entries [OF p] holds_def)
qed

lemma coalesce_missing:
  assumes "holds st log" "p \<noteq> q" "p \<notin> effective_batch_id ` set log \<or> q \<notin> effective_batch_id ` set log"
  shows "\<exists>st'. coalesce_batches env st p q = (st', Inl (Config ''cannot coalesce missing oplog batch(es)'')) \<and> holds st' log"
proof -
  obtain st' where l: "write_lock st = (st', Inr ())" "holds st' log"
    using write_lock_ok [OF assms(1)] by blast
  obtain s where s: "stores (ol_disk st') s log" using l(2) by (auto simp: holds_def)
  show ?thesis
    using assms(2,3) l by (auto simp: coalesce_batches_def load_fresh_ok [OF s] Let_def list_ex_iff image_iff)
qed

end
