(* ===== verification/Oplog_Runs.thy ===== *)
theory Oplog_Runs
  imports Oplog_Correct
begin

text \<open>
  The operation log as a state machine: every public call of a handle is a step. The invariant that a handle
  holds one well-formed log is kept by every step, and history only ever grows: a call appends entries, sets the
  undo mark of a batch or renumbers two batches into one, and changes nothing else.
\<close>

declare upt_Suc [simp del]

section \<open>Histories\<close>

definition extends :: "'t OpEntry list \<Rightarrow> 't OpEntry list \<Rightarrow> bool" where
  "extends log log' \<longleftrightarrow> take (length log) (map core log') = map core log"

lemma extends_refl [simp]: "extends log log"
  by (simp add: extends_def)

lemma extends_append [simp]: "extends log (log @ new)"
  by (simp add: extends_def)

lemma extends_history: "same_history log log' \<Longrightarrow> extends log log'"
  using same_history_facts(3) [of log log'] by (simp add: extends_def same_history_def)

lemma extends_trans:
  assumes "extends a b" "extends b c"
  shows "extends a c"
proof -
  have "length a \<le> length b" using arg_cong [OF assms(1) [unfolded extends_def], of length] by simp
  then have "take (length a) (map core c) = take (length a) (take (length b) (map core c))" by (simp add: min_def)
  also have "\<dots> = map core a" using assms by (simp add: extends_def)
  finally show ?thesis by (simp add: extends_def)
qed

lemma first_commit_ops: "first_commit log tid \<noteq> None \<longleftrightarrow> (\<exists>r \<in> set (map operation log). commit_id r = Some tid)"
  by (auto simp: first_commit_def find_None_iff)

lemma extends_committed:
  assumes "extends log log'" "first_commit log tid \<noteq> None"
  shows "first_commit log' tid \<noteq> None"
proof -
  have "map operation log = map operation (map core log)" by (simp add: comp_def)
  also have "\<dots> = map operation (take (length log) (map core log'))" using assms(1) by (simp add: extends_def)
  also have "\<dots> = take (length log) (map operation log')" by (simp add: take_map comp_def)
  finally have "set (map operation log) \<subseteq> set (map operation log')" by (metis set_take_subset)
  then show ?thesis using assms(2) unfolding first_commit_ops by blast
qed

text \<open>The changes a call can make to a log, exactly.\<close>

inductive log_change :: "'t OpEntry list \<Rightarrow> 't OpEntry list \<Rightarrow> bool" where
  Appended: "log_change log (log @ new)"
| Marked: "log_change log (set_undone log batch flag)"
| Coalesced: "log_change log (coalesced (of_batches primary secondary) primary 0 log)"

lemma log_change_refl [simp, intro]: "log_change log log"
  using log_change.Appended [of log "[]"] by simp

lemma log_change_extends: "log_change log log' \<Longrightarrow> extends log log'"
  by (induction rule: log_change.induct) (auto intro: extends_history set_undone_history coalesced_history)

lemma log_changes_extend: "rtranclp log_change log log' \<Longrightarrow> extends log log'"
  by (induction rule: rtranclp_induct) (auto intro: extends_trans log_change_extends)

section \<open>Readers keep the invariant\<close>

lemma finish_pending_ok:
  assumes "holds st log"
  shows "\<exists>st'. finish_pending_reconstructible_view st = (st', Inr ()) \<and> holds st' log \<and> ol_pending st' = None"
  using write_lock_ok [OF assms] unfolding write_lock_def by blast

lemma healthy_loop_ok: "list_all2 (at_path d) rs ixs \<Longrightarrow> healthy_loop d rs = Inr True"
  by (induction rs ixs rule: list_all2_induct) (auto simp: at_path_def)

lemma is_healthy_ok:
  assumes "stores d s log"
  shows "sg_is_healthy d = Inr True"
proof -
  obtain xss where x: "represents s xss" using assms by (auto simp: stores_def)
  have disk: "on_disk d s" using assms by (simp add: stores_def)
  show ?thesis
  proof (cases "sg_manifest_bytes s")
    case (Some bs)
    then show ?thesis
      using disk manifest_codec(2) [OF represents_manifest_ok [OF x]] healthy_loop_ok
      by (auto simp: on_disk_def sg_is_healthy_def)
  next
    case None
    then show ?thesis
      using disk on_disk_exists [OF disk] by (auto simp: on_disk_def sg_is_healthy_def sg_exists_def)
  qed
qed

lemma reload_ok:
  assumes "holds st log"
  shows "\<exists>st' s. ensure_current_format env st = (st, Inr ()) \<and> reload_cached env st = (st', Inr s) \<and> holds st' log
    \<and> stores (ol_disk st') s log"
proof -
  obtain s where s: "stores (ol_disk st) s log" using assms by (auto simp: holds_def)
  have exists: "sg_exists (ol_disk st)" using s by (auto simp: stores_def intro: on_disk_exists)
  have "holds (st\<lparr>ol_cached := Some s\<rparr>) log" using assms s stores_cache_ok by (auto simp: holds_def)
  then show ?thesis
    using s by (simp add: reload_cached_def exists open_index_for_read_def stores_open [OF s]
        ensure_current_format_def Let_def is_healthy_ok [OF s])
qed

lemma refresh_ok:
  assumes "holds st log"
  shows "\<exists>st' s. refresh_cached env st = (st', Inr s) \<and> holds st' log \<and> stores (ol_disk st') s log"
proof -
  obtain st1 where f: "finish_pending_reconstructible_view st = (st1, Inr ())" "holds st1 log"
    using finish_pending_ok [OF assms] by blast
  show ?thesis using reload_ok [OF f(2), of env] f(1) by (auto simp: refresh_cached_def)
qed

lemma load_ok:
  assumes "holds st log"
  shows "\<exists>st' s. load_cached env st = (st', Inr s) \<and> holds st' log \<and> cache_ok s"
proof -
  obtain st1 where f: "finish_pending_reconstructible_view st = (st1, Inr ())" "holds st1 log"
    using finish_pending_ok [OF assms] by blast
  obtain st2 s where r: "ensure_current_format env st1 = (st1, Inr ())" "reload_cached env st1 = (st2, Inr s)" "holds st2 log"
    "stores (ol_disk st2) s log"
    using reload_ok [OF f(2), of env] by blast
  show ?thesis
  proof (cases "ol_cached st1")
    case None
    then show ?thesis using f r stores_cache_ok by (auto simp: load_cached_def)
  next
    case (Some c)
    then show ?thesis using f by (auto simp: load_cached_def holds_def)
  qed
qed

section \<open>The other writers\<close>

lemma build_groups_facts:
  assumes "build_groups actor now next_id groups = (es, ids)"
  shows "map entry_id es = [next_id..<next_id + length es] \<and> concat ids = map entry_id es
    \<and> map operation es = concat (map fst groups) \<and> length ids = length groups
    \<and> (0 < next_id \<longrightarrow> (\<forall>e \<in> set es. next_id \<le> effective_batch_id e \<and> effective_batch_id e < next_id + length es))"
  using assms
proof (induction actor now next_id groups arbitrary: es ids rule: build_groups.induct)
  case (2 actor now next_id operations scope groups)
  show ?case
  proof (cases "operations = []")
    case True
    then show ?thesis using 2 by (auto simp: Let_def split: prod.splits)
  next
    case False
    let ?new = "build_entries actor operations next_id now scope"
    obtain es' ids' where r: "build_groups actor now (next_id + length ?new) groups = (es', ids')" by force
    have res: "es = ?new @ es'" "ids = map entry_id ?new # ids'" using 2(3) False r by (auto simp: Let_def)
    have IH: "map entry_id es' = [next_id + length ?new..<next_id + length ?new + length es']" "concat ids' = map entry_id es'"
      "map operation es' = concat (map fst groups)" "length ids' = length groups"
      "\<And>e. e \<in> set es' \<Longrightarrow> next_id + length ?new \<le> effective_batch_id e
         \<and> effective_batch_id e < next_id + length ?new + length es'" if "0 < next_id"
      using 2(2) [OF False refl r] that by auto
    have IH': "map entry_id es' = [next_id + length ?new..<next_id + length ?new + length es']" "concat ids' = map entry_id es'"
      "map operation es' = concat (map fst groups)" "length ids' = length groups"
      using 2(2) [OF False refl r] by auto
    have ids: "map entry_id es = [next_id..<next_id + length es]"
      using IH'(1) upt_add_eq_append [of next_id "next_id + length operations" "length es'"] by (simp add: res add.assoc)
    have "next_id \<le> effective_batch_id e \<and> effective_batch_id e < next_id + length es" if "0 < next_id" "e \<in> set es" for e
    proof (cases "e \<in> set ?new")
      case True
      obtain n where n: "next_id = Suc n" using \<open>0 < next_id\<close> by (cases next_id) auto
      have "effective_batch_id e = next_id" using True unfolding n by (rule build_entries_batch)
      moreover have "0 < length operations" using False by simp
      ultimately show ?thesis by (simp add: res)
    next
      case new: False
      then have "e \<in> set es'" using that(2) by (simp add: res)
      from IH(5) [OF that(1) this] show ?thesis by (simp add: res)
    qed
    then show ?thesis using ids IH' by (simp add: res)
  qed
qed auto

lemma record_batches_ok:
  assumes "holds st log" "room st log (concat (map fst groups))"
  shows "\<exists>st' ids new. record_batches_scoped env st groups = (st', Inr ids) \<and> holds st' (log @ new)
    \<and> map operation new = concat (map fst groups) \<and> concat ids = map entry_id new"
proof (cases "list_all (\<lambda>(ops, _). ops = []) groups")
  case True
  then have "concat (map fst groups) = []" by (auto simp: list_all_iff)
  moreover have "concat (map (\<lambda>_. []) groups) = ([] :: nat list)" by simp
  ultimately show ?thesis
    using True assms(1)
    by (intro exI [of _ st] exI [of _ "map (\<lambda>_. []) groups"] exI [of _ "[]"]) (simp add: record_batches_scoped_def)
next
  case False
  obtain st' s where w: "write_lock st = (st', Inr ())" "open_index_for_write env st' = (st', Inr s)"
    "stores (ol_disk st') s log" "ol_pending st' = None" "ol_disk st' = ol_disk st" "ol_actor st' = ol_actor st"
    using writer_opens [OF assms(1)] by metis
  obtain es ids where b: "build_groups (ol_actor st') (ce_now env) (Suc (length log)) groups = (es, ids)" by force
  note facts = build_groups_facts [OF b]
  have "concat (map fst groups) \<noteq> []" using False by (force simp: list_all_iff)
  then have "es \<noteq> []" using facts by (metis list.map(1))
  moreover have "mf_generation (sg_manifest s) < u64_max"
    using assms(2) stores_open [OF w(3)] by (simp add: room_def w(5))
  moreover have "appendable log es"
  proof -
    have "map id_length es = map op_id_length (map operation es)" by (simp add: id_length_def op_id_length_def)
    then have "log_small (log @ es)"
      using assms(2) facts length_map [of operation es] by (simp add: room_def log_small_def)
    moreover have "effective_batch_id ` set log \<inter> effective_batch_id ` set es = {}"
      using facts w(3) by (fastforce simp: stores_def)
    ultimately show ?thesis using facts by (simp add: appendable_def)
  qed
  moreover have "\<forall>e \<in> set es. effective_batch_id e \<le> length log + length es" using facts by fastforce
  ultimately obtain st'' where "append_built env st' s es ids = (st'', Inr ids)" "holds st'' (log @ es)"
    using append_built_ok [OF w(3) _ _ _ _ w(4), of es env ids] by blast
  then show ?thesis
    using False facts stores_log(2) [OF w(3)]
    by (intro exI [of _ st''] exI [of _ ids] exI [of _ es]) (simp add: record_batches_scoped_def w(1,2) b)
qed

lemma already_committed_read:
  assumes "stores d s log"
  shows "\<exists>rs. sg_committed_batch_records s tid = Inr rs"
  using stores_reads(3,4) [OF assms]
  by (auto simp: sg_committed_batch_records_def sg_collect_batches_scoped_def split: option.splits)

lemma recorded_append:
  fixes st st' :: "'t OpLog"
  assumes "stores (ol_disk st') s log" "ol_pending st' = None" "ol_disk st' = ol_disk st" "ol_actor st' = ol_actor st"
    and "room st log operations" "operations \<noteq> []"
  shows "\<exists>d s'. append_entries (ce_sweep env) (ol_disk st') s (recorded env st log operations scope) = (d, Inr s')
    \<and> stores d s' (log @ recorded env st log operations scope)"
proof -
  obtain st'' where a: "append_built env st' s (recorded env st log operations scope) () = (st'', Inr ())"
    "holds st'' (log @ recorded env st log operations scope)"
    using record_new_entries(2) [OF assms, of env scope "()"] by blast
  obtain d r where r: "append_entries (ce_sweep env) (ol_disk st') s (recorded env st log operations scope) = (d, r)" by force
  then obtain s' where s': "r = Inr s'" "st'' = st'\<lparr>ol_disk := d, ol_cached := Some s'\<rparr>"
    using a(1) by (cases r) (auto simp: append_built_def on_disk_call_def)
  obtain xss where x: "represents s xss" "concat xss = log" "on_disk (ol_disk st') s" using assms(1) by (auto simp: stores_def)
  obtain s2 where s2: "stores d s2 (log @ recorded env st log operations scope)" using a(2) s'(2) by (auto simp: holds_def)
  have gen: "mf_generation (sg_manifest s) < u64_max"
    using assms(5) stores_open [OF assms(1)] by (simp add: room_def assms(3))
  have app: "appendable (concat xss) (recorded env st log operations scope)"
    unfolding recorded_def x(2) using assms(5) by (intro build_entries_appendable [OF assms(1)]) (auto simp: room_def)
  have "recorded env st log operations scope \<noteq> []" using assms(6) by (simp add: recorded_def)
  from append_publishes [OF x(1,3) app this gen, of "ce_sweep env"] obtain d0 s0 xss0 where
    p: "append_entries (ce_sweep env) (ol_disk st') s (recorded env st log operations scope)
         = (sweep_unlisted_containers (ce_sweep env) (sg_manifest s0) d0, Inr s0)" "represents s0 xss0" "on_disk d0 s0"
    by blast
  have "on_disk d s0"
    using p r unfolding sweep_unlisted_containers_def
    by (auto intro!: on_disk_remove swept_not_live [OF p(2)])
  then have "sg_open d = Inr s0" by (rule open_on_disk [OF p(2)])
  moreover have "s' = s0" using p(1) r s'(1) by simp
  ultimately have "s2 = s'" using stores_open [OF s2] by simp
  then show ?thesis using r s'(1) s2 by blast
qed

lemma reconstructible_ok:
  assumes "holds st log" "room st log (operations @ [TransactionCommit tid (word_of_nat (length operations))])"
    and "commit_reconstructible_batch_if_unchanged env st operations scope tid pre install = (st', r)"
  shows "holds st' log \<and> (\<forall>a i. r \<noteq> Inr (RCommitted a i))
    \<or> holds st' (log @ recorded env st log (operations @ [TransactionCommit tid (word_of_nat (length operations))]) scope)"
proof -
  obtain st1 s where w: "write_lock st = (st1, Inr ())" "open_index_for_write env st1 = (st1, Inr s)"
    "stores (ol_disk st1) s log" "ol_pending st1 = None" "ol_disk st1 = ol_disk st" "ol_actor st1 = ol_actor st" "holds st1 log"
    using writer_opens [OF assms(1)] by metis
  let ?ops = "operations @ [TransactionCommit tid (word_of_nat (length operations))]"
  let ?new = "recorded env st log ?ops scope"
  have new: "new_entries env st1 s ?ops scope = ?new"
    using stores_log(2) [OF w(3)] w(6) by (simp add: new_entries_def recorded_def)
  obtain d s' where a: "append_entries (ce_sweep env) (ol_disk st1) s ?new = (d, Inr s')" "stores d s' (log @ ?new)"
    using recorded_append [OF w(3-6) assms(2)] by blast
  obtain rs where rs: "sg_committed_batch_records s tid = Inr rs" using already_committed_read [OF w(3)] by blast
  have committed: "holds (st1\<lparr>ol_disk := d, ol_pending := Some (Inr s'), ol_cached := None\<rparr>) (log @ ?new)"
    using a(2) stores_cache_ok by (auto simp: holds_def)
  note run = assms(3) [unfolded commit_reconstructible_batch_if_unchanged_def w(1,2) call_then_simps
      stores_reads(3) [OF w(3)] rs check_isolation_ok [OF w(3)] Let_def new]
  show ?thesis
  proof (cases "first_commit log tid = None \<and> first_conflict pre log = None \<and> (\<exists>x. install (sg_head_id s) ?ops = Inr x)")
    case True
    then obtain x where "install (sg_head_id s) ?ops = Inr x" by blast
    then have "st' = st1\<lparr>ol_disk := d, ol_pending := Some (Inr s'), ol_cached := None\<rparr>"
      using run True by (simp add: new a(1))
    then show ?thesis using committed by blast
  next
    case False
    then have "st' = st1 \<and> (\<forall>a i. r \<noteq> Inr (RCommitted a i))"
      using run by (cases "install (sg_head_id s) ?ops") (auto split: if_splits option.splits)
    then show ?thesis using w(7) by blast
  qed
qed

section \<open>Steps\<close>

text \<open>One call of the handle. Where a call writes, the formats have room for what it writes.\<close>

inductive step :: "'t OpLog \<Rightarrow> 't OpLog \<Rightarrow> bool" where
  Record: "\<lbrakk>\<And>log. holds st log \<Longrightarrow> room st log operations; record_batch_scoped env st operations scope = (st', r)\<rbrakk>
    \<Longrightarrow> step st st'"
| RecordGroups: "\<lbrakk>\<And>log. holds st log \<Longrightarrow> room st log (concat (map fst groups)); record_batches_scoped env st groups = (st', rs)\<rbrakk>
    \<Longrightarrow> step st st'"
| RecordWindow: "\<lbrakk>\<And>log. holds st log \<Longrightarrow> room st log operations;
      record_batch_scoped_if_no_transaction env st operations scope tid window = (st', ro)\<rbrakk> \<Longrightarrow> step st st'"
| RecordOnce: "\<lbrakk>\<And>log. holds st log \<Longrightarrow> room st log operations;
      record_batch_exactly_once env st operations scope tid = (st', ro)\<rbrakk> \<Longrightarrow> step st st'"
| RecordUnchanged: "\<lbrakk>\<And>log. holds st log \<Longrightarrow> room st log operations;
      record_batch_exactly_once_if_unchanged env st operations scope tid pre = (st', rc)\<rbrakk> \<Longrightarrow> step st st'"
| Reconstructible: "\<lbrakk>\<And>log. holds st log \<Longrightarrow> room st log (operations @ [TransactionCommit tid (word_of_nat (length operations))]);
      commit_reconstructible_batch_if_unchanged env st operations scope tid pre
        (install :: nat \<Rightarrow> OpRecord list \<Rightarrow> bytes outcome) = (st', rr)\<rbrakk> \<Longrightarrow> step st st'"
| Mark: "\<lbrakk>rewritable st; update_batch_undone_state env st batch flag = (st', rb)\<rbrakk> \<Longrightarrow> step st st'"
| Coalesce: "\<lbrakk>rewritable st; coalesce_batches env st p q = (st', rb)\<rbrakk> \<Longrightarrow> step st st'"
| Load: "load_cached env st = (st', ri) \<Longrightarrow> step st st'"
| Refresh: "refresh_cached env st = (st', ri) \<Longrightarrow> step st st'"

inductive runs :: "'t OpLog \<Rightarrow> 't OpLog \<Rightarrow> bool" where
  Stay: "runs st st"
| Go: "runs st st' \<Longrightarrow> step st' st'' \<Longrightarrow> runs st st''"

definition fresh_handle :: "Principal \<Rightarrow> 't OpLog" where
  "fresh_handle actor = oplog_init
     \<lparr>ol_disk = \<lparr>dk_files = (\<lambda>_. None), dk_manifest = None\<rparr>, ol_cached = None, ol_pending = None, ol_actor = actor\<rparr>"

lemma record_window_ok:
  assumes "holds st log" "room st log operations" "operations \<noteq> []"
  shows "\<exists>st' r. record_batch_scoped_if_no_transaction env st operations scope tid window = (st', Inr r)
    \<and> (r = None \<and> holds st' log
       \<or> r = Some [Suc (length log)..<Suc (length log) + length operations]
         \<and> holds st' (log @ recorded env st log operations scope))"
proof -
  obtain st' s where w: "write_lock st = (st', Inr ())" "open_index_for_write env st' = (st', Inr s)"
    "stores (ol_disk st') s log" "ol_pending st' = None" "ol_disk st' = ol_disk st" "ol_actor st' = ol_actor st" "holds st' log"
    using writer_opens [OF assms(1)] by metis
  have recent: "sg_collect_batches_scoped s window (\<lambda>_. True) scope
      = Inr (take window (log_batches log 0 (\<lambda>_. True) scope))"
    using stores_reads(4) [OF w(3)] by (simp add: sg_collect_batches_scoped_def)
  let ?ids = "[Suc (length log)..<Suc (length log) + length operations]"
  note new = record_new_entries [OF w(3-6) assms(2,3)]
  obtain st'' where a: "append_built env st' s (recorded env st log operations scope) (Some ?ids) = (st'', Inr (Some ?ids))"
    "holds st'' (log @ recorded env st log operations scope)"
    using new(2) [where env = env and scope = scope and r = "Some ?ids"] by blast
  show ?thesis
    using assms(3) w(7) a
    by (simp add: record_batch_scoped_if_no_transaction_def w(1,2) recent Let_def recorded_ids new(1))
qed

lemma step_preserves:
  assumes "step st st'" "holds st log"
  shows "\<exists>log'. holds st' log' \<and> log_change log log'"
  using assms
proof (induction rule: step.induct)
  case (Record st operations env scope st' r)
  show ?case
  proof (cases "operations = []")
    case False
    with record_batch_ok [OF Record.prems Record.hyps(1) [OF Record.prems], of env scope] Record.hyps(2)
    show ?thesis using log_change.Appended by (metis prod.inject)
  qed (use Record in \<open>auto simp: record_batch_scoped_def\<close>)
next
  case (RecordGroups st groups env st' rs)
  show ?case
    using record_batches_ok [OF RecordGroups.prems RecordGroups.hyps(1) [OF RecordGroups.prems], of env] RecordGroups.hyps(2)
      log_change.Appended by (metis prod.inject)
next
  case (RecordWindow st operations env scope tid window st' ro)
  show ?case
  proof (cases "operations = []")
    case False
    with record_window_ok [OF RecordWindow.prems RecordWindow.hyps(1) [OF RecordWindow.prems], of env scope tid window]
      RecordWindow.hyps(2)
    show ?thesis using log_change.Appended log_change_refl by (metis prod.inject)
  qed (use RecordWindow in \<open>auto simp: record_batch_scoped_if_no_transaction_def\<close>)
next
  case (RecordOnce st operations env scope tid st' ro)
  show ?case
  proof (cases "operations = []")
    case False
    with exactly_once_ok [OF RecordOnce.prems False, of tid env scope] RecordOnce.hyps(1) [OF RecordOnce.prems] RecordOnce.hyps(2)
    show ?thesis using log_change.Appended log_change_refl by (metis prod.inject)
  qed (use RecordOnce in \<open>auto simp: record_batch_exactly_once_def\<close>)
next
  case (RecordUnchanged st operations env scope tid pre st' rc)
  show ?case
  proof (cases "operations = []")
    case nonempty: False
    show ?thesis
    proof (cases "first_commit log tid = None")
      case True
      show ?thesis
      proof (cases "first_conflict pre log")
        case None
        with conditional_commit_ok(2) [OF RecordUnchanged.prems nonempty True None RecordUnchanged.hyps(1) [OF RecordUnchanged.prems], of env scope]
          RecordUnchanged.hyps(2)
        show ?thesis using log_change.Appended by (metis prod.inject)
      next
        case (Some c)
        with conditional_commit_ok(1) [OF RecordUnchanged.prems nonempty True, of pre "fst c" "snd c" env scope] RecordUnchanged.hyps(2)
        show ?thesis using log_change_refl by (metis prod.inject prod.collapse)
      qed
    next
      case False
      obtain st1 s where w: "write_lock st = (st1, Inr ())" "open_index_for_write env st1 = (st1, Inr s)"
        "stores (ol_disk st1) s log" "holds st1 log"
        using writer_opens [OF RecordUnchanged.prems] by metis
      obtain rs where "sg_committed_batch_records s tid = Inr rs" using already_committed_read [OF w(3)] by blast
      then have "st' = st1"
        using RecordUnchanged.hyps(2) nonempty False
        by (auto simp: record_batch_exactly_once_if_unchanged_def w(1,2) stores_reads(3) [OF w(3)])
      then show ?thesis using w(4) log_change_refl by blast
    qed
  qed (use RecordUnchanged in \<open>auto simp: record_batch_exactly_once_if_unchanged_def\<close>)
next
  case (Reconstructible st operations tid env scope pre install st' rr)
  show ?case
    using reconstructible_ok [OF Reconstructible.prems Reconstructible.hyps(1) [OF Reconstructible.prems] Reconstructible.hyps(2)]
      log_change.Appended log_change_refl by blast
next
  case (Mark st env batch flag st' rb)
  show ?case
    using mark_ok [OF Mark.prems Mark.hyps(1), of env batch flag] Mark.hyps(2) log_change.Marked
    by (metis prod.inject)
next
  case (Coalesce st env p q st' rb)
  show ?case
  proof (cases "p = q")
    case True
    obtain st1 s where "load_cached env st = (st1, Inr s)" "holds st1 log"
      using load_ok [OF Coalesce.prems, of env] by blast
    then show ?thesis
      using Coalesce.hyps(2) True log_change_refl
      by (auto simp: coalesce_batches_def collect_batches_scoped_def call_then_def split: sum.splits)
  next
    case ne: False
    show ?thesis
    proof (cases "p \<in> effective_batch_id ` set log \<and> q \<in> effective_batch_id ` set log")
      case True
      with coalesce_ok [OF Coalesce.prems Coalesce.hyps(1) ne, of env] Coalesce.hyps(2)
      show ?thesis using log_change.Coalesced by (metis prod.inject)
    next
      case False
      with coalesce_missing [OF Coalesce.prems ne, of env] Coalesce.hyps(2)
      show ?thesis using log_change_refl by (metis prod.inject)
    qed
  qed
next
  case (Load env st st' ri)
  show ?case using load_ok [OF Load.prems, of env] Load.hyps log_change_refl by (metis prod.inject)
next
  case (Refresh env st st' ri)
  show ?case using refresh_ok [OF Refresh.prems, of env] Refresh.hyps log_change_refl by (metis prod.inject)
qed

lemma runs_preserve:
  assumes "runs st st'" "holds st log"
  shows "\<exists>log'. holds st' log' \<and> rtranclp log_change log log'"
  using assms
proof (induction rule: runs.induct)
  case (Go st st' st'')
  then show ?case using step_preserves rtranclp.rtrancl_into_rtrancl by metis
qed auto

lemma fresh_stores:
  "stores (ol_disk (fresh_handle actor)) \<lparr>sg_manifest = \<lparr>mf_generation = 0, mf_base = OPLOG_BIN, mf_segments = [],
     mf_entry_count = 0, mf_head_id = 0\<rparr>, sg_manifest_bytes = None, sg_base = log_container [], sg_segments = []\<rparr> []"
proof -
  have disk: "ol_disk (fresh_handle actor) = write_container \<lparr>dk_files = (\<lambda>_. None), dk_manifest = None\<rparr> [OPLOG_BIN] [] 0"
    by (simp add: fresh_handle_def oplog_init_def sg_exists_def)
  have "represents \<lparr>sg_manifest = \<lparr>mf_generation = 0, mf_base = OPLOG_BIN, mf_segments = [],
     mf_entry_count = 0, mf_head_id = 0\<rparr>, sg_manifest_bytes = None, sg_base = log_container [], sg_segments = []\<rparr> [[]]"
    by (simp add: represents_def no_span_def log_small_def weight_def container_paths_def named_def)
  then show ?thesis
    unfolding disk stores_def
    by (intro conjI exI [of _ "[[]]"])
      (simp_all add: on_disk_def container_paths_def at_path_def resolve_names write_container_def log_container_def last_id_def)
qed

lemma fresh_holds: "holds (fresh_handle actor :: 't OpLog) []"
proof -
  have "ol_cached (fresh_handle actor :: 't OpLog) = None" "ol_pending (fresh_handle actor :: 't OpLog) = None"
    by (simp_all add: fresh_handle_def oplog_init_def)
  then show ?thesis unfolding holds_def using fresh_stores [of actor] by (metis option.distinct(1))
qed

lemma fresh_open:
  "sg_open (ol_disk (fresh_handle actor :: 't OpLog)) = Inr s \<Longrightarrow> mf_generation (sg_manifest s) = 0"
  by (subst (asm) stores_open [OF fresh_stores]) auto

lemma fresh_rewritable: "rewritable (fresh_handle actor :: 't OpLog)"
  using fresh_open by (force simp: rewritable_def u64_max_def)

lemma fresh_room:
  "length operations \<le> usize_max \<Longrightarrow> sum_list (map op_id_length operations) \<le> usize_max \<Longrightarrow>
   room (fresh_handle actor :: 't OpLog) [] operations"
  using fresh_open by (force simp: room_def u64_max_def)

lemma holds_unique:
  assumes "holds st log" "holds st log'"
  shows "log = log'"
proof -
  obtain s s' where "stores (ol_disk st) s log" "stores (ol_disk st) s' log'" using assms by (auto simp: holds_def)
  then show ?thesis using stores_open stores_reads(5) by (metis sum.inject(2))
qed

end
