(* ===== verification/Oplog_Properties.thy ===== *)
theory Oplog_Properties
  imports Oplog_Runs
begin

text \<open>
  What the operation log promises to the rest of the program: an append-only history, exactly-once commits, isolation,
  undo marks that can be taken back and queries that follow the disk.
\<close>

declare upt_Suc [simp del]

section \<open>The promise of a keyed log\<close>

text \<open>
  The interface the clients of a log rely on: a store holds one history, calls only make histories grow, and
  what a history has committed stays committed. What a client concludes from it, over any number of calls,
  is proved here once.
\<close>

locale keyed_log =
  fixes holding :: "'s \<Rightarrow> 'e list \<Rightarrow> bool"
    and call :: "'s \<Rightarrow> 's \<Rightarrow> bool"
    and grows :: "'e list \<Rightarrow> 'e list \<Rightarrow> bool"
    and committed :: "'e list \<Rightarrow> 'k \<Rightarrow> bool"
  assumes one_history: "holding s l \<Longrightarrow> holding s l' \<Longrightarrow> l = l'"
    and call_keeps: "holding s l \<Longrightarrow> call s s' \<Longrightarrow> \<exists>l'. holding s' l' \<and> grows l l'"
    and grows_refl: "grows l l"
    and grows_trans: "grows l l' \<Longrightarrow> grows l' l'' \<Longrightarrow> grows l l''"
    and committed_grows: "grows l l' \<Longrightarrow> committed l k \<Longrightarrow> committed l' k"
begin

lemma calls_keep:
  assumes "rtranclp call s s'" "holding s l"
  shows "\<exists>l'. holding s' l' \<and> grows l l'"
  using assms
proof (induction rule: rtranclp_induct)
  case (step s' s'')
  then obtain l' l'' where "grows l l'" "holding s'' l''" "grows l' l''" using call_keeps by meson
  then show ?case using grows_trans by blast
qed (use grows_refl in blast)

lemma histories_grow:
  assumes "rtranclp call s s'" "holding s l" "holding s' l'"
  shows "grows l l'"
  using calls_keep [OF assms(1,2)] one_history [OF assms(3)] by blast

lemma commits_stay:
  assumes "rtranclp call s s'" "holding s l" "holding s' l'" "committed l k"
  shows "committed l' k"
  using histories_grow [OF assms(1-3)] assms(4) by (rule committed_grows)

end

lemma runs_calls: "runs st st' \<longleftrightarrow> rtranclp step st st'"
proof
  show "runs st st' \<Longrightarrow> rtranclp step st st'" by (induction rule: runs.induct) auto
  show "rtranclp step st st' \<Longrightarrow> runs st st'" by (induction rule: rtranclp_induct) (auto intro: runs.intros)
qed

interpretation oplog: keyed_log holds step "rtranclp log_change" "\<lambda>log tid. first_commit log tid \<noteq> None"
proof (unfold_locales, goal_cases)
  case (1 s l l') then show ?case by (rule holds_unique)
next
  case (2 s l s') then show ?case using step_preserves by blast
next
  case (3 l) then show ?case by simp
next
  case (4 l l' l'') then show ?case by (rule rtranclp_trans)
next
  case (5 l l' k) then show ?case using extends_committed log_changes_extend by blast
qed

lemmas oplog_facts = oplog.histories_grow [folded runs_calls] oplog.commits_stay [folded runs_calls]

section \<open>Reachable logs\<close>

lemma fresh_runs:
  assumes "runs (fresh_handle actor) st"
  shows "\<exists>log. holds st log"
  using runs_preserve [OF assms fresh_holds] by blast

lemma segments_weight:
  assumes "sorted_wrt (>) (map sd_level ds)"
  shows "2 ^ length ds \<le> Suc (weight ds)"
proof -
  have "sorted_wrt (<) (map sd_level (rev ds))" using assms by (simp add: rev_map [symmetric] sorted_wrt_rev)
  moreover have "2 ^ length es \<le> Suc (weight es)" if "sorted_wrt (<) (map sd_level es)" for es
    using that
  proof (induction es rule: rev_induct)
    case (snoc d es)
    have "length es \<le> sd_level d"
    proof -
      have "distinct (map sd_level es)" using snoc.prems by (simp add: sorted_wrt_append strict_sorted_iff)
      then have "length es = card (sd_level ` set es)" by (metis distinct_card length_map set_map)
      also have "\<dots> \<le> card {..<sd_level d}"
        using snoc.prems by (intro card_mono) (auto simp: sorted_wrt_append)
      finally show ?thesis by simp
    qed
    then have "(2 :: nat) ^ length es \<le> 2 ^ sd_level d" by simp
    moreover have "(2 :: nat) ^ length es \<le> Suc (weight es)" using snoc by (simp add: sorted_wrt_append)
    moreover have "(2 :: nat) ^ length (es @ [d]) = 2 ^ length es + 2 ^ length es" by simp
    ultimately show ?case unfolding weight_snoc(1) by linarith
  qed simp
  ultimately have "2 ^ length (rev ds) \<le> Suc (weight (rev ds))" by blast
  then show ?thesis by (simp add: weight_def rev_map [symmetric])
qed


section \<open>Small instances\<close>

text \<open>A call with a fixed clock, no old files and nothing to salvage; an empty log and one with a commit in it.\<close>

definition quiet_env :: "nat call_env" where
  "quiet_env = \<lparr>ce_now = 0, ce_sweep = \<lparr>env_old = (\<lambda>_. False), env_now_nanos = 0\<rparr>, ce_salvage = (\<lambda>_ d. (d, Inr False))\<rparr>"

definition empty_log :: "nat OpLog" where
  "empty_log = fresh_handle \<lparr>principal_name = [], principal_email = []\<rparr>"

definition one_commit :: "OpRecord list" where
  "one_commit = [MarkerCreate ''v1'' [], TransactionCommit ''tx'' 1]"

definition commit_log :: "nat OpLog" where
  "commit_log = fst (record_batch_exactly_once quiet_env empty_log one_commit None ''tx'')"

definition commit_entries :: "nat OpEntry list" where
  "commit_entries = recorded quiet_env empty_log [] one_commit None"

lemma empty_log_holds: "holds empty_log []" "rewritable empty_log"
  unfolding empty_log_def by (rule fresh_holds, rule fresh_rewritable)

lemma rewritable_generation: "rewritable st \<longleftrightarrow> generation st < u64_max"
  by (auto simp: rewritable_def generation_def u64_max_def split: sum.splits)

lemma empty_log_generation: "generation empty_log = 0"
  using fresh_open by (auto simp: empty_log_def generation_def split: sum.splits)

lemma empty_log_room: "length ops \<le> 10 \<Longrightarrow> sum_list (map op_id_length ops) \<le> 10 \<Longrightarrow> room empty_log [] ops"
  unfolding empty_log_def by (rule fresh_room) (simp_all add: usize_max_def)

lemma one_commit_room: "room empty_log [] one_commit"
  by (rule empty_log_room) (simp_all add: one_commit_def op_id_length_def)

lemma commit_log_holds:
  "record_batch_exactly_once quiet_env empty_log one_commit None ''tx'' = (commit_log, Inr (Some [1, 2]))"
  "holds commit_log commit_entries" "rewritable commit_log" "generation commit_log = 1"
proof -
  have "one_commit \<noteq> []" "first_commit ([] :: nat OpEntry list) ''tx'' = None" by (simp_all add: one_commit_def first_commit_def)
  note once = exactly_once_ok(2) [OF empty_log_holds(1) this one_commit_room, of quiet_env None]
  have upt_two: "[Suc 0..<Suc (Suc (Suc 0))] = [1, 2]" by (simp add: upt_conv_Cons numeral_2_eq_2)
  from once obtain st where
    st: "record_batch_exactly_once quiet_env empty_log one_commit None ''tx'' = (st, Inr (Some [1, 2]))" "holds st commit_entries"
    "generation st = Suc (generation empty_log)"
    using upt_two by (auto simp: one_commit_def commit_entries_def)
  moreover have "st = commit_log" using st(1) by (simp add: commit_log_def)
  ultimately show "record_batch_exactly_once quiet_env empty_log one_commit None ''tx'' = (commit_log, Inr (Some [1, 2]))"
    "holds commit_log commit_entries" by simp_all
  show "rewritable commit_log"
    unfolding rewritable_generation \<open>st = commit_log\<close> [symmetric] st(3) using empty_log_generation by (simp add: u64_max_def)
  show "generation commit_log = 1" using st(3) \<open>st = commit_log\<close> empty_log_generation by simp
qed

lemma commit_log_runs: "runs empty_log commit_log"
proof (rule runs.Go [OF runs.Stay])
  show "step empty_log commit_log"
  proof (rule step.RecordOnce [OF _ commit_log_holds(1)])
    show "room empty_log log one_commit" if "holds empty_log log" for log
      using one_commit_room holds_unique [OF that empty_log_holds(1)] by simp
  qed
qed


section \<open>Properties\<close>

text \<open>C1: Exactly-once commits: after a commit under a transaction id has been recorded, whatever calls follow, a
  second commit under the same id records nothing: it reports that it was already committed and the
  history stays as it is.\<close>

theorem commit_exactly_once:
  assumes "holds st log" "room st log ops" "TransactionCommit tid n \<in> set ops"
    and "record_batch_exactly_once env st ops scope tid = (st1, r)" "runs st1 st2" "ops' \<noteq> []"
  shows "\<exists>log2 st3. holds st2 log2 \<and> record_batch_exactly_once env' st2 ops' scope' tid = (st3, Inr None) \<and> holds st3 log2"
proof -
  have ne: "ops \<noteq> []" using assms(3) by auto
  obtain log1 where log1: "holds st1 log1" "first_commit log1 tid \<noteq> None"
  proof (cases "first_commit log tid")
    case None
    from exactly_once_ok(2) [OF assms(1) ne None assms(2), of env scope] have
      "holds st1 (log @ recorded env st log ops scope)" using assms(4) by auto
    moreover have "map operation (recorded env st log ops scope) = ops" by (simp add: recorded_def)
    then have "first_commit (log @ recorded env st log ops scope) tid \<noteq> None"
      unfolding first_commit_ops using assms(3) by (metis UnCI commit_id.simps(1) map_append set_append)
    ultimately show ?thesis using that by blast
  next
    case (Some c)
    then have "\<exists>st'. record_batch_exactly_once env st ops scope tid = (st', Inr None) \<and> holds st' log"
      by (intro exactly_once_ok(1) [OF assms(1) ne]) simp
    then show ?thesis using assms(4) Some that by auto
  qed
  obtain log2 where log2: "holds st2 log2" using runs_preserve [OF assms(5) log1(1)] by blast
  have "first_commit log2 tid \<noteq> None" using oplog_facts(2) [OF assms(5) log1(1) log2 log1(2)] .
  then have "\<exists>st'. record_batch_exactly_once env' st2 ops' scope' tid = (st', Inr None) \<and> holds st' log2"
    by (rule exactly_once_ok(1) [OF log2 assms(6)])
  then show ?thesis using log2 by blast
qed

theorem commit_exactly_once_witness:
  "\<exists>log2 st3. holds commit_log log2
    \<and> record_batch_exactly_once quiet_env commit_log [MarkerDelete ''v1'' []] None ''tx'' = (st3, Inr None) \<and> holds st3 log2"
  by (rule commit_exactly_once [OF empty_log_holds(1) one_commit_room _ commit_log_holds(1) runs.Stay])
    (simp_all add: one_commit_def)

text \<open>C7: History is append-only: every sequence of calls changes a log only by appending entries, setting the undo
  mark of one batch and renumbering two batches into one. So an entry, once recorded, keeps its place and all of its fields but its
  undo mark and its batch number and position.\<close>

theorem history_append_only:
  assumes "runs st st'" "holds st log" "holds st' log'"
  shows "rtranclp log_change log log'
    \<and> map (\<lambda>e. e\<lparr>undone := False, batch_id := 0, batch_index := 0\<rparr>) log
       = take (length log) (map (\<lambda>e. e\<lparr>undone := False, batch_id := 0, batch_index := 0\<rparr>) log')"
  using oplog_facts(1) [OF assms] log_changes_extend [of log log'] unfolding extends_def core_def [abs_def] by simp

theorem history_append_only_witness:
  "\<exists>st' log'. runs empty_log st' \<and> holds st' log' \<and> length log' = 2 \<and> list_all undone log'
    \<and> rtranclp log_change commit_entries log'
    \<and> map (\<lambda>e. e\<lparr>undone := False, batch_id := 0, batch_index := 0\<rparr>) commit_entries
       = take (length commit_entries) (map (\<lambda>e. e\<lparr>undone := False, batch_id := 0, batch_index := 0\<rparr>) log')"
proof -
  let ?batch = "\<lparr>opb_id = 1, opb_entries = []\<rparr> :: nat OpBatch"
  obtain st' r where u: "update_batch_undone_state quiet_env commit_log ?batch True = (st', r)" "holds st' (set_undone commit_entries 1 True)"
    using mark_ok [OF commit_log_holds(2,3), of quiet_env ?batch True] by auto
  have go: "runs commit_log st'"
    by (rule runs.Go [OF runs.Stay step.Mark [OF commit_log_holds(3) u(1)]])
  have "runs empty_log st'" by (rule runs.Go [OF commit_log_runs step.Mark [OF commit_log_holds(3) u(1)]])
  moreover have "length (set_undone commit_entries 1 True) = 2" "list_all undone (set_undone commit_entries 1 True)"
    by (simp_all add: commit_entries_def recorded_def build_entries_def one_commit_def set_undone_def)
  ultimately show ?thesis using history_append_only [OF go commit_log_holds(2) u(2)] u(2) by blast
qed

text \<open>C33: The segments of a reachable log form a binary counter: their number is at most logarithmic in the number
  of times the log was written, so in particular never more than 64.\<close>

theorem segments_logarithmic:
  assumes "runs (fresh_handle actor) st" "sg_open (ol_disk st) = Inr s"
  shows "2 ^ length (mf_segments (sg_manifest s)) \<le> Suc (mf_generation (sg_manifest s))
    \<and> length (mf_segments (sg_manifest s)) \<le> 64"
proof -
  obtain log where "holds st log" using fresh_runs [OF assms(1)] by blast
  then obtain s' where s': "stores (ol_disk st) s' log" by (auto simp: holds_def)
  then have "s' = s" using stores_open [OF s'] assms(2) by simp
  then obtain xss where x: "represents s xss" using s' by (auto simp: stores_def)
  let ?m = "sg_manifest s"
  have w: "sorted_wrt (>) (map sd_level (mf_segments ?m))" "weight (mf_segments ?m) \<le> mf_generation ?m"
    using x by (simp_all add: represents_def)
  have "2 ^ length (mf_segments ?m) \<le> Suc (weight (mf_segments ?m))" by (rule segments_weight [OF w(1)])
  moreover have "length (mf_segments ?m) \<le> 64" using represents_manifest_ok [OF x] by (simp add: manifest_ok_def)
  ultimately show ?thesis using w(2) by simp
qed

theorem segments_logarithmic_witness:
  "\<exists>s. sg_open (ol_disk commit_log) = Inr s
    \<and> 2 ^ length (mf_segments (sg_manifest s)) \<le> Suc (mf_generation (sg_manifest s)) \<and> length (mf_segments (sg_manifest s)) \<le> 64"
proof -
  obtain s where "sg_open (ol_disk commit_log) = Inr s"
    using commit_log_holds(2) stores_open by (auto simp: holds_def)
  then show ?thesis using segments_logarithmic [OF commit_log_runs [unfolded empty_log_def]] by blast
qed


text \<open>C35: Undoing a batch and redoing it restores the log, when no entry of the batch was undone before.\<close>

theorem undo_redo_restores:
  assumes "holds st log" "Suc (generation st) < u64_max" "0 < opb_id batch"
    and "\<forall>e \<in> set log. effective_batch_id e = opb_id batch \<longrightarrow> \<not> undone e"
    and "mark_batch_undone env st batch = (st1, r1)"
  shows "\<exists>st2 r2. mark_batch_redone env' st1 batch = (st2, Inr r2) \<and> holds st2 log"
proof -
  have "rewritable st" using assms(2) by (simp add: rewritable_generation)
  then have h1: "holds st1 (set_undone log (opb_id batch) True)" "rewritable st1"
    using mark_ok [OF assms(1), of env batch True] assms(2,5)
    by (auto simp: mark_batch_undone_def rewritable_generation)
  have "set_undone (set_undone log (opb_id batch) True) (opb_id batch) False = log"
    using assms(3,4) unfolding set_undone_effective [OF assms(3)]
    by (induction log) (auto simp: effective_batch_id_def)
  then show ?thesis
    using mark_ok [OF h1, of env' batch False] by (auto simp: mark_batch_redone_def)
qed

theorem undo_redo_restores_witness:
  "\<exists>st2 r2. mark_batch_redone quiet_env
      (fst (mark_batch_undone quiet_env commit_log \<lparr>opb_id = 1, opb_entries = []\<rparr>)) \<lparr>opb_id = 1, opb_entries = []\<rparr>
      = (st2, Inr r2) \<and> holds st2 commit_entries"
proof -
  let ?batch = "\<lparr>opb_id = 1, opb_entries = []\<rparr> :: nat OpBatch"
  let ?st1 = "fst (mark_batch_undone quiet_env commit_log ?batch)"
  have alive: "\<forall>e \<in> set commit_entries. effective_batch_id e = opb_id ?batch \<longrightarrow> \<not> undone e"
    by (auto simp: commit_entries_def recorded_def build_entries_def)
  have "Suc (generation commit_log) < u64_max" by (simp add: commit_log_holds(4) u64_max_def)
  then show ?thesis
    by (intro undo_redo_restores [OF commit_log_holds(2) _ _ alive]) (simp_all add: prod_eq_iff)
qed

text \<open>Coalescing two batches renumbers exactly their entries, in log order, into the first of them, returns that
  batch and changes nothing else; when one of the batches is not there it is an error and the log stays.\<close>

theorem coalesce_renumbers:
  assumes "holds st log" "rewritable st" "p \<noteq> q"
  shows "\<exists>st' r. coalesce_batches env st p q = (st', r)
    \<and> (if p \<in> effective_batch_id ` set log \<and> q \<in> effective_batch_id ` set log
       then holds st' (coalesced (of_batches p q) p 0 log)
         \<and> r = Inr \<lparr>opb_id = p, opb_entries = filter (\<lambda>e. effective_batch_id e = p) (coalesced (of_batches p q) p 0 log)\<rparr>
       else holds st' log \<and> r = Inl (Config ''cannot coalesce missing oplog batch(es)''))"
proof (cases "p \<in> effective_batch_id ` set log \<and> q \<in> effective_batch_id ` set log")
  case True
  then show ?thesis using coalesce_ok [OF assms, of env] by auto
next
  case False
  then have "\<exists>st'. coalesce_batches env st p q = (st', Inl (Config ''cannot coalesce missing oplog batch(es)'')) \<and> holds st' log"
    by (intro coalesce_missing [OF assms(1,3)]) blast
  then show ?thesis using False by auto
qed

theorem coalesce_renumbers_witness:
  "\<exists>st' r. coalesce_batches quiet_env commit_log 1 2 = (st', r)
    \<and> (if 1 \<in> effective_batch_id ` set commit_entries \<and> 2 \<in> effective_batch_id ` set commit_entries
       then holds st' (coalesced (of_batches 1 2) 1 0 commit_entries)
         \<and> r = Inr \<lparr>opb_id = 1, opb_entries = filter (\<lambda>e. effective_batch_id e = 1) (coalesced (of_batches 1 2) 1 0 commit_entries)\<rparr>
       else holds st' commit_entries \<and> r = Inl (Config ''cannot coalesce missing oplog batch(es)''))"
  by (rule coalesce_renumbers [OF commit_log_holds(2,3)]) simp

text \<open>C8: A conditional commit of a transaction not yet committed succeeds exactly when no later entry touches one of
  its isolation keys; otherwise it reports the first such entry, with its least key, and records nothing.\<close>

theorem conditional_commit_isolated:
  assumes "holds st log" "ops \<noteq> []" "first_commit log tid = None" "room st log ops"
  shows "\<exists>st' r. record_batch_exactly_once_if_unchanged env st ops scope tid pre = (st', Inr r)
    \<and> (case find (\<lambda>e. since_head_id pre < entry_id e \<and> touched_keys pre e \<noteq> {}) log of
         None \<Rightarrow> holds st' (log @ recorded env st log ops scope)
           \<and> r = Committed [Suc (length log)..<Suc (length log) + length ops]
       | Some e \<Rightarrow> holds st' log \<and> r = IsolationConflict (Min (touched_keys pre e)) (since_head_id pre) (entry_id e))"
proof (cases "find (\<lambda>e. since_head_id pre < entry_id e \<and> touched_keys pre e \<noteq> {}) log")
  case None
  then show ?thesis
    using conditional_commit_ok(2) [OF assms(1-3) _ assms(4), of pre env scope] by (force simp: first_conflict_def)
next
  case (Some e)
  then show ?thesis
    using conditional_commit_ok(1) [OF assms(1-3), of pre "Min (touched_keys pre e)" "entry_id e" env scope]
    by (auto simp: first_conflict_def)
qed


theorem conditional_commit_isolated_witness:
  "\<exists>st' r. record_batch_exactly_once_if_unchanged quiet_env empty_log one_commit None ''tx''
      \<lparr>since_head_id = 0, isolation_keys = {}\<rparr> = (st', Inr r)
    \<and> (case find (\<lambda>e. 0 < entry_id e \<and> touched_keys \<lparr>since_head_id = 0, isolation_keys = {}\<rparr> e \<noteq> {}) ([] :: nat OpEntry list) of
         None \<Rightarrow> holds st' ([] @ recorded quiet_env empty_log [] one_commit None)
           \<and> r = Committed [Suc (length ([] :: nat OpEntry list))..<Suc (length ([] :: nat OpEntry list)) + length one_commit]
       | Some e \<Rightarrow> holds st' []
           \<and> r = IsolationConflict (Min (touched_keys \<lparr>since_head_id = 0, isolation_keys = {}\<rparr> e)) 0 (entry_id e))"
  using conditional_commit_isolated [OF empty_log_holds(1) _ _ one_commit_room, of "''tx''" quiet_env None
    "\<lparr>since_head_id = 0, isolation_keys = {}\<rparr>"]
  by (simp add: one_commit_def first_commit_def)

text \<open>What a committed transaction recorded: its batch, in batch order, without the markers.\<close>

definition committed_payload :: "'t OpEntry list \<Rightarrow> string \<Rightarrow> OpRecord list" where
  "committed_payload log tid =
     (case first_commit log tid of
        None \<Rightarrow> []
      | Some (_, b) \<Rightarrow>
          map operation (filter (\<lambda>e. \<not> is_transaction_commit (operation e)) (opb_entries (log_batch log 0 b))))"

lemma only_member: "distinct xs \<Longrightarrow> x \<in> set xs \<Longrightarrow> filter (\<lambda>y. y = x) xs = [x]"
  by (induction xs) (auto simp: filter_empty_conv)

lemma batch_of_id:
  assumes "\<And>e. e \<in> set log \<Longrightarrow> 0 < entry_id e" "b \<in> effective_batch_id ` set log"
  shows "log_batches log 0 (\<lambda>batch. opb_id batch = b) None = [log_batch log 0 b]"
proof -
  have "opb_entries (log_batch log 0 b) \<noteq> []"
    using assms unfolding set_empty [symmetric] by (auto simp: log_batch_def)
  then have "(\<lambda>x. (opb_entries (log_batch log 0 x) \<noteq> [] \<and> in_scope None (log_batch log 0 x)) \<and> opb_id (log_batch log 0 x) = b)
    = (\<lambda>x. x = b)"
    by (auto simp: in_scope_def log_batch_def fun_eq_iff)
  then have "log_batches log 0 (\<lambda>batch. opb_id batch = b) None = map (log_batch log 0) (filter (\<lambda>x. x = b) (batch_order log))"
    by (simp add: log_batches_def filter_map comp_def)
  also have "filter (\<lambda>x. x = b) (batch_order log) = [b]"
  proof -
    have "distinct (batch_order log)" "b \<in> set (batch_order log)" using assms(2) by (auto simp: batch_order_def)
    then show ?thesis by (metis only_member)
  qed
  finally show ?thesis by simp
qed

lemma committed_records_log:
  assumes "stores d s log"
  shows "sg_committed_batch_records s tid = Inr (committed_payload log tid)"
proof (cases "first_commit log tid")
  case None
  then show ?thesis by (simp add: sg_committed_batch_records_def stores_reads(3) [OF assms] committed_payload_def)
next
  case (Some cb)
  then obtain c b where cb: "first_commit log tid = Some (c, b)" by (cases cb) simp
  then have b: "b \<in> effective_batch_id ` set log" by (auto simp: first_commit_def find_Some_iff)
  have pos: "0 < entry_id e" if "e \<in> set log" for e
  proof -
    have "entry_id e \<in> set [1..<Suc (length log)]" unfolding stores_log(1) [OF assms, symmetric] using that by simp
    then show ?thesis by simp
  qed
  show ?thesis
    by (simp add: sg_committed_batch_records_def stores_reads(3) [OF assms] cb committed_payload_def
        sg_collect_batches_scoped_def stores_reads(4) [OF assms] batch_of_id [OF pos b])
qed

text \<open>C34: The refreshing queries of a handle answer from the disk, whatever view the handle had cached: the head, the
  batches after an id, and the payload of a committed transaction are those of the one log.\<close>

theorem queries_follow_disk:
  assumes "holds st log"
  shows "\<exists>st1 st2 st3. recent_batches_after_scoped env st since_id count scope
        = (st1, Inr (take count (log_batches log since_id (\<lambda>_. True) scope))) \<and> holds st1 log
    \<and> oplog_head_id env st = (st2, Inr (length log)) \<and> holds st2 log
    \<and> oplog_committed_batch_records env st tid = (st3, Inr (committed_payload log tid)) \<and> holds st3 log"
proof -
  obtain st1 s where r: "refresh_cached env st = (st1, Inr s)" "holds st1 log" "stores (ol_disk st1) s log"
    using refresh_ok [OF assms] by blast
  obtain st2 where f: "finish_pending_reconstructible_view st = (st2, Inr ())" "holds st2 log"
    using finish_pending_ok [OF assms] by blast
  obtain s' where s': "stores (ol_disk st2) s' log" using f(2) by (auto simp: holds_def)
  have current: "ensure_current_format env st2 = (st2, Inr ())" using reload_ok [OF f(2), of env] by blast
  have "oplog_head_id env st = (st2, Inr (length log))"
    by (simp add: oplog_head_id_def f(1) current on_disk_head [OF s'])
  then show ?thesis
    using r(2) f(2)
    by (auto simp: recent_batches_after_scoped_def oplog_committed_batch_records_def r(1) stores_reads(4) [OF r(3)]
        committed_records_log [OF r(3)])
qed

theorem queries_follow_disk_witness:
  "\<exists>st1 st2 st3. recent_batches_after_scoped quiet_env commit_log 0 5 None
        = (st1, Inr (take 5 (log_batches commit_entries 0 (\<lambda>_. True) None))) \<and> holds st1 commit_entries
    \<and> oplog_head_id quiet_env commit_log = (st2, Inr (length commit_entries)) \<and> holds st2 commit_entries
    \<and> oplog_committed_batch_records quiet_env commit_log ''tx'' = (st3, Inr (committed_payload commit_entries ''tx''))
    \<and> holds st3 commit_entries"
  by (rule queries_follow_disk [OF commit_log_holds(2)])

text \<open>Retrying a conditional commit whose transaction is already in the log answers with the payload recorded the
  first time, and the log stays as it is.\<close>

theorem retry_returns_payload:
  assumes "holds st log" "ops \<noteq> []" "first_commit log tid \<noteq> None"
  shows "\<exists>st'. record_batch_exactly_once_if_unchanged env st ops scope tid pre
      = (st', Inr (AlreadyCommitted (committed_payload log tid))) \<and> holds st' log"
proof -
  obtain st' s where w: "write_lock st = (st', Inr ())" "open_index_for_write env st' = (st', Inr s)"
    "stores (ol_disk st') s log" "holds st' log"
    using writer_opens [OF assms(1)] by metis
  show ?thesis
    using assms(2,3) w(4)
    by (simp add: record_batch_exactly_once_if_unchanged_def w(1,2) stores_reads(3) [OF w(3)] committed_records_log [OF w(3)])
qed

theorem retry_returns_payload_witness:
  "\<exists>st'. record_batch_exactly_once_if_unchanged quiet_env commit_log one_commit None ''tx''
        \<lparr>since_head_id = 0, isolation_keys = {}\<rparr>
      = (st', Inr (AlreadyCommitted (committed_payload commit_entries ''tx''))) \<and> holds st' commit_entries"
proof -
  have "TransactionCommit ''tx'' 1 \<in> set (map operation commit_entries)"
    by (simp add: commit_entries_def recorded_def one_commit_def)
  then have "first_commit commit_entries ''tx'' \<noteq> None"
    unfolding first_commit_ops by (metis commit_id.simps(1))
  then show ?thesis by (intro retry_returns_payload [OF commit_log_holds(2)]) (simp_all add: one_commit_def)
qed

text \<open>A manifest within the limits of the format (which every manifest the log writes is) is read back from its
  bytes as it was written.\<close>

theorem manifest_roundtrip:
  assumes "manifest_ok m"
  shows "and_then (encode_manifest m) parse_manifest = Inr m"
  using manifest_codec [OF assms] by simp

theorem manifest_roundtrip_witness:
  "and_then (encode_manifest \<lparr>mf_generation = 7, mf_base = ''oplog.segments/base-3-g5.bin'',
      mf_segments = [\<lparr>sd_level = 2, sd_path = OPLOG_BIN\<rparr>], mf_entry_count = 9, mf_head_id = 9\<rparr>) parse_manifest
    = Inr \<lparr>mf_generation = 7, mf_base = ''oplog.segments/base-3-g5.bin'',
      mf_segments = [\<lparr>sd_level = 2, sd_path = OPLOG_BIN\<rparr>], mf_entry_count = 9, mf_head_id = 9\<rparr>"
  by (rule manifest_roundtrip)
    (auto simp: manifest_ok_def path_ok_def u64_max_def u32_max_def u8_max_def OPLOG_BIN_def intro!: ascii_is_utf8)

end
