(* ===== verification/Oplog_Codec.thy ===== *)
theory Oplog_Codec
  imports Oplog_Append "HOL-Library.Sublist"
begin

text \<open>
  The bytes of an operation log container, \<^verbatim>\<open>src/crates/oplog/src/oplog/packed_oplog.rs\<close>: header, entry
  stream, index sections and footer, how they are written and parsed, and how a truncated container is
  salvaged. The msgpack coding of a record (\<^verbatim>\<open>rmp_serde\<close>) and the civil time of a timestamp (\<^verbatim>\<open>chrono\<close>) are
  parameters.
\<close>

record 't entry_codec =
  enc_record :: "OpRecord \<Rightarrow> bytes outcome"
  dec_record :: "bytes \<Rightarrow> OpRecord outcome"
  time_parts :: "'t \<Rightarrow> int \<times> nat"
  time_from :: "int \<Rightarrow> nat \<Rightarrow> 't option"

section \<open>Constants\<close>

definition OPLOG_MAGIC :: string where "OPLOG_MAGIC = ''LMOPLOG'' @ [CHR 0x00]"
definition INDEX_MAGIC :: string where "INDEX_MAGIC = ''LMOPIDX'' @ [CHR 0x00]"
definition CURRENT_CONTAINER_VERSION :: nat where "CURRENT_CONTAINER_VERSION = 4"
definition CURRENT_OP_RECORD_SCHEMA_VERSION :: nat where "CURRENT_OP_RECORD_SCHEMA_VERSION = 4"
definition INDEX_VERSION :: nat where "INDEX_VERSION = 1"
definition LEGACY_HEADER_LEN :: nat where "LEGACY_HEADER_LEN = 8 + 4 + 8 + 8"
definition V4_HEADER_LEN :: nat where "V4_HEADER_LEN = 8 + 4 + 4 + 8 + 8"
definition FOOTER_U64_FIELDS :: nat where "FOOTER_U64_FIELDS = 13"
definition FOOTER_LEN :: nat where "FOOTER_LEN = 8 + 4 + 4 + FOOTER_U64_FIELDS * 8"
definition ENTRY_OFFSET_RECORD_LEN :: nat where "ENTRY_OFFSET_RECORD_LEN = 16"
definition BATCH_DIR_RECORD_LEN :: nat where "BATCH_DIR_RECORD_LEN = 48"
definition TX_DIR_RECORD_LEN :: nat where "TX_DIR_RECORD_LEN = 32"

section \<open>The cursor\<close>

text \<open>\<^verbatim>\<open>read_array\<close>, \<^verbatim>\<open>read_slice\<close> and \<^verbatim>\<open>read_bytes\<close>: the bytes and the new offset. Integers are little-endian.\<close>

type_synonym 'a reader = "bytes \<Rightarrow> nat \<Rightarrow> ('a \<times> nat) outcome"

definition cur_read :: "nat \<Rightarrow> bytes reader" where
  "cur_read n bs offset =
     (case checked_add offset n of
        None \<Rightarrow> Inl (InvalidObject ''oplog cursor overflow'')
      | Some e \<Rightarrow> if e > length bs then Inl (InvalidObject ''oplog truncated'')
                   else Inr (subslice bs offset e, e))"

text \<open>\<^verbatim>\<open>read_exact\<close> of the file, at the position reached.\<close>

definition file_read :: "nat \<Rightarrow> bytes reader" where
  "file_read n bs offset =
     (if offset + n > length bs then Inl (IoError ''failed to fill whole buffer'')
      else Inr (subslice bs offset (offset + n), offset + n))"

definition read_int :: "(nat \<Rightarrow> bytes reader) \<Rightarrow> nat \<Rightarrow> nat reader" where
  "read_int rd n bs offset = and_then (rd n bs offset) (\<lambda>(v, offset). Inr (from_le_bytes v, offset))"

definition read_i64 :: "(nat \<Rightarrow> bytes reader) \<Rightarrow> int reader" where
  "read_i64 rd bs offset = and_then (rd 8 bs offset) (\<lambda>(v, offset). Inr (from_le_bytes_i64 v, offset))"

section \<open>Entries\<close>

definition entry_bytes :: "'t entry_codec \<Rightarrow> 't OpEntry \<Rightarrow> bytes \<Rightarrow> bytes" where
  "entry_bytes C entry op_data =
     (let (secs, nanos) = time_parts C (entry_timestamp entry);
          scope_bytes = str_bytes (case entry_scope entry of Some s \<Rightarrow> s | None \<Rightarrow> []);
          actor_name = principal_name (entry_actor entry);
          actor_email = principal_email (entry_actor entry)
      in le_bytes 8 (entry_id entry) @ le_bytes 8 (batch_id entry) @ le_bytes 4 (batch_index entry)
         @ le_bytes_i64 secs @ le_bytes 4 nanos @ [if undone entry then 1 else 0]
         @ le_bytes 2 (length scope_bytes) @ scope_bytes
         @ le_bytes 4 (length op_data) @ op_data
         @ le_bytes 2 (length actor_name) @ actor_name
         @ le_bytes 2 (length actor_email) @ actor_email
         @ (case operation_id entry of Some op_id \<Rightarrow> 1 # op_id | None \<Rightarrow> [0]))"

definition encode_entry :: "'t entry_codec \<Rightarrow> 't OpEntry \<Rightarrow> bytes \<Rightarrow> bytes outcome" where
  "encode_entry C entry out =
     and_then (enc_record C (operation entry)) (\<lambda>op_data. Inr (out @ entry_bytes C entry op_data))"

definition scope_from :: "bytes \<Rightarrow> string option outcome" where
  "scope_from scope_bytes =
     (if scope_bytes = [] then Inr None
      else case from_utf8 scope_bytes of
             None \<Rightarrow> Inl (InvalidObject ''invalid UTF-8 in scope'')
           | Some s \<Rightarrow> Inr (Some s))"

definition operation_id_from :: "(nat \<Rightarrow> bytes reader) \<Rightarrow> nat \<Rightarrow> bytes option reader" where
  "operation_id_from rd tag bs offset =
     (if tag = 0 then Inr (None, offset)
      else if tag = 1 then and_then (rd 16 bs offset) (\<lambda>(v, offset). Inr (Some v, offset))
      else Inl (InvalidObject ''invalid operation_id tag byte''))"

definition timestamp_from :: "'t entry_codec \<Rightarrow> int \<Rightarrow> nat \<Rightarrow> 't outcome" where
  "timestamp_from C secs nanos =
     (if nanos \<ge> 1000000000 then Inl (InvalidObject ''invalid oplog timestamp'')
      else case time_from C secs nanos of
             None \<Rightarrow> Inl (InvalidObject ''invalid oplog timestamp'')
           | Some t \<Rightarrow> Inr t)"

text \<open>The fields of an entry, in order, from a reader of bytes.\<close>

definition parse_entry :: "(nat \<Rightarrow> bytes reader) \<Rightarrow> 't entry_codec \<Rightarrow> 't OpEntry reader" where
  "parse_entry rd C bs offset =
     and_then (read_int rd 8 bs offset) (\<lambda>(i, offset).
     and_then (read_int rd 8 bs offset) (\<lambda>(b, offset).
     and_then (read_int rd 4 bs offset) (\<lambda>(index, offset).
     and_then (read_i64 rd bs offset) (\<lambda>(secs, offset).
     and_then (read_int rd 4 bs offset) (\<lambda>(nanos, offset).
     and_then (read_int rd 1 bs offset) (\<lambda>(undone_byte, offset).
     and_then (read_int rd 2 bs offset) (\<lambda>(scope_len, offset).
     and_then (rd scope_len bs offset) (\<lambda>(scope_bytes, offset).
     and_then (scope_from scope_bytes) (\<lambda>scope.
     and_then (read_int rd 4 bs offset) (\<lambda>(op_len, offset).
     and_then (rd op_len bs offset) (\<lambda>(op_data, offset).
     and_then (dec_record C op_data) (\<lambda>op_record.
     and_then (read_int rd 2 bs offset) (\<lambda>(name_len, offset).
     and_then (rd name_len bs offset) (\<lambda>(actor_name, offset).
     and_then (read_int rd 2 bs offset) (\<lambda>(email_len, offset).
     and_then (rd email_len bs offset) (\<lambda>(actor_email, offset).
     and_then (read_int rd 1 bs offset) (\<lambda>(tag, offset).
     and_then (operation_id_from rd tag bs offset) (\<lambda>(op_id, offset).
     and_then (timestamp_from C secs nanos) (\<lambda>timestamp.
       Inr (\<lparr>entry_id = i, entry_timestamp = timestamp, operation = op_record, undone = (undone_byte \<noteq> 0),
             batch_id = b, batch_index = index, entry_scope = scope,
             entry_actor = \<lparr>principal_name = actor_name, principal_email = actor_email\<rparr>,
             operation_id = op_id\<rparr>, offset))))))))))))))))))))"

text \<open>The cache of the last actor only shares allocations; it does not show in the value.\<close>

definition parse_current_entry :: "'t entry_codec \<Rightarrow> 't OpEntry reader" where
  "parse_current_entry C = parse_entry cur_read C"

definition pk_read_entry_at :: "'t entry_codec \<Rightarrow> bytes \<Rightarrow> nat \<Rightarrow> 't OpEntry outcome" where
  "pk_read_entry_at C bs offset = and_then (parse_entry file_read C bs offset) (\<lambda>(e, _). Inr e)"

fun parse_current_entries :: "'t entry_codec \<Rightarrow> nat \<Rightarrow> 't OpEntry list reader" where
  "parse_current_entries C 0 bs offset = Inr ([], offset)"
| "parse_current_entries C (Suc n) bs offset =
     and_then (parse_current_entry C bs offset) (\<lambda>(e, offset).
     and_then (parse_current_entries C n bs offset) (\<lambda>(es, offset). Inr (e # es, offset)))"

section \<open>Header and footer\<close>

record PackedHeader =
  ph_entry_count :: nat
  ph_head_id :: nat
  ph_header_len :: nat

record PackedFooter =
  pf_entry_data_end :: nat
  pf_entry_offsets_offset :: nat
  pf_entry_offsets_count :: nat
  pf_batch_offsets_offset :: nat
  pf_batch_offsets_count :: nat
  pf_batch_dir_offset :: nat
  pf_batch_dir_count :: nat
  pf_tx_key_bytes_offset :: nat
  pf_tx_key_bytes_len :: nat
  pf_tx_dir_offset :: nat
  pf_tx_dir_count :: nat
  pf_entry_count :: nat
  pf_head_id :: nat

definition write_header :: "nat \<Rightarrow> nat \<Rightarrow> nat \<Rightarrow> bytes" where
  "write_header version entry_count head_id =
     str_bytes OPLOG_MAGIC @ le_bytes 4 version
     @ (if version = CURRENT_CONTAINER_VERSION then le_bytes 4 CURRENT_OP_RECORD_SCHEMA_VERSION else [])
     @ le_bytes 8 entry_count @ le_bytes 8 head_id"

definition validate_container_version :: "nat \<Rightarrow> unit outcome" where
  "validate_container_version version =
     (if version < CURRENT_CONTAINER_VERSION
      then Inl (StorageFormatTooOld ''packed oplog container'' version CURRENT_CONTAINER_VERSION)
      else if version > CURRENT_CONTAINER_VERSION
      then Inl (StorageFormatTooNew ''packed oplog container'' version CURRENT_CONTAINER_VERSION)
      else Inr ())"

definition validate_op_record_schema_version :: "nat \<Rightarrow> unit outcome" where
  "validate_op_record_schema_version version =
     (if version < CURRENT_OP_RECORD_SCHEMA_VERSION
      then Inl (StorageFormatTooOld ''oplog record schema'' version CURRENT_OP_RECORD_SCHEMA_VERSION)
      else if version > CURRENT_OP_RECORD_SCHEMA_VERSION
      then Inl (StorageFormatTooNew ''oplog record schema'' version CURRENT_OP_RECORD_SCHEMA_VERSION)
      else Inr ())"

definition header_fields :: "PackedHeader reader" where
  "header_fields bs offset =
     and_then (cur_read 8 bs offset) (\<lambda>(magic, offset).
     if magic \<noteq> str_bytes OPLOG_MAGIC then Inl (InvalidObject ''invalid oplog magic'') else
     and_then (read_int cur_read 4 bs offset) (\<lambda>(version, offset).
     and_then (validate_container_version version) (\<lambda>_.
     and_then (read_int cur_read 4 bs offset) (\<lambda>(schema, offset).
     and_then (validate_op_record_schema_version schema) (\<lambda>_.
     and_then (read_int cur_read 8 bs offset) (\<lambda>(entry_count, offset).
     and_then (read_int cur_read 8 bs offset) (\<lambda>(head_id, offset).
       Inr (\<lparr>ph_entry_count = entry_count, ph_head_id = head_id, ph_header_len = V4_HEADER_LEN\<rparr>, offset))))))))"

definition parse_header_with_cursor :: "bytes \<Rightarrow> (PackedHeader \<times> nat) outcome" where
  "parse_header_with_cursor bs = header_fields bs 0"

definition parse_header :: "bytes \<Rightarrow> PackedHeader outcome" where
  "parse_header bs = and_then (parse_header_with_cursor bs) (\<lambda>(header, _). Inr header)"

text \<open>\<^verbatim>\<open>read_header\<close> reads at most the fixed header of the file.\<close>

definition read_header :: "bytes \<Rightarrow> PackedHeader outcome" where
  "read_header file =
     (let bs = take V4_HEADER_LEN file
      in if length bs < LEGACY_HEADER_LEN then Inl (InvalidObject ''oplog truncated'') else parse_header bs)"

definition pk_read_head_id :: "bytes \<Rightarrow> nat outcome" where
  "pk_read_head_id file = and_then (read_header file) (\<lambda>h. Inr (ph_head_id h))"

definition pk_validate_header :: "bytes \<Rightarrow> unit outcome" where
  "pk_validate_header file = and_then (read_header file) (\<lambda>_. Inr ())"

definition trailer_ok :: "bytes \<Rightarrow> bool outcome" where
  "trailer_ok file =
     (if length file < LEGACY_HEADER_LEN + FOOTER_LEN then Inr False
      else
        and_then (file_read 8 file (length file - FOOTER_LEN)) (\<lambda>(magic, offset).
        if magic \<noteq> str_bytes INDEX_MAGIC then Inr False else
        and_then (read_int file_read 4 file offset) (\<lambda>(index_version, offset).
        if index_version \<noteq> INDEX_VERSION then Inr False else
        and_then (read_int file_read 4 file offset) (\<lambda>(footer_len, _).
          Inr (footer_len = FOOTER_LEN)))))"


definition footer_u64_values :: "PackedFooter \<Rightarrow> nat list" where
  "footer_u64_values f =
     [pf_entry_data_end f, pf_entry_offsets_offset f, pf_entry_offsets_count f, pf_batch_offsets_offset f,
      pf_batch_offsets_count f, pf_batch_dir_offset f, pf_batch_dir_count f, pf_tx_key_bytes_offset f,
      pf_tx_key_bytes_len f, pf_tx_dir_offset f, pf_tx_dir_count f, pf_entry_count f, pf_head_id f]"

definition write_footer :: "PackedFooter \<Rightarrow> bytes" where
  "write_footer f =
     str_bytes INDEX_MAGIC @ le_bytes 4 INDEX_VERSION @ le_bytes 4 FOOTER_LEN
     @ concat (map (le_bytes 8) (footer_u64_values f))"

text \<open>The fields of a footer that starts at an offset: magic, version, length, then the thirteen numbers.\<close>

definition footer_fields :: "PackedFooter reader" where
  "footer_fields bs offset =
     and_then (cur_read 8 bs offset) (\<lambda>(magic, offset).
     if magic \<noteq> str_bytes INDEX_MAGIC then Inl (InvalidObject ''invalid oplog index magic'') else
     and_then (read_int cur_read 4 bs offset) (\<lambda>(index_version, offset).
     if index_version \<noteq> INDEX_VERSION then Inl (InvalidObject ''unsupported oplog index version'') else
     and_then (read_int cur_read 4 bs offset) (\<lambda>(footer_len, offset).
     if footer_len \<noteq> FOOTER_LEN then Inl (InvalidObject ''oplog index footer length mismatch'') else
     and_then (read_int cur_read 8 bs offset) (\<lambda>(entry_data_end, offset).
     and_then (read_int cur_read 8 bs offset) (\<lambda>(entry_offsets_offset, offset).
     and_then (read_int cur_read 8 bs offset) (\<lambda>(entry_offsets_count, offset).
     and_then (read_int cur_read 8 bs offset) (\<lambda>(batch_offsets_offset, offset).
     and_then (read_int cur_read 8 bs offset) (\<lambda>(batch_offsets_count, offset).
     and_then (read_int cur_read 8 bs offset) (\<lambda>(batch_dir_offset, offset).
     and_then (read_int cur_read 8 bs offset) (\<lambda>(batch_dir_count, offset).
     and_then (read_int cur_read 8 bs offset) (\<lambda>(tx_key_bytes_offset, offset).
     and_then (read_int cur_read 8 bs offset) (\<lambda>(tx_key_bytes_len, offset).
     and_then (read_int cur_read 8 bs offset) (\<lambda>(tx_dir_offset, offset).
     and_then (read_int cur_read 8 bs offset) (\<lambda>(tx_dir_count, offset).
     and_then (read_int cur_read 8 bs offset) (\<lambda>(entry_count, offset).
     and_then (read_int cur_read 8 bs offset) (\<lambda>(head_id, offset).
       Inr (\<lparr>pf_entry_data_end = entry_data_end, pf_entry_offsets_offset = entry_offsets_offset,
             pf_entry_offsets_count = entry_offsets_count, pf_batch_offsets_offset = batch_offsets_offset,
             pf_batch_offsets_count = batch_offsets_count, pf_batch_dir_offset = batch_dir_offset,
             pf_batch_dir_count = batch_dir_count, pf_tx_key_bytes_offset = tx_key_bytes_offset,
             pf_tx_key_bytes_len = tx_key_bytes_len, pf_tx_dir_offset = tx_dir_offset,
             pf_tx_dir_count = tx_dir_count, pf_entry_count = entry_count, pf_head_id = head_id\<rparr>,
            offset)))))))))))))))))"

definition checked_section :: "nat \<Rightarrow> nat \<Rightarrow> nat \<Rightarrow> nat \<Rightarrow> unit outcome" where
  "checked_section offset count width footer_start =
     (if count * width > u64_max \<or> offset + count * width > u64_max
      then Inl (InvalidObject ''oplog section overflow'')
      else if offset > footer_start \<or> offset + count * width > footer_start
      then Inl (InvalidObject ''oplog section points outside file'')
      else Inr ())"

fun check_sections :: "nat \<Rightarrow> nat \<Rightarrow> (nat \<times> nat \<times> nat) list \<Rightarrow> unit outcome" where
  "check_sections data_end footer_start [] = Inr ()"
| "check_sections data_end footer_start ((offset, count, width) # rest) =
     and_then (checked_section offset count width footer_start) (\<lambda>_.
     if offset < data_end \<and> count > 0 then Inl (InvalidObject ''oplog section overlaps entry data'')
     else check_sections data_end footer_start rest)"

definition footer_validate :: "PackedFooter \<Rightarrow> PackedHeader \<Rightarrow> nat \<Rightarrow> nat \<Rightarrow> unit outcome" where
  "footer_validate f header file_len footer_start =
     (if pf_entry_count f \<noteq> ph_entry_count header \<or> pf_head_id f \<noteq> ph_head_id header
      then Inl (InvalidObject ''oplog header/footer entry metadata disagreement'')
      else if pf_entry_data_end f < ph_header_len header \<or> pf_entry_data_end f > footer_start
      then Inl (InvalidObject ''oplog entry section points outside file'')
      else if pf_entry_offsets_count f \<noteq> ph_entry_count header
      then Inl (InvalidObject ''oplog footer entry count disagrees with offset table'')
      else
        and_then (check_sections (pf_entry_data_end f) footer_start
          [(pf_entry_offsets_offset f, pf_entry_offsets_count f, ENTRY_OFFSET_RECORD_LEN),
           (pf_batch_offsets_offset f, pf_batch_offsets_count f, 8),
           (pf_batch_dir_offset f, pf_batch_dir_count f, BATCH_DIR_RECORD_LEN),
           (pf_tx_key_bytes_offset f, pf_tx_key_bytes_len f, 1),
           (pf_tx_dir_offset f, pf_tx_dir_count f, TX_DIR_RECORD_LEN)]) (\<lambda>_.
        if pf_entry_data_end f > pf_entry_offsets_offset f
        then Inl (InvalidObject ''oplog entry offsets start before entry data ends'')
        else if footer_start + FOOTER_LEN \<noteq> file_len
        then Inl (InvalidObject ''oplog footer length disagrees with file length'')
        else Inr ()))"

text \<open>The cursor of the source starts at the footer; here it keeps the position in the file.\<close>

definition footer_parse :: "bytes \<Rightarrow> PackedHeader \<Rightarrow> PackedFooter outcome" where
  "footer_parse bs header =
     (if length bs < ph_header_len header + FOOTER_LEN then Inl (InvalidObject ''oplog missing index footer'')
      else
        let footer_start = length bs - FOOTER_LEN
        in and_then (footer_fields bs footer_start) (\<lambda>(f, _).
           and_then (footer_validate f header (length bs) footer_start) (\<lambda>_. Inr f)))"

section \<open>Writing a container\<close>

definition write_batch_dir_record :: "BatchDirRecord \<Rightarrow> bytes" where
  "write_batch_dir_record r =
     le_bytes 8 (bdr_batch_id r) @ le_bytes 8 (bdr_newest_entry_id r) @ le_bytes 8 (bdr_first_offset_index r)
     @ le_bytes 4 (bdr_entry_count r) @ le_bytes 1 (bdr_scope_state r) @ replicate 3 0
     @ le_bytes 8 0 @ le_bytes 4 0 @ replicate 4 0"

definition write_tx_dir_record :: "TxDirRecord \<Rightarrow> bytes" where
  "write_tx_dir_record r =
     le_bytes 8 (tdr_key_offset r) @ le_bytes 4 (tdr_key_len r) @ replicate 4 0
     @ le_bytes 8 (tdr_commit_entry_id r) @ le_bytes 8 (tdr_batch_id r)"

definition write_entry_offset :: "EntryOffsetRecord \<Rightarrow> bytes" where
  "write_entry_offset r = le_bytes 8 (eor_entry_id r) @ le_bytes 8 (eor_entry_offset r)"

text \<open>
  The sections, one after the other, and the footer that says where each begins. The lengths of vectors in
  memory do not overflow, which \<^verbatim>\<open>index_sections_encoded_len\<close> checks.
\<close>

definition write_index_sections :: "bytes \<Rightarrow> 'a IndexSections_scheme \<Rightarrow> bytes" where
  "write_index_sections out ix =
     (let entry_data_end = length out;
          entry_offsets_offset = length out;
          out = out @ concat (map write_entry_offset (pk_entry_offsets ix));
          batch_offsets_offset = length out;
          out = out @ concat (map (le_bytes 8) (pk_batch_offsets ix));
          batch_dir_offset = length out;
          out = out @ concat (map write_batch_dir_record (pk_batch_dir ix));
          tx_key_bytes_offset = length out;
          out = out @ str_bytes (pk_tx_key_bytes ix);
          tx_dir_offset = length out;
          out = out @ concat (map write_tx_dir_record (pk_tx_dir ix))
      in out @ write_footer
         \<lparr>pf_entry_data_end = entry_data_end, pf_entry_offsets_offset = entry_offsets_offset,
          pf_entry_offsets_count = length (pk_entry_offsets ix), pf_batch_offsets_offset = batch_offsets_offset,
          pf_batch_offsets_count = length (pk_batch_offsets ix), pf_batch_dir_offset = batch_dir_offset,
          pf_batch_dir_count = length (pk_batch_dir ix), pf_tx_key_bytes_offset = tx_key_bytes_offset,
          pf_tx_key_bytes_len = length (pk_tx_key_bytes ix), pf_tx_dir_offset = tx_dir_offset,
          pf_tx_dir_count = length (pk_tx_dir ix), pf_entry_count = pk_entry_count ix,
          pf_head_id = pk_head_id ix\<rparr>)"

fun encode_entries :: "'t entry_codec \<Rightarrow> 't OpEntry list \<Rightarrow> bytes \<Rightarrow> (bytes \<times> EntryOffsetRecord list) outcome" where
  "encode_entries C [] out = Inr (out, [])"
| "encode_entries C (entry # rest) out =
     (let r = \<lparr>eor_entry_id = entry_id entry, eor_entry_offset = length out\<rparr>
      in and_then (encode_entry C entry out) (\<lambda>out.
         and_then (encode_entries C rest out) (\<lambda>(out, offsets). Inr (out, r # offsets))))"

definition encode_current_container :: "'t entry_codec \<Rightarrow> 't OpEntry list \<Rightarrow> nat \<Rightarrow> bytes outcome" where
  "encode_current_container C entries head_id =
     and_then (encode_entries C entries (write_header CURRENT_CONTAINER_VERSION (length entries) head_id))
       (\<lambda>(out, offsets).
         let (batch_offsets, batch_dir, key_bytes, tx_dir) =
               build_index_sections (zip entries (map eor_entry_offset offsets))
         in Inr (write_index_sections out
              \<lparr>pk_entry_count = length entries, pk_head_id = head_id, pk_entry_offsets = offsets,
               pk_batch_offsets = batch_offsets, pk_batch_dir = batch_dir, pk_tx_key_bytes = key_bytes,
               pk_tx_dir = tx_dir\<rparr>))"


section \<open>Reading a container\<close>

definition decode_current_container :: "'t entry_codec \<Rightarrow> bytes \<Rightarrow> ('t OpEntry list \<times> nat) outcome" where
  "decode_current_container C bs =
     and_then (parse_header_with_cursor bs) (\<lambda>(header, cursor).
     and_then (footer_parse bs header) (\<lambda>footer.
     if cursor > pf_entry_data_end footer
     then Inl (InvalidObject ''oplog footer points before the entry stream'')
     else
       let entry_bytes = subslice bs cursor (pf_entry_data_end footer)
       in and_then (parse_current_entries C (ph_entry_count header) entry_bytes 0) (\<lambda>(entries, offset).
          if cursor + offset \<noteq> pf_entry_data_end footer
          then Inl (InvalidObject ''oplog entry/index boundary disagreement'')
          else Inr (entries, ph_head_id header))))"

text \<open>A table of records of a file: so many records, one after the other, from an offset on.\<close>

fun read_table :: "'a reader \<Rightarrow> nat \<Rightarrow> bytes \<Rightarrow> nat \<Rightarrow> 'a list outcome" where
  "read_table rd 0 bs offset = Inr []"
| "read_table rd (Suc n) bs offset =
     and_then (rd bs offset) (\<lambda>(x, offset). and_then (read_table rd n bs offset) (\<lambda>xs. Inr (x # xs)))"

definition read_entry_offset :: "EntryOffsetRecord reader" where
  "read_entry_offset bs offset =
     and_then (read_int file_read 8 bs offset) (\<lambda>(i, offset).
     and_then (read_int file_read 8 bs offset) (\<lambda>(o', offset).
       Inr (\<lparr>eor_entry_id = i, eor_entry_offset = o'\<rparr>, offset)))"

definition read_batch_dir_record :: "BatchDirRecord reader" where
  "read_batch_dir_record bs offset =
     and_then (read_int file_read 8 bs offset) (\<lambda>(b, offset).
     and_then (read_int file_read 8 bs offset) (\<lambda>(newest, offset).
     and_then (read_int file_read 8 bs offset) (\<lambda>(first, offset).
     and_then (read_int file_read 4 bs offset) (\<lambda>(count, offset).
     and_then (read_int file_read 1 bs offset) (\<lambda>(state, offset).
     and_then (file_read 3 bs offset) (\<lambda>(_, offset).
     and_then (read_int file_read 8 bs offset) (\<lambda>(_, offset).
     and_then (read_int file_read 4 bs offset) (\<lambda>(_, offset).
     and_then (file_read 4 bs offset) (\<lambda>(_, offset).
       Inr (\<lparr>bdr_batch_id = b, bdr_newest_entry_id = newest, bdr_first_offset_index = first,
             bdr_entry_count = count, bdr_scope_state = state\<rparr>, offset))))))))))"

definition read_tx_dir_record :: "TxDirRecord reader" where
  "read_tx_dir_record bs offset =
     and_then (read_int file_read 8 bs offset) (\<lambda>(key_offset, offset).
     and_then (read_int file_read 4 bs offset) (\<lambda>(key_len, offset).
     and_then (file_read 4 bs offset) (\<lambda>(_, offset).
     and_then (read_int file_read 8 bs offset) (\<lambda>(commit_entry, offset).
     and_then (read_int file_read 8 bs offset) (\<lambda>(b, offset).
       Inr (\<lparr>tdr_key_offset = key_offset, tdr_key_len = key_len, tdr_commit_entry_id = commit_entry,
             tdr_batch_id = b\<rparr>, offset))))))"

definition read_entry_offsets :: "PackedFooter \<Rightarrow> bytes \<Rightarrow> EntryOffsetRecord list outcome" where
  "read_entry_offsets f bs = read_table read_entry_offset (pf_entry_offsets_count f) bs (pf_entry_offsets_offset f)"

definition read_batch_offsets :: "PackedFooter \<Rightarrow> bytes \<Rightarrow> nat list outcome" where
  "read_batch_offsets f bs = read_table (read_int file_read 8) (pf_batch_offsets_count f) bs (pf_batch_offsets_offset f)"

definition read_batch_dir :: "PackedFooter \<Rightarrow> bytes \<Rightarrow> BatchDirRecord list outcome" where
  "read_batch_dir f bs = read_table read_batch_dir_record (pf_batch_dir_count f) bs (pf_batch_dir_offset f)"

definition read_tx_key_bytes :: "PackedFooter \<Rightarrow> bytes \<Rightarrow> string outcome" where
  "read_tx_key_bytes f bs =
     and_then (file_read (pf_tx_key_bytes_len f) bs (pf_tx_key_bytes_offset f)) (\<lambda>(v, _). Inr (bytes_str v))"

definition read_tx_dir :: "PackedFooter \<Rightarrow> bytes \<Rightarrow> TxDirRecord list outcome" where
  "read_tx_dir f bs = read_table read_tx_dir_record (pf_tx_dir_count f) bs (pf_tx_dir_offset f)"

text \<open>\<^verbatim>\<open>PackedOpLogIndex::open\<close>: all sections are read and validated; entries stay in the file.\<close>

definition open_v4 :: "'t entry_codec \<Rightarrow> bytes \<Rightarrow> IndexSections outcome" where
  "open_v4 C bs =
     and_then (parse_header bs) (\<lambda>header.
     and_then (footer_parse bs header) (\<lambda>f.
     and_then (read_entry_offsets f bs) (\<lambda>offsets.
     and_then (read_batch_offsets f bs) (\<lambda>batch_offsets.
     and_then (read_batch_dir f bs) (\<lambda>batch_dir.
     and_then (read_tx_key_bytes f bs) (\<lambda>key_bytes.
     and_then (read_tx_dir f bs) (\<lambda>tx_dir.
       let ix = \<lparr>pk_entry_count = ph_entry_count header, pk_head_id = ph_head_id header,
                 pk_entry_offsets = offsets, pk_batch_offsets = batch_offsets, pk_batch_dir = batch_dir,
                 pk_tx_key_bytes = key_bytes, pk_tx_dir = tx_dir\<rparr>;
           record_at = (\<lambda>off. and_then
             (parse_current_entry C (subslice bs off (pf_entry_data_end f)) 0) (\<lambda>(e, _). Inr (operation e)))
       in and_then (validate_sections (ph_header_len header) (pf_entry_data_end f) record_at ix) (\<lambda>_. Inr ix))))))))"

section \<open>Salvage\<close>

datatype RecoveryStrategy = FooterGuided | ForwardGreedy

fun recovery_as_str :: "RecoveryStrategy \<Rightarrow> string" where
  "recovery_as_str FooterGuided = ''footer-guided''"
| "recovery_as_str ForwardGreedy = ''forward-greedy''"

record 't TruncatedTailRecovery =
  tr_entries :: "'t OpEntry list"
  tr_head_id :: nat
  tr_original_entry_count :: "nat option"
  tr_damaged_byte_start :: nat
  tr_damaged_byte_end :: nat
  tr_strategy :: RecoveryStrategy

definition recovered_records :: "'t TruncatedTailRecovery \<Rightarrow> nat" where
  "recovered_records r = length (tr_entries r)"

definition lost_records :: "'t TruncatedTailRecovery \<Rightarrow> nat option" where
  "lost_records r = map_option (\<lambda>count. count - recovered_records r) (tr_original_entry_count r)"

fun is_truncation_shaped_error :: "HeddleError \<Rightarrow> bool" where
  "is_truncation_shaped_error (InvalidObject message) =
     list_ex (\<lambda>part. contains_str part message)
       [''oplog truncated'', ''oplog missing index footer'', ''invalid oplog index magic'',
        ''oplog index footer length mismatch'', ''oplog entry/index boundary disagreement'',
        ''oplog entry section points outside file'', ''oplog footer length disagrees with file length'',
        ''section points outside file'', ''oplog entry-offset'', ''oplog batch offset'',
        ''oplog batch directory'', ''oplog transaction directory'']"
| "is_truncation_shaped_error _ = False"

definition parse_footer_at :: "bytes \<Rightarrow> nat \<Rightarrow> PackedFooter outcome" where
  "parse_footer_at bs footer_start =
     (if footer_start + FOOTER_LEN > length bs then Inl (InvalidObject ''oplog footer past end of file'')
      else and_then (footer_fields (subslice bs footer_start (footer_start + FOOTER_LEN)) 0) (\<lambda>(f, _). Inr f))"

definition head_of :: "'t OpEntry list \<Rightarrow> nat" where
  "head_of entries = (if entries = [] then 0 else entry_id (last entries))"

definition try_footer_guided_at ::
  "'t entry_codec \<Rightarrow> bytes \<Rightarrow> PackedHeader \<Rightarrow> nat \<Rightarrow> nat \<Rightarrow> 't TruncatedTailRecovery option" where
  "try_footer_guided_at C bs header entries_start footer_start =
     (case parse_footer_at bs footer_start of Inl _ \<Rightarrow> None
      | Inr f \<Rightarrow>
          if pf_entry_count f \<noteq> ph_entry_count header \<or> pf_head_id f \<noteq> ph_head_id header then None
          else if pf_entry_data_end f < entries_start \<or> pf_entry_data_end f > footer_start then None
          else (case parse_current_entries C (ph_entry_count header)
                       (subslice bs entries_start (pf_entry_data_end f)) 0 of
                  Inl _ \<Rightarrow> None
                | Inr (entries, offset) \<Rightarrow>
                    if offset \<noteq> pf_entry_data_end f - entries_start then None
                    else Some \<lparr>tr_entries = entries, tr_head_id = head_of entries,
                           tr_original_entry_count = Some (ph_entry_count header),
                           tr_damaged_byte_start = pf_entry_data_end f, tr_damaged_byte_end = length bs,
                           tr_strategy = FooterGuided\<rparr>))"

text \<open>The candidates from the last possible footer down to the start of the entries.\<close>

fun scan_loop ::
  "'t entry_codec \<Rightarrow> bytes \<Rightarrow> PackedHeader \<Rightarrow> nat \<Rightarrow> nat \<Rightarrow> 't TruncatedTailRecovery option" where
  "scan_loop C bs header entries_start n =
     (let candidate = entries_start + n;
          found = (if subslice bs candidate (candidate + length INDEX_MAGIC) = str_bytes INDEX_MAGIC
                   then try_footer_guided_at C bs header entries_start candidate else None)
      in if found \<noteq> None then found
         else case n of 0 \<Rightarrow> None | Suc m \<Rightarrow> scan_loop C bs header entries_start m)"

declare scan_loop.simps [simp del]

definition scan_footer_guided_recovery ::
  "'t entry_codec \<Rightarrow> bytes \<Rightarrow> PackedHeader \<Rightarrow> nat \<Rightarrow> 't TruncatedTailRecovery option" where
  "scan_footer_guided_recovery C bs header entries_start =
     (if length bs < entries_start + FOOTER_LEN then None
      else scan_loop C bs header entries_start (length bs - FOOTER_LEN - entries_start))"

text \<open>Forward: entries parse until the first torn one; an error of another kind is not salvaged.\<close>

fun forward_loop :: "'t entry_codec \<Rightarrow> nat \<Rightarrow> bytes \<Rightarrow> nat \<Rightarrow> ('t OpEntry list \<times> nat) outcome" where
  "forward_loop C 0 bs offset = Inr ([], offset)"
| "forward_loop C (Suc n) bs offset =
     (case parse_current_entry C bs offset of
        Inr (e, offset') \<Rightarrow>
          and_then (forward_loop C n bs offset') (\<lambda>(es, damaged). Inr (e # es, damaged))
      | Inl err \<Rightarrow> if is_truncation_shaped_error err then Inr ([], offset) else Inl err)"

definition plan_truncated_latest_recovery ::
  "'t entry_codec \<Rightarrow> bytes \<Rightarrow> HeddleError \<Rightarrow> 't TruncatedTailRecovery option outcome" where
  "plan_truncated_latest_recovery C bs source_error =
     (if \<not> is_truncation_shaped_error source_error then Inr None
      else case parse_header_with_cursor bs of
        Inl err \<Rightarrow>
          if \<not> is_truncation_shaped_error err \<or> length bs > V4_HEADER_LEN
             \<or> \<not> (prefix bs (str_bytes OPLOG_MAGIC) \<or> prefix (str_bytes OPLOG_MAGIC) bs)
          then Inr None
          else Inr (Some \<lparr>tr_entries = [], tr_head_id = 0, tr_original_entry_count = None,
                 tr_damaged_byte_start = 0, tr_damaged_byte_end = length bs, tr_strategy = ForwardGreedy\<rparr>)
      | Inr (header, cursor) \<Rightarrow>
          (case scan_footer_guided_recovery C bs header (ph_header_len header) of
             Some r \<Rightarrow> Inr (Some r)
           | None \<Rightarrow>
               and_then (forward_loop C (ph_entry_count header) bs cursor) (\<lambda>(entries, damaged).
                 Inr (Some \<lparr>tr_entries = entries, tr_head_id = head_of entries,
                   tr_original_entry_count = Some (ph_entry_count header), tr_damaged_byte_start = damaged,
                   tr_damaged_byte_end = length bs, tr_strategy = ForwardGreedy\<rparr>))))"

end
