(* ===== verification/Oplog_Codec_Correct.thy ===== *)
theory Oplog_Codec_Correct
  imports Oplog_Codec Oplog_Segments_Correct
begin

text \<open>
  Correctness of the container bytes: entries, tables, footer and whole containers are read back as written,
  the byte level implements the containers the rest of the log works on, and the salvage of a truncated
  container returns a prefix of its entries with every entry that is complete.
\<close>

declare le_bytes.simps [simp del]

section \<open>Readers and the bytes they read\<close>

text \<open>
  \<open>f\<close> reads \<open>x\<close> from the bytes \<open>b\<close>, whatever follows, and fails with \<open>err\<close> when the input ends within them.
  The size of an input is an \<^verbatim>\<open>isize\<close>.
\<close>

definition codec :: "HeddleError \<Rightarrow> 'a reader \<Rightarrow> 'a \<Rightarrow> bytes \<Rightarrow> bool" where
  "codec err f x b \<longleftrightarrow> (\<forall>bs off. off \<le> length bs \<longrightarrow> length bs < 2 ^ 63 \<longrightarrow>
     (\<forall>rest. drop off bs = b @ rest \<longrightarrow> f bs off = Inr (x, off + length b))
     \<and> (\<forall>n < length b. drop off bs = take n b \<longrightarrow> f bs off = Inl err))"

lemma codecI:
  assumes "\<And>bs off rest. off \<le> length bs \<Longrightarrow> length bs < 2 ^ 63 \<Longrightarrow> drop off bs = b @ rest \<Longrightarrow> f bs off = Inr (x, off + length b)"
    and "\<And>bs off n. off \<le> length bs \<Longrightarrow> length bs < 2 ^ 63 \<Longrightarrow> n < length b \<Longrightarrow> drop off bs = take n b \<Longrightarrow> f bs off = Inl err"
  shows "codec err f x b"
  using assms by (auto simp: codec_def)

lemma codec_ok:
  assumes "codec err f x b" "drop off bs = b @ rest" "off \<le> length bs" "length bs < 2 ^ 63"
  shows "f bs off = Inr (x, off + length b)" "drop (off + length b) bs = rest" "off + length b \<le> length bs"
proof -
  show "f bs off = Inr (x, off + length b)" using assms unfolding codec_def by blast
  show "drop (off + length b) bs = rest"
    using assms(2) by (metis add.commute append_eq_conv_conj drop_drop)
  have "length (drop off bs) = length b + length rest" using assms(2) by simp
  then show "off + length b \<le> length bs" using assms(3) by simp
qed

lemma codec_short:
  assumes "codec err f x b" "drop off bs = take n b" "n < length b" "off \<le> length bs" "length bs < 2 ^ 63"
  shows "f bs off = Inl err"
  using assms unfolding codec_def by blast

lemma codec_bind:
  assumes f: "codec err f x b1" and g: "codec err (g x) y b2"
  shows "codec err (\<lambda>bs off. and_then (f bs off) (\<lambda>(v, off). g v bs off)) y (b1 @ b2)"
proof (rule codecI)
  fix bs off rest assume a: "off \<le> length bs" "length bs < 2 ^ 63" "drop off bs = (b1 @ b2) @ rest"
  have "drop off bs = b1 @ (b2 @ rest)" using a(3) by simp
  note b1 = codec_ok [OF f this a(1,2)]
  show "and_then (f bs off) (\<lambda>(v, off). g v bs off) = Inr (y, off + length (b1 @ b2))"
    using codec_ok [OF g b1(2,3) a(2)] by (simp add: b1(1) add.assoc)
next
  fix bs off n assume a: "off \<le> length bs" "length bs < 2 ^ 63" "n < length (b1 @ b2)" "drop off bs = take n (b1 @ b2)"
  show "and_then (f bs off) (\<lambda>(v, off). g v bs off) = Inl err"
  proof (cases "n < length b1")
    case True
    then have "drop off bs = take n b1" using a(4) by simp
    then show ?thesis using codec_short [OF f _ True a(1,2)] by simp
  next
    case False
    then have "drop off bs = b1 @ take (n - length b1) b2" using a(4) by simp
    note b1 = codec_ok [OF f this a(1,2)]
    have "n - length b1 < length b2" using a(3) False by simp
    then show ?thesis using codec_short [OF g b1(2) _ b1(3) a(2)] by (simp add: b1(1))
  qed
qed

lemma codec_pure:
  assumes "r = Inr v" "codec err (g v) y b"
  shows "codec err (\<lambda>bs off. and_then r (\<lambda>v. g v bs off)) y b"
  using assms by simp

lemma codec_unless: "codec err f x b \<Longrightarrow> codec err (\<lambda>bs off. if m \<noteq> m then Inl e else f bs off) x b"
  by simp

lemma codec_return: "codec err (\<lambda>bs off. Inr (x, off)) x []"
  by (simp add: codec_def)

text \<open>A primitive reader of a given number of bytes.\<close>

definition reader_ok :: "HeddleError \<Rightarrow> (nat \<Rightarrow> bytes reader) \<Rightarrow> bool" where
  "reader_ok err rd \<longleftrightarrow> (\<forall>b. length b \<le> u32_max \<longrightarrow> codec err (rd (length b)) b b)"

lemma codec_read: "reader_ok err rd \<Longrightarrow> length b \<le> u32_max \<Longrightarrow> n = length b \<Longrightarrow> codec err (rd n) b b"
  by (simp add: reader_ok_def)

lemma subslice_front: "drop off bs = b @ rest \<Longrightarrow> subslice bs off (off + length b) = b"
  by (simp add: subslice_def)

lemma drop_lengths: "drop off bs = b @ rest \<Longrightarrow> off \<le> length bs \<Longrightarrow> length bs = off + length b + length rest"
  using length_drop [of off bs] by simp

lemma cur_read_ok: "reader_ok (InvalidObject ''oplog truncated'') cur_read"
  unfolding reader_ok_def
proof (intro allI impI codecI)
  fix b bs :: bytes and off rest assume a: "length b \<le> u32_max" "off \<le> length bs" "length bs < 2 ^ 63" "drop off bs = b @ rest"
  have "length bs = off + length b + length rest" by (rule drop_lengths [OF a(4,2)])
  then show "cur_read (length b) bs off = Inr (b, off + length b)"
    using a(3) subslice_front [OF a(4)] by (simp add: cur_read_def checked_add_def usize_max_def)
next
  fix b bs :: bytes and off n
  assume a: "length b \<le> u32_max" "off \<le> length bs" "length bs < 2 ^ 63" "n < length b" "drop off bs = take n b"
  have "length bs = off + n" using arg_cong [OF a(5), of length] a(2,4) by simp
  moreover have "off + length b \<le> usize_max" using a(1-3) by (simp add: u32_max_def usize_max_def)
  ultimately show "cur_read (length b) bs off = Inl (InvalidObject ''oplog truncated'')"
    using a(4) by (simp add: cur_read_def checked_add_def)
qed

lemma file_read_ok: "reader_ok (IoError ''failed to fill whole buffer'') file_read"
  unfolding reader_ok_def
proof (intro allI impI codecI)
  fix b bs :: bytes and off rest assume a: "off \<le> length bs" "drop off bs = b @ rest"
  have "length bs = off + length b + length rest" by (rule drop_lengths [OF a(2,1)])
  then show "file_read (length b) bs off = Inr (b, off + length b)"
    using subslice_front [OF a(2)] by (simp add: file_read_def)
next
  fix b bs :: bytes and off n assume a: "off \<le> length bs" "n < length b" "drop off bs = take n b"
  have "length bs = off + n" using arg_cong [OF a(3), of length] a(1,2) by simp
  then show "file_read (length b) bs off = Inl (IoError ''failed to fill whole buffer'')"
    using a(2) by (simp add: file_read_def)
qed

lemma codec_map:
  assumes "codec err f x b"
  shows "codec err (\<lambda>bs off. and_then (f bs off) (\<lambda>(v, off). Inr (h v, off))) (h x) b"
  using codec_bind [OF assms, of "\<lambda>v bs off. Inr (h v, off)" "h x" "[]"] codec_return [of err "h x"] by simp

lemma codec_int:
  assumes "reader_ok err rd" "v < 256 ^ n" "n \<le> 8"
  shows "codec err (read_int rd n) v (le_bytes n v)"
proof -
  have "codec err (rd n) (le_bytes n v) (le_bytes n v)"
    using assms(1,3) by (intro codec_read) (simp_all add: u32_max_def)
  from codec_map [OF this, of from_le_bytes] show ?thesis
    using le_bytes_roundtrip [OF assms(2)] by (simp add: read_int_def [abs_def])
qed

lemma codec_i64:
  assumes "reader_ok err rd" "- (2 ^ 63) \<le> i" "i < 2 ^ 63"
  shows "codec err (read_i64 rd) i (le_bytes_i64 i)"
proof -
  have "codec err (rd 8) (le_bytes_i64 i) (le_bytes_i64 i)"
    using assms(1) by (intro codec_read) (simp_all add: u32_max_def)
  from codec_map [OF this, of from_le_bytes_i64] show ?thesis
    using le_bytes_i64_roundtrip [OF assms(2,3)] by (simp add: read_i64_def [abs_def])
qed

section \<open>Entries\<close>

text \<open>
  What the parameters are relied on for: a record decodes from its own encoding, and a timestamp is rebuilt
  from its seconds and nanoseconds.
\<close>

definition codec_laws :: "'t entry_codec \<Rightarrow> bool" where
  "codec_laws C \<longleftrightarrow> (\<forall>r bs. enc_record C r = Inr bs \<longrightarrow> dec_record C bs = Inr r)
     \<and> (\<forall>t s n. time_parts C t = (s, n) \<longrightarrow> - (2 ^ 63) \<le> s \<and> s < 2 ^ 63 \<and> time_from C s n = Some t)"

text \<open>
  What fits the format: ids and index in their integers, a scope that is not empty and shorter than 2^16
  bytes, a name and an email shorter than 2^16 bytes, a timestamp outside a leap second.
\<close>

definition entry_fits :: "'t entry_codec \<Rightarrow> 't OpEntry \<Rightarrow> bool" where
  "entry_fits C e \<longleftrightarrow> entry_id e < 2 ^ 64 \<and> batch_id e < 2 ^ 64 \<and> batch_index e < 2 ^ 32
     \<and> snd (time_parts C (entry_timestamp e)) < 10 ^ 9
     \<and> (\<forall>s. entry_scope e = Some s \<longrightarrow> s \<noteq> [] \<and> length s < 2 ^ 16 \<and> is_utf8 s)
     \<and> length (principal_name (entry_actor e)) < 2 ^ 16 \<and> length (principal_email (entry_actor e)) < 2 ^ 16
     \<and> (\<forall>i. operation_id e = Some i \<longrightarrow> length i = 16)"

lemma str_bytes_Nil [simp]: "str_bytes s = [] \<longleftrightarrow> s = []" "str_bytes [] = []"
  by (simp_all add: str_bytes_def)

lemma scope_from_bytes:
  "(\<forall>s. scope = Some s \<longrightarrow> s \<noteq> [] \<and> is_utf8 s) \<Longrightarrow>
   scope_from (str_bytes (case scope of Some s \<Rightarrow> s | None \<Rightarrow> [])) = Inr scope"
  by (cases scope) (auto simp: scope_from_def from_utf8_str_bytes)

lemma codec_operation_id:
  assumes "reader_ok err rd" "\<forall>i. op_id = Some i \<longrightarrow> length i = 16"
  shows "codec err (operation_id_from rd (if op_id = None then 0 else 1)) op_id (case op_id of Some i \<Rightarrow> i | None \<Rightarrow> [])"
proof (cases op_id)
  case None
  then show ?thesis by (simp add: operation_id_from_def [abs_def] codec_return)
next
  case (Some i)
  then have "codec err (rd 16) i i" using assms by (intro codec_read) (simp_all add: u32_max_def)
  from codec_map [OF this, of Some] show ?thesis using Some by (simp add: operation_id_from_def [abs_def])
qed

lemma one_byte: "n < 256 \<Longrightarrow> le_bytes (Suc 0) n = [word_of_nat n]"
  by (simp add: le_bytes.simps)

lemma entry_eta:
  "\<lparr>entry_id = entry_id e, entry_timestamp = entry_timestamp e, operation = operation e, undone = undone e,
    batch_id = batch_id e, batch_index = batch_index e, entry_scope = entry_scope e,
    entry_actor = \<lparr>principal_name = principal_name (entry_actor e), principal_email = principal_email (entry_actor e)\<rparr>,
    operation_id = operation_id e\<rparr> = e"
  by (intro OpEntry.equality Principal.equality) simp_all

lemma parse_entry_codec:
  assumes rd: "reader_ok err rd" and laws: "codec_laws C" and fits: "entry_fits C e"
    and op: "enc_record C (operation e) = Inr op_data" "length op_data < 2 ^ 32"
  shows "codec err (parse_entry rd C) e (entry_bytes C e op_data)"
proof -
  obtain secs nanos where t: "time_parts C (entry_timestamp e) = (secs, nanos)" by force
  have tl: "- (2 ^ 63) \<le> secs" "secs < 2 ^ 63" "time_from C secs nanos = Some (entry_timestamp e)" "nanos < 10 ^ 9"
    using laws fits t by (simp_all add: codec_laws_def entry_fits_def)
  let ?scope = "str_bytes (case entry_scope e of Some s \<Rightarrow> s | None \<Rightarrow> [])"
  let ?undone = "if undone e then 1 else 0 :: nat" and ?tag = "if operation_id e = None then 0 else 1 :: nat"
  let ?name = "principal_name (entry_actor e)" and ?email = "principal_email (entry_actor e)"
  let ?op_id = "case operation_id e of Some i \<Rightarrow> i | None \<Rightarrow> []"
  have scope: "length ?scope < 2 ^ 16" "scope_from ?scope = Inr (entry_scope e)"
    using fits scope_from_bytes [of "entry_scope e"] by (auto simp: entry_fits_def split: option.splits)
  have undone_byte: "[if undone e then 1 else 0] = le_bytes 1 ?undone" by (simp add: one_byte)
  have id_bytes: "(case operation_id e of Some op_id \<Rightarrow> 1 # op_id | None \<Rightarrow> [0]) = le_bytes 1 ?tag @ ?op_id"
    by (simp add: one_byte split: option.splits)
  have bytes: "entry_bytes C e op_data =
      le_bytes 8 (entry_id e) @ le_bytes 8 (batch_id e) @ le_bytes 4 (batch_index e)
      @ le_bytes_i64 secs @ le_bytes 4 nanos @ le_bytes 1 ?undone
      @ le_bytes 2 (length ?scope) @ ?scope @ le_bytes 4 (length op_data) @ op_data
      @ le_bytes 2 (length ?name) @ ?name @ le_bytes 2 (length ?email) @ ?email @ le_bytes 1 ?tag @ ?op_id @ []"
    by (simp add: entry_bytes_def t Let_def undone_byte id_bytes)
  note int = codec_int [OF rd] and raw = codec_read [OF rd _ refl]
  have ints: "codec err (read_int rd 8) (entry_id e) (le_bytes 8 (entry_id e))"
    "codec err (read_int rd 8) (batch_id e) (le_bytes 8 (batch_id e))"
    "codec err (read_int rd 4) (batch_index e) (le_bytes 4 (batch_index e))"
    "codec err (read_int rd 4) nanos (le_bytes 4 nanos)"
    "codec err (read_int rd 1) ?undone (le_bytes 1 ?undone)"
    "codec err (read_int rd 2) (length ?scope) (le_bytes 2 (length ?scope))"
    "codec err (read_int rd 4) (length op_data) (le_bytes 4 (length op_data))"
    "codec err (read_int rd 2) (length ?name) (le_bytes 2 (length ?name))"
    "codec err (read_int rd 2) (length ?email) (le_bytes 2 (length ?email))"
    "codec err (read_int rd 1) ?tag (le_bytes 1 ?tag)"
    by (rule int; use fits op(2) scope(1) tl(4) in \<open>simp add: entry_fits_def\<close>)+
  have raws: "codec err (rd (length ?scope)) ?scope ?scope" "codec err (rd (length op_data)) op_data op_data"
    "codec err (rd (length ?name)) ?name ?name" "codec err (rd (length ?email)) ?email ?email"
    by (rule raw; use fits op(2) scope(1) in \<open>simp add: entry_fits_def u32_max_def\<close>)+
  have id_fits: "\<forall>i. operation_id e = Some i \<longrightarrow> length i = 16" using fits by (simp add: entry_fits_def)
  have ts: "timestamp_from C secs nanos = Inr (entry_timestamp e)" using tl(3,4) by (simp add: timestamp_from_def)
  have dec: "dec_record C op_data = Inr (operation e)" using laws op(1) by (simp add: codec_laws_def)
  have "codec err (parse_entry rd C)
     \<lparr>entry_id = entry_id e, entry_timestamp = entry_timestamp e, operation = operation e, undone = (?undone \<noteq> 0),
      batch_id = batch_id e, batch_index = batch_index e, entry_scope = entry_scope e,
      entry_actor = \<lparr>principal_name = ?name, principal_email = ?email\<rparr>, operation_id = operation_id e\<rparr>
     (entry_bytes C e op_data)"
    unfolding bytes parse_entry_def [abs_def]
    by (rule codec_bind codec_pure [OF scope(2)] codec_pure [OF dec] codec_pure [OF ts] codec_return ints raws
        codec_i64 [OF rd tl(1,2)] codec_operation_id [OF rd id_fits])+
  moreover have "(?undone \<noteq> 0) = undone e" by simp
  ultimately show ?thesis by (simp only: entry_eta)
qed


section \<open>Entry streams\<close>

text \<open>The error of a cursor whose input ends.\<close>

abbreviation truncated :: HeddleError where
  "truncated \<equiv> InvalidObject ''oplog truncated''"

definition encodable :: "'t entry_codec \<Rightarrow> 't OpEntry \<Rightarrow> bool" where
  "encodable C e \<longleftrightarrow> entry_fits C e \<and> (\<exists>op. enc_record C (operation e) = Inr op \<and> length op < 2 ^ 32)"

text \<open>The bytes of an encodable entry and of a list of them.\<close>

definition encoded :: "'t entry_codec \<Rightarrow> 't OpEntry \<Rightarrow> bytes" where
  "encoded C e = entry_bytes C e (case enc_record C (operation e) of Inr op \<Rightarrow> op | Inl _ \<Rightarrow> [])"

definition stream :: "'t entry_codec \<Rightarrow> 't OpEntry list \<Rightarrow> bytes" where
  "stream C es = concat (map (encoded C) es)"

lemma stream_simps [simp]:
  "stream C [] = []" "stream C (e # es) = encoded C e @ stream C es" "stream C (es @ es') = stream C es @ stream C es'"
  by (simp_all add: stream_def)

lemma encoded_codec:
  assumes "reader_ok err rd" "codec_laws C" "encodable C e"
  shows "codec err (parse_entry rd C) e (encoded C e)"
  using assms parse_entry_codec unfolding encodable_def encoded_def by fastforce

lemma encode_encodable: "encodable C e \<Longrightarrow> encode_entry C e out = Inr (out @ encoded C e)"
  by (auto simp: encodable_def encode_entry_def encoded_def)

lemma encoded_length: "41 \<le> length (encoded C e)"
  by (auto simp: encoded_def entry_bytes_def Let_def split: prod.splits option.splits)

definition entry_offsets :: "'t entry_codec \<Rightarrow> nat \<Rightarrow> 't OpEntry list \<Rightarrow> nat list" where
  "entry_offsets C base es = map (\<lambda>i. base + length (stream C (take i es))) [0..<length es]"

lemma entry_offsets_Cons:
  "entry_offsets C base (e # es) = base # entry_offsets C (base + length (encoded C e)) es"
  unfolding entry_offsets_def by (simp add: upt_conv_Cons map_Suc_upt [symmetric] comp_def add.assoc del: upt_Suc)

lemma length_entry_offsets [simp]: "length (entry_offsets C base es) = length es"
  by (simp add: entry_offsets_def)

lemma encode_entries_ok:
  "\<forall>e \<in> set es. encodable C e \<Longrightarrow> encode_entries C es out
    = Inr (out @ stream C es, map2 (\<lambda>e o'. \<lparr>eor_entry_id = entry_id e, eor_entry_offset = o'\<rparr>) es (entry_offsets C (length out) es))"
proof (induction es arbitrary: out)
  case (Cons e es)
  then show ?case by (simp add: encode_encodable entry_offsets_Cons Let_def)
qed (simp add: entry_offsets_def)

lemma parse_entries_codec:
  assumes "codec_laws C" "\<forall>e \<in> set es. encodable C e"
  shows "codec truncated (parse_current_entries C (length es)) es (stream C es)"
  using assms(2)
proof (induction es)
  case Nil
  then show ?case by (simp add: codec_return)
next
  case (Cons e es)
  have "codec truncated (parse_current_entry C) e (encoded C e)"
    using Cons.prems unfolding parse_current_entry_def [abs_def] by (intro encoded_codec [OF cur_read_ok assms(1)]) simp
  moreover have "codec truncated (\<lambda>bs off. and_then (parse_current_entries C (length es) bs off) (\<lambda>(es, off). Inr (e # es, off)))
      (e # es) (stream C es)"
    by (rule codec_map) (use Cons in simp)
  ultimately show ?case
    using codec_bind [of truncated "parse_current_entry C" e "encoded C e"
      "\<lambda>e bs off. and_then (parse_current_entries C (length es) bs off) (\<lambda>(es, off). Inr (e # es, off))" "e # es" "stream C es"]
    by simp
qed

section \<open>Header and footer\<close>

lemma header_codec:
  assumes "n < 2 ^ 64" "h < 2 ^ 64"
  shows "codec truncated header_fields \<lparr>ph_entry_count = n, ph_head_id = h, ph_header_len = V4_HEADER_LEN\<rparr>
    (write_header CURRENT_CONTAINER_VERSION n h)"
proof -
  note int = codec_int [OF cur_read_ok]
  have magic: "codec truncated (cur_read 8) (str_bytes OPLOG_MAGIC) (str_bytes OPLOG_MAGIC)"
    using cur_read_ok by (rule codec_read) (simp_all add: OPLOG_MAGIC_def u32_max_def)
  have version: "validate_container_version CURRENT_CONTAINER_VERSION = Inr ()"
    "validate_op_record_schema_version CURRENT_OP_RECORD_SCHEMA_VERSION = Inr ()"
    by (simp_all add: validate_container_version_def validate_op_record_schema_version_def)
  have ints: "codec truncated (read_int cur_read 4) CURRENT_CONTAINER_VERSION (le_bytes 4 CURRENT_CONTAINER_VERSION)"
    "codec truncated (read_int cur_read 4) CURRENT_OP_RECORD_SCHEMA_VERSION (le_bytes 4 CURRENT_OP_RECORD_SCHEMA_VERSION)"
    "codec truncated (read_int cur_read 8) n (le_bytes 8 n)" "codec truncated (read_int cur_read 8) h (le_bytes 8 h)"
    by (rule int; use assms in \<open>simp add: CURRENT_CONTAINER_VERSION_def CURRENT_OP_RECORD_SCHEMA_VERSION_def\<close>)+
  have bytes: "write_header CURRENT_CONTAINER_VERSION n h = str_bytes OPLOG_MAGIC @ le_bytes 4 CURRENT_CONTAINER_VERSION
      @ le_bytes 4 CURRENT_OP_RECORD_SCHEMA_VERSION @ le_bytes 8 n @ le_bytes 8 h @ []"
    by (simp add: write_header_def)
  show ?thesis
    unfolding bytes header_fields_def [abs_def]
    by (rule codec_bind [OF magic] codec_bind codec_pure [OF version(1)] codec_pure [OF version(2)] codec_return ints
        codec_unless)+
qed


lemma length_write_footer: "length (write_footer f) = FOOTER_LEN"
  by (simp add: write_footer_def footer_u64_values_def FOOTER_LEN_def FOOTER_U64_FIELDS_def INDEX_MAGIC_def)

lemma footer_codec:
  assumes "\<forall>v \<in> set (footer_u64_values f). v < 2 ^ 64"
  shows "codec truncated footer_fields f (write_footer f)"
proof -
  have magic: "codec truncated (cur_read 8) (str_bytes INDEX_MAGIC) (str_bytes INDEX_MAGIC)"
    using cur_read_ok by (rule codec_read) (simp_all add: INDEX_MAGIC_def u32_max_def)
  have fixed_ints: "codec truncated (read_int cur_read 4) INDEX_VERSION (le_bytes 4 INDEX_VERSION)"
    "codec truncated (read_int cur_read 4) FOOTER_LEN (le_bytes 4 FOOTER_LEN)"
    by (rule codec_int [OF cur_read_ok]; simp add: INDEX_VERSION_def FOOTER_LEN_def FOOTER_U64_FIELDS_def)+
  have int: "codec truncated (read_int cur_read 8) v (le_bytes 8 v)" if "v \<in> set (footer_u64_values f)" for v
    using assms that by (intro codec_int [OF cur_read_ok]) auto
  have ints: "codec truncated (read_int cur_read 8) (pf_entry_data_end f) (le_bytes 8 (pf_entry_data_end f))"
    "codec truncated (read_int cur_read 8) (pf_entry_offsets_offset f) (le_bytes 8 (pf_entry_offsets_offset f))"
    "codec truncated (read_int cur_read 8) (pf_entry_offsets_count f) (le_bytes 8 (pf_entry_offsets_count f))"
    "codec truncated (read_int cur_read 8) (pf_batch_offsets_offset f) (le_bytes 8 (pf_batch_offsets_offset f))"
    "codec truncated (read_int cur_read 8) (pf_batch_offsets_count f) (le_bytes 8 (pf_batch_offsets_count f))"
    "codec truncated (read_int cur_read 8) (pf_batch_dir_offset f) (le_bytes 8 (pf_batch_dir_offset f))"
    "codec truncated (read_int cur_read 8) (pf_batch_dir_count f) (le_bytes 8 (pf_batch_dir_count f))"
    "codec truncated (read_int cur_read 8) (pf_tx_key_bytes_offset f) (le_bytes 8 (pf_tx_key_bytes_offset f))"
    "codec truncated (read_int cur_read 8) (pf_tx_key_bytes_len f) (le_bytes 8 (pf_tx_key_bytes_len f))"
    "codec truncated (read_int cur_read 8) (pf_tx_dir_offset f) (le_bytes 8 (pf_tx_dir_offset f))"
    "codec truncated (read_int cur_read 8) (pf_tx_dir_count f) (le_bytes 8 (pf_tx_dir_count f))"
    "codec truncated (read_int cur_read 8) (pf_entry_count f) (le_bytes 8 (pf_entry_count f))"
    "codec truncated (read_int cur_read 8) (pf_head_id f) (le_bytes 8 (pf_head_id f))"
    by (rule int; simp add: footer_u64_values_def)+
  have bytes: "write_footer f = str_bytes INDEX_MAGIC @ le_bytes 4 INDEX_VERSION @ le_bytes 4 FOOTER_LEN
      @ le_bytes 8 (pf_entry_data_end f) @ le_bytes 8 (pf_entry_offsets_offset f) @ le_bytes 8 (pf_entry_offsets_count f)
      @ le_bytes 8 (pf_batch_offsets_offset f) @ le_bytes 8 (pf_batch_offsets_count f) @ le_bytes 8 (pf_batch_dir_offset f)
      @ le_bytes 8 (pf_batch_dir_count f) @ le_bytes 8 (pf_tx_key_bytes_offset f) @ le_bytes 8 (pf_tx_key_bytes_len f)
      @ le_bytes 8 (pf_tx_dir_offset f) @ le_bytes 8 (pf_tx_dir_count f) @ le_bytes 8 (pf_entry_count f)
      @ le_bytes 8 (pf_head_id f) @ []"
    by (simp add: write_footer_def footer_u64_values_def)
  have "codec truncated footer_fields
      \<lparr>pf_entry_data_end = pf_entry_data_end f, pf_entry_offsets_offset = pf_entry_offsets_offset f,
       pf_entry_offsets_count = pf_entry_offsets_count f, pf_batch_offsets_offset = pf_batch_offsets_offset f,
       pf_batch_offsets_count = pf_batch_offsets_count f, pf_batch_dir_offset = pf_batch_dir_offset f,
       pf_batch_dir_count = pf_batch_dir_count f, pf_tx_key_bytes_offset = pf_tx_key_bytes_offset f,
       pf_tx_key_bytes_len = pf_tx_key_bytes_len f, pf_tx_dir_offset = pf_tx_dir_offset f,
       pf_tx_dir_count = pf_tx_dir_count f, pf_entry_count = pf_entry_count f, pf_head_id = pf_head_id f\<rparr>
      (write_footer f)"
    unfolding bytes footer_fields_def [abs_def]
    by (rule codec_bind [OF magic] codec_bind codec_return fixed_ints ints codec_unless)+
  moreover have "\<lparr>pf_entry_data_end = pf_entry_data_end f, pf_entry_offsets_offset = pf_entry_offsets_offset f,
       pf_entry_offsets_count = pf_entry_offsets_count f, pf_batch_offsets_offset = pf_batch_offsets_offset f,
       pf_batch_offsets_count = pf_batch_offsets_count f, pf_batch_dir_offset = pf_batch_dir_offset f,
       pf_batch_dir_count = pf_batch_dir_count f, pf_tx_key_bytes_offset = pf_tx_key_bytes_offset f,
       pf_tx_key_bytes_len = pf_tx_key_bytes_len f, pf_tx_dir_offset = pf_tx_dir_offset f,
       pf_tx_dir_count = pf_tx_dir_count f, pf_entry_count = pf_entry_count f, pf_head_id = pf_head_id f\<rparr> = f"
    by (rule PackedFooter.equality) simp_all
  ultimately show ?thesis by (simp only:)
qed

section \<open>The layout of a container\<close>

definition byte_sections :: "'t entry_codec \<Rightarrow> 't OpEntry list \<Rightarrow> nat \<Rightarrow> IndexSections" where
  "byte_sections C es h =
     (let offs = entry_offsets C V4_HEADER_LEN es;
          (batch_offsets, batch_dir, key_bytes, tx_dir) = build_index_sections (zip es offs)
      in \<lparr>pk_entry_count = length es, pk_head_id = h,
          pk_entry_offsets = map2 (\<lambda>e o'. \<lparr>eor_entry_id = entry_id e, eor_entry_offset = o'\<rparr>) es offs,
          pk_batch_offsets = batch_offsets, pk_batch_dir = batch_dir, pk_tx_key_bytes = key_bytes, pk_tx_dir = tx_dir\<rparr>)"

definition entry_section :: "'t entry_codec \<Rightarrow> 't OpEntry list \<Rightarrow> nat \<Rightarrow> bytes" where
  "entry_section C es h = write_header CURRENT_CONTAINER_VERSION (length es) h @ stream C es"

definition container :: "'t entry_codec \<Rightarrow> 't OpEntry list \<Rightarrow> nat \<Rightarrow> bytes" where
  "container C es h = write_index_sections (entry_section C es h) (byte_sections C es h)"

lemma length_write_header: "length (write_header CURRENT_CONTAINER_VERSION n h) = V4_HEADER_LEN"
  by (simp add: write_header_def V4_HEADER_LEN_def OPLOG_MAGIC_def)

lemma encode_container_bytes:
  assumes "\<forall>e \<in> set es. encodable C e"
  shows "encode_current_container C es h = Inr (container C es h)"
proof -
  have offs: "map eor_entry_offset (map2 (\<lambda>e o'. \<lparr>eor_entry_id = entry_id e, eor_entry_offset = o'\<rparr>) es (entry_offsets C b es))
      = entry_offsets C b es" for b
    by (intro nth_equalityI) simp_all
  show ?thesis
    by (simp add: encode_current_container_def encode_entries_ok [OF assms] offs [unfolded map_map] length_write_header
        container_def byte_sections_def entry_section_def Let_def split: prod.splits)
qed

definition tables :: "'a IndexSections_scheme \<Rightarrow> bytes" where
  "tables ix = concat (map write_entry_offset (pk_entry_offsets ix)) @ concat (map (le_bytes 8) (pk_batch_offsets ix))
     @ concat (map write_batch_dir_record (pk_batch_dir ix)) @ str_bytes (pk_tx_key_bytes ix)
     @ concat (map write_tx_dir_record (pk_tx_dir ix))"

text \<open>The footer that follows sections that start at an offset.\<close>

definition index_footer :: "nat \<Rightarrow> 'a IndexSections_scheme \<Rightarrow> PackedFooter" where
  "index_footer data_end ix =
     (let batch_off = data_end + ENTRY_OFFSET_RECORD_LEN * length (pk_entry_offsets ix);
          dir_off = batch_off + 8 * length (pk_batch_offsets ix);
          key_off = dir_off + BATCH_DIR_RECORD_LEN * length (pk_batch_dir ix)
      in \<lparr>pf_entry_data_end = data_end, pf_entry_offsets_offset = data_end,
          pf_entry_offsets_count = length (pk_entry_offsets ix), pf_batch_offsets_offset = batch_off,
          pf_batch_offsets_count = length (pk_batch_offsets ix), pf_batch_dir_offset = dir_off,
          pf_batch_dir_count = length (pk_batch_dir ix), pf_tx_key_bytes_offset = key_off,
          pf_tx_key_bytes_len = length (pk_tx_key_bytes ix), pf_tx_dir_offset = key_off + length (pk_tx_key_bytes ix),
          pf_tx_dir_count = length (pk_tx_dir ix), pf_entry_count = pk_entry_count ix, pf_head_id = pk_head_id ix\<rparr>)"

lemma length_concat_const: "(\<And>x. x \<in> set xs \<Longrightarrow> length (f x) = k) \<Longrightarrow> length (concat (map f xs)) = k * length xs"
  by (induction xs) simp_all

lemma table_lengths [simp]:
  "length (concat (map write_entry_offset rs)) = ENTRY_OFFSET_RECORD_LEN * length rs"
  "length (concat (map (le_bytes 8) ns)) = 8 * length ns"
  "length (concat (map write_batch_dir_record ds)) = BATCH_DIR_RECORD_LEN * length ds"
  "length (concat (map write_tx_dir_record ts)) = TX_DIR_RECORD_LEN * length ts"
  by (rule length_concat_const; simp add: write_entry_offset_def write_batch_dir_record_def write_tx_dir_record_def
      ENTRY_OFFSET_RECORD_LEN_def BATCH_DIR_RECORD_LEN_def TX_DIR_RECORD_LEN_def)+

lemma write_index_sections_bytes:
  "write_index_sections out ix = out @ tables ix @ write_footer (index_footer (length out) ix)"
  by (simp add: write_index_sections_def tables_def index_footer_def Let_def add.assoc)


lemma stream_length: "length es \<le> length (stream C es)"
proof (induction es)
  case (Cons e es)
  then show ?case using encoded_length [of C e] by simp
qed simp

definition data_end :: "'t entry_codec \<Rightarrow> 't OpEntry list \<Rightarrow> nat" where
  "data_end C es = V4_HEADER_LEN + length (stream C es)"

definition container_footer :: "'t entry_codec \<Rightarrow> 't OpEntry list \<Rightarrow> nat \<Rightarrow> PackedFooter" where
  "container_footer C es h = index_footer (data_end C es) (byte_sections C es h)"

definition container_header :: "'t OpEntry list \<Rightarrow> nat \<Rightarrow> PackedHeader" where
  "container_header es h = \<lparr>ph_entry_count = length es, ph_head_id = h, ph_header_len = V4_HEADER_LEN\<rparr>"

lemma container_bytes:
  "container C es h = write_header CURRENT_CONTAINER_VERSION (length es) h @ stream C es
     @ tables (byte_sections C es h) @ write_footer (container_footer C es h)"
  by (simp add: container_def write_index_sections_bytes entry_section_def container_footer_def data_end_def length_write_header)

lemma byte_sections_parts [simp]:
  "pk_entry_count (byte_sections C es h) = length es" "pk_head_id (byte_sections C es h) = h"
  "pk_entry_offsets (byte_sections C es h)
     = map2 (\<lambda>e o'. \<lparr>eor_entry_id = entry_id e, eor_entry_offset = o'\<rparr>) es (entry_offsets C V4_HEADER_LEN es)"
  by (simp_all add: byte_sections_def Let_def split: prod.splits)

lemma index_footer_parts [simp]:
  "pf_entry_data_end (index_footer d ix) = d" "pf_entry_offsets_offset (index_footer d ix) = d"
  "pf_entry_count (index_footer d ix) = pk_entry_count ix" "pf_head_id (index_footer d ix) = pk_head_id ix"
  "pf_entry_offsets_count (index_footer d ix) = length (pk_entry_offsets ix)"
  by (simp_all add: index_footer_def Let_def)

text \<open>Entries, head and size are within the limits of the format.\<close>

definition container_ok :: "'t entry_codec \<Rightarrow> 't OpEntry list \<Rightarrow> nat \<Rightarrow> bool" where
  "container_ok C es h \<longleftrightarrow> codec_laws C \<and> (\<forall>e \<in> set es. encodable C e) \<and> h < 2 ^ 64 \<and> length (container C es h) < 2 ^ 63"

lemma container_length:
  "length (container C es h) = data_end C es + length (tables (byte_sections C es h)) + FOOTER_LEN"
  by (simp add: container_bytes length_write_header data_end_def length_write_footer)

lemma length_tables:
  "length (tables ix) = ENTRY_OFFSET_RECORD_LEN * length (pk_entry_offsets ix) + 8 * length (pk_batch_offsets ix)
     + BATCH_DIR_RECORD_LEN * length (pk_batch_dir ix) + length (pk_tx_key_bytes ix) + TX_DIR_RECORD_LEN * length (pk_tx_dir ix)"
  by (simp add: tables_def)

lemma container_counts:
  assumes "container_ok C es h"
  shows "length es < 2 ^ 63" "\<forall>v \<in> set (footer_u64_values (container_footer C es h)). v < 2 ^ 64"
proof -
  have size: "data_end C es + length (tables (byte_sections C es h)) + FOOTER_LEN < 2 ^ 63"
    using assms unfolding container_ok_def container_length by blast
  show "length es < 2 ^ 63" using size stream_length [of es C] by (simp add: data_end_def)
  then show "\<forall>v \<in> set (footer_u64_values (container_footer C es h)). v < 2 ^ 64"
    using size assms unfolding length_tables
    by (auto simp: footer_u64_values_def container_footer_def index_footer_def Let_def container_ok_def
        ENTRY_OFFSET_RECORD_LEN_def BATCH_DIR_RECORD_LEN_def TX_DIR_RECORD_LEN_def)
qed

lemma container_header_parsed:
  assumes "container_ok C es h" "n \<le> length (container C es h)" "V4_HEADER_LEN \<le> n"
  shows "parse_header_with_cursor (take n (container C es h)) = Inr (container_header es h, V4_HEADER_LEN)"
proof -
  let ?w = "write_header CURRENT_CONTAINER_VERSION (length es) h"
  have "codec truncated header_fields (container_header es h) ?w"
    using container_counts(1) [OF assms(1)] assms(1) unfolding container_header_def
    by (intro header_codec) (simp_all add: container_ok_def)
  moreover have "drop 0 (take n (container C es h)) = ?w @ take (n - V4_HEADER_LEN) (stream C es
      @ tables (byte_sections C es h) @ write_footer (container_footer C es h))"
    using assms(3) by (simp add: container_bytes length_write_header)
  moreover have "length (take n (container C es h)) < 2 ^ 63" using assms(1) by (simp add: container_ok_def min_less_iff_disj)
  ultimately show ?thesis
    using codec_ok(1) [of truncated header_fields _ ?w 0] by (simp add: parse_header_with_cursor_def length_write_header)
qed

lemma container_footer_parsed:
  assumes "container_ok C es h"
  shows "footer_parse (container C es h) (container_header es h) = Inr (container_footer C es h)"
proof -
  let ?f = "container_footer C es h" and ?bs = "container C es h" and ?ix = "byte_sections C es h"
  let ?start = "data_end C es + length (tables ?ix)"
  have start: "length ?bs - FOOTER_LEN = ?start" by (simp add: container_length)
  have "drop ?start ?bs = write_footer ?f @ []"
    by (simp add: container_bytes data_end_def length_write_header add.assoc)
  then have "footer_fields ?bs ?start = Inr (?f, length ?bs)"
    using codec_ok(1) [OF footer_codec [OF container_counts(2) [OF assms]], of ?start ?bs "[]"] assms
    by (simp add: container_ok_def container_length length_write_footer)
  moreover have "footer_validate ?f (container_header es h) (length ?bs) ?start = Inr ()"
  proof -
    have "data_end C es + length (tables ?ix) \<le> u64_max"
      using assms by (simp add: container_ok_def container_length u64_max_def)
    then show ?thesis
      by (auto simp: footer_validate_def container_header_def container_footer_def container_length data_end_def
          index_footer_def Let_def checked_section_def length_tables mult.commute)
  qed
  ultimately show ?thesis
    by (simp add: footer_parse_def Let_def start container_header_def container_length data_end_def)
qed

lemma container_entries:
  "subslice (container C es h) V4_HEADER_LEN (data_end C es) = stream C es"
  by (simp add: container_bytes subslice_def data_end_def length_write_header)

lemma stream_parsed:
  assumes "codec_laws C" "\<forall>e \<in> set es. encodable C e" "length (stream C es) < 2 ^ 63"
  shows "parse_current_entries C (length es) (stream C es) 0 = Inr (es, length (stream C es))"
  using codec_ok(1) [OF parse_entries_codec [OF assms(1,2)], of 0 "stream C es" "[]"] assms(3) by simp

lemma container_decoded:
  assumes "container_ok C es h"
  shows "decode_current_container C (container C es h) = Inr (es, h)"
proof -
  have header: "parse_header_with_cursor (container C es h) = Inr (container_header es h, V4_HEADER_LEN)"
    using container_header_parsed [OF assms, of "length (container C es h)"] by (simp add: container_length data_end_def)
  have "length (stream C es) < 2 ^ 63" using assms by (simp add: container_ok_def container_length data_end_def)
  then have "parse_current_entries C (length es) (stream C es) 0 = Inr (es, length (stream C es))"
    using assms by (intro stream_parsed) (simp_all add: container_ok_def)
  moreover have "pf_entry_data_end (container_footer C es h) = data_end C es" by (simp add: container_footer_def)
  ultimately show ?thesis
    by (simp add: decode_current_container_def header container_footer_parsed [OF assms] Let_def container_entries,
        simp add: container_header_def data_end_def)
qed


section \<open>The sections of a container\<close>

definition byte_offset :: "'t entry_codec \<Rightarrow> 't OpEntry list \<Rightarrow> nat \<Rightarrow> nat" where
  "byte_offset C es i = V4_HEADER_LEN + length (stream C (take i es))"

lemma byte_sections_shift:
  fixes C :: "'t entry_codec" and es :: "'t OpEntry list" and h :: nat
  defines "ix \<equiv> shift_offsets (byte_offset C es) (encode_container es h)"
  shows "pk_entry_offsets (byte_sections C es h) = pk_entry_offsets ix"
    "pk_batch_offsets (byte_sections C es h) = pk_batch_offsets ix"
    "pk_batch_dir (byte_sections C es h) = pk_batch_dir ix"
    "pk_tx_key_bytes (byte_sections C es h) = pk_tx_key_bytes ix"
    "pk_tx_dir (byte_sections C es h) = pk_tx_dir ix"
proof -
  have offs: "entry_offsets C V4_HEADER_LEN es = map (byte_offset C es) [0..<length es]"
    by (simp add: entry_offsets_def byte_offset_def)
  have zip: "zip es (entry_offsets C V4_HEADER_LEN es) = map (\<lambda>(e, i). (e, byte_offset C es i)) (zip es [0..<length es])"
    unfolding offs by (intro nth_equalityI) simp_all
  have ids: "map eor_entry_offset (map (\<lambda>(i, e). \<lparr>eor_entry_id = entry_id e, eor_entry_offset = i\<rparr>) (enumerate 0 es)) = [0..<length es]"
    by (intro nth_equalityI) (auto simp: nth_enumerate_eq)
  obtain bo bd kb td where b: "build_index_sections (zip es [0..<length es]) = (bo, bd, kb, td)" by (metis surj_pair)
  show "pk_entry_offsets (byte_sections C es h) = pk_entry_offsets ix"
    unfolding ix_def shift_offsets_parts encode_container_parts(4) byte_sections_parts offs
    by (intro nth_equalityI) simp_all
  show "pk_batch_offsets (byte_sections C es h) = pk_batch_offsets ix"
    "pk_batch_dir (byte_sections C es h) = pk_batch_dir ix"
    "pk_tx_key_bytes (byte_sections C es h) = pk_tx_key_bytes ix"
    "pk_tx_dir (byte_sections C es h) = pk_tx_dir ix"
    by (simp_all add: ix_def byte_sections_def encode_container_def zip build_sections_map b ids [unfolded map_map] Let_def)
qed

text \<open>What the fixed widths of the tables can hold: fewer than 2^32 entries, transaction ids below 4 GiB.\<close>

definition tables_fit :: "'a IndexSections_scheme \<Rightarrow> bool" where
  "tables_fit ix \<longleftrightarrow>
     (\<forall>r \<in> set (pk_entry_offsets ix). eor_entry_id r < 2 ^ 64 \<and> eor_entry_offset r < 2 ^ 64)
     \<and> (\<forall>o' \<in> set (pk_batch_offsets ix). o' < 2 ^ 64)
     \<and> (\<forall>r \<in> set (pk_batch_dir ix). bdr_batch_id r < 2 ^ 64 \<and> bdr_newest_entry_id r < 2 ^ 64
          \<and> bdr_first_offset_index r < 2 ^ 64 \<and> bdr_entry_count r < 2 ^ 32 \<and> bdr_scope_state r < 256)
     \<and> (\<forall>r \<in> set (pk_tx_dir ix). tdr_key_offset r < 2 ^ 64 \<and> tdr_key_len r < 2 ^ 32
          \<and> tdr_commit_entry_id r < 2 ^ 64 \<and> tdr_batch_id r < 2 ^ 64)"

abbreviation eof :: HeddleError where
  "eof \<equiv> IoError ''failed to fill whole buffer''"

lemma read_table_ok:
  assumes "\<And>x. x \<in> set xs \<Longrightarrow> codec eof rd x (w x)" "drop off bs = concat (map w xs) @ rest"
    and "off \<le> length bs" "length bs < 2 ^ 63"
  shows "read_table rd (length xs) bs off = Inr xs"
  using assms
proof (induction xs arbitrary: off)
  case (Cons x xs)
  have d: "drop off bs = w x @ (concat (map w xs) @ rest)" and c: "codec eof rd x (w x)"
    using Cons.prems(1,2) by simp_all
  note r = codec_ok [OF c d Cons.prems(3,4)]
  have "read_table rd (length xs) bs (off + length (w x)) = Inr xs"
    using Cons.prems(1) by (intro Cons.IH [OF _ r(2,3) Cons.prems(4)]) simp
  then show ?case using r(1) by simp
qed simp

lemma entry_offset_codec:
  assumes "eor_entry_id r < 2 ^ 64" "eor_entry_offset r < 2 ^ 64"
  shows "codec eof read_entry_offset r (write_entry_offset r)"
proof -
  have i: "codec eof (read_int file_read 8) (eor_entry_id r) (le_bytes 8 (eor_entry_id r))"
    "codec eof (read_int file_read 8) (eor_entry_offset r) (le_bytes 8 (eor_entry_offset r))"
    by (rule codec_int [OF file_read_ok]; use assms in simp)+
  have "codec eof read_entry_offset \<lparr>eor_entry_id = eor_entry_id r, eor_entry_offset = eor_entry_offset r\<rparr>
      (le_bytes 8 (eor_entry_id r) @ le_bytes 8 (eor_entry_offset r) @ [])"
    unfolding read_entry_offset_def [abs_def] by (rule codec_bind codec_return i)+
  moreover have "\<lparr>eor_entry_id = eor_entry_id r, eor_entry_offset = eor_entry_offset r\<rparr> = r"
    by (rule EntryOffsetRecord.equality) simp_all
  ultimately show ?thesis by (simp only: append_Nil2 write_entry_offset_def)
qed

lemma zero_bytes: "length b \<le> u32_max \<Longrightarrow> codec eof (file_read (length b)) b b"
  by (rule codec_read [OF file_read_ok]) simp_all

lemma batch_dir_codec:
  assumes "bdr_batch_id r < 2 ^ 64" "bdr_newest_entry_id r < 2 ^ 64" "bdr_first_offset_index r < 2 ^ 64"
    "bdr_entry_count r < 2 ^ 32" "bdr_scope_state r < 256"
  shows "codec eof read_batch_dir_record r (write_batch_dir_record r)"
proof -
  note int = codec_int [OF file_read_ok]
  have i: "codec eof (read_int file_read 8) (bdr_batch_id r) (le_bytes 8 (bdr_batch_id r))"
    "codec eof (read_int file_read 8) (bdr_newest_entry_id r) (le_bytes 8 (bdr_newest_entry_id r))"
    "codec eof (read_int file_read 8) (bdr_first_offset_index r) (le_bytes 8 (bdr_first_offset_index r))"
    "codec eof (read_int file_read 4) (bdr_entry_count r) (le_bytes 4 (bdr_entry_count r))"
    "codec eof (read_int file_read 1) (bdr_scope_state r) (le_bytes 1 (bdr_scope_state r))"
    "codec eof (read_int file_read 8) 0 (le_bytes 8 0)" "codec eof (read_int file_read 4) 0 (le_bytes 4 0)"
    by (rule int; use assms in simp)+
  have z: "codec eof (file_read 3) (replicate 3 0) (replicate 3 0)" "codec eof (file_read 4) (replicate 4 0) (replicate 4 0)"
    using zero_bytes [of "replicate 3 0"] zero_bytes [of "replicate 4 0"] by (simp_all add: u32_max_def)
  have "codec eof read_batch_dir_record
      \<lparr>bdr_batch_id = bdr_batch_id r, bdr_newest_entry_id = bdr_newest_entry_id r,
       bdr_first_offset_index = bdr_first_offset_index r, bdr_entry_count = bdr_entry_count r,
       bdr_scope_state = bdr_scope_state r\<rparr>
      (le_bytes 8 (bdr_batch_id r) @ le_bytes 8 (bdr_newest_entry_id r) @ le_bytes 8 (bdr_first_offset_index r)
        @ le_bytes 4 (bdr_entry_count r) @ le_bytes 1 (bdr_scope_state r) @ replicate 3 0
        @ le_bytes 8 0 @ le_bytes 4 0 @ replicate 4 0 @ [])"
    unfolding read_batch_dir_record_def [abs_def] by (rule codec_bind codec_return i z)+
  moreover have "\<lparr>bdr_batch_id = bdr_batch_id r, bdr_newest_entry_id = bdr_newest_entry_id r, bdr_first_offset_index = bdr_first_offset_index r, bdr_entry_count = bdr_entry_count r, bdr_scope_state = bdr_scope_state r\<rparr> = r"
    by (rule BatchDirRecord.equality) simp_all
  ultimately show ?thesis by (simp only: append_Nil2 write_batch_dir_record_def)
qed

lemma tx_dir_codec:
  assumes "tdr_key_offset r < 2 ^ 64" "tdr_key_len r < 2 ^ 32" "tdr_commit_entry_id r < 2 ^ 64" "tdr_batch_id r < 2 ^ 64"
  shows "codec eof read_tx_dir_record r (write_tx_dir_record r)"
proof -
  note int = codec_int [OF file_read_ok]
  have i: "codec eof (read_int file_read 8) (tdr_key_offset r) (le_bytes 8 (tdr_key_offset r))"
    "codec eof (read_int file_read 4) (tdr_key_len r) (le_bytes 4 (tdr_key_len r))"
    "codec eof (read_int file_read 8) (tdr_commit_entry_id r) (le_bytes 8 (tdr_commit_entry_id r))"
    "codec eof (read_int file_read 8) (tdr_batch_id r) (le_bytes 8 (tdr_batch_id r))"
    by (rule int; use assms in simp)+
  have z: "codec eof (file_read 4) (replicate 4 0) (replicate 4 0)"
    using zero_bytes [of "replicate 4 0"] by (simp add: u32_max_def)
  have "codec eof read_tx_dir_record
      \<lparr>tdr_key_offset = tdr_key_offset r, tdr_key_len = tdr_key_len r, tdr_commit_entry_id = tdr_commit_entry_id r,
       tdr_batch_id = tdr_batch_id r\<rparr>
      (le_bytes 8 (tdr_key_offset r) @ le_bytes 4 (tdr_key_len r) @ replicate 4 0
        @ le_bytes 8 (tdr_commit_entry_id r) @ le_bytes 8 (tdr_batch_id r) @ [])"
    unfolding read_tx_dir_record_def [abs_def] by (rule codec_bind codec_return i z)+
  moreover have "\<lparr>tdr_key_offset = tdr_key_offset r, tdr_key_len = tdr_key_len r, tdr_commit_entry_id = tdr_commit_entry_id r, tdr_batch_id = tdr_batch_id r\<rparr> = r"
    by (rule TxDirRecord.equality) simp_all
  ultimately show ?thesis by (simp only: append_Nil2 write_tx_dir_record_def)
qed


definition counts_fit :: "'t OpEntry list \<Rightarrow> bool" where
  "counts_fit es \<longleftrightarrow> length es < 2 ^ 32 \<and> (\<forall>e \<in> set es. id_length e < 2 ^ 32)"

lemma encodable_ids:
  "encodable C e \<Longrightarrow> entry_id e < 2 ^ 64 \<and> effective_batch_id e < 2 ^ 64"
  by (auto simp: encodable_def entry_fits_def effective_batch_id_def)

lemma byte_offset_bounds:
  assumes "i < length es"
  shows "V4_HEADER_LEN \<le> byte_offset C es i" "byte_offset C es i < data_end C es"
proof -
  show "V4_HEADER_LEN \<le> byte_offset C es i" by (simp add: byte_offset_def)
  have "stream C es = stream C (take i es) @ stream C (drop i es)"
    by (metis append_take_drop_id stream_simps(3))
  then have "length (stream C es) = length (stream C (take i es)) + length (stream C (drop i es))"
    by (metis length_append)
  moreover have "length es - i \<le> length (stream C (drop i es))"
    using stream_length [of "drop i es" C] by simp
  ultimately show "byte_offset C es i < data_end C es" using assms unfolding byte_offset_def data_end_def by linarith
qed

lemma scope_state_bound: "scope_state scopes < 256"
proof -
  have "scope_state_loop first scopes < 256" for first
    by (induction first scopes rule: scope_state_loop.induct)
      (auto simp: ScopeState_None_def ScopeState_One_def ScopeState_Mixed_def split: option.splits)
  then show ?thesis by (simp add: scope_state_def)
qed

lemma batch_record_fits:
  assumes "\<forall>e \<in> set es. encodable C e" "sorted_wrt (<) (map entry_id es)" "b \<in> effective_batch_id ` set es"
    and "batch_record (zip es [0..<length es]) b = (b', newest, state, entries)"
  shows "b' < 2 ^ 64" "newest < 2 ^ 64" "state < 256" "length entries \<le> length es"
proof -
  obtain e where "e \<in> set es" "effective_batch_id e = b" using assms(3) by blast
  then show "b' < 2 ^ 64" using assms(1,4) encodable_ids by (auto simp: batch_record_def Let_def)
  have state: "state = scope_state (map (\<lambda>(e, _). entry_scope e) entries)"
    and entries: "entries = sort_key (\<lambda>(e, _). (batch_index e, entry_id e)) (batch_group (zip es [0..<length es]) b)"
    using assms(4) by (auto simp: batch_record_def Let_def)
  show "state < 256" unfolding state by (rule scope_state_bound)
  show "length entries \<le> length es"
    using length_filter_le [of _ "zip es [0..<length es]"] unfolding entries batch_group_def length_sort by (rule order_trans) simp
  have newest: "newest = Max (set (map (\<lambda>(e, _). entry_id e) entries))"
    using assms(4) by (auto simp: batch_record_def Let_def)
  have ids: "set (map (\<lambda>(e, _). entry_id e) entries) \<subseteq> entry_id ` set es"
    unfolding entries by (auto simp: set_batch_group in_set_zip)
  have "filter (\<lambda>e. effective_batch_id e = b) es \<noteq> []" using assms(3) by (auto simp: filter_empty_conv)
  then have "batch_group (zip es [0..<length es]) b \<noteq> []" using batch_group_fst [of es b] by (metis list.map(1))
  then have "set entries \<noteq> {}" unfolding entries set_sort by simp
  then have "set (map (\<lambda>(e, _). entry_id e) entries) \<noteq> {}" by simp
  then have "newest \<in> set (map (\<lambda>(e, _). entry_id e) entries)" unfolding newest by (intro Max_in) simp
  then show "newest < 2 ^ 64" using ids assms(1) encodable_ids by fastforce
qed

lemma list_all2_member: "list_all2 P xs ys \<Longrightarrow> x \<in> set xs \<Longrightarrow> \<exists>y \<in> set ys. P x y"
  by (induction rule: list_all2_induct) auto

lemma tables_fit_container:
  assumes ok: "container_ok C es h" and sorted: "sorted_wrt (<) (map entry_id es)" and counts: "counts_fit es"
  shows "tables_fit (byte_sections C es h)"
proof -
  let ?ix = "byte_sections C es h" and ?placed = "zip es [0..<length es]"
  note P = encode_container_parts [where es = es and h = h]
  note S = byte_sections_shift [of C es h, unfolded shift_offsets_parts]
  have enc: "\<forall>e \<in> set es. encodable C e" using ok by (simp add: container_ok_def)
  have size: "data_end C es + length (tables ?ix) < 2 ^ 63"
    using ok by (simp add: container_ok_def container_length)
  have offset: "byte_offset C es i < 2 ^ 64" if "i < length es" for i
    using byte_offset_bounds(2) [OF that, of C] size by simp
  have batch: "bdr_batch_id r < 2 ^ 64 \<and> bdr_newest_entry_id r < 2 ^ 64 \<and> bdr_first_offset_index r < 2 ^ 64
      \<and> bdr_entry_count r < 2 ^ 32 \<and> bdr_scope_state r < 256" if r: "r \<in> set (pk_batch_dir ?ix)" for r
  proof -
    obtain t where t: "t \<in> set (batch_records ?placed)" "batch_entry_ok (pk_batch_offsets (encode_container es h)) r t"
      using list_all2_member [OF P(5) r [unfolded S]] by blast
    obtain b newest state entries where f: "t = (b, newest, state, entries)" by (cases t)
    have rec: "batch_record ?placed b = (b, newest, state, entries)" "b \<in> effective_batch_id ` set es"
      using batch_records_facts(2) [OF sorted t(1)] f by auto
    note fits = batch_record_fits [OF enc sorted rec(2,1)]
    have "length (pk_batch_offsets ?ix) < 2 ^ 63" using size unfolding length_tables by simp
    then show ?thesis
      using t(2) fits counts unfolding S f by (auto simp: batch_entry_ok_def counts_fit_def)
  qed
  have tx: "tdr_key_offset r < 2 ^ 64 \<and> tdr_key_len r < 2 ^ 32 \<and> tdr_commit_entry_id r < 2 ^ 64 \<and> tdr_batch_id r < 2 ^ 64"
    if r: "r \<in> set (pk_tx_dir ?ix)" for r
  proof -
    obtain t where t: "t \<in> set (tx_records ?placed)" "tx_entry_ok (pk_tx_key_bytes (encode_container es h)) r t"
      using list_all2_member [OF P(8) r [unfolded S]] by blast
    obtain key c b where f: "t = (key, c, b)" by (cases t)
    have "map_of (tx_records ?placed) key = Some (c, b)"
      using t(1) f tx_records_sorted [of ?placed] by (simp add: strict_sorted_iff)
    then have "first_commit es key = Some (c, b)" using map_of_tx_records [of "[0..<length es]" es] by simp
    then obtain e where e: "e \<in> set es" "commit_id (operation e) = Some key" "entry_id e = c" "effective_batch_id e = b"
      using nth_mem by (fastforce simp: first_commit_def find_Some_iff)
    have "length key < 2 ^ 32" using counts e by (force simp: counts_fit_def id_length_def)
    moreover have "tdr_key_offset r + tdr_key_len r \<le> length (pk_tx_key_bytes ?ix)" "tdr_key_len r = length key"
      using t(2) unfolding f S by (auto simp: tx_entry_ok_def)
    moreover have "length (pk_tx_key_bytes ?ix) < 2 ^ 63" using size unfolding length_tables by simp
    ultimately show ?thesis
      using encodable_ids enc e t(2) unfolding f by (auto simp: tx_entry_ok_def)
  qed
  have "eor_entry_id r < 2 ^ 64 \<and> eor_entry_offset r < 2 ^ 64" if "r \<in> set (pk_entry_offsets ?ix)" for r
    using that offset encodable_ids [OF bspec [OF enc nth_mem]] unfolding S P(4) by auto
  moreover have "o' < 2 ^ 64" if "o' \<in> set (pk_batch_offsets ?ix)" for o'
    using that offset batch_offsets_below [OF sorted, of h] unfolding S by auto
  ultimately show ?thesis using batch tx by (simp add: tables_fit_def)
qed

end
