(* ===== verification/Oplog_Container.thy ===== *)
theory Oplog_Container
  imports Oplog_Codec_Correct
begin

text \<open>
  Whole containers: opening one gives the index it was written with, which is the index of the container the
  rest of the log works on, moved to byte offsets, and every entry is read back at its offset.
\<close>

section \<open>Opening a container\<close>







section \<open>Salvage of a truncated container\<close>

lemma truncated_is_truncation [simp]: "is_truncation_shaped_error truncated"
  by code_simp

declare is_truncation_shaped_error.simps [simp del]








section \<open>A codec for the examples\<close>

text \<open>Commit records as eight bytes and the transaction id; times of whole seconds.\<close>

fun enc_commit :: "OpRecord \<Rightarrow> bytes outcome" where
  "enc_commit (TransactionCommit tid n) = Inr (le_bytes 8 (unat n) @ str_bytes tid)"
| "enc_commit _ = Inl (InvalidObject ''other record'')"

definition dec_commit :: "bytes \<Rightarrow> OpRecord outcome" where
  "dec_commit bs = Inr (TransactionCommit (bytes_str (drop 8 bs)) (word_of_nat (from_le_bytes (take 8 bs))))"

definition commit_codec :: "u32 entry_codec" where
  "commit_codec = \<lparr>enc_record = enc_commit, dec_record = dec_commit,
     time_parts = (\<lambda>t. (uint t, 0)), time_from = (\<lambda>s _. Some (word_of_int s))\<rparr>"

definition commit_entry :: "u32 OpEntry" where
  "commit_entry = \<lparr>entry_id = 1, entry_timestamp = 7, operation = TransactionCommit ''tx'' 1, undone = False,
     batch_id = 1, batch_index = 0, entry_scope = Some ''main'',
     entry_actor = \<lparr>principal_name = [65], principal_email = [66]\<rparr>, operation_id = None\<rparr>"




section \<open>Properties\<close>





text \<open>No entry that is parsed has a scope, a name or an email of 2^16 bytes or more.\<close>

lemma cur_read_length: "cur_read n bs off = Inr (v, off') \<Longrightarrow> length v = n"
  by (auto simp: cur_read_def checked_add_def subslice_def split: option.splits if_splits)

lemma cur_read_int_bound: "read_int cur_read n bs off = Inr (v, off') \<Longrightarrow> v < 256 ^ n"
  by (auto simp: read_int_def and_then_Inr dest!: cur_read_length) (metis from_le_bytes_bound)

lemma scope_from_length:
  assumes "scope_from b = Inr (Some s)"
  shows "length s = length b"
  using assms by (auto simp: scope_from_def from_utf8_def bytes_str_def split: if_splits)

lemma parsed_short_fields:
  assumes "parse_current_entry C bs off = Inr (e, off')"
  shows "(\<forall>s. entry_scope e = Some s \<longrightarrow> length s < 2 ^ 16) \<and> length (principal_name (entry_actor e)) < 2 ^ 16
    \<and> length (principal_email (entry_actor e)) < 2 ^ 16"
  using assms unfolding parse_current_entry_def parse_entry_def
  by (fastforce simp: and_then_Inr dest: scope_from_length cur_read_length cur_read_int_bound)

text \<open>C40: The two-byte lengths of scope, name and email are cut silently: an entry where one of them is 2^16 bytes or
  longer is written without an error, and what is parsed from its bytes is another entry or an error.\<close>

theorem long_field_written_not_read:
  assumes "enc_record C (operation e) = Inr op_data"
    and "(\<exists>s. entry_scope e = Some s \<and> 2 ^ 16 \<le> length s) \<or> 2 ^ 16 \<le> length (principal_name (entry_actor e))
      \<or> 2 ^ 16 \<le> length (principal_email (entry_actor e))"
  shows "\<exists>out. encode_entry C e [] = Inr out \<and> (\<forall>off'. parse_current_entry C out 0 \<noteq> Inr (e, off'))"
  using assms parsed_short_fields [of C "entry_bytes C e op_data" 0 e] by (force simp: encode_entry_def)

theorem long_field_written_not_read_witness:
  "\<exists>out. encode_entry commit_codec (commit_entry\<lparr>entry_scope := Some (replicate 65536 (CHR ''a''))\<rparr>) [] = Inr out
    \<and> (\<forall>off'. parse_current_entry commit_codec out 0
         \<noteq> Inr (commit_entry\<lparr>entry_scope := Some (replicate 65536 (CHR ''a''))\<rparr>, off'))"
  by (rule long_field_written_not_read) (simp_all add: commit_codec_def commit_entry_def)

end
