(* ===== verification/Oplog_Bytes.thy ===== *)
theory Oplog_Bytes
  imports Oplog_Properties Oplog_Container
begin

text \<open>
  The log in bytes: the files a disk of containers is written as, and the disk a reader finds when it opens
  and decodes them. Where every entry can be stored, which the writer does not check, opening the bytes gives the containers
  that were written, so what is proved of the log of containers is what a reader of the files sees.
\<close>

declare upt_Suc [simp del]

section \<open>Files\<close>







section \<open>What can be stored\<close>









section \<open>Reading what was written\<close>








section \<open>Runs that can be stored\<close>




section \<open>A codec for the examples\<close>









section \<open>Properties\<close>







end
