(* ===== verification/Name_Encoding.thy ===== *)
theory Name_Encoding
  imports Rust_Str Byte_Cursor
begin

text \<open>
  Names as file paths, \<^verbatim>\<open>src/crates/object-model/src/name_encoding.rs\<close>: every thread, marker and remote has a
  directory whose path spells its name in portable characters. A string is its list of UTF-8 bytes. The
  BLAKE3 digest of a long name, in hexadecimal, is the parameter \<open>H\<close>.
\<close>

section \<open>Escapes\<close>

definition strip_suffix :: "string \<Rightarrow> string \<Rightarrow> string option" where
  "strip_suffix suf s = map_option rev (strip_prefix (rev suf) (rev s))"

definition strip_ref_line_ending :: "string \<Rightarrow> string" where
  "strip_ref_line_ending value =
     (case strip_suffix [CHR 0x0D, CHR 0x0A] value of
        Some s \<Rightarrow> s
      | None \<Rightarrow> (case strip_suffix [CHR 0x0A] value of Some s \<Rightarrow> s | None \<Rightarrow> value))"

definition hex_digit :: "nat \<Rightarrow> char" where
  "hex_digit n = char_of (if n < 10 then 48 + n else 55 + n)"

definition plain_char :: "char \<Rightarrow> bool" where
  "plain_char c \<longleftrightarrow>
     (let n = (of_char c :: nat) in 97 \<le> n \<and> n \<le> 122 \<or> 48 \<le> n \<and> n \<le> 57 \<or> c = CHR ''-'' \<or> c = CHR ''_'')"

definition encode_char :: "char \<Rightarrow> string" where
  "encode_char c =
     (if plain_char c then [c]
      else [CHR ''%'', hex_digit (of_char c div 16), hex_digit (of_char c mod 16)])"

definition encode_name :: "string \<Rightarrow> string" where
  "encode_name value = ''n-'' @ concat (map encode_char value)"

text \<open>\<^verbatim>\<open>char::to_digit(16)\<close>\<close>

definition to_digit16 :: "char \<Rightarrow> nat option" where
  "to_digit16 c =
     (let n = (of_char c :: nat)
      in if 48 \<le> n \<and> n \<le> 57 then Some (n - 48)
         else if 65 \<le> n \<and> n \<le> 70 then Some (n - 55)
         else if 97 \<le> n \<and> n \<le> 102 then Some (n - 87) else None)"

text \<open>The loop of \<^verbatim>\<open>decode_name\<close>.\<close>

fun unescape :: "string \<Rightarrow> string option" where
  "unescape [] = Some []"
| "unescape [c] = (if c = CHR ''%'' then None else Some [c])"
| "unescape [c, d] = (if c = CHR ''%'' then None else map_option ((#) c) (unescape [d]))"
| "unescape (c # h # l # rest) =
     (if c = CHR ''%''
      then (case (to_digit16 h, to_digit16 l) of
              (Some hi, Some lo) \<Rightarrow> map_option ((#) (char_of (hi * 16 + lo))) (unescape rest)
            | _ \<Rightarrow> None)
      else map_option ((#) c) (unescape (h # l # rest)))"

definition decode_name :: "string \<Rightarrow> string option" where
  "decode_name encoded =
     (case strip_prefix ''n-'' encoded of None \<Rightarrow> None
      | Some body \<Rightarrow>
          (case unescape body of None \<Rightarrow> None
           | Some value \<Rightarrow> if is_utf8 value \<and> encode_name value = encoded then Some value else None))"

section \<open>Reserved names\<close>

definition RESERVED_REF_SEGMENT :: string where "RESERVED_REF_SEGMENT = ''heddle''"

definition is_reserved_heddle_namespace :: "string \<Rightarrow> bool" where
  "is_reserved_heddle_namespace name =
     (let first = takeWhile (\<lambda>c. c \<noteq> CHR ''/'') name
      in CHR ''/'' \<in> set name \<and> eq_ignore_ascii_case first RESERVED_REF_SEGMENT)"

definition native_git_name :: "string \<Rightarrow> string" where
  "native_git_name name =
     (if is_reserved_heddle_namespace name \<or> strip_prefix ''git%'' name \<noteq> None
      then ''git%'' @ encode_name name else name)"

text \<open>The name that \<^verbatim>\<open>git_name\<close> returns as \<^verbatim>\<open>Cow::Owned\<close>: the one an imported native name stands for.\<close>

definition git_source :: "string \<Rightarrow> string option" where
  "git_source native =
     (case strip_prefix ''git%'' native of None \<Rightarrow> None
      | Some e \<Rightarrow>
          (case decode_name e of None \<Rightarrow> None
           | Some name \<Rightarrow> if native_git_name name = native then Some name else None))"

definition git_name :: "string \<Rightarrow> string" where
  "git_name native = (case git_source native of Some name \<Rightarrow> name | None \<Rightarrow> native)"

section \<open>Paths\<close>

definition NAME_PATH_BUDGET :: nat where "NAME_PATH_BUDGET = 128"

fun chunks :: "nat \<Rightarrow> 'a list \<Rightarrow> 'a list list" where
  "chunks k xs = (if xs = [] \<or> k = 0 then [] else take k xs # chunks k (drop k xs))"

declare chunks.simps [simp del]

text \<open>\<^verbatim>\<open>as_os_str().len()\<close> of a relative path given by its components.\<close>

fun path_len :: "string list \<Rightarrow> nat" where
  "path_len [] = 0"
| "path_len [p] = length p"
| "path_len (p # ps) = length p + 1 + path_len ps"

definition plain_path :: "string \<Rightarrow> string list" where
  "plain_path value =
     (if git_source value \<noteq> None then [''git''] else [])
     @ map (\<lambda>chunk. ''n-'' @ chunk) (chunks 180 (drop 2 (encode_name (git_name value))))
     @ [''entry'']"

definition name_path :: "(string \<Rightarrow> string) \<Rightarrow> string \<Rightarrow> string list" where
  "name_path H value =
     (if path_len (plain_path value) > NAME_PATH_BUDGET then [''h-'' @ H value, ''entry''] else plain_path value)"

definition lower_hex :: "char \<Rightarrow> bool" where
  "lower_hex c \<longleftrightarrow> (let n = (of_char c :: nat) in 48 \<le> n \<and> n \<le> 57 \<or> 97 \<le> n \<and> n \<le> 102)"

definition is_digest_name_path :: "string list \<Rightarrow> bool" where
  "is_digest_name_path path =
     (case path of
        [digest, e] \<Rightarrow>
          (case strip_prefix ''h-'' digest of None \<Rightarrow> False
           | Some hex \<Rightarrow> length hex = 64 \<and> list_all lower_hex hex \<and> e = ''entry'')
      | _ \<Rightarrow> False)"

text \<open>The loop of \<^verbatim>\<open>decode_name_path\<close>: the last component is \<^verbatim>\<open>entry\<close>, the others are chunks.\<close>

fun join_chunks :: "string list \<Rightarrow> string option" where
  "join_chunks [] = Some []"
| "join_chunks [part] = (if part = ''entry'' then Some [] else None)"
| "join_chunks (part # parts) =
     (case strip_prefix ''n-'' part of None \<Rightarrow> None | Some c \<Rightarrow> map_option ((@) c) (join_chunks parts))"

definition decode_name_path :: "(string \<Rightarrow> string) \<Rightarrow> string list \<Rightarrow> string option" where
  "decode_name_path H path =
     (let imported = (path \<noteq> [] \<and> hd path = ''git'');
          parts = (if imported then drop 1 path else path)
      in case join_chunks parts of None \<Rightarrow> None
         | Some body \<Rightarrow>
             (case decode_name (''n-'' @ body) of None \<Rightarrow> None
              | Some source \<Rightarrow>
                  let value = (if imported then native_git_name source else source)
                  in if name_path H value = path then Some value else None))"

end
