(* ===== verification/Name_Encoding_Correct.thy ===== *)
theory Name_Encoding_Correct
  imports Name_Encoding "HOL-Library.Sublist"
begin

text \<open>
  Names are recovered from their paths, different names have different paths even when a file system folds
  the case of letters, and no name's directory lies below another's.
\<close>

section \<open>Escapes\<close>

text \<open>How a case-folding host sees a string.\<close>

abbreviation fold_case :: "string \<Rightarrow> string" where
  "fold_case \<equiv> map to_ascii_lowercase"

lemma of_char_256: "(of_char (c :: char) :: nat) < 256"
  by (metis of_char_mod_256 mod_less_divisor zero_less_numeral)

lemma hex_digit_folds: "n < 16 \<Longrightarrow> to_digit16 (hex_digit n) = Some n \<and> to_digit16 (to_ascii_lowercase (hex_digit n)) = Some n"
  by (auto simp: hex_digit_def to_digit16_def to_ascii_lowercase_def Let_def of_char_of)

lemma strip_prefixes [simp]:
  "strip_prefix ''n-'' (CHR ''n'' # CHR ''-'' # s) = Some s"
  "strip_prefix ''git%'' (CHR ''g'' # CHR ''i'' # CHR ''t'' # CHR ''%'' # s) = Some s"
  by (simp_all add: strip_prefix_def)

lemma plain_char_fold: "plain_char c \<Longrightarrow> to_ascii_lowercase c = c \<and> c \<noteq> CHR ''%''"
  by (auto simp: plain_char_def to_ascii_lowercase_def Let_def)

lemma char_of_parts: "char_of (of_char c div 16 * 16 + of_char c mod 16 :: nat) = c"
  by (simp add: div_mult_mod_eq)

lemma unescape_plain: "c \<noteq> CHR ''%'' \<Longrightarrow> unescape (c # s) = map_option ((#) c) (unescape s)"
  by (cases s rule: unescape.cases) (auto split: option.splits)

lemma unescape_encoded:
  "unescape (concat (map encode_char v)) = Some v" "unescape (fold_case (concat (map encode_char v))) = Some v"
proof -
  have b: "of_char c div 16 < (16 :: nat) \<and> of_char c mod 16 < (16 :: nat)" for c :: char
    using of_char_256 [of c] by (simp add: less_mult_imp_div_less)
  have percent: "to_ascii_lowercase (CHR ''%'') = CHR ''%''" by code_simp
  show "unescape (concat (map encode_char v)) = Some v"
    by (induction v)
      (auto simp: encode_char_def unescape_plain plain_char_fold hex_digit_folds b char_of_parts simp del: div_mult_mod_eq)
  show "unescape (fold_case (concat (map encode_char v))) = Some v"
    by (induction v)
      (auto simp: encode_char_def unescape_plain plain_char_fold hex_digit_folds b percent char_of_parts simp del: div_mult_mod_eq)
qed

lemma encode_name_inj_fold: "fold_case (encode_name a) = fold_case (encode_name b) \<longleftrightarrow> a = b"
  unfolding encode_name_def by (auto, metis unescape_encoded(2) option.inject)

lemma decode_encode: "is_utf8 v \<Longrightarrow> decode_name (encode_name v) = Some v"
  by (simp add: decode_name_def encode_name_def unescape_encoded(1))

lemma decode_name_Some: "decode_name e = Some v \<Longrightarrow> encode_name v = e"
  by (auto simp: decode_name_def split: option.splits if_splits)

section \<open>Native names\<close>

lemma native_not_reserved: "\<not> is_reserved_heddle_namespace (native_git_name name)"
proof -
  have "\<not> eq_ignore_ascii_case (CHR ''g'' # s) RESERVED_REF_SEGMENT" for s
    by (simp add: eq_ignore_ascii_case_def RESERVED_REF_SEGMENT_def to_ascii_lowercase_def Let_def)
  then have "\<not> is_reserved_heddle_namespace (''git%'' @ e)" for e
    by (simp add: is_reserved_heddle_namespace_def Let_def)
  then show ?thesis by (auto simp: native_git_name_def)
qed

lemma encode_longer: "length v < length (encode_name v)"
proof -
  have "length v \<le> length (concat (map encode_char v))" by (induction v) (auto simp: encode_char_def)
  then show ?thesis by (simp add: encode_name_def)
qed

lemma native_changed:
  "is_reserved_heddle_namespace name \<or> strip_prefix ''git%'' name \<noteq> None \<Longrightarrow> native_git_name name = ''git%'' @ encode_name name"
  "native_git_name name = name \<longleftrightarrow> \<not> (is_reserved_heddle_namespace name \<or> strip_prefix ''git%'' name \<noteq> None)"
proof -
  have "''git%'' @ encode_name name \<noteq> name" using encode_longer [of name] by (auto dest: arg_cong [of _ _ length])
  then show "native_git_name name = name \<longleftrightarrow> \<not> (is_reserved_heddle_namespace name \<or> strip_prefix ''git%'' name \<noteq> None)"
    unfolding native_git_name_def by presburger
qed (simp add: native_git_name_def)

lemma git_source_native:
  assumes "is_utf8 name"
  shows "git_source (native_git_name name) = (if native_git_name name = name then None else Some name)"
proof (cases "native_git_name name = name")
  case True
  then show ?thesis using native_changed(2) [of name] by (simp add: git_source_def)
next
  case False
  then have "native_git_name name = ''git%'' @ encode_name name" using native_changed by blast
  then show ?thesis using False assms by (simp add: git_source_def decode_encode)
qed

lemma git_name_native: "is_utf8 name \<Longrightarrow> git_name (native_git_name name) = name"
  by (auto simp: git_name_def git_source_native)

lemma git_source_Some: "git_source v = Some n \<Longrightarrow> native_git_name n = v"
  by (auto simp: git_source_def split: option.splits if_splits)

section \<open>Paths\<close>

lemma concat_chunks: "0 < k \<Longrightarrow> concat (chunks k xs) = xs"
  by (induction k xs rule: chunks.induct) (subst chunks.simps, auto)

lemma map_chunks: "map (map f) (chunks k xs) = chunks k (map f xs)"
proof (induction k xs rule: chunks.induct)
  case (1 k xs)
  show ?case
    by (subst (1 2) chunks.simps) (use 1 in \<open>auto simp: take_map drop_map\<close>)
qed

lemma join_plain: "join_chunks (map (\<lambda>c. ''n-'' @ c) cs @ [''entry'']) = Some (concat cs)"
proof (induction cs)
  case (Cons c cs)
  obtain p ps where "map (\<lambda>c. ''n-'' @ c) cs @ [''entry''] = p # ps" by (cases "map (\<lambda>c. ''n-'' @ c) cs @ [''entry'']") auto
  then show ?case using Cons by simp
qed simp

text \<open>The path of a name that is not imported never starts with \<^verbatim>\<open>git\<close>.\<close>

lemma plain_path_tail: "map (\<lambda>c. ''n-'' @ c) cs @ [''entry''] \<noteq> ''git'' # ps"
  by (cases cs) auto

lemma plain_path_inj_fold:
  assumes "map fold_case (plain_path a) = map fold_case (plain_path b)"
  shows "a = b"
proof -
  let ?body = "\<lambda>v. drop 2 (encode_name (git_name v))"
  let ?tail = "\<lambda>v. map (\<lambda>c. ''n-'' @ c) (chunks 180 (fold_case (?body v))) @ [''entry'']"
  have fixed: "fold_case ''git'' = ''git''" "fold_case ''entry'' = ''entry''" "fold_case ''n-'' = ''n-''" by code_simp+
  have f: "map fold_case (plain_path v) = (if git_source v \<noteq> None then [''git''] else []) @ ?tail v" for v
    by (auto simp: plain_path_def fixed [simplified] map_chunks [symmetric])
  have imported: "git_source a \<noteq> None \<longleftrightarrow> git_source b \<noteq> None"
  proof (rule ccontr)
    assume "\<not> ?thesis"
    then consider "git_source a \<noteq> None" "git_source b = None" | "git_source a = None" "git_source b \<noteq> None" by blast
    then show False
      using assms plain_path_tail [of "chunks 180 (fold_case (?body a))" "?tail b"]
        plain_path_tail [of "chunks 180 (fold_case (?body b))" "?tail a"]
      unfolding f by cases auto
  qed
  then have "?tail a = ?tail b"
    using assms unfolding f by (cases "git_source a = None"; cases "git_source b = None") (simp_all del: append_Cons)
  then have "join_chunks (?tail a) = join_chunks (?tail b)" by simp
  then have "fold_case (?body a) = fold_case (?body b)" by (simp only: join_plain concat_chunks option.inject zero_less_numeral)
  then have "git_name a = git_name b"
    using encode_name_inj_fold [of "git_name a" "git_name b"] by (simp add: encode_name_def)
  then show ?thesis
    using imported git_source_Some by (auto simp: git_name_def split: option.splits)
qed

text \<open>The digest is 64 lower-case hexadecimal digits.\<close>

definition digest :: "(string \<Rightarrow> string) \<Rightarrow> bool" where
  "digest H \<longleftrightarrow> (\<forall>v. length (H v) = 64 \<and> list_all lower_hex (H v))"

lemma lower_hex_fold: "list_all lower_hex s \<Longrightarrow> fold_case s = s"
  by (induction s) (auto simp: lower_hex_def to_ascii_lowercase_def Let_def)

lemma digest_path:
  assumes "digest H" "path_len (plain_path v) > NAME_PATH_BUDGET"
  shows "is_digest_name_path (name_path H v)"
proof -
  have "strip_prefix ''h-'' (CHR ''h'' # CHR ''-'' # H v) = Some (H v)" by (simp add: strip_prefix_def)
  then show ?thesis using assms by (simp add: name_path_def is_digest_name_path_def digest_def)
qed

lemma decode_plain_path:
  assumes "is_utf8 v" "path_len (plain_path v) \<le> NAME_PATH_BUDGET"
  shows "decode_name_path H (plain_path v) = Some v"
proof -
  define body where "body = concat (chunks 180 (drop 2 (encode_name (git_name v))))"
  define parts where "parts = map (\<lambda>c. ''n-'' @ c) (chunks 180 (drop 2 (encode_name (git_name v)))) @ [''entry'']"
  have n: "''n-'' @ body = encode_name (git_name v)" by (simp add: body_def concat_chunks encode_name_def)
  have join: "join_chunks parts = Some body" unfolding parts_def body_def by (rule join_plain)
  have hd: "parts \<noteq> []" "hd parts \<noteq> ''git''"
    unfolding parts_def by (simp, cases "chunks 180 (drop 2 (encode_name (git_name v)))") auto
  have p: "name_path H v = plain_path v" using assms(2) by (simp add: name_path_def)
  show ?thesis
  proof (cases "git_source v")
    case None
    then have s: "git_name v = v" and t: "plain_path v = parts" by (simp_all add: git_name_def plain_path_def parts_def)
    then show ?thesis
      using decode_encode [OF assms(1)] p hd join n unfolding decode_name_path_def t s by (simp add: Let_def)
  next
    case (Some n')
    then have s: "git_name v = n'" "native_git_name n' = v" and t: "plain_path v = ''git'' # parts"
      by (auto simp: git_name_def git_source_Some plain_path_def parts_def)
    have "decode_name (encode_name n') = Some n'"
      using Some by (auto simp: git_source_def split: option.splits if_splits dest: decode_name_Some)
    then show ?thesis
      using p join n [unfolded s(1)] unfolding decode_name_path_def t by (simp add: Let_def s(2))
  qed
qed

text \<open>Only the last component of a path is \<^verbatim>\<open>entry\<close>, also on a case-folding host.\<close>

lemma path_shape:
  assumes "digest H"
  shows "\<exists>front. map fold_case (name_path H v) = front @ [''entry''] \<and> ''entry'' \<notin> set front"
proof -
  have e: "fold_case ''entry'' = ''entry''" by code_simp
  have "map fold_case (plain_path v) = map fold_case (butlast (plain_path v)) @ [''entry'']"
    "''entry'' \<notin> set (map fold_case (butlast (plain_path v)))"
    by (auto simp: plain_path_def butlast_append e [simplified] to_ascii_lowercase_def Let_def)
  then show ?thesis by (auto simp: name_path_def e [simplified] to_ascii_lowercase_def Let_def)
qed

section \<open>Properties\<close>

text \<open>C12: The path of a name fits the budget of the file system, and the name is decoded from its path unless the path
  is a digest.\<close>

theorem name_path_roundtrip:
  assumes "digest H" "is_utf8 name"
  shows "path_len (name_path H name) \<le> NAME_PATH_BUDGET
    \<and> (is_digest_name_path (name_path H name) \<or> decode_name_path H (name_path H name) = Some name)"
proof (cases "path_len (plain_path name) > NAME_PATH_BUDGET")
  case True
  then show ?thesis
    using assms(1) digest_path [OF assms(1) True] by (simp add: name_path_def digest_def NAME_PATH_BUDGET_def)
next
  case False
  then show ?thesis using decode_plain_path [OF assms(2)] by (simp add: name_path_def)
qed

definition zero_digest :: "string \<Rightarrow> string" where
  "zero_digest v = replicate 64 (CHR ''0'')"

lemma zero_digest: "digest zero_digest"
  by (simp add: digest_def zero_digest_def lower_hex_def list_all_iff)

theorem name_path_roundtrip_witness:
  "path_len (name_path zero_digest ''Feat/x'') \<le> NAME_PATH_BUDGET
    \<and> (is_digest_name_path (name_path zero_digest ''Feat/x'')
       \<or> decode_name_path zero_digest (name_path zero_digest ''Feat/x'') = Some ''Feat/x'')"
  by (rule name_path_roundtrip [OF zero_digest]) code_simp

text \<open>C13: The directories of two names are different and neither lies below the other, even where the file system folds
  the case of letters, unless their digests collide.\<close>

theorem name_paths_disjoint:
  assumes "digest H" "prefix (map fold_case (name_path H a)) (map fold_case (name_path H b))"
  shows "a = b \<or> H a = H b"
proof -
  obtain fa fb where f: "map fold_case (name_path H a) = fa @ [''entry'']" "map fold_case (name_path H b) = fb @ [''entry'']"
    "''entry'' \<notin> set fb"
    using path_shape [OF assms(1)] by metis
  have "fa = fb"
  proof -
    obtain r where r: "fb @ [''entry''] = fa @ ''entry'' # r" using assms(2) unfolding f by (auto simp: prefix_def)
    then show ?thesis using f(3) by (auto simp: append_eq_append_conv2 append_eq_Cons_conv Cons_eq_append_conv)
  qed
  then have eq: "map fold_case (name_path H a) = map fold_case (name_path H b)" using f by simp
  have h: "fold_case (''h-'' @ H v) = ''h-'' @ H v" for v
    using assms(1) lower_hex_fold [of "H v"] by (auto simp: digest_def to_ascii_lowercase_def Let_def)
  have no_digest: "map fold_case (plain_path v) \<noteq> [''h-'' @ H w, ''entry'']" for v w
    by (auto simp: plain_path_def to_ascii_lowercase_def Let_def Cons_eq_append_conv map_eq_Cons_conv Cons_eq_map_conv split: if_splits)
  have e: "fold_case ''entry'' = ''entry''" by code_simp
  show ?thesis
    using eq plain_path_inj_fold [of a b] h no_digest [of a b] no_digest [of b a] e
    unfolding name_path_def by (auto split: if_splits simp del: append_Cons)
qed

theorem name_paths_disjoint_witness:
  "prefix (map fold_case (name_path zero_digest ''a'')) (map fold_case (name_path zero_digest ''a''))
    \<and> (''a'' = ''a'' \<or> zero_digest ''a'' = zero_digest ''a'')"
  using name_paths_disjoint [OF zero_digest, of "''a''" "''a''"] by simp

text \<open>Every Git name is a native name that is not reserved for the program and that projects back to it.\<close>

theorem native_names_embed:
  assumes "is_utf8 name"
  shows "git_name (native_git_name name) = name \<and> \<not> is_reserved_heddle_namespace (native_git_name name)"
  using git_name_native [OF assms] native_not_reserved by blast

theorem native_names_embed_witness:
  "git_name (native_git_name ''heddle/x'') = ''heddle/x'' \<and> \<not> is_reserved_heddle_namespace (native_git_name ''heddle/x'')"
  by (rule native_names_embed) code_simp

end
