(* ===== verification/Refs_Text.thy ===== *)
theory Refs_Text
  imports Name_Encoding Oplog "HOL-Library.AList"
begin

text \<open>
  References as text: state ids, \<^verbatim>\<open>HEAD\<close>, the packed references, expectations and updates, from
  \<^verbatim>\<open>src/crates/refs/src/refs\<close> (\<^verbatim>\<open>text.rs\<close>, \<^verbatim>\<open>head.rs\<close>, \<^verbatim>\<open>name.rs\<close>, \<^verbatim>\<open>types.rs\<close>, \<^verbatim>\<open>refs_types.rs\<close>) and
  \<^verbatim>\<open>src/crates/object-model/src\<close> (\<^verbatim>\<open>refs.rs\<close>, \<^verbatim>\<open>object/hash.rs\<close>, \<^verbatim>\<open>object/identifiers.rs\<close>). A string is its list
  of UTF-8 bytes.
\<close>

section \<open>What library code provides\<close>

text \<open>
  \<^verbatim>\<open>base32\<close> encoding to lower case and decoding after \<^verbatim>\<open>to_uppercase\<close>, and Git's rules for reference names and
  branch names (\<^verbatim>\<open>sley_refs\<close>).
\<close>

record text_lib =
  b32_lower :: "bytes \<Rightarrow> string"
  b32_upper :: "string \<Rightarrow> bytes option"
  check_refname_format :: "string \<Rightarrow> bool"
  branch_name_ok :: "string \<Rightarrow> bool"

section \<open>Strings\<close>

text \<open>\<^verbatim>\<open>str::trim\<close>: the encodings of the white space characters, removed from both ends.\<close>

definition white_space :: "string list" where
  "white_space =
     [[CHR 0x09], [CHR 0x0A], [CHR 0x0B], [CHR 0x0C], [CHR 0x0D], [CHR 0x20],
      [CHR 0xC2, CHR 0x85], [CHR 0xC2, CHR 0xA0], [CHR 0xE1, CHR 0x9A, CHR 0x80]]
     @ map (\<lambda>n. [CHR 0xE2, CHR 0x80, char_of (0x80 + n)]) [0..<11]
     @ [[CHR 0xE2, CHR 0x80, CHR 0xA8], [CHR 0xE2, CHR 0x80, CHR 0xA9], [CHR 0xE2, CHR 0x80, CHR 0xAF],
        [CHR 0xE2, CHR 0x81, CHR 0x9F], [CHR 0xE3, CHR 0x80, CHR 0x80]]"

lemma white_space_nonempty: "w \<in> set white_space \<Longrightarrow> w \<noteq> []"
  by (auto simp: white_space_def)

function trim_with :: "string list \<Rightarrow> string \<Rightarrow> string" where
  "trim_with ws s =
     (case find (\<lambda>w. w \<noteq> [] \<and> strip_prefix w s \<noteq> None) ws of
        None \<Rightarrow> s
      | Some w \<Rightarrow> trim_with ws (drop (length w) s))"
  by pat_completeness auto
termination
  by (relation "measure (\<lambda>(ws, s). length s)")
    (auto simp: find_Some_iff strip_prefix_def intro: diff_less split: if_splits)

declare trim_with.simps [simp del]

definition trim_str :: "string \<Rightarrow> string" where
  "trim_str s = rev (trim_with (map rev white_space) (rev (trim_with white_space s)))"

text \<open>\<^verbatim>\<open>str::lines\<close>: the lines without their \<^verbatim>\<open>\n\<close> or \<^verbatim>\<open>\r\n\<close>; a final empty piece is not a line.\<close>

definition line_content :: "string \<Rightarrow> string" where
  "line_content l = (if l \<noteq> [] \<and> last l = CHR 0x0D then butlast l else l)"

definition str_lines :: "string \<Rightarrow> string list" where
  "str_lines s =
     (let pieces = split_char (CHR 0x0A) s
      in map line_content (butlast pieces) @ (if last pieces = [] then [] else [last pieces]))"

section \<open>State ids\<close>

definition to_string_full :: "text_lib \<Rightarrow> StateId \<Rightarrow> string" where
  "to_string_full E i = ''hs-'' @ b32_lower E i"

definition state_id_parse :: "text_lib \<Rightarrow> string \<Rightarrow> StateId option" where
  "state_id_parse E s =
     (let encoded = (case strip_prefix ''hs-'' s of Some r \<Rightarrow> r | None \<Rightarrow> s)
      in case b32_upper E encoded of None \<Rightarrow> None
         | Some bs \<Rightarrow> if length bs = 32 then Some bs else None)"

definition parse_state_id_text :: "text_lib \<Rightarrow> string \<Rightarrow> StateId option" where
  "parse_state_id_text E contents = state_id_parse E (trim_str contents)"

definition format_state_id_text :: "text_lib \<Rightarrow> StateId \<Rightarrow> string" where
  "format_state_id_text E i = to_string_full E i @ [CHR 0x0A]"

section \<open>Names\<close>

definition from_git_branch :: "text_lib \<Rightarrow> string \<Rightarrow> string option" where
  "from_git_branch E name =
     (if name = ''HEAD'' \<or> length name + length ''refs/heads/'' > 1024 \<or> \<not> branch_name_ok E name then None
      else Some (native_git_name name))"

definition from_git_tag :: "text_lib \<Rightarrow> string \<Rightarrow> string option" where
  "from_git_tag E name =
     (let full = ''refs/tags/'' @ name
      in if length full > 1024 \<or> \<not> check_refname_format E full then None else Some (native_git_name name))"

definition validate_ref_name :: "text_lib \<Rightarrow> string \<Rightarrow> bool" where
  "validate_ref_name E name =
     (let git = git_name name; full = ''refs/heads/'' @ git
      in \<not> (\<not> check_refname_format E full \<or> is_reserved_heddle_namespace name
            \<or> (strip_prefix ''git%'' name \<noteq> None \<and> native_git_name git \<noteq> name)))"

definition require_user_ref_name :: "text_lib \<Rightarrow> string \<Rightarrow> unit outcome" where
  "require_user_ref_name E name = (if validate_ref_name E name then Inr () else Inl (InvalidRefName name))"

section \<open>HEAD\<close>

datatype Head = Attached string | Detached StateId

definition head_parse :: "text_lib \<Rightarrow> string \<Rightarrow> Head option" where
  "head_parse E contents =
     (let contents = strip_ref_line_ending contents
      in case strip_prefix ''ref: '' contents of
           Some thread \<Rightarrow>
             if from_git_branch E (git_name thread) = None \<or> \<not> validate_ref_name E thread then None
             else Some (Attached thread)
         | None \<Rightarrow> map_option Detached (state_id_parse E contents))"

fun head_to_text :: "text_lib \<Rightarrow> Head \<Rightarrow> string" where
  "head_to_text E (Attached thread) = ''ref: '' @ thread @ [CHR 0x0A]"
| "head_to_text E (Detached state) = to_string_full E state @ [CHR 0x0A]"

section \<open>Expectations and updates\<close>

datatype 'a RefExpectation = Any | Missing | Value 'a

datatype RefUpdate =
  UpdateThread string "StateId RefExpectation" "StateId option"
| UpdateMarker string "StateId RefExpectation" "StateId option"
| UpdateHead "Head RefExpectation" Head
| UpdateRemoteThread string string "StateId RefExpectation" "StateId option"

fun matches_expectation :: "'a RefExpectation \<Rightarrow> 'a option \<Rightarrow> bool \<Rightarrow> bool" where
  "matches_expectation Any current present = True"
| "matches_expectation Missing current present = (\<not> present)"
| "matches_expectation (Value v) current present = (current = Some v)"

fun describe_head :: "text_lib \<Rightarrow> Head \<Rightarrow> string" where
  "describe_head E (Attached thread) = ''ref: '' @ thread"
| "describe_head E (Detached state) = to_string_full E state"

definition describe_state_id :: "text_lib \<Rightarrow> StateId option \<Rightarrow> string" where
  "describe_state_id E i = (case i of None \<Rightarrow> ''missing'' | Some i \<Rightarrow> to_string_full E i)"

fun describe_expectation :: "('a \<Rightarrow> string) \<Rightarrow> 'a RefExpectation \<Rightarrow> string" where
  "describe_expectation d Any = ''any''"
| "describe_expectation d Missing = ''missing''"
| "describe_expectation d (Value v) = d v"

section \<open>Packed references\<close>

text \<open>The two hash maps are association lists without duplicate keys.\<close>

record PackedRefs =
  pr_threads :: "(string \<times> StateId) list"
  pr_markers :: "(string \<times> StateId) list"

definition packed_new :: PackedRefs where
  "packed_new = \<lparr>pr_threads = [], pr_markers = []\<rparr>"

definition THREADS_PREFIX :: string where "THREADS_PREFIX = ''refs/threads/''"
definition MARKERS_PREFIX :: string where "MARKERS_PREFIX = ''refs/markers/''"

definition packed_set_thread :: "string \<Rightarrow> StateId \<Rightarrow> PackedRefs \<Rightarrow> PackedRefs" where
  "packed_set_thread name i p = p\<lparr>pr_threads := AList.update name i (pr_threads p)\<rparr>"

definition packed_set_marker :: "string \<Rightarrow> StateId \<Rightarrow> PackedRefs \<Rightarrow> PackedRefs" where
  "packed_set_marker name i p = p\<lparr>pr_markers := AList.update name i (pr_markers p)\<rparr>"

definition packed_remove_track :: "string \<Rightarrow> PackedRefs \<Rightarrow> PackedRefs" where
  "packed_remove_track name p = p\<lparr>pr_threads := AList.delete name (pr_threads p)\<rparr>"

definition packed_remove_marker :: "string \<Rightarrow> PackedRefs \<Rightarrow> PackedRefs" where
  "packed_remove_marker name p = p\<lparr>pr_markers := AList.delete name (pr_markers p)\<rparr>"

definition packed_get_thread :: "PackedRefs \<Rightarrow> string \<Rightarrow> StateId option" where
  "packed_get_thread p name = map_of (pr_threads p) name"

definition packed_get_marker :: "PackedRefs \<Rightarrow> string \<Rightarrow> StateId option" where
  "packed_get_marker p name = map_of (pr_markers p) name"

definition packed_is_empty :: "PackedRefs \<Rightarrow> bool" where
  "packed_is_empty p \<longleftrightarrow> pr_threads p = [] \<and> pr_markers p = []"

definition packed_line :: "text_lib \<Rightarrow> PackedRefs \<Rightarrow> string \<Rightarrow> PackedRefs" where
  "packed_line E packed line =
     (if line = [] \<or> hd line = CHR ''#'' \<or> CHR '' '' \<notin> set line then packed
      else
        let id_str = takeWhile (\<lambda>c. c \<noteq> CHR '' '') line; refname = drop (length id_str + 1) line
        in case state_id_parse E id_str of None \<Rightarrow> packed
           | Some i \<Rightarrow>
               (case strip_prefix THREADS_PREFIX refname of
                  Some name \<Rightarrow> packed_set_thread name i packed
                | None \<Rightarrow>
                    (case strip_prefix MARKERS_PREFIX refname of
                       Some name \<Rightarrow> packed_set_marker name i packed
                     | None \<Rightarrow> packed)))"

definition packed_parse :: "text_lib \<Rightarrow> string \<Rightarrow> PackedRefs" where
  "packed_parse E contents = foldl (packed_line E) packed_new (str_lines contents)"

definition packed_to_text :: "text_lib \<Rightarrow> PackedRefs \<Rightarrow> string" where
  "packed_to_text E p =
     (let ref_line = (\<lambda>pre (name, i). to_string_full E i @ '' '' @ pre @ name);
          lines = [''# packed-refs with: peeled fully-peeled sorted'']
            @ map (ref_line THREADS_PREFIX) (pr_threads p) @ map (ref_line MARKERS_PREFIX) (pr_markers p)
      in concat (map (\<lambda>l. l @ [CHR 0x0A]) (sort lines)))"

end
