(* ===== verification/Refs_Summary.thy ===== *)
theory Refs_Summary
  imports Refs_Text
begin

text \<open>
  The summary of all references that makes listing them cheap, \<^verbatim>\<open>src/crates/refs/src/refs/ref_summary_index.rs\<close>:
  its text form, the change of one entry, and its counts. Entries are kept in the order of their names.
\<close>

definition REF_SUMMARY_VERSION :: string where "REF_SUMMARY_VERSION = ''heddle-ref-summary-v2''"

section \<open>Data\<close>

datatype RefSummarySource = Loose | Packed | LooseAndPacked

fun source_as_str :: "RefSummarySource \<Rightarrow> string" where
  "source_as_str Loose = ''loose''"
| "source_as_str Packed = ''packed''"
| "source_as_str LooseAndPacked = ''loose+packed''"

definition source_parse :: "string \<Rightarrow> RefSummarySource outcome" where
  "source_parse v =
     (if v = ''loose'' then Inr Loose else if v = ''packed'' then Inr Packed
      else if v = ''loose+packed'' then Inr LooseAndPacked
      else Inl (InvalidObject (''invalid ref summary source '' @ v)))"

record RefSummaryEntry =
  se_name :: string
  se_state :: StateId
  se_source :: RefSummarySource

record RemoteThreadSummaryEntry =
  rt_name :: string
  rt_state :: StateId

record RemoteSummaryEntry =
  rs_name :: string
  rs_threads :: "RemoteThreadSummaryEntry list"

record RefSummaryIndex =
  si_threads :: "RefSummaryEntry list"
  si_markers :: "RefSummaryEntry list"
  si_remotes :: "RemoteSummaryEntry list"

datatype SummaryDelta =
  SetThread string StateId
| SetMarker string StateId
| DeleteThread string
| DeleteMarker string
| SetRemoteThread string string StateId
| DeleteRemoteThread string string

section \<open>Text\<close>

definition parse_summary_state_id :: "text_lib \<Rightarrow> string \<Rightarrow> StateId outcome" where
  "parse_summary_state_id E contents =
     (case parse_state_id_text E contents of Some i \<Rightarrow> Inr i
      | None \<Rightarrow> Inl (InvalidObject (''invalid state id text: '' @ trim_str contents)))"

text \<open>\<^verbatim>\<open>BTreeMap::entry(k).or_default()\<close> followed by an extension of the value.\<close>

definition entry_extend :: "string \<Rightarrow> 'a list \<Rightarrow> (string \<times> 'a list) list \<Rightarrow> (string \<times> 'a list) list" where
  "entry_extend k xs m = AList.update k ((case map_of m k of Some v \<Rightarrow> v | None \<Rightarrow> []) @ xs) m"

text \<open>The entries of the file read so far: threads, markers, the remotes and their threads.\<close>

type_synonym summary_rows =
  "RefSummaryEntry list \<times> RefSummaryEntry list \<times> (string \<times> RemoteThreadSummaryEntry list) list"

definition entry_of :: "text_lib \<Rightarrow> string \<Rightarrow> string \<Rightarrow> string \<Rightarrow> RefSummaryEntry outcome" where
  "entry_of E name state_id source =
     and_then (parse_summary_state_id E state_id) (\<lambda>i.
     and_then (source_parse source) (\<lambda>src. Inr \<lparr>se_name = name, se_state = i, se_source = src\<rparr>))"

definition summary_line :: "text_lib \<Rightarrow> string \<Rightarrow> summary_rows \<Rightarrow> summary_rows outcome" where
  "summary_line E line rows =
     (let (threads, markers, remotes) = rows;
          bad = Inl (InvalidObject (''invalid ref summary line: '' @ line))
      in if line = [] then Inr rows
         else case split_char (CHR 0x09) line of
           [k, a] \<Rightarrow> if k = ''remote'' then Inr (threads, markers, entry_extend a [] remotes) else bad
         | [k, a, b, c] \<Rightarrow>
             if k = ''thread'' then and_then (entry_of E a b c) (\<lambda>e. Inr (threads @ [e], markers, remotes))
             else if k = ''marker'' then and_then (entry_of E a b c) (\<lambda>e. Inr (threads, markers @ [e], remotes))
             else if k = ''remote_thread''
               then and_then (parse_summary_state_id E c) (\<lambda>i.
                      Inr (threads, markers, entry_extend a [\<lparr>rt_name = b, rt_state = i\<rparr>] remotes))
             else bad
         | _ \<Rightarrow> bad)"

fun summary_lines :: "text_lib \<Rightarrow> string list \<Rightarrow> summary_rows \<Rightarrow> summary_rows outcome" where
  "summary_lines E [] rows = Inr rows"
| "summary_lines E (line # ls) rows = and_then (summary_line E line rows) (\<lambda>rows. summary_lines E ls rows)"

text \<open>\<^verbatim>\<open>RefSummaryIndex::parse\<close>\<close>

definition summary_parse :: "text_lib \<Rightarrow> string \<Rightarrow> RefSummaryIndex outcome" where
  "summary_parse E contents =
     (case str_lines contents of
        [] \<Rightarrow> Inl (InvalidObject ''empty ref summary index'')
      | header # ls \<Rightarrow>
          if header \<noteq> REF_SUMMARY_VERSION then Inl (InvalidObject (''unsupported ref summary version: '' @ header))
          else and_then (summary_lines E ls ([], [], [])) (\<lambda>(threads, markers, remotes).
            Inr \<lparr>si_threads = threads, si_markers = markers,
                 si_remotes = map (\<lambda>name. \<lparr>rs_name = name,
                     rs_threads = (case map_of remotes name of Some v \<Rightarrow> v | None \<Rightarrow> [])\<rparr>)
                   (sort (remdups (map fst remotes)))\<rparr>))"

definition tabbed :: "string list \<Rightarrow> string" where
  "tabbed parts = concat (map (\<lambda>f. f @ [CHR 0x09]) (butlast parts)) @ last parts @ [CHR 0x0A]"

definition entry_line :: "text_lib \<Rightarrow> string \<Rightarrow> RefSummaryEntry \<Rightarrow> string" where
  "entry_line E kind e = tabbed [kind, se_name e, to_string_full E (se_state e), source_as_str (se_source e)]"

definition remote_lines :: "text_lib \<Rightarrow> RemoteSummaryEntry \<Rightarrow> string" where
  "remote_lines E r =
     tabbed [''remote'', rs_name r]
     @ concat (map (\<lambda>t. tabbed [''remote_thread'', rs_name r, rt_name t, to_string_full E (rt_state t)]) (rs_threads r))"

definition summary_to_text :: "text_lib \<Rightarrow> RefSummaryIndex \<Rightarrow> string" where
  "summary_to_text E s =
     REF_SUMMARY_VERSION @ [CHR 0x0A]
     @ concat (map (entry_line E ''thread'') (si_threads s))
     @ concat (map (entry_line E ''marker'') (si_markers s))
     @ concat (map (remote_lines E) (si_remotes s))"

section \<open>One change\<close>

text \<open>
  \<^verbatim>\<open>binary_search_by\<close> over entries sorted by name: the position of the entry, or where to insert it.
\<close>

definition search_pos :: "('a \<Rightarrow> string) \<Rightarrow> string \<Rightarrow> 'a list \<Rightarrow> nat" where
  "search_pos key k xs = length (takeWhile (\<lambda>x. key x < k) xs)"

definition upsert_with :: "('a \<Rightarrow> string) \<Rightarrow> string \<Rightarrow> ('a \<Rightarrow> 'a) \<Rightarrow> 'a \<Rightarrow> 'a list \<Rightarrow> 'a list" where
  "upsert_with key k f new xs =
     (let i = search_pos key k xs
      in if i < length xs \<and> key (xs ! i) = k then xs[i := f (xs ! i)] else take i xs @ [new] @ drop i xs)"

definition upsert_entry :: "string \<Rightarrow> StateId \<Rightarrow> RefSummarySource \<Rightarrow> RefSummaryEntry list \<Rightarrow> RefSummaryEntry list" where
  "upsert_entry name i source entries =
     upsert_with se_name name (\<lambda>e. e\<lparr>se_state := i, se_source := source\<rparr>)
       \<lparr>se_name = name, se_state = i, se_source = source\<rparr> entries"

definition upsert_thread :: "string \<Rightarrow> StateId \<Rightarrow> RemoteThreadSummaryEntry list \<Rightarrow> RemoteThreadSummaryEntry list" where
  "upsert_thread name i threads =
     upsert_with rt_name name (\<lambda>t. t\<lparr>rt_state := i\<rparr>) \<lparr>rt_name = name, rt_state = i\<rparr> threads"

fun apply_delta :: "PackedRefs \<Rightarrow> SummaryDelta \<Rightarrow> RefSummaryIndex \<Rightarrow> RefSummaryIndex" where
  "apply_delta packed (SetThread name i) s =
     s\<lparr>si_threads := upsert_entry name i
         (if packed_get_thread packed name \<noteq> None then LooseAndPacked else Loose) (si_threads s)\<rparr>"
| "apply_delta packed (SetMarker name i) s =
     s\<lparr>si_markers := upsert_entry name i
         (if packed_get_marker packed name \<noteq> None then LooseAndPacked else Loose) (si_markers s)\<rparr>"
| "apply_delta packed (DeleteThread name) s = s\<lparr>si_threads := filter (\<lambda>e. se_name e \<noteq> name) (si_threads s)\<rparr>"
| "apply_delta packed (DeleteMarker name) s = s\<lparr>si_markers := filter (\<lambda>e. se_name e \<noteq> name) (si_markers s)\<rparr>"
| "apply_delta packed (SetRemoteThread remote name i) s =
     s\<lparr>si_remotes := upsert_with rs_name remote (\<lambda>r. r\<lparr>rs_threads := upsert_thread name i (rs_threads r)\<rparr>)
         \<lparr>rs_name = remote, rs_threads = upsert_thread name i []\<rparr> (si_remotes s)\<rparr>"
| "apply_delta packed (DeleteRemoteThread remote name) s =
     s\<lparr>si_remotes :=
         (let rs = si_remotes s; k = search_pos rs_name remote rs
          in if k < length rs \<and> rs_name (rs ! k) = remote
             then rs[k := (rs ! k)\<lparr>rs_threads := filter (\<lambda>t. rt_name t \<noteq> name) (rs_threads (rs ! k))\<rparr>]
             else rs)\<rparr>"

section \<open>Reading it\<close>

definition thread_states :: "RefSummaryIndex \<Rightarrow> (string \<times> StateId) list" where
  "thread_states s = map (\<lambda>e. (se_name e, se_state e)) (si_threads s)"

definition thread_names :: "RefSummaryIndex \<Rightarrow> string list" where
  "thread_names s = map se_name (si_threads s)"

definition marker_names :: "RefSummaryIndex \<Rightarrow> string list" where
  "marker_names s = map se_name (si_markers s)"

definition remote_names :: "RefSummaryIndex \<Rightarrow> string list" where
  "remote_names s = map rs_name (si_remotes s)"

definition remote_thread_names :: "RefSummaryIndex \<Rightarrow> string \<Rightarrow> string list" where
  "remote_thread_names s remote =
     (case find (\<lambda>r. rs_name r = remote) (si_remotes s) of
        Some r \<Rightarrow> map rt_name (rs_threads r) | None \<Rightarrow> [])"

record RefSummaryIndexInspection =
  in_present :: bool
  in_valid :: bool
  in_bytes :: nat
  in_threads :: nat
  in_markers :: nat
  in_remotes :: nat
  in_remote_threads :: nat
  in_packed_threads :: nat
  in_packed_markers :: nat
  in_error :: "HeddleError option"

definition inspection_absent :: RefSummaryIndexInspection where
  "inspection_absent =
     \<lparr>in_present = False, in_valid = False, in_bytes = 0, in_threads = 0, in_markers = 0, in_remotes = 0,
      in_remote_threads = 0, in_packed_threads = 0, in_packed_markers = 0, in_error = None\<rparr>"

definition summary_inspection :: "RefSummaryIndex \<Rightarrow> nat \<Rightarrow> RefSummaryIndexInspection" where
  "summary_inspection s n =
     \<lparr>in_present = True, in_valid = True, in_bytes = n, in_threads = length (si_threads s),
      in_markers = length (si_markers s), in_remotes = length (si_remotes s),
      in_remote_threads = sum_list (map (\<lambda>r. length (rs_threads r)) (si_remotes s)),
      in_packed_threads = length (filter (\<lambda>e. se_source e \<noteq> Loose) (si_threads s)),
      in_packed_markers = length (filter (\<lambda>e. se_source e \<noteq> Loose) (si_markers s)), in_error = None\<rparr>"

end
