(* ===== verification/Refs_Files.thy ===== *)
theory Refs_Files
  imports Refs_Summary "HOL-Library.Sublist"
begin

text \<open>
  The files that store references, \<^verbatim>\<open>src/crates/refs/src/refs/refs_storage.rs\<close>, \<^verbatim>\<open>refs_head.rs\<close> and the
  storage parts of \<^verbatim>\<open>refs_manager.rs\<close> and \<^verbatim>\<open>ref_summary_index.rs\<close>: paths, reads, listings, atomic writes, and the
  identity files of long names (\<^verbatim>\<open>src/crates/objects/src/name_encoding.rs\<close>).

  The file system is a map of files and a list of directories. Every change may fail, before or after it has
  taken effect, as an oracle over the running number of changes decides. Reads of existing files succeed.
  Temporary files are kept apart by the path they are staged for and their random suffix.
\<close>

section \<open>Storage\<close>

type_synonym path = "string list"

datatype fault = Works | FailsBefore | FailsAfter

record refs_config =
  rc_root :: path
  rc_local_head :: "path option"
  rc_text :: text_lib
  rc_digest :: "string \<Rightarrow> string"
  rc_fault :: "nat \<Rightarrow> fault"
  rc_suffix :: "nat \<Rightarrow> nat"

record ref_files =
  rf_files :: "(path \<times> string) list"
  rf_dirs :: "path list"
  rf_temps :: "((path \<times> nat) \<times> string) list"
  rf_ticks :: nat

type_synonym ('s, 'a) file_call = "'s ref_files_scheme \<times> 'a outcome"

text \<open>\<^verbatim>\<open>let x = c?; ...\<close> and \<^verbatim>\<open>let x = r?; ...\<close>, where \<open>r\<close> only reads.\<close>

definition io_then :: "'s \<times> 'a outcome \<Rightarrow> ('s \<Rightarrow> 'a \<Rightarrow> 's \<times> 'b outcome) \<Rightarrow> 's \<times> 'b outcome" where
  "io_then c k = (case c of (st, Inl e) \<Rightarrow> (st, Inl e) | (st, Inr x) \<Rightarrow> k st x)"

definition io_read :: "'s \<Rightarrow> 'a outcome \<Rightarrow> ('a \<Rightarrow> 's \<times> 'b outcome) \<Rightarrow> 's \<times> 'b outcome" where
  "io_read st r k = (case r of Inl e \<Rightarrow> (st, Inl e) | Inr x \<Rightarrow> k x)"

lemma io_then_simps [simp]: "io_then (st, Inl e) k = (st, Inl e)" "io_then (st, Inr x) k = k st x"
  by (simp_all add: io_then_def)

lemma io_read_simps [simp]: "io_read st (Inl e) k = (st, Inl e)" "io_read st (Inr x) k = k x"
  by (simp_all add: io_read_def)

lemma io_then_cong [fundef_cong]:
  "c = d \<Longrightarrow> (\<And>st x. d = (st, Inr x) \<Longrightarrow> k st x = l st x) \<Longrightarrow> io_then c k = io_then d l"
  by (auto simp: io_then_def split: prod.split sum.split)

fun for_each :: "('s \<Rightarrow> 'a \<Rightarrow> 's \<times> unit outcome) \<Rightarrow> 'a list \<Rightarrow> 's \<Rightarrow> 's \<times> unit outcome" where
  "for_each f [] st = (st, Inr ())"
| "for_each f (x # xs) st = io_then (f st x) (\<lambda>st _. for_each f xs st)"

fun traverse :: "('a \<Rightarrow> 'b outcome) \<Rightarrow> 'a list \<Rightarrow> 'b list outcome" where
  "traverse f [] = Inr []"
| "traverse f (x # xs) = and_then (f x) (\<lambda>y. and_then (traverse f xs) (\<lambda>ys. Inr (y # ys)))"

subsection \<open>Paths\<close>

definition refs_dir :: "'m refs_config_scheme \<Rightarrow> path" where "refs_dir m = rc_root m @ [''refs'']"
definition threads_dir :: "'m refs_config_scheme \<Rightarrow> path" where "threads_dir m = refs_dir m @ [''threads'']"
definition markers_dir :: "'m refs_config_scheme \<Rightarrow> path" where "markers_dir m = refs_dir m @ [''markers'']"
definition remotes_dir :: "'m refs_config_scheme \<Rightarrow> path" where "remotes_dir m = refs_dir m @ [''remotes'']"

definition head_path :: "'m refs_config_scheme \<Rightarrow> path" where
  "head_path m = (case rc_local_head m of Some p \<Rightarrow> p | None \<Rightarrow> rc_root m @ [''HEAD''])"

definition undo_recovery_path :: "'m refs_config_scheme \<Rightarrow> path" where
  "undo_recovery_path m = butlast (head_path m) @ [''UNDO_RECOVERY'']"

definition packed_refs_path :: "'m refs_config_scheme \<Rightarrow> path" where
  "packed_refs_path m = refs_dir m @ [''packed-refs'']"

definition ref_summary_index_path :: "'m refs_config_scheme \<Rightarrow> path" where
  "ref_summary_index_path m = refs_dir m @ [''ref-summary-index'']"

subsection \<open>Reads\<close>

definition file_exists :: "'s ref_files_scheme \<Rightarrow> path \<Rightarrow> bool" where
  "file_exists st p \<longleftrightarrow> map_of (rf_files st) p \<noteq> None"

definition dir_exists :: "'s ref_files_scheme \<Rightarrow> path \<Rightarrow> bool" where
  "dir_exists st p \<longleftrightarrow> p \<in> set (rf_dirs st)"

definition read_ref_string :: "'s ref_files_scheme \<Rightarrow> path \<Rightarrow> string outcome" where
  "read_ref_string st p = (case map_of (rf_files st) p of Some c \<Rightarrow> Inr c | None \<Rightarrow> Inl (IoError ''not found''))"

definition read_optional_string :: "'s ref_files_scheme \<Rightarrow> path \<Rightarrow> string option outcome" where
  "read_optional_string st p =
     (if \<not> file_exists st p then Inr None else and_then (read_ref_string st p) (\<lambda>c. Inr (Some c)))"

lemma read_optional_string_simp [simp]: "read_optional_string st p = Inr (map_of (rf_files st) p)"
  by (auto simp: read_optional_string_def file_exists_def read_ref_string_def)

subsection \<open>Changes\<close>

definition next_fault :: "'m refs_config_scheme \<Rightarrow> 's ref_files_scheme \<Rightarrow> fault" where
  "next_fault m st = rc_fault m (rf_ticks st)"

definition change ::
  "'m refs_config_scheme \<Rightarrow> ('s ref_files_scheme \<Rightarrow> 's ref_files_scheme) \<Rightarrow> 's ref_files_scheme \<Rightarrow> ('s, unit) file_call" where
  "change m f st =
     (let st' = st\<lparr>rf_ticks := Suc (rf_ticks st)\<rparr>
      in case next_fault m st of
           Works \<Rightarrow> (f st', Inr ())
         | FailsBefore \<Rightarrow> (st', Inl (IoError ''failed''))
         | FailsAfter \<Rightarrow> (f st', Inl (IoError ''failed'')))"

definition create_dir_all :: "'m refs_config_scheme \<Rightarrow> path \<Rightarrow> 's ref_files_scheme \<Rightarrow> ('s, unit) file_call" where
  "create_dir_all m p = change m (\<lambda>st. st\<lparr>rf_dirs := fold List.insert (prefixes p) (rf_dirs st)\<rparr>)"

text \<open>
  \<^verbatim>\<open>write_file_atomic\<close>: the directory is made, then the new bytes replace the old in one rename; the sync after
  the rename may still fail.
\<close>

definition write_file_atomic ::
  "'m refs_config_scheme \<Rightarrow> path \<Rightarrow> string \<Rightarrow> 's ref_files_scheme \<Rightarrow> ('s, unit) file_call" where
  "write_file_atomic m p c st =
     io_then (create_dir_all m (butlast p) st) (\<lambda>st _.
       change m (\<lambda>st. st\<lparr>rf_files := AList.update p c (rf_files st)\<rparr>) st)"

definition write_ref_string ::
  "'m refs_config_scheme \<Rightarrow> path \<Rightarrow> string \<Rightarrow> 's ref_files_scheme \<Rightarrow> ('s, unit) file_call" where
  "write_ref_string m p c st = write_file_atomic m p c st"

text \<open>\<^verbatim>\<open>remove_file\<close> and \<^verbatim>\<open>rename\<close> are single system calls: they fail without effect.\<close>

definition atomic_change ::
  "'m refs_config_scheme \<Rightarrow> ('s ref_files_scheme \<Rightarrow> 's ref_files_scheme) \<Rightarrow> 's ref_files_scheme \<Rightarrow> ('s, unit) file_call" where
  "atomic_change m f st =
     (let st' = st\<lparr>rf_ticks := Suc (rf_ticks st)\<rparr>
      in if next_fault m st = Works then (f st', Inr ()) else (st', Inl (IoError ''failed'')))"

definition remove_file :: "'m refs_config_scheme \<Rightarrow> path \<Rightarrow> 's ref_files_scheme \<Rightarrow> ('s, unit) file_call" where
  "remove_file m p = atomic_change m (\<lambda>st. st\<lparr>rf_files := AList.delete p (rf_files st)\<rparr>)"

definition rename_temp ::
  "'m refs_config_scheme \<Rightarrow> nat \<Rightarrow> path \<Rightarrow> 's ref_files_scheme \<Rightarrow> ('s, unit) file_call" where
  "rename_temp m n p st =
     (case map_of (rf_temps st) (p, n) of
        None \<Rightarrow> (st, Inl (IoError ''not found''))
      | Some c \<Rightarrow>
          atomic_change m (\<lambda>st. st\<lparr>rf_files := AList.update p c (rf_files st),
                                   rf_temps := AList.delete (p, n) (rf_temps st)\<rparr>) st)"

definition sync_directory :: "'m refs_config_scheme \<Rightarrow> path \<Rightarrow> 's ref_files_scheme \<Rightarrow> ('s, unit) file_call" where
  "sync_directory m p = atomic_change m id"

text \<open>\<^verbatim>\<open>alloc_temp_path\<close> returns the random suffix of the temporary file.\<close>

definition alloc_temp_path :: "'m refs_config_scheme \<Rightarrow> path \<Rightarrow> 's ref_files_scheme \<Rightarrow> ('s, nat) file_call" where
  "alloc_temp_path m p st =
     io_then (create_dir_all m (butlast p) st) (\<lambda>st _. (st, Inr (rc_suffix m (rf_ticks st))))"

definition write_temp ::
  "'m refs_config_scheme \<Rightarrow> bool \<Rightarrow> path \<times> nat \<Rightarrow> string \<Rightarrow> 's ref_files_scheme \<Rightarrow> ('s, unit) file_call" where
  "write_temp m create_new key c st =
     (if create_new \<and> map_of (rf_temps st) key \<noteq> None then (st, Inl (IoError ''exists''))
      else change m (\<lambda>st. st\<lparr>rf_temps := AList.update key c (rf_temps st)\<rparr>) st)"

definition write_string_reconstructible ::
  "'m refs_config_scheme \<Rightarrow> path \<Rightarrow> string \<Rightarrow> 's ref_files_scheme \<Rightarrow> ('s, unit) file_call" where
  "write_string_reconstructible m p c st =
     io_then (alloc_temp_path m p st) (\<lambda>st n.
       let r = io_then (write_temp m True (p, n) c st) (\<lambda>st _. rename_temp m n p st)
       in case r of
            (st, Inr u) \<Rightarrow> (st, Inr u)
          | (st, Inl e) \<Rightarrow>
              (fst (atomic_change m (\<lambda>st. st\<lparr>rf_temps := AList.delete (p, n) (rf_temps st)\<rparr>) st), Inl e))"

section \<open>Identities of names\<close>

definition invalid_data :: "string \<Rightarrow> HeddleError" where "invalid_data m = IoError m"

definition read_name_entry ::
  "'m refs_config_scheme \<Rightarrow> 's ref_files_scheme \<Rightarrow> path \<Rightarrow> path \<Rightarrow> string option outcome" where
  "read_name_entry m st root rel =
     (if \<not> is_digest_name_path rel then Inr (decode_name_path (rc_digest m) rel)
      else and_then (read_ref_string st (root @ rel @ [''name''])) (\<lambda>name.
        if name_path (rc_digest m) name \<noteq> rel
        then Inl (invalid_data ''digest entry name does not match storage path'') else Inr (Some name)))"

definition verify_name_entry ::
  "'m refs_config_scheme \<Rightarrow> 's ref_files_scheme \<Rightarrow> path \<Rightarrow> string \<Rightarrow> unit outcome" where
  "verify_name_entry m st root name =
     (let rel = name_path (rc_digest m) name
      in if is_digest_name_path rel \<and> dir_exists st (root @ rel)
         then and_then (read_name_entry m st root rel) (\<lambda>stored.
           if stored \<noteq> Some name then Inl (invalid_data ''digest entry name does not match requested name'')
           else Inr ())
         else Inr ())"

definition write_name_entry ::
  "'m refs_config_scheme \<Rightarrow> path \<Rightarrow> string \<Rightarrow> 's ref_files_scheme \<Rightarrow> ('s, unit) file_call" where
  "write_name_entry m root name st =
     (let rel = name_path (rc_digest m) name; identity = root @ rel @ [''name'']
      in if \<not> is_digest_name_path rel then (st, Inr ())
         else if file_exists st identity then (st, verify_name_entry m st root name)
         else write_file_atomic m identity name st)"

section \<open>Paths of references\<close>

definition thread_path :: "'m refs_config_scheme \<Rightarrow> 's ref_files_scheme \<Rightarrow> string \<Rightarrow> path outcome" where
  "thread_path m st name =
     and_then (require_user_ref_name (rc_text m) name) (\<lambda>_.
     if from_git_branch (rc_text m) (git_name name) = None
     then Inl (InvalidRefName (''invalid Git ref name: '' @ git_name name))
     else and_then (verify_name_entry m st (threads_dir m) name) (\<lambda>_.
       Inr (threads_dir m @ name_path (rc_digest m) name @ [''value''])))"

definition marker_path :: "'m refs_config_scheme \<Rightarrow> 's ref_files_scheme \<Rightarrow> string \<Rightarrow> path outcome" where
  "marker_path m st name =
     and_then (require_user_ref_name (rc_text m) name) (\<lambda>_.
     if from_git_tag (rc_text m) (git_name name) = None
     then Inl (InvalidRefName (''invalid Git ref name: refs/tags/'' @ git_name name))
     else and_then (verify_name_entry m st (markers_dir m) name) (\<lambda>_.
       Inr (markers_dir m @ name_path (rc_digest m) name @ [''value''])))"

definition remote_dir :: "'m refs_config_scheme \<Rightarrow> 's ref_files_scheme \<Rightarrow> string \<Rightarrow> path outcome" where
  "remote_dir m st remote =
     and_then (require_user_ref_name (rc_text m) remote) (\<lambda>_.
     and_then (verify_name_entry m st (remotes_dir m) remote) (\<lambda>_.
       Inr (remotes_dir m @ name_path (rc_digest m) remote)))"

definition remote_thread_path ::
  "'m refs_config_scheme \<Rightarrow> 's ref_files_scheme \<Rightarrow> string \<Rightarrow> string \<Rightarrow> path outcome" where
  "remote_thread_path m st remote thread =
     and_then (require_user_ref_name (rc_text m) thread) (\<lambda>_.
     if from_git_branch (rc_text m) (git_name thread) = None
     then Inl (InvalidRefName (''invalid Git ref name: '' @ git_name thread))
     else and_then (remote_dir m st remote) (\<lambda>d.
       and_then (verify_name_entry m st d thread) (\<lambda>_.
         Inr (d @ name_path (rc_digest m) thread @ [''value'']))))"

section \<open>Raw values\<close>

definition read_state_id_at ::
  "'m refs_config_scheme \<Rightarrow> 's ref_files_scheme \<Rightarrow> path \<Rightarrow> string \<Rightarrow> string \<Rightarrow> StateId option outcome" where
  "read_state_id_at m st p kind name =
     and_then (read_optional_string st p) (\<lambda>contents.
       case contents of None \<Rightarrow> Inr None
       | Some contents \<Rightarrow>
           (case parse_state_id_text (rc_text m) contents of
              Some i \<Rightarrow> Inr (Some i)
            | None \<Rightarrow> Inl (InvalidObject (''invalid '' @ kind @ '' '' @ name @ '': '' @ trim_str contents))))"

record HeadState =
  hs_head :: Head
  hs_exists :: bool
  hs_raw :: "string option"

definition read_head_state :: "'m refs_config_scheme \<Rightarrow> 's ref_files_scheme \<Rightarrow> HeadState outcome" where
  "read_head_state m st =
     (if \<not> file_exists st (head_path m) then Inr \<lparr>hs_head = Attached ''main'', hs_exists = False, hs_raw = None\<rparr>
      else and_then (read_ref_string st (head_path m)) (\<lambda>contents.
        case head_parse (rc_text m) contents of
          Some head \<Rightarrow> Inr \<lparr>hs_head = head, hs_exists = True, hs_raw = Some contents\<rparr>
        | None \<Rightarrow> Inl (InvalidObject (''invalid HEAD: '' @ strip_ref_line_ending contents))))"

definition packed_load :: "'m refs_config_scheme \<Rightarrow> 's ref_files_scheme \<Rightarrow> PackedRefs outcome" where
  "packed_load m st =
     (if \<not> file_exists st (packed_refs_path m) then Inr packed_new
      else and_then (read_ref_string st (packed_refs_path m)) (\<lambda>c. Inr (packed_parse (rc_text m) c)))"

definition packed_save ::
  "'m refs_config_scheme \<Rightarrow> PackedRefs \<Rightarrow> 's ref_files_scheme \<Rightarrow> ('s, unit) file_call" where
  "packed_save m packed st =
     io_then (create_dir_all m (butlast (packed_refs_path m)) st) (\<lambda>st _.
       write_file_atomic m (packed_refs_path m) (packed_to_text (rc_text m) packed) st)"

definition raw_get_thread :: "'m refs_config_scheme \<Rightarrow> 's ref_files_scheme \<Rightarrow> string \<Rightarrow> StateId option outcome" where
  "raw_get_thread m st name =
     and_then (thread_path m st name) (\<lambda>p.
     and_then (read_state_id_at m st p ''thread'' name) (\<lambda>i.
       case i of Some i \<Rightarrow> Inr (Some i)
       | None \<Rightarrow> and_then (packed_load m st) (\<lambda>packed. Inr (packed_get_thread packed name))))"

definition raw_get_marker :: "'m refs_config_scheme \<Rightarrow> 's ref_files_scheme \<Rightarrow> string \<Rightarrow> StateId option outcome" where
  "raw_get_marker m st name =
     and_then (marker_path m st name) (\<lambda>p.
     and_then (read_state_id_at m st p ''marker'' name) (\<lambda>i.
       case i of Some i \<Rightarrow> Inr (Some i)
       | None \<Rightarrow> and_then (packed_load m st) (\<lambda>packed. Inr (packed_get_marker packed name))))"

definition raw_get_remote_thread ::
  "'m refs_config_scheme \<Rightarrow> 's ref_files_scheme \<Rightarrow> string \<Rightarrow> string \<Rightarrow> StateId option outcome" where
  "raw_get_remote_thread m st remote thread =
     and_then (remote_thread_path m st remote thread) (\<lambda>p.
       read_state_id_at m st p ''remote thread'' (remote @ ''/'' @ thread))"

definition raw_get_undo_recovery :: "'m refs_config_scheme \<Rightarrow> 's ref_files_scheme \<Rightarrow> StateId option outcome" where
  "raw_get_undo_recovery m st =
     read_state_id_at m st (undo_recovery_path m) ''undo recovery'' ''.undo-recovery''"

section \<open>Listings\<close>

text \<open>
  \<^verbatim>\<open>list_refs_recursive\<close>: the terminal \<^verbatim>\<open>entry\<close> directories that are reached through encoding chunks only.
\<close>

definition is_chunk_dir :: "string \<Rightarrow> bool" where
  "is_chunk_dir s \<longleftrightarrow> take 2 s = ''n-'' \<or> take 2 s = ''h-'' \<or> s = ''git''"

definition entry_dirs :: "'s ref_files_scheme \<Rightarrow> path \<Rightarrow> path list" where
  "entry_dirs st dir =
     filter (\<lambda>rel. rel \<noteq> [] \<and> last rel = ''entry'' \<and> list_all is_chunk_dir (butlast rel))
       (map (drop (length dir)) (filter (\<lambda>d. take (length dir) d = dir) (rf_dirs st)))"

definition list_refs_recursive ::
  "'m refs_config_scheme \<Rightarrow> 's ref_files_scheme \<Rightarrow> path \<Rightarrow> string list outcome" where
  "list_refs_recursive m st dir =
     and_then (traverse (read_name_entry m st dir) (entry_dirs st dir)) (\<lambda>names.
       Inr (sort (List.map_filter id names)))"

definition scan_loose ::
  "(string \<Rightarrow> path outcome) \<Rightarrow> 'm refs_config_scheme \<Rightarrow> 's ref_files_scheme \<Rightarrow> string \<Rightarrow> (string \<Rightarrow> string)
    \<Rightarrow> string list outcome \<Rightarrow> (string \<times> StateId) list outcome" where
  "scan_loose path_of m st kind label listed =
     and_then listed (\<lambda>names.
     and_then (traverse (\<lambda>name. and_then (path_of name) (\<lambda>p.
       and_then (read_state_id_at m st p kind (label name)) (\<lambda>i. Inr (map_option (Pair name) i)))) names) (\<lambda>es.
     Inr (List.map_filter id es)))"

definition scan_loose_threads :: "'m refs_config_scheme \<Rightarrow> 's ref_files_scheme \<Rightarrow> (string \<times> StateId) list outcome" where
  "scan_loose_threads m st =
     scan_loose (thread_path m st) m st ''thread'' id (list_refs_recursive m st (threads_dir m))"

definition scan_loose_markers :: "'m refs_config_scheme \<Rightarrow> 's ref_files_scheme \<Rightarrow> (string \<times> StateId) list outcome" where
  "scan_loose_markers m st =
     scan_loose (marker_path m st) m st ''marker'' id (list_refs_recursive m st (markers_dir m))"

definition list_remotes_from_storage :: "'m refs_config_scheme \<Rightarrow> 's ref_files_scheme \<Rightarrow> string list outcome" where
  "list_remotes_from_storage m st =
     (if \<not> dir_exists st (remotes_dir m) then Inr [] else list_refs_recursive m st (remotes_dir m))"

definition list_remote_threads_from_storage ::
  "'m refs_config_scheme \<Rightarrow> 's ref_files_scheme \<Rightarrow> string \<Rightarrow> string list outcome" where
  "list_remote_threads_from_storage m st remote =
     and_then (remote_dir m st remote) (\<lambda>d. list_refs_recursive m st d)"

definition scan_remote_threads ::
  "'m refs_config_scheme \<Rightarrow> 's ref_files_scheme \<Rightarrow> string \<Rightarrow> (string \<times> StateId) list outcome" where
  "scan_remote_threads m st remote =
     scan_loose (remote_thread_path m st remote) m st ''remote thread'' (\<lambda>t. remote @ ''/'' @ t)
       (list_remote_threads_from_storage m st remote)"

text \<open>The loose names and those only packed, in order.\<close>

definition merged_names :: "(string \<times> StateId) list \<Rightarrow> (string \<times> StateId) list \<Rightarrow> string list" where
  "merged_names loose packed =
     sort (map fst loose @ filter (\<lambda>name. map_of loose name = None) (map fst packed))"

definition list_threads_from_storage :: "'m refs_config_scheme \<Rightarrow> 's ref_files_scheme \<Rightarrow> string list outcome" where
  "list_threads_from_storage m st =
     and_then (scan_loose_threads m st) (\<lambda>loose.
     and_then (packed_load m st) (\<lambda>packed. Inr (merged_names loose (pr_threads packed))))"

definition list_markers_from_storage :: "'m refs_config_scheme \<Rightarrow> 's ref_files_scheme \<Rightarrow> string list outcome" where
  "list_markers_from_storage m st =
     and_then (scan_loose_markers m st) (\<lambda>loose.
     and_then (packed_load m st) (\<lambda>packed. Inr (merged_names loose (pr_markers packed))))"

section \<open>The summary on disk\<close>

definition entries_from_storage ::
  "(string \<times> StateId) list \<Rightarrow> (string \<Rightarrow> StateId option) \<Rightarrow> string list \<Rightarrow> RefSummaryEntry list" where
  "entries_from_storage loose packed_get packed_names =
     sort_key se_name
       (map (\<lambda>(name, i). \<lparr>se_name = name, se_state = i,
               se_source = (if packed_get name \<noteq> None then LooseAndPacked else Loose)\<rparr>) loose
        @ List.map_filter (\<lambda>name. case packed_get name of
             Some i \<Rightarrow> if map_of loose name = None
               then Some \<lparr>se_name = name, se_state = i, se_source = Packed\<rparr> else None
           | None \<Rightarrow> None) packed_names)"

definition build_ref_summary_index_from_storage ::
  "'m refs_config_scheme \<Rightarrow> 's ref_files_scheme \<Rightarrow> RefSummaryIndex outcome" where
  "build_ref_summary_index_from_storage m st =
     and_then (scan_loose_threads m st) (\<lambda>loose_threads.
     and_then (scan_loose_markers m st) (\<lambda>loose_markers.
     and_then (packed_load m st) (\<lambda>packed.
     and_then (list_remotes_from_storage m st) (\<lambda>remotes.
     and_then (traverse (\<lambda>name. and_then (scan_remote_threads m st name) (\<lambda>ts.
         Inr \<lparr>rs_name = name, rs_threads = map (\<lambda>(t, i). \<lparr>rt_name = t, rt_state = i\<rparr>) ts\<rparr>)) remotes) (\<lambda>rs.
       Inr \<lparr>si_threads = entries_from_storage loose_threads (packed_get_thread packed) (map fst (pr_threads packed)),
            si_markers = entries_from_storage loose_markers (packed_get_marker packed) (map fst (pr_markers packed)),
            si_remotes = rs\<rparr>)))))"

definition read_ref_summary_index ::
  "'m refs_config_scheme \<Rightarrow> 's ref_files_scheme \<Rightarrow> RefSummaryIndex option outcome" where
  "read_ref_summary_index m st =
     (if \<not> file_exists st (ref_summary_index_path m) then Inr None
      else and_then (read_ref_string st (ref_summary_index_path m)) (\<lambda>c.
        and_then (summary_parse (rc_text m) c) (\<lambda>s. Inr (Some s))))"

definition try_read_ref_summary_index ::
  "'m refs_config_scheme \<Rightarrow> 's ref_files_scheme \<Rightarrow> RefSummaryIndex option" where
  "try_read_ref_summary_index m st = (case read_ref_summary_index m st of Inr s \<Rightarrow> s | Inl _ \<Rightarrow> None)"

definition raw_list_threads :: "'m refs_config_scheme \<Rightarrow> 's ref_files_scheme \<Rightarrow> string list outcome" where
  "raw_list_threads m st =
     (case try_read_ref_summary_index m st of Some s \<Rightarrow> Inr (thread_names s) | None \<Rightarrow> list_threads_from_storage m st)"

definition raw_list_markers :: "'m refs_config_scheme \<Rightarrow> 's ref_files_scheme \<Rightarrow> string list outcome" where
  "raw_list_markers m st =
     (case try_read_ref_summary_index m st of Some s \<Rightarrow> Inr (marker_names s) | None \<Rightarrow> list_markers_from_storage m st)"

definition raw_list_remotes :: "'m refs_config_scheme \<Rightarrow> 's ref_files_scheme \<Rightarrow> string list outcome" where
  "raw_list_remotes m st =
     (case try_read_ref_summary_index m st of Some s \<Rightarrow> Inr (remote_names s) | None \<Rightarrow> list_remotes_from_storage m st)"

definition raw_list_remote_threads ::
  "'m refs_config_scheme \<Rightarrow> 's ref_files_scheme \<Rightarrow> string \<Rightarrow> string list outcome" where
  "raw_list_remote_threads m st remote =
     (case try_read_ref_summary_index m st of
        Some s \<Rightarrow> Inr (remote_thread_names s remote) | None \<Rightarrow> list_remote_threads_from_storage m st remote)"

definition file_len :: "'s ref_files_scheme \<Rightarrow> path \<Rightarrow> nat" where
  "file_len st p = (case map_of (rf_files st) p of Some c \<Rightarrow> length c | None \<Rightarrow> 0)"

definition inspect_ref_summary_index ::
  "'m refs_config_scheme \<Rightarrow> 's ref_files_scheme \<Rightarrow> RefSummaryIndexInspection outcome" where
  "inspect_ref_summary_index m st =
     (let p = ref_summary_index_path m
      in if \<not> file_exists st p then Inr inspection_absent
         else case and_then (read_ref_string st p) (summary_parse (rc_text m)) of
                Inr summary \<Rightarrow> Inr (summary_inspection summary (file_len st p))
              | Inl e \<Rightarrow> Inr (inspection_absent\<lparr>in_present := True, in_bytes := file_len st p, in_error := Some e\<rparr>))"

definition rebuild_ref_summary_index_with_lock ::
  "'m refs_config_scheme \<Rightarrow> 's ref_files_scheme \<Rightarrow> ('s, RefSummaryIndexInspection) file_call" where
  "rebuild_ref_summary_index_with_lock m st =
     io_read st (build_ref_summary_index_from_storage m st) (\<lambda>summary.
     io_then (write_ref_string m (ref_summary_index_path m) (summary_to_text (rc_text m) summary) st) (\<lambda>st _.
       (st, Inr (summary_inspection summary (file_len st (ref_summary_index_path m))))))"

text \<open>The result of removing the sidecar is not looked at.\<close>

definition invalidate_ref_summary_index ::
  "'m refs_config_scheme \<Rightarrow> 's ref_files_scheme \<Rightarrow> 's ref_files_scheme" where
  "invalidate_ref_summary_index m st = fst (remove_file m (ref_summary_index_path m) st)"

definition update_ref_summary_index_with_deltas ::
  "'m refs_config_scheme \<Rightarrow> SummaryDelta list \<Rightarrow> 's ref_files_scheme \<Rightarrow> ('s, unit) file_call" where
  "update_ref_summary_index_with_deltas m deltas st =
     (case read_ref_summary_index m st of
        Inr (Some summary) \<Rightarrow>
          if deltas = [] then (st, Inr ())
          else io_read st (packed_load m st) (\<lambda>packed.
            write_ref_string m (ref_summary_index_path m)
              (summary_to_text (rc_text m) (fold (apply_delta packed) deltas summary)) st)
      | _ \<Rightarrow> io_then (rebuild_ref_summary_index_with_lock m st) (\<lambda>st _. (st, Inr ())))"

definition update_ref_summary_index_with_deltas_reconstructible ::
  "'m refs_config_scheme \<Rightarrow> SummaryDelta list \<Rightarrow> 's ref_files_scheme \<Rightarrow> ('s, unit) file_call" where
  "update_ref_summary_index_with_deltas_reconstructible m deltas st =
     io_read st (case read_ref_summary_index m st of
         Inr (Some summary) \<Rightarrow> Inr summary | _ \<Rightarrow> build_ref_summary_index_from_storage m st) (\<lambda>summary.
     io_read st (if deltas = [] then Inr summary
       else and_then (packed_load m st) (\<lambda>packed. Inr (fold (apply_delta packed) deltas summary))) (\<lambda>summary.
     write_string_reconstructible m (ref_summary_index_path m) (summary_to_text (rc_text m) summary) st))"

section \<open>Set-up and stale temporary files\<close>

definition refs_init :: "'m refs_config_scheme \<Rightarrow> 's ref_files_scheme \<Rightarrow> ('s, unit) file_call" where
  "refs_init m st =
     io_then (create_dir_all m (threads_dir m) st) (\<lambda>st _.
     io_then (create_dir_all m (markers_dir m) st) (\<lambda>st _. create_dir_all m (remotes_dir m) st))"

definition cleanup_stale_temps :: "'m refs_config_scheme \<Rightarrow> 's ref_files_scheme \<Rightarrow> 's ref_files_scheme" where
  "cleanup_stale_temps m st =
     foldl (\<lambda>st key. fst (atomic_change m (\<lambda>st. st\<lparr>rf_temps := AList.delete key (rf_temps st)\<rparr>) st)) st
       (filter (\<lambda>(p, n). butlast p = refs_dir m) (map fst (rf_temps st)))"

end
