(* ===== verification/Refs_Publish.thy ===== *)
theory Refs_Publish
  imports Refs_Files
begin

text \<open>
  Publishing planned reference updates, \<^verbatim>\<open>src/crates/refs/src/refs/refs_transactions.rs\<close>: every new value is
  staged in a temporary file, renamed into place one after another, and what has been applied is rolled back
  when a later step fails; packed values are removed and the summary follows. Packing references is
  \<^verbatim>\<open>RefManager::pack_refs\<close>.
\<close>

section \<open>Plans\<close>

datatype PackedRemove = RemoveThread string | RemoveMarker string

record RefUpdatePlan =
  pl_path :: path
  pl_new_content :: "string option"
  pl_previous_content :: "string option"
  pl_description :: string
  pl_temp :: "nat option"
  pl_packed_remove :: "PackedRemove option"
  pl_summary_delta :: "SummaryDelta option"

datatype RefPublishDurability = Durable | Reconstructible

definition thread_summary_delta :: "string \<Rightarrow> StateId option \<Rightarrow> SummaryDelta" where
  "thread_summary_delta name new = (case new of Some i \<Rightarrow> SetThread name i | None \<Rightarrow> DeleteThread name)"

definition marker_summary_delta :: "string \<Rightarrow> StateId option \<Rightarrow> SummaryDelta" where
  "marker_summary_delta name new = (case new of Some i \<Rightarrow> SetMarker name i | None \<Rightarrow> DeleteMarker name)"

section \<open>Staging\<close>

definition write_identity ::
  "'m refs_config_scheme \<Rightarrow> SummaryDelta option \<Rightarrow> 's ref_files_scheme \<Rightarrow> ('s, unit) file_call" where
  "write_identity m delta st =
     (case delta of
        Some (SetThread name i) \<Rightarrow> write_name_entry m (threads_dir m) name st
      | Some (SetMarker name i) \<Rightarrow> write_name_entry m (markers_dir m) name st
      | Some (SetRemoteThread remote name i) \<Rightarrow>
          io_then (write_name_entry m (remotes_dir m) remote st) (\<lambda>st _.
          io_read st (remote_dir m st remote) (\<lambda>d. write_name_entry m d name st))
      | _ \<Rightarrow> (st, Inr ()))"

text \<open>The plan with its temporary file allocated; a deletion needs none.\<close>

definition stage_plan ::
  "'m refs_config_scheme \<Rightarrow> RefUpdatePlan \<Rightarrow> 's ref_files_scheme \<Rightarrow> ('s, RefUpdatePlan) file_call" where
  "stage_plan m plan st =
     (case pl_new_content plan of
        None \<Rightarrow> (st, Inr plan)
      | Some content \<Rightarrow>
          io_then (write_identity m (pl_summary_delta plan) st) (\<lambda>st _.
          io_then (create_dir_all m (butlast (pl_path plan)) st) (\<lambda>st _.
          io_then (alloc_temp_path m (pl_path plan) st) (\<lambda>st n. (st, Inr (plan\<lparr>pl_temp := Some n\<rparr>))))))"

fun stage_plans ::
  "'m refs_config_scheme \<Rightarrow> RefUpdatePlan list \<Rightarrow> 's ref_files_scheme \<Rightarrow> ('s, RefUpdatePlan list) file_call" where
  "stage_plans m [] st = (st, Inr [])"
| "stage_plans m (plan # plans) st =
     io_then (stage_plan m plan st) (\<lambda>st plan'.
     io_then (stage_plans m plans st) (\<lambda>st plans'. (st, Inr (plan' # plans'))))"

definition temp_writes :: "RefUpdatePlan list \<Rightarrow> ((path \<times> nat) \<times> string) list" where
  "temp_writes plans =
     List.map_filter (\<lambda>plan. case (pl_temp plan, pl_new_content plan) of
         (Some n, Some content) \<Rightarrow> Some ((pl_path plan, n), content) | _ \<Rightarrow> None) plans"

definition stage_temp_files ::
  "'m refs_config_scheme \<Rightarrow> RefPublishDurability \<Rightarrow> RefUpdatePlan list \<Rightarrow> 's ref_files_scheme \<Rightarrow> ('s, unit) file_call" where
  "stage_temp_files m durability plans =
     for_each (\<lambda>st (key, content). write_temp m (durability = Reconstructible) key content st) (temp_writes plans)"

section \<open>Applying and rolling back\<close>

definition apply_plan ::
  "'m refs_config_scheme \<Rightarrow> RefUpdatePlan \<Rightarrow> 's ref_files_scheme \<Rightarrow> ('s, unit) file_call" where
  "apply_plan m plan st =
     (case pl_temp plan of
        Some n \<Rightarrow> rename_temp m n (pl_path plan) st
      | None \<Rightarrow> if file_exists st (pl_path plan) then remove_file m (pl_path plan) st else (st, Inr ()))"

definition restore_plan ::
  "'m refs_config_scheme \<Rightarrow> 's ref_files_scheme \<Rightarrow> RefUpdatePlan \<Rightarrow> ('s, unit) file_call" where
  "restore_plan m st plan =
     (case pl_previous_content plan of
        Some previous \<Rightarrow> write_ref_string m (pl_path plan) previous st
      | None \<Rightarrow> if file_exists st (pl_path plan) then remove_file m (pl_path plan) st else (st, Inr ()))"

text \<open>\<open>applied\<close> are the plans that were applied, in their order.\<close>

definition rollback_updates ::
  "'m refs_config_scheme \<Rightarrow> RefUpdatePlan list \<Rightarrow> string option \<Rightarrow> 's ref_files_scheme \<Rightarrow> ('s, unit) file_call" where
  "rollback_updates m applied packed_snapshot st =
     io_then (for_each (restore_plan m) (rev applied) st) (\<lambda>st _.
       case packed_snapshot of
         Some snapshot \<Rightarrow> write_ref_string m (packed_refs_path m) snapshot st
       | None \<Rightarrow>
           if file_exists st (packed_refs_path m) then remove_file m (packed_refs_path m) st else (st, Inr ()))"

definition rollback_or ::
  "'m refs_config_scheme \<Rightarrow> RefUpdatePlan list \<Rightarrow> string option \<Rightarrow> string \<Rightarrow> HeddleError
    \<Rightarrow> 's ref_files_scheme \<Rightarrow> ('s, 'a) file_call" where
  "rollback_or m applied packed_snapshot what err st =
     (case rollback_updates m applied packed_snapshot st of
        (st, Inr _) \<Rightarrow> (st, Inl err)
      | (st, Inl _) \<Rightarrow> (st, Inl (Conflict (what @ ''; rollback failed''))))"

fun apply_plans ::
  "'m refs_config_scheme \<Rightarrow> string option \<Rightarrow> RefUpdatePlan list \<Rightarrow> RefUpdatePlan list
    \<Rightarrow> 's ref_files_scheme \<Rightarrow> ('s, unit) file_call" where
  "apply_plans m snapshot applied [] st = (st, Inr ())"
| "apply_plans m snapshot applied (plan # plans) st =
     (case apply_plan m plan st of
        (st, Inr _) \<Rightarrow> apply_plans m snapshot (applied @ [plan]) plans st
      | (st, Inl err) \<Rightarrow>
          rollback_or m applied snapshot (''refs update failed for '' @ pl_description plan) err st)"

definition dirty_parents :: "RefUpdatePlan list \<Rightarrow> path list" where
  "dirty_parents plans =
     fold List.insert (map (butlast \<circ> pl_path) (filter (\<lambda>p. pl_temp p \<noteq> None) plans)) []"

fun remove_packed :: "PackedRemove \<Rightarrow> PackedRefs \<Rightarrow> PackedRefs" where
  "remove_packed (RemoveThread name) p = packed_remove_track name p"
| "remove_packed (RemoveMarker name) p = packed_remove_marker name p"

definition apply_packed_removals ::
  "'m refs_config_scheme \<Rightarrow> RefUpdatePlan list \<Rightarrow> 's ref_files_scheme \<Rightarrow> ('s, unit) file_call" where
  "apply_packed_removals m plans st =
     (let removals = List.map_filter pl_packed_remove plans
      in if removals = [] \<or> \<not> file_exists st (packed_refs_path m) then (st, Inr ())
         else io_read st (packed_load m st) (\<lambda>packed. packed_save m (fold remove_packed removals packed) st))"

section \<open>Publishing\<close>

definition publish_ref_plans_with_durability ::
  "'m refs_config_scheme \<Rightarrow> RefPublishDurability \<Rightarrow> RefUpdatePlan list \<Rightarrow> 's ref_files_scheme \<Rightarrow> ('s, unit) file_call" where
  "publish_ref_plans_with_durability m durability plans st =
     io_then (stage_plans m plans st) (\<lambda>st plans.
     io_then (stage_temp_files m durability plans st) (\<lambda>st _.
     io_read st (read_optional_string st (packed_refs_path m)) (\<lambda>snapshot.
     io_then (apply_plans m snapshot [] plans st) (\<lambda>st _.
     io_then (if durability = Durable
              then for_each (\<lambda>st p. sync_directory m p st) (dirty_parents plans) st else (st, Inr ())) (\<lambda>st _.
       case apply_packed_removals m plans st of
         (st, Inl err) \<Rightarrow> rollback_or m plans snapshot ''packed refs update failed'' err st
       | (st, Inr _) \<Rightarrow>
           let deltas = List.map_filter pl_summary_delta plans
           in case (if durability = Durable then update_ref_summary_index_with_deltas m deltas st
                    else update_ref_summary_index_with_deltas_reconstructible m deltas st) of
                (st, Inl _) \<Rightarrow> (invalidate_ref_summary_index m st, Inr ())
              | (st, Inr _) \<Rightarrow> (st, Inr ()))))))"

definition publish_ref_plans ::
  "'m refs_config_scheme \<Rightarrow> RefUpdatePlan list \<Rightarrow> 's ref_files_scheme \<Rightarrow> ('s, unit) file_call" where
  "publish_ref_plans m = publish_ref_plans_with_durability m Durable"

definition publish_ref_plans_reconstructible ::
  "'m refs_config_scheme \<Rightarrow> RefUpdatePlan list \<Rightarrow> 's ref_files_scheme \<Rightarrow> ('s, unit) file_call" where
  "publish_ref_plans_reconstructible m = publish_ref_plans_with_durability m Reconstructible"

text \<open>The summary is rebuilt, or removed when that fails.\<close>

definition refresh_summary :: "'m refs_config_scheme \<Rightarrow> 's ref_files_scheme \<Rightarrow> 's ref_files_scheme" where
  "refresh_summary m st =
     (case rebuild_ref_summary_index_with_lock m st of
        (st, Inr _) \<Rightarrow> st | (st, Inl _) \<Rightarrow> invalidate_ref_summary_index m st)"

section \<open>Single references outside a batch\<close>

definition set_undo_recovery_locked ::
  "'m refs_config_scheme \<Rightarrow> StateId \<Rightarrow> 's ref_files_scheme \<Rightarrow> ('s, unit) file_call" where
  "set_undo_recovery_locked m state st =
     write_ref_string m (undo_recovery_path m) (format_state_id_text (rc_text m) state) st"

definition clear_undo_recovery_locked ::
  "'m refs_config_scheme \<Rightarrow> 's ref_files_scheme \<Rightarrow> ('s, unit) file_call" where
  "clear_undo_recovery_locked m st =
     (if file_exists st (undo_recovery_path m) then remove_file m (undo_recovery_path m) st else (st, Inr ()))"

definition set_remote_thread_locked ::
  "'m refs_config_scheme \<Rightarrow> string \<Rightarrow> string \<Rightarrow> StateId \<Rightarrow> 's ref_files_scheme \<Rightarrow> ('s, unit) file_call" where
  "set_remote_thread_locked m remote thread state st =
     io_read st (remote_thread_path m st remote thread) (\<lambda>p.
     io_then (write_name_entry m (remotes_dir m) remote st) (\<lambda>st _.
     io_read st (remote_dir m st remote) (\<lambda>d.
     io_then (write_name_entry m d thread st) (\<lambda>st _.
     io_then (create_dir_all m (butlast p) st) (\<lambda>st _.
     io_then (write_ref_string m p (format_state_id_text (rc_text m) state) st) (\<lambda>st _.
       (refresh_summary m st, Inr ())))))))"

definition delete_remote_thread_locked ::
  "'m refs_config_scheme \<Rightarrow> string \<Rightarrow> string \<Rightarrow> 's ref_files_scheme \<Rightarrow> ('s, StateId option) file_call" where
  "delete_remote_thread_locked m remote thread st =
     io_read st (raw_get_remote_thread m st remote thread) (\<lambda>state.
     io_then (if state \<noteq> None
              then io_read st (remote_thread_path m st remote thread) (\<lambda>p.
                     if file_exists st p then remove_file m p st else (st, Inr ()))
              else (st, Inr ())) (\<lambda>st _.
       (refresh_summary m st, Inr state)))"

section \<open>Packing\<close>

text \<open>\<^verbatim>\<open>lock_refs\<close> makes the directory; the lock is free in a single process.\<close>

definition lock_refs :: "'m refs_config_scheme \<Rightarrow> 's ref_files_scheme \<Rightarrow> ('s, unit) file_call" where
  "lock_refs m st = create_dir_all m (refs_dir m) st"

definition pack_loose ::
  "(string \<Rightarrow> path outcome) \<Rightarrow> (string \<Rightarrow> StateId \<Rightarrow> PackedRefs \<Rightarrow> PackedRefs) \<Rightarrow> 'm refs_config_scheme
    \<Rightarrow> 's ref_files_scheme \<Rightarrow> string \<Rightarrow> string list \<Rightarrow> PackedRefs \<Rightarrow> PackedRefs outcome" where
  "pack_loose path_of set_ref m st kind names packed =
     and_then (traverse (\<lambda>name. and_then (path_of name) (\<lambda>p.
       and_then (read_state_id_at m st p kind name) (\<lambda>i. Inr (map_option (Pair name) i)))) names) (\<lambda>es.
     Inr (fold (\<lambda>(name, i). set_ref name i) (List.map_filter id es) packed))"

definition remove_loose ::
  "('s ref_files_scheme \<Rightarrow> string \<Rightarrow> path outcome) \<Rightarrow> 'm refs_config_scheme \<Rightarrow> string list
    \<Rightarrow> 's ref_files_scheme \<Rightarrow> ('s, unit) file_call" where
  "remove_loose path_of m =
     for_each (\<lambda>st name. io_read st (path_of st name) (\<lambda>p.
       if file_exists st p then remove_file m p st else (st, Inr ())))"

definition pack_refs :: "'m refs_config_scheme \<Rightarrow> 's ref_files_scheme \<Rightarrow> ('s, unit) file_call" where
  "pack_refs m st =
     io_then (lock_refs m st) (\<lambda>st _.
     io_read st (packed_load m st) (\<lambda>packed.
     io_read st (list_threads_from_storage m st) (\<lambda>threads.
     io_read st (pack_loose (thread_path m st) packed_set_thread m st ''thread'' threads packed) (\<lambda>packed.
     io_read st (list_markers_from_storage m st) (\<lambda>markers.
     io_read st (pack_loose (marker_path m st) packed_set_marker m st ''marker'' markers packed) (\<lambda>packed.
     io_then
       (if packed_is_empty packed then (st, Inr ())
        else
          io_then (packed_save m packed st) (\<lambda>st _.
          io_then (sync_directory m (refs_dir m) st) (\<lambda>st _.
          io_then (remove_loose (thread_path m) m threads st) (\<lambda>st _.
                   remove_loose (marker_path m) m markers st)))) (\<lambda>st _.
       (refresh_summary m st, Inr ()))))))))"

end
