(* ===== verification/Refs_Manager.thy ===== *)
theory Refs_Manager
  imports Refs_Publish
begin

text \<open>
  The reference manager, \<^verbatim>\<open>src/crates/refs/src/refs/refs_manager.rs\<close>, \<^verbatim>\<open>reconcile.rs\<close>, \<^verbatim>\<open>resolve.rs\<close> and the
  planning of \<^verbatim>\<open>refs_transactions.rs\<close>: every read first catches up with the committed operation log, every write
  first publishes what the log has committed, then validates its expectations, commits its records and
  publishes. How far the references follow the log is remembered in two watermarks, one for the references of
  the checkout and one for the shared ones.

  The log is behind two interfaces, as in the source: a reconciler that reads it and a committer that appends.
\<close>

section \<open>Interfaces\<close>

datatype RefClass = LocalClass | SharedClass

datatype LoadRequest =
  LoadHead
| LoadThread string
| LoadMarker string
| LoadUndoRecovery
| LoadRemoteThread string string
| LoadThreadList
| LoadMarkerList
| LoadRemoteList
| LoadRemoteThreadList string

fun ref_class :: "LoadRequest \<Rightarrow> RefClass" where
  "ref_class LoadHead = LocalClass"
| "ref_class LoadUndoRecovery = LocalClass"
| "ref_class _ = SharedClass"

datatype Loaded =
  LoadedHead Head
| LoadedPoint "StateId option"
| LoadedThreadList "string list"
| LoadedMarkerList "string list"
| LoadedRemoteList "string list"
| LoadedRemoteThreadList "string list"

record ReconcileOutcome =
  oc_loaded :: Loaded
  oc_republish :: "RefUpdate list"
  oc_remote_updates :: "(string \<times> string \<times> StateId option) list"
  oc_undo_recovery :: "StateId option"

text \<open>
  The reconciler works on the world \<open>'o\<close> of the log, and lists the threads of a remote through a bare manager
  over the same directory, which is its second argument.
\<close>

record 'o RefReconciler =
  rr_generation :: "'o \<Rightarrow> 'o \<times> nat outcome"
  rr_reconcile :: "LoadRequest \<Rightarrow> (string \<Rightarrow> string list outcome) \<Rightarrow> Loaded \<Rightarrow> nat \<Rightarrow> 'o \<Rightarrow> 'o \<times> ReconcileOutcome outcome"

type_synonym 'o RefCommitter = "OpRecord list \<Rightarrow> string option \<Rightarrow> 'o \<Rightarrow> 'o \<times> unit outcome"

record 'o RefManager = refs_config +
  rm_reconciler :: "'o RefReconciler option"
  rm_committer :: "'o RefCommitter option"

record 'o ref_store = ref_files +
  cached_local_generation :: nat
  cached_shared_generation :: nat
  rf_log :: 'o

type_synonym ('o, 'a) ref_call = "'o ref_store \<times> 'a outcome"

definition on_log :: "('o \<Rightarrow> 'o \<times> 'a outcome) \<Rightarrow> 'o ref_store \<Rightarrow> ('o, 'a) ref_call" where
  "on_log f st = (let (o', r) = f (rf_log st) in (st\<lparr>rf_log := o'\<rparr>, r))"

section \<open>Watermarks\<close>

definition WATERMARK_UNSET :: nat where "WATERMARK_UNSET = 2 ^ 64 - 1"

definition is_unset :: "nat \<Rightarrow> bool" where "is_unset n \<longleftrightarrow> n = WATERMARK_UNSET"

lemma is_unset_code [code]: "is_unset n \<longleftrightarrow> int n = 18446744073709551615"
  by (auto simp: is_unset_def WATERMARK_UNSET_def)

definition watermark_covers :: "nat \<Rightarrow> nat \<Rightarrow> bool" where
  "watermark_covers cached tip \<longleftrightarrow> \<not> is_unset cached \<and> cached \<ge> tip"

fun class_watermark :: "RefClass \<Rightarrow> 'o ref_store \<Rightarrow> nat" where
  "class_watermark LocalClass st = cached_local_generation st"
| "class_watermark SharedClass st = cached_shared_generation st"

fun store_watermark :: "RefClass \<Rightarrow> nat \<Rightarrow> 'o ref_store \<Rightarrow> 'o ref_store" where
  "store_watermark LocalClass n st = st\<lparr>cached_local_generation := n\<rparr>"
| "store_watermark SharedClass n st = st\<lparr>cached_shared_generation := n\<rparr>"

text \<open>A new handle: nothing is known to be reconciled; with a reconciler the current generation is trusted.\<close>

definition new_handle :: "'s ref_files_scheme \<Rightarrow> 'o \<Rightarrow> 'o ref_store" where
  "new_handle fs log =
     \<lparr>rf_files = rf_files fs, rf_dirs = rf_dirs fs, rf_temps = rf_temps fs, rf_ticks = rf_ticks fs,
      cached_local_generation = WATERMARK_UNSET, cached_shared_generation = WATERMARK_UNSET, rf_log = log\<rparr>"

definition with_reconciler :: "'o RefReconciler \<Rightarrow> 'o ref_store \<Rightarrow> 'o ref_store" where
  "with_reconciler r st =
     (case on_log (rr_generation r) st of
        (st, g) \<Rightarrow>
          let generation = (case g of Inr n \<Rightarrow> n | Inl _ \<Rightarrow> WATERMARK_UNSET)
          in st\<lparr>cached_local_generation := generation, cached_shared_generation := generation\<rparr>)"

definition reconcile_watermark_local_path :: "'m refs_config_scheme \<Rightarrow> path" where
  "reconcile_watermark_local_path m = butlast (head_path m) @ [''RECONCILE_WATERMARK_LOCAL'']"

definition reconcile_watermark_shared_path :: "'m refs_config_scheme \<Rightarrow> path" where
  "reconcile_watermark_shared_path m = rc_root m @ [''RECONCILE_WATERMARK_SHARED'']"

definition snapshot_witness_local_path :: "'m refs_config_scheme \<Rightarrow> path" where
  "snapshot_witness_local_path m = butlast (head_path m) @ [''SNAPSHOT_WITNESS_LOCAL'']"

definition snapshot_witness_shared_path :: "'m refs_config_scheme \<Rightarrow> path" where
  "snapshot_witness_shared_path m = rc_root m @ [''SNAPSHOT_WITNESS_SHARED'']"

text \<open>\<^verbatim>\<open>split_whitespace().next()\<close>\<close>

fun until_space :: "string \<Rightarrow> string" where
  "until_space [] = []"
| "until_space (c # s) =
     (if find (\<lambda>w. strip_prefix w (c # s) \<noteq> None) white_space \<noteq> None then [] else c # until_space s)"

definition first_word :: "string \<Rightarrow> string option" where
  "first_word s = (let w = until_space (trim_with white_space s) in if w = [] then None else Some w)"

definition read_single_watermark :: "'s ref_files_scheme \<Rightarrow> path \<Rightarrow> nat option outcome" where
  "read_single_watermark st p =
     and_then (read_optional_string st p) (\<lambda>contents.
       case contents of None \<Rightarrow> Inr None
       | Some c \<Rightarrow> Inr (case first_word c of None \<Rightarrow> None | Some w \<Rightarrow> parse_uint (2 ^ 64 - 1) w))"

definition persist_watermark_file ::
  "'m refs_config_scheme \<Rightarrow> path \<Rightarrow> nat \<Rightarrow> 's ref_files_scheme \<Rightarrow> ('s, unit) file_call" where
  "persist_watermark_file m p v st =
     (if is_unset v then (st, Inr ())
      else io_read st (read_single_watermark st p) (\<lambda>on_disk.
        let next = max v (case on_disk of Some n \<Rightarrow> n | None \<Rightarrow> 0)
        in write_ref_string m p (dec_digits next @ [CHR 0x0A]) st))"

definition persist_reconcile_watermark :: "'m refs_config_scheme \<Rightarrow> 'o ref_store \<Rightarrow> ('o, unit) ref_call" where
  "persist_reconcile_watermark m st =
     (let local = cached_local_generation st; shared = cached_shared_generation st
      in io_then (persist_watermark_file m (reconcile_watermark_local_path m) local st) (\<lambda>st _.
           persist_watermark_file m (reconcile_watermark_shared_path m) shared st))"

fun class_watermark_path :: "'m refs_config_scheme \<Rightarrow> RefClass \<Rightarrow> path" where
  "class_watermark_path m LocalClass = reconcile_watermark_local_path m"
| "class_watermark_path m SharedClass = reconcile_watermark_shared_path m"

definition refresh_persisted_watermark ::
  "'m refs_config_scheme \<Rightarrow> RefClass \<Rightarrow> 'o ref_store \<Rightarrow> ('o, unit) ref_call" where
  "refresh_persisted_watermark m class st =
     io_read st (read_single_watermark st (class_watermark_path m class)) (\<lambda>persisted.
       case persisted of None \<Rightarrow> (st, Inr ())
       | Some persisted \<Rightarrow>
           let cached = class_watermark class st;
               next = (if is_unset cached then persisted else max cached persisted)
           in (store_watermark class next st, Inr ()))"

definition read_persisted_reconcile_watermark ::
  "'m refs_config_scheme \<Rightarrow> 's ref_files_scheme \<Rightarrow> (nat option \<times> nat option) outcome" where
  "read_persisted_reconcile_watermark m st =
     and_then (read_single_watermark st (reconcile_watermark_local_path m)) (\<lambda>local.
     and_then (read_single_watermark st (reconcile_watermark_shared_path m)) (\<lambda>shared. Inr (local, shared)))"

definition init_reconcile_watermark :: "'o RefManager \<Rightarrow> 'o ref_store \<Rightarrow> ('o, unit) ref_call" where
  "init_reconcile_watermark m st =
     (if rm_reconciler m = None then (st, Inr ())
      else io_read st (read_persisted_reconcile_watermark m st) (\<lambda>(local, shared).
        let st = (case local of Some n \<Rightarrow> st\<lparr>cached_local_generation := n\<rparr> | None \<Rightarrow> st);
            st = (case shared of Some n \<Rightarrow> st\<lparr>cached_shared_generation := n\<rparr> | None \<Rightarrow> st)
        in if local = None \<or> shared = None
           then io_then (lock_refs m st) (\<lambda>st _. persist_reconcile_watermark m st)
           else (st, Inr ())))"

section \<open>Raw reads\<close>

definition raw_load :: "'m refs_config_scheme \<Rightarrow> 's ref_files_scheme \<Rightarrow> LoadRequest \<Rightarrow> Loaded outcome" where
  "raw_load m st req =
     (case req of
        LoadHead \<Rightarrow> and_then (read_head_state m st) (\<lambda>h. Inr (LoadedHead (hs_head h)))
      | LoadThread name \<Rightarrow> and_then (raw_get_thread m st name) (\<lambda>i. Inr (LoadedPoint i))
      | LoadMarker name \<Rightarrow> and_then (raw_get_marker m st name) (\<lambda>i. Inr (LoadedPoint i))
      | LoadUndoRecovery \<Rightarrow> and_then (raw_get_undo_recovery m st) (\<lambda>i. Inr (LoadedPoint i))
      | LoadRemoteThread remote thread \<Rightarrow>
          and_then (raw_get_remote_thread m st remote thread) (\<lambda>i. Inr (LoadedPoint i))
      | LoadThreadList \<Rightarrow> and_then (raw_list_threads m st) (\<lambda>l. Inr (LoadedThreadList l))
      | LoadMarkerList \<Rightarrow> and_then (raw_list_markers m st) (\<lambda>l. Inr (LoadedMarkerList l))
      | LoadRemoteList \<Rightarrow> and_then (raw_list_remotes m st) (\<lambda>l. Inr (LoadedRemoteList l))
      | LoadRemoteThreadList remote \<Rightarrow>
          and_then (raw_list_remote_threads m st remote) (\<lambda>l. Inr (LoadedRemoteThreadList l)))"

text \<open>The variant of a loaded value follows the request; the other arms of the source are \<^verbatim>\<open>unreachable!\<close>.\<close>

definition unreachable :: HeddleError where "unreachable = Config ''unreachable''"

fun as_point :: "Loaded \<Rightarrow> StateId option outcome" where
  "as_point (LoadedPoint i) = Inr i"
| "as_point _ = Inl unreachable"

fun as_head :: "Loaded \<Rightarrow> Head outcome" where
  "as_head (LoadedHead h) = Inr h"
| "as_head _ = Inl unreachable"

fun as_thread_list :: "Loaded \<Rightarrow> string list outcome" where
  "as_thread_list (LoadedThreadList l) = Inr l"
| "as_thread_list _ = Inl unreachable"

fun as_marker_list :: "Loaded \<Rightarrow> string list outcome" where
  "as_marker_list (LoadedMarkerList l) = Inr l"
| "as_marker_list _ = Inl unreachable"

fun as_remote_list :: "Loaded \<Rightarrow> string list outcome" where
  "as_remote_list (LoadedRemoteList l) = Inr l"
| "as_remote_list _ = Inl unreachable"

fun as_remote_thread_list :: "Loaded \<Rightarrow> string list outcome" where
  "as_remote_thread_list (LoadedRemoteThreadList l) = Inr l"
| "as_remote_thread_list _ = Inl unreachable"

definition run_reconcile ::
  "'m refs_config_scheme \<Rightarrow> 'o RefReconciler \<Rightarrow> LoadRequest \<Rightarrow> Loaded \<Rightarrow> nat \<Rightarrow> 'o ref_store
    \<Rightarrow> ('o, ReconcileOutcome) ref_call" where
  "run_reconcile m r req raw since st = on_log (rr_reconcile r req (raw_list_remote_threads m st) raw since) st"

definition since_of :: "nat \<Rightarrow> nat" where
  "since_of cached = (if is_unset cached then 0 else cached)"

definition reconciled_value_under_lock ::
  "'o RefManager \<Rightarrow> LoadRequest \<Rightarrow> 'o ref_store \<Rightarrow> ('o, Loaded) ref_call" where
  "reconciled_value_under_lock m req st =
     io_read st (raw_load m st req) (\<lambda>raw.
       case rm_reconciler m of None \<Rightarrow> (st, Inr raw)
       | Some r \<Rightarrow>
           io_then (on_log (rr_generation r) st) (\<lambda>st tip.
             let cached = class_watermark (ref_class req) st
             in if watermark_covers cached tip then (st, Inr raw)
                else io_then (run_reconcile m r req raw (since_of cached) st) (\<lambda>st outcome.
                  (st, Inr (oc_loaded outcome)))))"

section \<open>Planning an update\<close>

definition read_track_with_packed_fallback ::
  "'m refs_config_scheme \<Rightarrow> 's ref_files_scheme \<Rightarrow> string \<Rightarrow> (path \<times> StateId option \<times> string option) outcome" where
  "read_track_with_packed_fallback m st name =
     and_then (thread_path m st name) (\<lambda>p.
     and_then (read_optional_string st p) (\<lambda>raw.
       case raw of
         Some contents \<Rightarrow>
           (case parse_state_id_text (rc_text m) contents of
              Some i \<Rightarrow> Inr (p, Some i, raw)
            | None \<Rightarrow> Inl (InvalidObject (''invalid thread '' @ name @ '': '' @ trim_str contents)))
       | None \<Rightarrow> and_then (packed_load m st) (\<lambda>packed.
           let i = packed_get_thread packed name in Inr (p, i, map_option (format_state_id_text (rc_text m)) i))))"

definition read_marker_with_packed_fallback ::
  "'m refs_config_scheme \<Rightarrow> 's ref_files_scheme \<Rightarrow> path \<Rightarrow> string \<Rightarrow> (StateId option \<times> string option) outcome" where
  "read_marker_with_packed_fallback m st p name =
     and_then (read_optional_string st p) (\<lambda>raw.
       case raw of
         Some contents \<Rightarrow>
           (case parse_state_id_text (rc_text m) contents of
              Some i \<Rightarrow> Inr (Some i, raw)
            | None \<Rightarrow> Inl (InvalidObject (''invalid marker '' @ name @ '': '' @ trim_str contents)))
       | None \<Rightarrow> and_then (packed_load m st) (\<lambda>packed.
           let i = packed_get_marker packed name in Inr (i, map_option (format_state_id_text (rc_text m)) i)))"

definition point_plan ::
  "text_lib \<Rightarrow> path \<Rightarrow> string \<Rightarrow> StateId option \<Rightarrow> string option \<Rightarrow> PackedRemove option \<Rightarrow> SummaryDelta \<Rightarrow> RefUpdatePlan" where
  "point_plan E p description new previous packed_remove delta =
     \<lparr>pl_path = p, pl_new_content = map_option (format_state_id_text E) new, pl_previous_content = previous,
      pl_description = description, pl_temp = None, pl_packed_remove = packed_remove, pl_summary_delta = Some delta\<rparr>"

definition head_plan :: "'m refs_config_scheme \<Rightarrow> Head \<Rightarrow> string option \<Rightarrow> RefUpdatePlan" where
  "head_plan m new previous =
     \<lparr>pl_path = head_path m, pl_new_content = Some (head_to_text (rc_text m) new), pl_previous_content = previous,
      pl_description = ''HEAD'', pl_temp = None, pl_packed_remove = None, pl_summary_delta = None\<rparr>"

definition remote_summary_delta :: "string \<Rightarrow> string \<Rightarrow> StateId option \<Rightarrow> SummaryDelta" where
  "remote_summary_delta remote thread new =
     (case new of Some i \<Rightarrow> SetRemoteThread remote thread i | None \<Rightarrow> DeleteRemoteThread remote thread)"

definition removal_if_present :: "('a \<Rightarrow> PackedRemove) \<Rightarrow> 'a \<Rightarrow> StateId option \<Rightarrow> StateId option \<Rightarrow> PackedRemove option" where
  "removal_if_present remove name new current =
     (if new = None \<and> current \<noteq> None then Some (remove name) else None)"

text \<open>The validation the three kinds of points share: the reconciled value against the expectation.\<close>

definition validated_point ::
  "'o RefManager \<Rightarrow> LoadRequest \<Rightarrow> string \<Rightarrow> StateId RefExpectation \<Rightarrow> (StateId option \<Rightarrow> RefUpdatePlan)
    \<Rightarrow> 'o ref_store \<Rightarrow> ('o, RefUpdatePlan) ref_call" where
  "validated_point m req label expected plan st =
     io_then (reconciled_value_under_lock m req st) (\<lambda>st loaded.
     io_read st (as_point loaded) (\<lambda>current.
       if \<not> matches_expectation expected current (current \<noteq> None)
       then (st, Inl (Conflict (label @ '' expected '' @ describe_expectation (to_string_full (rc_text m)) expected
               @ '', found '' @ describe_state_id (rc_text m) current)))
       else (st, Inr (plan current))))"

definition duplicate :: "string \<Rightarrow> HeddleError" where
  "duplicate label = Conflict (''duplicate ref update for '' @ label)"

definition thread_label :: "string \<Rightarrow> string" where "thread_label name = ''thread '' @ name"
definition marker_label :: "string \<Rightarrow> string" where "marker_label name = ''marker '' @ name"
definition remote_label :: "string \<Rightarrow> string \<Rightarrow> string" where
  "remote_label remote thread = ''remote thread '' @ remote @ ''/'' @ thread"

text \<open>One iteration of \<^verbatim>\<open>plan_ref_updates\<close>, with the paths seen so far.\<close>

fun plan_ref_update ::
  "'o RefManager \<Rightarrow> path list \<Rightarrow> RefUpdate \<Rightarrow> 'o ref_store \<Rightarrow> ('o, path list \<times> RefUpdatePlan) ref_call" where
  "plan_ref_update m seen (UpdateThread name expected new) st =
     io_read st (read_track_with_packed_fallback m st name) (\<lambda>(p, raw_current, raw_prev).
       if p \<in> set seen then (st, Inl (duplicate (thread_label name)))
       else io_then (validated_point m (LoadThread name) (thread_label name) expected (\<lambda>current.
              point_plan (rc_text m) p (thread_label name) new (map_option (format_state_id_text (rc_text m)) current)
                (removal_if_present RemoveThread name new current) (thread_summary_delta name new)) st) (\<lambda>st plan.
              (st, Inr (p # seen, plan))))"
| "plan_ref_update m seen (UpdateMarker name expected new) st =
     io_read st (marker_path m st name) (\<lambda>p.
       if p \<in> set seen then (st, Inl (duplicate (marker_label name)))
       else io_then (validated_point m (LoadMarker name) (marker_label name) expected (\<lambda>current.
              point_plan (rc_text m) p (marker_label name) new (map_option (format_state_id_text (rc_text m)) current)
                (removal_if_present RemoveMarker name new current) (marker_summary_delta name new)) st) (\<lambda>st plan.
              (st, Inr (p # seen, plan))))"
| "plan_ref_update m seen (UpdateHead expected new) st =
     io_read st (read_head_state m st) (\<lambda>raw_state.
     io_then (reconciled_value_under_lock m LoadHead st) (\<lambda>st loaded.
     io_read st (as_head loaded) (\<lambda>reconciled.
       let present = (hs_exists raw_state \<or> reconciled \<noteq> hs_head raw_state)
       in if \<not> matches_expectation expected (Some reconciled) present
          then (st, Inl (Conflict (''HEAD expected '' @ describe_expectation (describe_head (rc_text m)) expected
                  @ '', found '' @ (if present then describe_head (rc_text m) reconciled else ''missing''))))
          else (st, Inr (seen, head_plan m new
                 (if reconciled = hs_head raw_state then hs_raw raw_state
                  else Some (head_to_text (rc_text m) reconciled)))))))"
| "plan_ref_update m seen (UpdateRemoteThread remote thread expected new) st =
     io_read st (remote_thread_path m st remote thread) (\<lambda>p.
       if p \<in> set seen then (st, Inl (duplicate (remote_label remote thread)))
       else io_then (validated_point m (LoadRemoteThread remote thread) (remote_label remote thread) expected (\<lambda>current.
              point_plan (rc_text m) p (remote_label remote thread) new
                (map_option (format_state_id_text (rc_text m)) current) None (remote_summary_delta remote thread new)) st)
              (\<lambda>st plan. (st, Inr (p # seen, plan))))"

fun plan_ref_updates ::
  "'o RefManager \<Rightarrow> path list \<Rightarrow> RefUpdate list \<Rightarrow> 'o ref_store \<Rightarrow> ('o, RefUpdatePlan list) ref_call" where
  "plan_ref_updates m seen [] st = (st, Inr [])"
| "plan_ref_updates m seen (u # us) st =
     io_then (plan_ref_update m seen u st) (\<lambda>st (seen, plan).
     io_then (plan_ref_updates m seen us st) (\<lambda>st plans. (st, Inr (plan # plans))))"

text \<open>\<^verbatim>\<open>plan_materialization\<close>: no validation, and no plan where the stored value is already the wanted one.\<close>

fun plan_one_materialization ::
  "'m refs_config_scheme \<Rightarrow> 's ref_files_scheme \<Rightarrow> RefUpdate \<Rightarrow> RefUpdatePlan option outcome" where
  "plan_one_materialization m st (UpdateThread name expected new) =
     and_then (read_track_with_packed_fallback m st name) (\<lambda>(p, current, previous).
       Inr (if current = new then None
            else Some (point_plan (rc_text m) p (thread_label name) new previous
                   (removal_if_present RemoveThread name new current) (thread_summary_delta name new))))"
| "plan_one_materialization m st (UpdateMarker name expected new) =
     and_then (marker_path m st name) (\<lambda>p.
     and_then (read_marker_with_packed_fallback m st p name) (\<lambda>(current, previous).
       Inr (if current = new then None
            else Some (point_plan (rc_text m) p (marker_label name) new previous
                   (removal_if_present RemoveMarker name new current) (marker_summary_delta name new)))))"
| "plan_one_materialization m st (UpdateHead expected new) =
     and_then (read_head_state m st) (\<lambda>h.
       Inr (if hs_exists h \<and> hs_head h = new then None else Some (head_plan m new (hs_raw h))))"
| "plan_one_materialization m st (UpdateRemoteThread remote thread expected new) =
     and_then (remote_thread_path m st remote thread) (\<lambda>p.
     and_then (raw_get_remote_thread m st remote thread) (\<lambda>current.
       Inr (if current = new then None
            else Some (point_plan (rc_text m) p (remote_label remote thread) new
                   (map_option (format_state_id_text (rc_text m)) current) None
                   (remote_summary_delta remote thread new)))))"

definition plan_materialization ::
  "'m refs_config_scheme \<Rightarrow> 's ref_files_scheme \<Rightarrow> RefUpdate list \<Rightarrow> RefUpdatePlan list outcome" where
  "plan_materialization m st republish =
     and_then (traverse (plan_one_materialization m st) republish) (\<lambda>ps. Inr (List.map_filter id ps))"

section \<open>Materialization\<close>

definition materialize_with_ref_durability ::
  "'m refs_config_scheme \<Rightarrow> ReconcileOutcome \<Rightarrow> bool \<Rightarrow> 's ref_files_scheme \<Rightarrow> ('s, unit) file_call" where
  "materialize_with_ref_durability m outcome durable_refs st =
     io_read st (plan_materialization m st (oc_republish outcome)) (\<lambda>plans.
     io_then (if plans = [] then (st, Inr ())
              else if durable_refs then publish_ref_plans m plans st
              else publish_ref_plans_reconstructible m plans st) (\<lambda>st _.
     io_then (for_each (\<lambda>st (remote, thread, value).
         io_read st (raw_get_remote_thread m st remote thread) (\<lambda>current.
           if current = value then (st, Inr ())
           else case value of
                  Some state \<Rightarrow> set_remote_thread_locked m remote thread state st
                | None \<Rightarrow> io_then (delete_remote_thread_locked m remote thread st) (\<lambda>st _. (st, Inr ()))))
       (oc_remote_updates outcome) st) (\<lambda>st _.
     case oc_undo_recovery outcome of
       None \<Rightarrow> (st, Inr ())
     | Some state \<Rightarrow>
         io_read st (raw_get_undo_recovery m st) (\<lambda>current.
           if current = Some state then (st, Inr ()) else set_undo_recovery_locked m state st))))"

definition materialize ::
  "'m refs_config_scheme \<Rightarrow> ReconcileOutcome \<Rightarrow> 's ref_files_scheme \<Rightarrow> ('s, unit) file_call" where
  "materialize m outcome = materialize_with_ref_durability m outcome True"

text \<open>The common end of a catch-up: fold, publish, advance the watermark, remember it when that succeeds.\<close>

definition catch_up ::
  "'o RefManager \<Rightarrow> 'o RefReconciler \<Rightarrow> LoadRequest \<Rightarrow> Loaded \<Rightarrow> nat \<Rightarrow> 'o ref_store \<Rightarrow> ('o, Loaded) ref_call" where
  "catch_up m r req raw tip st =
     io_then (run_reconcile m r req raw (since_of (class_watermark (ref_class req) st)) st) (\<lambda>st outcome.
     io_then (materialize m outcome st) (\<lambda>st _.
       (fst (persist_reconcile_watermark m (store_watermark (ref_class req) tip st)), Inr (oc_loaded outcome))))"

fun class_probe :: "RefClass \<Rightarrow> LoadRequest" where
  "class_probe LocalClass = LoadHead"
| "class_probe SharedClass = LoadMarkerList"

definition materialize_class :: "'o RefManager \<Rightarrow> RefClass \<Rightarrow> 'o ref_store \<Rightarrow> ('o, unit) ref_call" where
  "materialize_class m class st =
     (case rm_reconciler m of None \<Rightarrow> (st, Inr ())
      | Some r \<Rightarrow>
          io_then (on_log (rr_generation r) st) (\<lambda>st tip.
            if watermark_covers (class_watermark class st) tip then (st, Inr ())
            else io_then (refresh_persisted_watermark m class st) (\<lambda>st _.
              if watermark_covers (class_watermark class st) tip then (st, Inr ())
              else io_read st (raw_load m st (class_probe class)) (\<lambda>raw.
                io_then (catch_up m r (class_probe class) raw tip st) (\<lambda>st _. (st, Inr ()))))))"

definition materialize_committed_tail :: "'o RefManager \<Rightarrow> 'o ref_store \<Rightarrow> ('o, unit) ref_call" where
  "materialize_committed_tail m st =
     io_then (materialize_class m LocalClass st) (\<lambda>st _. materialize_class m SharedClass st)"

section \<open>The write path\<close>

definition write_chokepoint ::
  "'o RefManager \<Rightarrow> ('o ref_store \<Rightarrow> ('o, 'a) ref_call) \<Rightarrow> 'o ref_store \<Rightarrow> ('o, 'a) ref_call" where
  "write_chokepoint m body st =
     io_then (lock_refs m st) (\<lambda>st _.
     io_then (materialize_committed_tail m st) (\<lambda>st _. body st))"

definition update_refs_with_lock :: "'o RefManager \<Rightarrow> RefUpdate list \<Rightarrow> 'o ref_store \<Rightarrow> ('o, unit) ref_call" where
  "update_refs_with_lock m updates st =
     io_then (plan_ref_updates m [] updates st) (\<lambda>st plans. publish_ref_plans m plans st)"

definition validate_commit_publish ::
  "'o RefManager \<Rightarrow> RefUpdate list \<Rightarrow> ('o ref_store \<Rightarrow> ('o, bool) ref_call) \<Rightarrow> 'o ref_store \<Rightarrow> ('o, unit) ref_call" where
  "validate_commit_publish m updates commit st =
     io_then (plan_ref_updates m [] updates st) (\<lambda>st plans.
     io_then (commit st) (\<lambda>st committed_for_reconcile.
       case publish_ref_plans m plans st of
         (st, Inr _) \<Rightarrow> (st, Inr ())
       | (st, Inl err) \<Rightarrow> if committed_for_reconcile then (st, Inr ()) else (st, Inl err)))"

definition commit_and_publish ::
  "'o RefManager \<Rightarrow> OpRecord list \<Rightarrow> RefUpdate list \<Rightarrow> string option \<Rightarrow> 'o ref_store \<Rightarrow> ('o, unit) ref_call" where
  "commit_and_publish m records ref_updates scope =
     write_chokepoint m (validate_commit_publish m ref_updates (\<lambda>st.
       case rm_committer m of
         Some commit_records \<Rightarrow>
           io_then (on_log (commit_records records scope) st) (\<lambda>st _. (st, Inr (records \<noteq> [])))
       | None \<Rightarrow>
           if records \<noteq> [] then (st, Inl (Config ''commit_and_publish was handed records but has no committer''))
           else (st, Inr False)))"

definition update_refs :: "'o RefManager \<Rightarrow> RefUpdate list \<Rightarrow> 'o ref_store \<Rightarrow> ('o, unit) ref_call" where
  "update_refs m updates st =
     (if updates = [] then (st, Inr ()) else write_chokepoint m (update_refs_with_lock m updates) st)"

section \<open>The read path\<close>

definition parse_tip :: "nat \<Rightarrow> string list \<Rightarrow> bool" where
  "parse_tip tip ls = (case ls of [] \<Rightarrow> False | l # _ \<Rightarrow> parse_uint (2 ^ 64 - 1) l = Some tip)"

definition witnessed_head :: "text_lib \<Rightarrow> string list \<Rightarrow> Head option" where
  "witnessed_head E ls =
     (case ls of
        k # v # _ \<Rightarrow> if k = ''attached'' then Some (Attached v)
                  else if k = ''detached'' then map_option Detached (state_id_parse E v) else None
      | _ \<Rightarrow> None)"

definition snapshot_witnessed_load ::
  "'m refs_config_scheme \<Rightarrow> LoadRequest \<Rightarrow> nat \<Rightarrow> 's ref_files_scheme \<Rightarrow> Loaded option outcome" where
  "snapshot_witnessed_load m req tip st =
     (case req of
        LoadHead \<Rightarrow>
          (case map_of (rf_files st) (snapshot_witness_local_path m) of None \<Rightarrow> Inr None
           | Some contents \<Rightarrow>
               let ls = str_lines contents
               in if \<not> parse_tip tip ls then Inr None
                  else case witnessed_head (rc_text m) (drop 1 ls) of None \<Rightarrow> Inr None
                  | Some witnessed \<Rightarrow>
                      and_then (read_head_state m st) (\<lambda>h.
                        Inr (if hs_head h = witnessed then Some (LoadedHead (hs_head h)) else None)))
      | LoadThread requested \<Rightarrow>
          (case map_of (rf_files st) (snapshot_witness_shared_path m) of None \<Rightarrow> Inr None
           | Some contents \<Rightarrow>
               let ls = str_lines contents
               in if \<not> parse_tip tip ls then Inr None
                  else case drop 1 ls of
                    kind # thread # value # _ \<Rightarrow>
                      if kind \<noteq> ''thread'' then Inr None
                      else (case state_id_parse (rc_text m) value of None \<Rightarrow> Inr None
                        | Some state \<Rightarrow>
                            if thread \<noteq> requested then Inr None
                            else and_then (raw_get_thread m st requested) (\<lambda>raw.
                              Inr (if raw = Some state then Some (LoadedPoint raw) else None)))
                  | _ \<Rightarrow> Inr None)
      | _ \<Rightarrow> Inr None)"

definition reconciled_load :: "'o RefManager \<Rightarrow> LoadRequest \<Rightarrow> 'o ref_store \<Rightarrow> ('o, Loaded) ref_call" where
  "reconciled_load m req st =
     (case rm_reconciler m of None \<Rightarrow> (st, raw_load m st req)
      | Some r \<Rightarrow>
          let class = ref_class req
          in io_then (on_log (rr_generation r) st) (\<lambda>st tip.
            if watermark_covers (class_watermark class st) tip then (st, raw_load m st req)
            else io_read st (snapshot_witnessed_load m req tip st) (\<lambda>witnessed.
              case witnessed of Some loaded \<Rightarrow> (st, Inr loaded)
              | None \<Rightarrow>
                  io_then (lock_refs m st) (\<lambda>st _.
                  io_then (on_log (rr_generation r) st) (\<lambda>st tip.
                  io_then (refresh_persisted_watermark m class st) (\<lambda>st _.
                  io_read st (raw_load m st req) (\<lambda>raw.
                    if watermark_covers (class_watermark class st) tip then (st, Inr raw)
                    else catch_up m r req raw tip st)))))))"

section \<open>Operations\<close>

definition loaded_as ::
  "(Loaded \<Rightarrow> 'a outcome) \<Rightarrow> 'o RefManager \<Rightarrow> LoadRequest \<Rightarrow> 'o ref_store \<Rightarrow> ('o, 'a) ref_call" where
  "loaded_as f m req st = io_then (reconciled_load m req st) (\<lambda>st loaded. (st, f loaded))"

definition reconciled_point :: "'o RefManager \<Rightarrow> LoadRequest \<Rightarrow> 'o ref_store \<Rightarrow> ('o, StateId option) ref_call" where
  "reconciled_point = loaded_as as_point"

definition read_head :: "'o RefManager \<Rightarrow> 'o ref_store \<Rightarrow> ('o, Head) ref_call" where
  "read_head m = loaded_as as_head m LoadHead"

definition write_head_cas :: "'o RefManager \<Rightarrow> Head RefExpectation \<Rightarrow> Head \<Rightarrow> 'o ref_store \<Rightarrow> ('o, unit) ref_call" where
  "write_head_cas m expected head = update_refs m [UpdateHead expected head]"

definition write_head :: "'o RefManager \<Rightarrow> Head \<Rightarrow> 'o ref_store \<Rightarrow> ('o, unit) ref_call" where
  "write_head m head = write_head_cas m Any head"

definition get_thread :: "'o RefManager \<Rightarrow> string \<Rightarrow> 'o ref_store \<Rightarrow> ('o, StateId option) ref_call" where
  "get_thread m name = reconciled_point m (LoadThread name)"

definition set_thread_cas ::
  "'o RefManager \<Rightarrow> string \<Rightarrow> StateId RefExpectation \<Rightarrow> StateId \<Rightarrow> 'o ref_store \<Rightarrow> ('o, unit) ref_call" where
  "set_thread_cas m name expected state = update_refs m [UpdateThread name expected (Some state)]"

definition set_thread :: "'o RefManager \<Rightarrow> string \<Rightarrow> StateId \<Rightarrow> 'o ref_store \<Rightarrow> ('o, unit) ref_call" where
  "set_thread m name state = set_thread_cas m name Any state"

definition delete_thread_cas ::
  "'o RefManager \<Rightarrow> string \<Rightarrow> StateId RefExpectation \<Rightarrow> 'o ref_store \<Rightarrow> ('o, unit) ref_call" where
  "delete_thread_cas m name expected = update_refs m [UpdateThread name expected None]"

definition delete_thread :: "'o RefManager \<Rightarrow> string \<Rightarrow> 'o ref_store \<Rightarrow> ('o, StateId option) ref_call" where
  "delete_thread m name st =
     io_then (get_thread m name st) (\<lambda>st state.
     io_then (if state \<noteq> None then update_refs m [UpdateThread name Any None] st else (st, Inr ())) (\<lambda>st _.
       (st, Inr state)))"

definition list_threads :: "'o RefManager \<Rightarrow> 'o ref_store \<Rightarrow> ('o, string list) ref_call" where
  "list_threads m = loaded_as as_thread_list m LoadThreadList"

definition list_threads_with_states :: "'o RefManager \<Rightarrow> 'o ref_store \<Rightarrow> ('o, (string \<times> StateId) list) ref_call" where
  "list_threads_with_states m st =
     io_then (list_threads m st) (\<lambda>st names.
       let point_reads =
             and_then (traverse (\<lambda>name. and_then (raw_get_thread m st name) (\<lambda>i.
               Inr (map_option (Pair name) i))) names) (\<lambda>l. Inr (List.map_filter id l))
       in case try_read_ref_summary_index m st of
            Some summary \<Rightarrow>
              if map fst (thread_states summary) = names then (st, Inr (thread_states summary)) else (st, point_reads)
          | None \<Rightarrow> (st, point_reads))"

definition get_marker :: "'o RefManager \<Rightarrow> string \<Rightarrow> 'o ref_store \<Rightarrow> ('o, StateId option) ref_call" where
  "get_marker m name = reconciled_point m (LoadMarker name)"

definition set_marker_cas ::
  "'o RefManager \<Rightarrow> string \<Rightarrow> StateId RefExpectation \<Rightarrow> StateId \<Rightarrow> 'o ref_store \<Rightarrow> ('o, unit) ref_call" where
  "set_marker_cas m name expected state = update_refs m [UpdateMarker name expected (Some state)]"

definition create_marker :: "'o RefManager \<Rightarrow> string \<Rightarrow> StateId \<Rightarrow> 'o ref_store \<Rightarrow> ('o, unit) ref_call" where
  "create_marker m name state = set_marker_cas m name Missing state"

definition delete_marker_cas ::
  "'o RefManager \<Rightarrow> string \<Rightarrow> StateId RefExpectation \<Rightarrow> 'o ref_store \<Rightarrow> ('o, unit) ref_call" where
  "delete_marker_cas m name expected = update_refs m [UpdateMarker name expected None]"

definition delete_marker :: "'o RefManager \<Rightarrow> string \<Rightarrow> 'o ref_store \<Rightarrow> ('o, StateId option) ref_call" where
  "delete_marker m name st =
     io_then (get_marker m name st) (\<lambda>st state.
     io_then (if state \<noteq> None then delete_marker_cas m name Any st else (st, Inr ())) (\<lambda>st _. (st, Inr state)))"

definition list_markers :: "'o RefManager \<Rightarrow> 'o ref_store \<Rightarrow> ('o, string list) ref_call" where
  "list_markers m = loaded_as as_marker_list m LoadMarkerList"

definition set_undo_recovery :: "'o RefManager \<Rightarrow> StateId \<Rightarrow> 'o ref_store \<Rightarrow> ('o, unit) ref_call" where
  "set_undo_recovery m state = write_chokepoint m (set_undo_recovery_locked m state)"

definition clear_undo_recovery :: "'o RefManager \<Rightarrow> 'o ref_store \<Rightarrow> ('o, unit) ref_call" where
  "clear_undo_recovery m = write_chokepoint m (clear_undo_recovery_locked m)"

definition get_undo_recovery :: "'o RefManager \<Rightarrow> 'o ref_store \<Rightarrow> ('o, StateId option) ref_call" where
  "get_undo_recovery m = reconciled_point m LoadUndoRecovery"

definition get_remote_thread ::
  "'o RefManager \<Rightarrow> string \<Rightarrow> string \<Rightarrow> 'o ref_store \<Rightarrow> ('o, StateId option) ref_call" where
  "get_remote_thread m remote thread = reconciled_point m (LoadRemoteThread remote thread)"

definition set_remote_thread ::
  "'o RefManager \<Rightarrow> string \<Rightarrow> string \<Rightarrow> StateId \<Rightarrow> 'o ref_store \<Rightarrow> ('o, unit) ref_call" where
  "set_remote_thread m remote thread state = write_chokepoint m (set_remote_thread_locked m remote thread state)"

definition delete_remote_thread ::
  "'o RefManager \<Rightarrow> string \<Rightarrow> string \<Rightarrow> 'o ref_store \<Rightarrow> ('o, StateId option) ref_call" where
  "delete_remote_thread m remote thread = write_chokepoint m (delete_remote_thread_locked m remote thread)"

definition list_remotes :: "'o RefManager \<Rightarrow> 'o ref_store \<Rightarrow> ('o, string list) ref_call" where
  "list_remotes m = loaded_as as_remote_list m LoadRemoteList"

definition list_remote_threads :: "'o RefManager \<Rightarrow> string \<Rightarrow> 'o ref_store \<Rightarrow> ('o, string list) ref_call" where
  "list_remote_threads m remote = loaded_as as_remote_thread_list m (LoadRemoteThreadList remote)"

definition rebuild_ref_summary_index :: "'o RefManager \<Rightarrow> 'o ref_store \<Rightarrow> ('o, RefSummaryIndexInspection) ref_call" where
  "rebuild_ref_summary_index m st =
     io_then (lock_refs m st) (\<lambda>st _. rebuild_ref_summary_index_with_lock m st)"

definition UNDO_RECOVERY_HANDLE :: string where "UNDO_RECOVERY_HANDLE = ''.undo-recovery''"

text \<open>\<^verbatim>\<open>resolve_refspec\<close>, whose readers are the operations of the manager.\<close>

definition resolve_refspec :: "'o RefManager \<Rightarrow> string \<Rightarrow> 'o ref_store \<Rightarrow> ('o, StateId option) ref_call" where
  "resolve_refspec m refspec st =
     (if refspec = ''@'' \<or> refspec = ''HEAD''
      then io_then (read_head m st) (\<lambda>st head.
        case head of Attached thread \<Rightarrow> get_thread m thread st | Detached state \<Rightarrow> (st, Inr (Some state)))
      else if refspec = UNDO_RECOVERY_HANDLE then get_undo_recovery m st
      else io_then (get_thread m refspec st) (\<lambda>st i.
        if i \<noteq> None then (st, Inr i)
        else io_then (get_marker m refspec st) (\<lambda>st i.
          if i \<noteq> None then (st, Inr i) else (st, Inr (state_id_parse (rc_text m) refspec)))))"

section \<open>After a snapshot\<close>

text \<open>\<^verbatim>\<open>std::fs::write\<close> with its result ignored.\<close>

definition write_ignored :: "'m refs_config_scheme \<Rightarrow> path \<Rightarrow> string \<Rightarrow> 's ref_files_scheme \<Rightarrow> 's ref_files_scheme" where
  "write_ignored m p c st = fst (change m (\<lambda>st. st\<lparr>rf_files := AList.update p c (rf_files st)\<rparr>) st)"

definition text_lines :: "string list \<Rightarrow> string" where
  "text_lines ls = concat (map (\<lambda>l. l @ [CHR 0x0A]) ls)"

definition materialize_snapshot_thread_after_commit ::
  "'o RefManager \<Rightarrow> string \<Rightarrow> StateId \<Rightarrow> nat \<Rightarrow> 'o ref_store \<Rightarrow> ('o, unit) ref_call" where
  "materialize_snapshot_thread_after_commit m thread state tip st =
     io_then (lock_refs m st) (\<lambda>st _.
     io_then (materialize_with_ref_durability m
         \<lparr>oc_loaded = LoadedPoint (Some state), oc_republish = [UpdateThread thread Any (Some state)],
          oc_remote_updates = [], oc_undo_recovery = None\<rparr> False st) (\<lambda>st _.
       let st = st\<lparr>cached_shared_generation := tip, cached_local_generation := tip\<rparr>;
           st = write_ignored m (snapshot_witness_local_path m) (text_lines [dec_digits tip, ''attached'', thread]) st
       in (write_ignored m (snapshot_witness_shared_path m)
             (text_lines [dec_digits tip, ''thread'', thread, to_string_full (rc_text m) state]) st, Inr ())))"

definition materialize_snapshot_head_after_commit ::
  "'o RefManager \<Rightarrow> StateId \<Rightarrow> nat \<Rightarrow> 'o ref_store \<Rightarrow> ('o, unit) ref_call" where
  "materialize_snapshot_head_after_commit m state tip st =
     io_then (lock_refs m st) (\<lambda>st _.
     io_then (materialize_with_ref_durability m
         \<lparr>oc_loaded = LoadedHead (Detached state), oc_republish = [UpdateHead Any (Detached state)],
          oc_remote_updates = [], oc_undo_recovery = None\<rparr> False st) (\<lambda>st _.
       let st = st\<lparr>cached_local_generation := tip, cached_shared_generation := tip\<rparr>
       in (write_ignored m (snapshot_witness_local_path m)
             (text_lines [dec_digits tip, ''detached'', to_string_full (rc_text m) state]) st, Inr ())))"

end
