(* ===== verification/Ref_Reconciler.thy ===== *)
theory Ref_Reconciler
  imports Refs_Manager
begin

text \<open>
  The reconciler and the committer of references over the operation log,
  \<^verbatim>\<open>src/crates/repo/src/atomic/reconciler.rs\<close> and \<^verbatim>\<open>committer.rs\<close>: what the committed entries after a watermark
  say about HEAD, threads, markers, remote threads and the undo recovery pointer.
\<close>

section \<open>Folding records\<close>

datatype HeadFold = Untouched | Republish Head | Canonical

text \<open>The ordered maps are association lists kept sorted by their keys.\<close>

record Fold =
  fd_head :: HeadFold
  fd_threads :: "(string \<times> StateId option) list"
  fd_markers :: "(string \<times> StateId option) list"
  fd_remotes :: "((string \<times> string) \<times> StateId option) list"
  fd_undo_recovery :: "StateId option"

definition fold_default :: Fold where
  "fold_default = \<lparr>fd_head = Untouched, fd_threads = [], fd_markers = [], fd_remotes = [], fd_undo_recovery = None\<rparr>"

fun btree_insert :: "'a::linorder \<Rightarrow> 'b \<Rightarrow> ('a \<times> 'b) list \<Rightarrow> ('a \<times> 'b) list" where
  "btree_insert k v [] = [(k, v)]"
| "btree_insert k v ((k', v') # m) =
     (if k < k' then (k, v) # (k', v') # m else if k = k' then (k, v) # m else (k', v') # btree_insert k v m)"

definition put_thread :: "string \<Rightarrow> StateId option \<Rightarrow> Fold \<Rightarrow> Fold" where
  "put_thread name v f = f\<lparr>fd_threads := btree_insert name v (fd_threads f)\<rparr>"

definition put_marker :: "string \<Rightarrow> StateId option \<Rightarrow> Fold \<Rightarrow> Fold" where
  "put_marker name v f = f\<lparr>fd_markers := btree_insert name v (fd_markers f)\<rparr>"

definition put_remote :: "string \<Rightarrow> string \<Rightarrow> StateId option \<Rightarrow> Fold \<Rightarrow> Fold" where
  "put_remote remote thread v f = f\<lparr>fd_remotes := btree_insert (remote, thread) v (fd_remotes f)\<rparr>"

definition put_head :: "HeadFold \<Rightarrow> Fold \<Rightarrow> Fold" where
  "put_head h f = f\<lparr>fd_head := h\<rparr>"

fun recorded_head :: "RecordedHead \<Rightarrow> Head" where
  "recorded_head (HeadAttached thread) = Attached thread"
| "recorded_head (HeadDetached state) = Detached state"

fun fold_apply :: "OpRecord \<Rightarrow> Fold \<Rightarrow> Fold" where
  "fold_apply (Snapshot new_state prev head thread) f =
     (case thread of
        Some name \<Rightarrow> put_head (Republish (Attached name)) (put_thread name (Some new_state) f)
      | None \<Rightarrow> (case head of Some h \<Rightarrow> put_head (Republish (Detached h)) f | None \<Rightarrow> f))"
| "fold_apply (ThreadCreate name state _) f = put_thread name (Some state) f"
| "fold_apply (ThreadUpdate name _ new_state _) f = put_thread name (Some new_state) f"
| "fold_apply (ThreadDelete name _) f = put_thread name None f"
| "fold_apply (Fork _ new_state thread head) f =
     (let f = (case thread of
          Some name \<Rightarrow> put_head (Republish (Attached name)) (put_thread name (Some new_state) f) | None \<Rightarrow> f)
      in case head of Some h \<Rightarrow> put_head (Republish (Detached h)) f | None \<Rightarrow> f)"
| "fold_apply (Collapse _ result thread _) f =
     (case thread of
        Some name \<Rightarrow> put_thread name (Some result) f | None \<Rightarrow> put_head (Republish (Detached result)) f)"
| "fold_apply (MarkerCreate name state) f = put_marker name (Some state) f"
| "fold_apply (MarkerDelete name _) f = put_marker name None f"
| "fold_apply (Checkpoint _ state thread) f =
     (case thread of Some name \<Rightarrow> put_thread name (Some state) f | None \<Rightarrow> put_head Canonical f)"
| "fold_apply (FastForward target_thread _ _ post_target_id) f =
     put_head Canonical (put_thread target_thread (Some post_target_id) f)"
| "fold_apply (EphemeralThreadCollapse thread _) f = put_thread thread None f"
| "fold_apply (RemoteThreadUpdate remote thread state) f = put_remote remote thread (Some state) f"
| "fold_apply (RemoteThreadDelete remote thread _) f = put_remote remote thread None f"
| "fold_apply (UndoRecoveryUpdate state) f = f\<lparr>fd_undo_recovery := Some state\<rparr>"
| "fold_apply (Goto _ _ head) f = put_head (Republish (Detached head)) f"
| "fold_apply (HeadUpdate _ new) f = put_head (Republish (recorded_head new)) f"
| "fold_apply _ f = f"

definition fold_batches :: "'t OpBatch list \<Rightarrow> nat \<Rightarrow> Fold" where
  "fold_batches batches since =
     (let entries = sort_key entry_id
        (filter (\<lambda>e. \<not> undone e \<and> since < entry_id e) (concat (map opb_entries batches)))
      in fold (\<lambda>e. fold_apply (operation e)) entries fold_default)"

section \<open>What a fold implies for a class\<close>

definition class_materialization ::
  "RefClass \<Rightarrow> Fold \<Rightarrow> RefUpdate list \<times> (string \<times> string \<times> StateId option) list \<times> StateId option" where
  "class_materialization class f =
     (case class of
        SharedClass \<Rightarrow>
          (map (\<lambda>(name, v). UpdateThread name Any v) (fd_threads f)
             @ map (\<lambda>(name, v). UpdateMarker name Any v) (fd_markers f),
           map (\<lambda>((remote, thread), v). (remote, thread, v)) (fd_remotes f), None)
      | LocalClass \<Rightarrow>
          (case fd_head f of
             Republish head \<Rightarrow>
               UpdateHead Any head
               # (case head of
                    Attached thread \<Rightarrow>
                      (case map_of (fd_threads f) thread of Some v \<Rightarrow> [UpdateThread thread Any v] | None \<Rightarrow> [])
                  | Detached _ \<Rightarrow> [])
           | _ \<Rightarrow> [], [], fd_undo_recovery f))"

section \<open>The value of a request\<close>

definition fill_point :: "Loaded \<Rightarrow> StateId option option \<Rightarrow> Loaded" where
  "fill_point raw folded = (case folded of Some v \<Rightarrow> LoadedPoint v | None \<Rightarrow> raw)"

text \<open>A sorted set of names under insertions and deletions.\<close>

definition merge_list :: "string list \<Rightarrow> (string \<times> StateId option) list \<Rightarrow> string list" where
  "merge_list base changes =
     foldl (\<lambda>names (name, v). if v \<noteq> None then sort (List.insert name names) else filter (\<lambda>n. n \<noteq> name) names)
       (sort (remdups base)) changes"

fun raw_thread_names :: "Loaded \<Rightarrow> string list" where
  "raw_thread_names (LoadedThreadList names) = names"
| "raw_thread_names _ = []"

fun raw_marker_names :: "Loaded \<Rightarrow> string list" where
  "raw_marker_names (LoadedMarkerList names) = names"
| "raw_marker_names _ = []"

fun raw_remote_names :: "Loaded \<Rightarrow> string list" where
  "raw_remote_names (LoadedRemoteList names) = names"
| "raw_remote_names _ = []"

fun raw_remote_thread_names :: "Loaded \<Rightarrow> string list" where
  "raw_remote_thread_names (LoadedRemoteThreadList names) = names"
| "raw_remote_thread_names _ = []"

definition remote_changes :: "Fold \<Rightarrow> string \<Rightarrow> (string \<times> StateId option) list" where
  "remote_changes f remote = map (\<lambda>((r, t), v). (t, v)) (filter (\<lambda>((r, t), v). r = remote) (fd_remotes f))"

definition remote_list_value ::
  "(string \<Rightarrow> string list outcome) \<Rightarrow> Loaded \<Rightarrow> Fold \<Rightarrow> Loaded outcome" where
  "remote_list_value list_raw raw f =
     (let remotes = sort (remdups (raw_remote_names raw @ map (\<lambda>((r, t), v). r) (fd_remotes f)))
      in and_then (traverse (\<lambda>remote. and_then (list_raw remote) (\<lambda>threads.
             Inr (remote, merge_list threads (remote_changes f remote)))) remotes) (\<lambda>rs.
           Inr (LoadedRemoteList (map fst (filter (\<lambda>(r, ts). ts \<noteq> []) rs)))))"

definition reconciled_value ::
  "LoadRequest \<Rightarrow> (string \<Rightarrow> string list outcome) \<Rightarrow> Loaded \<Rightarrow> Fold \<Rightarrow> Loaded outcome" where
  "reconciled_value req list_raw raw f =
     (case req of
        LoadHead \<Rightarrow> Inr (case fd_head f of Republish head \<Rightarrow> LoadedHead head | _ \<Rightarrow> raw)
      | LoadUndoRecovery \<Rightarrow> Inr (fill_point raw (map_option Some (fd_undo_recovery f)))
      | LoadThread name \<Rightarrow> Inr (fill_point raw (map_of (fd_threads f) name))
      | LoadMarker name \<Rightarrow> Inr (fill_point raw (map_of (fd_markers f) name))
      | LoadRemoteThread remote thread \<Rightarrow> Inr (fill_point raw (map_of (fd_remotes f) (remote, thread)))
      | LoadThreadList \<Rightarrow> Inr (LoadedThreadList (merge_list (raw_thread_names raw) (fd_threads f)))
      | LoadMarkerList \<Rightarrow> Inr (LoadedMarkerList (merge_list (raw_marker_names raw) (fd_markers f)))
      | LoadRemoteList \<Rightarrow> remote_list_value list_raw raw f
      | LoadRemoteThreadList remote \<Rightarrow>
          Inr (LoadedRemoteThreadList (merge_list (raw_remote_thread_names raw) (remote_changes f remote))))"

section \<open>The reconciler and the committer\<close>

text \<open>Every call opens a fresh handle over the log on disk; \<open>usize::MAX\<close> bounds the number of batches.\<close>

definition fresh_log :: "Principal \<Rightarrow> 't disk \<Rightarrow> 't OpLog" where
  "fresh_log actor d = \<lparr>ol_disk = d, ol_cached = None, ol_pending = None, ol_actor = actor\<rparr>"

definition on_fresh :: "Principal \<Rightarrow> ('t OpLog \<Rightarrow> ('t, 'a) call) \<Rightarrow> 't disk \<Rightarrow> 't disk \<times> 'a outcome" where
  "on_fresh actor f d = (case f (fresh_log actor d) of (st, r) \<Rightarrow> (ol_disk st, r))"

definition reconciler_reconcile ::
  "Principal \<Rightarrow> 't call_env \<Rightarrow> string \<Rightarrow> LoadRequest \<Rightarrow> (string \<Rightarrow> string list outcome) \<Rightarrow> Loaded \<Rightarrow> nat
    \<Rightarrow> 't disk \<Rightarrow> 't disk \<times> ReconcileOutcome outcome" where
  "reconciler_reconcile unattributed env op_scope req list_raw raw since d =
     (let class = ref_class req;
          scope = (case class of LocalClass \<Rightarrow> Some op_scope | SharedClass \<Rightarrow> None)
      in io_then (on_fresh unattributed (\<lambda>st. recent_batches_after_scoped env st since usize_max scope) d) (\<lambda>d batches.
         let f = fold_batches batches since; (republish, remote_updates, undo_recovery) = class_materialization class f
         in io_read d (reconciled_value req list_raw raw f) (\<lambda>loaded.
              (d, Inr \<lparr>oc_loaded = loaded, oc_republish = republish, oc_remote_updates = remote_updates,
                       oc_undo_recovery = undo_recovery\<rparr>))))"

definition OplogRefReconciler :: "Principal \<Rightarrow> 't call_env \<Rightarrow> string \<Rightarrow> 't disk RefReconciler" where
  "OplogRefReconciler unattributed env op_scope =
     \<lparr>rr_generation = on_fresh unattributed (oplog_head_id env),
      rr_reconcile = reconciler_reconcile unattributed env op_scope\<rparr>"

definition OplogRefCommitter :: "Principal \<Rightarrow> 't call_env \<Rightarrow> 't disk RefCommitter" where
  "OplogRefCommitter actor env records scope d =
     (if records = [] then (d, Inr ())
      else io_then (on_fresh actor (\<lambda>st. record_batch_scoped env st records scope) d) (\<lambda>d _. (d, Inr ())))"

end
