(* ===== verification/Refs_Text_Correct.thy ===== *)
theory Refs_Text_Correct
  imports Refs_Summary Oplog_Segments_Correct Name_Encoding_Correct
begin

text \<open>
  The text forms of references are read back: state ids, HEAD, the packed references and the summary. What is
  assumed of the libraries: what Crockford's base32 encodes (\<^verbatim>\<open>object-model/src/object/hash.rs\<close>) is of its symbols and decodes from
  lower case, and Git accepts no name with a space or a control character.
\<close>

section \<open>The assumptions on library code\<close>

text \<open>The symbols of Crockford's base32 in lower case, and with the hyphen of the prefix of a state id.\<close>

definition b32_char :: "char \<Rightarrow> bool" where
  "b32_char c \<longleftrightarrow> c \<in> set ''0123456789abcdefghjkmnpqrstvwxyz''"

definition id_char :: "char \<Rightarrow> bool" where
  "id_char c \<longleftrightarrow> b32_char c \<or> c = CHR ''-''"

definition name_char :: "char \<Rightarrow> bool" where
  "name_char c \<longleftrightarrow> 32 < (of_char c :: nat) \<and> (of_char c :: nat) \<noteq> 127"

definition text_ok :: "text_lib \<Rightarrow> bool" where
  "text_ok E \<longleftrightarrow>
     (\<forall>i. length i = 32 \<longrightarrow> b32_upper E (b32_lower E i) = Some i)
     \<and> (\<forall>i. list_all b32_char (b32_lower E i))
     \<and> (\<forall>s. check_refname_format E s \<longrightarrow> list_all name_char s)"

definition id_ok :: "StateId \<Rightarrow> bool" where "id_ok i \<longleftrightarrow> length i = 32"

lemma text_okD:
  assumes "text_ok E"
  shows "id_ok i \<Longrightarrow> b32_upper E (b32_lower E i) = Some i" "list_all id_char (b32_lower E i)"
    "check_refname_format E s \<Longrightarrow> list_all name_char s"
  using assms by (auto simp: text_ok_def id_ok_def id_char_def list_all_iff)

section \<open>State ids\<close>

lemma id_chars: "id_char (CHR ''h'')" "id_char (CHR ''s'')" "id_char (CHR ''-'')" "\<not> id_char (CHR '' '')"
  by (simp_all add: id_char_def b32_char_def)

lemma id_text_chars: "text_ok E \<Longrightarrow> list_all id_char (to_string_full E i)"
  using text_okD(2) [of E i] by (simp add: to_string_full_def id_chars)

lemma id_char_name: "id_char c \<Longrightarrow> name_char c"
  by (auto simp: id_char_def b32_char_def name_char_def)

lemma name_char_not_space: "name_char c \<Longrightarrow> c \<notin> {CHR 0x09, CHR 0x0A, CHR 0x0D, CHR '' ''}"
  by (auto simp: name_char_def)

lemma state_id_parse_full [simp]: "text_ok E \<Longrightarrow> id_ok i \<Longrightarrow> state_id_parse E (to_string_full E i) = Some i"
proof -
  assume a: "text_ok E" "id_ok i"
  have "strip_prefix ''hs-'' (''hs-'' @ b32_lower E i) = Some (b32_lower E i)" by (rule strip_prefix_append)
  then show ?thesis
    using a text_okD(1) [OF a] by (simp add: state_id_parse_def to_string_full_def id_ok_def del: append_Cons)
qed

lemma trim_with_id:
  assumes "\<And>w. w \<in> set ws \<Longrightarrow> w \<noteq> [] \<Longrightarrow> s \<noteq> [] \<Longrightarrow> hd w \<noteq> hd s"
  shows "trim_with ws s = s"
proof -
  have "find (\<lambda>w. w \<noteq> [] \<and> strip_prefix w s \<noteq> None) ws = None"
    unfolding find_None_iff
  proof
    assume "\<exists>w. w \<in> set ws \<and> (w \<noteq> [] \<and> strip_prefix w s \<noteq> None)"
    then obtain w r where w: "w \<in> set ws" "w \<noteq> []" "s = w @ r" by (auto simp: strip_prefix_Some)
    then show False using assms [of w] by simp
  qed
  then show ?thesis by (simp add: trim_with.simps)
qed

lemma white_space_ends:
  "w \<in> set white_space \<Longrightarrow> \<not> id_char (hd w)" "w \<in> set (map rev white_space) \<Longrightarrow> \<not> id_char (hd w)"
proof -
  have "list_all (\<lambda>w. \<not> id_char (hd w)) white_space" "list_all (\<lambda>w. \<not> id_char (hd w)) (map rev white_space)"
    by code_simp+
  then show "w \<in> set white_space \<Longrightarrow> \<not> id_char (hd w)" "w \<in> set (map rev white_space) \<Longrightarrow> \<not> id_char (hd w)"
    by (auto simp: list_all_iff)
qed

lemma trim_newline:
  assumes "list_all id_char s" "s \<noteq> []"
  shows "trim_str (s @ [CHR 0x0A]) = s"
proof -
  have "id_char (hd s)" "id_char (hd (rev s))" using assms by (auto simp: list_all_iff hd_rev)
  then have front: "trim_with white_space (s @ [CHR 0x0A]) = s @ [CHR 0x0A]"
    and behind: "trim_with (map rev white_space) (rev s) = rev s"
    using assms(2) white_space_ends by (intro trim_with_id; force)+
  have "find (\<lambda>w. w \<noteq> [] \<and> strip_prefix w (CHR 0x0A # rev s) \<noteq> None) (map rev white_space) = Some [CHR 0x0A]"
    by (simp add: white_space_def strip_prefix_def)
  then have "trim_with (map rev white_space) (CHR 0x0A # rev s) = trim_with (map rev white_space) (rev s)"
    by (subst trim_with.simps) simp
  then show ?thesis by (simp add: trim_str_def front behind)
qed

lemma parse_formatted_id [simp]:
  "text_ok E \<Longrightarrow> id_ok i \<Longrightarrow> parse_state_id_text E (format_state_id_text E i) = Some i"
proof -
  assume a: "text_ok E" "id_ok i"
  have "to_string_full E i \<noteq> []" by (simp add: to_string_full_def)
  then have "trim_str (to_string_full E i @ [CHR 0x0A]) = to_string_full E i" by (rule trim_newline [OF id_text_chars [OF a(1)]])
  then show ?thesis using a by (simp add: parse_state_id_text_def format_state_id_text_def)
qed

section \<open>Names\<close>

lemma encode_name_chars: "list_all name_char (encode_name v)"
proof -
  have digit: "name_char (hex_digit n)" if "n < 16" for n
    using that by (simp add: hex_digit_def name_char_def)
  have "list_all name_char (encode_char c)" for c
  proof -
    have "(of_char c :: nat) < 256" by simp
    then have "(of_char c :: nat) div 16 < 16" by (simp add: less_mult_imp_div_less)
    then show ?thesis using digit by (auto simp: encode_char_def plain_char_def name_char_def Let_def)
  qed
  then show ?thesis by (induction v) (auto simp: encode_name_def name_char_def list_all_iff)
qed

lemma valid_name_chars:
  assumes "text_ok E" "validate_ref_name E name"
  shows "list_all name_char name"
proof (cases "git_source name")
  case None
  then show ?thesis
    using assms text_okD(3) [OF assms(1)] by (force simp: validate_ref_name_def Let_def git_name_def)
next
  case (Some n)
  then have "name = native_git_name n" by (auto simp: git_source_Some)
  then show ?thesis
  proof (cases "native_git_name n = n")
    case True
    then show ?thesis
      using assms text_okD(3) [OF assms(1)] Some \<open>name = _\<close> by (force simp: validate_ref_name_def Let_def git_name_def)
  next
    case False
    then have "name = ''git%'' @ encode_name n" using \<open>name = _\<close> by (auto simp: native_git_name_def split: if_splits)
    then show ?thesis using encode_name_chars [of n] by (simp add: name_char_def)
  qed
qed


section \<open>HEAD\<close>

definition head_ok :: "text_lib \<Rightarrow> Head \<Rightarrow> bool" where
  "head_ok E h = (case h of
     Attached thread \<Rightarrow> from_git_branch E (git_name thread) \<noteq> None \<and> validate_ref_name E thread
   | Detached state \<Rightarrow> id_ok state)"

lemma strip_line_ending:
  assumes "s \<noteq> []" "last s \<noteq> CHR 0x0D"
  shows "strip_ref_line_ending (s @ [CHR 0x0A]) = s" "strip_ref_line_ending (s @ [CHR 0x0D, CHR 0x0A]) = s"
proof -
  obtain xs x where s: "s = xs @ [x]" using assms(1) by (cases s rule: rev_cases) auto
  then have "x \<noteq> CHR 0x0D" using assms(2) by simp
  then show "strip_ref_line_ending (s @ [CHR 0x0A]) = s" "strip_ref_line_ending (s @ [CHR 0x0D, CHR 0x0A]) = s"
    by (simp_all add: s strip_ref_line_ending_def Name_Encoding.strip_suffix_def strip_prefix_def)
qed

lemma head_parse_described:
  assumes "text_ok E" "head_ok E h"
  shows "describe_head E h \<noteq> []" "last (describe_head E h) \<noteq> CHR 0x0D"
    "head_to_text E h = describe_head E h @ [CHR 0x0A]"
    "strip_ref_line_ending c = describe_head E h \<Longrightarrow> head_parse E c = Some h"
proof -
  have "(\<forall>thread. h = Attached thread \<longrightarrow> list_all name_char thread) \<and> list_all name_char (to_string_full E i)" for i
    using assms valid_name_chars [OF assms(1)] id_text_chars [OF assms(1), of i] id_char_name
    by (auto simp: head_ok_def list_all_iff)
  then have "list_all (\<lambda>c. name_char c \<or> c = CHR '' '') (describe_head E h)"
    by (cases h) (auto simp: list_all_iff name_char_def)
  moreover show n: "describe_head E h \<noteq> []" by (cases h) (simp_all add: to_string_full_def)
  ultimately have "name_char (last (describe_head E h)) \<or> last (describe_head E h) = CHR '' ''" by (simp add: list_all_iff)
  then show "last (describe_head E h) \<noteq> CHR 0x0D" by (auto simp: name_char_def)
  show "head_to_text E h = describe_head E h @ [CHR 0x0A]" by (cases h) simp_all
  assume c: "strip_ref_line_ending c = describe_head E h"
  show "head_parse E c = Some h"
  proof (cases h)
    case (Attached t)
    have "strip_prefix ''ref: '' (''ref: '' @ t) = Some t" by (rule strip_prefix_append)
    then show ?thesis using c assms(2) by (simp add: head_parse_def Attached head_ok_def Let_def)
  next
    case (Detached i)
    have "strip_prefix ''ref: '' (to_string_full E i) = None" by (simp add: to_string_full_def strip_prefix_def)
    then show ?thesis using c assms by (simp add: head_parse_def Detached head_ok_def Let_def)
  qed
qed

text \<open>The text of HEAD is read back, whether its line ends in LF or CRLF.\<close>

theorem head_roundtrip:
  assumes "text_ok E" "head_ok E h"
  shows "head_parse E (head_to_text E h) = Some h \<and> head_parse E (describe_head E h @ [CHR 0x0D, CHR 0x0A]) = Some h"
  using head_parse_described [OF assms] strip_line_ending [OF head_parse_described(1,2) [OF assms]] by simp

section \<open>Lines\<close>

definition line_char :: "char \<Rightarrow> bool" where
  "line_char c \<longleftrightarrow> c \<noteq> CHR 0x0A \<and> c \<noteq> CHR 0x0D"

lemma split_lines:
  "(\<And>l. l \<in> set ls \<Longrightarrow> c \<notin> set l) \<Longrightarrow> split_char c (concat (map (\<lambda>l. l @ [c]) ls)) = ls @ [[]]"
  by (induction ls) (simp_all add: split_char_sep)

lemma split_joined:
  "ps \<noteq> [] \<Longrightarrow> (\<And>p. p \<in> set ps \<Longrightarrow> c \<notin> set p)
    \<Longrightarrow> split_char c (concat (map (\<lambda>f. f @ [c]) (butlast ps)) @ last ps) = ps"
  by (induction ps) (auto simp: split_char_sep split_char_none)

lemma str_lines_text:
  assumes "\<And>l. l \<in> set ls \<Longrightarrow> list_all line_char l"
  shows "str_lines (concat (map (\<lambda>l. l @ [CHR 0x0A]) ls)) = ls"
proof -
  have nl: "CHR 0x0A \<notin> set l" if "l \<in> set ls" for l using assms [OF that] by (auto simp: list_all_iff line_char_def)
  have "line_content l = l" if "l \<in> set ls" for l
  proof -
    have "l \<noteq> [] \<Longrightarrow> line_char (last l)" using assms [OF that] by (simp add: list_all_iff)
    then show ?thesis by (auto simp: line_content_def line_char_def)
  qed
  then have "map line_content ls = ls" by (simp add: map_idI)
  then show ?thesis by (simp add: str_lines_def split_lines [OF nl])
qed

lemma name_chars_line: "list_all name_char s \<Longrightarrow> list_all line_char s"
  using name_char_not_space by (fastforce simp: list_all_iff line_char_def)

section \<open>Packed references\<close>

definition packed_ok :: "text_lib \<Rightarrow> PackedRefs \<Rightarrow> bool" where
  "packed_ok E p \<longleftrightarrow>
     distinct (map fst (pr_threads p)) \<and> distinct (map fst (pr_markers p))
     \<and> (\<forall>(name, i) \<in> set (pr_threads p) \<union> set (pr_markers p). validate_ref_name E name \<and> id_ok i)"

definition ref_line :: "text_lib \<Rightarrow> string \<Rightarrow> string \<times> StateId \<Rightarrow> string" where
  "ref_line E pre ni = to_string_full E (snd ni) @ CHR '' '' # pre @ fst ni"

lemma packed_line_fields:
  assumes "s \<noteq> []" "hd s \<noteq> CHR ''#''" "CHR '' '' \<notin> set s" "state_id_parse E s = Some i"
  shows "packed_line E p (s @ CHR '' '' # r) =
    (case strip_prefix THREADS_PREFIX r of Some name \<Rightarrow> packed_set_thread name i p
     | None \<Rightarrow> (case strip_prefix MARKERS_PREFIX r of Some name \<Rightarrow> packed_set_marker name i p | None \<Rightarrow> p))"
proof -
  have t: "takeWhile (\<lambda>c. c \<noteq> CHR '' '') (s @ CHR '' '' # r) = s"
    using assms(3) by (subst takeWhile_append2) auto
  show ?thesis using assms by (simp add: packed_line_def t)
qed

lemma packed_ref_line:
  assumes "text_ok E" "id_ok i"
  shows "packed_line E p (ref_line E THREADS_PREFIX (name, i)) = packed_set_thread name i p"
    "packed_line E p (ref_line E MARKERS_PREFIX (name, i)) = packed_set_marker name i p"
proof -
  let ?s = "to_string_full E i"
  have "CHR '' '' \<notin> set ?s"
    using id_text_chars [OF assms(1), of i] id_chars(4) by (auto simp: list_all_iff)
  moreover have "?s \<noteq> []" "hd ?s \<noteq> CHR ''#''" by (simp_all add: to_string_full_def)
  ultimately have l: "packed_line E p (?s @ CHR '' '' # r) =
      (case strip_prefix THREADS_PREFIX r of Some name \<Rightarrow> packed_set_thread name i p
       | None \<Rightarrow> (case strip_prefix MARKERS_PREFIX r of Some name \<Rightarrow> packed_set_marker name i p | None \<Rightarrow> p))" for r
    using packed_line_fields state_id_parse_full [OF assms] by blast
  have pre: "strip_prefix THREADS_PREFIX (MARKERS_PREFIX @ n) = None" for n
    by (simp add: strip_prefix_def THREADS_PREFIX_def MARKERS_PREFIX_def)
  show "packed_line E p (ref_line E THREADS_PREFIX (name, i)) = packed_set_thread name i p"
    "packed_line E p (ref_line E MARKERS_PREFIX (name, i)) = packed_set_marker name i p"
    by (simp_all add: ref_line_def l pre)
qed

lemma foldl_assigns:
  assumes "\<And>l p. l \<in> set ls \<Longrightarrow> get (step p l) = (case val l of Some v \<Rightarrow> Some v | None \<Rightarrow> get p)"
    and "\<And>l v. l \<in> set ls \<Longrightarrow> val l = Some v \<Longrightarrow> v = w"
  shows "get (foldl step p ls) = (if \<exists>l \<in> set ls. val l \<noteq> None then Some w else get p)"
  using assms
proof (induction ls rule: rev_induct)
  case (snoc l ls)
  have IH: "get (foldl step p ls) = (if \<exists>l \<in> set ls. val l \<noteq> None then Some w else get p)"
    by (rule snoc.IH) (use snoc.prems in auto)
  show ?case
  proof (cases "val l")
    case None
    then show ?thesis using snoc.prems(1) [of l "foldl step p ls"] IH by simp
  next
    case (Some v)
    then show ?thesis using snoc.prems(1) [of l "foldl step p ls"] snoc.prems(2) [of l v] by simp
  qed
qed simp


definition packed_lines :: "text_lib \<Rightarrow> PackedRefs \<Rightarrow> string list" where
  "packed_lines E p = ''# packed-refs with: peeled fully-peeled sorted''
     # map (ref_line E THREADS_PREFIX) (pr_threads p) @ map (ref_line E MARKERS_PREFIX) (pr_markers p)"

lemma packed_to_text_lines:
  "packed_to_text E p = concat (map (\<lambda>l. l @ [CHR 0x0A]) (sort (packed_lines E p)))"
  by (simp add: packed_to_text_def packed_lines_def ref_line_def [abs_def] split_def Let_def)

lemma packed_parse_lines:
  assumes "text_ok E" "packed_ok E p"
  shows "packed_parse E (packed_to_text E p) = foldl (packed_line E) packed_new (sort (packed_lines E p))"
proof -
  have ref: "list_all line_char (ref_line E pre ni)"
    if "ni \<in> set (pr_threads p) \<union> set (pr_markers p)" "list_all line_char pre" for pre ni
  proof -
    have "validate_ref_name E (fst ni)" using that(1) assms(2) by (auto simp: packed_ok_def split_def)
    then have "list_all line_char (fst ni)" by (intro name_chars_line valid_name_chars [OF assms(1)])
    moreover have "list_all line_char (to_string_full E (snd ni))"
      using id_text_chars [OF assms(1)] id_char_name by (intro name_chars_line) (auto simp: list_all_iff)
    ultimately show ?thesis using that(2) by (simp add: ref_line_def line_char_def)
  qed
  have "list_all line_char THREADS_PREFIX" "list_all line_char MARKERS_PREFIX"
    "list_all line_char ''# packed-refs with: peeled fully-peeled sorted''"
    by code_simp+
  then have "list_all line_char l" if "l \<in> set (sort (packed_lines E p))" for l
    using that ref unfolding packed_lines_def set_sort by fastforce
  then show ?thesis unfolding packed_parse_def packed_to_text_lines by (subst str_lines_text) auto
qed

lemma header_line [simp]: "packed_line E p ''# packed-refs with: peeled fully-peeled sorted'' = p"
  by (simp add: packed_line_def)

lemma packed_set_get [simp]:
  "packed_get_thread (packed_set_thread name i p) n = (if n = name then Some i else packed_get_thread p n)"
  "packed_get_thread (packed_set_marker name i p) n = packed_get_thread p n"
  "packed_get_marker (packed_set_marker name i p) n = (if n = name then Some i else packed_get_marker p n)"
  "packed_get_marker (packed_set_thread name i p) n = packed_get_marker p n"
  "packed_get_thread packed_new n = None" "packed_get_marker packed_new n = None"
  by (simp_all add: packed_get_thread_def packed_get_marker_def packed_set_thread_def packed_set_marker_def
      packed_new_def update_conv)


lemma packed_lines_cases:
  assumes "l \<in> set (sort (packed_lines E p))"
  obtains "l = ''# packed-refs with: peeled fully-peeled sorted''"
  | name i where "(name, i) \<in> set (pr_threads p)" "l = ref_line E THREADS_PREFIX (name, i)"
  | name i where "(name, i) \<in> set (pr_markers p)" "l = ref_line E MARKERS_PREFIX (name, i)"
  using assms unfolding set_sort packed_lines_def by auto

text \<open>C17: Packed references with valid, distinct names are read back from their file, in whatever order its lines are sorted.\<close>

theorem packed_refs_roundtrip:
  assumes "text_ok E" "packed_ok E p"
  shows "packed_get_thread (packed_parse E (packed_to_text E p)) name = packed_get_thread p name
    \<and> packed_get_marker (packed_parse E (packed_to_text E p)) name = packed_get_marker p name"
proof -
  let ?ls = "sort (packed_lines E p)"
  have ok: "id_ok i" if "(n, i) \<in> set (pr_threads p) \<union> set (pr_markers p)" for n i
    using that assms(2) by (auto simp: packed_ok_def)
  have thread: "packed_line E q (ref_line E THREADS_PREFIX (n, i)) = packed_set_thread n i q" if "(n, i) \<in> set (pr_threads p)" for n i q
    by (rule packed_ref_line(1) [OF assms(1) ok [of n]]) (use that in simp)
  have marker: "packed_line E q (ref_line E MARKERS_PREFIX (n, i)) = packed_set_marker n i q" if "(n, i) \<in> set (pr_markers p)" for n i q
    by (rule packed_ref_line(2) [OF assms(1) ok [of n]]) (use that in simp)
  have dist: "distinct (map fst (pr_threads p))" "distinct (map fst (pr_markers p))" using assms(2) by (auto simp: packed_ok_def)
  have in_lines: "(n, i) \<in> set (pr_threads p) \<Longrightarrow> ref_line E THREADS_PREFIX (n, i) \<in> set ?ls"
    "(n, i) \<in> set (pr_markers p) \<Longrightarrow> ref_line E MARKERS_PREFIX (n, i) \<in> set ?ls" for n i
    unfolding set_sort packed_lines_def by auto
  let ?t = "\<lambda>l. packed_get_thread (packed_line E packed_new l) name"
  let ?m = "\<lambda>l. packed_get_marker (packed_line E packed_new l) name"
  have "packed_get_thread (foldl (packed_line E) packed_new ?ls) name
      = (if \<exists>l \<in> set ?ls. ?t l \<noteq> None then Some (the (map_of (pr_threads p) name)) else packed_get_thread packed_new name)"
  proof (rule foldl_assigns)
    show "packed_get_thread (packed_line E q l) name = (case ?t l of Some v \<Rightarrow> Some v | None \<Rightarrow> packed_get_thread q name)"
      if "l \<in> set ?ls" for l q
      using that by (rule packed_lines_cases) (simp_all add: thread marker)
    show "v = the (map_of (pr_threads p) name)" if "l \<in> set ?ls" "?t l = Some v" for l v
      using that(1) by (rule packed_lines_cases) (use that(2) dist in \<open>auto simp: thread marker split: if_splits\<close>)
  qed
  moreover have "(\<exists>l \<in> set ?ls. ?t l \<noteq> None) \<longleftrightarrow> map_of (pr_threads p) name \<noteq> None"
  proof
    assume "\<exists>l \<in> set ?ls. ?t l \<noteq> None"
    then obtain l where "l \<in> set ?ls" "?t l \<noteq> None" by blast
    then show "map_of (pr_threads p) name \<noteq> None"
      by (cases rule: packed_lines_cases) (use dist in \<open>auto simp: thread marker split: if_splits\<close>)
  next
    assume "map_of (pr_threads p) name \<noteq> None"
    then obtain i where i: "(name, i) \<in> set (pr_threads p)" by (auto dest: map_of_SomeD)
    then have "?t (ref_line E THREADS_PREFIX (name, i)) \<noteq> None" by (simp add: thread)
    then show "\<exists>l \<in> set ?ls. ?t l \<noteq> None" using in_lines(1) [OF i] by blast
  qed
  moreover have "packed_get_marker (foldl (packed_line E) packed_new ?ls) name
      = (if \<exists>l \<in> set ?ls. ?m l \<noteq> None then Some (the (map_of (pr_markers p) name)) else packed_get_marker packed_new name)"
  proof (rule foldl_assigns)
    show "packed_get_marker (packed_line E q l) name = (case ?m l of Some v \<Rightarrow> Some v | None \<Rightarrow> packed_get_marker q name)"
      if "l \<in> set ?ls" for l q
      using that by (rule packed_lines_cases) (simp_all add: thread marker)
    show "v = the (map_of (pr_markers p) name)" if "l \<in> set ?ls" "?m l = Some v" for l v
      using that(1) by (rule packed_lines_cases) (use that(2) dist in \<open>auto simp: thread marker split: if_splits\<close>)
  qed
  moreover have "(\<exists>l \<in> set ?ls. ?m l \<noteq> None) \<longleftrightarrow> map_of (pr_markers p) name \<noteq> None"
  proof
    assume "\<exists>l \<in> set ?ls. ?m l \<noteq> None"
    then obtain l where "l \<in> set ?ls" "?m l \<noteq> None" by blast
    then show "map_of (pr_markers p) name \<noteq> None"
      by (cases rule: packed_lines_cases) (use dist in \<open>auto simp: thread marker split: if_splits\<close>)
  next
    assume "map_of (pr_markers p) name \<noteq> None"
    then obtain i where i: "(name, i) \<in> set (pr_markers p)" by (auto dest: map_of_SomeD)
    then have "?m (ref_line E MARKERS_PREFIX (name, i)) \<noteq> None" by (simp add: marker)
    then show "\<exists>l \<in> set ?ls. ?m l \<noteq> None" using in_lines(2) [OF i] by blast
  qed
  ultimately show ?thesis
    unfolding packed_parse_lines [OF assms]
    by (cases "map_of (pr_threads p) name"; cases "map_of (pr_markers p) name")
      (simp_all add: packed_get_thread_def [of p] packed_get_marker_def [of p])
qed


section \<open>The summary\<close>

definition entry_ok :: "text_lib \<Rightarrow> RefSummaryEntry \<Rightarrow> bool" where
  "entry_ok E e \<longleftrightarrow> validate_ref_name E (se_name e) \<and> id_ok (se_state e)"

definition summary_ok :: "text_lib \<Rightarrow> RefSummaryIndex \<Rightarrow> bool" where
  "summary_ok E s \<longleftrightarrow>
     list_all (entry_ok E) (si_threads s) \<and> list_all (entry_ok E) (si_markers s)
     \<and> sorted_wrt (<) (map rs_name (si_remotes s))
     \<and> (\<forall>r \<in> set (si_remotes s). validate_ref_name E (rs_name r)
          \<and> (\<forall>t \<in> set (rs_threads r). validate_ref_name E (rt_name t) \<and> id_ok (rt_state t)))"

definition untabbed :: "string list \<Rightarrow> string" where
  "untabbed parts = concat (map (\<lambda>f. f @ [CHR 0x09]) (butlast parts)) @ last parts"

lemma tabbed_line: "tabbed parts = untabbed parts @ [CHR 0x0A]"
  by (simp add: tabbed_def untabbed_def)

definition entry_parts :: "text_lib \<Rightarrow> string \<Rightarrow> RefSummaryEntry \<Rightarrow> string list" where
  "entry_parts E kind e = [kind, se_name e, to_string_full E (se_state e), source_as_str (se_source e)]"

definition remote_parts :: "text_lib \<Rightarrow> RemoteSummaryEntry \<Rightarrow> string list list" where
  "remote_parts E r = [''remote'', rs_name r]
     # map (\<lambda>t. [''remote_thread'', rs_name r, rt_name t, to_string_full E (rt_state t)]) (rs_threads r)"

definition summary_parts :: "text_lib \<Rightarrow> RefSummaryIndex \<Rightarrow> string list list" where
  "summary_parts E s = map (entry_parts E ''thread'') (si_threads s) @ map (entry_parts E ''marker'') (si_markers s)
     @ concat (map (remote_parts E) (si_remotes s))"

lemma remote_lines_parts: "remote_lines E r = concat (map tabbed (remote_parts E r))"
  by (simp add: remote_lines_def remote_parts_def comp_def)

lemma summary_text_parts: "summary_to_text E s = concat (map (\<lambda>l. l @ [CHR 0x0A]) (REF_SUMMARY_VERSION # map untabbed (summary_parts E s)))"
proof -
  have "concat (map (remote_lines E) rs) = concat (map tabbed (concat (map (remote_parts E) rs)))" for rs
    by (induction rs) (simp_all add: remote_lines_parts)
  then show ?thesis
    by (simp add: summary_to_text_def summary_parts_def entry_line_def [abs_def] entry_parts_def [abs_def] tabbed_line [abs_def] comp_def)
qed

lemma source_parse_str [simp]: "source_parse (source_as_str x) = Inr x"
  by (cases x) (simp_all add: source_parse_def)

lemma parse_summary_full:
  assumes "text_ok E" "id_ok i"
  shows "parse_summary_state_id E (to_string_full E i) = Inr i"
proof -
  let ?s = "to_string_full E i"
  have n: "?s \<noteq> []" by (simp add: to_string_full_def)
  then have "id_char (hd ?s)" "id_char (hd (rev ?s))"
    using id_text_chars [OF assms(1), of i] by (simp_all add: list_all_iff hd_rev)
  with n have "trim_with white_space ?s = ?s" "trim_with (map rev white_space) (rev ?s) = rev ?s"
    using white_space_ends by (intro trim_with_id; force)+
  then have "trim_str ?s = ?s" by (simp add: trim_str_def)
  then show ?thesis using assms by (simp add: parse_summary_state_id_def parse_state_id_text_def)
qed

definition part_char :: "char \<Rightarrow> bool" where
  "part_char c \<longleftrightarrow> c \<noteq> CHR 0x09 \<and> c \<noteq> CHR 0x0A \<and> c \<noteq> CHR 0x0D"

lemma name_parts: "list_all name_char s \<Longrightarrow> list_all part_char s"
  using name_char_not_space by (fastforce simp: list_all_iff part_char_def)

lemma summary_parts_chars:
  assumes "text_ok E" "summary_ok E s" "ps \<in> set (summary_parts E s)" "q \<in> set ps"
  shows "list_all part_char q"
proof -
  have n: "list_all part_char n" if "validate_ref_name E n" for n
    using that by (intro name_parts valid_name_chars [OF assms(1)])
  have i: "list_all part_char (to_string_full E i)" for i
    using id_text_chars [OF assms(1), of i] id_char_name by (intro name_parts) (auto simp: list_all_iff)
  have k: "list_all part_char ''thread''" "list_all part_char ''marker''" "list_all part_char ''remote''"
    "list_all part_char ''remote_thread''" "list_all part_char (source_as_str x)" for x
    by code_simp+ (cases x; simp add: part_char_def)
  show ?thesis
    using assms(2-4) n i k
    by (auto simp: summary_parts_def entry_parts_def remote_parts_def summary_ok_def entry_ok_def list_all_iff [of "entry_ok E"])
qed

lemma untabbed_split:
  assumes "ps \<noteq> []" "\<And>p. p \<in> set ps \<Longrightarrow> list_all part_char p"
  shows "split_char (CHR 0x09) (untabbed ps) = ps"
  unfolding untabbed_def
  by (rule split_joined) (use assms in \<open>auto simp: list_all_iff part_char_def\<close>)


lemma untabbed_line:
  assumes "ps \<noteq> []" "\<And>p. p \<in> set ps \<Longrightarrow> list_all part_char p"
  shows "list_all line_char (untabbed ps)"
proof -
  have "list_all line_char p" if "p \<in> set ps" for p
    using assms(2) [OF that] by (auto simp: list_all_iff part_char_def line_char_def)
  moreover have "last ps \<in> set ps" "set (butlast ps) \<subseteq> set ps" using assms(1) by (auto dest: in_set_butlastD)
  ultimately have "list_all line_char (last ps)" "\<And>p. p \<in> set (butlast ps) \<Longrightarrow> list_all line_char p" by auto
  moreover have "line_char (CHR 0x09)" by (simp add: line_char_def)
  ultimately show ?thesis by (auto simp: untabbed_def list_all_iff)
qed

text \<open>What the lines of the three kinds add to the rows.\<close>

lemma summary_line_entry:
  assumes "text_ok E" "entry_ok E e" "split_char (CHR 0x09) (untabbed (entry_parts E k e)) = entry_parts E k e"
  shows "k = ''thread'' \<Longrightarrow> summary_line E (untabbed (entry_parts E k e)) (ts, ms, rs) = Inr (ts @ [e], ms, rs)"
    "k = ''marker'' \<Longrightarrow> summary_line E (untabbed (entry_parts E k e)) (ts, ms, rs) = Inr (ts, ms @ [e], rs)"
proof -
  have n: "untabbed (entry_parts E k e) \<noteq> []" by (simp add: untabbed_def entry_parts_def)
  have e: "entry_of E (se_name e) (to_string_full E (se_state e)) (source_as_str (se_source e)) = Inr e"
    using parse_summary_full assms(1,2) by (simp add: entry_of_def entry_ok_def)
  show "k = ''thread'' \<Longrightarrow> summary_line E (untabbed (entry_parts E k e)) (ts, ms, rs) = Inr (ts @ [e], ms, rs)"
    "k = ''marker'' \<Longrightarrow> summary_line E (untabbed (entry_parts E k e)) (ts, ms, rs) = Inr (ts, ms @ [e], rs)"
    using n e unfolding summary_line_def assms(3) by (simp_all add: entry_parts_def)
qed

lemma summary_lines_append:
  "summary_lines E (xs @ ys) rows = and_then (summary_lines E xs rows) (summary_lines E ys)"
  by (induction xs arbitrary: rows) (auto simp: and_then_def split: sum.splits)

lemma entry_extend_new:
  "map_of m k = None \<Longrightarrow> entry_extend k xs m = m @ [(k, xs)]"
  by (induction m) (auto simp: entry_extend_def split: if_splits)

lemma entry_extend_last:
  "map_of m k = None \<Longrightarrow> entry_extend k ys (m @ [(k, xs)]) = m @ [(k, xs @ ys)]"
proof -
  assume a: "map_of m k = None"
  have "AList.update k v (m @ [(k, xs)]) = m @ [(k, v)]" for v
    using a by (induction m) (auto split: if_splits)
  then show ?thesis using a by (simp add: entry_extend_def map_add_def)
qed

lemma summary_lines_remote:
  assumes "text_ok E" "map_of rs (rs_name r) = None" "\<forall>t \<in> set (rs_threads r). id_ok (rt_state t)"
    and "\<And>ps. ps \<in> set (remote_parts E r) \<Longrightarrow> split_char (CHR 0x09) (untabbed ps) = ps"
  shows "summary_lines E (map untabbed (remote_parts E r)) (ts, ms, rs) = Inr (ts, ms, rs @ [(rs_name r, rs_threads r)])"
proof -
  let ?row = "\<lambda>t. [''remote_thread'', rs_name r, rt_name t, to_string_full E (rt_state t)]"
  have n: "untabbed (?row t) \<noteq> []" "untabbed [''remote'', rs_name r] \<noteq> []" for t by (simp_all add: untabbed_def)
  have "summary_lines E (map (\<lambda>t. untabbed (?row t)) xs) (ts, ms, rs @ [(rs_name r, done)])
      = Inr (ts, ms, rs @ [(rs_name r, done @ xs)])"
    if "set xs \<subseteq> set (rs_threads r)" for xs "done"
    using that
  proof (induction xs arbitrary: "done")
    case (Cons t xs)
    have "summary_line E (untabbed (?row t)) (ts, ms, rs @ [(rs_name r, done)])
        = Inr (ts, ms, rs @ [(rs_name r, done @ [\<lparr>rt_name = rt_name t, rt_state = rt_state t\<rparr>])])"
      using n(1) [of t] assms(4) [of "?row t"] parse_summary_full [OF assms(1), of "rt_state t"] assms(3) Cons.prems
        entry_extend_last [OF assms(2)]
      by (simp add: summary_line_def remote_parts_def)
    moreover have "\<lparr>rt_name = rt_name t, rt_state = rt_state t\<rparr> = t" by simp
    ultimately show ?case using Cons.IH [of "done @ [t]"] Cons.prems by simp
  qed simp
  from this [of "rs_threads r" "[]"] show ?thesis
    using n(2) assms(4) [of "[''remote'', rs_name r]"] entry_extend_new [OF assms(2), of "[]"]
    by (simp add: remote_parts_def summary_line_def comp_def)
qed


lemma summary_lines_remotes:
  assumes "text_ok E" "distinct (map rs_name xs)" "\<And>r. r \<in> set xs \<Longrightarrow> map_of rs (rs_name r) = None"
    and "\<And>r t. r \<in> set xs \<Longrightarrow> t \<in> set (rs_threads r) \<Longrightarrow> id_ok (rt_state t)"
    and "\<And>r ps. r \<in> set xs \<Longrightarrow> ps \<in> set (remote_parts E r) \<Longrightarrow> split_char (CHR 0x09) (untabbed ps) = ps"
  shows "summary_lines E (map untabbed (concat (map (remote_parts E) xs))) (ts, ms, rs)
    = Inr (ts, ms, rs @ map (\<lambda>r. (rs_name r, rs_threads r)) xs)"
  using assms(2-)
proof (induction xs arbitrary: rs)
  case (Cons r xs)
  have "summary_lines E (map untabbed (remote_parts E r)) (ts, ms, rs) = Inr (ts, ms, rs @ [(rs_name r, rs_threads r)])"
  proof (rule summary_lines_remote [OF assms(1)])
    show "split_char (CHR 0x09) (untabbed ps) = ps" if "ps \<in> set (remote_parts E r)" for ps
      by (rule Cons.prems(4) [OF _ that]) simp
  qed (use Cons.prems(2,3) in auto)
  moreover have "summary_lines E (map untabbed (concat (map (remote_parts E) xs))) (ts, ms, rs @ [(rs_name r, rs_threads r)])
      = Inr (ts, ms, (rs @ [(rs_name r, rs_threads r)]) @ map (\<lambda>r. (rs_name r, rs_threads r)) xs)"
  proof (rule Cons.IH)
    show "split_char (CHR 0x09) (untabbed ps) = ps" if "x \<in> set xs" "ps \<in> set (remote_parts E x)" for x ps
      by (rule Cons.prems(4) [OF _ that(2)]) (use that in simp)
    show "map_of (rs @ [(rs_name r, rs_threads r)]) (rs_name x) = None" if "x \<in> set xs" for x
    proof -
      have "rs_name x \<noteq> rs_name r" using that Cons.prems(1) by (metis distinct.simps(2) list.simps(9) in_set_conv_nth nth_map nth_mem length_map)
      then show ?thesis using that Cons.prems(2) [of x] by (simp add: map_add_def)
    qed
  qed (use Cons.prems(1,3) in auto)
  ultimately show ?case by (simp add: summary_lines_append)
qed simp

lemma summary_lines_entries:
  assumes "text_ok E" "list_all (entry_ok E) xs"
    and "\<And>e. e \<in> set xs \<Longrightarrow> split_char (CHR 0x09) (untabbed (entry_parts E k e)) = entry_parts E k e"
  shows "k = ''thread'' \<Longrightarrow> summary_lines E (map (untabbed \<circ> entry_parts E k) xs) (ts, ms, rs) = Inr (ts @ xs, ms, rs)"
    "k = ''marker'' \<Longrightarrow> summary_lines E (map (untabbed \<circ> entry_parts E k) xs) (ts, ms, rs) = Inr (ts, ms @ xs, rs)"
  using assms(2-) by (induction xs arbitrary: ts ms) (auto simp: summary_line_entry [OF assms(1)])

lemma summary_rows:
  assumes "text_ok E" "summary_ok E s"
    and "\<And>ps. ps \<in> set (summary_parts E s) \<Longrightarrow> split_char (CHR 0x09) (untabbed ps) = ps"
  shows "summary_lines E (map untabbed (summary_parts E s)) ([], [], [])
    = Inr (si_threads s, si_markers s, map (\<lambda>r. (rs_name r, rs_threads r)) (si_remotes s))"
proof -
  have ok: "list_all (entry_ok E) (si_threads s)" "list_all (entry_ok E) (si_markers s)"
    "distinct (map rs_name (si_remotes s))" "\<And>r t. r \<in> set (si_remotes s) \<Longrightarrow> t \<in> set (rs_threads r) \<Longrightarrow> id_ok (rt_state t)"
    using assms(2) by (auto simp: summary_ok_def strict_sorted_iff)
  have "split_char (CHR 0x09) (untabbed (entry_parts E ''thread'' e)) = entry_parts E ''thread'' e" if "e \<in> set (si_threads s)" for e
    using that by (intro assms(3)) (simp add: summary_parts_def)
  note threads = summary_lines_entries(1) [OF assms(1) ok(1) this refl, of "[]" "[]" "[]"]
  have "split_char (CHR 0x09) (untabbed (entry_parts E ''marker'' e)) = entry_parts E ''marker'' e" if "e \<in> set (si_markers s)" for e
    using that by (intro assms(3)) (simp add: summary_parts_def)
  note markers = summary_lines_entries(2) [OF assms(1) ok(2) this refl, of "si_threads s" "[]" "[]"]
  have row: "split_char (CHR 0x09) (untabbed ps) = ps" if "r \<in> set (si_remotes s)" "ps \<in> set (remote_parts E r)" for r ps
    using that by (intro assms(3)) (auto simp: summary_parts_def)
  have "summary_lines E (map untabbed (concat (map (remote_parts E) (si_remotes s)))) (si_threads s, si_markers s, [])
      = Inr (si_threads s, si_markers s, [] @ map (\<lambda>r. (rs_name r, rs_threads r)) (si_remotes s))"
    by (rule summary_lines_remotes [OF assms(1) ok(3) _ ok(4) row]) auto
  then show ?thesis using threads markers by (simp add: summary_parts_def summary_lines_append)
qed

text \<open>The summary file is read back.\<close>

theorem summary_roundtrip:
  assumes "text_ok E" "summary_ok E s"
  shows "summary_parse E (summary_to_text E s) = Inr s"
proof -
  let ?rows = "map untabbed (summary_parts E s)"
  have ne: "ps \<noteq> []" if "ps \<in> set (summary_parts E s)" for ps
    using that by (auto simp: summary_parts_def entry_parts_def remote_parts_def)
  have chars: "\<And>p. p \<in> set ps \<Longrightarrow> list_all part_char p" if "ps \<in> set (summary_parts E s)" for ps
    using summary_parts_chars [OF assms that] .
  have split: "split_char (CHR 0x09) (untabbed ps) = ps" if "ps \<in> set (summary_parts E s)" for ps
    by (rule untabbed_split [OF ne [OF that] chars [OF that]])
  have "list_all line_char l" if "l \<in> set (REF_SUMMARY_VERSION # ?rows)" for l
  proof -
    have "list_all line_char REF_SUMMARY_VERSION" by code_simp
    then show ?thesis using that untabbed_line [OF ne chars] by auto
  qed
  then have lines: "str_lines (summary_to_text E s) = REF_SUMMARY_VERSION # ?rows"
    unfolding summary_text_parts by (rule str_lines_text)
  let ?rs = "map (\<lambda>r. (rs_name r, rs_threads r)) (si_remotes s)"
  have sorted: "sorted (map rs_name (si_remotes s))" "distinct (map rs_name (si_remotes s))"
    using assms(2) by (simp_all add: summary_ok_def strict_sorted_iff)
  then have "sort (remdups (map fst ?rs)) = map rs_name (si_remotes s)"
    by (simp add: comp_def distinct_remdups_id sorted_sort_id)
  moreover have "map (\<lambda>name. \<lparr>rs_name = name, rs_threads = (case map_of ?rs name of Some v \<Rightarrow> v | None \<Rightarrow> [])\<rparr>)
      (map rs_name (si_remotes s)) = si_remotes s"
  proof -
    have "map_of ?rs (rs_name r) = Some (rs_threads r)" if "r \<in> set (si_remotes s)" for r
      using that sorted(2) by (intro map_of_is_SomeI) (auto simp: comp_def)
    then show ?thesis by (simp add: map_idI)
  qed
  ultimately show ?thesis
    by (simp add: summary_parse_def lines summary_rows [OF assms split])
qed

section \<open>A library and small instances\<close>

text \<open>Two symbols of base32 for a byte; names of printable characters without a space.\<close>

definition letter :: "nat \<Rightarrow> char" where
  "letter n = ''0123456789abcdef'' ! n"

definition letter_value :: "char \<Rightarrow> nat" where
  "letter_value c = length (takeWhile (\<lambda>x. x \<noteq> c) ''0123456789abcdef'')"

lemma letters: "n < 16 \<Longrightarrow> letter_value (letter n) = n \<and> b32_char (letter n)"
proof -
  have "list_all (\<lambda>n. letter_value (letter n) = n \<and> b32_char (letter n)) [0..<16]" by code_simp
  then show "n < 16 \<Longrightarrow> letter_value (letter n) = n \<and> b32_char (letter n)" by (simp add: list_all_iff)
qed

fun letters_decode :: "string \<Rightarrow> bytes option" where
  "letters_decode [] = Some []"
| "letters_decode [c] = None"
| "letters_decode (c # d # s) =
     map_option ((#) (word_of_nat (letter_value c * 16 + letter_value d))) (letters_decode s)"

definition letters_encode :: "bytes \<Rightarrow> string" where
  "letters_encode bs = concat (map (\<lambda>b. [letter (unat b div 16), letter (unat b mod 16)]) bs)"

definition letters_lib :: text_lib where
  "letters_lib = \<lparr>b32_lower = letters_encode, b32_upper = letters_decode,
     check_refname_format = (\<lambda>s. list_all name_char s), branch_name_ok = (\<lambda>s. s \<noteq> [] \<and> list_all name_char s)\<rparr>"

lemma unat_div_16: "unat (b :: u8) div 16 < 16"
proof -
  have "unat b < 256" using unsigned_less [of b] by simp
  then show ?thesis by (simp add: less_mult_imp_div_less)
qed

lemma letters_roundtrip: "letters_decode (letters_encode bs) = Some bs"
  by (induction bs) (simp_all add: letters_encode_def letters unat_div_16)

lemma letters_lib_ok: "text_ok letters_lib"
proof -
  have "list_all b32_char (letters_encode bs)" for bs
    by (auto simp: letters_encode_def list_all_iff letters unat_div_16)
  then show ?thesis by (simp add: text_ok_def letters_lib_def letters_roundtrip)
qed

definition id_of :: "nat \<Rightarrow> StateId" where "id_of n = replicate 31 0 @ [word_of_nat n]"

lemma id_of_ok [simp]: "id_ok (id_of n)"
  by (simp add: id_ok_def id_of_def)

theorem head_roundtrip_witness:
  "head_parse letters_lib (head_to_text letters_lib (Attached ''main'')) = Some (Attached ''main'')
    \<and> head_parse letters_lib (describe_head letters_lib (Attached ''main'') @ [CHR 0x0D, CHR 0x0A]) = Some (Attached ''main'')"
  by (rule head_roundtrip [OF letters_lib_ok]) code_simp

definition two_refs :: PackedRefs where
  "two_refs = \<lparr>pr_threads = [(''main'', id_of 1)], pr_markers = [(''v1'', id_of 2)]\<rparr>"

theorem packed_refs_roundtrip_witness:
  "packed_get_thread (packed_parse letters_lib (packed_to_text letters_lib two_refs)) ''main'' = packed_get_thread two_refs ''main''
    \<and> packed_get_marker (packed_parse letters_lib (packed_to_text letters_lib two_refs)) ''main'' = packed_get_marker two_refs ''main''"
  by (rule packed_refs_roundtrip [OF letters_lib_ok]) code_simp

definition small_summary :: RefSummaryIndex where
  "small_summary = \<lparr>si_threads = [\<lparr>se_name = ''main'', se_state = id_of 1, se_source = LooseAndPacked\<rparr>], si_markers = [],
     si_remotes = [\<lparr>rs_name = ''origin'', rs_threads = [\<lparr>rt_name = ''main'', rt_state = id_of 2\<rparr>]\<rparr>]\<rparr>"

theorem summary_roundtrip_witness:
  "summary_parse letters_lib (summary_to_text letters_lib small_summary) = Inr small_summary"
  by (rule summary_roundtrip [OF letters_lib_ok]) code_simp

end
