(* ===== verification/Ref_Reconciler_Correct.thy ===== *)
theory Ref_Reconciler_Correct
  imports Ref_Reconciler Oplog_Properties Refs_Text_Correct
begin

text \<open>
  The reconciler of references refines a fold over the one log of entries: what it finds is the newest committed
  target of every reference after the watermark. The last section shows what that does across the two classes.
\<close>

declare upt_Suc [simp del]

section \<open>The fold over the log\<close>

text \<open>
  The entries the reconciler looks at: not undone, after the watermark and, in a scope, of a batch that has only
  entries of that scope after the watermark.
\<close>

definition committed_tail :: "'t OpEntry list \<Rightarrow> nat \<Rightarrow> string option \<Rightarrow> 't OpEntry list" where
  "committed_tail log since scope =
     filter (\<lambda>e. \<not> undone e \<and> since < entry_id e
       \<and> (case scope of None \<Rightarrow> True
          | Some s \<Rightarrow> list_all (\<lambda>e'. effective_batch_id e' = effective_batch_id e \<and> since < entry_id e'
              \<longrightarrow> entry_scope e' = Some s) log)) log"

definition tail_fold :: "'t OpEntry list \<Rightarrow> nat \<Rightarrow> string option \<Rightarrow> Fold" where
  "tail_fold log since scope = fold (\<lambda>e. fold_apply (operation e)) (committed_tail log since scope) fold_default"

definition class_scope :: "string \<Rightarrow> RefClass \<Rightarrow> string option" where
  "class_scope op_scope class = (case class of LocalClass \<Rightarrow> Some op_scope | SharedClass \<Rightarrow> None)"

definition reconcile_log ::
  "string \<Rightarrow> LoadRequest \<Rightarrow> (string \<Rightarrow> string list outcome) \<Rightarrow> Loaded \<Rightarrow> nat \<Rightarrow> 't OpEntry list \<Rightarrow> ReconcileOutcome outcome" where
  "reconcile_log op_scope req list_raw raw since log =
     (let class = ref_class req; f = tail_fold log since (class_scope op_scope class);
          (republish, remote_updates, undo_recovery) = class_materialization class f
      in and_then (reconciled_value req list_raw raw f) (\<lambda>loaded.
           Inr \<lparr>oc_loaded = loaded, oc_republish = republish, oc_remote_updates = remote_updates,
                oc_undo_recovery = undo_recovery\<rparr>))"

lemma entries_eqI:
  assumes "sorted (map entry_id xs)" "sorted (map entry_id ys)" "distinct xs" "distinct ys" "set xs = set ys"
    and "inj_on entry_id (set xs)"
  shows "xs = ys"
proof -
  have "distinct (map entry_id xs)" "distinct (map entry_id ys)"
    using assms by (simp_all add: distinct_map)
  then have "map entry_id xs = map entry_id ys"
    using assms by (intro sorted_distinct_set_unique) auto
  then show ?thesis using assms(5,6) by (simp add: inj_on_map_eq_map)
qed

lemma log_batches_entries:
  "set (concat (map opb_entries (log_batches log since (\<lambda>_. True) scope)))
    = {e \<in> set log. since < entry_id e \<and> (\<forall>s. scope = Some s \<longrightarrow>
        (\<forall>e' \<in> set log. effective_batch_id e' = effective_batch_id e \<and> since < entry_id e' \<longrightarrow> entry_scope e' = Some s))}"
proof -
  have b: "set (opb_entries (log_batch log since b)) = {e \<in> set log. effective_batch_id e = b \<and> since < entry_id e}" for b
    by (auto simp: log_batch_def)
  show ?thesis
  proof (rule set_eqI, rule iffI)
    fix e assume "e \<in> set (concat (map opb_entries (log_batches log since (\<lambda>_. True) scope)))"
    then show "e \<in> {e \<in> set log. since < entry_id e \<and> (\<forall>s. scope = Some s \<longrightarrow>
        (\<forall>e' \<in> set log. effective_batch_id e' = effective_batch_id e \<and> since < entry_id e' \<longrightarrow> entry_scope e' = Some s))}"
      by (auto simp: log_batches_def batch_order_def b in_scope_def)
  next
    fix e assume e: "e \<in> {e \<in> set log. since < entry_id e \<and> (\<forall>s. scope = Some s \<longrightarrow>
        (\<forall>e' \<in> set log. effective_batch_id e' = effective_batch_id e \<and> since < entry_id e' \<longrightarrow> entry_scope e' = Some s))}"
    let ?b = "log_batch log since (effective_batch_id e)"
    have "e \<in> set (opb_entries ?b)" "in_scope scope ?b" using e by (auto simp: b in_scope_def)
    then have "?b \<in> set (log_batches log since (\<lambda>_. True) scope)" using e by (auto simp: log_batches_def batch_order_def)
    then show "e \<in> set (concat (map opb_entries (log_batches log since (\<lambda>_. True) scope)))"
      using \<open>e \<in> set (opb_entries ?b)\<close> by auto
  qed
qed

lemma log_batches_distinct:
  assumes "distinct log"
  shows "distinct (concat (map opb_entries (log_batches log since (\<lambda>_. True) scope)))"
proof -
  let ?bs = "filter (\<lambda>b. opb_entries (log_batch log since b) \<noteq> [] \<and> in_scope scope (log_batch log since b)) (batch_order log)"
  have "log_batches log since (\<lambda>_. True) scope = map (log_batch log since) ?bs"
    by (simp add: log_batches_def filter_map comp_def)
  then have "concat (map opb_entries (log_batches log since (\<lambda>_. True) scope)) = concat (map (\<lambda>b. opb_entries (log_batch log since b)) ?bs)"
    by (simp add: comp_def)
  moreover have "distinct ?bs" by (simp add: batch_order_def)
  moreover have "distinct (concat (map (\<lambda>b. opb_entries (log_batch log since b)) bs))" if "distinct bs" for bs
    using that assms by (induction bs) (auto simp: log_batch_def)
  ultimately show ?thesis by simp
qed

lemma fold_batches_tail:
  assumes "map entry_id log = [1..<Suc (length log)]"
  shows "fold_batches (log_batches log since (\<lambda>_. True) scope) since = tail_fold log since scope"
proof -
  have d: "distinct (map entry_id log)" "sorted (map entry_id log)" unfolding assms by simp_all
  let ?xs = "filter (\<lambda>e. \<not> undone e \<and> since < entry_id e) (concat (map opb_entries (log_batches log since (\<lambda>_. True) scope)))"
  have "sort_key entry_id ?xs = committed_tail log since scope"
  proof (rule entries_eqI)
    show "sorted (map entry_id (committed_tail log since scope))"
      using d(2) by (simp add: committed_tail_def sorted_filter)
    show "distinct (sort_key entry_id ?xs)" "distinct (committed_tail log since scope)"
      using d(1) log_batches_distinct [of log since scope] by (simp_all add: committed_tail_def distinct_map distinct_filter)
    show "set (sort_key entry_id ?xs) = set (committed_tail log since scope)"
      using log_batches_entries [of log since scope] by (auto simp: committed_tail_def list_all_iff split: option.splits)
    show "inj_on entry_id (set (sort_key entry_id ?xs))"
      by (rule inj_on_subset [of _ "set log"]) (use d(1) log_batches_entries [of log since scope] in \<open>auto simp: distinct_map\<close>)
  qed simp
  then show ?thesis by (simp add: fold_batches_def tail_fold_def)
qed

lemma log_batches_few: "length (log_batches log since P scope) \<le> length log"
proof -
  have "length (log_batches log since P scope) \<le> length (batch_order log)" by (simp add: log_batches_def order.trans [OF length_filter_le])
  also have "\<dots> \<le> length (map effective_batch_id log)" unfolding batch_order_def length_rev by (rule length_remdups_leq)
  finally show ?thesis by simp
qed

lemma fresh_log_holds: "stores d s log \<Longrightarrow> holds (fresh_log actor d) log"
  by (auto simp: holds_def fresh_log_def)

lemma fresh_pending [simp]: "finish_pending_reconstructible_view (fresh_log actor d) = (fresh_log actor d, Inr ())"
  by (simp add: finish_pending_reconstructible_view_def fresh_log_def)

lemma fresh_refresh:
  assumes "stores d s log"
  shows "\<exists>st' s'. refresh_cached env (fresh_log actor d) = (st', Inr s') \<and> ol_disk st' = d \<and> stores d s' log"
    "ensure_current_format env (fresh_log actor d) = (fresh_log actor d, Inr ())"
proof -
  have d: "ol_disk (fresh_log actor d) = d" by (simp add: fresh_log_def)
  show e: "ensure_current_format env (fresh_log actor d) = (fresh_log actor d, Inr ())"
    using reload_ok [OF fresh_log_holds [OF assms], of env actor] by blast
  have "sg_exists d" using assms by (auto simp: stores_def intro: on_disk_exists)
  then show "\<exists>st' s'. refresh_cached env (fresh_log actor d) = (st', Inr s') \<and> ol_disk st' = d \<and> stores d s' log"
    using assms by (simp add: refresh_cached_def e reload_cached_def open_index_for_read_def d stores_open [OF assms])
qed

text \<open>C15: The reconciler refines a fold over the log: its generation is the length of the log, and what it finds for
  a request is the fold of the entries after the watermark, in the order of their ids; it changes nothing.\<close>

theorem reconciler_refines_fold:
  assumes "stores d s log"
  shows "rr_generation (OplogRefReconciler actor env op_scope) d = (d, Inr (length log))
    \<and> rr_reconcile (OplogRefReconciler actor env op_scope) req list_raw raw since d
        = (d, reconcile_log op_scope req list_raw raw since log)"
proof -
  note fresh = fresh_refresh [OF assms]
  obtain st' s' where r: "refresh_cached env (fresh_log actor d) = (st', Inr s')" "ol_disk st' = d" "stores d s' log"
    using fresh(1) by blast
  have "sg_read_head_id d = Inr (length log)" by (rule on_disk_head [OF assms])
  then have gen: "on_fresh actor (oplog_head_id env) d = (d, Inr (length log))"
    by (simp add: on_fresh_def oplog_head_id_def fresh(2)) (simp add: fresh_log_def)
  have "length (log_batches log since (\<lambda>_. True) scope) \<le> usize_max" for scope
    using log_batches_few [of log since "\<lambda>_. True" scope] stores_log(3) [OF assms] by (simp add: log_small_def)
  then have batches: "on_fresh actor (\<lambda>st. recent_batches_after_scoped env st since usize_max scope) d
      = (d, Inr (log_batches log since (\<lambda>_. True) scope))" for scope
    using r(2) by (simp add: on_fresh_def recent_batches_after_scoped_def r(1) stores_reads(4) [OF r(3)])
  show ?thesis
    using gen batches
    by (auto simp: OplogRefReconciler_def reconciler_reconcile_def fold_batches_tail [OF stores_log(1) [OF assms]]
        reconcile_log_def class_scope_def Let_def io_read_def and_then_def split: prod.splits sum.splits RefClass.splits)
qed


theorem reconciler_refines_fold_witness:
  "rr_generation (OplogRefReconciler (ol_actor empty_log) quiet_env ''main'') (ol_disk commit_log) = (ol_disk commit_log, Inr 2)
    \<and> (\<exists>oc. rr_reconcile (OplogRefReconciler (ol_actor empty_log) quiet_env ''main'') (LoadMarker ''v1'') (\<lambda>_. Inr []) (LoadedPoint None) 0
          (ol_disk commit_log) = (ol_disk commit_log, Inr oc)
        \<and> oc_loaded oc = LoadedPoint (Some []))"
proof -
  obtain s where "stores (ol_disk commit_log) s commit_entries" using commit_log_holds(2) by (auto simp: holds_def)
  note refines = reconciler_refines_fold [OF this, of "ol_actor empty_log" quiet_env "''main''" "LoadMarker ''v1''" "\<lambda>_. Inr []" "LoadedPoint None" 0]
  have "length commit_entries = 2" by (simp add: commit_entries_def recorded_def one_commit_def)
  moreover have "case reconcile_log ''main'' (LoadMarker ''v1'') (\<lambda>_. Inr []) (LoadedPoint None) 0 commit_entries of
      Inr oc \<Rightarrow> oc_loaded oc = LoadedPoint (Some []) | Inl e \<Rightarrow> False"
    by (simp add: reconcile_log_def class_scope_def class_materialization_def reconciled_value_def fill_point_def tail_fold_def
        committed_tail_def commit_entries_def recorded_def one_commit_def fold_default_def put_marker_def Let_def
        build_entries_def enumerate_eq_zip upt_Suc)
  ultimately show ?thesis using refines by (auto split: sum.splits)
qed


section \<open>The newest committed target\<close>

text \<open>What a record does to a thread: sets it, deletes it, or leaves it.\<close>

fun thread_effect :: "string \<Rightarrow> OpRecord \<Rightarrow> StateId option option" where
  "thread_effect name (Snapshot new_state _ _ (Some n)) = (if n = name then Some (Some new_state) else None)"
| "thread_effect name (ThreadCreate n state _) = (if n = name then Some (Some state) else None)"
| "thread_effect name (ThreadUpdate n _ new_state _) = (if n = name then Some (Some new_state) else None)"
| "thread_effect name (ThreadDelete n _) = (if n = name then Some None else None)"
| "thread_effect name (Fork _ new_state (Some n) _) = (if n = name then Some (Some new_state) else None)"
| "thread_effect name (Collapse _ result (Some n) _) = (if n = name then Some (Some result) else None)"
| "thread_effect name (Checkpoint _ state (Some n)) = (if n = name then Some (Some state) else None)"
| "thread_effect name (FastForward n _ _ post) = (if n = name then Some (Some post) else None)"
| "thread_effect name (EphemeralThreadCollapse n _) = (if n = name then Some None else None)"
| "thread_effect name _ = None"

fun marker_effect :: "string \<Rightarrow> OpRecord \<Rightarrow> StateId option option" where
  "marker_effect name (MarkerCreate n state) = (if n = name then Some (Some state) else None)"
| "marker_effect name (MarkerDelete n _) = (if n = name then Some None else None)"
| "marker_effect name _ = None"

lemma map_of_btree_insert [simp]: "map_of (btree_insert k v m) = (map_of m)(k \<mapsto> v)"
  by (induction k v m rule: btree_insert.induct) auto

lemma thread_of_apply:
  "map_of (fd_threads (fold_apply r f)) name
    = (case thread_effect name r of Some v \<Rightarrow> Some v | None \<Rightarrow> map_of (fd_threads f) name)"
  by (cases r) (auto simp: put_thread_def put_head_def put_marker_def put_remote_def Let_def split: option.splits)

lemma marker_of_apply:
  "map_of (fd_markers (fold_apply r f)) name
    = (case marker_effect name r of Some v \<Rightarrow> Some v | None \<Rightarrow> map_of (fd_markers f) name)"
  by (cases r) (auto simp: put_thread_def put_head_def put_marker_def put_remote_def Let_def split: option.splits)

definition newest :: "(OpRecord \<Rightarrow> 'a option) \<Rightarrow> 't OpEntry list \<Rightarrow> 'a option" where
  "newest effect es = (case List.map_filter (effect \<circ> operation) (rev es) of [] \<Rightarrow> None | v # _ \<Rightarrow> Some v)"

lemma newest_snoc: "newest effect (es @ [e]) = (case effect (operation e) of Some v \<Rightarrow> Some v | None \<Rightarrow> newest effect es)"
  by (simp add: newest_def List.map_filter_simps split: option.splits)

lemma fold_newest:
  assumes "\<And>r f. get (fold_apply r f) = (case effect r of Some v \<Rightarrow> Some v | None \<Rightarrow> get f)"
  shows "get (fold (\<lambda>e. fold_apply (operation e)) es f) = (case newest effect es of Some v \<Rightarrow> Some v | None \<Rightarrow> get f)"
  by (induction es rule: rev_induct) (simp_all add: newest_def [of _ "[]"] List.map_filter_simps assms newest_snoc split: option.splits)

text \<open>C16: A read of a thread or a marker that lags answers with the newest committed, not undone target after the
  watermark, be it a state or a deletion, and with the stored value when there is none.\<close>

theorem reconciled_points_newest:
  "(case reconcile_log op_scope (LoadThread name) list_raw (LoadedPoint stored) since log of
      Inr oc \<Rightarrow> oc_loaded oc = LoadedPoint (case newest (thread_effect name) (committed_tail log since None) of
          Some v \<Rightarrow> v | None \<Rightarrow> stored)
    | Inl e \<Rightarrow> False)
   \<and> (case reconcile_log op_scope (LoadMarker name) list_raw (LoadedPoint stored) since log of
      Inr oc \<Rightarrow> oc_loaded oc = LoadedPoint (case newest (marker_effect name) (committed_tail log since None) of
          Some v \<Rightarrow> v | None \<Rightarrow> stored)
    | Inl e \<Rightarrow> False)"
proof -
  have t: "map_of (fd_threads (tail_fold log since None)) name = newest (thread_effect name) (committed_tail log since None)"
    unfolding tail_fold_def
    by (subst fold_newest [where effect = "thread_effect name", OF thread_of_apply]) (simp add: fold_default_def split: option.splits)
  have m: "map_of (fd_markers (tail_fold log since None)) name = newest (marker_effect name) (committed_tail log since None)"
    unfolding tail_fold_def
    by (subst fold_newest [where effect = "marker_effect name", OF marker_of_apply]) (simp add: fold_default_def split: option.splits)
  show ?thesis
    by (simp add: reconcile_log_def class_scope_def Let_def class_materialization_def reconciled_value_def fill_point_def t m
        split: option.splits)
qed

end
