(* ===== verification/Refs_Publish_Correct.thy ===== *)
theory Refs_Publish_Correct
  imports Refs_Manager Refs_Text_Correct
begin

text \<open>
  Publishing is all or nothing: when a step fails, what was renamed into place is restored to the value recorded in its plan,
  whatever change of the file system fails; and when every step succeeds, exactly the planned files have their new contents. The
  planner gives plans for distinct files, with the reconciled values as the ones to restore.
\<close>

section \<open>Frames\<close>

text \<open>A preorder on states that every step of a computation respects, the whole computation respects.\<close>

locale frame =
  fixes R :: "'s \<Rightarrow> 's \<Rightarrow> bool"
  assumes refl: "R st st"
    and trans: "R st st' \<Longrightarrow> R st' st'' \<Longrightarrow> R st st''"
begin

lemma io_then_frame:
  assumes "R st (fst c)" "\<And>st' x. c = (st', Inr x) \<Longrightarrow> R st' (fst (k st' x))"
  shows "R st (fst (io_then c k))"
  using assms trans by (cases c; cases "snd c") (auto simp: io_then_def)

lemma io_read_frame: "(\<And>x. r = Inr x \<Longrightarrow> R st (fst (k x))) \<Longrightarrow> R st (fst (io_read st r k))"
  by (cases r) (auto simp: io_read_def refl)

lemma for_each_frame: "(\<And>st x. R st (fst (f st x))) \<Longrightarrow> R st (fst (for_each f xs st))"
proof (induction xs arbitrary: st)
  case Nil then show ?case by (simp add: refl)
next
  case (Cons x xs)
  then show ?case by (auto intro: io_then_frame)
qed

end

text \<open>Only files of the paths in \<open>P\<close> may differ.\<close>

definition unchanged :: "(path \<Rightarrow> bool) \<Rightarrow> 's ref_files_scheme \<Rightarrow> 's ref_files_scheme \<Rightarrow> bool" where
  "unchanged P st st' \<longleftrightarrow> (\<forall>p. \<not> P p \<longrightarrow> map_of (rf_files st') p = map_of (rf_files st) p)"

interpretation files: frame "unchanged P" for P
  by unfold_locales (auto simp: unchanged_def)

lemma unchanged_mono: "unchanged P st st' \<Longrightarrow> (\<And>p. P p \<Longrightarrow> Q p) \<Longrightarrow> unchanged Q st st'"
  by (auto simp: unchanged_def)

text \<open>Neither files nor temporary files differ.\<close>

definition same_store :: "'s ref_files_scheme \<Rightarrow> 's ref_files_scheme \<Rightarrow> bool" where
  "same_store st st' \<longleftrightarrow> rf_files st' = rf_files st \<and> rf_temps st' = rf_temps st"

interpretation store: frame same_store
  by unfold_locales (auto simp: same_store_def)

lemma same_store_unchanged: "same_store st st' \<Longrightarrow> unchanged P st st'"
  by (simp add: same_store_def unchanged_def)

section \<open>Single changes\<close>

lemma create_dir_all_store: "same_store st (fst (create_dir_all m p st))"
  by (simp add: create_dir_all_def change_def same_store_def Let_def split: fault.split)

lemma create_dir_all_result: "create_dir_all m p st = (st', r) \<Longrightarrow> same_store st st' \<and> (r = Inr () \<or> r = Inl (IoError ''failed''))"
  using create_dir_all_store [of st m p]
  by (auto simp: create_dir_all_def change_def Let_def split: fault.splits)

lemma sync_directory_store: "same_store st (fst (sync_directory m p st))"
  by (simp add: sync_directory_def atomic_change_def same_store_def Let_def)

lemma write_result:
  assumes "write_ref_string m p c st = (st', r)"
  shows "unchanged ((=) p) st st'" "rf_temps st' = rf_temps st" "r = Inr () \<or> r = Inl (IoError ''failed'')"
    "r = Inr () \<Longrightarrow> map_of (rf_files st') p = Some c"
    "map_of (rf_files st') p = Some c \<or> map_of (rf_files st') p = map_of (rf_files st) p"
  using assms
  by (auto simp: write_ref_string_def write_file_atomic_def create_dir_all_def change_def Let_def unchanged_def update_conv
      split: fault.splits)

lemma remove_result:
  assumes "remove_file m p st = (st', r)"
  shows "rf_temps st' = rf_temps st" "r = Inr () \<or> r = Inl (IoError ''failed'')"
    "r = Inr () \<Longrightarrow> map_of (rf_files st') = (map_of (rf_files st))(p := None)"
    "r \<noteq> Inr () \<Longrightarrow> rf_files st' = rf_files st"
  using assms by (auto simp: remove_file_def atomic_change_def Let_def delete_conv split: if_splits)

lemma rename_result:
  assumes "rename_temp m n p st = (st', r)"
  shows "r = Inr () \<or> (\<exists>w. r = Inl (IoError w))"
    "r = Inr () \<Longrightarrow> map_of (rf_temps st) (p, n) \<noteq> None \<and> map_of (rf_files st') = (map_of (rf_files st))(p := map_of (rf_temps st) (p, n))
      \<and> (\<forall>q k. q \<noteq> p \<longrightarrow> map_of (rf_temps st') (q, k) = map_of (rf_temps st) (q, k))"
    "r \<noteq> Inr () \<Longrightarrow> same_store st st'"
  using assms
  by (auto simp: rename_temp_def atomic_change_def Let_def update_conv' delete_conv same_store_def split: if_splits option.splits)

section \<open>Rollback\<close>

definition plan_at :: "RefUpdatePlan list \<Rightarrow> path \<Rightarrow> RefUpdatePlan option" where
  "plan_at plans p = find (\<lambda>plan. pl_path plan = p) plans"

lemma plan_at_simps [simp]:
  "plan_at [] p = None" "plan_at (plan # plans) p = (if pl_path plan = p then Some plan else plan_at plans p)"
  by (simp_all add: plan_at_def)

lemma plan_at_None: "plan_at plans p = None \<longleftrightarrow> p \<notin> pl_path ` set plans"
  by (induction plans) auto

lemma plan_at_append: "plan_at (xs @ ys) p = (case plan_at xs p of Some x \<Rightarrow> Some x | None \<Rightarrow> plan_at ys p)"
  by (induction xs) auto

lemma plan_at_rev: "distinct (map pl_path plans) \<Longrightarrow> plan_at (rev plans) p = plan_at plans p"
proof (induction plans)
  case (Cons plan plans)
  then have "plan_at plans (pl_path plan) = None" by (auto simp: plan_at_None)
  then show ?case using Cons by (auto simp: plan_at_append split: option.split)
qed simp

text \<open>The files after plans have been carried out, or taken back.\<close>

definition with_plans ::
  "(RefUpdatePlan \<Rightarrow> string option) \<Rightarrow> RefUpdatePlan list \<Rightarrow> (path \<Rightarrow> string option) \<Rightarrow> path \<Rightarrow> string option" where
  "with_plans content plans files p = (case plan_at plans p of Some plan \<Rightarrow> content plan | None \<Rightarrow> files p)"

lemma restore_plan_result:
  assumes "restore_plan m st plan = (st', Inr ())"
  shows "map_of (rf_files st') = (map_of (rf_files st))(pl_path plan := pl_previous_content plan)"
proof (cases "pl_previous_content plan")
  case None
  then show ?thesis
    using assms remove_result(3) [of m "pl_path plan" st st' "Inr ()"]
    by (auto simp: restore_plan_def file_exists_def fun_eq_iff split: if_splits)
next
  case (Some previous)
  then have "write_ref_string m (pl_path plan) previous st = (st', Inr ())" using assms by (simp add: restore_plan_def)
  then show ?thesis using write_result(1,4) [of m "pl_path plan" previous st st' "Inr ()"] Some
    by (auto simp: unchanged_def fun_eq_iff)
qed

lemma restore_plans_result:
  assumes "for_each (restore_plan m) plans st = (st', Inr ())" "distinct (map pl_path plans)"
  shows "map_of (rf_files st') = with_plans pl_previous_content plans (map_of (rf_files st))"
  using assms
proof (induction plans arbitrary: st)
  case (Cons plan plans)
  then obtain st1 where r: "restore_plan m st plan = (st1, Inr ())" "for_each (restore_plan m) plans st1 = (st', Inr ())"
    by (cases "restore_plan m st plan"; cases "snd (restore_plan m st plan)") auto
  have "plan_at plans (pl_path plan) = None" using Cons.prems(2) by (auto simp: plan_at_None)
  then show ?case
    using Cons.IH [OF r(2)] Cons.prems(2) restore_plan_result [OF r(1)]
    by (auto simp: with_plans_def fun_eq_iff split: option.split)
qed (simp add: with_plans_def fun_eq_iff)

lemma rollback_result:
  assumes "rollback_updates m applied snapshot st = (st', Inr ())" "distinct (map pl_path applied)"
    and "packed_refs_path m \<notin> pl_path ` set applied"
  shows "map_of (rf_files st') = (with_plans pl_previous_content applied (map_of (rf_files st)))(packed_refs_path m := snapshot)"
proof -
  obtain st1 where r: "for_each (restore_plan m) (rev applied) st = (st1, Inr ())"
    "(case snapshot of Some c \<Rightarrow> write_ref_string m (packed_refs_path m) c st1
      | None \<Rightarrow> if file_exists st1 (packed_refs_path m) then remove_file m (packed_refs_path m) st1 else (st1, Inr ())) = (st', Inr ())"
    using assms(1) unfolding rollback_updates_def
    by (cases "for_each (restore_plan m) (rev applied) st"; cases "snd (for_each (restore_plan m) (rev applied) st)") auto
  have "map_of (rf_files st1) = with_plans pl_previous_content applied (map_of (rf_files st))"
    using restore_plans_result [OF r(1)] assms(2) plan_at_rev [OF assms(2)]
    by (simp add: with_plans_def rev_map [symmetric] fun_eq_iff)
  moreover have "map_of (rf_files st') = (map_of (rf_files st1))(packed_refs_path m := snapshot)"
  proof (cases snapshot)
    case None
    then show ?thesis
      using r(2) remove_result(3) [of m "packed_refs_path m" st1 st' "Inr ()"]
      by (auto simp: file_exists_def fun_eq_iff split: if_splits)
  next
    case (Some c)
    then show ?thesis
      using r(2) write_result(1,4) [of m "packed_refs_path m" c st1 st' "Inr ()"] by (auto simp: unchanged_def fun_eq_iff)
  qed
  ultimately show ?thesis by simp
qed


section \<open>Applying\<close>

definition staged :: "'s ref_files_scheme \<Rightarrow> RefUpdatePlan \<Rightarrow> bool" where
  "staged st plan \<longleftrightarrow>
     (case pl_temp plan of
        Some n \<Rightarrow> map_of (rf_temps st) (pl_path plan, n) = pl_new_content plan
      | None \<Rightarrow> pl_new_content plan = None)"

definition failed_rollback :: "HeddleError \<Rightarrow> bool" where
  "failed_rollback e \<longleftrightarrow> (\<exists>w. e = Conflict (w @ ''; rollback failed''))"

lemma apply_plan_result:
  assumes "apply_plan m plan st = (st', r)" "staged st plan"
  shows "r = Inr () \<or> (\<exists>w. r = Inl (IoError w))"
    "r = Inr () \<Longrightarrow> map_of (rf_files st') = (map_of (rf_files st))(pl_path plan := pl_new_content plan)"
    "r \<noteq> Inr () \<Longrightarrow> map_of (rf_files st') = map_of (rf_files st)"
    "\<And>other. pl_path other \<noteq> pl_path plan \<Longrightarrow> staged st other \<Longrightarrow> staged st' other"
proof -
  have "(r = Inr () \<or> (\<exists>w. r = Inl (IoError w)))
    \<and> (r = Inr () \<longrightarrow> map_of (rf_files st') = (map_of (rf_files st))(pl_path plan := pl_new_content plan))
    \<and> (r \<noteq> Inr () \<longrightarrow> map_of (rf_files st') = map_of (rf_files st))
    \<and> (\<forall>other. pl_path other \<noteq> pl_path plan \<longrightarrow> staged st other \<longrightarrow> staged st' other)"
  proof (cases "pl_temp plan")
    case (Some n)
    then have "rename_temp m n (pl_path plan) st = (st', r)" using assms(1) by (simp add: apply_plan_def)
    then show ?thesis
      using rename_result [of m n "pl_path plan" st st' r] assms(2) Some
      by (auto simp: staged_def same_store_def split: option.splits)
  next
    case None
    then have new: "pl_new_content plan = None" using assms(2) by (simp add: staged_def)
    show ?thesis
    proof (cases "file_exists st (pl_path plan)")
      case True
      then have "remove_file m (pl_path plan) st = (st', r)" using assms(1) None by (simp add: apply_plan_def)
      then show ?thesis
        using remove_result [of m "pl_path plan" st st' r] new by (auto simp: staged_def split: option.splits)
    next
      case False
      then have "st' = st" "r = Inr ()" using assms(1) None by (simp_all add: apply_plan_def)
      then show ?thesis using False new by (auto simp: file_exists_def fun_eq_iff)
    qed
  qed
  then show "r = Inr () \<or> (\<exists>w. r = Inl (IoError w))"
    "r = Inr () \<Longrightarrow> map_of (rf_files st') = (map_of (rf_files st))(pl_path plan := pl_new_content plan)"
    "r \<noteq> Inr () \<Longrightarrow> map_of (rf_files st') = map_of (rf_files st)"
    "\<And>other. pl_path other \<noteq> pl_path plan \<Longrightarrow> staged st other \<Longrightarrow> staged st' other"
    by blast+
qed

lemma rollback_or_result:
  assumes "rollback_or m applied snapshot what err st = (st', r)" "distinct (map pl_path applied)"
    and "packed_refs_path m \<notin> pl_path ` set applied"
  shows "\<exists>e. r = Inl e \<and> (failed_rollback e \<or> e = err
    \<and> map_of (rf_files st') = (with_plans pl_previous_content applied (map_of (rf_files st)))(packed_refs_path m := snapshot))"
proof (cases "rollback_updates m applied snapshot st")
  case (Pair st1 r1)
  then show ?thesis
    using assms(1) rollback_result [OF _ assms(2,3), of snapshot st st1]
    by (cases r1) (auto simp: rollback_or_def failed_rollback_def)
qed

lemma with_plans_Cons:
  "plan_at plans (pl_path plan) = None \<Longrightarrow>
    with_plans content (plan # plans) files = with_plans content plans (files(pl_path plan := content plan))"
  by (auto simp: with_plans_def fun_eq_iff split: option.split)

lemma with_plans_overwrite:
  "pl_path plan \<in> pl_path ` set plans \<Longrightarrow> with_plans content plans (files(pl_path plan := c)) = with_plans content plans files"
proof -
  assume a: "pl_path plan \<in> pl_path ` set plans"
  then have "plan_at plans (pl_path plan) \<noteq> None" using plan_at_None [of plans "pl_path plan"] by blast
  then show ?thesis by (auto simp: with_plans_def fun_eq_iff split: option.split)
qed

lemma apply_plans_result:
  assumes "apply_plans m snapshot applied plans st = (st', r)" "distinct (map pl_path (applied @ plans))"
    and "packed_refs_path m \<notin> pl_path ` set (applied @ plans)" "\<forall>plan \<in> set plans. staged st plan"
  shows "(r = Inr () \<and> map_of (rf_files st') = with_plans pl_new_content plans (map_of (rf_files st)))
    \<or> (\<exists>e. r = Inl e \<and> (failed_rollback e \<or> (\<exists>w. e = IoError w)
        \<and> (\<exists>carried. set carried \<subseteq> set plans \<and> map_of (rf_files st')
            = (with_plans pl_previous_content (applied @ carried) (map_of (rf_files st)))(packed_refs_path m := snapshot))))"
  using assms
proof (induction plans arbitrary: applied st)
  case Nil
  then show ?case by (simp add: with_plans_def fun_eq_iff)
next
  case (Cons plan plans)
  obtain st1 r1 where a: "apply_plan m plan st = (st1, r1)" by fastforce
  have s: "staged st plan" using Cons.prems(4) by simp
  note ap = apply_plan_result [OF a s]
  show ?case
  proof (cases r1)
    case (Inl err)
    then have "rollback_or m applied snapshot (''refs update failed for '' @ pl_description plan) err st1 = (st', r)"
      using Cons.prems(1) a by simp
    then obtain e where "r = Inl e" "failed_rollback e \<or> e = err
        \<and> map_of (rf_files st') = (with_plans pl_previous_content applied (map_of (rf_files st1)))(packed_refs_path m := snapshot)"
      using rollback_or_result [of m applied snapshot _ err st1 st' r] Cons.prems(2,3) by auto
    moreover obtain w where "err = IoError w" using ap(1) Inl by auto
    moreover have "map_of (rf_files st1) = map_of (rf_files st)" using ap(3) Inl by simp
    ultimately have "r = Inl e \<and> (failed_rollback e \<or> (\<exists>w. e = IoError w) \<and> map_of (rf_files st')
        = (with_plans pl_previous_content (applied @ []) (map_of (rf_files st)))(packed_refs_path m := snapshot))"
      unfolding append_Nil2 by metis
    moreover have "set [] \<subseteq> set (plan # plans)" by simp
    ultimately show ?thesis by blast
  next
    case (Inr u)
    then have rest: "apply_plans m snapshot (applied @ [plan]) plans st1 = (st', r)" using Cons.prems(1) a by simp
    have files: "map_of (rf_files st1) = (map_of (rf_files st))(pl_path plan := pl_new_content plan)" using ap(2) Inr by simp
    have fresh: "plan_at plans (pl_path plan) = None" using Cons.prems(2) by (auto simp: plan_at_None)
    have "\<forall>other \<in> set plans. staged st1 other"
    proof
      fix other assume "other \<in> set plans"
      then have "pl_path other \<noteq> pl_path plan" using Cons.prems(2) by (metis fresh imageI plan_at_None)
      then show "staged st1 other" using ap(4) Cons.prems(4) \<open>other \<in> set plans\<close> by simp
    qed
    moreover have "distinct (map pl_path ((applied @ [plan]) @ plans))" "packed_refs_path m \<notin> pl_path ` set ((applied @ [plan]) @ plans)"
      using Cons.prems(2,3) by simp_all
    ultimately consider (ok) "r = Inr ()" "map_of (rf_files st') = with_plans pl_new_content plans (map_of (rf_files st1))"
      | (lost) e where "r = Inl e" "failed_rollback e"
      | (restored) w carried where "r = Inl (IoError w)" "set carried \<subseteq> set plans"
          "map_of (rf_files st') = (with_plans pl_previous_content ((applied @ [plan]) @ carried) (map_of (rf_files st1)))(packed_refs_path m := snapshot)"
      using Cons.IH [OF rest] by blast
    then show ?thesis
    proof cases
      case ok
      then show ?thesis by (simp add: files with_plans_Cons [OF fresh])
    next
      case lost
      then show ?thesis by simp
    next
      case restored
      then have "map_of (rf_files st')
          = (with_plans pl_previous_content (applied @ (plan # carried)) (map_of (rf_files st)))(packed_refs_path m := snapshot)"
        by (simp add: files with_plans_overwrite)
      moreover have "set (plan # carried) \<subseteq> set (plan # plans)" using restored(2) by auto
      ultimately show ?thesis using restored(1) by blast
    qed
  qed
qed


section \<open>Staging\<close>

text \<open>Only identity files of names are written, and no temporary files.\<close>

definition names_only :: "'s ref_files_scheme \<Rightarrow> 's ref_files_scheme \<Rightarrow> bool" where
  "names_only st st' \<longleftrightarrow> unchanged (\<lambda>p. last p = ''name'') st st' \<and> rf_temps st' = rf_temps st"

interpretation names: frame names_only
  by unfold_locales (auto simp: names_only_def unchanged_def)

lemma store_names: "same_store st st' \<Longrightarrow> names_only st st'"
  by (simp add: names_only_def same_store_def unchanged_def)

lemma write_name_entry_names: "names_only st (fst (write_name_entry m root name st))"
proof -
  let ?p = "root @ name_path (rc_digest m) name @ [''name'']"
  obtain st' r where w: "write_ref_string m ?p name st = (st', r)" by fastforce
  have "last ?p = ''name''" by simp
  then have "unchanged (\<lambda>p. last p = ''name'') st st'" by (intro unchanged_mono [OF write_result(1) [OF w]]) blast
  then have "names_only st (fst (write_file_atomic m ?p name st))"
    using w write_result(2) [OF w] by (simp add: names_only_def write_ref_string_def)
  then show ?thesis by (simp add: write_name_entry_def Let_def names.refl)
qed

lemma write_identity_names: "names_only st (fst (write_identity m delta st))"
  by (auto simp: write_identity_def write_name_entry_names names.refl
      intro!: names.io_then_frame names.io_read_frame split: option.split SummaryDelta.split)

definition staged_as :: "RefUpdatePlan \<Rightarrow> RefUpdatePlan \<Rightarrow> bool" where
  "staged_as plan plan' \<longleftrightarrow>
     (\<exists>t. plan' = plan\<lparr>pl_temp := t\<rparr> \<and> (if pl_new_content plan = None then t = pl_temp plan else t \<noteq> None))"

lemma stage_plan_names: "names_only st (fst (stage_plan m plan st))"
  by (auto simp: stage_plan_def write_identity_names names.refl alloc_temp_path_def store_names [OF create_dir_all_store]
      intro!: names.io_then_frame split: option.split)

lemma stage_plan_result: "stage_plan m plan st = (st', Inr plan') \<Longrightarrow> staged_as plan plan'"
  by (cases "pl_new_content plan")
    (auto simp: stage_plan_def staged_as_def io_then_def split: prod.splits sum.splits intro: exI [of _ "pl_temp plan"])

lemma stage_plans_names: "names_only st (fst (stage_plans m plans st))"
proof (induction plans arbitrary: st)
  case (Cons plan plans)
  then show ?case by (auto simp: stage_plan_names names.refl intro!: names.io_then_frame)
qed (simp add: names.refl)

lemma stage_plans_result: "stage_plans m plans st = (st', Inr plans') \<Longrightarrow> list_all2 staged_as plans plans'"
proof (induction plans arbitrary: st plans')
  case (Cons plan plans)
  then show ?case
    by (cases "stage_plan m plan st"; cases "snd (stage_plan m plan st)")
      (auto simp: io_then_def stage_plan_result split: prod.splits sum.splits)
qed simp

lemma staged_as_parts:
  "staged_as plan plan' \<Longrightarrow> pl_path plan' = pl_path plan \<and> pl_new_content plan' = pl_new_content plan
    \<and> pl_previous_content plan' = pl_previous_content plan \<and> pl_packed_remove plan' = pl_packed_remove plan"
  by (auto simp: staged_as_def)

lemma staged_as_lists:
  "list_all2 staged_as plans plans' \<Longrightarrow> map pl_path plans' = map pl_path plans
    \<and> with_plans pl_new_content plans' = with_plans pl_new_content plans
    \<and> with_plans pl_previous_content plans' = with_plans pl_previous_content plans
    \<and> List.map_filter pl_packed_remove plans' = List.map_filter pl_packed_remove plans"
proof (induction rule: list_all2_induct)
  case (Cons plan plans plan' plans')
  then show ?case using staged_as_parts [of plan plan']
    by (auto simp: with_plans_def fun_eq_iff List.map_filter_simps split: option.splits)
qed simp

lemma write_temps_result:
  assumes "for_each (\<lambda>st (key, content). write_temp m create_new key content st) ws st = (st', r)"
  shows "rf_files st' = rf_files st"
    "r = Inr () \<Longrightarrow> distinct (map fst ws) \<Longrightarrow> map_of (rf_temps st') = map_of (rf_temps st) ++ map_of ws"
proof -
  have files: "rf_files (fst (write_temp m create_new k c st)) = rf_files st" for k c and st :: "'a ref_files_scheme"
    by (simp add: write_temp_def change_def Let_def split: fault.split)
  have temps: "write_temp m create_new k c st = (st', Inr ()) \<Longrightarrow> map_of (rf_temps st') = (map_of (rf_temps st))(k \<mapsto> c)"
    for k c and st st' :: "'a ref_files_scheme"
    by (auto simp: write_temp_def change_def Let_def update_conv split: fault.splits if_splits)
  show "rf_files st' = rf_files st"
    using assms
  proof (induction ws arbitrary: st)
    case (Cons w ws)
    obtain k c where w: "w = (k, c)" by fastforce
    show ?case using Cons files [of k c st]
      by (cases "write_temp m create_new k c st"; cases "snd (write_temp m create_new k c st)") (auto simp: w)
  qed simp
  show "map_of (rf_temps st') = map_of (rf_temps st) ++ map_of ws" if "r = Inr ()" "distinct (map fst ws)"
    using assms that
  proof (induction ws arbitrary: st)
    case (Cons w ws)
    obtain k c where w: "w = (k, c)" by fastforce
    obtain st1 where s: "write_temp m create_new k c st = (st1, Inr ())"
      "for_each (\<lambda>st (key, content). write_temp m create_new key content st) ws st1 = (st', r)"
      using Cons.prems by (cases "write_temp m create_new k c st"; cases "snd (write_temp m create_new k c st)") (auto simp: w)
    have "map_of ws k = None" using Cons.prems(3) w by (auto simp: map_of_eq_None_iff image_iff)
    then show ?case using Cons.IH [OF s(2) Cons.prems(2)] Cons.prems(3) temps [OF s(1)]
      by (auto simp: w fun_eq_iff map_add_def split: option.splits)
  qed simp
qed

lemma temp_writes_keys: "set (map (fst \<circ> fst) (temp_writes plans)) \<subseteq> pl_path ` set plans"
  by (induction plans) (auto simp: temp_writes_def List.map_filter_simps split: option.splits)

lemma temp_writes_distinct: "distinct (map pl_path plans) \<Longrightarrow> distinct (map fst (temp_writes plans))"
proof (induction plans)
  case (Cons plan plans)
  have "(pl_path plan, n) \<notin> fst ` set (temp_writes plans)" for n
  proof
    assume "(pl_path plan, n) \<in> fst ` set (temp_writes plans)"
    then obtain c where "((pl_path plan, n), c) \<in> set (temp_writes plans)" by auto
    then have "pl_path plan \<in> set (map (fst \<circ> fst) (temp_writes plans))" by (simp add: rev_image_eqI)
    then show False using temp_writes_keys [of plans] Cons.prems by auto
  qed
  then show ?case using Cons by (auto simp: temp_writes_def List.map_filter_simps split: option.splits)
qed (simp add: temp_writes_def List.map_filter_simps)

lemma temp_writes_member:
  "plan \<in> set plans \<Longrightarrow> pl_temp plan = Some n \<Longrightarrow> pl_new_content plan = Some c \<Longrightarrow> ((pl_path plan, n), c) \<in> set (temp_writes plans)"
  by (force simp: temp_writes_def map_filter_def)

lemma writes_stage:
  assumes "map_of (rf_temps st') = map_of (rf_temps st) ++ map_of (temp_writes plans)" "distinct (map pl_path plans)"
    and "plan \<in> set plans" "pl_new_content plan = None \<longleftrightarrow> pl_temp plan = None"
  shows "staged st' plan"
proof (cases "pl_temp plan")
  case (Some n)
  then obtain c where c: "pl_new_content plan = Some c" using assms(4) by auto
  have "map_of (temp_writes plans) (pl_path plan, n) = Some c"
    using temp_writes_member [OF assms(3) Some c] temp_writes_distinct [OF assms(2)] by simp
  then show ?thesis using assms(1) Some c by (simp add: staged_def)
qed (use assms(4) in \<open>simp add: staged_def\<close>)

section \<open>The last steps\<close>

lemma for_each_sync:
  assumes "for_each (\<lambda>st p. sync_directory m p st) ps st = (st', r)"
  shows "same_store st st'" "r = Inr () \<or> r = Inl (IoError ''failed'')"
proof -
  show "same_store st st'" using store.for_each_frame [of "\<lambda>st p. sync_directory m p st" st ps] assms
    by (simp add: sync_directory_store)
  show "r = Inr () \<or> r = Inl (IoError ''failed'')"
    using assms
  proof (induction ps arbitrary: st)
    case (Cons p ps)
    obtain st1 r1 where s: "sync_directory m p st = (st1, r1)" by fastforce
    then have "r1 = Inr () \<or> r1 = Inl (IoError ''failed'')"
      by (simp add: sync_directory_def atomic_change_def Let_def split: if_splits)
    then show ?case using Cons.IH [of st1] Cons.prems s by (elim disjE) simp_all
  qed simp
qed

definition packed_after :: "'m refs_config_scheme \<Rightarrow> RefUpdatePlan list \<Rightarrow> string option \<Rightarrow> string option" where
  "packed_after m plans c =
     (let removals = List.map_filter pl_packed_remove plans
      in if removals = [] then c
         else map_option (\<lambda>c. packed_to_text (rc_text m) (fold remove_packed removals (packed_parse (rc_text m) c))) c)"

lemma packed_save_result:
  assumes "packed_save m packed st = (st', r)"
  shows "unchanged ((=) (packed_refs_path m)) st st'"
    "r = Inr () \<Longrightarrow> map_of (rf_files st') (packed_refs_path m) = Some (packed_to_text (rc_text m) packed)"
proof -
  obtain st1 r1 where c: "create_dir_all m (butlast (packed_refs_path m)) st = (st1, r1)" by fastforce
  have s: "rf_files st1 = rf_files st" using create_dir_all_result [OF c] by (simp add: same_store_def)
  show "unchanged ((=) (packed_refs_path m)) st st'"
    "r = Inr () \<Longrightarrow> map_of (rf_files st') (packed_refs_path m) = Some (packed_to_text (rc_text m) packed)"
    using assms c s write_result [of m "packed_refs_path m" "packed_to_text (rc_text m) packed" st1 st' r]
    by (auto simp: packed_save_def write_ref_string_def unchanged_def io_then_def split: sum.splits)
qed

lemma apply_packed_removals_result:
  assumes "apply_packed_removals m plans st = (st', r)"
  shows "unchanged ((=) (packed_refs_path m)) st st'"
    "r = Inr () \<Longrightarrow> map_of (rf_files st') (packed_refs_path m) = packed_after m plans (map_of (rf_files st) (packed_refs_path m))"
proof -
  let ?removals = "List.map_filter pl_packed_remove plans"
  have "unchanged ((=) (packed_refs_path m)) st st' \<and>
    (r = Inr () \<longrightarrow> map_of (rf_files st') (packed_refs_path m) = packed_after m plans (map_of (rf_files st) (packed_refs_path m)))"
  proof (cases "?removals = [] \<or> \<not> file_exists st (packed_refs_path m)")
    case True
    then show ?thesis using assms by (auto simp: apply_packed_removals_def packed_after_def file_exists_def Let_def unchanged_def)
  next
    case False
    then obtain c where c: "map_of (rf_files st) (packed_refs_path m) = Some c" by (auto simp: file_exists_def)
    then have "packed_save m (fold remove_packed ?removals (packed_parse (rc_text m) c)) st = (st', r)"
      using assms False by (simp add: apply_packed_removals_def Let_def packed_load_def file_exists_def read_ref_string_def)
    from packed_save_result [OF this] show ?thesis using False c by (simp add: packed_after_def Let_def)
  qed
  then show "unchanged ((=) (packed_refs_path m)) st st'"
    "r = Inr () \<Longrightarrow> map_of (rf_files st') (packed_refs_path m) = packed_after m plans (map_of (rf_files st) (packed_refs_path m))"
    by blast+
qed

abbreviation only_summary :: "'m refs_config_scheme \<Rightarrow> 's ref_files_scheme \<Rightarrow> 's ref_files_scheme \<Rightarrow> bool" where
  "only_summary m \<equiv> unchanged ((=) (ref_summary_index_path m))"

lemma write_summary_frame: "only_summary m st (fst (write_ref_string m (ref_summary_index_path m) c st))"
  using write_result(1) [of m "ref_summary_index_path m" c st] by (metis prod.collapse)

lemma summary_deltas_frame: "only_summary m st (fst (update_ref_summary_index_with_deltas m deltas st))"
  by (auto simp: update_ref_summary_index_with_deltas_def rebuild_ref_summary_index_with_lock_def write_summary_frame files.refl
      intro!: files.io_then_frame files.io_read_frame split: sum.split option.split)

lemma invalidate_frame: "only_summary m st (invalidate_ref_summary_index m st)"
  by (auto simp: invalidate_ref_summary_index_def remove_file_def atomic_change_def Let_def unchanged_def delete_conv)

lemma temp_change_frame: "only_summary m st (fst (write_temp m create_new k c st))"
  "only_summary m st (fst (atomic_change m (\<lambda>st. st\<lparr>rf_temps := AList.delete k (rf_temps st)\<rparr>) st))"
  by (auto simp: write_temp_def change_def atomic_change_def Let_def unchanged_def split: fault.split)

lemma rename_frame: "only_summary m st (fst (rename_temp m n (ref_summary_index_path m) st))"
  by (auto simp: rename_temp_def atomic_change_def Let_def unchanged_def update_conv split: option.split)

lemma reconstructible_frame: "only_summary m st (fst (write_string_reconstructible m (ref_summary_index_path m) c st))"
proof -
  have "only_summary m st (fst (alloc_temp_path m (ref_summary_index_path m) st))"
    by (auto simp: alloc_temp_path_def files.refl same_store_unchanged [OF create_dir_all_store] intro!: files.io_then_frame)
  moreover have "only_summary m st1 (fst (let r = io_then (write_temp m True (ref_summary_index_path m, n) c st1)
      (\<lambda>st _. rename_temp m n (ref_summary_index_path m) st) in case r of
        (st, Inr u) \<Rightarrow> (st, Inr u)
      | (st, Inl e) \<Rightarrow> (fst (atomic_change m (\<lambda>st. st\<lparr>rf_temps := AList.delete (ref_summary_index_path m, n) (rf_temps st)\<rparr>) st), Inl e)))"
    for st1 :: "'a ref_files_scheme" and n
  proof -
    obtain st2 r2 where r: "io_then (write_temp m True (ref_summary_index_path m, n) c st1)
      (\<lambda>st _. rename_temp m n (ref_summary_index_path m) st) = (st2, r2)" by fastforce
    have "only_summary m st1 (fst (io_then (write_temp m True (ref_summary_index_path m, n) c st1)
      (\<lambda>st _. rename_temp m n (ref_summary_index_path m) st)))"
      by (intro files.io_then_frame temp_change_frame rename_frame)
    then have "only_summary m st1 st2" by (simp add: r)
    then show ?thesis
      unfolding r Let_def
      by (cases r2) (auto intro: files.trans [OF _ temp_change_frame(2)])
  qed
  ultimately show ?thesis unfolding write_string_reconstructible_def by (intro files.io_then_frame)
qed

lemma summary_reconstructible_frame: "only_summary m st (fst (update_ref_summary_index_with_deltas_reconstructible m deltas st))"
  by (auto simp: update_ref_summary_index_with_deltas_reconstructible_def reconstructible_frame intro!: files.io_read_frame)

section \<open>All or nothing\<close>

text \<open>A file that may hold a reference: not an identity of a name, not packed, not the summary.\<close>

definition value_path :: "'m refs_config_scheme \<Rightarrow> path \<Rightarrow> bool" where
  "value_path m p \<longleftrightarrow> last p \<noteq> ''name'' \<and> p \<noteq> packed_refs_path m \<and> p \<noteq> ref_summary_index_path m"

text \<open>Plans for files of references, every file once and nothing staged yet.\<close>

definition planned :: "'m refs_config_scheme \<Rightarrow> RefUpdatePlan list \<Rightarrow> bool" where
  "planned m plans \<longleftrightarrow> distinct (map pl_path plans) \<and> list_all (\<lambda>plan. value_path m (pl_path plan) \<and> pl_temp plan = None) plans"

definition published :: "'m refs_config_scheme \<Rightarrow> RefUpdatePlan list \<Rightarrow> 's ref_files_scheme \<Rightarrow> 's ref_files_scheme \<Rightarrow> bool" where
  "published m plans st st' \<longleftrightarrow>
     (\<forall>p. value_path m p \<longrightarrow> map_of (rf_files st') p = with_plans pl_new_content plans (map_of (rf_files st)) p)
     \<and> map_of (rf_files st') (packed_refs_path m) = packed_after m plans (map_of (rf_files st) (packed_refs_path m))"

text \<open>Every new value is in place, and neither the packed references nor the summary have followed.\<close>

definition published_unsynced :: "RefUpdatePlan list \<Rightarrow> 's ref_files_scheme \<Rightarrow> 's ref_files_scheme \<Rightarrow> bool" where
  "published_unsynced plans st st' \<longleftrightarrow>
     (\<forall>p. last p \<noteq> ''name'' \<longrightarrow> map_of (rf_files st') p = with_plans pl_new_content plans (map_of (rf_files st)) p)"

text \<open>
  Every file is as before but for some of the planned ones, which hold the content their plans had recorded as the previous
  one. That is the content before, unless the value was packed or only in the log: then a file now spells it out.
\<close>

definition taken_back :: "RefUpdatePlan list \<Rightarrow> 's ref_files_scheme \<Rightarrow> 's ref_files_scheme \<Rightarrow> bool" where
  "taken_back plans st st' \<longleftrightarrow> (\<forall>p. last p \<noteq> ''name'' \<longrightarrow>
     map_of (rf_files st') p = map_of (rf_files st) p
     \<or> (\<exists>plan \<in> set plans. pl_path plan = p \<and> map_of (rf_files st') p = pl_previous_content plan))"

lemma packed_not_value: "\<not> value_path m (packed_refs_path m)" "last (packed_refs_path m) \<noteq> ''name''"
  "ref_summary_index_path m \<noteq> packed_refs_path m"
  by (simp_all add: value_path_def packed_refs_path_def ref_summary_index_path_def)

definition carried_back ::
  "RefUpdatePlan list \<Rightarrow> (path \<Rightarrow> string option) \<Rightarrow> (path \<Rightarrow> string option) \<Rightarrow> bool" where
  "carried_back plans files files' \<longleftrightarrow>
     (\<exists>carried. set carried \<subseteq> set plans \<and> files' = with_plans pl_previous_content carried files)"

lemma rolled_back:
  assumes "packed \<notin> pl_path ` set carried" "\<forall>p. p \<notin> pl_path ` set carried \<longrightarrow> p \<noteq> packed \<longrightarrow> files' p = files p"
  shows "(with_plans pl_previous_content carried files')(packed := files packed) = with_plans pl_previous_content carried files"
proof (rule ext)
  fix p
  show "((with_plans pl_previous_content carried files')(packed := files packed)) p = with_plans pl_previous_content carried files p"
  proof (cases "plan_at carried p")
    case None
    then have "p \<notin> pl_path ` set carried" by (simp add: plan_at_None)
    then show ?thesis using assms(2) None by (simp add: with_plans_def)
  next
    case (Some plan)
    then have "p \<in> pl_path ` set carried" using plan_at_None [of carried p] by auto
    then have "p \<noteq> packed" using assms(1) by blast
    then show ?thesis using Some by (simp add: with_plans_def)
  qed
qed

lemma publish_staged:
  fixes st :: "'s ref_files_scheme"
  assumes "io_then (apply_plans m (map_of (rf_files st) (packed_refs_path m)) [] plans st) (\<lambda>st _.
     io_then (if durability = Durable
              then for_each (\<lambda>st p. sync_directory m p st) (dirty_parents plans) st else (st, Inr ())) (\<lambda>st _.
       case apply_packed_removals m plans st of
         (st, Inl err) \<Rightarrow> rollback_or m plans snapshot ''packed refs update failed'' err st
       | (st, Inr _) \<Rightarrow> k st)) = (st', r)"
    and "snapshot = map_of (rf_files st) (packed_refs_path m)"
    and "distinct (map pl_path plans)" "\<forall>plan \<in> set plans. staged st plan \<and> value_path m (pl_path plan)"
    and "\<And>st. only_summary m st (fst (k st)) \<and> snd (k st) = Inr ()"
  shows "case r of Inr _ \<Rightarrow> published m plans st st'
    | Inl e \<Rightarrow> failed_rollback e
        \<or> carried_back plans (map_of (rf_files st)) (map_of (rf_files st'))
        \<or> durability = Durable \<and> e = IoError ''failed'' \<and> map_of (rf_files st') = with_plans pl_new_content plans (map_of (rf_files st))"
proof -
  let ?files = "map_of (rf_files st)" and ?new = "with_plans pl_new_content plans (map_of (rf_files st))"
  have outside: "packed_refs_path m \<notin> pl_path ` set plans" "ref_summary_index_path m \<notin> pl_path ` set plans"
    using assms(4) packed_not_value(1) [of m] by (auto simp: value_path_def)
  have new_outside: "p \<notin> pl_path ` set plans \<Longrightarrow> ?new p = ?files p" for p
    by (simp add: with_plans_def plan_at_None [symmetric])
  obtain st1 r1 where a: "apply_plans m (map_of (rf_files st) (packed_refs_path m)) [] plans st = (st1, r1)" by fastforce
  have applied: "(r1 = Inr () \<and> map_of (rf_files st1) = ?new)
    \<or> (\<exists>e. r1 = Inl e \<and> (failed_rollback e \<or> carried_back plans ?files (map_of (rf_files st1))))"
  proof -
    have kept: "(with_plans pl_previous_content ([] @ carried) ?files)(packed_refs_path m := ?files (packed_refs_path m))
        = with_plans pl_previous_content carried ?files"
      if "set carried \<subseteq> set plans" for carried
      unfolding append_Nil using outside(1) that by (intro rolled_back) auto
    have "\<forall>plan \<in> set plans. staged st plan" using assms(4) by blast
    then show ?thesis
      using apply_plans_result [OF a] assms(3) outside(1) kept unfolding carried_back_def by (metis append_Nil)
  qed
  show ?thesis
  proof (cases r1)
    case (Inl e)
    then show ?thesis using assms(1) a applied by auto
  next
    case (Inr u)
    then have new: "map_of (rf_files st1) = ?new" using applied by auto
    obtain st2 r2 where b: "(if durability = Durable
       then for_each (\<lambda>st p. sync_directory m p st) (dirty_parents plans) st1 else (st1, Inr ())) = (st2, r2)" by fastforce
    then have same: "rf_files st2 = rf_files st1" and sync: "r2 = Inr () \<or> durability = Durable \<and> r2 = Inl (IoError ''failed'')"
      using for_each_sync [of m "dirty_parents plans" st1 st2 r2] by (auto simp: same_store_def split: if_splits)
    show ?thesis
    proof (cases r2)
      case (Inl e)
      then show ?thesis using assms(1) a b sync Inr new same by auto
    next
      case (Inr u2)
      obtain st3 r3 where c: "apply_packed_removals m plans st2 = (st3, r3)" by fastforce
      note removed = apply_packed_removals_result [OF c]
      have rest: "(case r3 of Inl err \<Rightarrow> rollback_or m plans snapshot ''packed refs update failed'' err st3 | Inr _ \<Rightarrow> k st3) = (st', r)"
        using assms(1) a b c Inr \<open>r1 = Inr u\<close> by (simp split: sum.splits)
      show ?thesis
      proof (cases r3)
        case (Inl err)
        have "map_of (rf_files st3) p = ?files p" if "p \<notin> pl_path ` set plans" "p \<noteq> packed_refs_path m" for p
          using removed(1) that new_outside [OF that(1)] new same by (auto simp: unchanged_def)
        then have "(with_plans pl_previous_content plans (map_of (rf_files st3)))(packed_refs_path m := snapshot)
            = with_plans pl_previous_content plans ?files"
          unfolding assms(2) using outside(1) by (intro rolled_back) auto
        moreover have "rollback_or m plans snapshot ''packed refs update failed'' err st3 = (st', r)" using rest Inl by simp
        ultimately obtain e where "r = Inl e" "failed_rollback e \<or> carried_back plans ?files (map_of (rf_files st'))"
          unfolding carried_back_def using rollback_or_result [of m plans snapshot _ err st3 st' r] assms(3) outside(1) by (metis order_refl)
        then show ?thesis by auto
      next
        case (Inr u3)
        then have k: "k st3 = (st', r)" using rest by simp
        then have summary: "only_summary m st3 st'" "r = Inr ()" using assms(5) [of st3] by simp_all
        have "map_of (rf_files st') p = ?new p" if "value_path m p" for p
          using that summary(1) removed(1) new same by (auto simp: unchanged_def value_path_def)
        moreover have "map_of (rf_files st') (packed_refs_path m) = packed_after m plans (?files (packed_refs_path m))"
          using summary(1) removed(2) Inr new same new_outside [OF outside(1)] packed_not_value(3) [of m] by (auto simp: unchanged_def)
        ultimately show ?thesis using summary(2) by (simp add: published_def)
      qed
    qed
  qed
qed

lemma with_plans_names:
  "(\<And>p. last p \<noteq> ''name'' \<Longrightarrow> files' p = files p) \<Longrightarrow> last p \<noteq> ''name''
    \<Longrightarrow> with_plans content plans files' p = with_plans content plans files p"
  by (simp add: with_plans_def split: option.split)

definition follow_summary ::
  "'m refs_config_scheme \<Rightarrow> RefPublishDurability \<Rightarrow> RefUpdatePlan list \<Rightarrow> 's ref_files_scheme \<Rightarrow> ('s, unit) file_call" where
  "follow_summary m durability plans st =
     (let deltas = List.map_filter pl_summary_delta plans
      in case (if durability = Durable then update_ref_summary_index_with_deltas m deltas st
               else update_ref_summary_index_with_deltas_reconstructible m deltas st) of
           (st, Inl _) \<Rightarrow> (invalidate_ref_summary_index m st, Inr ())
         | (st, Inr _) \<Rightarrow> (st, Inr ()))"

lemma follow_summary_frame: "only_summary m st (fst (follow_summary m durability plans st)) \<and> snd (follow_summary m durability plans st) = Inr ()"
proof -
  let ?deltas = "List.map_filter pl_summary_delta plans"
  let ?c = "if durability = Durable then update_ref_summary_index_with_deltas m ?deltas st
      else update_ref_summary_index_with_deltas_reconstructible m ?deltas st"
  have "only_summary m st (fst ?c)" by (simp add: summary_deltas_frame summary_reconstructible_frame)
  then show ?thesis
    unfolding follow_summary_def Let_def by (cases ?c; cases "snd ?c") (auto intro: files.trans [OF _ invalidate_frame])
qed

lemma publish_unfold:
  "publish_ref_plans_with_durability m durability plans st =
     io_then (stage_plans m plans st) (\<lambda>st plans.
     io_then (stage_temp_files m durability plans st) (\<lambda>st _.
     io_read st (read_optional_string st (packed_refs_path m)) (\<lambda>snapshot.
     io_then (apply_plans m snapshot [] plans st) (\<lambda>st _.
     io_then (if durability = Durable
              then for_each (\<lambda>st p. sync_directory m p st) (dirty_parents plans) st else (st, Inr ())) (\<lambda>st _.
       case apply_packed_removals m plans st of
         (st, Inl err) \<Rightarrow> rollback_or m plans snapshot ''packed refs update failed'' err st
       | (st, Inr _) \<Rightarrow> follow_summary m durability plans st)))))"
  unfolding publish_ref_plans_with_durability_def follow_summary_def ..

lemma staged_member:
  "list_all2 staged_as plans plans' \<Longrightarrow> plan \<in> set plans' \<Longrightarrow> \<exists>plan0 \<in> set plans. staged_as plan0 plan"
  by (induction rule: list_all2_induct) auto

lemma planned_staged:
  assumes "planned m plans" "list_all2 staged_as plans plans'" "plan \<in> set plans'"
  shows "value_path m (pl_path plan) \<and> (pl_new_content plan = None \<longleftrightarrow> pl_temp plan = None)"
proof -
  obtain plan0 where "plan0 \<in> set plans" "staged_as plan0 plan" using staged_member [OF assms(2,3)] by blast
  moreover from this have "value_path m (pl_path plan0) \<and> pl_temp plan0 = None"
    using assms(1) by (simp add: planned_def list_all_iff)
  ultimately show ?thesis by (auto simp: staged_as_def split: if_splits)
qed

lemma carried_taken_back:
  assumes "list_all2 staged_as plans plans'" "carried_back plans' (map_of (rf_files st2)) (map_of (rf_files st'))"
    and "\<And>p. last p \<noteq> ''name'' \<Longrightarrow> map_of (rf_files st2) p = map_of (rf_files st) p"
  shows "taken_back plans st st'"
proof -
  obtain carried where carried: "set carried \<subseteq> set plans'"
    "map_of (rf_files st') = with_plans pl_previous_content carried (map_of (rf_files st2))"
    using assms(2) by (auto simp: carried_back_def)
  show ?thesis
    unfolding taken_back_def
  proof (intro allI impI)
  fix p :: path assume p: "last p \<noteq> ''name''"
  show "map_of (rf_files st') p = map_of (rf_files st) p
     \<or> (\<exists>plan \<in> set plans. pl_path plan = p \<and> map_of (rf_files st') p = pl_previous_content plan)"
  proof (cases "plan_at carried p")
    case None
    then show ?thesis using carried(2) assms(3) p by (simp add: with_plans_def)
  next
    case (Some plan)
    then have "plan \<in> set plans'" "pl_path plan = p" using carried(1) by (auto simp: plan_at_def find_Some_iff)
    then obtain plan0 where "plan0 \<in> set plans" "pl_path plan0 = p" "pl_previous_content plan0 = pl_previous_content plan"
      using staged_member [OF assms(1)] by (fastforce simp: staged_as_def)
    then show ?thesis using carried(2) Some by (auto simp: with_plans_def)
  qed
qed
qed

lemma publish_plans:
  assumes "planned m plans" "publish_ref_plans_with_durability m durability plans st = (st', r)"
  shows "case r of Inr _ \<Rightarrow> published m plans st st'
    | Inl e \<Rightarrow> failed_rollback e \<or> taken_back plans st st'
        \<or> durability = Durable \<and> e = IoError ''failed'' \<and> published_unsynced plans st st'"
proof -
  obtain st1 r1 where s1: "stage_plans m plans st = (st1, r1)" by fastforce
  have names: "\<And>p. last p \<noteq> ''name'' \<Longrightarrow> map_of (rf_files st1) p = map_of (rf_files st) p"
    using stage_plans_names [of st m plans] s1 by (simp add: names_only_def unchanged_def)
  show ?thesis
  proof (cases r1)
    case (Inl e)
    then show ?thesis using assms(2) s1 names by (auto simp: publish_ref_plans_with_durability_def taken_back_def)
  next
    case (Inr plans')
    then have as: "list_all2 staged_as plans plans'" using stage_plans_result s1 by blast
    note lists = staged_as_lists [OF as] and fresh = planned_staged [OF assms(1) as]
    have d: "distinct (map pl_path plans')" using assms(1) lists by (simp add: planned_def)
    obtain st2 r2 where s2: "stage_temp_files m durability plans' st1 = (st2, r2)" by fastforce
    note writes = write_temps_result [OF s2 [unfolded stage_temp_files_def]]
    show ?thesis
    proof (cases r2)
      case (Inl e)
      then show ?thesis using assms(2) s1 Inr s2 writes(1) names
        by (auto simp: publish_ref_plans_with_durability_def taken_back_def)
    next
      case u: (Inr u)
      have staged: "\<forall>plan \<in> set plans'. staged st2 plan \<and> value_path m (pl_path plan)"
        using writes_stage [OF writes(2) d] temp_writes_distinct [OF d] u fresh writes(1) names by (simp add: value_path_def)
      have "case r of Inr _ \<Rightarrow> published m plans' st2 st'
        | Inl e \<Rightarrow> failed_rollback e
          \<or> carried_back plans' (map_of (rf_files st2)) (map_of (rf_files st'))
          \<or> durability = Durable \<and> e = IoError ''failed'' \<and> map_of (rf_files st') = with_plans pl_new_content plans' (map_of (rf_files st2))"
        by (rule publish_staged [OF _ HOL.refl d staged follow_summary_frame [of m _ durability plans']])
          (use assms(2) s1 Inr s2 u in \<open>simp add: publish_unfold\<close>)
      moreover have names2: "\<And>p. last p \<noteq> ''name'' \<Longrightarrow> map_of (rf_files st2) p = map_of (rf_files st) p"
        by (simp add: writes(1) names)
      note with_plans_names [of "map_of (rf_files st2)", OF names2] names2
      moreover have "packed_after m plans' = packed_after m plans" using lists by (simp add: packed_after_def fun_eq_iff)
      moreover note carried_taken_back [OF as _ names2]
      ultimately show ?thesis
        using lists packed_not_value(2) [of m]
        by (auto simp: published_def published_unsynced_def value_path_def split: sum.splits)
    qed
  qed
qed

section \<open>Planning\<close>

text \<open>The file of HEAD, which a checkout may keep in a place of its own, is not one of the references directory.\<close>

definition head_apart :: "'m refs_config_scheme \<Rightarrow> bool" where
  "head_apart m \<longleftrightarrow> value_path m (head_path m) \<and> take (length (refs_dir m)) (head_path m) \<noteq> refs_dir m"

lemma head_apart_root: "rc_local_head m = None \<Longrightarrow> head_apart m"
  by (simp add: head_apart_def head_path_def value_path_def refs_dir_def packed_refs_path_def ref_summary_index_path_def)

fun is_head_update :: "RefUpdate \<Rightarrow> bool" where
  "is_head_update (UpdateHead _ _) \<longleftrightarrow> True"
| "is_head_update _ \<longleftrightarrow> False"

fun update_request :: "RefUpdate \<Rightarrow> LoadRequest" where
  "update_request (UpdateThread name _ _) = LoadThread name"
| "update_request (UpdateMarker name _ _) = LoadMarker name"
| "update_request (UpdateHead _ _) = LoadHead"
| "update_request (UpdateRemoteThread remote thread _ _) = LoadRemoteThread remote thread"

fun update_text :: "text_lib \<Rightarrow> RefUpdate \<Rightarrow> string option" where
  "update_text E (UpdateThread _ _ new) = map_option (format_state_id_text E) new"
| "update_text E (UpdateMarker _ _ new) = map_option (format_state_id_text E) new"
| "update_text E (UpdateHead _ new) = Some (head_to_text E new)"
| "update_text E (UpdateRemoteThread _ _ _ new) = map_option (format_state_id_text E) new"

text \<open>The text of a reconciled value; of HEAD it is the text of the file where that is not behind.\<close>

definition value_text :: "'m refs_config_scheme \<Rightarrow> 's ref_files_scheme \<Rightarrow> Loaded \<Rightarrow> string option" where
  "value_text m st v =
     (case v of
        LoadedPoint i \<Rightarrow> map_option (format_state_id_text (rc_text m)) i
      | LoadedHead h \<Rightarrow>
          (case read_head_state m st of
             Inr raw \<Rightarrow> if h = hs_head raw then hs_raw raw else Some (head_to_text (rc_text m) h)
           | Inl _ \<Rightarrow> None)
      | _ \<Rightarrow> None)"

text \<open>A plan for an update: its new text, and as the previous one the value reads are reconciled to, over the files of \<open>st\<close>.\<close>

definition prepared :: "'o RefManager \<Rightarrow> 'o ref_store \<Rightarrow> RefUpdate \<Rightarrow> RefUpdatePlan \<Rightarrow> bool" where
  "prepared m st u plan \<longleftrightarrow> pl_new_content plan = update_text (rc_text m) u
     \<and> (\<exists>st0 st1 v. same_store st st0 \<and> reconciled_value_under_lock m (update_request u) st0 = (st1, Inr v)
          \<and> pl_previous_content plan = value_text m st0 v)"

lemma on_log_store: "same_store st (fst (on_log f st))"
  by (simp add: on_log_def same_store_def split: prod.split)

lemma reconciled_store: "same_store st (fst (reconciled_value_under_lock m req st))"
  unfolding reconciled_value_under_lock_def run_reconcile_def
  by (auto simp: Let_def on_log_store store.refl intro!: store.io_read_frame store.io_then_frame split: option.splits)

lemma as_point_Inr: "as_point v = Inr i \<longleftrightarrow> v = LoadedPoint i"
  by (cases v) auto

lemma as_head_Inr: "as_head v = Inr h \<longleftrightarrow> v = LoadedHead h"
  by (cases v) auto

lemma io_then_Inr: "io_then c k = (st', Inr y) \<longleftrightarrow> (\<exists>st x. c = (st, Inr x) \<and> k st x = (st', Inr y))"
  by (cases c; cases "snd c") auto

lemma io_read_Inr: "io_read st r k = (st', Inr y) \<longleftrightarrow> (\<exists>x. r = Inr x \<and> k x = (st', Inr y))"
  by (cases r) auto

lemma validated_point_result:
  assumes "validated_point m req label expected plan st = (st', Inr x)"
  shows "\<exists>i. reconciled_value_under_lock m req st = (st', Inr (LoadedPoint i)) \<and> x = plan i"
  using assms by (auto simp: validated_point_def io_then_Inr io_read_Inr as_point_Inr split: if_splits)

lemma reference_paths:
  "thread_path m st name = Inr p \<Longrightarrow> last p = ''value'' \<and> take (length (refs_dir m)) p = refs_dir m"
  "marker_path m st name = Inr p \<Longrightarrow> last p = ''value'' \<and> take (length (refs_dir m)) p = refs_dir m"
  "remote_thread_path m st remote name = Inr p \<Longrightarrow> last p = ''value'' \<and> take (length (refs_dir m)) p = refs_dir m"
  by (auto simp: thread_path_def marker_path_def remote_thread_path_def remote_dir_def and_then_Inr threads_dir_def
      markers_dir_def remotes_dir_def split: if_splits)

lemma value_path_last: "last p = ''value'' \<Longrightarrow> value_path m p"
  by (auto simp: value_path_def packed_refs_path_def ref_summary_index_path_def)

lemma reference_files:
  assumes "head_apart m"
  shows "thread_path m st name = Inr p \<Longrightarrow> value_path m p \<and> p \<noteq> head_path m"
    "marker_path m st name = Inr p \<Longrightarrow> value_path m p \<and> p \<noteq> head_path m"
    "remote_thread_path m st remote name = Inr p \<Longrightarrow> value_path m p \<and> p \<noteq> head_path m"
proof -
  have "value_path m p \<and> p \<noteq> head_path m" if "last p = ''value'' \<and> take (length (refs_dir m)) p = refs_dir m"
    using that assms value_path_last [of p m] by (auto simp: head_apart_def)
  then show "thread_path m st name = Inr p \<Longrightarrow> value_path m p \<and> p \<noteq> head_path m"
    "marker_path m st name = Inr p \<Longrightarrow> value_path m p \<and> p \<noteq> head_path m"
    "remote_thread_path m st remote name = Inr p \<Longrightarrow> value_path m p \<and> p \<noteq> head_path m"
    using reference_paths by metis+
qed

lemma preparedI:
  assumes "reconciled_value_under_lock m (update_request u) st = (st', Inr v)" "pl_new_content plan = update_text (rc_text m) u"
    and "pl_previous_content plan = value_text m st v"
  shows "same_store st st' \<and> prepared m st u plan"
proof -
  have "same_store st st'" using reconciled_store [of st m "update_request u"] assms(1) by simp
  then show ?thesis unfolding prepared_def using assms store.refl by blast
qed

lemma read_track_path: "read_track_with_packed_fallback m st name = Inr (p, c, raw) \<Longrightarrow> thread_path m st name = Inr p"
  by (auto simp: read_track_with_packed_fallback_def and_then_Inr Let_def split: option.splits)

lemma plan_ref_update_result:
  assumes "plan_ref_update m seen u st = (st', Inr (seen', plan))" "head_apart m"
  shows "same_store st st' \<and> prepared m st u plan \<and> value_path m (pl_path plan) \<and> pl_temp plan = None
    \<and> (if is_head_update u then seen' = seen \<and> pl_path plan = head_path m
       else seen' = pl_path plan # seen \<and> pl_path plan \<notin> set seen \<and> pl_path plan \<noteq> head_path m)"
proof -
  show ?thesis
  proof (cases u)
    case (UpdateThread name expected new)
    then obtain p rc rp i where "thread_path m st name = Inr p" "p \<notin> set seen" "seen' = p # seen"
      "reconciled_value_under_lock m (LoadThread name) st = (st', Inr (LoadedPoint i))"
      "plan = point_plan (rc_text m) p (thread_label name) new (map_option (format_state_id_text (rc_text m)) i)
        (removal_if_present RemoveThread name new i) (thread_summary_delta name new)"
      using assms(1)
      by (auto simp: io_read_Inr io_then_Inr dest!: validated_point_result read_track_path split: if_splits)
    then show ?thesis
      using UpdateThread reference_files(1) [OF assms(2)] preparedI [of m u st st' "LoadedPoint i" plan]
      by (simp add: point_plan_def value_text_def)
  next
    case (UpdateMarker name expected new)
    then obtain p i where "marker_path m st name = Inr p" "p \<notin> set seen" "seen' = p # seen"
      "reconciled_value_under_lock m (LoadMarker name) st = (st', Inr (LoadedPoint i))"
      "plan = point_plan (rc_text m) p (marker_label name) new (map_option (format_state_id_text (rc_text m)) i)
        (removal_if_present RemoveMarker name new i) (marker_summary_delta name new)"
      using assms(1) by (auto simp: io_read_Inr io_then_Inr dest!: validated_point_result split: if_splits)
    then show ?thesis
      using UpdateMarker reference_files(2) [OF assms(2)] preparedI [of m u st st' "LoadedPoint i" plan]
      by (simp add: point_plan_def value_text_def)
  next
    case (UpdateHead expected new)
    then obtain raw h where "read_head_state m st = Inr raw" "seen' = seen"
      "reconciled_value_under_lock m LoadHead st = (st', Inr (LoadedHead h))"
      "plan = head_plan m new (if h = hs_head raw then hs_raw raw else Some (head_to_text (rc_text m) h))"
      using assms(1) by (auto simp: io_read_Inr io_then_Inr as_head_Inr Let_def split: if_splits)
    then show ?thesis
      using UpdateHead assms(2) preparedI [of m u st st' "LoadedHead h" plan]
      by (simp add: head_plan_def value_text_def head_apart_def)
  next
    case (UpdateRemoteThread remote thread expected new)
    then obtain p i where "remote_thread_path m st remote thread = Inr p" "p \<notin> set seen" "seen' = p # seen"
      "reconciled_value_under_lock m (LoadRemoteThread remote thread) st = (st', Inr (LoadedPoint i))"
      "plan = point_plan (rc_text m) p (remote_label remote thread) new (map_option (format_state_id_text (rc_text m)) i) None
        (remote_summary_delta remote thread new)"
      using assms(1) by (auto simp: io_read_Inr io_then_Inr dest!: validated_point_result split: if_splits)
    then show ?thesis
      using UpdateRemoteThread reference_files(3) [OF assms(2)] preparedI [of m u st st' "LoadedPoint i" plan]
      by (simp add: point_plan_def value_text_def)
  qed
qed

lemma prepared_store: "same_store st st' \<Longrightarrow> prepared m st' u plan \<Longrightarrow> prepared m st u plan"
  unfolding prepared_def using store.trans by blast

lemma plan_ref_updates_result:
  assumes "plan_ref_updates m seen us st = (st', Inr plans)" "head_apart m"
  shows "same_store st st' \<and> list_all2 (prepared m st) us plans
    \<and> list_all (\<lambda>plan. value_path m (pl_path plan) \<and> pl_temp plan = None) plans
    \<and> (\<forall>plan \<in> set plans. pl_path plan \<in> set seen \<longrightarrow> pl_path plan = head_path m)
    \<and> (head_path m \<in> pl_path ` set plans \<longleftrightarrow> list_ex is_head_update us)
    \<and> (length (filter is_head_update us) \<le> 1 \<longrightarrow> distinct (map pl_path plans))"
  using assms(1)
proof (induction us arbitrary: seen st plans)
  case (Cons u us)
  then obtain st1 seen1 plan plans1 where u: "plan_ref_update m seen u st = (st1, Inr (seen1, plan))"
    and us: "plan_ref_updates m seen1 us st1 = (st', Inr plans1)" and plans: "plans = plan # plans1"
    by (auto simp: io_then_Inr)
  note first = plan_ref_update_result [OF u assms(2)] and rest = Cons.IH [OF us]
  have "list_all2 (prepared m st) us plans1"
    using rest first by (auto elim!: list_all2_mono intro: prepared_store)
  moreover have "same_store st st'" using store.trans first rest by blast
  moreover have "list_all (\<lambda>plan. value_path m (pl_path plan) \<and> pl_temp plan = None) (plan # plans1)"
    using first rest by simp
  moreover have "\<forall>x \<in> set (plan # plans1). pl_path x \<in> set seen \<longrightarrow> pl_path x = head_path m"
    using first rest by (cases "is_head_update u") auto
  moreover have heads: "head_path m \<in> pl_path ` set (plan # plans1) \<longleftrightarrow> list_ex is_head_update (u # us)"
    using first rest by (cases "is_head_update u") auto
  moreover have "distinct (map pl_path (plan # plans1))" if one: "length (filter is_head_update (u # us)) \<le> 1"
  proof -
    have "pl_path plan \<notin> pl_path ` set plans1"
    proof (cases "is_head_update u")
      case True
      then have "filter is_head_update us = []" using one by simp
      then have "\<not> list_ex is_head_update us" by (simp add: filter_empty_conv list_ex_iff)
      then show ?thesis using True first rest by auto
    next
      case False
      then show ?thesis using first rest by auto
    qed
    moreover have "length (filter is_head_update us) \<le> 1" using one by (simp split: if_splits)
    ultimately show ?thesis using rest by simp
  qed
  ultimately show ?case using first unfolding plans by simp
qed (auto intro: store.refl)

lemma plan_ref_updates_error: "plan_ref_updates m seen us st = (st', Inl e) \<Longrightarrow> same_store st st'"
proof -
  have point: "same_store st (fst (validated_point m req label expected plan st))" for req label expected plan st
    unfolding validated_point_def by (auto simp: reconciled_store store.refl intro!: store.io_then_frame store.io_read_frame)
  have one: "same_store st (fst (plan_ref_update m seen u st))" for seen u st
    by (cases u) (auto simp: point reconciled_store store.refl Let_def intro!: store.io_then_frame store.io_read_frame split: prod.split)
  have "same_store st (fst (plan_ref_updates m seen us st))" for seen us st
    by (induction us arbitrary: seen st) (auto simp: one store.refl intro!: store.io_then_frame split: prod.split)
  then show "plan_ref_updates m seen us st = (st', Inl e) \<Longrightarrow> same_store st st'" by (metis fst_conv)
qed

lemma same_store_files:
  assumes "same_store st st1"
  shows "taken_back plans st1 st' \<longleftrightarrow> taken_back plans st st'" "published m plans st1 st' \<longleftrightarrow> published m plans st st'"
    "published_unsynced plans st1 st' \<longleftrightarrow> published_unsynced plans st st'"
  using assms by (simp_all add: taken_back_def published_def published_unsynced_def same_store_def)

section \<open>Properties\<close>

text \<open>C14: An update of several references, of HEAD at most once, is all or nothing, whichever file operations fail. After a success
  exactly the files planned for the updates have the texts of the new values, and the packed references lost the deleted names. After an error,
  unless it says that the rollback failed, every file is as before or is one of the planned files and holds the text of the value its
  reference was reconciled to before, which may have been packed or only in the log - except that a failed sync of a
  directory reports the error after all values are in place.\<close>

theorem publish_all_or_nothing:
  assumes "update_refs_with_lock m updates st = (st', r)" "length (filter is_head_update updates) \<le> 1" "head_apart m"
  shows "(\<exists>e. r = Inl e \<and> rf_files st' = rf_files st)
    \<or> (\<exists>plans. list_all2 (prepared m st) updates plans
        \<and> (case r of
             Inr _ \<Rightarrow> published m plans st st'
           | Inl e \<Rightarrow> failed_rollback e \<or> taken_back plans st st'
               \<or> e = IoError ''failed'' \<and> published_unsynced plans st st'))"
proof (cases "plan_ref_updates m [] updates st")
  case (Pair st1 planning)
  show ?thesis
  proof (cases planning)
    case (Inl e)
    then have "st' = st1" "r = Inl e" "same_store st st1"
      using assms(1) Pair plan_ref_updates_error by (auto simp: update_refs_with_lock_def)
    then show ?thesis by (simp add: same_store_def)
  next
    case (Inr plans)
    then have p: "plan_ref_updates m [] updates st = (st1, Inr plans)" using Pair by simp
    have same: "same_store st st1" and plans: "list_all2 (prepared m st) updates plans" and "planned m plans"
      using plan_ref_updates_result [OF p assms(3)] assms(2) by (simp_all add: planned_def)
    moreover have "publish_ref_plans_with_durability m Durable plans st1 = (st', r)"
      using assms(1) p by (simp add: update_refs_with_lock_def publish_ref_plans_def)
    ultimately have "case r of Inr _ \<Rightarrow> published m plans st1 st'
      | Inl e \<Rightarrow> failed_rollback e \<or> taken_back plans st1 st' \<or> Durable = Durable \<and> e = IoError ''failed'' \<and> published_unsynced plans st1 st'"
      by (intro publish_plans) simp_all
    then show ?thesis unfolding same_store_files [OF same] using plans by (cases r) auto
  qed
qed

text \<open>Two packed threads move, and the second rename fails.\<close>

definition faulty_manager :: "unit RefManager" where
  "faulty_manager = \<lparr>rc_root = [''.heddle''], rc_local_head = None, rc_text = letters_lib, rc_digest = (\<lambda>_. ''''),
     rc_fault = (\<lambda>n. if n = 9 then FailsBefore else Works), rc_suffix = id, rm_reconciler = None, rm_committer = None\<rparr>"

definition two_packed :: "unit ref_store" where
  "two_packed = \<lparr>rf_files = [(packed_refs_path faulty_manager, packed_to_text letters_lib
       \<lparr>pr_threads = [(''main'', id_of 1), (''topic'', id_of 2)], pr_markers = []\<rparr>)],
     rf_dirs = [], rf_temps = [], rf_ticks = 0, cached_local_generation = 0, cached_shared_generation = 0, rf_log = ()\<rparr>"

definition two_moves :: "RefUpdate list" where
  "two_moves = [UpdateThread ''main'' Any (Some (id_of 3)), UpdateThread ''topic'' Any (Some (id_of 4))]"

theorem publish_all_or_nothing_witness:
  "\<exists>st' r. update_refs_with_lock faulty_manager two_moves two_packed = (st', r)
    \<and> ((\<exists>e. r = Inl e \<and> rf_files st' = rf_files two_packed)
      \<or> (\<exists>plans. list_all2 (prepared faulty_manager two_packed) two_moves plans
          \<and> (case r of
               Inr _ \<Rightarrow> published faulty_manager plans two_packed st'
             | Inl e \<Rightarrow> failed_rollback e \<or> taken_back plans two_packed st'
                 \<or> e = IoError ''failed'' \<and> published_unsynced plans two_packed st')))"
proof -
  obtain st' r where u: "update_refs_with_lock faulty_manager two_moves two_packed = (st', r)" by fastforce
  have "length (filter is_head_update two_moves) \<le> 1" by (simp add: two_moves_def)
  moreover have "head_apart faulty_manager" by (rule head_apart_root) (simp add: faulty_manager_def)
  ultimately show ?thesis using publish_all_or_nothing [OF u] u by blast
qed

end
