(* ===== verification/Slash_Path.thy ===== *)
theory Slash_Path
  imports Rust_Str
begin

text \<open>Paths as names joined with slashes: \<^verbatim>\<open>split('/')\<close> and \<^verbatim>\<open>join("/")\<close> of the standard library.\<close>

fun split_slash :: "string \<Rightarrow> string list" where
  "split_slash [] = [[]]"
| "split_slash (c # s) =
     (if c = CHR 0x2F then [] # split_slash s
      else case split_slash s of [] \<Rightarrow> [[c]] | part # parts \<Rightarrow> (c # part) # parts)"

fun join_slash :: "string list \<Rightarrow> string" where
  "join_slash [] = []"
| "join_slash [part] = part"
| "join_slash (part # parts) = part @ CHR 0x2F # join_slash parts"

lemma split_slash_parts: "part \<in> set (split_slash s) \<Longrightarrow> set part \<subseteq> set s - {CHR 0x2F}"
proof (induction s arbitrary: part)
  case (Cons c s)
  then show ?case by (cases "split_slash s") (force split: if_splits)+
qed simp

lemma split_slash_plain: "CHR 0x2F \<notin> set part \<Longrightarrow> split_slash part = [part]"
  by (induction part) auto

lemma split_slash_append: "CHR 0x2F \<notin> set part \<Longrightarrow> split_slash (part @ CHR 0x2F # s) = part # split_slash s"
  by (induction part) auto

lemma split_join: "parts \<noteq> [] \<Longrightarrow> \<forall>part \<in> set parts. CHR 0x2F \<notin> set part \<Longrightarrow> split_slash (join_slash parts) = parts"
  by (induction parts rule: join_slash.induct) (simp_all add: split_slash_plain split_slash_append)

lemma join_slash_chars: "set (join_slash parts) \<subseteq> insert (CHR 0x2F) (\<Union>part \<in> set parts. set part)"
  by (induction parts rule: join_slash.induct) auto

end
