(* ===== verification/Tree_Entry.thy ===== *)
theory Tree_Entry
  imports Visibility Byte_Cursor
begin

text \<open>
  Entries of a tree, \<^verbatim>\<open>src/crates/object-model/src/object/tree.rs\<close>, and the layout of an entry that was imported
  from a Git tree Git itself would not write, \<^verbatim>\<open>tree_git_layout.rs\<close>.

  A name is the list of its UTF-8 bytes. Git object ids are of the type \<open>'g\<close> of the \<^verbatim>\<open>sley_core\<close> crate; what the
  code asks of them is the parameter \<open>git_lib\<close>. An error message keeps its text up to a part printed with \<^verbatim>\<open>{:?}\<close>.
\<close>

section \<open>Modes and kinds\<close>

datatype TreeError = InvalidName string | InvalidStructure string

type_synonym 'a tree_outcome = "TreeError + 'a"

datatype FileMode = ModeNormal | ModeExecutable | ModeSymlink | ModeGitlink | ModeSpoollink

fun mode_to_byte :: "FileMode \<Rightarrow> u8" where
  "mode_to_byte ModeNormal = 0"
| "mode_to_byte ModeExecutable = 1"
| "mode_to_byte ModeSymlink = 2"
| "mode_to_byte ModeGitlink = 3"
| "mode_to_byte ModeSpoollink = 4"

definition mode_from_byte :: "u8 \<Rightarrow> FileMode option" where
  "mode_from_byte b =
     (if b = 0 then Some ModeNormal else if b = 1 then Some ModeExecutable else if b = 2 then Some ModeSymlink
      else if b = 3 then Some ModeGitlink else if b = 4 then Some ModeSpoollink else None)"

fun to_unix_mode :: "FileMode \<Rightarrow> u32" where
  "to_unix_mode ModeNormal = 33188"
| "to_unix_mode ModeExecutable = 33261"
| "to_unix_mode ModeSymlink = 40960"
| "to_unix_mode ModeGitlink = 57344"
| "to_unix_mode ModeSpoollink = 0"

datatype EntryType = TypeBlob | TypeTree | TypeSymlink | TypeGitlink | TypeSpoollink

fun entry_type_to_byte :: "EntryType \<Rightarrow> u8" where
  "entry_type_to_byte TypeBlob = 0"
| "entry_type_to_byte TypeTree = 1"
| "entry_type_to_byte TypeSymlink = 2"
| "entry_type_to_byte TypeGitlink = 3"
| "entry_type_to_byte TypeSpoollink = 4"

definition entry_type_from_byte :: "u8 \<Rightarrow> EntryType option" where
  "entry_type_from_byte b =
     (if b = 0 then Some TypeBlob else if b = 1 then Some TypeTree else if b = 2 then Some TypeSymlink
      else if b = 3 then Some TypeGitlink else if b = 4 then Some TypeSpoollink else None)"

section \<open>Targets\<close>

datatype GitObjectFormat = Sha1 | Sha256

record 'g git_lib =
  gl_format :: "'g \<Rightarrow> GitObjectFormat"
  gl_bytes :: "'g \<Rightarrow> bytes"
  gl_raw_len :: "GitObjectFormat \<Rightarrow> nat"
  gl_from_raw :: "GitObjectFormat \<Rightarrow> bytes \<Rightarrow> string + 'g"

definition GIT_OBJECT_FORMAT_SHA1 :: u8 where "GIT_OBJECT_FORMAT_SHA1 = 1"
definition GIT_OBJECT_FORMAT_SHA256 :: u8 where "GIT_OBJECT_FORMAT_SHA256 = 2"

fun git_format_to_tag :: "GitObjectFormat \<Rightarrow> u8" where
  "git_format_to_tag Sha1 = GIT_OBJECT_FORMAT_SHA1"
| "git_format_to_tag Sha256 = GIT_OBJECT_FORMAT_SHA256"

definition git_format_from_tag :: "u8 \<Rightarrow> GitObjectFormat tree_outcome" where
  "git_format_from_tag tag =
     (if tag = GIT_OBJECT_FORMAT_SHA1 then Inr Sha1
      else if tag = GIT_OBJECT_FORMAT_SHA256 then Inr Sha256
      else Inl (InvalidStructure (''unknown git object format tag '' @ dec_digits (unat tag))))"

datatype 'g TreeEntryTarget =
  TargetBlob ContentHash bool
| TargetTree ContentHash
| TargetSymlink ContentHash
| TargetGitlink 'g
| TargetSpoollink string StateId

fun target_entry_type :: "'g TreeEntryTarget \<Rightarrow> EntryType" where
  "target_entry_type (TargetBlob _ _) = TypeBlob"
| "target_entry_type (TargetTree _) = TypeTree"
| "target_entry_type (TargetSymlink _) = TypeSymlink"
| "target_entry_type (TargetGitlink _) = TypeGitlink"
| "target_entry_type (TargetSpoollink _ _) = TypeSpoollink"

fun target_mode :: "'g TreeEntryTarget \<Rightarrow> FileMode" where
  "target_mode (TargetBlob _ executable) = (if executable then ModeExecutable else ModeNormal)"
| "target_mode (TargetTree _) = ModeNormal"
| "target_mode (TargetSymlink _) = ModeSymlink"
| "target_mode (TargetGitlink _) = ModeGitlink"
| "target_mode (TargetSpoollink _ _) = ModeSpoollink"

fun target_content_hash :: "'g TreeEntryTarget \<Rightarrow> ContentHash option" where
  "target_content_hash (TargetBlob h _) = Some h"
| "target_content_hash (TargetTree h) = Some h"
| "target_content_hash (TargetSymlink h) = Some h"
| "target_content_hash _ = None"

fun target_gitlink :: "'g TreeEntryTarget \<Rightarrow> 'g option" where
  "target_gitlink (TargetGitlink g) = Some g"
| "target_gitlink _ = None"

fun target_spoollink :: "'g TreeEntryTarget \<Rightarrow> (string \<times> StateId) option" where
  "target_spoollink (TargetSpoollink spool state) = Some (spool, state)"
| "target_spoollink _ = None"

fun encoded_payload_len :: "'g git_lib \<Rightarrow> 'g TreeEntryTarget \<Rightarrow> nat" where
  "encoded_payload_len G (TargetBlob h _) = length h"
| "encoded_payload_len G (TargetTree h) = length h"
| "encoded_payload_len G (TargetSymlink h) = length h"
| "encoded_payload_len G (TargetGitlink g) = length (gl_bytes G g)"
| "encoded_payload_len G (TargetSpoollink spool state) = 4 + length spool + length state"

text \<open>The bytes \<^verbatim>\<open>write_payload\<close> emits.\<close>

definition write_payload :: "'g git_lib \<Rightarrow> 'g TreeEntryTarget \<Rightarrow> u8 \<Rightarrow> bytes" where
  "write_payload G target layout_flags =
     [mode_to_byte (target_mode target) OR layout_flags, entry_type_to_byte (target_entry_type target)]
     @ (case target of
          TargetBlob h _ \<Rightarrow> h
        | TargetTree h \<Rightarrow> h
        | TargetSymlink h \<Rightarrow> h
        | TargetGitlink g \<Rightarrow> git_format_to_tag (gl_format G g) # gl_bytes G g
        | TargetSpoollink spool state \<Rightarrow> le_bytes 4 (length spool) @ str_bytes spool @ state)"

section \<open>Raw Git modes\<close>

definition ENTRY_FLAG_RAW_GIT_MODE :: u8 where "ENTRY_FLAG_RAW_GIT_MODE = 0x80"
definition ENTRY_FLAG_SOURCE_POSITION :: u8 where "ENTRY_FLAG_SOURCE_POSITION = 0x40"
definition ENTRY_LAYOUT_FLAGS :: u8 where "ENTRY_LAYOUT_FLAGS = ENTRY_FLAG_RAW_GIT_MODE OR ENTRY_FLAG_SOURCE_POSITION"
definition RAW_GIT_MODE_TRAILER_LEN :: nat where "RAW_GIT_MODE_TRAILER_LEN = 5"
definition SOURCE_POSITION_TRAILER_LEN :: nat where "SOURCE_POSITION_TRAILER_LEN = 4"
definition GIT_TYPE_MASK :: u32 where "GIT_TYPE_MASK = 61440"

text \<open>The value of a \<open>RawGitMode\<close> is never 0.\<close>

record RawGitMode =
  gm_value :: u32
  gm_leading_zeros :: u8

fun octal_value :: "u32 \<Rightarrow> bytes \<Rightarrow> u32 option" where
  "octal_value v [] = Some v"
| "octal_value v (d # ds) =
     (if unat v * 8 < 2 ^ 32 \<and> unat (v * 8) + unat (d - 48) < 2 ^ 32
      then octal_value (v * 8 + ucast (d - 48)) ds else None)"

definition raw_mode_parse :: "bytes \<Rightarrow> RawGitMode tree_outcome" where
  "raw_mode_parse digits =
     (let invalid = Inl (InvalidStructure ''invalid git tree mode '');
          leading = length (takeWhile (\<lambda>d. d = 48) digits); significant = drop leading digits
      in if significant = [] \<or> \<not> list_all (\<lambda>d. 48 \<le> d \<and> d \<le> 55) digits then invalid
         else case octal_value 0 significant of
                None \<Rightarrow> invalid
              | Some v \<Rightarrow>
                  if v = 0 \<or> 255 < leading then invalid
                  else Inr \<lparr>gm_value = v, gm_leading_zeros = word_of_nat leading\<rparr>)"

definition raw_mode_canonical :: "EntryType \<Rightarrow> bool \<Rightarrow> RawGitMode option" where
  "raw_mode_canonical entry_type executable =
     map_option (\<lambda>v. \<lparr>gm_value = v, gm_leading_zeros = 0\<rparr>)
       (case entry_type of
          TypeTree \<Rightarrow> Some 16384
        | TypeBlob \<Rightarrow> Some (if executable then 33261 else 33188)
        | TypeSymlink \<Rightarrow> Some 40960
        | TypeGitlink \<Rightarrow> Some 57344
        | TypeSpoollink \<Rightarrow> None)"

definition raw_mode_entry_type :: "RawGitMode \<Rightarrow> EntryType option" where
  "raw_mode_entry_type mode =
     (let v = gm_value mode; kind = v AND GIT_TYPE_MASK
      in if v AND NOT 65535 \<noteq> 0 then None
         else if kind = 16384 then Some TypeTree
         else if kind = 32768 then Some TypeBlob
         else if kind = 40960 then Some TypeSymlink
         else if kind = 57344 then Some TypeGitlink else None)"

definition raw_mode_is_executable :: "RawGitMode \<Rightarrow> bool" where
  "raw_mode_is_executable mode \<longleftrightarrow> raw_mode_entry_type mode = Some TypeBlob \<and> gm_value mode AND 64 \<noteq> 0"

text \<open>\<^verbatim>\<open>format!("{:o}", value)\<close>.\<close>

fun octal_digits :: "nat \<Rightarrow> bytes" where
  "octal_digits n = (if n < 8 then [word_of_nat (48 + n)] else octal_digits (n div 8) @ [word_of_nat (48 + n mod 8)])"

declare octal_digits.simps [simp del]

definition write_digits :: "RawGitMode \<Rightarrow> bytes" where
  "write_digits mode = replicate (unat (gm_leading_zeros mode)) 48 @ octal_digits (unat (gm_value mode))"

definition is_canonical_for :: "RawGitMode \<Rightarrow> EntryType \<Rightarrow> bool \<Rightarrow> bool" where
  "is_canonical_for mode entry_type executable \<longleftrightarrow> raw_mode_canonical entry_type executable = Some mode"

section \<open>Entries\<close>

definition validate_name :: "string \<Rightarrow> unit tree_outcome" where
  "validate_name name =
     (if name = [] then Inl (InvalidName ''entry name cannot be empty'')
      else if name = ''.'' \<or> name = ''..'' then Inl (InvalidName ([CHR 0x27] @ name @ [CHR 0x27] @ '' is not a valid entry name''))
      else if CHR ''/'' \<in> set name \<or> CHR 0x5C \<in> set name then Inl (InvalidName ''entry name cannot contain path separators'')
      else if list_ex (\<lambda>b. b < 0x20 \<or> b = 0x7F) (str_bytes name) then Inl (InvalidName ''entry name contains control characters'')
      else if 65535 < length name then Inl (InvalidName ''entry name exceeds the HTR4 u16 length bound'')
      else Inr ())"

record 'g TreeEntry =
  te_name :: string
  te_target :: "'g TreeEntryTarget"
  te_git_mode :: "RawGitMode option"

abbreviation te_entry_type :: "'g TreeEntry \<Rightarrow> EntryType" where
  "te_entry_type e \<equiv> target_entry_type (te_target e)"

definition is_tree :: "'g TreeEntry \<Rightarrow> bool" where "is_tree e \<longleftrightarrow> te_entry_type e = TypeTree"

definition is_executable :: "'g TreeEntry \<Rightarrow> bool" where
  "is_executable e \<longleftrightarrow> target_mode (te_target e) = ModeExecutable"

definition check_raw_git_mode :: "'g TreeEntry \<Rightarrow> RawGitMode \<Rightarrow> unit tree_outcome" where
  "check_raw_git_mode e mode =
     (let entry_type = te_entry_type e; executable = is_executable e
      in if raw_mode_entry_type mode \<noteq> Some entry_type
            \<or> (entry_type = TypeBlob \<and> raw_mode_is_executable mode \<noteq> executable)
         then Inl (InvalidStructure (''git mode '' @ bytes_str (octal_digits (unat (gm_value mode))) @ '' does not describe ''))
         else if is_canonical_for mode entry_type executable
         then Inl (InvalidStructure (''entry '' @ [CHR 0x27] @ te_name e @ [CHR 0x27] @ '' records its canonical git mode as a raw mode''))
         else Inr ())"

definition validate_entry :: "'g TreeEntry \<Rightarrow> unit tree_outcome" where
  "validate_entry e =
     and_then (validate_name (te_name e)) (\<lambda>_.
       case te_git_mode e of Some mode \<Rightarrow> check_raw_git_mode e mode | None \<Rightarrow> Inr ())"

definition new_entry :: "string \<Rightarrow> 'g TreeEntryTarget \<Rightarrow> 'g TreeEntry" where
  "new_entry name target = \<lparr>te_name = name, te_target = target, te_git_mode = None\<rparr>"

definition with_raw_git_mode :: "'g TreeEntry \<Rightarrow> RawGitMode \<Rightarrow> 'g TreeEntry tree_outcome" where
  "with_raw_git_mode e mode =
     (if raw_mode_canonical (te_entry_type e) (is_executable e) = Some mode then Inr (e\<lparr>te_git_mode := None\<rparr>)
      else and_then (check_raw_git_mode e mode) (\<lambda>_. Inr (e\<lparr>te_git_mode := Some mode\<rparr>)))"

definition same_meaning :: "'g TreeEntry \<Rightarrow> 'g TreeEntry \<Rightarrow> bool" where
  "same_meaning e e' \<longleftrightarrow> te_name e = te_name e' \<and> te_target e = te_target e'"

definition drop_raw_git_mode :: "'g TreeEntry \<Rightarrow> 'g TreeEntry" where
  "drop_raw_git_mode e = e\<lparr>te_git_mode := None\<rparr>"

definition entry_git_mode :: "'g TreeEntry \<Rightarrow> RawGitMode option" where
  "entry_git_mode e =
     (case te_git_mode e of Some mode \<Rightarrow> Some mode | None \<Rightarrow> raw_mode_canonical (te_entry_type e) (is_executable e))"

text \<open>\<^verbatim>\<open>TreeEntry::file\<close>, \<^verbatim>\<open>directory\<close>, \<^verbatim>\<open>symlink\<close>, \<^verbatim>\<open>gitlink\<close> and \<^verbatim>\<open>spoollink\<close>.\<close>

definition checked_entry :: "string \<Rightarrow> 'g TreeEntryTarget \<Rightarrow> 'g TreeEntry tree_outcome" where
  "checked_entry name target = and_then (validate_name name) (\<lambda>_. Inr (new_entry name target))"

definition entry_file :: "string \<Rightarrow> ContentHash \<Rightarrow> bool \<Rightarrow> 'g TreeEntry tree_outcome" where
  "entry_file name h executable = checked_entry name (TargetBlob h executable)"

definition entry_directory :: "string \<Rightarrow> ContentHash \<Rightarrow> 'g TreeEntry tree_outcome" where
  "entry_directory name h = checked_entry name (TargetTree h)"

definition entry_symlink :: "string \<Rightarrow> ContentHash \<Rightarrow> 'g TreeEntry tree_outcome" where
  "entry_symlink name h = checked_entry name (TargetSymlink h)"

definition entry_gitlink :: "string \<Rightarrow> 'g \<Rightarrow> 'g TreeEntry tree_outcome" where
  "entry_gitlink name g = checked_entry name (TargetGitlink g)"

definition entry_spoollink :: "string \<Rightarrow> string \<Rightarrow> StateId \<Rightarrow> 'g TreeEntry tree_outcome" where
  "entry_spoollink name spool state = checked_entry name (TargetSpoollink spool state)"

definition set_name :: "'g TreeEntry \<Rightarrow> string \<Rightarrow> 'g TreeEntry tree_outcome" where
  "set_name e name = and_then (validate_name name) (\<lambda>_. Inr (e\<lparr>te_name := name\<rparr>))"

definition with_mode :: "'g TreeEntry \<Rightarrow> FileMode \<Rightarrow> 'g TreeEntry tree_outcome" where
  "with_mode e mode =
     (let wrong = Inl (InvalidStructure ''cannot apply mode '')
      in case te_target e of
           TargetBlob h _ \<Rightarrow>
             if mode = ModeNormal \<or> mode = ModeExecutable then entry_file (te_name e) h (mode = ModeExecutable) else wrong
         | _ \<Rightarrow> if mode = target_mode (te_target e) then Inr e else wrong)"

fun leaf_content_hash :: "'g TreeEntryTarget \<Rightarrow> ContentHash option" where
  "leaf_content_hash (TargetBlob h _) = Some h"
| "leaf_content_hash (TargetSymlink h) = Some h"
| "leaf_content_hash _ = None"

fun target_blob_hash :: "'g TreeEntryTarget \<Rightarrow> ContentHash option" where
  "target_blob_hash (TargetBlob h _) = Some h"
| "target_blob_hash _ = None"

fun target_tree_hash :: "'g TreeEntryTarget \<Rightarrow> ContentHash option" where
  "target_tree_hash (TargetTree h) = Some h"
| "target_tree_hash _ = None"

section \<open>Layout trailers\<close>

definition layout_flags :: "'g TreeEntry \<Rightarrow> nat option \<Rightarrow> u8" where
  "layout_flags e position =
     (if te_git_mode e \<noteq> None then ENTRY_FLAG_RAW_GIT_MODE else 0)
     OR (if position \<noteq> None then ENTRY_FLAG_SOURCE_POSITION else 0)"

definition write_layout_trailer :: "'g TreeEntry \<Rightarrow> nat option \<Rightarrow> bytes" where
  "write_layout_trailer e position =
     (case te_git_mode e of Some mode \<Rightarrow> le_bytes 4 (unat (gm_value mode)) @ [gm_leading_zeros mode] | None \<Rightarrow> [])
     @ (case position of Some p \<Rightarrow> le_bytes 4 p | None \<Rightarrow> [])"

definition layout_trailer_len :: "u8 \<Rightarrow> nat" where
  "layout_trailer_len flags =
     (if flags AND ENTRY_FLAG_RAW_GIT_MODE \<noteq> 0 then RAW_GIT_MODE_TRAILER_LEN else 0)
     + (if flags AND ENTRY_FLAG_SOURCE_POSITION \<noteq> 0 then SOURCE_POSITION_TRAILER_LEN else 0)"

definition apply_layout_trailer :: "'g TreeEntry \<Rightarrow> u8 \<Rightarrow> bytes \<Rightarrow> ('g TreeEntry \<times> nat option) tree_outcome" where
  "apply_layout_trailer e flags trailer =
     (let malformed = InvalidStructure ''malformed tree entry layout trailer''
      in if length trailer \<noteq> layout_trailer_len flags then Inl malformed
         else and_then
           (if flags AND ENTRY_FLAG_RAW_GIT_MODE \<noteq> 0
            then let value = word_of_nat (from_le_bytes (take 4 trailer)) :: u32;
                     mode = \<lparr>gm_value = value, gm_leading_zeros = trailer ! 4\<rparr>
                 in if value = 0 then Inl malformed
                    else and_then (check_raw_git_mode e mode) (\<lambda>_.
                      Inr (e\<lparr>te_git_mode := Some mode\<rparr>, drop RAW_GIT_MODE_TRAILER_LEN trailer))
            else Inr (e, trailer)) (\<lambda>(e, rest).
         Inr (e, if flags AND ENTRY_FLAG_SOURCE_POSITION \<noteq> 0 then Some (from_le_bytes rest) else None)))"

definition split_layout_flags :: "u8 \<Rightarrow> u8 \<times> u8" where
  "split_layout_flags byte = (byte AND ENTRY_LAYOUT_FLAGS, byte AND NOT ENTRY_LAYOUT_FLAGS)"

section \<open>The order of Git\<close>

text \<open>\<^verbatim>\<open>git_canonical_order(left, right) == Less\<close>, and the key that is compared after the shared bytes.\<close>

definition name_next :: "'g TreeEntry \<Rightarrow> nat \<Rightarrow> char" where
  "name_next e i = (if i < length (te_name e) then te_name e ! i else if is_tree e then CHR ''/'' else CHR 0x00)"

definition git_order_less :: "'g TreeEntry \<Rightarrow> 'g TreeEntry \<Rightarrow> bool" where
  "git_order_less l r =
     (let shared = min (length (te_name l)) (length (te_name r));
          ls = take shared (te_name l); rs = take shared (te_name r)
      in ls < rs \<or> ls = rs \<and> name_next l shared < name_next r shared)"

section \<open>Git trees\<close>

record 'g GitTreeEntryRef =
  ge_mode :: RawGitMode
  ge_name :: bytes
  ge_oid :: 'g

definition split_at_byte :: "u8 \<Rightarrow> bytes \<Rightarrow> (bytes \<times> bytes) option" where
  "split_at_byte b bs = (if b \<in> set bs then Some (takeWhile (\<lambda>c. c \<noteq> b) bs, tl (dropWhile (\<lambda>c. c \<noteq> b) bs)) else None)"

lemma split_at_byte_shorter: "split_at_byte b bs = Some (l, r) \<Longrightarrow> length bs = Suc (length l + length r)"
proof -
  assume a: "split_at_byte b bs = Some (l, r)"
  then have "dropWhile (\<lambda>c. c \<noteq> b) bs \<noteq> []" by (auto simp: split_at_byte_def split: if_splits)
  moreover have "length bs = length l + length (dropWhile (\<lambda>c. c \<noteq> b) bs)"
    using a by (metis Pair_inject length_append option.inject option.simps(3) split_at_byte_def takeWhile_dropWhile_id)
  ultimately show ?thesis using a by (cases "dropWhile (\<lambda>c. c \<noteq> b) bs") (auto simp: split_at_byte_def split: if_splits)
qed

function parse_git_tree :: "'g git_lib \<Rightarrow> GitObjectFormat \<Rightarrow> bytes \<Rightarrow> 'g GitTreeEntryRef list tree_outcome" where
  "parse_git_tree G format rest =
     (let malformed = (\<lambda>what. Inl (InvalidStructure (''malformed git tree: '' @ what)))
      in if rest = [] then Inr []
         else case split_at_byte 32 rest of
           None \<Rightarrow> malformed ''unterminated mode''
         | Some (digits, after_mode) \<Rightarrow>
             (case raw_mode_parse digits of
                Inl e \<Rightarrow> Inl e
              | Inr mode \<Rightarrow>
                  (case split_at_byte 0 after_mode of
                     None \<Rightarrow> malformed ''unterminated name''
                   | Some (name, after_name) \<Rightarrow>
                       let oid_len = gl_raw_len G format
                       in if name = [] then malformed ''empty name''
                          else if length after_name < oid_len then malformed ''truncated object id''
                          else case gl_from_raw G format (take oid_len after_name) of
                                 Inl error \<Rightarrow> malformed error
                               | Inr oid \<Rightarrow>
                                   (case parse_git_tree G format (drop oid_len after_name) of
                                      Inl e \<Rightarrow> Inl e
                                    | Inr es \<Rightarrow> Inr (\<lparr>ge_mode = mode, ge_name = name, ge_oid = oid\<rparr> # es)))))"
  by pat_completeness auto
termination
  by (relation "measure (\<lambda>(G, format, rest). length rest)") (auto dest!: split_at_byte_shorter)

declare parse_git_tree.simps [simp del]

end
