(* ===== verification/Tree_Object.thy ===== *)
theory Tree_Object
  imports Tree_Entry Rust_Search
begin

text \<open>
  Trees, \<^verbatim>\<open>src/crates/object-model/src/object/tree.rs\<close>: entries in the order of their names with the salts of a
  salted tree and the positions of a tree imported from Git, hashing, and the projection that redacts entries.

  BLAKE3 is the parameter \<open>blake3\<close>; the preimages are written out. The random salt of an inserted entry is an
  argument. Error messages stop before a hash.
\<close>

section \<open>Trees\<close>

datatype TreeScheme = V3Flat | V4Salted

record 'g Tree =
  tr_entries :: "'g TreeEntry list"
  tr_scheme :: TreeScheme
  tr_salts :: "bytes list"
  tr_positions :: "nat list"

definition flat_tree :: "'g TreeEntry list \<Rightarrow> nat list \<Rightarrow> 'g Tree" where
  "flat_tree es positions = \<lparr>tr_entries = es, tr_scheme = V3Flat, tr_salts = [], tr_positions = positions\<rparr>"

definition new_tree :: "'g Tree" where
  "new_tree = flat_tree [] []"

definition from_entries :: "'g TreeEntry list \<Rightarrow> 'g Tree" where
  "from_entries es = flat_tree (sort_key te_name (map drop_raw_git_mode es)) []"

section \<open>The order of a Git tree\<close>

text \<open>\<^verbatim>\<open>sort_by\<close> keeps the order of equal elements.\<close>

fun insert_by :: "('a \<Rightarrow> 'a \<Rightarrow> bool) \<Rightarrow> 'a \<Rightarrow> 'a list \<Rightarrow> 'a list" where
  "insert_by lt x [] = [x]"
| "insert_by lt x (y # ys) = (if lt y x then y # insert_by lt x ys else x # y # ys)"

definition sort_by :: "('a \<Rightarrow> 'a \<Rightarrow> bool) \<Rightarrow> 'a list \<Rightarrow> 'a list" where
  "sort_by lt xs = foldr (insert_by lt) xs []"

definition list_at :: "'a list \<Rightarrow> nat \<Rightarrow> 'a option" where
  "list_at xs i = (if i < length xs then Some (xs ! i) else None)"

definition source_position_at :: "'g Tree \<Rightarrow> nat \<Rightarrow> nat option" where
  "source_position_at t i = list_at (tr_positions t) i"

text \<open>\<^verbatim>\<open>None\<close> is less than every \<^verbatim>\<open>Some\<close>.\<close>

definition option_rank :: "nat option \<Rightarrow> nat" where
  "option_rank x = (case x of None \<Rightarrow> 0 | Some p \<Rightarrow> Suc p)"

definition git_ordered_entries :: "'g Tree \<Rightarrow> 'g TreeEntry list" where
  "git_ordered_entries t =
     (if tr_positions t = [] then sort_by git_order_less (tr_entries t)
      else map snd (sort_key (\<lambda>(i, e). option_rank (source_position_at t i)) (enumerate 0 (tr_entries t))))"

section \<open>Validation\<close>

fun validate_entries :: "string option \<Rightarrow> 'g TreeEntry list \<Rightarrow> unit tree_outcome" where
  "validate_entries previous [] = Inr ()"
| "validate_entries previous (e # es) =
     and_then (validate_entry e) (\<lambda>_.
       if (case previous of Some p \<Rightarrow> te_name e \<le> p | None \<Rightarrow> False)
       then Inl (InvalidStructure ''entries must be strictly sorted by name'')
       else validate_entries (Some (te_name e)) es)"

fun check_positions :: "bool list \<Rightarrow> nat list \<Rightarrow> unit tree_outcome" where
  "check_positions seen [] = Inr ()"
| "check_positions seen (p # ps) =
     (if length seen \<le> p then Inl (InvalidStructure (''source position '' @ dec_digits p @ '' is out of range''))
      else if seen ! p then Inl (InvalidStructure (''source position '' @ dec_digits p @ '' is repeated''))
      else check_positions (seen[p := True]) ps)"

definition validate_source_positions :: "'g Tree \<Rightarrow> unit tree_outcome" where
  "validate_source_positions t =
     (let n = length (tr_entries t); ps = tr_positions t
      in if ps = [] then Inr ()
         else if tr_scheme t \<noteq> V3Flat then Inl (InvalidStructure ''only v3 trees record a git source order'')
         else if length ps \<noteq> n
         then Inl (InvalidStructure (''tree has '' @ dec_digits n @ '' entries but '' @ dec_digits (length ps) @ '' source positions''))
         else and_then (check_positions (replicate n False) ps) (\<lambda>_.
           if successively git_order_less (git_ordered_entries t)
           then Inl (InvalidStructure ''recorded git source order is the canonical order'') else Inr ()))"

definition salts_mismatch :: "nat \<Rightarrow> nat \<Rightarrow> TreeError" where
  "salts_mismatch n k = InvalidStructure (''v4 tree has '' @ dec_digits n @ '' entries but '' @ dec_digits k @ '' salts'')"

definition validate_tree :: "'g Tree \<Rightarrow> unit tree_outcome" where
  "validate_tree t =
     and_then
       (case tr_scheme t of
          V3Flat \<Rightarrow> if tr_salts t \<noteq> [] then Inl (InvalidStructure ''v3 tree must not carry per-entry salts'') else Inr ()
        | V4Salted \<Rightarrow>
            if length (tr_salts t) \<noteq> length (tr_entries t)
            then Inl (salts_mismatch (length (tr_entries t)) (length (tr_salts t)))
            else if list_ex (\<lambda>e. te_git_mode e \<noteq> None) (tr_entries t)
            then Inl (InvalidStructure ''v4 trees do not record a git source layout'')
            else Inr ()) (\<lambda>_.
     and_then (validate_entries None (tr_entries t)) (\<lambda>_. validate_source_positions t))"

section \<open>Building\<close>

definition try_from_decoded_layout :: "'g TreeEntry list \<Rightarrow> nat list \<Rightarrow> 'g Tree tree_outcome" where
  "try_from_decoded_layout es positions =
     (let t = flat_tree es positions in and_then (validate_tree t) (\<lambda>_. Inr t))"

definition try_from_decoded_entries :: "'g TreeEntry list \<Rightarrow> 'g Tree tree_outcome" where
  "try_from_decoded_entries es = try_from_decoded_layout es []"

definition from_git_entries :: "'g TreeEntry list \<Rightarrow> 'g Tree tree_outcome" where
  "from_git_entries es =
     (let canonical = successively git_order_less es;
          paired = sort_key (\<lambda>(e, p). te_name e) (zip es [0..<length es])
      in if 2 ^ 32 < length es then Inl (InvalidStructure ''git tree has more than u32::MAX entries'')
         else case find (\<lambda>((e, p), (e', p')). te_name e = te_name e') (zip paired (drop 1 paired)) of
                Some ((e, p), _) \<Rightarrow> Inl (InvalidStructure (''duplicate entry name '' @ [CHR 0x27] @ te_name e @ [CHR 0x27]))
              | None \<Rightarrow>
                  (let t = flat_tree (map fst paired) (if canonical then [] else map snd paired)
                   in and_then (validate_tree t) (\<lambda>_. Inr t)))"

definition try_from_decoded_entries_salted_v4 :: "'g TreeEntry list \<Rightarrow> bytes list \<Rightarrow> 'g Tree tree_outcome" where
  "try_from_decoded_entries_salted_v4 es salts =
     (if length es \<noteq> length salts then Inl (salts_mismatch (length es) (length salts))
      else let t = \<lparr>tr_entries = es, tr_scheme = V4Salted, tr_salts = salts, tr_positions = []\<rparr>
           in and_then (validate_tree t) (\<lambda>_. Inr t))"

definition from_entries_salted_v4 :: "'g TreeEntry list \<Rightarrow> bytes list \<Rightarrow> 'g Tree tree_outcome" where
  "from_entries_salted_v4 es salts =
     (if length es \<noteq> length salts then Inl (salts_mismatch (length es) (length salts))
      else let paired = sort_key (\<lambda>(e, s). te_name e) (zip (map drop_raw_git_mode es) salts)
           in try_from_decoded_entries_salted_v4 (map fst paired) (map snd paired))"

section \<open>Reading and editing\<close>

definition has_git_layout :: "'g Tree \<Rightarrow> bool" where
  "has_git_layout t \<longleftrightarrow> tr_positions t \<noteq> [] \<or> list_ex (\<lambda>e. te_git_mode e \<noteq> None) (tr_entries t)"

definition requires_canonical_body :: "'g Tree \<Rightarrow> bool" where
  "requires_canonical_body t \<longleftrightarrow> tr_scheme t = V4Salted \<or> has_git_layout t"

definition drop_git_layout :: "'g Tree \<Rightarrow> 'g Tree" where
  "drop_git_layout t = t\<lparr>tr_positions := [], tr_entries := map drop_raw_git_mode (tr_entries t)\<rparr>"

text \<open>The index \<^verbatim>\<open>binary_search_by\<close> finds.\<close>

definition name_index :: "'g Tree \<Rightarrow> string \<Rightarrow> nat option" where
  "name_index t name =
     (if tr_entries t = [] then None
      else let i = bsearch_loop (map te_name (tr_entries t)) name 0 (length (tr_entries t))
           in if te_name (tr_entries t ! i) = name then Some i else None)"

definition tree_get :: "'g Tree \<Rightarrow> string \<Rightarrow> 'g TreeEntry option" where
  "tree_get t name = map_option ((!) (tr_entries t)) (name_index t name)"

definition insert_at :: "nat \<Rightarrow> 'a \<Rightarrow> 'a list \<Rightarrow> 'a list" where
  "insert_at i x xs = take i xs @ x # drop i xs"

definition remove_at :: "nat \<Rightarrow> 'a list \<Rightarrow> 'a list" where
  "remove_at i xs = take i xs @ drop (Suc i) xs"

text \<open>The position of the first element, or the length.\<close>

definition position_or_end :: "('a \<Rightarrow> bool) \<Rightarrow> 'a list \<Rightarrow> nat" where
  "position_or_end P xs = length (takeWhile (\<lambda>x. \<not> P x) xs)"

definition insert_salted :: "'g Tree \<Rightarrow> 'g TreeEntry \<Rightarrow> bytes \<Rightarrow> 'g Tree" where
  "insert_salted t e salt =
     (let existing = position_or_end (\<lambda>e'. te_name e' = te_name e) (tr_entries t);
          present = existing < length (tr_entries t);
          es = if present then remove_at existing (tr_entries t) else tr_entries t;
          salts = if present then remove_at existing (tr_salts t) else tr_salts t;
          pos = position_or_end (\<lambda>e'. te_name e < te_name e') es
      in t\<lparr>tr_entries := insert_at pos e es, tr_salts := insert_at pos salt salts\<rparr>)"

definition tree_insert :: "'g Tree \<Rightarrow> 'g TreeEntry \<Rightarrow> bytes \<Rightarrow> 'g Tree" where
  "tree_insert t e random_salt =
     (let t = drop_git_layout t; e = drop_raw_git_mode e
      in case tr_scheme t of
           V3Flat \<Rightarrow>
             (let es = filter (\<lambda>e'. te_name e' \<noteq> te_name e) (tr_entries t);
                  pos = position_or_end (\<lambda>e'. te_name e < te_name e') es
              in t\<lparr>tr_entries := insert_at pos e es\<rparr>)
         | V4Salted \<Rightarrow> insert_salted t e random_salt)"

definition tree_remove :: "'g Tree \<Rightarrow> string \<Rightarrow> 'g Tree \<times> 'g TreeEntry option" where
  "tree_remove t name =
     (let pos = position_or_end (\<lambda>e. te_name e = name) (tr_entries t)
      in if length (tr_entries t) \<le> pos then (t, None)
         else let t = drop_git_layout t;
                  t' = if tr_scheme t = V4Salted then t\<lparr>tr_salts := remove_at pos (tr_salts t)\<rparr> else t
              in (t'\<lparr>tr_entries := remove_at pos (tr_entries t)\<rparr>, Some (tr_entries t ! pos)))"

section \<open>Hashing\<close>

definition TREE_V4_LEAF_PREFIX :: string where "TREE_V4_LEAF_PREFIX = ''tree-v4-leaf''"
definition TREE_V4_NODE_PREFIX :: string where "TREE_V4_NODE_PREFIX = ''tree-v4-node''"
definition TREE_EMPTY_PREFIX :: string where "TREE_EMPTY_PREFIX = ''tree''"

definition compute_typed :: "(bytes \<Rightarrow> ContentHash) \<Rightarrow> string \<Rightarrow> bytes \<Rightarrow> ContentHash" where
  "compute_typed blake3 prefix content =
     blake3 (str_bytes prefix @ le_bytes 8 (length content) @ [0] @ content)"

definition entry_preimage :: "'g git_lib \<Rightarrow> 'g TreeEntry \<Rightarrow> nat option \<Rightarrow> bytes" where
  "entry_preimage G e position =
     write_payload G (te_target e) (layout_flags e position) @ str_bytes (te_name e) @ [0] @ write_layout_trailer e position"

definition entry_encoded_len :: "'g git_lib \<Rightarrow> 'g TreeEntry \<Rightarrow> nat option \<Rightarrow> nat" where
  "entry_encoded_len G e position =
     1 + 1 + encoded_payload_len G (te_target e) + length (te_name e) + 1 + layout_trailer_len (layout_flags e position)"

text \<open>\<^verbatim>\<open>flat_hash_v3\<close>: the length is the sum of \<^verbatim>\<open>encoded_len\<close>, not the length of the preimage.\<close>

definition flat_hash_v3 :: "(bytes \<Rightarrow> ContentHash) \<Rightarrow> 'g git_lib \<Rightarrow> 'g Tree \<Rightarrow> ContentHash" where
  "flat_hash_v3 blake3 G t =
     (let es = enumerate 0 (tr_entries t);
          total_len = sum_list (map (\<lambda>(i, e). entry_encoded_len G e (source_position_at t i)) es)
      in blake3 (str_bytes TREE_EMPTY_PREFIX @ le_bytes 8 total_len @ [0]
           @ concat (map (\<lambda>(i, e). entry_preimage G e (source_position_at t i)) es)))"

definition v4_leaf_preimage :: "'g git_lib \<Rightarrow> 'g TreeEntry \<Rightarrow> bytes \<Rightarrow> bytes" where
  "v4_leaf_preimage G e salt =
     salt @ write_payload G (te_target e) (layout_flags e None) @ le_bytes 2 (length (te_name e))
     @ str_bytes (te_name e) @ write_layout_trailer e None"

definition v4_leaf_hash :: "(bytes \<Rightarrow> ContentHash) \<Rightarrow> 'g git_lib \<Rightarrow> 'g TreeEntry \<Rightarrow> bytes \<Rightarrow> ContentHash" where
  "v4_leaf_hash blake3 G e salt = compute_typed blake3 TREE_V4_LEAF_PREFIX (v4_leaf_preimage G e salt)"

text \<open>The largest power of two up to \<open>n\<close>.\<close>

fun top_power :: "nat \<Rightarrow> nat" where
  "top_power n = (if n < 2 then 1 else 2 * top_power (n div 2))"

declare top_power.simps [simp del]

lemma top_power_bounds: "0 < n \<Longrightarrow> 0 < top_power n \<and> top_power n \<le> n \<and> n < 2 * top_power n"
proof (induction n rule: top_power.induct)
  case (1 n)
  show ?case
  proof (cases "n < 2")
    case True
    then show ?thesis using "1.prems" by (simp add: top_power.simps [of n])
  next
    case False
    then have "top_power n = 2 * top_power (n div 2)" by (simp add: top_power.simps [of n])
    moreover have "0 < top_power (n div 2) \<and> top_power (n div 2) \<le> n div 2 \<and> n div 2 < 2 * top_power (n div 2)"
      using "1.IH" False by simp
    moreover have "2 * (n div 2) \<le> n" "n < 2 * (n div 2) + 2" by linarith+
    ultimately show ?thesis by linarith
  qed
qed

function merkle_tree_hash :: "(bytes \<Rightarrow> ContentHash) \<Rightarrow> ContentHash list \<Rightarrow> ContentHash" where
  "merkle_tree_hash blake3 leaves =
     (if leaves = [] then compute_typed blake3 TREE_EMPTY_PREFIX []
      else if length leaves = 1 then leaves ! 0
      else let k = top_power (length leaves - 1);
               left = merkle_tree_hash blake3 (take k leaves);
               right = merkle_tree_hash blake3 (drop k leaves)
           in blake3 (str_bytes TREE_V4_NODE_PREFIX @ le_bytes 8 64 @ [0] @ left @ right))"
  by pat_completeness auto
termination
proof (relation "measure (\<lambda>(blake3, leaves). length leaves)")
  fix blake3 :: "bytes \<Rightarrow> ContentHash" and leaves :: "ContentHash list" and k
  assume a: "leaves \<noteq> []" "length leaves \<noteq> 1" "k = top_power (length leaves - 1)"
  then have "2 \<le> length leaves" by (cases leaves) (auto simp: Suc_le_eq)
  then have "0 < k \<and> k \<le> length leaves - 1" using a(3) top_power_bounds [of "length leaves - 1"] by simp
  then show "((blake3, take k leaves), blake3, leaves) \<in> measure (\<lambda>(blake3, leaves). length leaves)"
    "((blake3, drop k leaves), blake3, leaves) \<in> measure (\<lambda>(blake3, leaves). length leaves)"
    using \<open>2 \<le> length leaves\<close> by auto
qed simp

declare merkle_tree_hash.simps [simp del]

definition merkle_root_from_leaves :: "(bytes \<Rightarrow> ContentHash) \<Rightarrow> ContentHash list \<Rightarrow> ContentHash" where
  "merkle_root_from_leaves blake3 leaves = merkle_tree_hash blake3 (sort leaves)"

definition merkle_root_v4 :: "(bytes \<Rightarrow> ContentHash) \<Rightarrow> 'g git_lib \<Rightarrow> 'g Tree \<Rightarrow> ContentHash" where
  "merkle_root_v4 blake3 G t =
     merkle_root_from_leaves blake3 (map (\<lambda>(e, salt). v4_leaf_hash blake3 G e salt) (zip (tr_entries t) (tr_salts t)))"

definition tree_hash :: "(bytes \<Rightarrow> ContentHash) \<Rightarrow> 'g git_lib \<Rightarrow> 'g Tree \<Rightarrow> ContentHash" where
  "tree_hash blake3 G t = (case tr_scheme t of V3Flat \<Rightarrow> flat_hash_v3 blake3 G t | V4Salted \<Rightarrow> merkle_root_v4 blake3 G t)"

definition v4_leaf_hash_at :: "(bytes \<Rightarrow> ContentHash) \<Rightarrow> 'g git_lib \<Rightarrow> 'g Tree \<Rightarrow> nat \<Rightarrow> ContentHash option" where
  "v4_leaf_hash_at blake3 G t i =
     (if tr_scheme t \<noteq> V4Salted then None
      else case (list_at (tr_entries t) i, list_at (tr_salts t) i) of
             (Some e, Some salt) \<Rightarrow> Some (v4_leaf_hash blake3 G e salt) | _ \<Rightarrow> None)"

definition v4_leaf_hash_for :: "(bytes \<Rightarrow> ContentHash) \<Rightarrow> 'g git_lib \<Rightarrow> 'g Tree \<Rightarrow> string \<Rightarrow> ContentHash option" where
  "v4_leaf_hash_for blake3 G t name = Option.bind (name_index t name) (v4_leaf_hash_at blake3 G t)"

section \<open>Redaction\<close>

datatype 'g PartialTreeLeaf = Visible "'g TreeEntry" bytes | Redacted ContentHash

fun leaf_hash :: "(bytes \<Rightarrow> ContentHash) \<Rightarrow> 'g git_lib \<Rightarrow> 'g PartialTreeLeaf \<Rightarrow> ContentHash" where
  "leaf_hash blake3 G (Visible e salt) = v4_leaf_hash blake3 G e salt"
| "leaf_hash blake3 G (Redacted h) = h"

fun is_redacted :: "'g PartialTreeLeaf \<Rightarrow> bool" where
  "is_redacted (Visible _ _) = False"
| "is_redacted (Redacted _) = True"

record 'g PartialTree =
  pt_declared_root :: ContentHash
  pt_leaves :: "'g PartialTreeLeaf list"

definition partial_project ::
  "(bytes \<Rightarrow> ContentHash) \<Rightarrow> 'g git_lib \<Rightarrow> 'g Tree \<Rightarrow> (ContentHash \<Rightarrow> bool) \<Rightarrow> 'g PartialTree tree_outcome" where
  "partial_project blake3 G t redacted =
     (if tr_scheme t \<noteq> V4Salted then Inl (InvalidStructure ''cannot project a redacted tree from a non-v4 tree'')
      else and_then (validate_tree t) (\<lambda>_.
        Inr \<lparr>pt_declared_root = tree_hash blake3 G t,
             pt_leaves = map (\<lambda>(e, salt). let h = v4_leaf_hash blake3 G e salt
               in if redacted h then Redacted h else Visible e salt) (zip (tr_entries t) (tr_salts t))\<rparr>))"

definition redacted_count :: "'g PartialTree \<Rightarrow> nat" where
  "redacted_count pt = length (filter is_redacted (pt_leaves pt))"

definition has_redactions :: "'g PartialTree \<Rightarrow> bool" where
  "has_redactions pt \<longleftrightarrow> list_ex is_redacted (pt_leaves pt)"

definition reconstruct_root :: "(bytes \<Rightarrow> ContentHash) \<Rightarrow> 'g git_lib \<Rightarrow> 'g PartialTree \<Rightarrow> ContentHash" where
  "reconstruct_root blake3 G pt = merkle_root_from_leaves blake3 (map (leaf_hash blake3 G) (pt_leaves pt))"

definition partial_verify :: "(bytes \<Rightarrow> ContentHash) \<Rightarrow> 'g git_lib \<Rightarrow> 'g PartialTree \<Rightarrow> unit tree_outcome" where
  "partial_verify blake3 G pt =
     (if reconstruct_root blake3 G pt \<noteq> pt_declared_root pt then Inl (InvalidStructure ''partial tree reconstructs '') else Inr ())"

definition from_leaves_verified ::
  "(bytes \<Rightarrow> ContentHash) \<Rightarrow> 'g git_lib \<Rightarrow> ContentHash \<Rightarrow> 'g PartialTreeLeaf list \<Rightarrow> 'g PartialTree tree_outcome" where
  "from_leaves_verified blake3 G root leaves =
     (let pt = \<lparr>pt_declared_root = root, pt_leaves = leaves\<rparr> in and_then (partial_verify blake3 G pt) (\<lambda>_. Inr pt))"

fun visible_leaves :: "'g PartialTreeLeaf list \<Rightarrow> ('g TreeEntry \<times> bytes) list" where
  "visible_leaves [] = []"
| "visible_leaves (Visible e salt # ls) = (e, salt) # visible_leaves ls"
| "visible_leaves (Redacted _ # ls) = visible_leaves ls"

definition visible_tree :: "'g PartialTree \<Rightarrow> 'g Tree tree_outcome" where
  "visible_tree pt =
     (let vs = visible_leaves (pt_leaves pt) in from_entries_salted_v4 (map fst vs) (map snd vs))"

definition into_tree :: "(bytes \<Rightarrow> ContentHash) \<Rightarrow> 'g git_lib \<Rightarrow> 'g PartialTree \<Rightarrow> 'g Tree tree_outcome" where
  "into_tree blake3 G pt =
     and_then (partial_verify blake3 G pt) (\<lambda>_.
       if has_redactions pt then Inl (InvalidStructure ''cannot materialize a redacted leaf into a full tree'')
       else visible_tree pt)"

end
