(* ===== verification/Tree_Correct.thy ===== *)
theory Tree_Correct
  imports Tree_Object "HOL-Library.Multiset"
begin

text \<open>
  Trees keep what they were built from: raw modes read back, a Git tree is listed in its own order again, a redacted
  tree still has the hash of the full one, and the edits of a valid tree are edits of a map.
\<close>

section \<open>Sorting\<close>

lemma sort_key_eqI:
  assumes "sorted (map f ys)" "distinct (map f ys)" "set xs = set ys" "distinct xs"
  shows "sort_key f xs = ys"
proof -
  have inj: "inj_on f (set ys)" using assms(2) by (simp add: distinct_map)
  have "map f (sort_key f xs) = map f ys"
    using assms inj by (intro sorted_distinct_set_unique) (auto simp: distinct_map)
  then show ?thesis using assms(3) inj by (simp add: inj_on_map_eq_map)
qed

lemma insert_by_insort:
  "(\<And>y. y \<in> set ys \<Longrightarrow> lt y x \<longleftrightarrow> f y < f x) \<Longrightarrow> insert_by lt x ys = insort_key f x ys"
  by (induction ys) (auto simp: not_le)

lemma sort_by_key:
  assumes "\<And>x y. x \<in> set xs \<Longrightarrow> y \<in> set xs \<Longrightarrow> lt x y \<longleftrightarrow> f x < f y"
  shows "sort_by lt xs = sort_key f xs"
  using assms
proof (induction xs)
  case (Cons x xs)
  then have "sort_by lt xs = sort_key f xs" by simp
  then show ?case using insert_by_insort [of "sort_key f xs" lt x f] Cons.prems by (simp add: sort_by_def)
qed (simp add: sort_by_def)

lemma map_sort_key: "map g (sort_key (h \<circ> g) xs) = sort_key h (map g xs)"
proof (induction xs)
  case (Cons x xs)
  have "map g (insort_key (h \<circ> g) x ys) = insort_key h (g x) (map g ys)" for ys by (induction ys) auto
  then show ?case using Cons by (simp add: comp_def)
qed simp

section \<open>Raw modes\<close>

lemma octal_value_nat:
  "list_all (\<lambda>d. 48 \<le> d \<and> d \<le> 55) ds \<Longrightarrow> octal_value v ds =
     (let n = fold (\<lambda>d n. n * 8 + (unat d - 48)) ds (unat v) in if n < 2 ^ 32 then Some (word_of_nat n) else None)"
proof (induction ds arbitrary: v)
  case Nil
  have "unat v < 2 ^ LENGTH(32)" by (rule unsigned_less)
  then show ?case by simp
next
  case (Cons d ds)
  have d: "unat (d - 48) = unat d - 48" "unat d - 48 < 8"
    using Cons.prems by (auto simp: unat_sub word_le_nat_alt)
  have mono: "n \<le> fold (\<lambda>d n. n * 8 + (unat d - 48)) ds n" for n
  proof (induction ds arbitrary: n)
    case (Cons d ds)
    have "n \<le> n * 8 + (unat d - 48)" by simp
    also have "\<dots> \<le> fold (\<lambda>d n. n * 8 + (unat d - 48)) ds (n * 8 + (unat d - 48))" by (rule Cons)
    finally show ?case by simp
  qed simp
  let ?n = "unat v * 8 + (unat d - 48)"
  show ?case
  proof (cases "?n < 2 ^ 32")
    case True
    then have "unat (v * 8) = unat v * 8" by (simp add: unat_word_ariths)
    moreover from this have "unat (v * 8 + ucast (d - 48)) = ?n"
      using True d by (simp add: unat_word_ariths unsigned_ucast_eq take_bit_nat_eq_self)
    ultimately show ?thesis using Cons True d by simp
  next
    case False
    then have "\<not> (unat v * 8 < 2 ^ 32 \<and> unat (v * 8) + unat (d - 48) < 2 ^ 32)"
      using d by (auto simp: unat_word_ariths)
    moreover have "\<not> fold (\<lambda>d n. n * 8 + (unat d - 48)) ds ?n < 2 ^ 32" using mono [of ?n] False by linarith
    ultimately show ?thesis by (auto simp: Let_def)
  qed
qed

lemma octal_digits_props:
  "list_all (\<lambda>d. 48 \<le> d \<and> d \<le> 55) (octal_digits n) \<and> fold (\<lambda>d n. n * 8 + (unat d - 48)) (octal_digits n) 0 = n
    \<and> octal_digits n \<noteq> [] \<and> (0 < n \<longrightarrow> hd (octal_digits n) \<noteq> 48)"
proof (induction n rule: octal_digits.induct)
  case (1 n)
  have digit: "unat (48 + word_of_nat k :: u8) = 48 + k" if "k < 8" for k
  proof -
    have "unat (word_of_nat m :: u8) = m" if "m < 256" for m
      using that by (simp add: unsigned_of_nat take_bit_nat_eq_self)
    from this [of "48 + k"] show ?thesis using that by simp
  qed
  show ?case
  proof (cases "n < 8")
    case True
    have "0 < n \<longrightarrow> (48 + word_of_nat n :: u8) \<noteq> 48"
    proof
      assume "0 < n"
      then have "unat (48 + word_of_nat n :: u8) \<noteq> unat (48 :: u8)" using digit [OF True] by simp
      then show "(48 + word_of_nat n :: u8) \<noteq> 48" by metis
    qed
    then show ?thesis using digit [OF True] True by (simp add: octal_digits.simps [of n] word_le_nat_alt)
  next
    case False
    then show ?thesis using 1 digit [of "n mod 8"] by (simp add: octal_digits.simps [of n] word_le_nat_alt)
  qed
qed

lemma octal_fold_digits:
  "list_all (\<lambda>d. 48 \<le> d \<and> d \<le> 55) ds \<Longrightarrow> ds \<noteq> [] \<Longrightarrow> hd ds \<noteq> 48
    \<Longrightarrow> octal_digits (fold (\<lambda>d n. n * 8 + (unat d - 48)) ds 0) = ds
      \<and> 0 < fold (\<lambda>d n. n * 8 + (unat d - 48)) ds 0"
proof (induction ds rule: rev_induct)
  case (snoc d ds)
  let ?v = "fold (\<lambda>d n. n * 8 + (unat d - 48))"
  have d: "48 \<le> unat d" "unat d \<le> 55" using snoc.prems(1) by (auto simp: word_le_nat_alt)
  have digit: "48 + word_of_nat (unat d - 48) = d"
  proof -
    have "word_of_nat (48 + (unat d - 48)) = d" using d(1) by simp
    then show ?thesis by simp
  qed
  show ?case
  proof (cases "ds = []")
    case True
    have "unat d \<noteq> 48"
    proof
      assume "unat d = 48"
      then have "unat d = unat (48 :: u8)" by simp
      then have "d = 48" by (rule unsigned_word_eqI)
      then show False using snoc.prems(3) True by simp
    qed
    moreover have "unat d - 48 < 8" using d by linarith
    ultimately show ?thesis using True d digit by (simp add: octal_digits.simps [of "unat d - 48"])
  next
    case False
    then have IH: "octal_digits (?v ds 0) = ds" "0 < ?v ds 0" using snoc by simp_all
    obtain r where r: "unat d - 48 = r" "r < 8" using d by simp
    then show ?thesis using IH digit by (simp add: octal_digits.simps [of "?v ds 0 * 8 + r"] r(1))
  qed
qed simp

text \<open>The mode of a Git tree entry is kept digit by digit: what parses is written back as it was, leading zeros
  included, and every mode is parsed from its digits.\<close>

theorem raw_mode_roundtrip:
  "(raw_mode_parse digits = Inr m \<longrightarrow> write_digits m = digits)
    \<and> (gm_value m \<noteq> 0 \<longrightarrow> raw_mode_parse (write_digits m) = Inr m)"
proof (intro conjI impI)
  let ?v = "fold (\<lambda>d n. n * 8 + (unat d - 48))"
  assume a: "raw_mode_parse digits = Inr m"
  let ?n = "length (takeWhile (\<lambda>d. d = 48) digits)" and ?s = "dropWhile (\<lambda>d. d = 48) digits"
  have s: "drop ?n digits = ?s" by (simp add: dropWhile_eq_drop)
  from a have p: "?s \<noteq> []" "list_all (\<lambda>d. 48 \<le> d \<and> d \<le> 55) digits" "?n \<le> 255"
      "octal_value 0 ?s = Some (gm_value m)" "gm_leading_zeros m = word_of_nat ?n"
    unfolding raw_mode_parse_def Let_def s by (auto split: if_splits option.splits)
  have ds: "list_all (\<lambda>d. 48 \<le> d \<and> d \<le> 55) ?s" using p(2) by (auto simp: list_all_iff dest: set_dropWhileD)
  have "hd ?s \<noteq> 48" using p(1) hd_dropWhile [of "\<lambda>d. d = 48" digits] by simp
  note digits = octal_fold_digits [OF ds p(1) this]
  have v: "?v ?s 0 < 2 ^ 32" "gm_value m = word_of_nat (?v ?s 0)"
    using p(4) unfolding octal_value_nat [OF ds] by (auto simp: Let_def split: if_splits)
  have "unat (gm_value m) = ?v ?s 0" using v by (simp add: unsigned_of_nat take_bit_nat_eq_self)
  moreover have "unat (gm_leading_zeros m) = ?n" using p(3,5) by (simp add: unsigned_of_nat take_bit_nat_eq_self)
  moreover have "replicate ?n 48 = takeWhile (\<lambda>d. d = 48) digits"
    by (rule nth_equalityI) (auto dest: set_takeWhileD [OF nth_mem])
  ultimately show "write_digits m = digits" using digits by (simp add: write_digits_def)
next
  assume v: "gm_value m \<noteq> 0"
  let ?d = "octal_digits (unat (gm_value m))" and ?z = "replicate (unat (gm_leading_zeros m)) (48 :: u8)"
  note d = octal_digits_props [of "unat (gm_value m)"]
  have "hd ?d \<noteq> 48" using d v by (simp add: unat_gt_0)
  then have "takeWhile (\<lambda>d. d = 48) (?z @ ?d) = ?z" using d by (cases ?d) (auto simp: takeWhile_append)
  moreover have "unat (gm_leading_zeros m) < 2 ^ LENGTH(8)" by (rule unsigned_less)
  moreover have "unat (gm_value m) < 2 ^ LENGTH(32)" by (rule unsigned_less)
  ultimately show "raw_mode_parse (write_digits m) = Inr m"
    using d v octal_value_nat [of ?d 0] by (auto simp: raw_mode_parse_def write_digits_def Let_def list_all_iff)
qed

section \<open>Preimages\<close>

lemma layout_trailer_length:
  "length (write_layout_trailer e position) = layout_trailer_len (layout_flags e position)"
  by (auto simp: write_layout_trailer_def layout_trailer_len_def layout_flags_def ENTRY_FLAG_RAW_GIT_MODE_def
      ENTRY_FLAG_SOURCE_POSITION_def RAW_GIT_MODE_TRAILER_LEN_def SOURCE_POSITION_TRAILER_LEN_def split: option.splits)

text \<open>C32: The length that is hashed in front of a flat tree counts every byte of an entry except the format tag of a
  Gitlink: for each Gitlink it is one less than the bytes that follow.\<close>

theorem encoded_len_misses_format_tag:
  "length (entry_preimage G e position) =
     entry_encoded_len G e position + (if target_entry_type (te_target e) = TypeGitlink then 1 else 0)"
  by (cases "te_target e")
    (simp_all add: entry_preimage_def entry_encoded_len_def write_payload_def layout_trailer_length)

section \<open>Redaction\<close>

lemma leaf_hash_projected:
  "leaf_hash blake3 G (let h = v4_leaf_hash blake3 G e salt in if redacted h then Redacted h else Visible e salt)
    = v4_leaf_hash blake3 G e salt"
  by (simp add: Let_def)

lemma visible_leaves_all: "visible_leaves (map (\<lambda>(e, salt). Visible e salt) ps) = ps"
  by (induction ps) auto

lemma strict_names:
  "validate_entries previous es = Inr () \<longleftrightarrow>
     list_all (\<lambda>e. validate_entry e = Inr ()) es \<and> sorted_wrt (<) (map te_name es)
     \<and> (\<forall>p. previous = Some p \<longrightarrow> list_all (\<lambda>e. p < te_name e) es)"
proof (induction previous es rule: validate_entries.induct)
  case (2 previous e es)
  have "and_then r k = Inr () \<longleftrightarrow> r = Inr () \<and> k () = Inr ()" for r :: "unit tree_outcome" and k :: "unit \<Rightarrow> unit tree_outcome"
    by (cases r) auto
  then show ?case
    using 2 by (cases previous) (auto simp: not_le list_all_iff intro: order.strict_trans)
qed simp

lemma and_then_ok: "and_then r k = Inr x \<longleftrightarrow> (\<exists>y. r = Inr y \<and> k y = Inr x)"
  by (cases r) auto

lemma valid_parts:
  assumes "validate_tree t = Inr ()"
  shows "list_all (\<lambda>e. validate_entry e = Inr ()) (tr_entries t)" "sorted_wrt (<) (map te_name (tr_entries t))"
    "tr_scheme t = V4Salted \<Longrightarrow> length (tr_salts t) = length (tr_entries t)
      \<and> list_all (\<lambda>e. te_git_mode e = None) (tr_entries t) \<and> tr_positions t = []"
    "tr_scheme t = V3Flat \<Longrightarrow> tr_salts t = []" "validate_source_positions t = Inr ()"
  using assms
  by (auto simp: validate_tree_def and_then_ok strict_names list_all_iff list_ex_iff validate_source_positions_def Let_def
      split: TreeScheme.splits if_splits)

lemma rebuild_salted:
  assumes "validate_tree t = Inr ()" "tr_scheme t = V4Salted"
  shows "from_entries_salted_v4 (tr_entries t) (tr_salts t) = Inr t"
proof -
  note valid = valid_parts [OF assms(1)]
  let ?ps = "zip (tr_entries t) (tr_salts t)"
  have len: "length (tr_salts t) = length (tr_entries t)" and modes: "map drop_raw_git_mode (tr_entries t) = tr_entries t"
    using valid(3) [OF assms(2)] by (auto simp: list_all_iff drop_raw_git_mode_def intro!: map_idI)
  have names: "map (\<lambda>(e, s). te_name e) ?ps = map te_name (tr_entries t)"
    using len by (intro nth_equalityI) auto
  have "sorted (map te_name (tr_entries t))" "distinct (map te_name (tr_entries t))"
    using valid(2) by (auto simp: strict_sorted_iff)
  then have "sort_key (\<lambda>(e, s). te_name e) ?ps = ?ps"
    using names by (intro sort_key_eqI) (auto simp: distinct_map intro: distinct_zipI1)
  moreover have "\<lparr>tr_entries = tr_entries t, tr_scheme = V4Salted, tr_salts = tr_salts t, tr_positions = []\<rparr> = t"
    using assms(2) valid(3) [OF assms(2)] by (cases t) simp
  ultimately show ?thesis
    using len modes assms
    by (simp add: from_entries_salted_v4_def try_from_decoded_entries_salted_v4_def Let_def)
qed

text \<open>C31: Whatever entries are redacted, the projection of a salted tree is verified against the hash of the full
  tree, and the projection that redacts nothing turns back into the tree.\<close>

theorem projection_keeps_root:
  assumes "partial_project blake3 G t redacted = Inr pt"
  shows "pt_declared_root pt = tree_hash blake3 G t \<and> partial_verify blake3 G pt = Inr ()
    \<and> (\<not> has_redactions pt \<longrightarrow> into_tree blake3 G pt = Inr t)"
proof -
  let ?ps = "zip (tr_entries t) (tr_salts t)"
  have v: "tr_scheme t = V4Salted" "validate_tree t = Inr ()"
    and pt: "pt_declared_root pt = tree_hash blake3 G t"
      "pt_leaves pt = map (\<lambda>(e, salt). let h = v4_leaf_hash blake3 G e salt in if redacted h then Redacted h else Visible e salt) ?ps"
    using assms by (auto simp: partial_project_def and_then_ok split: if_splits)
  have "map (leaf_hash blake3 G) (pt_leaves pt) = map (\<lambda>(e, salt). v4_leaf_hash blake3 G e salt) ?ps"
    unfolding pt(2) by (auto simp: Let_def)
  then have verify: "partial_verify blake3 G pt = Inr ()"
    using v(1) by (simp add: partial_verify_def reconstruct_root_def pt(1) tree_hash_def merkle_root_v4_def)
  have "into_tree blake3 G pt = Inr t" if "\<not> has_redactions pt"
  proof -
    have "pt_leaves pt = map (\<lambda>(e, salt). Visible e salt) ?ps"
      using that unfolding has_redactions_def pt(2) by (auto simp: list_ex_iff Let_def split: if_splits)
    then have "visible_leaves (pt_leaves pt) = ?ps" by (simp add: visible_leaves_all)
    moreover have "length (tr_salts t) = length (tr_entries t)" using valid_parts(3) [OF v(2,1)] by simp
    ultimately show ?thesis using that rebuild_salted [OF v(2,1)] by (simp add: into_tree_def verify visible_tree_def)
  qed
  then show ?thesis using pt(1) verify by simp
qed

section \<open>The order of Git\<close>

text \<open>The name as Git compares it.\<close>

definition git_key :: "'g TreeEntry \<Rightarrow> string" where
  "git_key e = te_name e @ [if is_tree e then CHR ''/'' else CHR 0x00]"

definition plain_name :: "string \<Rightarrow> bool" where
  "plain_name name \<longleftrightarrow> CHR ''/'' \<notin> set name \<and> CHR 0x00 \<notin> set name"

lemma valid_name_plain: "validate_name name = Inr () \<Longrightarrow> plain_name name"
  by (auto simp: validate_name_def plain_name_def str_bytes_def list_ex_iff split: if_splits)

definition next_char :: "char \<Rightarrow> string \<Rightarrow> nat \<Rightarrow> char" where
  "next_char t xs i = (if i < length xs then xs ! i else t)"

lemma compare_names:
  assumes "s \<notin> set ys" "t \<notin> set xs"
  shows "(let n = min (length xs) (length ys) in take n xs < take n ys \<or> take n xs = take n ys \<and> next_char s xs n < next_char t ys n)
    \<longleftrightarrow> xs @ [s] < ys @ [t]"
  using assms
proof (induction xs ys rule: list_induct2')
  case (3 x xs)
  then show ?case by (simp add: next_char_def)
next
  case (2 y ys)
  then show ?case by (auto simp: next_char_def Cons_less_Cons)
next
  case (4 x xs y ys)
  then have IH: "(let n = min (length xs) (length ys) in take n xs < take n ys \<or> take n xs = take n ys \<and> next_char s xs n < next_char t ys n)
    \<longleftrightarrow> xs @ [s] < ys @ [t]" by simp
  have "next_char s (x # xs) (Suc n) = next_char s xs n" "next_char t (y # ys) (Suc n) = next_char t ys n" for n
    by (simp_all add: next_char_def)
  then show ?case using IH by (auto simp: Let_def Cons_less_Cons)
qed (simp_all add: next_char_def)

lemma git_order_key:
  assumes "plain_name (te_name l)" "plain_name (te_name r)"
  shows "git_order_less l r \<longleftrightarrow> git_key l < git_key r"
proof -
  let ?t = "\<lambda>e :: 'a TreeEntry. if is_tree e then CHR ''/'' else CHR 0x00"
  have nc: "name_next e = next_char (?t e) (te_name e)" for e by (auto simp: name_next_def next_char_def fun_eq_iff)
  have "?t l \<notin> set (te_name r)" "?t r \<notin> set (te_name l)" using assms by (simp_all add: plain_name_def)
  from compare_names [OF this] show ?thesis by (simp add: git_order_less_def git_key_def Let_def nc)
qed

lemma git_key_names: "inj_on te_name (set es) \<Longrightarrow> inj_on git_key (set es)"
  by (auto simp: inj_on_def git_key_def)

text \<open>What \<open>from_git_entries\<close> accepts: the tree has the entries, sorted, with their source positions.\<close>

lemma from_git_entries_parts:
  assumes "from_git_entries es = Inr t"
  defines "paired \<equiv> sort_key (\<lambda>(e, p). te_name e) (zip es [0..<length es])"
  shows "validate_tree t = Inr ()" "t = flat_tree (map fst paired) (if successively git_order_less es then [] else map snd paired)"
    "set (map fst paired) = set es" "distinct (map te_name es)" "\<forall>e \<in> set es. plain_name (te_name e)"
    "distinct (map fst paired)"
proof -
  show valid: "validate_tree t = Inr ()"
    and t: "t = flat_tree (map fst paired) (if successively git_order_less es then [] else map snd paired)"
    using assms(1) unfolding paired_def
    by (auto simp: from_git_entries_def Let_def and_then_ok split: if_splits option.splits)
  have "fst ` set (zip es [0..<length es]) = set (map fst (zip es [0..<length es]))" by (simp only: set_map)
  then show es: "set (map fst paired) = set es" by (simp add: paired_def)
  have "mset (map fst paired) = mset (map fst (zip es [0..<length es]))" unfolding paired_def mset_map by simp
  then have ms: "mset (map fst paired) = mset es" by simp
  have names: "distinct (map te_name (map fst paired))"
    using valid_parts(2) [OF valid] by (simp add: t flat_tree_def strict_sorted_iff)
  then show "distinct (map fst paired)" unfolding distinct_map by blast
  have "mset (map te_name (map fst paired)) = mset (map te_name es)" using ms by (metis mset_map)
  then show "distinct (map te_name es)" using names mset_eq_imp_distinct_iff by blast
  show "\<forall>e \<in> set es. plain_name (te_name e)"
  proof
    fix e assume "e \<in> set es"
    then have "e \<in> set (tr_entries t)" using es by (simp add: t flat_tree_def)
    then have "validate_entry e = Inr ()" using valid_parts(1) [OF valid] by (simp add: list_all_iff)
    then show "plain_name (te_name e)" by (auto simp: validate_entry_def and_then_ok intro: valid_name_plain)
  qed
qed

text \<open>C30: A tree imported from Git is listed in Git order exactly as it was imported, entry for entry with its raw mode,
  whether or not its order was canonical.\<close>

theorem git_order_restored:
  assumes "from_git_entries es = Inr t"
  shows "git_ordered_entries t = es"
proof -
  let ?paired = "sort_key (\<lambda>(e, p). te_name e) (zip es [0..<length es])"
  note parts = from_git_entries_parts [OF assms]
  have es: "distinct es" "inj_on te_name (set es)" using parts(4) by (simp_all add: distinct_map)
  have keys: "git_order_less l r \<longleftrightarrow> git_key l < git_key r" if "l \<in> set es" "r \<in> set es" for l r
    using git_order_key parts(5) that by blast
  show ?thesis
  proof (cases "successively git_order_less es")
    case True
    have "successively (\<lambda>l r. git_key l < git_key r) es"
      using True keys by (intro successively_mono [OF True]) blast
    then have "sorted_wrt (<) (map git_key es)" by (simp add: successively_map [symmetric] successively_iff_sorted_wrt_strong)
    then have "sort_key git_key (map fst ?paired) = es"
      using parts(3,6) by (intro sort_key_eqI) (auto simp: strict_sorted_iff)
    moreover have "sort_by git_order_less (map fst ?paired) = sort_key git_key (map fst ?paired)"
      using parts(3) keys by (intro sort_by_key) blast
    ultimately show ?thesis using True by (simp add: parts(2) git_ordered_entries_def flat_tree_def)
  next
    case False
    then have "es \<noteq> []" by auto
    let ?n = "length es" and ?g = "\<lambda>(i, e). (option_rank (list_at (map snd ?paired) i), e)"
    have entries: "map ?g (enumerate 0 (map fst ?paired)) = map (\<lambda>(e, p). (Suc p, e)) ?paired"
      by (rule nth_equalityI) (auto simp: nth_enumerate_eq list_at_def option_rank_def split: prod.splits)
    have sorted: "sort_key fst (map (\<lambda>(e, p). (Suc p, e)) ?paired) = zip [Suc 0..<Suc ?n] es"
    proof (rule sort_key_eqI)
      show "distinct (map (\<lambda>(e, p). (Suc p, e)) ?paired)"
        by (auto simp: distinct_map inj_on_def intro: distinct_zipI2)
      have "map (\<lambda>(e, p). (Suc p, e)) (zip es [0..<?n]) = zip [Suc 0..<Suc ?n] es"
        by (rule nth_equalityI) (auto simp del: upt_Suc)
      then have "set (zip [Suc 0..<Suc ?n] es) = (\<lambda>(e, p). (Suc p, e)) ` set (zip es [0..<?n])" by (metis set_map)
      then show "set (map (\<lambda>(e, p). (Suc p, e)) ?paired) = set (zip [Suc 0..<Suc ?n] es)" by simp
    qed (simp_all del: upt_Suc)
    have step: "map snd (sort_key (fst \<circ> ?g) xs) = map snd (sort_key fst (map ?g xs))" for xs :: "(nat \<times> 'a TreeEntry) list"
      unfolding map_sort_key [symmetric] map_map by (simp add: comp_def case_prod_unfold)
    have rank: "fst \<circ> ?g = (\<lambda>(i, e). option_rank (list_at (map snd ?paired) i))" by (auto simp: fun_eq_iff)
    have "length (map snd ?paired) = length es" by simp
    then have ne: "map snd ?paired \<noteq> []" using \<open>es \<noteq> []\<close> by (metis length_0_conv)
    have "git_ordered_entries t = map snd (sort_key (fst \<circ> ?g) (enumerate 0 (map fst ?paired)))"
      unfolding rank using False ne by (simp add: parts(2) git_ordered_entries_def flat_tree_def source_position_at_def)
    also have "\<dots> = map snd (zip [Suc 0..<Suc ?n] es)" unfolding step entries sorted ..
    also have "\<dots> = es" by (simp del: upt_Suc)
    finally show ?thesis .
  qed
qed

section \<open>Examples\<close>

theorem raw_mode_roundtrip_witness:
  "\<exists>m. raw_mode_parse [48, 49, 48, 48, 54, 54, 52] = Inr m \<and> write_digits m = [48, 49, 48, 48, 54, 54, 52]"
proof -
  have "raw_mode_parse [48, 49, 48, 48, 54, 54, 52] = Inr \<lparr>gm_value = 33204, gm_leading_zeros = 1\<rparr>"
    by (simp add: raw_mode_parse_def Let_def)
  then show ?thesis using raw_mode_roundtrip [THEN conjunct1] by blast
qed

definition raw_git_lib :: "bytes git_lib" where
  "raw_git_lib = \<lparr>gl_format = (\<lambda>g. if length g = 20 then Sha1 else Sha256), gl_bytes = id,
     gl_raw_len = (\<lambda>f. if f = Sha1 then 20 else 32), gl_from_raw = (\<lambda>f. Inr)\<rparr>"

definition salted_pair :: "bytes Tree" where
  "salted_pair = \<lparr>tr_entries = [new_entry ''a'' (TargetBlob [1] False), new_entry ''b'' (TargetTree [2])],
     tr_scheme = V4Salted, tr_salts = [[3], [4]], tr_positions = []\<rparr>"

theorem projection_keeps_root_witness:
  "\<exists>pt. partial_project rev raw_git_lib salted_pair (\<lambda>h. h = v4_leaf_hash rev raw_git_lib (new_entry ''a'' (TargetBlob [1] False)) [3]) = Inr pt
    \<and> pt_declared_root pt = tree_hash rev raw_git_lib salted_pair \<and> partial_verify rev raw_git_lib pt = Inr ()"
proof -
  let ?R = "\<lambda>h. h = v4_leaf_hash rev raw_git_lib (new_entry ''a'' (TargetBlob [1] False)) [3]"
  have "validate_tree salted_pair = Inr ()" "tr_scheme salted_pair = V4Salted"
    by (simp_all add: salted_pair_def new_entry_def validate_tree_def validate_source_positions_def validate_entry_def validate_name_def
        str_bytes_def)
  then obtain pt where "partial_project rev raw_git_lib salted_pair ?R = Inr pt" by (auto simp: partial_project_def)
  then show ?thesis using projection_keeps_root by blast
qed

text \<open>Two entries out of order, the file with a group-writable mode.\<close>

definition odd_git_tree :: "bytes TreeEntry list" where
  "odd_git_tree = [\<lparr>te_name = ''b'', te_target = TargetBlob [1] False, te_git_mode = Some \<lparr>gm_value = 33204, gm_leading_zeros = 0\<rparr>\<rparr>,
     new_entry ''a'' (TargetTree [2])]"

theorem git_order_restored_witness:
  "\<exists>t. from_git_entries odd_git_tree = Inr t \<and> git_ordered_entries t = odd_git_tree"
proof -
  obtain t where "from_git_entries odd_git_tree = Inr t"
    by (simp add: from_git_entries_def odd_git_tree_def new_entry_def validate_tree_def validate_source_positions_def validate_entry_def
        validate_name_def str_bytes_def flat_tree_def git_ordered_entries_def git_order_less_def name_next_def is_tree_def
        source_position_at_def list_at_def option_rank_def check_raw_git_mode_def raw_mode_entry_type_def raw_mode_is_executable_def
        is_executable_def is_canonical_for_def raw_mode_canonical_def GIT_TYPE_MASK_def Let_def upt_Suc)
  then show ?thesis using git_order_restored by blast
qed

end
