(* ===== verification/Tree_Edits.thy ===== *)
theory Tree_Edits
  imports Tree_Correct
begin

text \<open>
  Looking up, inserting and removing entries: on valid trees they are the lookup, update and removal of a map from names to
  entries, and the trees stay valid.
\<close>

section \<open>Lookup\<close>

definition tree_map :: "'g Tree \<Rightarrow> string \<rightharpoonup> 'g TreeEntry" where
  "tree_map t = map_of (map (\<lambda>e. (te_name e, e)) (tr_entries t))"

lemma entry_map_Some:
  "distinct (map te_name es) \<Longrightarrow> map_of (map (\<lambda>e. (te_name e, e)) es) n = Some e \<longleftrightarrow> e \<in> set es \<and> te_name e = n"
  by (induction es) (auto simp: image_iff)

lemma entry_map_None: "map_of (map (\<lambda>e. (te_name e, e)) es) n = None \<longleftrightarrow> n \<notin> te_name ` set es"
  by (induction es) auto

lemma tree_get_map:
  assumes "sorted_wrt (<) (map te_name (tr_entries t))"
  shows "tree_get t n = tree_map t n"
proof -
  let ?ns = "map te_name (tr_entries t)"
  have d: "distinct ?ns" "sorted ?ns" using assms by (simp_all add: strict_sorted_iff)
  show ?thesis
  proof (cases "tr_entries t = []")
    case True
    then show ?thesis by (simp add: tree_get_def name_index_def tree_map_def)
  next
    case False
    let ?i = "bsearch_loop ?ns n 0 (length (tr_entries t))"
    have i: "?i < length (tr_entries t)" using bsearch_loop_range [of 0 "length (tr_entries t)" ?ns n] False by simp
    show ?thesis
    proof (cases "te_name (tr_entries t ! ?i) = n")
      case True
      then have "tree_map t n = Some (tr_entries t ! ?i)"
        using entry_map_Some [OF d(1)] nth_mem [OF i] by (simp add: tree_map_def)
      then show ?thesis using True False by (simp add: tree_get_def name_index_def Let_def)
    next
      case no: False
      have "n \<notin> set ?ns"
      proof
        assume "n \<in> set ?ns"
        then have "?ns ! ?i = n" using d False by (intro bsearch_loop_finds) auto
        then show False using no i by simp
      qed
      then have "tree_map t n = None" by (simp add: tree_map_def entry_map_None)
      then show ?thesis using no False by (simp add: tree_get_def name_index_def Let_def)
    qed
  qed
qed

section \<open>Positions\<close>

lemma insert_at_position:
  "insert_at (position_or_end P xs) x xs = takeWhile (\<lambda>y. \<not> P y) xs @ x # dropWhile (\<lambda>y. \<not> P y) xs"
  by (simp add: insert_at_def position_or_end_def takeWhile_eq_take [symmetric] dropWhile_eq_drop [symmetric])

lemma insert_at_set [simp]: "set (insert_at i x xs) = insert x (set xs)"
proof -
  have "set xs = set (take i xs) \<union> set (drop i xs)" by (metis append_take_drop_id set_append)
  then show ?thesis by (auto simp: insert_at_def)
qed

lemma length_insert_at [simp]: "length (insert_at i x xs) = Suc (length xs)"
  by (simp add: insert_at_def)

lemma insert_sorted:
  fixes f :: "'a \<Rightarrow> 'b :: linorder"
  assumes "sorted_wrt (<) (map f xs)" "f x \<notin> f ` set xs"
  shows "sorted_wrt (<) (map f (insert_at (position_or_end (\<lambda>y. f x < f y) xs) x xs))"
  unfolding insert_at_position using assms
proof (induction xs)
  case (Cons y ys)
  show ?case
  proof (cases "f x < f y")
    case True
    then show ?thesis using Cons.prems by (auto intro: order.strict_trans [of _ "f y"])
  next
    case False
    then have "f y < f x" using Cons.prems(2) by auto
    moreover have "z \<in> set ys" if "z \<in> set (takeWhile (\<lambda>z. \<not> f x < f z) ys) \<or> z \<in> set (dropWhile (\<lambda>z. \<not> f x < f z) ys)" for z
      using that by (auto dest: set_takeWhileD set_dropWhileD)
    ultimately show ?thesis using Cons False by auto
  qed
qed simp

lemma remove_at_position:
  "distinct (map f xs) \<Longrightarrow> remove_at (position_or_end (\<lambda>y. f y = k) xs) xs = filter (\<lambda>y. f y \<noteq> k) xs"
proof (induction xs)
  case (Cons y ys)
  show ?case
  proof (cases "f y = k")
    case True
    then have "filter (\<lambda>y. f y \<noteq> k) ys = ys" using Cons.prems by (auto simp: filter_id_conv image_iff)
    then show ?thesis using True by (simp add: remove_at_def position_or_end_def)
  next
    case False
    then show ?thesis using Cons by (simp add: remove_at_def position_or_end_def)
  qed
qed (simp add: remove_at_def)

lemma position_absent: "length xs \<le> position_or_end (\<lambda>y. f y = k) xs \<longleftrightarrow> k \<notin> f ` set xs"
proof -
  have "length xs \<le> length (takeWhile P xs) \<longleftrightarrow> list_all P xs" for P :: "'a \<Rightarrow> bool"
    by (induction xs) auto
  then show ?thesis by (auto simp: position_or_end_def list_all_iff image_iff)
qed

lemma position_found: "k \<in> f ` set xs \<Longrightarrow> f (xs ! position_or_end (\<lambda>y. f y = k) xs) = k"
  unfolding position_or_end_def
  using nth_length_takeWhile [of "\<lambda>y. f y \<noteq> k" xs] position_absent [of xs f k]
  by (auto simp: position_or_end_def not_le)

section \<open>Validity\<close>

lemma valid_treeI:
  assumes "list_all (\<lambda>e. validate_name (te_name e) = Inr () \<and> te_git_mode e = None) (tr_entries t)"
    and "sorted_wrt (<) (map te_name (tr_entries t))" "tr_positions t = []"
    and "if tr_scheme t = V3Flat then tr_salts t = [] else length (tr_salts t) = length (tr_entries t)"
  shows "validate_tree t = Inr ()"
proof -
  have "validate_entries None (tr_entries t) = Inr ()"
    using assms(1,2) by (auto simp: strict_names list_all_iff validate_entry_def)
  then show ?thesis
    using assms(1,3,4) by (cases "tr_scheme t") (auto simp: validate_tree_def validate_source_positions_def list_all_iff list_ex_iff)
qed

lemma drop_raw_simps [simp]: "te_name (drop_raw_git_mode e) = te_name e" "te_git_mode (drop_raw_git_mode e) = None"
  by (simp_all add: drop_raw_git_mode_def)

lemma names_dropped [simp]: "te_name \<circ> drop_raw_git_mode = te_name"
  by (simp add: fun_eq_iff)

lemma dropped_map: "tree_map (drop_git_layout t) n = map_option drop_raw_git_mode (tree_map t n)"
proof -
  have "map_of (map (\<lambda>e. (te_name e, e)) (map drop_raw_git_mode es)) n
    = map_option drop_raw_git_mode (map_of (map (\<lambda>e. (te_name e, e)) es) n)" for es :: "'a TreeEntry list"
    by (induction es) auto
  then show ?thesis by (simp add: tree_map_def drop_git_layout_def)
qed

lemma valid_entry_name: "validate_entry e = Inr () \<Longrightarrow> validate_name (te_name e) = Inr ()"
  by (auto simp: validate_entry_def and_then_ok)

section \<open>Edits\<close>

lemma inserted_entries:
  fixes e :: "'g TreeEntry"
  assumes "distinct (map te_name (tr_entries t))"
  defines "others \<equiv> filter (\<lambda>e'. te_name e' \<noteq> te_name e) (map drop_raw_git_mode (tr_entries t))"
  shows "tr_entries (tree_insert t e salt)
      = insert_at (position_or_end (\<lambda>e'. te_name (drop_raw_git_mode e) < te_name e') others) (drop_raw_git_mode e) others"
    "tr_positions (tree_insert t e salt) = []" "tr_scheme (tree_insert t e salt) = tr_scheme t"
    "tr_scheme t = V3Flat \<Longrightarrow> tr_salts (tree_insert t e salt) = tr_salts t"
    "tr_scheme t = V4Salted \<Longrightarrow> length (tr_salts t) = length (tr_entries t)
      \<Longrightarrow> length (tr_salts (tree_insert t e salt)) = length (tr_entries (tree_insert t e salt))"
proof -
  let ?es = "map drop_raw_git_mode (tr_entries t)"
  let ?at = "position_or_end (\<lambda>e'. te_name e' = te_name e) ?es"
  have d: "distinct (map te_name ?es)" using assms(1) by simp
  have removed: "(if ?at < length ?es then remove_at ?at ?es else ?es) = others"
  proof (cases "?at < length ?es")
    case False
    then have "te_name e \<notin> te_name ` set ?es" using position_absent [of ?es te_name "te_name e"] by simp
    then have "others = ?es" unfolding others_def by (auto simp: filter_id_conv image_iff)
    then show ?thesis using False by simp
  qed (simp add: others_def remove_at_position [OF d])
  show "tr_entries (tree_insert t e salt)
      = insert_at (position_or_end (\<lambda>e'. te_name (drop_raw_git_mode e) < te_name e') others) (drop_raw_git_mode e) others"
  proof (cases "?at < length ?es")
    case True
    then have "remove_at ?at ?es = others" using removed by simp
    then show ?thesis using True unfolding others_def
      by (cases "tr_scheme t") (simp_all add: tree_insert_def insert_salted_def drop_git_layout_def Let_def)
  next
    case False
    then have "filter (\<lambda>e'. te_name e' \<noteq> te_name e) ?es = ?es" using removed unfolding others_def by simp
    then show ?thesis using False unfolding others_def
      by (cases "tr_scheme t") (simp_all add: tree_insert_def insert_salted_def drop_git_layout_def Let_def)
  qed
  show "tr_positions (tree_insert t e salt) = []" "tr_scheme (tree_insert t e salt) = tr_scheme t"
    "tr_scheme t = V3Flat \<Longrightarrow> tr_salts (tree_insert t e salt) = tr_salts t"
    by (cases "tr_scheme t"; simp add: tree_insert_def insert_salted_def drop_git_layout_def Let_def)+
  show "length (tr_salts (tree_insert t e salt)) = length (tr_entries (tree_insert t e salt))"
    if "tr_scheme t = V4Salted" "length (tr_salts t) = length (tr_entries t)"
    using that by (simp add: tree_insert_def insert_salted_def drop_git_layout_def remove_at_def Let_def)
qed

lemma insert_valid:
  assumes "validate_tree t = Inr ()" "validate_name (te_name e) = Inr ()"
  shows "validate_tree (tree_insert t e salt) = Inr ()"
    "tree_map (tree_insert t e salt) = (map_option drop_raw_git_mode \<circ> tree_map t)(te_name e \<mapsto> drop_raw_git_mode e)"
proof -
  note valid = valid_parts [OF assms(1)]
  have d: "distinct (map te_name (tr_entries t))" using valid(2) by (simp add: strict_sorted_iff)
  let ?others = "filter (\<lambda>e'. te_name e' \<noteq> te_name e) (map drop_raw_git_mode (tr_entries t))"
  note parts = inserted_entries [OF d, of e salt]
  have "sorted_wrt (<) (map te_name ?others)"
    using valid(2) by (simp add: sorted_wrt_map sorted_wrt_filter)
  then have sorted: "sorted_wrt (<) (map te_name (tr_entries (tree_insert t e salt)))"
    unfolding parts(1) by (intro insert_sorted) auto
  have set: "set (tr_entries (tree_insert t e salt)) = insert (drop_raw_git_mode e) (set ?others)" unfolding parts(1) by simp
  show "validate_tree (tree_insert t e salt) = Inr ()"
  proof (rule valid_treeI)
    show "list_all (\<lambda>e. validate_name (te_name e) = Inr () \<and> te_git_mode e = None) (tr_entries (tree_insert t e salt))"
      unfolding list_all_iff set using assms(2) valid(1) by (auto simp: list_all_iff valid_entry_name)
    show "if tr_scheme (tree_insert t e salt) = V3Flat then tr_salts (tree_insert t e salt) = []
      else length (tr_salts (tree_insert t e salt)) = length (tr_entries (tree_insert t e salt))"
      using parts(3,4,5) valid(3,4) by (cases "tr_scheme t") simp_all
  qed (use sorted parts(2) in simp_all)
  show "tree_map (tree_insert t e salt) = (map_option drop_raw_git_mode \<circ> tree_map t)(te_name e \<mapsto> drop_raw_git_mode e)"
  proof (rule ext)
    fix n
    have "distinct (map te_name (tr_entries (tree_insert t e salt)))" using sorted by (simp add: strict_sorted_iff)
    note new = entry_map_Some [OF this, of n]
    have old: "tree_map (drop_git_layout t) n = Some x \<longleftrightarrow> x \<in> drop_raw_git_mode ` set (tr_entries t) \<and> te_name x = n" for x
      unfolding tree_map_def using entry_map_Some [of "tr_entries (drop_git_layout t)" n x] d by (simp add: drop_git_layout_def)
    have "tree_map (tree_insert t e salt) n = Some x
        \<longleftrightarrow> ((map_option drop_raw_git_mode \<circ> tree_map t)(te_name e \<mapsto> drop_raw_git_mode e)) n = Some x" for x
      unfolding tree_map_def [of "tree_insert t e salt"] new set using old [of x]
      by (auto simp: dropped_map)
    then show "tree_map (tree_insert t e salt) n = ((map_option drop_raw_git_mode \<circ> tree_map t)(te_name e \<mapsto> drop_raw_git_mode e)) n"
      by (metis option.exhaust)
  qed
qed

lemma remove_valid:
  assumes "validate_tree t = Inr ()"
  shows "validate_tree (fst (tree_remove t name)) = Inr ()"
    "snd (tree_remove t name) = map_option drop_raw_git_mode (tree_map t name)"
    "tree_map (fst (tree_remove t name)) = (if tree_map t name = None then tree_map t
      else (map_option drop_raw_git_mode \<circ> tree_map t)(name := None))"
proof -
  note valid = valid_parts [OF assms(1)]
  let ?es = "map drop_raw_git_mode (tr_entries t)" and ?at = "position_or_end (\<lambda>e. te_name e = name) (tr_entries t)"
  have d: "distinct (map te_name (tr_entries t))" "distinct (map te_name ?es)" using valid(2) by (simp_all add: strict_sorted_iff)
  have same_at: "position_or_end (\<lambda>e. te_name e = name) ?es = ?at"
    by (simp add: position_or_end_def takeWhile_map comp_def)
  have absent: "tree_map t name = None \<longleftrightarrow> length (tr_entries t) \<le> ?at"
    using position_absent [of "tr_entries t" te_name name] by (simp add: tree_map_def entry_map_None)
  have "validate_tree (fst (tree_remove t name)) = Inr ()
    \<and> snd (tree_remove t name) = map_option drop_raw_git_mode (tree_map t name)
    \<and> tree_map (fst (tree_remove t name)) = (if tree_map t name = None then tree_map t
      else (map_option drop_raw_git_mode \<circ> tree_map t)(name := None))"
  proof (cases "length (tr_entries t) \<le> ?at")
    case True
    then have "tree_remove t name = (t, None)" by (simp add: tree_remove_def Let_def)
    then show ?thesis using assms absent True by simp
  next
    case False
    let ?t = "fst (tree_remove t name)"
    have parts: "tr_entries ?t = filter (\<lambda>e. te_name e \<noteq> name) ?es" "tr_positions ?t = []" "tr_scheme ?t = tr_scheme t"
      "tr_salts ?t = (if tr_scheme t = V4Salted then remove_at ?at (tr_salts t) else tr_salts t)"
      "snd (tree_remove t name) = Some (drop_raw_git_mode (tr_entries t ! ?at))"
      using False remove_at_position [OF d(2), of name]
      by (simp_all add: tree_remove_def drop_git_layout_def Let_def same_at)
    have sorted: "sorted_wrt (<) (map te_name (tr_entries ?t))"
      using valid(2) unfolding parts(1) by (simp add: sorted_wrt_map sorted_wrt_filter)
    have "length (remove_at ?at (tr_salts t)) = length (remove_at ?at ?es)" if "length (tr_salts t) = length (tr_entries t)"
      using that by (simp add: remove_at_def)
    then have "if tr_scheme ?t = V3Flat then tr_salts ?t = [] else length (tr_salts ?t) = length (tr_entries ?t)"
      using valid(3,4) parts remove_at_position [OF d(2), of name] by (cases "tr_scheme t") (simp_all add: same_at)
    then have "validate_tree ?t = Inr ()"
      using sorted parts(2) valid(1) by (intro valid_treeI) (auto simp: parts(1) list_all_iff valid_entry_name)
    moreover have "tree_map t name = Some (tr_entries t ! ?at)"
      using position_found [of name te_name "tr_entries t"] position_absent [of "tr_entries t" te_name name] False
      unfolding tree_map_def entry_map_Some [OF d(1)] by auto
    moreover have "tree_map ?t = (map_option drop_raw_git_mode \<circ> tree_map t)(name := None)"
    proof (rule ext)
      fix n
      have "distinct (map te_name (tr_entries ?t))" using sorted by (simp add: strict_sorted_iff)
      note new = entry_map_Some [OF this, of n]
      have old: "tree_map (drop_git_layout t) n = Some x \<longleftrightarrow> x \<in> drop_raw_git_mode ` set (tr_entries t) \<and> te_name x = n" for x
        unfolding tree_map_def using entry_map_Some [of "tr_entries (drop_git_layout t)" n x] d by (simp add: drop_git_layout_def)
      have "tree_map ?t n = Some x \<longleftrightarrow> ((map_option drop_raw_git_mode \<circ> tree_map t)(name := None)) n = Some x" for x
        unfolding tree_map_def [of ?t] new using old [of x] by (auto simp: parts(1) dropped_map)
      then show "tree_map ?t n = ((map_option drop_raw_git_mode \<circ> tree_map t)(name := None)) n" by (metis option.exhaust)
    qed
    ultimately show ?thesis using parts(5) by simp
  qed
  then show "validate_tree (fst (tree_remove t name)) = Inr ()"
    "snd (tree_remove t name) = map_option drop_raw_git_mode (tree_map t name)"
    "tree_map (fst (tree_remove t name)) = (if tree_map t name = None then tree_map t
      else (map_option drop_raw_git_mode \<circ> tree_map t)(name := None))"
    by blast+
qed

lemma valid_get: "validate_tree t = Inr () \<Longrightarrow> tree_get t = tree_map t"
  using tree_get_map [OF valid_parts(2)] by (intro ext) blast

text \<open>C18: On a valid tree, flat or salted, insertion and removal keep the tree valid and are the update and removal of a
  map under lookup; both drop the Git layout, and the removal of an absent name changes nothing.\<close>

theorem tree_edits_are_map_updates:
  assumes "validate_tree t = Inr ()" "validate_name (te_name e) = Inr ()"
  shows "validate_tree (tree_insert t e salt) = Inr ()
    \<and> tree_get (tree_insert t e salt) = (map_option drop_raw_git_mode \<circ> tree_get t)(te_name e \<mapsto> drop_raw_git_mode e)
    \<and> validate_tree (fst (tree_remove t name)) = Inr ()
    \<and> snd (tree_remove t name) = map_option drop_raw_git_mode (tree_get t name)
    \<and> tree_get (fst (tree_remove t name)) = (if tree_get t name = None then tree_get t
        else (map_option drop_raw_git_mode \<circ> tree_get t)(name := None))"
  using insert_valid [OF assms] remove_valid [OF assms(1)] by (simp add: valid_get assms(1))

theorem tree_edits_are_map_updates_witness:
  "validate_tree (tree_insert salted_pair (new_entry ''c'' (TargetTree [5])) [6]) = Inr ()
    \<and> tree_get (fst (tree_remove salted_pair ''z'')) = (if tree_get salted_pair ''z'' = None then tree_get salted_pair
        else (map_option drop_raw_git_mode \<circ> tree_get salted_pair)(''z'' := None))"
proof -
  have "validate_tree salted_pair = Inr ()"
    by (simp add: salted_pair_def new_entry_def validate_tree_def validate_source_positions_def validate_entry_def validate_name_def
        str_bytes_def)
  moreover have "validate_name (te_name (new_entry ''c'' (TargetTree [5]) :: bytes TreeEntry)) = Inr ()"
    by (simp add: new_entry_def validate_name_def str_bytes_def)
  ultimately show ?thesis using tree_edits_are_map_updates by blast
qed

end
