(* ===== verification/Tree_Diff.thy ===== *)
theory Tree_Diff
  imports Tree_Object Oplog_Index
begin

text \<open>
  The difference of two trees, \<^verbatim>\<open>src/crates/object-model/src/object/tree_diff.rs\<close> and \<^verbatim>\<open>diff.rs\<close>: a merge walk of the sorted
  entries with a stack of open subtrees. The store is a function from hashes to trees that may fail; the visitor
  threads a state and may stop the walk. A walk over a store whose trees contain themselves does not end.
\<close>

section \<open>Changes\<close>

datatype DiffKind = Added | Modified | Deleted | Unchanged

definition diff_is_change :: "DiffKind \<Rightarrow> bool" where
  "diff_is_change kind \<longleftrightarrow> kind \<noteq> Unchanged"

definition diff_kind_text :: "DiffKind \<Rightarrow> string" where
  "diff_kind_text kind =
     (case kind of Added \<Rightarrow> ''added'' | Modified \<Rightarrow> ''modified'' | Deleted \<Rightarrow> ''deleted'' | Unchanged \<Rightarrow> ''unchanged'')"

record FileChange =
  fc_path :: string
  fc_kind :: DiffKind

definition new_change :: "string \<Rightarrow> DiffKind \<Rightarrow> FileChange" where
  "new_change path kind = \<lparr>fc_path = path, fc_kind = kind\<rparr>"

definition into_tuple :: "FileChange \<Rightarrow> string \<times> DiffKind" where
  "into_tuple c = (fc_path c, fc_kind c)"

fun from_tuple :: "string \<times> DiffKind \<Rightarrow> FileChange" where
  "from_tuple (path, kind) = \<lparr>fc_path = path, fc_kind = kind\<rparr>"

text \<open>A set of changes is the list of its changes, in the order they were pushed.\<close>

type_synonym FileChangeSet = "FileChange list"

definition push_change :: "FileChange \<Rightarrow> FileChangeSet \<Rightarrow> FileChangeSet" where
  "push_change change changes = changes @ [change]"

definition push_kind :: "DiffKind \<Rightarrow> string \<Rightarrow> FileChangeSet \<Rightarrow> FileChangeSet" where
  "push_kind kind path = push_change (new_change path kind)"

definition changes_of_kind :: "DiffKind \<Rightarrow> FileChangeSet \<Rightarrow> FileChangeSet" where
  "changes_of_kind kind = filter (\<lambda>c. fc_kind c = kind)"

definition kind_count :: "DiffKind \<Rightarrow> FileChangeSet \<Rightarrow> nat" where
  "kind_count kind changes = length (changes_of_kind kind changes)"

definition is_clean :: "FileChangeSet \<Rightarrow> bool" where
  "is_clean changes \<longleftrightarrow> changes = []"

definition from_tuples :: "(string \<times> DiffKind) list \<Rightarrow> FileChangeSet" where
  "from_tuples = map from_tuple"

definition child_path :: "string \<Rightarrow> string \<Rightarrow> string" where
  "child_path prefix name = (if prefix = [] then name else prefix @ ''/'' @ name)"

section \<open>The walk\<close>

record 'g DiffFrame =
  df_from :: "'g Tree option"
  df_to :: "'g Tree option"
  df_prefix :: string
  df_from_index :: nat
  df_to_index :: nat

datatype DiffStep = Emit FileChange | Descend "ContentHash option" "ContentHash option" string | Done

definition frame_entries :: "'g Tree option \<Rightarrow> 'g TreeEntry list" where
  "frame_entries t = (case t of None \<Rightarrow> [] | Some t \<Rightarrow> tr_entries t)"

text \<open>An entry that only one side has.\<close>

definition one_sided :: "string \<Rightarrow> 'g TreeEntry \<Rightarrow> (ContentHash \<Rightarrow> string \<Rightarrow> DiffStep) \<Rightarrow> DiffKind \<Rightarrow> DiffStep" where
  "one_sided prefix e descend kind =
     (case target_tree_hash (te_target e) of
        Some h \<Rightarrow> descend h (te_name e)
      | None \<Rightarrow> Emit (new_change (child_path prefix (te_name e)) kind))"

definition from_sided :: "string \<Rightarrow> 'g TreeEntry \<Rightarrow> DiffStep" where
  "from_sided prefix e = one_sided prefix e (\<lambda>h. Descend (Some h) None) Deleted"

definition to_sided :: "string \<Rightarrow> 'g TreeEntry \<Rightarrow> DiffStep" where
  "to_sided prefix e = one_sided prefix e (\<lambda>h. Descend None (Some h)) Added"

function advance_merge :: "'g DiffFrame \<Rightarrow> 'g DiffFrame \<times> DiffStep" where
  "advance_merge frame =
     (let from_entries = frame_entries (df_from frame); to_entries = frame_entries (df_to frame);
          next_from = frame\<lparr>df_from_index := Suc (df_from_index frame)\<rparr>;
          next_to = frame\<lparr>df_to_index := Suc (df_to_index frame)\<rparr>;
          next_both = frame\<lparr>df_from_index := Suc (df_from_index frame), df_to_index := Suc (df_to_index frame)\<rparr>
      in case (list_at from_entries (df_from_index frame), list_at to_entries (df_to_index frame)) of
           (Some f, Some t) \<Rightarrow>
             if te_name f < te_name t then (next_from, from_sided (df_prefix frame) f)
             else if te_name t < te_name f then (next_to, to_sided (df_prefix frame) t)
             else if te_target f = te_target t then advance_merge next_both
             else (next_both,
               case (target_tree_hash (te_target f), target_tree_hash (te_target t)) of
                 (Some fh, Some th) \<Rightarrow> Descend (Some fh) (Some th) (te_name t)
               | _ \<Rightarrow> Emit (new_change (child_path (df_prefix frame) (te_name t)) Modified))
         | (Some f, None) \<Rightarrow> (next_from, from_sided (df_prefix frame) f)
         | (None, Some t) \<Rightarrow> (next_to, to_sided (df_prefix frame) t)
         | (None, None) \<Rightarrow> (frame, Done))"
  by pat_completeness auto
termination
  by (relation "measure (\<lambda>frame. length (frame_entries (df_from frame)) - df_from_index frame)")
    (auto simp: list_at_def split: if_splits)

declare advance_merge.simps [simp del]

section \<open>Visiting\<close>

type_synonym 'g tree_store = "ContentHash \<Rightarrow> 'g Tree option outcome"

definition require_tree :: "(ContentHash \<Rightarrow> HeddleError) \<Rightarrow> 'g tree_store \<Rightarrow> ContentHash \<Rightarrow> 'g Tree outcome" where
  "require_tree missing store h =
     and_then (store h) (\<lambda>t. case t of Some t \<Rightarrow> Inr t | None \<Rightarrow> Inl (missing h))"

definition require_tree_option ::
  "(ContentHash \<Rightarrow> HeddleError) \<Rightarrow> 'g tree_store \<Rightarrow> ContentHash option \<Rightarrow> 'g Tree option outcome" where
  "require_tree_option missing store h =
     (case h of None \<Rightarrow> Inr None | Some h \<Rightarrow> and_then (require_tree missing store h) (\<lambda>t. Inr (Some t)))"

text \<open>The visitor returns its new state and, to stop, a value.\<close>

type_synonym ('v, 'b) visitor = "'v \<Rightarrow> FileChange \<Rightarrow> 'v \<times> 'b option"

partial_function (option) diff_loop ::
  "(ContentHash \<Rightarrow> HeddleError) \<Rightarrow> 'g tree_store \<Rightarrow> ('v, 'b) visitor \<Rightarrow> 'g DiffFrame list \<Rightarrow> 'v \<Rightarrow> ('v \<times> 'b option outcome) option" where
  "diff_loop missing store visitor stack v =
     (case stack of
        [] \<Rightarrow> Some (v, Inr None)
      | frame # rest \<Rightarrow>
          (case advance_merge frame of
             (frame', Emit change) \<Rightarrow>
               (case visitor v change of
                  (v', Some b) \<Rightarrow> Some (v', Inr (Some b))
                | (v', None) \<Rightarrow> diff_loop missing store visitor (frame' # rest) v')
           | (frame', Descend from_hash to_hash name) \<Rightarrow>
               (case require_tree_option missing store from_hash of
                  Inl e \<Rightarrow> Some (v, Inl e)
                | Inr from_subtree \<Rightarrow>
                    (case require_tree_option missing store to_hash of
                       Inl e \<Rightarrow> Some (v, Inl e)
                     | Inr to_subtree \<Rightarrow>
                         diff_loop missing store visitor
                           (\<lparr>df_from = from_subtree, df_to = to_subtree, df_prefix = child_path (df_prefix frame') name,
                             df_from_index = 0, df_to_index = 0\<rparr> # frame' # rest) v))
           | (frame', Done) \<Rightarrow> diff_loop missing store visitor rest v))"

definition diff_trees_visit ::
  "(ContentHash \<Rightarrow> HeddleError) \<Rightarrow> 'g tree_store \<Rightarrow> ContentHash option \<Rightarrow> ContentHash \<Rightarrow> ('v, 'b) visitor \<Rightarrow> 'v
    \<Rightarrow> ('v \<times> 'b option outcome) option" where
  "diff_trees_visit missing store from to visitor v =
     (case require_tree_option missing store from of
        Inl e \<Rightarrow> Some (v, Inl e)
      | Inr from_tree \<Rightarrow>
          if from = Some to then Some (v, Inr None)
          else case require_tree missing store to of
                 Inl e \<Rightarrow> Some (v, Inl e)
               | Inr to_tree \<Rightarrow>
                   diff_loop missing store visitor
                     [\<lparr>df_from = from_tree, df_to = Some to_tree, df_prefix = [], df_from_index = 0, df_to_index = 0\<rparr>] v)"

definition diff_trees ::
  "(ContentHash \<Rightarrow> HeddleError) \<Rightarrow> 'g tree_store \<Rightarrow> ContentHash \<Rightarrow> ContentHash \<Rightarrow> FileChange list outcome option" where
  "diff_trees missing store from to =
     map_option (\<lambda>(changes, r). and_then r (\<lambda>_. Inr changes))
       (diff_trees_visit missing store (Some from) to (\<lambda>changes change. (changes @ [change], None :: unit option)) [])"

end
