(* ===== verification/Tree_Diff_Correct.thy ===== *)
theory Tree_Diff_Correct
  imports Tree_Diff
begin

text \<open>
  The difference of two trees ends on every store without cycles, reports each path by the comparison of the two entries
  there, and misses no path at which the trees differ.
\<close>

section \<open>Stores\<close>

text \<open>A tree of depth at most \<open>k\<close>: it and all trees below are stored, with strictly sorted names.\<close>

fun deep :: "nat \<Rightarrow> 'g tree_store \<Rightarrow> ContentHash \<Rightarrow> bool" where
  "deep 0 S h = False"
| "deep (Suc k) S h = (case S h of
     Inr (Some t) \<Rightarrow> sorted_wrt (<) (map te_name (tr_entries t))
       \<and> list_all (\<lambda>e. case target_tree_hash (te_target e) of Some h' \<Rightarrow> deep k S h' | None \<Rightarrow> True) (tr_entries t)
   | _ \<Rightarrow> False)"

definition all_deep :: "nat \<Rightarrow> 'g tree_store \<Rightarrow> 'g TreeEntry list \<Rightarrow> bool" where
  "all_deep k S es \<longleftrightarrow> sorted_wrt (<) (map te_name es)
     \<and> list_all (\<lambda>e. case target_tree_hash (te_target e) of Some h' \<Rightarrow> deep k S h' | None \<Rightarrow> True) es"

definition sub_entries :: "'g tree_store \<Rightarrow> ContentHash \<Rightarrow> 'g TreeEntry list" where
  "sub_entries S h = (case S h of Inr (Some t) \<Rightarrow> tr_entries t | _ \<Rightarrow> [])"

lemma deep_tree:
  assumes "deep k S h"
  obtains t k' where "k = Suc k'" "S h = Inr (Some t)" "sub_entries S h = tr_entries t" "all_deep k' S (tr_entries t)"
  using assms that by (cases k) (auto simp: all_deep_def sub_entries_def split: sum.splits option.splits)

lemma deep_entries: "deep (Suc k) S h \<Longrightarrow> all_deep k S (sub_entries S h)"
  by (erule deep_tree) simp

declare deep.simps(2) [simp del]

lemma all_deep_Nil [simp]: "all_deep k S []"
  by (simp add: all_deep_def)

lemma all_deep_Cons:
  "all_deep k S (e # es) \<longleftrightarrow> (\<forall>e' \<in> set es. te_name e < te_name e') \<and> all_deep k S es
     \<and> (case target_tree_hash (te_target e) of Some h \<Rightarrow> deep k S h | None \<Rightarrow> True)"
  by (auto simp: all_deep_def)

section \<open>The walk as a recursion\<close>

fun diff_ref :: "'g tree_store \<Rightarrow> nat \<Rightarrow> string \<Rightarrow> 'g TreeEntry list \<Rightarrow> 'g TreeEntry list \<Rightarrow> FileChange list" where
  "diff_ref S k p [] [] = []"
| "diff_ref S k p (f # fs) [] =
     (case (target_tree_hash (te_target f), k) of
        (None, _) \<Rightarrow> [new_change (child_path p (te_name f)) Deleted]
      | (Some h, Suc k') \<Rightarrow> diff_ref S k' (child_path p (te_name f)) (sub_entries S h) []
      | _ \<Rightarrow> []) @ diff_ref S k p fs []"
| "diff_ref S k p [] (t # ts) =
     (case (target_tree_hash (te_target t), k) of
        (None, _) \<Rightarrow> [new_change (child_path p (te_name t)) Added]
      | (Some h, Suc k') \<Rightarrow> diff_ref S k' (child_path p (te_name t)) [] (sub_entries S h)
      | _ \<Rightarrow> []) @ diff_ref S k p [] ts"
| "diff_ref S k p (f # fs) (t # ts) =
     (if te_name f < te_name t
      then (case (target_tree_hash (te_target f), k) of
              (None, _) \<Rightarrow> [new_change (child_path p (te_name f)) Deleted]
            | (Some h, Suc k') \<Rightarrow> diff_ref S k' (child_path p (te_name f)) (sub_entries S h) []
            | _ \<Rightarrow> []) @ diff_ref S k p fs (t # ts)
      else if te_name t < te_name f
      then (case (target_tree_hash (te_target t), k) of
              (None, _) \<Rightarrow> [new_change (child_path p (te_name t)) Added]
            | (Some h, Suc k') \<Rightarrow> diff_ref S k' (child_path p (te_name t)) [] (sub_entries S h)
            | _ \<Rightarrow> []) @ diff_ref S k p (f # fs) ts
      else (if te_target f = te_target t then []
            else case (target_tree_hash (te_target f), target_tree_hash (te_target t), k) of
              (Some h, Some h', Suc k') \<Rightarrow> diff_ref S k' (child_path p (te_name t)) (sub_entries S h) (sub_entries S h')
            | (Some h, Some h', 0) \<Rightarrow> []
            | _ \<Rightarrow> [new_change (child_path p (te_name t)) Modified]) @ diff_ref S k p fs ts)"

definition collect :: "FileChange list \<Rightarrow> FileChange \<Rightarrow> FileChange list \<times> unit option" where
  "collect changes change = (changes @ [change], None)"

definition at_lists :: "'g DiffFrame \<Rightarrow> string \<Rightarrow> 'g TreeEntry list \<Rightarrow> 'g TreeEntry list \<Rightarrow> bool" where
  "at_lists frame p fs ts \<longleftrightarrow> df_prefix frame = p
     \<and> drop (df_from_index frame) (frame_entries (df_from frame)) = fs
     \<and> drop (df_to_index frame) (frame_entries (df_to frame)) = ts"

lemma list_at_drop: "list_at xs i = (case drop i xs of [] \<Rightarrow> None | x # _ \<Rightarrow> Some x)"
  by (auto simp: list_at_def Cons_nth_drop_Suc [symmetric] split: list.split)

lemma drop_Suc_Cons: "drop i xs = y # ys \<Longrightarrow> drop (Suc i) xs = ys"
  by (metis drop_Suc list.sel(3) tl_drop)

lemma at_lists_next:
  "at_lists frame p (f # fs) ts \<Longrightarrow> at_lists (frame\<lparr>df_from_index := Suc (df_from_index frame)\<rparr>) p fs ts"
  "at_lists frame p fs (t # ts) \<Longrightarrow> at_lists (frame\<lparr>df_to_index := Suc (df_to_index frame)\<rparr>) p fs ts"
  "at_lists frame p (f # fs) (t # ts)
    \<Longrightarrow> at_lists (frame\<lparr>df_from_index := Suc (df_from_index frame), df_to_index := Suc (df_to_index frame)\<rparr>) p fs ts"
  by (auto simp: at_lists_def dest: drop_Suc_Cons)

lemma advance_at:
  assumes "at_lists frame p fs ts"
  shows "advance_merge frame = (case (fs, ts) of
      (f # fs', t # ts') \<Rightarrow>
        if te_name f < te_name t then (frame\<lparr>df_from_index := Suc (df_from_index frame)\<rparr>, from_sided p f)
        else if te_name t < te_name f then (frame\<lparr>df_to_index := Suc (df_to_index frame)\<rparr>, to_sided p t)
        else if te_target f = te_target t
        then advance_merge (frame\<lparr>df_from_index := Suc (df_from_index frame), df_to_index := Suc (df_to_index frame)\<rparr>)
        else (frame\<lparr>df_from_index := Suc (df_from_index frame), df_to_index := Suc (df_to_index frame)\<rparr>,
          case (target_tree_hash (te_target f), target_tree_hash (te_target t)) of
            (Some fh, Some th) \<Rightarrow> Descend (Some fh) (Some th) (te_name t)
          | _ \<Rightarrow> Emit (new_change (child_path p (te_name t)) Modified))
    | (f # fs', []) \<Rightarrow> (frame\<lparr>df_from_index := Suc (df_from_index frame)\<rparr>, from_sided p f)
    | ([], t # ts') \<Rightarrow> (frame\<lparr>df_to_index := Suc (df_to_index frame)\<rparr>, to_sided p t)
    | ([], []) \<Rightarrow> (frame, Done))"
  using assms by (subst advance_merge.simps) (auto simp: at_lists_def Let_def list_at_drop split: list.split)

section \<open>The loop carries out the recursion\<close>

lemmas diff_loop_unfold = diff_loop.simps [of M S collect "frame # rest" v for M S frame rest v]

lemma loop_emit:
  "advance_merge frame = (frame', Emit c) \<Longrightarrow> diff_loop M S collect (frame # rest) v = diff_loop M S collect (frame' # rest) (v @ [c])"
  by (subst diff_loop_unfold) (simp add: collect_def)

lemma loop_end: "diff_loop M S visitor [] v = Some (v, Inr None)"
  by (subst diff_loop.simps) simp

lemma loop_done:
  "advance_merge frame = (frame', Done) \<Longrightarrow> diff_loop M S collect (frame # rest) v = diff_loop M S collect rest v"
  by (subst diff_loop_unfold) simp

lemma loop_same:
  "advance_merge frame = advance_merge frame' \<Longrightarrow> diff_loop M S collect (frame # rest) v = diff_loop M S collect (frame' # rest) v"
  by (subst (1 2) diff_loop_unfold) simp

definition opened :: "'g tree_store \<Rightarrow> ContentHash option \<Rightarrow> 'g Tree option" where
  "opened S h = (case h of Some h \<Rightarrow> (case S h of Inr t \<Rightarrow> t | Inl e \<Rightarrow> None) | None \<Rightarrow> None)"

definition open_frame :: "'g tree_store \<Rightarrow> ContentHash option \<Rightarrow> ContentHash option \<Rightarrow> string \<Rightarrow> 'g DiffFrame" where
  "open_frame S source to p = \<lparr>df_from = opened S source, df_to = opened S to, df_prefix = p, df_from_index = 0, df_to_index = 0\<rparr>"

lemma require_deep: "(\<forall>h'. h = Some h' \<longrightarrow> deep k S h') \<Longrightarrow> require_tree_option M S h = Inr (opened S h)"
  by (auto simp: require_tree_option_def require_tree_def opened_def split: option.split elim!: deep_tree)

lemma loop_descend:
  assumes "advance_merge frame = (frame', Descend source to n)" "df_prefix frame' = p"
    and "\<forall>h. source = Some h \<longrightarrow> deep k S h" "\<forall>h. to = Some h \<longrightarrow> deep k S h"
  shows "diff_loop M S collect (frame # rest) v = diff_loop M S collect (open_frame S source to (child_path p n) # frame' # rest) v"
  using assms require_deep [of source k S M] require_deep [of to k S M] by (subst diff_loop_unfold) (simp add: open_frame_def)

lemma at_open:
  "\<forall>h. source = Some h \<longrightarrow> deep k S h \<Longrightarrow> \<forall>h. to = Some h \<longrightarrow> deep k S h
    \<Longrightarrow> at_lists (open_frame S source to p) p (case source of Some h \<Rightarrow> sub_entries S h | None \<Rightarrow> [])
      (case to of Some h \<Rightarrow> sub_entries S h | None \<Rightarrow> [])"
  by (auto simp: at_lists_def open_frame_def frame_entries_def opened_def sub_entries_def split: option.splits sum.splits)

text \<open>What the loop does for the rest of a frame.\<close>

definition walks :: "'g tree_store \<Rightarrow> nat \<Rightarrow> string \<Rightarrow> 'g TreeEntry list \<Rightarrow> 'g TreeEntry list \<Rightarrow> bool" where
  "walks S k p fs ts \<longleftrightarrow> (\<forall>M frame rest v. at_lists frame p fs ts
     \<longrightarrow> diff_loop M S collect (frame # rest) v = diff_loop M S collect rest (v @ diff_ref S k p fs ts))"

lemma walks_emit:
  assumes "walks S k p fs ts" "\<And>frame. at_lists frame p fs0 ts0 \<Longrightarrow> \<exists>frame'. at_lists frame' p fs ts \<and> advance_merge frame = (frame', Emit c)"
    and "diff_ref S k p fs0 ts0 = c # diff_ref S k p fs ts"
  shows "walks S k p fs0 ts0"
  unfolding walks_def
proof (intro allI impI)
  fix M rest v and frame assume "at_lists frame p fs0 ts0"
  then obtain frame' where "at_lists frame' p fs ts" "advance_merge frame = (frame', Emit c)" using assms(2) by blast
  then show "diff_loop M S collect (frame # rest) v = diff_loop M S collect rest (v @ diff_ref S k p fs0 ts0)"
    using assms(1,3) loop_emit [of frame frame' c M S rest v] by (simp add: walks_def)
qed

lemma walks_descend:
  assumes "walks S k p fs ts"
    and "\<And>frame. at_lists frame p fs0 ts0 \<Longrightarrow> \<exists>frame'. at_lists frame' p fs ts \<and> advance_merge frame = (frame', Descend source to n)"
    and "\<forall>h. source = Some h \<longrightarrow> deep k S h" "\<forall>h. to = Some h \<longrightarrow> deep k S h"
    and "walks S k' (child_path p n) (case source of Some h \<Rightarrow> sub_entries S h | None \<Rightarrow> []) (case to of Some h \<Rightarrow> sub_entries S h | None \<Rightarrow> [])"
    and "diff_ref S k p fs0 ts0 = diff_ref S k' (child_path p n) (case source of Some h \<Rightarrow> sub_entries S h | None \<Rightarrow> [])
      (case to of Some h \<Rightarrow> sub_entries S h | None \<Rightarrow> []) @ diff_ref S k p fs ts"
  shows "walks S k p fs0 ts0"
  unfolding walks_def
proof (intro allI impI)
  fix M rest v and frame assume "at_lists frame p fs0 ts0"
  then obtain frame' where f: "at_lists frame' p fs ts" "advance_merge frame = (frame', Descend source to n)" using assms(2) by blast
  then have "df_prefix frame' = p" by (simp add: at_lists_def)
  from loop_descend [OF f(2) this assms(3,4), of M rest v] at_open [OF assms(3,4), of "child_path p n"] f(1)
  show "diff_loop M S collect (frame # rest) v = diff_loop M S collect rest (v @ diff_ref S k p fs0 ts0)"
    using assms(1,5,6) by (simp add: walks_def)
qed

lemma walks_same:
  assumes "walks S k p fs ts" "\<And>frame. at_lists frame p fs0 ts0 \<Longrightarrow> \<exists>frame'. at_lists frame' p fs ts \<and> advance_merge frame = advance_merge frame'"
    and "diff_ref S k p fs0 ts0 = diff_ref S k p fs ts"
  shows "walks S k p fs0 ts0"
  unfolding walks_def
proof (intro allI impI)
  fix M rest v and frame assume "at_lists frame p fs0 ts0"
  then obtain frame' where "at_lists frame' p fs ts" "advance_merge frame = advance_merge frame'" using assms(2) by blast
  then show "diff_loop M S collect (frame # rest) v = diff_loop M S collect rest (v @ diff_ref S k p fs0 ts0)"
    using assms(1,3) loop_same [of frame frame' M S rest v] by (simp add: walks_def)
qed

lemma from_sided_simps:
  "target_tree_hash (te_target e) = None \<Longrightarrow> from_sided p e = Emit (new_change (child_path p (te_name e)) Deleted)"
  "target_tree_hash (te_target e) = Some h \<Longrightarrow> from_sided p e = Descend (Some h) None (te_name e)"
  "target_tree_hash (te_target e) = None \<Longrightarrow> to_sided p e = Emit (new_change (child_path p (te_name e)) Added)"
  "target_tree_hash (te_target e) = Some h \<Longrightarrow> to_sided p e = Descend None (Some h) (te_name e)"
  by (simp_all add: from_sided_def to_sided_def one_sided_def)

lemma walks_from:
  assumes "walks S k p fs ts" "case ts of [] \<Rightarrow> True | t # _ \<Rightarrow> te_name f < te_name t"
    and "\<forall>h. target_tree_hash (te_target f) = Some h \<longrightarrow> deep k S h"
    and "\<And>k' h. k = Suc k' \<Longrightarrow> deep k S h \<Longrightarrow> walks S k' (child_path p (te_name f)) (sub_entries S h) []"
  shows "walks S k p (f # fs) ts"
proof (cases "target_tree_hash (te_target f)")
  case None
  show ?thesis
  proof (rule walks_emit [OF assms(1)])
    fix frame assume "at_lists frame p (f # fs) ts"
    then show "\<exists>frame'. at_lists frame' p fs ts \<and> advance_merge frame = (frame', Emit (new_change (child_path p (te_name f)) Deleted))"
      using assms(2) None at_lists_next(1) by (fastforce simp: advance_at from_sided_simps split: list.splits)
  next
    show "diff_ref S k p (f # fs) ts = new_change (child_path p (te_name f)) Deleted # diff_ref S k p fs ts"
      using None assms(2) by (cases ts) simp_all
  qed
next
  case (Some h)
  then have h: "deep k S h" using assms(3) by simp
  then obtain k' where k: "k = Suc k'" by (cases k) auto
  show ?thesis
  proof (rule walks_descend [OF assms(1), where source = "Some h" and to = None and n = "te_name f" and k' = k'])
    fix frame assume "at_lists frame p (f # fs) ts"
    then show "\<exists>frame'. at_lists frame' p fs ts \<and> advance_merge frame = (frame', Descend (Some h) None (te_name f))"
      using assms(2) Some at_lists_next(1) by (fastforce simp: advance_at from_sided_simps split: list.splits)
  next
    show "diff_ref S k p (f # fs) ts = diff_ref S k' (child_path p (te_name f))
        (case Some h of Some h \<Rightarrow> sub_entries S h | None \<Rightarrow> []) (case None of Some h \<Rightarrow> sub_entries S h | None \<Rightarrow> []) @ diff_ref S k p fs ts"
      using Some k assms(2) by (cases ts) simp_all
  qed (use h assms(4) [OF k h] in simp_all)
qed

lemma walks_to:
  assumes "walks S k p fs ts" "case fs of [] \<Rightarrow> True | f # _ \<Rightarrow> te_name t < te_name f"
    and "\<forall>h. target_tree_hash (te_target t) = Some h \<longrightarrow> deep k S h"
    and "\<And>k' h. k = Suc k' \<Longrightarrow> deep k S h \<Longrightarrow> walks S k' (child_path p (te_name t)) [] (sub_entries S h)"
  shows "walks S k p fs (t # ts)"
proof (cases "target_tree_hash (te_target t)")
  case None
  show ?thesis
  proof (rule walks_emit [OF assms(1)])
    fix frame assume "at_lists frame p fs (t # ts)"
    then show "\<exists>frame'. at_lists frame' p fs ts \<and> advance_merge frame = (frame', Emit (new_change (child_path p (te_name t)) Added))"
      using assms(2) None at_lists_next(2) by (fastforce simp: advance_at from_sided_simps dest: order.asym split: list.splits)
  next
    show "diff_ref S k p fs (t # ts) = new_change (child_path p (te_name t)) Added # diff_ref S k p fs ts"
      using None assms(2) by (cases fs) auto
  qed
next
  case (Some h)
  then have h: "deep k S h" using assms(3) by simp
  then obtain k' where k: "k = Suc k'" by (cases k) auto
  show ?thesis
  proof (rule walks_descend [OF assms(1), where source = None and to = "Some h" and n = "te_name t" and k' = k'])
    fix frame assume "at_lists frame p fs (t # ts)"
    then show "\<exists>frame'. at_lists frame' p fs ts \<and> advance_merge frame = (frame', Descend None (Some h) (te_name t))"
      using assms(2) Some at_lists_next(2) by (fastforce simp: advance_at from_sided_simps dest: order.asym split: list.splits)
  next
    show "diff_ref S k p fs (t # ts) = diff_ref S k' (child_path p (te_name t))
        (case None of Some h \<Rightarrow> sub_entries S h | None \<Rightarrow> []) (case Some h of Some h \<Rightarrow> sub_entries S h | None \<Rightarrow> []) @ diff_ref S k p fs ts"
      using Some k assms(2) by (cases fs) auto
  qed (use h assms(4) [OF k h] in simp_all)
qed

lemma walks_both:
  assumes "te_name f = te_name t" "walks S k p fs ts"
    and "\<forall>h. target_tree_hash (te_target f) = Some h \<longrightarrow> deep k S h" "\<forall>h. target_tree_hash (te_target t) = Some h \<longrightarrow> deep k S h"
    and "\<And>k' source to q. k = Suc k' \<Longrightarrow> \<forall>h. source = Some h \<longrightarrow> deep k S h \<Longrightarrow> \<forall>h. to = Some h \<longrightarrow> deep k S h
      \<Longrightarrow> walks S k' q (case source of Some h \<Rightarrow> sub_entries S h | None \<Rightarrow> []) (case to of Some h \<Rightarrow> sub_entries S h | None \<Rightarrow> [])"
  shows "walks S k p (f # fs) (t # ts)"
proof (cases "te_target f = te_target t")
  case True
  show ?thesis
  proof (rule walks_same [OF assms(2)])
    fix frame assume "at_lists frame p (f # fs) (t # ts)"
    then show "\<exists>frame'. at_lists frame' p fs ts \<and> advance_merge frame = advance_merge frame'"
      using assms(1) True at_lists_next(3) [of frame p f fs t ts] by (auto simp: advance_at [of frame])
  qed (use assms(1) True in simp)
next
  case differ: False
  show ?thesis
  proof (cases "target_tree_hash (te_target f) = None \<or> target_tree_hash (te_target t) = None")
    case True
    then have step: "diff_ref S k p (f # fs) (t # ts) = new_change (child_path p (te_name t)) Modified # diff_ref S k p fs ts"
      using assms(1) differ by (auto split: option.splits nat.splits)
    show ?thesis
    proof (rule walks_emit [OF assms(2) _ step])
      fix frame assume "at_lists frame p (f # fs) (t # ts)"
      then show "\<exists>frame'. at_lists frame' p fs ts \<and> advance_merge frame = (frame', Emit (new_change (child_path p (te_name t)) Modified))"
        using assms(1) differ True at_lists_next(3) [of frame p f fs t ts] by (auto simp: advance_at [of frame] split: option.splits)
    qed
  next
    case False
    then obtain h h' where h: "target_tree_hash (te_target f) = Some h" "target_tree_hash (te_target t) = Some h'" by auto
    then have d: "deep k S h" "deep k S h'" using assms(3,4) by auto
    then obtain k' where k: "k = Suc k'" by (cases k) auto
    show ?thesis
    proof (rule walks_descend [OF assms(2), where source = "Some h" and to = "Some h'" and n = "te_name t" and k' = k'])
      fix frame assume "at_lists frame p (f # fs) (t # ts)"
      then show "\<exists>frame'. at_lists frame' p fs ts \<and> advance_merge frame = (frame', Descend (Some h) (Some h') (te_name t))"
        using assms(1) differ h at_lists_next(3) [of frame p f fs t ts] by (auto simp: advance_at [of frame])
    qed (use h d k assms(1) differ assms(5) [OF k, of "Some h" "Some h'"] in simp_all)
  qed
qed

lemma walks_all:
  "all_deep k S fs \<Longrightarrow> all_deep k S ts \<Longrightarrow> walks S k p fs ts"
proof (induction k arbitrary: p fs ts rule: less_induct)
  case (less k)
  have sub: "walks S k' q (case source of Some h \<Rightarrow> sub_entries S h | None \<Rightarrow> []) (case to of Some h \<Rightarrow> sub_entries S h | None \<Rightarrow> [])"
    if "k = Suc k'" "\<forall>h. source = Some h \<longrightarrow> deep k S h" "\<forall>h. to = Some h \<longrightarrow> deep k S h" for k' source to q
  proof (rule less.IH)
    show "k' < k" using that(1) by simp
    show "all_deep k' S (case source of Some h \<Rightarrow> sub_entries S h | None \<Rightarrow> [])"
      using that(1,2) by (cases source) (simp_all add: deep_entries)
    show "all_deep k' S (case to of Some h \<Rightarrow> sub_entries S h | None \<Rightarrow> [])"
      using that(1,3) by (cases to) (simp_all add: deep_entries)
  qed
  show ?case
    using less.prems
  proof (induction "length fs + length ts" arbitrary: fs ts rule: less_induct)
    case inner: less
    show ?case
    proof (cases fs; cases ts)
      assume "fs = []" "ts = []"
      then show ?thesis by (auto simp: walks_def advance_at intro!: loop_done)
    next
      fix f fs' assume c: "fs = f # fs'" "ts = []"
      have "walks S k p fs' []" using inner.hyps [of fs' "[]"] inner.prems c by (simp add: all_deep_Cons)
      moreover have "\<forall>h. target_tree_hash (te_target f) = Some h \<longrightarrow> deep k S h" using inner.prems c by (auto simp: all_deep_Cons)
      ultimately show ?thesis unfolding c using sub [of _ "Some _" None] by (intro walks_from) auto
    next
      fix t ts' assume c: "fs = []" "ts = t # ts'"
      have "walks S k p [] ts'" using inner.hyps [of "[]" ts'] inner.prems c by (simp add: all_deep_Cons)
      moreover have "\<forall>h. target_tree_hash (te_target t) = Some h \<longrightarrow> deep k S h" using inner.prems c by (auto simp: all_deep_Cons)
      ultimately show ?thesis unfolding c using sub [of _ None "Some _"] by (intro walks_to) auto
    next
      fix f fs' t ts' assume c: "fs = f # fs'" "ts = t # ts'"
      have d: "\<forall>h. target_tree_hash (te_target f) = Some h \<longrightarrow> deep k S h" "\<forall>h. target_tree_hash (te_target t) = Some h \<longrightarrow> deep k S h"
        using inner.prems c by (auto simp: all_deep_Cons)
      have both: "walks S k p fs' ts'" and left: "walks S k p fs' ts" and right: "walks S k p fs ts'"
        using inner.hyps [of fs' ts'] inner.hyps [of fs' ts] inner.hyps [of fs ts'] inner.prems unfolding c by (simp_all add: all_deep_Cons)
      consider (lt) "te_name f < te_name t" | (gt) "te_name t < te_name f" | (eq) "te_name f = te_name t" by fastforce
      then show ?thesis
      proof cases
        case lt
        then show ?thesis unfolding c(1) using left d(1) sub [of _ "Some _" None] c by (intro walks_from) auto
      next
        case gt
        then show ?thesis unfolding c(2) using right d(2) sub [of _ None "Some _"] c by (intro walks_to) auto
      next
        case eq
        then show ?thesis unfolding c using both d sub by (intro walks_both)
      qed
    qed
  qed
qed

section \<open>Paths\<close>

definition entry_at :: "'g TreeEntry list \<Rightarrow> string \<Rightarrow> 'g TreeEntry option" where
  "entry_at es n = map_of (map (\<lambda>e. (te_name e, e)) es) n"

lemma entry_at_simps [simp]:
  "entry_at [] n = None" "entry_at (e # es) n = (if te_name e = n then Some e else entry_at es n)"
  by (simp_all add: entry_at_def)

lemma entry_at_in: "entry_at es n = Some e \<Longrightarrow> e \<in> set es \<and> te_name e = n"
  by (induction es) (auto split: if_splits)

lemma entry_at_below: "\<forall>e \<in> set es. n < te_name e \<Longrightarrow> entry_at es n = None"
  by (induction es) auto

lemma entry_at_deep: "all_deep k S es \<Longrightarrow> entry_at es n = Some e \<Longrightarrow> target_tree_hash (te_target e) = Some h \<Longrightarrow> deep k S h"
  using entry_at_in [of es n e] by (auto simp: all_deep_def list_all_iff split: option.splits)

text \<open>What is reported at a path, by the two entries there.\<close>

fun reported :: "'g tree_store \<Rightarrow> 'g TreeEntry list \<Rightarrow> 'g TreeEntry list \<Rightarrow> string list \<Rightarrow> DiffKind \<Rightarrow> bool" where
  "reported S fs ts [] kind \<longleftrightarrow> False"
| "reported S fs ts (n # ns) kind \<longleftrightarrow>
     (case (entry_at fs n, entry_at ts n) of
        (None, None) \<Rightarrow> False
      | (Some f, None) \<Rightarrow>
          (case target_tree_hash (te_target f) of
             None \<Rightarrow> ns = [] \<and> kind = Deleted
           | Some h \<Rightarrow> reported S (sub_entries S h) [] ns kind)
      | (None, Some t) \<Rightarrow>
          (case target_tree_hash (te_target t) of
             None \<Rightarrow> ns = [] \<and> kind = Added
           | Some h \<Rightarrow> reported S [] (sub_entries S h) ns kind)
      | (Some f, Some t) \<Rightarrow>
          te_target f \<noteq> te_target t
          \<and> (case (target_tree_hash (te_target f), target_tree_hash (te_target t)) of
               (Some h, Some h') \<Rightarrow> reported S (sub_entries S h) (sub_entries S h') ns kind
             | _ \<Rightarrow> ns = [] \<and> kind = Modified))"

text \<open>The changes \<open>diff_ref\<close> makes for the entries of one name.\<close>

definition contrib :: "'g tree_store \<Rightarrow> nat \<Rightarrow> string \<Rightarrow> 'g TreeEntry option \<Rightarrow> 'g TreeEntry option \<Rightarrow> FileChange set" where
  "contrib S k p fo to = set
     (case (fo, to) of
        (None, None) \<Rightarrow> []
      | (Some f, None) \<Rightarrow> diff_ref S k p [f] []
      | (None, Some t) \<Rightarrow> diff_ref S k p [] [t]
      | (Some f, Some t) \<Rightarrow> diff_ref S k p [f] [t])"

lemma union_at: "g n = {} \<Longrightarrow> (\<Union>m. (g(n := X)) m) = X \<union> (\<Union>m. g m)"
  by (auto split: if_splits)

lemma diff_ref_union:
  "all_deep k S fs \<Longrightarrow> all_deep k S ts \<Longrightarrow> set (diff_ref S k p fs ts) = (\<Union>n. contrib S k p (entry_at fs n) (entry_at ts n))"
proof (induction "length fs + length ts" arbitrary: fs ts rule: less_induct)
  case less
  have step: ?case
    if "(\<lambda>m. contrib S k p (entry_at fs m) (entry_at ts m)) = (\<lambda>m. contrib S k p (entry_at fs' m) (entry_at ts' m))(n := X)"
      "entry_at fs' n = None" "entry_at ts' n = None" "set (diff_ref S k p fs ts) = X \<union> set (diff_ref S k p fs' ts')"
      "length fs' + length ts' < length fs + length ts" "all_deep k S fs'" "all_deep k S ts'" for fs' ts' n X
    unfolding that(1,4) using less.hyps [OF that(5-7)] that(2,3) by (subst union_at) (simp_all add: contrib_def)
  show ?case
  proof (cases fs; cases ts)
    assume "fs = []" "ts = []"
    then show ?thesis by (simp add: contrib_def)
  next
    fix f fs' assume c: "fs = f # fs'" "ts = []"
    have "entry_at fs' (te_name f) = None" using less.prems c by (intro entry_at_below) (simp add: all_deep_Cons)
    then show ?thesis using less.prems c
      by (intro step [of fs' "[]" "te_name f" "set (diff_ref S k p [f] [])"]) (auto simp: all_deep_Cons contrib_def fun_eq_iff)
  next
    fix t ts' assume c: "fs = []" "ts = t # ts'"
    have "entry_at ts' (te_name t) = None" using less.prems c by (intro entry_at_below) (simp add: all_deep_Cons)
    then show ?thesis using less.prems c
      by (intro step [of "[]" ts' "te_name t" "set (diff_ref S k p [] [t])"]) (auto simp: all_deep_Cons contrib_def fun_eq_iff)
  next
    fix f fs' t ts' assume c: "fs = f # fs'" "ts = t # ts'"
    have own: "entry_at fs' (te_name f) = None" "entry_at ts' (te_name t) = None"
      using less.prems c by (auto intro!: entry_at_below simp: all_deep_Cons)
    consider (lt) "te_name f < te_name t" | (gt) "te_name t < te_name f" | (eq) "te_name f = te_name t" by fastforce
    then show ?thesis
    proof cases
      case lt
      then have "entry_at ts (te_name f) = None"
        using less.prems c by (intro entry_at_below) (auto simp: all_deep_Cons intro: order.strict_trans)
      then show ?thesis using less.prems own lt unfolding c
        by (intro step [unfolded c, of fs' "t # ts'" "te_name f" "set (diff_ref S k p [f] [])"])
          (auto simp: all_deep_Cons contrib_def fun_eq_iff)
    next
      case gt
      then have "entry_at fs (te_name t) = None"
        using less.prems c by (intro entry_at_below) (auto simp: all_deep_Cons intro: order.strict_trans)
      then show ?thesis using less.prems own gt unfolding c
        by (intro step [unfolded c, of "f # fs'" ts' "te_name t" "set (diff_ref S k p [] [t])"])
          (auto simp: all_deep_Cons contrib_def fun_eq_iff)
    next
      case eq
      then show ?thesis using less.prems own unfolding c
        by (intro step [unfolded c, of fs' ts' "te_name t" "set (diff_ref S k p [f] [t])"])
          (auto simp: all_deep_Cons contrib_def fun_eq_iff)
    qed
  qed
qed

lemma contrib_empty [simp]: "contrib S k p None None = {}"
  by (simp add: contrib_def)

text \<open>The paths below a name.\<close>

definition path_of :: "string \<Rightarrow> string list \<Rightarrow> string" where
  "path_of = foldl child_path"

lemma path_of_simps [simp]: "path_of p [] = p" "path_of p (n # ns) = path_of (child_path p n) ns"
  by (simp_all add: path_of_def)

lemma change_eq: "c = new_change path kind \<longleftrightarrow> fc_path c = path \<and> fc_kind c = kind"
  by (cases c) (simp add: new_change_def)

lemma diff_ref_reported:
  "all_deep k S fs \<Longrightarrow> all_deep k S ts
    \<Longrightarrow> c \<in> set (diff_ref S k p fs ts) \<longleftrightarrow> (\<exists>ns. reported S fs ts ns (fc_kind c) \<and> fc_path c = path_of p ns)"
proof (induction k arbitrary: p fs ts rule: less_induct)
  case (less k)
  have "c \<in> contrib S k p (entry_at fs n) (entry_at ts n) \<longleftrightarrow>
      (\<exists>ns. reported S fs ts (n # ns) (fc_kind c) \<and> fc_path c = path_of (child_path p n) ns)" for n
  proof -
    have names: "\<And>f. entry_at fs n = Some f \<Longrightarrow> te_name f = n" "\<And>t. entry_at ts n = Some t \<Longrightarrow> te_name t = n"
      by (simp_all add: entry_at_in)
    have deep: "\<And>f h. entry_at fs n = Some f \<Longrightarrow> target_tree_hash (te_target f) = Some h \<Longrightarrow> deep k S h"
      "\<And>t h. entry_at ts n = Some t \<Longrightarrow> target_tree_hash (te_target t) = Some h \<Longrightarrow> deep k S h"
      using less.prems entry_at_deep by blast+
    have IH: "c \<in> set (diff_ref S k' q fs' ts') \<longleftrightarrow> (\<exists>ns. reported S fs' ts' ns (fc_kind c) \<and> fc_path c = path_of q ns)"
      if "k = Suc k'" "all_deep k' S fs'" "all_deep k' S ts'" for k' q fs' ts'
      using less.IH that by simp
    show ?thesis
    proof (cases k)
      case 0
      have leaf: "te_name f = n \<and> target_tree_hash (te_target f) = None" if "entry_at fs n = Some f" for f
        using names(1) [OF that] deep(1) [OF that] 0 by (cases "target_tree_hash (te_target f)") auto
      have leaf': "te_name t = n \<and> target_tree_hash (te_target t) = None" if "entry_at ts n = Some t" for t
        using names(2) [OF that] deep(2) [OF that] 0 by (cases "target_tree_hash (te_target t)") auto
      show ?thesis
      proof (cases "entry_at fs n"; cases "entry_at ts n")
        fix f assume e: "entry_at fs n = Some f" "entry_at ts n = None"
        then show ?thesis using leaf [OF e(1)] by (simp add: contrib_def change_eq) blast
      next
        fix t assume e: "entry_at fs n = None" "entry_at ts n = Some t"
        then show ?thesis using leaf' [OF e(2)] by (simp add: contrib_def change_eq) blast
      next
        fix f t assume e: "entry_at fs n = Some f" "entry_at ts n = Some t"
        then show ?thesis using leaf [OF e(1)] leaf' [OF e(2)] by (simp add: contrib_def change_eq) blast
      qed simp
    next
      case (Suc k')
      then have sub: "\<And>f h. entry_at fs n = Some f \<Longrightarrow> target_tree_hash (te_target f) = Some h \<Longrightarrow> all_deep k' S (sub_entries S h)"
        "\<And>t h. entry_at ts n = Some t \<Longrightarrow> target_tree_hash (te_target t) = Some h \<Longrightarrow> all_deep k' S (sub_entries S h)"
        using deep deep_entries by blast+
      show ?thesis
      proof (cases "entry_at fs n"; cases "entry_at ts n")
        fix f assume "entry_at fs n = Some f" "entry_at ts n = None"
        then show ?thesis using names(1) sub(1) IH [OF Suc] Suc
          by (cases "target_tree_hash (te_target f)") (auto simp: contrib_def change_eq)
      next
        fix t assume "entry_at fs n = None" "entry_at ts n = Some t"
        then show ?thesis using names(2) sub(2) IH [OF Suc] Suc
          by (cases "target_tree_hash (te_target t)") (auto simp: contrib_def change_eq)
      next
        fix f t assume e: "entry_at fs n = Some f" "entry_at ts n = Some t"
        note n = names(1) [OF e(1)] names(2) [OF e(2)]
        show ?thesis
        proof (cases "te_target f \<noteq> te_target t \<and> target_tree_hash (te_target f) \<noteq> None \<and> target_tree_hash (te_target t) \<noteq> None")
          case True
          then obtain h h' where h: "target_tree_hash (te_target f) = Some h" "target_tree_hash (te_target t) = Some h'" by auto
          show ?thesis
            using True h n e IH [OF Suc sub(1) [OF e(1) h(1)] sub(2) [OF e(2) h(2)], of "child_path p n"] Suc
            by (simp add: contrib_def)
        next
          case False
          then have "c \<in> contrib S k p (entry_at fs n) (entry_at ts n) \<longleftrightarrow> te_target f \<noteq> te_target t \<and> c = new_change (child_path p n) Modified"
            using n e Suc
            by (cases "target_tree_hash (te_target f)"; cases "target_tree_hash (te_target t)") (simp_all add: contrib_def)
          moreover have "reported S fs ts (n # ns) kind \<longleftrightarrow> te_target f \<noteq> te_target t \<and> ns = [] \<and> kind = Modified" for ns kind
            using False e by (cases "target_tree_hash (te_target f)"; cases "target_tree_hash (te_target t)") auto
          ultimately show ?thesis by (auto simp: change_eq)
        qed
      qed simp
    qed
  qed
  then have "c \<in> set (diff_ref S k p fs ts) \<longleftrightarrow>
      (\<exists>n ns. reported S fs ts (n # ns) (fc_kind c) \<and> fc_path c = path_of (child_path p n) ns)"
    unfolding diff_ref_union [OF less.prems] by blast
  also have "\<dots> \<longleftrightarrow> (\<exists>ns. reported S fs ts ns (fc_kind c) \<and> fc_path c = path_of p ns)"
    by (metis list.exhaust path_of_simps(2) reported.simps(1))
  finally show ?case .
qed

text \<open>What a tree has at a path, when it is not a tree.\<close>

fun leaf_at :: "'g tree_store \<Rightarrow> 'g TreeEntry list \<Rightarrow> string list \<Rightarrow> 'g TreeEntryTarget option" where
  "leaf_at S es [] = None"
| "leaf_at S es (n # ns) =
     (case entry_at es n of
        None \<Rightarrow> None
      | Some e \<Rightarrow>
          (case target_tree_hash (te_target e) of
             None \<Rightarrow> if ns = [] then Some (te_target e) else None
           | Some h \<Rightarrow> leaf_at S (sub_entries S h) ns))"

lemma leaf_at_Nil [simp]: "leaf_at S [] ns = None"
  by (cases ns) simp_all

lemma reported_differs: "reported S fs ts ns kind \<Longrightarrow> leaf_at S fs ns \<noteq> leaf_at S ts ns"
proof (induction S fs ts ns kind rule: reported.induct)
  case (2 S fs ts n ns kind)
  then show ?case by (auto split: option.splits if_splits)
qed simp

lemma differs_reported:
  "leaf_at S fs ns \<noteq> leaf_at S ts ns \<Longrightarrow> \<exists>ms rest kind. ns = ms @ rest \<and> reported S fs ts ms kind \<and> (rest \<noteq> [] \<longrightarrow> kind = Modified)"
proof (induction ns arbitrary: fs ts)
  case (Cons n ns)
  have here: ?case if "reported S fs ts [n] Modified" using that by (intro exI [of _ "[n]"] exI [of _ ns] exI [of _ Modified]) simp
  have here': ?case if "ns = []" "reported S fs ts [n] kind" for kind
    using that by (intro exI [of _ "[n]"] exI [of _ "[]"] exI [of _ kind]) simp
  have below: ?case if "leaf_at S fs' ns \<noteq> leaf_at S ts' ns" "\<And>ms kind. reported S fs' ts' ms kind \<Longrightarrow> reported S fs ts (n # ms) kind" for fs' ts'
    using Cons.IH [OF that(1)] that(2) by (metis append_Cons)
  show ?case
  proof (cases "entry_at fs n"; cases "entry_at ts n")
    fix f assume "entry_at fs n = Some f" "entry_at ts n = None"
    then show ?thesis using Cons.prems below [of "sub_entries S (the (target_tree_hash (te_target f)))" "[]"] here' [of Deleted]
      by (cases "target_tree_hash (te_target f)") (auto split: if_splits)
  next
    fix t assume "entry_at fs n = None" "entry_at ts n = Some t"
    then show ?thesis using Cons.prems below [of "[]" "sub_entries S (the (target_tree_hash (te_target t)))"] here' [of Added]
      by (cases "target_tree_hash (te_target t)") (auto split: if_splits)
  next
    fix f t assume e: "entry_at fs n = Some f" "entry_at ts n = Some t"
    then have "te_target f \<noteq> te_target t" using Cons.prems by (auto split: option.splits if_splits)
    then show ?thesis using e Cons.prems here
        below [of "sub_entries S (the (target_tree_hash (te_target f)))" "sub_entries S (the (target_tree_hash (te_target t)))"]
      by (cases "target_tree_hash (te_target f)"; cases "target_tree_hash (te_target t)") auto
  qed (use Cons.prems in simp)
qed simp

section \<open>Properties\<close>

lemma collect_visitor: "(\<lambda>changes change. (changes @ [change], None :: unit option)) = collect"
  by (simp add: collect_def fun_eq_iff)

lemma diff_trees_ref:
  assumes "deep (Suc k) S source" "deep (Suc k) S to"
  shows "diff_trees M S source to
    = Some (Inr (if source = to then [] else diff_ref S k [] (sub_entries S source) (sub_entries S to)))"
proof -
  obtain t t' where t: "S source = Inr (Some t)" "sub_entries S source = tr_entries t" "all_deep k S (tr_entries t)"
    "S to = Inr (Some t')" "sub_entries S to = tr_entries t'" "all_deep k S (tr_entries t')"
    using assms by (auto elim!: deep_tree)
  let ?frame = "\<lparr>df_from = Some t, df_to = Some t', df_prefix = [], df_from_index = 0, df_to_index = 0\<rparr>"
  have "at_lists ?frame [] (tr_entries t) (tr_entries t')" by (simp add: at_lists_def frame_entries_def)
  then have "diff_loop M S collect [?frame] [] = diff_loop M S collect [] ([] @ diff_ref S k [] (tr_entries t) (tr_entries t'))"
    using walks_all [OF t(3,6), of "[]"] unfolding walks_def by blast
  then have "diff_loop M S collect [?frame] [] = Some (diff_ref S k [] (tr_entries t) (tr_entries t'), Inr None)"
    by (simp add: loop_end)
  then show ?thesis
    using t(1,2,4,5) by (simp add: diff_trees_def diff_trees_visit_def collect_visitor require_tree_option_def require_tree_def)
qed

text \<open>C20: On a store without cycles the walk over two trees ends, and it returns exactly the changes of the recursion over
  the two trees, in its order.\<close>

theorem tree_diff_ends:
  assumes "deep (Suc k) S source" "deep (Suc k) S to"
  shows "\<exists>changes. diff_trees M S source to = Some (Inr changes)
    \<and> (\<forall>c. c \<in> set changes \<longleftrightarrow> source \<noteq> to \<and> (\<exists>ns. reported S (sub_entries S source) (sub_entries S to) ns (fc_kind c) \<and> fc_path c = path_of [] ns))"
  unfolding diff_trees_ref [OF assms]
  using diff_ref_reported [OF deep_entries [OF assms(1)] deep_entries [OF assms(2)]] by auto

text \<open>C19: No difference is missed: every path at which one tree has a file that the other does not have is reported, unless
  a prefix of it is reported as modified; and only paths at which the two trees differ are reported.\<close>

theorem tree_diff_complete:
  assumes "deep (Suc k) S source" "deep (Suc k) S to"
  shows "\<exists>changes. diff_trees M S source to = Some (Inr changes)
    \<and> (\<forall>ns. leaf_at S (sub_entries S source) ns \<noteq> leaf_at S (sub_entries S to) ns \<longrightarrow>
        (\<exists>ms rest kind. ns = ms @ rest \<and> new_change (path_of [] ms) kind \<in> set changes \<and> (rest \<noteq> [] \<longrightarrow> kind = Modified)))
    \<and> (\<forall>c \<in> set changes. \<exists>ns. fc_path c = path_of [] ns \<and> leaf_at S (sub_entries S source) ns \<noteq> leaf_at S (sub_entries S to) ns)"
proof (cases "source = to")
  case True
  then show ?thesis using diff_trees_ref [OF assms, of M] by auto
next
  case False
  let ?fs = "sub_entries S source" and ?ts = "sub_entries S to"
  note reports = diff_ref_reported [OF deep_entries [OF assms(1)] deep_entries [OF assms(2)], of _ "[]"]
  have "\<exists>ms rest kind. ns = ms @ rest \<and> new_change (path_of [] ms) kind \<in> set (diff_ref S k [] ?fs ?ts) \<and> (rest \<noteq> [] \<longrightarrow> kind = Modified)"
    if "leaf_at S ?fs ns \<noteq> leaf_at S ?ts ns" for ns
    using differs_reported [OF that] unfolding reports by (metis change_eq)
  moreover have "\<exists>ns. fc_path c = path_of [] ns \<and> leaf_at S ?fs ns \<noteq> leaf_at S ?ts ns" if "c \<in> set (diff_ref S k [] ?fs ?ts)" for c
    using that reported_differs unfolding reports by blast
  ultimately show ?thesis unfolding diff_trees_ref [OF assms] using False by auto
qed

text \<open>A file \<open>a\<close> that becomes a directory with a file \<open>x\<close>.\<close>

definition moved_in :: "bytes tree_store" where
  "moved_in h = Inr (map_of
     [([1], flat_tree [new_entry ''a'' (TargetBlob [7] False)] []),
      ([2], flat_tree [new_entry ''a'' (TargetTree [3])] []),
      ([3], flat_tree [new_entry ''x'' (TargetBlob [8] False)] [])] h)"

lemma moved_in_deep: "deep 2 moved_in [1]" "deep 2 moved_in [2]"
  by (simp_all add: numeral_2_eq_2 deep.simps moved_in_def flat_tree_def new_entry_def)

theorem tree_diff_ends_witness:
  "\<exists>changes. diff_trees (\<lambda>_. IoError ''missing'') moved_in [1] [2] = Some (Inr changes)
    \<and> (\<forall>c. c \<in> set changes \<longleftrightarrow> [1] \<noteq> ([2] :: bytes) \<and>
        (\<exists>ns. reported moved_in (sub_entries moved_in [1]) (sub_entries moved_in [2]) ns (fc_kind c) \<and> fc_path c = path_of [] ns))"
  by (rule tree_diff_ends [where k = 1]) (use moved_in_deep in \<open>simp_all add: numeral_2_eq_2\<close>)

theorem tree_diff_complete_witness:
  "\<exists>changes. diff_trees (\<lambda>_. IoError ''missing'') moved_in [1] [2] = Some (Inr changes)
    \<and> (\<forall>c \<in> set changes. \<exists>ns. fc_path c = path_of [] ns
        \<and> leaf_at moved_in (sub_entries moved_in [1]) ns \<noteq> leaf_at moved_in (sub_entries moved_in [2]) ns)"
proof -
  have "deep (Suc 1) moved_in [1]" "deep (Suc 1) moved_in [2]" using moved_in_deep by (simp_all add: numeral_2_eq_2)
  then show ?thesis using tree_diff_complete by blast
qed

end
