(* ===== verification/Tree_Path.thy ===== *)
theory Tree_Path
  imports Slash_Path Tree_Edits Tree_Diff_Correct
begin

text \<open>
  The resolution of a path in a tree, \<^verbatim>\<open>src/crates/object-model/src/object/tree_path.rs\<close>, under the three policies for what
  stands at the end of the path, and its agreement with the leaves that the difference of two trees compares.
\<close>

section \<open>Policies and results\<close>

datatype LeafPolicy = LeafEntry | BlobOnly | LeafContentBlob

record 'g ResolvedTreeTarget =
  rt_entry :: "'g TreeEntry"
  rt_content_hash :: "ContentHash option"
  rt_blob :: "bytes option"

datatype TreePathResolveError = PathStoreError ContentHash HeddleError | SubtreeMissing ContentHash

text \<open>The error passed on to callers, with the error of a missing object as a parameter.\<close>

fun path_error :: "(ContentHash \<Rightarrow> HeddleError) \<Rightarrow> TreePathResolveError \<Rightarrow> HeddleError" where
  "path_error missing (PathStoreError h e) = e"
| "path_error missing (SubtreeMissing h) = missing h"

section \<open>Segments\<close>

text \<open>A path with a root, a leading dot or a parent directory has other components than names.\<close>

definition path_segments :: "string \<Rightarrow> string list option" where
  "path_segments path =
     (if path = [] then None
      else let parts = split_slash path; segments = filter (\<lambda>part. part \<noteq> [] \<and> part \<noteq> ''.'') parts
           in if hd parts = [] \<or> hd parts = ''.'' \<or> ''..'' \<in> set segments \<or> segments = [] then None else Some segments)"

definition segments_for_policy :: "string \<Rightarrow> LeafPolicy \<Rightarrow> string list option" where
  "segments_for_policy path policy =
     (case policy of
        LeafEntry \<Rightarrow> path_segments path
      | BlobOnly \<Rightarrow> Some (filter (\<lambda>part. part \<noteq> []) (split_slash path))
      | LeafContentBlob \<Rightarrow> Some (split_slash path))"

section \<open>Resolution\<close>

type_synonym 'a path_outcome = "TreePathResolveError + 'a"

definition load_subtree :: "'g tree_store \<Rightarrow> ContentHash \<Rightarrow> 'g Tree path_outcome" where
  "load_subtree store h =
     (case store h of Inr (Some t) \<Rightarrow> Inr t | Inr None \<Rightarrow> Inl (SubtreeMissing h) | Inl e \<Rightarrow> Inl (PathStoreError h e))"

definition require_blob :: "(ContentHash \<Rightarrow> HeddleError) \<Rightarrow> (ContentHash \<Rightarrow> bytes option outcome) \<Rightarrow> ContentHash \<Rightarrow> bytes outcome" where
  "require_blob missing blobs h =
     and_then (blobs h) (\<lambda>b. case b of Some b \<Rightarrow> Inr b | None \<Rightarrow> Inl (missing h))"

definition entry_content_hash :: "'g TreeEntry \<Rightarrow> ContentHash option" where
  "entry_content_hash e =
     (case target_content_hash (te_target e) of
        Some h \<Rightarrow> Some h
      | None \<Rightarrow> (case target_tree_hash (te_target e) of Some h \<Rightarrow> Some h | None \<Rightarrow> leaf_content_hash (te_target e)))"

definition resolve_leaf ::
  "(ContentHash \<Rightarrow> bytes outcome) \<Rightarrow> 'g TreeEntry \<Rightarrow> LeafPolicy \<Rightarrow> 'g ResolvedTreeTarget option path_outcome" where
  "resolve_leaf blob e policy =
     (case policy of
        LeafEntry \<Rightarrow> Inr (Some \<lparr>rt_entry = e, rt_content_hash = entry_content_hash e, rt_blob = None\<rparr>)
      | BlobOnly \<Rightarrow>
          (case target_blob_hash (te_target e) of
             None \<Rightarrow> Inr None
           | Some h \<Rightarrow> Inr (Some \<lparr>rt_entry = e, rt_content_hash = Some h, rt_blob = None\<rparr>))
      | LeafContentBlob \<Rightarrow>
          (case leaf_content_hash (te_target e) of
             None \<Rightarrow> Inr None
           | Some h \<Rightarrow> (case blob h of
                 Inl err \<Rightarrow> Inl (PathStoreError h err)
               | Inr b \<Rightarrow> Inr (Some \<lparr>rt_entry = e, rt_content_hash = Some h, rt_blob = Some b\<rparr>))))"

fun resolve_from_tree ::
  "'g tree_store \<Rightarrow> (ContentHash \<Rightarrow> bytes outcome) \<Rightarrow> 'g Tree \<Rightarrow> string list \<Rightarrow> LeafPolicy \<Rightarrow> 'g ResolvedTreeTarget option path_outcome" where
  "resolve_from_tree store blob t [] policy = Inr None"
| "resolve_from_tree store blob t (segment # segments) policy =
     (case tree_get t segment of
        None \<Rightarrow> Inr None
      | Some e \<Rightarrow>
          if segments = [] then resolve_leaf blob e policy
          else (case target_tree_hash (te_target e) of
                  None \<Rightarrow> Inr None
                | Some h \<Rightarrow> and_then (load_subtree store h) (\<lambda>t. resolve_from_tree store blob t segments policy)))"

definition resolve_tree_path ::
  "'g tree_store \<Rightarrow> (ContentHash \<Rightarrow> bytes outcome) \<Rightarrow> ContentHash \<Rightarrow> string \<Rightarrow> LeafPolicy \<Rightarrow> 'g ResolvedTreeTarget option path_outcome" where
  "resolve_tree_path store blob root path policy =
     (case segments_for_policy path policy of
        None \<Rightarrow> Inr None
      | Some segments \<Rightarrow>
          if segments = [] then Inr None
          else and_then (load_subtree store root) (\<lambda>t. resolve_from_tree store blob t segments policy))"

section \<open>Agreement with the leaves of the tree\<close>

lemma deep_load: "deep (Suc k) S h \<Longrightarrow> \<exists>t. load_subtree S h = Inr t \<and> sub_entries S h = tr_entries t \<and> all_deep k S (tr_entries t)"
  by (erule deep_tree) (auto simp: load_subtree_def)

lemma get_entry_at: "all_deep k S (tr_entries t) \<Longrightarrow> tree_get t n = entry_at (tr_entries t) n"
  by (subst tree_get_map) (simp_all add: all_deep_def tree_map_def entry_at_def)

text \<open>The hash of a blob at a leaf.\<close>

definition leaf_blob :: "'g TreeEntryTarget option \<Rightarrow> ContentHash option" where
  "leaf_blob l = (case l of Some target \<Rightarrow> target_blob_hash target | None \<Rightarrow> None)"

lemma resolve_segments:
  "all_deep k S (tr_entries t) \<Longrightarrow>
   \<exists>r. resolve_from_tree S blob t ns BlobOnly = Inr r
     \<and> map_option rt_content_hash r = map_option Some (leaf_blob (leaf_at S (tr_entries t) ns))
     \<and> (\<forall>target. r = Some target \<longrightarrow> leaf_at S (tr_entries t) ns = Some (te_target (rt_entry target)))"
proof (induction ns arbitrary: k t)
  case Nil
  then show ?case by (simp add: leaf_blob_def)
next
  case (Cons n ns)
  show ?case
  proof (cases "entry_at (tr_entries t) n")
    case None
    then show ?thesis using get_entry_at [OF Cons.prems] by (simp add: leaf_blob_def)
  next
    case (Some e)
    show ?thesis
    proof (cases "target_tree_hash (te_target e)")
      case None
      then show ?thesis using Some get_entry_at [OF Cons.prems, of n]
        by (auto simp: leaf_blob_def resolve_leaf_def split: option.splits)
    next
      case tree: (Some h)
      have d: "deep k S h" by (rule entry_at_deep [OF Cons.prems Some tree])
      then obtain j where j: "k = Suc j" by (cases k) auto
      from deep_load [OF d [unfolded j]] obtain t' where t': "load_subtree S h = Inr t'" "sub_entries S h = tr_entries t'"
        "all_deep j S (tr_entries t')" by blast
      have blob: "target_blob_hash (te_target e) = None" using tree by (cases "te_target e") auto
      show ?thesis
      proof (cases "ns = []")
        case True
        then show ?thesis using Some tree blob get_entry_at [OF Cons.prems, of n] by (simp add: resolve_leaf_def leaf_blob_def)
      next
        case False
        then show ?thesis using Cons.IH [OF t'(3)] Some tree t'(1,2) get_entry_at [OF Cons.prems, of n] by simp
      qed
    qed
  qed
qed

lemma named_segments:
  assumes "ns \<noteq> []" "\<forall>n \<in> set ns. n \<noteq> [] \<and> CHR 0x2F \<notin> set n"
  shows "segments_for_policy (join_slash ns) BlobOnly = Some ns"
  using assms split_join [OF assms(1)] by (simp add: segments_for_policy_def filter_id_conv)

text \<open>C29: On a store without cycles a path made of names resolves to a blob exactly when the tree has that blob at the path, and
  then to the entry and the hash the tree has there: what the difference of trees compares at a path is what the path resolves
  to.\<close>

theorem blob_path_resolves_leaf:
  assumes "deep (Suc k) S root" "ns \<noteq> []" "\<forall>n \<in> set ns. n \<noteq> [] \<and> CHR 0x2F \<notin> set n"
  shows "\<exists>r. resolve_tree_path S blob root (join_slash ns) BlobOnly = Inr r
    \<and> map_option rt_content_hash r = map_option Some (leaf_blob (leaf_at S (sub_entries S root) ns))
    \<and> (\<forall>target. r = Some target \<longrightarrow> leaf_at S (sub_entries S root) ns = Some (te_target (rt_entry target)))"
proof -
  from deep_load [OF assms(1)] obtain t where t: "load_subtree S root = Inr t" "sub_entries S root = tr_entries t"
    "all_deep k S (tr_entries t)" by blast
  then show ?thesis using resolve_segments [OF t(3)] assms(2) by (simp add: resolve_tree_path_def named_segments [OF assms(2,3)])
qed

theorem blob_path_resolves_leaf_witness:
  "\<exists>r. resolve_tree_path moved_in (\<lambda>_. Inr []) [2] ''a/x'' BlobOnly = Inr r \<and> map_option rt_content_hash r = Some (Some [8])"
proof -
  have d: "deep (Suc 1) moved_in [2]" using moved_in_deep(2) by (simp add: numeral_2_eq_2)
  have ns: "[''a'', ''x''] \<noteq> []" "\<forall>n \<in> set [''a'', ''x'']. n \<noteq> [] \<and> CHR 0x2F \<notin> set n" by simp_all
  have "leaf_blob (leaf_at moved_in (sub_entries moved_in [2]) [''a'', ''x'']) = Some [8]"
    by (simp add: leaf_blob_def sub_entries_def moved_in_def flat_tree_def new_entry_def)
  moreover obtain r where "resolve_tree_path moved_in (\<lambda>_. Inr []) [2] (join_slash [''a'', ''x'']) BlobOnly = Inr r"
    "map_option rt_content_hash r = map_option Some (leaf_blob (leaf_at moved_in (sub_entries moved_in [2]) [''a'', ''x'']))"
    using blob_path_resolves_leaf [OF d ns] by blast
  ultimately show ?thesis by (simp del: leaf_at.simps)
qed

text \<open>A dot is a name for the policies of blobs but not for the policy of entries.\<close>

lemma dot_is_a_name: "segments_for_policy ''./a'' LeafEntry = None" "segments_for_policy ''./a'' BlobOnly = Some [''.'', ''a'']"
  by (simp_all add: segments_for_policy_def path_segments_def)

end
