(* ===== verification/Merge_Base.thy ===== *)
theory Merge_Base
  imports Rust_Str "HOL-Library.Option_ord"
begin

text \<open>
  The search for the merge base of two states, \<^verbatim>\<open>find_merge_base_in_graph\<close> in \<^verbatim>\<open>src/crates/repo/src/commit_graph.rs\<close>. A graph
  is what the trait \<^verbatim>\<open>MergeBaseGraph\<close> offers: the generation of a state and its parents, both absent for a state that is not
  loaded. The priority queue is a list from which the greatest pair is taken.
\<close>

unbundle bit_operations_syntax

section \<open>The search\<close>

definition PAINT_A :: u8 where "PAINT_A = 1"

definition PAINT_B :: u8 where "PAINT_B = 2"

definition PAINT_BOTH :: u8 where "PAINT_BOTH = PAINT_A OR PAINT_B"

record 'i MergeBaseSearch =
  merge_base :: "'i option"
  ancestors_visited :: nat

text \<open>The queue, the paint of each state and the paint it has passed on to its parents.\<close>

record 'i painting =
  heap :: "(nat option \<times> 'i) list"
  paint :: "'i \<Rightarrow> u8 option"
  propagated :: "'i \<Rightarrow> u8 option"

definition entry_or_zero :: "('i \<Rightarrow> u8 option) \<Rightarrow> 'i \<Rightarrow> u8" where
  "entry_or_zero m x = (case m x of Some c \<Rightarrow> c | None \<Rightarrow> 0)"

definition paint_state :: "('i \<Rightarrow> nat option) \<Rightarrow> u8 \<Rightarrow> 'i \<Rightarrow> 'i painting \<Rightarrow> 'i painting" where
  "paint_state generation colors x s =
     (let entry = entry_or_zero (paint s) x; combined = entry OR colors
      in if combined \<noteq> entry
         then s\<lparr>paint := (paint s)(x \<mapsto> combined), heap := (generation x, x) # heap s\<rparr>
         else s\<lparr>paint := (paint s)(x \<mapsto> entry)\<rparr>)"

definition heap_pop :: "'a :: linorder list \<Rightarrow> ('a \<times> 'a list) option" where
  "heap_pop q = (if q = [] then None else Some (Max (set q), remove1 (Max (set q)) q))"

text \<open>Of two common ancestors the one of the greater generation is better, then the one with the smaller identifier.\<close>

definition better :: "(nat option \<times> 'i :: linorder) option \<Rightarrow> nat option \<Rightarrow> 'i \<Rightarrow> (nat option \<times> 'i) option" where
  "better best g x =
     (case best of
        Some (bg, bx) \<Rightarrow> if g < bg \<or> (g = bg \<and> bx \<le> x) then best else Some (g, x)
      | None \<Rightarrow> Some (g, x))"

text \<open>Reading the paint of a state that has none would panic.\<close>

datatype 'i search_end = Panicked | Searched "'i MergeBaseSearch"

definition search_result :: "(nat option \<times> 'i) option \<Rightarrow> nat \<Rightarrow> 'i search_end" where
  "search_result best visited = Searched \<lparr>merge_base = map_option snd best, ancestors_visited = visited\<rparr>"

partial_function (option) search_loop ::
  "('i :: linorder \<Rightarrow> nat option) \<Rightarrow> ('i \<Rightarrow> 'i list option) \<Rightarrow> 'i painting \<Rightarrow> (nat option \<times> 'i) option \<Rightarrow> nat \<Rightarrow> 'i search_end option" where
  "search_loop generation parents s best visited =
     (case heap_pop (heap s) of
        None \<Rightarrow> Some (search_result best visited)
      | Some ((g, x), heap') \<Rightarrow>
          if (case best of Some (bg, bx) \<Rightarrow> g < bg | None \<Rightarrow> False) then Some (search_result best visited)
          else case paint s x of
                 None \<Rightarrow> Some Panicked
               | Some colors \<Rightarrow>
                   let already = entry_or_zero (propagated s) x
                   in if colors AND NOT already = 0
                      then search_loop generation parents (s\<lparr>heap := heap', propagated := (propagated s)(x \<mapsto> already)\<rparr>) best visited
                      else let s = s\<lparr>heap := heap', propagated := (propagated s)(x \<mapsto> colors)\<rparr>; visited = visited + 1
                           in if colors = PAINT_BOTH then search_loop generation parents s (better best g x) visited
                              else if best \<noteq> None then search_loop generation parents s best visited
                              else search_loop generation parents
                                     (fold (paint_state generation colors) (case parents x of Some ps \<Rightarrow> ps | None \<Rightarrow> []) s) best visited)"

definition find_merge_base_in_graph ::
  "('i :: linorder \<Rightarrow> nat option) \<Rightarrow> ('i \<Rightarrow> 'i list option) \<Rightarrow> 'i \<Rightarrow> 'i \<Rightarrow> 'i search_end option" where
  "find_merge_base_in_graph generation parents a b =
     search_loop generation parents
       (paint_state generation PAINT_B b
         (paint_state generation PAINT_A a \<lparr>heap = [], paint = Map.empty, propagated = Map.empty\<rparr>)) None 0"

section \<open>Ancestry\<close>

definition parent_edges :: "('i \<Rightarrow> 'i list option) \<Rightarrow> ('i \<times> 'i) set" where
  "parent_edges parents = {(x, p). \<exists>ps. parents x = Some ps \<and> p \<in> set ps}"

text \<open>A state is among its ancestors.\<close>

definition ancestors :: "('i \<Rightarrow> 'i list option) \<Rightarrow> 'i \<Rightarrow> 'i set" where
  "ancestors parents x = {y. (x, y) \<in> (parent_edges parents)\<^sup>*}"

lemma ancestors_self [simp, intro]: "x \<in> ancestors parents x"
  by (simp add: ancestors_def)

lemma ancestors_parent: "y \<in> ancestors parents x \<Longrightarrow> parents y = Some ps \<Longrightarrow> p \<in> set ps \<Longrightarrow> p \<in> ancestors parents x"
  unfolding ancestors_def parent_edges_def by (auto elim: rtrancl.rtrancl_into_rtrancl)

lemma ancestors_trans: "y \<in> ancestors parents x \<Longrightarrow> z \<in> ancestors parents y \<Longrightarrow> z \<in> ancestors parents x"
  unfolding ancestors_def by auto

lemma ancestors_unfold:
  "ancestors parents x = insert x (\<Union>p \<in> (case parents x of Some ps \<Rightarrow> set ps | None \<Rightarrow> {}). ancestors parents p)"
  unfolding ancestors_def
  by (auto simp: parent_edges_def elim: converse_rtranclE intro: converse_rtrancl_into_rtrancl split: option.splits)

text \<open>Generations fall from a state to its parents, all through a finite ancestry.\<close>

definition graded :: "('i \<Rightarrow> nat option) \<Rightarrow> ('i \<Rightarrow> 'i list option) \<Rightarrow> 'i \<Rightarrow> bool" where
  "graded generation parents x \<longleftrightarrow> finite (ancestors parents x)
     \<and> (\<forall>y \<in> ancestors parents x. \<forall>p \<in> (case parents y of Some ps \<Rightarrow> set ps | None \<Rightarrow> {}). generation p < generation y)"

lemma graded_finite: "graded generation parents x \<Longrightarrow> finite (ancestors parents x)"
  by (simp add: graded_def)

lemma graded_less:
  assumes g: "graded generation parents x" and y: "y \<in> ancestors parents x" and z: "z \<in> ancestors parents y"
  shows "z = y \<or> generation z < generation y"
  using z unfolding ancestors_def mem_Collect_eq
proof (induction rule: rtrancl_induct)
  case base
  then show ?case by simp
next
  case (step w v)
  have w: "w \<in> ancestors parents x" using ancestors_trans [OF y] step(1) by (simp add: ancestors_def)
  have "generation v < generation w"
    using step(2) w g by (auto simp: graded_def parent_edges_def split: option.splits)
  then show ?case using step(3) by auto
qed

section \<open>Paint\<close>

definition bits :: "u8 \<Rightarrow> bool set" where
  "bits c = {k. c AND (if k then 1 else 2) \<noteq> 0}"

definition two_bits :: "u8 \<Rightarrow> bool" where
  "two_bits c \<longleftrightarrow> c = 0 \<or> c = 1 \<or> c = 2 \<or> c = 3"

lemma bits_values: "bits 0 = {}" "bits 1 = {True}" "bits 2 = {False}" "bits 3 = {True, False}"
  by (auto simp: bits_def)

lemma paint_values: "PAINT_A = 1" "PAINT_B = 2" "PAINT_BOTH = 3"
  by (simp_all add: PAINT_A_def PAINT_B_def PAINT_BOTH_def)

lemma paint_bits:
  assumes "two_bits c" "two_bits d"
  shows "two_bits (c OR d)" "bits (c OR d) = bits c \<union> bits d" "c OR d = c \<longleftrightarrow> bits d \<subseteq> bits c"
    "c AND NOT d = 0 \<longleftrightarrow> bits c \<subseteq> bits d" "c = PAINT_BOTH \<longleftrightarrow> bits c = UNIV" "c = 0 \<longleftrightarrow> bits c = {}"
  using assms unfolding two_bits_def
  by (elim disjE; simp add: bits_values paint_values; auto simp: bits_values)+

end
