(* ===== verification/Graph_Codec.thy ===== *)
theory Graph_Codec
  imports Oplog_Codec
begin

text \<open>
  The file of the commit graph, \<^verbatim>\<open>src/crates/repo/src/commit_graph_persistence.rs\<close>: its bytes and the caches that keep them.
  The errors of this file carry a message only; they are kept under \<^const>\<open>InvalidObject\<close>.
\<close>

section \<open>Nodes\<close>

record PersistedCommitGraphNode =
  pn_parents :: "StateId list"
  pn_generation :: nat
  pn_tree_hash :: ContentHash
  pn_created_at_secs :: int
  pn_agent_model :: "string option"
  pn_bloom :: "bytes option"

type_synonym LoadedCommitGraph = "StateId \<Rightarrow> PersistedCommitGraphNode option"

definition GRAPH_MAGIC :: string where "GRAPH_MAGIC = ''LMGRAPH'' @ [CHR 0x00]"

definition GRAPH_VERSION :: nat where "GRAPH_VERSION = 2"

definition STATE_ID_BYTES :: nat where "STATE_ID_BYTES = 32"

definition CONTENT_HASH_BYTES :: nat where "CONTENT_HASH_BYTES = 32"

section \<open>Writing\<close>

definition u16_max :: nat where "u16_max = 2 ^ 16 - 1"

definition graph_node_bytes :: "StateId \<Rightarrow> PersistedCommitGraphNode \<Rightarrow> bytes outcome" where
  "graph_node_bytes state_id node =
     (if length (pn_parents node) > u32_max then Inl (InvalidObject ''commit graph node has too many parents'')
      else and_then
        (case pn_agent_model node of
           Some model \<Rightarrow>
             if length model > u16_max then Inl (InvalidObject ''agent model string too long for commit graph'')
             else Inr (le_bytes 2 (length model) @ str_bytes model)
         | None \<Rightarrow> Inr (le_bytes 2 0)) (\<lambda>model.
        Inr (state_id @ le_bytes 8 (pn_generation node) @ le_bytes 4 (length (pn_parents node)) @ concat (pn_parents node)
          @ pn_tree_hash node @ le_bytes_i64 (pn_created_at_secs node) @ model
          @ (case pn_bloom node of Some bloom \<Rightarrow> 1 # bloom | None \<Rightarrow> [0]))))"

definition sorted_nodes :: "LoadedCommitGraph \<Rightarrow> (StateId \<times> PersistedCommitGraphNode) list" where
  "sorted_nodes nodes = map (\<lambda>x. (x, the (nodes x))) (sorted_list_of_set (dom nodes))"

definition serialize_commit_graph :: "LoadedCommitGraph \<Rightarrow> bytes outcome" where
  "serialize_commit_graph nodes =
     (let entries = sorted_nodes nodes
      in and_then (try_map (\<lambda>(x, node). graph_node_bytes x node) entries) (\<lambda>bodies.
         Inr (str_bytes GRAPH_MAGIC @ le_bytes 4 GRAPH_VERSION @ le_bytes 8 (length entries) @ concat bodies)))"

section \<open>Reading\<close>

definition graph_read :: "nat \<Rightarrow> bytes reader" where
  "graph_read n bs offset =
     (case checked_add offset n of
        None \<Rightarrow> Inl (InvalidObject ''commit graph offset overflow'')
      | Some e \<Rightarrow> if e > length bs then Inl (InvalidObject ''commit graph truncated'')
                   else Inr (subslice bs offset e, e))"

fun read_parents :: "nat \<Rightarrow> StateId list reader" where
  "read_parents 0 bs offset = Inr ([], offset)"
| "read_parents (Suc n) bs offset =
     and_then (graph_read STATE_ID_BYTES bs offset) (\<lambda>(parent, offset).
     and_then (read_parents n bs offset) (\<lambda>(parents, offset). Inr (parent # parents, offset)))"

definition read_model :: "nat \<Rightarrow> string option reader" where
  "read_model len bs offset =
     (if len = 0 then Inr (None, offset)
      else and_then (graph_read len bs offset) (\<lambda>(raw, offset).
        case from_utf8 raw of
          None \<Rightarrow> Inl (InvalidObject ''agent model is not valid UTF-8'')
        | Some model \<Rightarrow> Inr (Some model, offset)))"

definition read_bloom :: "nat \<Rightarrow> bytes option reader" where
  "read_bloom present bs offset =
     (if present = 1 then and_then (graph_read 256 bs offset) (\<lambda>(raw, offset). Inr (Some raw, offset)) else Inr (None, offset))"

definition parse_graph_node :: "(StateId \<times> PersistedCommitGraphNode) reader" where
  "parse_graph_node bs offset =
     and_then (graph_read STATE_ID_BYTES bs offset) (\<lambda>(state_id, offset).
     and_then (read_int graph_read 8 bs offset) (\<lambda>(generation, offset).
     and_then (read_int graph_read 4 bs offset) (\<lambda>(parent_count, offset).
     and_then (read_parents parent_count bs offset) (\<lambda>(parents, offset).
     and_then (graph_read CONTENT_HASH_BYTES bs offset) (\<lambda>(tree_hash, offset).
     and_then (read_i64 graph_read bs offset) (\<lambda>(created_at_secs, offset).
     and_then (read_int graph_read 2 bs offset) (\<lambda>(agent_model_len, offset).
     and_then (read_model agent_model_len bs offset) (\<lambda>(agent_model, offset).
     and_then (read_int graph_read 1 bs offset) (\<lambda>(bloom_present, offset).
     and_then (read_bloom bloom_present bs offset) (\<lambda>(bloom, offset).
       Inr ((state_id,
         \<lparr>pn_parents = parents, pn_generation = generation, pn_tree_hash = tree_hash, pn_created_at_secs = created_at_secs,
          pn_agent_model = agent_model, pn_bloom = bloom\<rparr>), offset)))))))))))"

fun parse_graph_nodes :: "nat \<Rightarrow> LoadedCommitGraph \<Rightarrow> LoadedCommitGraph reader" where
  "parse_graph_nodes 0 nodes bs offset = Inr (nodes, offset)"
| "parse_graph_nodes (Suc n) nodes bs offset =
     and_then (parse_graph_node bs offset) (\<lambda>((state_id, node), offset).
     if nodes state_id \<noteq> None then Inl (InvalidObject ''duplicate state id in commit graph'')
     else parse_graph_nodes n (nodes(state_id \<mapsto> node)) bs offset)"

definition parse_commit_graph :: "bytes \<Rightarrow> LoadedCommitGraph outcome" where
  "parse_commit_graph bs =
     and_then (graph_read 8 bs 0) (\<lambda>(magic, offset).
     if magic \<noteq> str_bytes GRAPH_MAGIC then Inl (InvalidObject ''unexpected commit graph magic number'') else
     and_then (read_int graph_read 4 bs offset) (\<lambda>(version, offset).
     if version \<noteq> GRAPH_VERSION then Inl (InvalidObject ''unsupported commit graph version'') else
     and_then (read_int graph_read 8 bs offset) (\<lambda>(node_count, offset).
     and_then (parse_graph_nodes node_count Map.empty bs offset) (\<lambda>(nodes, offset).
     if offset = length bs then Inr nodes else Inl (InvalidObject ''commit graph has trailing data'')))))"

section \<open>Caches\<close>

text \<open>
  What the trait \<^verbatim>\<open>CommitGraphCache\<close> offers, over the state of the cache. The cache in a file is the result of reading the
  file, absent where there is none, and what the next atomic writes will answer.
\<close>

record 'c CommitGraphCache =
  cache_load :: "'c \<Rightarrow> LoadedCommitGraph option outcome"
  cache_save :: "LoadedCommitGraph \<Rightarrow> 'c \<Rightarrow> 'c \<times> unit outcome"

record graph_file =
  graph_bytes :: "bytes option outcome"
  graph_write_fails :: bool

definition load_commit_graph :: "graph_file \<Rightarrow> LoadedCommitGraph option outcome" where
  "load_commit_graph file =
     and_then (graph_bytes file) (\<lambda>bytes.
       case bytes of None \<Rightarrow> Inr None | Some bytes \<Rightarrow> and_then (parse_commit_graph bytes) (\<lambda>nodes. Inr (Some nodes)))"

definition save_commit_graph :: "LoadedCommitGraph \<Rightarrow> graph_file \<Rightarrow> graph_file \<times> unit outcome" where
  "save_commit_graph nodes file =
     (case serialize_commit_graph nodes of
        Inl e \<Rightarrow> (file, Inl e)
      | Inr bytes \<Rightarrow>
          if graph_write_fails file then (file, Inl (IoError ''failed to write commit graph''))
          else (file\<lparr>graph_bytes := Inr (Some bytes)\<rparr>, Inr ()))"

definition FsCommitGraphCache :: "graph_file CommitGraphCache" where
  "FsCommitGraphCache = \<lparr>cache_load = load_commit_graph, cache_save = save_commit_graph\<rparr>"

definition NullCommitGraphCache :: "unit CommitGraphCache" where
  "NullCommitGraphCache = \<lparr>cache_load = \<lambda>_. Inr None, cache_save = \<lambda>_ _. ((), Inr ())\<rparr>"

end
