(* ===== verification/Commit_Graph.thy ===== *)
theory Commit_Graph
  imports Merge_Base Tree_Diff Graph_Codec
begin

text \<open>
  The commit graph index, \<^verbatim>\<open>src/crates/repo/src/commit_graph.rs\<close>: the ancestry of states, loaded on demand from an object
  source and kept in a cache. Of a state the graph reads the parents, the tree, the time and the agent's model.
\<close>

section \<open>States and nodes\<close>

record State =
  st_parents :: "StateId list"
  st_tree :: ContentHash
  st_created_at_secs :: int
  st_agent_model :: "string option"

record CommitGraphNode =
  gn_parents :: "StateId list"
  gn_generation :: nat
  gn_tree_hash :: ContentHash
  gn_created_at_secs :: int
  gn_agent_model :: "string option"
  gn_bloom :: "bytes option"

type_synonym graph_nodes = "StateId \<Rightarrow> CommitGraphNode option"

definition node_generation :: "graph_nodes \<Rightarrow> StateId \<Rightarrow> nat option" where
  "node_generation nodes x = map_option gn_generation (nodes x)"

definition node_parents :: "graph_nodes \<Rightarrow> StateId \<Rightarrow> StateId list option" where
  "node_parents nodes x = map_option gn_parents (nodes x)"

type_synonym CommitGraphStateData = "StateId list \<times> ContentHash \<times> int \<times> string option"

definition is_legacy_unresolved_placeholder :: "CommitGraphNode \<Rightarrow> bool" where
  "is_legacy_unresolved_placeholder node \<longleftrightarrow>
     gn_parents node = [] \<and> gn_tree_hash node = replicate 32 0 \<and> gn_created_at_secs node = 0 \<and> gn_agent_model node = None"

record CachedNodeMetadata =
  cm_tree_hash :: ContentHash
  cm_first_parent :: "StateId option"
  cm_agent_model :: "string option"
  cm_created_at_secs :: int

text \<open>The errors of the graph: a state it needs is not there, or the object source failed.\<close>

datatype GraphError = StateNotFound StateId | SourceError HeddleError

definition source_result :: "'a outcome \<Rightarrow> GraphError + 'a" where
  "source_result r = (case r of Inl e \<Rightarrow> Inl (SourceError e) | Inr x \<Rightarrow> Inr x)"

section \<open>The index\<close>

record ('c, 'z) CommitGraphIndex =
  gi_source :: "StateId \<Rightarrow> ('z State_scheme) option outcome"
  gi_nodes :: graph_nodes
  gi_cache :: "'c CommitGraphCache"
  gi_disk :: 'c
  gi_dirty :: bool

definition into_memory_node :: "PersistedCommitGraphNode \<Rightarrow> CommitGraphNode" where
  "into_memory_node node =
     \<lparr>gn_parents = pn_parents node, gn_generation = pn_generation node, gn_tree_hash = pn_tree_hash node,
      gn_created_at_secs = pn_created_at_secs node, gn_agent_model = pn_agent_model node, gn_bloom = pn_bloom node\<rparr>"

definition into_memory_nodes :: "LoadedCommitGraph \<Rightarrow> graph_nodes" where
  "into_memory_nodes loaded x = map_option into_memory_node (loaded x)"

definition to_persisted_node :: "CommitGraphNode \<Rightarrow> PersistedCommitGraphNode" where
  "to_persisted_node node =
     \<lparr>pn_parents = gn_parents node, pn_generation = gn_generation node, pn_tree_hash = gn_tree_hash node,
      pn_created_at_secs = gn_created_at_secs node, pn_agent_model = gn_agent_model node, pn_bloom = gn_bloom node\<rparr>"

definition with_cache ::
  "(StateId \<Rightarrow> ('z State_scheme) option outcome) \<Rightarrow> 'c CommitGraphCache \<Rightarrow> 'c \<Rightarrow> ('c, 'z) CommitGraphIndex" where
  "with_cache source cache disk =
     (let (nodes, dirty) =
        (case cache_load cache disk of
           Inr (Some loaded) \<Rightarrow>
             let nodes = into_memory_nodes loaded;
                 kept = (\<lambda>x. case nodes x of
                     Some node \<Rightarrow> if is_legacy_unresolved_placeholder node then None else Some node | None \<Rightarrow> None)
             in (kept, card (dom kept) \<noteq> card (dom nodes))
         | Inr None \<Rightarrow> (Map.empty, False)
         | Inl e \<Rightarrow> (Map.empty, True))
      in \<lparr>gi_source = source, gi_nodes = nodes, gi_cache = cache, gi_disk = disk, gi_dirty = dirty\<rparr>)"

definition node_metadata :: "('c, 'z) CommitGraphIndex \<Rightarrow> StateId \<Rightarrow> CachedNodeMetadata option" where
  "node_metadata ix x =
     map_option (\<lambda>node. \<lparr>cm_tree_hash = gn_tree_hash node,
         cm_first_parent = (case gn_parents node of [] \<Rightarrow> None | p # _ \<Rightarrow> Some p),
         cm_agent_model = gn_agent_model node, cm_created_at_secs = gn_created_at_secs node\<rparr>) (gi_nodes ix x)"

definition node_bloom :: "('c, 'z) CommitGraphIndex \<Rightarrow> StateId \<Rightarrow> bytes option" where
  "node_bloom ix x = (case gi_nodes ix x of Some node \<Rightarrow> gn_bloom node | None \<Rightarrow> None)"

definition load_state_data :: "('c, 'z) CommitGraphIndex \<Rightarrow> StateId \<Rightarrow> GraphError + CommitGraphStateData option" where
  "load_state_data ix x =
     and_then (source_result (gi_source ix x)) (\<lambda>s. Inr (map_option
        (\<lambda>s. (st_parents s, st_tree s, st_created_at_secs s, st_agent_model s)) s))"

definition persist_if_dirty :: "('c, 'z) CommitGraphIndex \<Rightarrow> ('c, 'z) CommitGraphIndex" where
  "persist_if_dirty ix =
     (if \<not> gi_dirty ix then ix
      else case cache_save (gi_cache ix) (\<lambda>x. map_option to_persisted_node (gi_nodes ix x)) (gi_disk ix) of
             (disk, Inr _) \<Rightarrow> ix\<lparr>gi_disk := disk, gi_dirty := False\<rparr>
           | (disk, Inl e) \<Rightarrow> ix\<lparr>gi_disk := disk\<rparr>)"

section \<open>Loading the ancestry\<close>

text \<open>The stack holds states to visit, and states whose parents have all been visited.\<close>

definition known_data :: "('c, 'z) CommitGraphIndex \<Rightarrow> StateId \<Rightarrow> GraphError + CommitGraphStateData option" where
  "known_data ix x =
     (case gi_nodes ix x of
        Some node \<Rightarrow> Inr (Some (gn_parents node, gn_tree_hash node, gn_created_at_secs node, gn_agent_model node))
      | None \<Rightarrow> load_state_data ix x)"

definition next_generation :: "nat option list \<Rightarrow> nat" where
  "next_generation gs = (let gs = map the (filter (\<lambda>g. g \<noteq> None) gs) in if gs = [] then 0 else Max (set gs) + 1)"

definition settle_node :: "StateId \<Rightarrow> CommitGraphStateData \<Rightarrow> ('c, 'z) CommitGraphIndex \<Rightarrow> ('c, 'z) CommitGraphIndex" where
  "settle_node x data ix =
     (let (parents, tree_hash, created_at_secs, agent_model) = data;
          previous = gi_nodes ix x;
          bloom = (case previous of
              Some node \<Rightarrow> if gn_parents node = parents \<and> gn_tree_hash node = tree_hash then gn_bloom node else None
            | None \<Rightarrow> None);
          node = \<lparr>gn_parents = parents, gn_generation = next_generation (map (node_generation (gi_nodes ix)) parents),
            gn_tree_hash = tree_hash, gn_created_at_secs = created_at_secs, gn_agent_model = agent_model, gn_bloom = bloom\<rparr>
      in if previous \<noteq> Some node then ix\<lparr>gi_nodes := (gi_nodes ix)(x \<mapsto> node), gi_dirty := True\<rparr> else ix)"

partial_function (option) load_loop ::
  "(StateId \<times> bool) list \<Rightarrow> StateId set \<Rightarrow> (StateId \<Rightarrow> CommitGraphStateData option) \<Rightarrow> ('c, 'z) CommitGraphIndex
    \<Rightarrow> (('c, 'z) CommitGraphIndex \<times> (GraphError + unit)) option" where
  "load_loop stack scheduled pending ix =
     (case stack of
        [] \<Rightarrow> Some (ix, Inr ())
      | (x, expanded) # rest \<Rightarrow>
          if expanded
          then (case pending x of
                  None \<Rightarrow> load_loop rest scheduled pending ix
                | Some data \<Rightarrow> load_loop rest scheduled (pending(x := None)) (settle_node x data ix))
          else if x \<in> scheduled then load_loop rest scheduled pending ix
          else (case known_data ix x of
                  Inl e \<Rightarrow> Some (ix, Inl e)
                | Inr None \<Rightarrow> load_loop rest (insert x scheduled) pending ix
                | Inr (Some data) \<Rightarrow>
                    load_loop (map (\<lambda>p. (p, False)) (fst data) @ (x, True) # rest) (insert x scheduled) (pending(x \<mapsto> data)) ix))"

definition ensure_loaded_in_memory ::
  "StateId \<Rightarrow> ('c, 'z) CommitGraphIndex \<Rightarrow> (('c, 'z) CommitGraphIndex \<times> (GraphError + unit)) option" where
  "ensure_loaded_in_memory x ix = load_loop [(x, False)] {} Map.empty ix"

definition ensure_loaded ::
  "StateId \<Rightarrow> ('c, 'z) CommitGraphIndex \<Rightarrow> (('c, 'z) CommitGraphIndex \<times> (GraphError + unit)) option" where
  "ensure_loaded x ix =
     map_option (\<lambda>(ix, r). case r of Inl e \<Rightarrow> (ix, Inl e) | Inr _ \<Rightarrow> (persist_if_dirty ix, Inr ())) (ensure_loaded_in_memory x ix)"

section \<open>Queries\<close>

partial_function (option) ancestor_loop ::
  "('i \<Rightarrow> nat option) \<Rightarrow> ('i \<Rightarrow> 'i list option) \<Rightarrow> 'i \<Rightarrow> nat \<Rightarrow> 'i list \<Rightarrow> 'i set \<Rightarrow> bool option" where
  "ancestor_loop generation parents target g stack visited =
     (case stack of
        [] \<Rightarrow> Some False
      | x # rest \<Rightarrow>
          if x \<in> visited then ancestor_loop generation parents target g rest visited
          else if x = target then Some True
          else (case parents x of
                  None \<Rightarrow> ancestor_loop generation parents target g rest (insert x visited)
                | Some ps \<Rightarrow>
                    ancestor_loop generation parents target g
                      (rev (filter (\<lambda>p. case generation p of Some h \<Rightarrow> h \<ge> g | None \<Rightarrow> False) ps) @ rest) (insert x visited)))"

text \<open>An operation of the index: the index afterwards and the result; \<open>None\<close> when it does not return.\<close>

definition then_graph ::
  "('s \<times> (GraphError + 'a)) option \<Rightarrow> ('a \<Rightarrow> 's \<Rightarrow> ('s \<times> (GraphError + 'b)) option) \<Rightarrow> ('s \<times> (GraphError + 'b)) option" where
  "then_graph c k =
     (case c of None \<Rightarrow> None | Some (s, Inl e) \<Rightarrow> Some (s, Inl e) | Some (s, Inr x) \<Rightarrow> k x s)"

definition is_ancestor ::
  "StateId \<Rightarrow> StateId \<Rightarrow> ('c, 'z) CommitGraphIndex \<Rightarrow> (('c, 'z) CommitGraphIndex \<times> (GraphError + bool)) option" where
  "is_ancestor ancestor descendant ix =
     (if ancestor = descendant then Some (ix, Inr True)
      else then_graph (ensure_loaded descendant ix) (\<lambda>_ ix.
        case node_generation (gi_nodes ix) ancestor of
          None \<Rightarrow> Some (ix, Inr False)
        | Some g \<Rightarrow>
            map_option (\<lambda>found. (ix, Inr found))
              (ancestor_loop (node_generation (gi_nodes ix)) (node_parents (gi_nodes ix)) ancestor g [descendant] {})))"

text \<open>Panics of the search are the value \<open>None\<close> inside.\<close>

definition find_merge_base ::
  "StateId \<Rightarrow> StateId \<Rightarrow> ('c, 'z) CommitGraphIndex \<Rightarrow> (('c, 'z) CommitGraphIndex \<times> (GraphError + StateId option option)) option" where
  "find_merge_base a b ix =
     then_graph (ensure_loaded a ix) (\<lambda>_ ix. then_graph (ensure_loaded b ix) (\<lambda>_ ix.
       map_option (\<lambda>r. (ix, Inr (case r of Panicked \<Rightarrow> None | Searched search \<Rightarrow> Some (merge_base search))))
         (find_merge_base_in_graph (node_generation (gi_nodes ix)) (node_parents (gi_nodes ix)) a b)))"

end
