(* ===== verification/Merge_Base_Correct.thy ===== *)
theory Merge_Base_Correct
  imports Merge_Base
begin

text \<open>
  The search for a merge base ends, never reads missing paint, and returns the best common ancestor: of the greatest
  generation, and of those the smallest identifier.
\<close>

section \<open>The best common ancestor\<close>

definition common :: "('i \<Rightarrow> 'i list option) \<Rightarrow> 'i \<Rightarrow> 'i \<Rightarrow> 'i set" where
  "common parents a b = ancestors parents a \<inter> ancestors parents b"

definition best_common :: "('i :: linorder \<Rightarrow> nat option) \<Rightarrow> ('i \<Rightarrow> 'i list option) \<Rightarrow> 'i \<Rightarrow> 'i \<Rightarrow> 'i option \<Rightarrow> bool" where
  "best_common generation parents a b r =
     (case r of
        None \<Rightarrow> common parents a b = {}
      | Some m \<Rightarrow> m \<in> common parents a b
          \<and> (\<forall>y \<in> common parents a b. generation y < generation m \<or> (generation y = generation m \<and> m \<le> y)))"

section \<open>The invariant of the search\<close>

abbreviation painted :: "'i painting \<Rightarrow> 'i \<Rightarrow> bool set" where
  "painted s x \<equiv> bits (entry_or_zero (paint s) x)"

abbreviation passed_on :: "'i painting \<Rightarrow> 'i \<Rightarrow> bool set" where
  "passed_on s x \<equiv> bits (entry_or_zero (propagated s) x)"

definition parent_set :: "('i \<Rightarrow> 'i list option) \<Rightarrow> 'i \<Rightarrow> 'i set" where
  "parent_set parents x = (case parents x of Some ps \<Rightarrow> set ps | None \<Rightarrow> {})"

definition painting_ok :: "('i \<Rightarrow> nat option) \<Rightarrow> ('i \<Rightarrow> 'i list option) \<Rightarrow> 'i \<Rightarrow> 'i \<Rightarrow> 'i painting \<Rightarrow> bool" where
  "painting_ok generation parents a b s \<longleftrightarrow>
     (\<forall>x. two_bits (entry_or_zero (paint s) x) \<and> two_bits (entry_or_zero (propagated s) x))
     \<and> (\<forall>x. \<forall>k \<in> painted s x. x \<in> ancestors parents (if k then a else b))
     \<and> (\<forall>x. passed_on s x \<subseteq> painted s x)
     \<and> (\<forall>(g, x) \<in> set (heap s). g = generation x \<and> painted s x \<noteq> {})
     \<and> (\<forall>x. painted s x \<subseteq> passed_on s x \<or> (generation x, x) \<in> set (heap s))"

text \<open>Until a common ancestor is found, all paint that was passed on has reached the parents.\<close>

definition spreading :: "('i \<Rightarrow> 'i list option) \<Rightarrow> 'i \<Rightarrow> 'i \<Rightarrow> 'i painting \<Rightarrow> bool" where
  "spreading parents a b s \<longleftrightarrow>
     (\<forall>z. \<forall>p \<in> parent_set parents z. passed_on s z \<subseteq> painted s p)
     \<and> True \<in> painted s a \<and> False \<in> painted s b \<and> (\<forall>z. passed_on s z \<noteq> UNIV)"

lemma painting_okD:
  assumes "painting_ok generation parents a b s"
  shows "two_bits (entry_or_zero (paint s) x)" "two_bits (entry_or_zero (propagated s) x)"
    "k \<in> painted s x \<Longrightarrow> x \<in> ancestors parents (if k then a else b)"
    "passed_on s x \<subseteq> painted s x"
    "(g, x) \<in> set (heap s) \<Longrightarrow> g = generation x" "(g, x) \<in> set (heap s) \<Longrightarrow> painted s x \<noteq> {}"
    "painted s x \<subseteq> passed_on s x \<or> (generation x, x) \<in> set (heap s)"
  using assms unfolding painting_ok_def by blast+

lemma both_common: "painting_ok generation parents a b s \<Longrightarrow> painted s x = UNIV \<Longrightarrow> x \<in> common parents a b"
  using painting_okD(3) [of generation parents a b s True x] painting_okD(3) [of generation parents a b s False x]
  by (simp add: common_def)

lemma painted_entry: "painted s x \<noteq> {} \<Longrightarrow> paint s x = Some (entry_or_zero (paint s) x)"
  by (auto simp: entry_or_zero_def bits_values split: option.splits)

section \<open>The queue\<close>

lemma heap_pop_None [simp]: "heap_pop q = None \<longleftrightarrow> q = []"
  by (simp add: heap_pop_def)

lemma heap_pop_Some:
  assumes "heap_pop q = Some (m, q')"
  shows "m \<in> set q" "\<And>y. y \<in> set q \<Longrightarrow> y \<le> m" "set q' \<subseteq> set q" "set q \<subseteq> insert m (set q')" "length q' < length q"
proof -
  have q: "q \<noteq> []" "m = Max (set q)" "q' = remove1 m q" using assms by (auto simp: heap_pop_def split: if_splits)
  show m: "m \<in> set q" using q by simp
  show "\<And>y. y \<in> set q \<Longrightarrow> y \<le> m" using q by simp
  show "set q' \<subseteq> set q" using q(3) by (simp add: set_remove1_subset)
  show "set q \<subseteq> insert m (set q')" using q(3) by (metis in_set_remove1 insert_iff subsetI)
  show "length q' < length q" using q m by (simp add: length_remove1 length_pos_if_in_set)
qed

section \<open>Painting\<close>

lemma entry_upd: "entry_or_zero (m(x \<mapsto> c)) y = (if y = x then c else entry_or_zero m y)"
  by (simp add: entry_or_zero_def)

lemma paint_state_effect:
  assumes "two_bits c" "\<And>y. two_bits (entry_or_zero (paint s) y)"
  shows "two_bits (entry_or_zero (paint (paint_state generation c x s)) y)"
    "painted (paint_state generation c x s) y = painted s y \<union> (if y = x then bits c else {})"
    "propagated (paint_state generation c x s) = propagated s"
    "set (heap (paint_state generation c x s)) = set (heap s) \<union> (if bits c \<subseteq> painted s x then {} else {(generation x, x)})"
  using paint_bits [OF assms(2) [of x] assms(1)] assms(2)
  by (auto simp: paint_state_def Let_def entry_upd)

lemma fold_paint_effect:
  assumes "two_bits c" "\<And>y. two_bits (entry_or_zero (paint s) y)"
  shows "two_bits (entry_or_zero (paint (fold (paint_state generation c) ps s)) y)
    \<and> painted (fold (paint_state generation c) ps s) y = painted s y \<union> (if y \<in> set ps then bits c else {})
    \<and> propagated (fold (paint_state generation c) ps s) = propagated s
    \<and> set (heap (fold (paint_state generation c) ps s)) = set (heap s) \<union> {(generation x, x) | x. x \<in> set ps \<and> \<not> bits c \<subseteq> painted s x}"
  using assms(2)
proof (induction ps arbitrary: s)
  case (Cons p ps)
  note e = paint_state_effect [OF assms(1) Cons.prems, where x = p and generation = generation]
  have IH: "two_bits (entry_or_zero (paint (fold (paint_state generation c) ps (paint_state generation c p s))) y)"
    "painted (fold (paint_state generation c) ps (paint_state generation c p s)) y
       = painted s y \<union> (if y = p then bits c else {}) \<union> (if y \<in> set ps then bits c else {})"
    "propagated (fold (paint_state generation c) ps (paint_state generation c p s)) = propagated s"
    "set (heap (fold (paint_state generation c) ps (paint_state generation c p s)))
       = set (heap s) \<union> (if bits c \<subseteq> painted s p then {} else {(generation p, p)})
         \<union> {(generation x, x) | x. x \<in> set ps \<and> \<not> bits c \<subseteq> painted s x \<union> (if x = p then bits c else {})}"
    using Cons.IH [of "paint_state generation c p s"] e by simp_all
  have "(if bits c \<subseteq> painted s p then {} else {(generation p, p)})
         \<union> {(generation x, x) | x. x \<in> set ps \<and> \<not> bits c \<subseteq> painted s x \<union> (if x = p then bits c else {})}
       = {(generation x, x) | x. x \<in> set (p # ps) \<and> \<not> bits c \<subseteq> painted s x}"
    by (auto split: if_splits)
  then show ?case using IH by (auto simp: Un_assoc)
qed simp

section \<open>Spreading\<close>

lemma frontier:
  assumes ok: "painting_ok generation parents a b s" and sp: "spreading parents a b s"
    and y: "y \<in> ancestors parents (if k then a else b)"
  shows "k \<in> painted s y \<or> (\<exists>z. k \<in> painted s z - passed_on s z \<and> y \<in> ancestors parents z)"
  using y unfolding ancestors_def mem_Collect_eq
proof (induction rule: rtrancl_induct)
  case base
  then show ?case using sp by (auto simp: spreading_def)
next
  case (step w v)
  have v: "v \<in> parent_set parents w" using step(2) by (auto simp: parent_edges_def parent_set_def)
  from step(3) show ?case
  proof
    assume w: "k \<in> painted s w"
    show ?thesis
    proof (cases "k \<in> passed_on s w")
      case True
      then show ?thesis using sp v by (auto simp: spreading_def)
    next
      case False
      then show ?thesis using w step(2) by auto
    qed
  next
    assume "\<exists>z. k \<in> painted s z - passed_on s z \<and> (z, w) \<in> (parent_edges parents)\<^sup>*"
    then show ?thesis using step(2) by (meson rtrancl.rtrancl_into_rtrancl)
  qed
qed

lemma pending_queued:
  "painting_ok generation parents a b s \<Longrightarrow> k \<in> painted s z - passed_on s z \<Longrightarrow> (generation z, z) \<in> set (heap s)"
  using painting_okD(7) [of generation parents a b s z] by blast

lemma common_below:
  assumes ok: "painting_ok generation parents a b s" and sp: "spreading parents a b s"
    and graded: "graded generation parents a" "graded generation parents b"
    and top: "\<And>g z. (g, z) \<in> set (heap s) \<Longrightarrow> g \<le> h" and y: "y \<in> common parents a b"
  shows "generation y \<le> h \<and> (h \<le> generation y \<longrightarrow> painted s y = UNIV \<and> (generation y, y) \<in> set (heap s))"
proof -
  have side: "k \<in> painted s y \<or> generation y \<le> h" "h \<le> generation y \<longrightarrow> k \<in> painted s y" for k
  proof -
    have yk: "y \<in> ancestors parents (if k then a else b)" using y by (simp add: common_def)
    have "k \<in> painted s y \<or> generation y \<le> h \<and> (h \<le> generation y \<longrightarrow> k \<in> painted s y)"
    proof (cases "k \<in> painted s y")
      case False
      then obtain z where z: "k \<in> painted s z - passed_on s z" "y \<in> ancestors parents z"
        using frontier [OF ok sp yk] by auto
      have zh: "generation z \<le> h" using top [OF pending_queued [OF ok z(1)]] .
      have "z \<in> ancestors parents (if k then a else b)" using painting_okD(3) [OF ok] z(1) by simp
      then have "y = z \<or> generation y < generation z"
        using graded_less [OF _ _ z(2)] graded by (cases k) auto
      then show ?thesis using zh z(1) False by auto
    qed simp
    then show "k \<in> painted s y \<or> generation y \<le> h" "h \<le> generation y \<longrightarrow> k \<in> painted s y" by auto
  qed
  have queued: "painted s y = UNIV \<Longrightarrow> (generation y, y) \<in> set (heap s)"
    using painting_okD(7) [OF ok, of y] sp by (auto simp: spreading_def)
  have le: "generation y \<le> h"
  proof (cases "painted s y = UNIV")
    case True
    then show ?thesis using queued top by blast
  next
    case False
    then obtain k where "k \<notin> painted s y" by auto
    then show ?thesis using side(1) by blast
  qed
  moreover have "h \<le> generation y \<longrightarrow> painted s y = UNIV" using side(2) by auto
  ultimately show ?thesis using queued by blast
qed

lemma nothing_common:
  assumes ok: "painting_ok generation parents a b s" and sp: "spreading parents a b s" and e: "heap s = []"
  shows "common parents a b = {}"
proof (rule ccontr)
  assume "common parents a b \<noteq> {}"
  then obtain y where y: "y \<in> common parents a b" by auto
  have none: "painted s z \<subseteq> passed_on s z" for z using painting_okD(7) [OF ok, of z] e by simp
  have "k \<in> painted s y" for k
    using frontier [OF ok sp, of y k] y none by (cases k) (auto simp: common_def)
  then have "passed_on s y = UNIV" using none [of y] by auto
  then show False using sp by (simp add: spreading_def)
qed

text \<open>A pop that finds nothing new, and one that passes paint on.\<close>

lemma pop_ok:
  assumes ok: "painting_ok generation parents a b s" and pop: "heap_pop (heap s) = Some ((g, x), q)"
    and c: "c = entry_or_zero (paint s) x \<or> c = entry_or_zero (propagated s) x \<and> painted s x \<subseteq> passed_on s x"
  shows "painting_ok generation parents a b (s\<lparr>heap := q, propagated := (propagated s)(x \<mapsto> c)\<rparr>)" (is "painting_ok _ _ _ _ ?s")
proof -
  note q = heap_pop_Some [OF pop]
  have p: "passed_on ?s y = (if y = x then painted s x else passed_on s y)" for y
    using c painting_okD(4) [OF ok, of x] by (auto simp: entry_upd)
  show ?thesis unfolding painting_ok_def
  proof (intro conjI allI ballI)
    fix y
    show "two_bits (entry_or_zero (paint ?s) y)" using painting_okD(1) [OF ok] by simp
    show "two_bits (entry_or_zero (propagated ?s) y)" using painting_okD(1,2) [OF ok] c by (auto simp: entry_upd)
    show "passed_on ?s y \<subseteq> painted ?s y" unfolding p using painting_okD(4) [OF ok] by simp
    show "painted ?s y \<subseteq> passed_on ?s y \<or> (generation y, y) \<in> set (heap ?s)"
      unfolding p using painting_okD(7) [OF ok, of y] q(4) by auto
  next
    fix y k assume "k \<in> painted ?s y"
    then show "y \<in> ancestors parents (if k then a else b)" using painting_okD(3) [OF ok, of k y] by simp
  next
    fix e assume "e \<in> set (heap ?s)"
    then have "e \<in> set (heap s)" using q(3) by auto
    then show "case e of (g, z) \<Rightarrow> g = generation z \<and> painted ?s z \<noteq> {}"
      using painting_okD(5,6) [OF ok] by (cases e) auto
  qed
qed

lemma spread_ok:
  assumes ok: "painting_ok generation parents a b s" and c: "two_bits c" "bits c \<subseteq> painted s x"
  shows "painting_ok generation parents a b (fold (paint_state generation c) (case parents x of Some ps \<Rightarrow> ps | None \<Rightarrow> []) s)"
    (is "painting_ok _ _ _ _ (fold _ ?ps s)")
proof -
  note e = fold_paint_effect [OF c(1) painting_okD(1) [OF ok], of generation ?ps, THEN conjunct1]
    fold_paint_effect [OF c(1) painting_okD(1) [OF ok], of generation ?ps, THEN conjunct2, THEN conjunct1]
    fold_paint_effect [OF c(1) painting_okD(1) [OF ok], of generation ?ps, THEN conjunct2, THEN conjunct2, THEN conjunct1]
    fold_paint_effect [OF c(1) painting_okD(1) [OF ok], of generation ?ps, THEN conjunct2, THEN conjunct2, THEN conjunct2]
  show ?thesis unfolding painting_ok_def e(3)
  proof (intro conjI allI ballI)
    fix y
    show "two_bits (entry_or_zero (paint (fold (paint_state generation c) ?ps s)) y)" by (rule e(1))
    show "two_bits (entry_or_zero (propagated s) y)" using painting_okD(2) [OF ok] .
    show "passed_on s y \<subseteq> painted (fold (paint_state generation c) ?ps s) y"
      unfolding e(2) using painting_okD(4) [OF ok, of y] by (rule le_supI1)
    show "painted (fold (paint_state generation c) ?ps s) y \<subseteq> passed_on s y
        \<or> (generation y, y) \<in> set (heap (fold (paint_state generation c) ?ps s))"
    proof (cases "y \<in> set ?ps \<and> \<not> bits c \<subseteq> painted s y")
      case True
      then show ?thesis unfolding e(4) by blast
    next
      case False
      then have "painted (fold (paint_state generation c) ?ps s) y = painted s y" unfolding e(2) by (metis Un_absorb2 sup_bot_right)
      then show ?thesis using painting_okD(7) [OF ok, of y] unfolding e(4) by blast
    qed
  next
    fix y k assume "k \<in> painted (fold (paint_state generation c) ?ps s) y"
    then have k: "k \<in> painted s y \<or> (y \<in> set ?ps \<and> k \<in> bits c)" unfolding e(2) by (metis Un_iff empty_iff)
    consider "k \<in> painted s y" | "y \<in> set ?ps" "k \<in> painted s x" using k c(2) by blast
    then show "y \<in> ancestors parents (if k then a else b)"
    proof cases
      case 2
      then obtain ps where "parents x = Some ps" "y \<in> set ps" by (cases "parents x") auto
      then show ?thesis using ancestors_parent painting_okD(3) [OF ok 2(2)] by metis
    qed (rule painting_okD(3) [OF ok])
  next
    fix z assume z: "z \<in> set (heap (fold (paint_state generation c) ?ps s))"
    show "case z of (g, w) \<Rightarrow> g = generation w \<and> painted (fold (paint_state generation c) ?ps s) w \<noteq> {}"
    proof (cases "z \<in> set (heap s)")
      case True
      then obtain g w where w: "z = (g, w)" "g = generation w" "painted s w \<noteq> {}"
        using painting_okD(5,6) [OF ok] by (metis prod.exhaust)
      then have "painted (fold (paint_state generation c) ?ps s) w \<noteq> {}" unfolding e(2) by blast
      then show ?thesis using w by simp
    next
      case False
      then obtain w where w: "z = (generation w, w)" "w \<in> set ?ps" "\<not> bits c \<subseteq> painted s w" using z unfolding e(4) by blast
      have "painted (fold (paint_state generation c) ?ps s) w = painted s w \<union> bits c"
        using e(2) [of w] w(2) by (simp only: if_True)
      moreover have "bits c \<noteq> {}" using w(3) by blast
      ultimately show ?thesis using w(1) by simp
    qed
  qed
qed

section \<open>One turn of the loop\<close>

lemma turn_empty: "heap s = [] \<Longrightarrow> search_loop generation parents s best v = Some (search_result best v)"
  by (subst search_loop.simps) (simp add: heap_pop_def)

lemma turn_below:
  "heap_pop (heap s) = Some ((g, x), q) \<Longrightarrow> g < bg \<Longrightarrow>
   search_loop generation parents s (Some (bg, bx)) v = Some (search_result (Some (bg, bx)) v)"
  by (subst search_loop.simps) simp

lemma turn_idle:
  assumes "heap_pop (heap s) = Some ((g, x), q)" "\<And>bg bx. best = Some (bg, bx) \<Longrightarrow> \<not> g < bg" "paint s x = Some c"
    "c AND NOT (entry_or_zero (propagated s) x) = 0"
  shows "search_loop generation parents s best v
    = search_loop generation parents (s\<lparr>heap := q, propagated := (propagated s)(x \<mapsto> entry_or_zero (propagated s) x)\<rparr>) best v"
  using assms by (subst search_loop.simps) (auto split: option.splits)

lemma turn_both:
  assumes "heap_pop (heap s) = Some ((g, x), q)" "\<And>bg bx. best = Some (bg, bx) \<Longrightarrow> \<not> g < bg" "paint s x = Some PAINT_BOTH"
    "PAINT_BOTH AND NOT (entry_or_zero (propagated s) x) \<noteq> 0"
  shows "search_loop generation parents s best v
    = search_loop generation parents (s\<lparr>heap := q, propagated := (propagated s)(x \<mapsto> PAINT_BOTH)\<rparr>) (better best g x) (v + 1)"
  using assms by (subst search_loop.simps) (auto split: option.splits)

lemma turn_single:
  assumes "heap_pop (heap s) = Some ((g, x), q)" "\<not> g < bg" "paint s x = Some c"
    "c AND NOT (entry_or_zero (propagated s) x) \<noteq> 0" "c \<noteq> PAINT_BOTH"
  shows "search_loop generation parents s (Some (bg, bx)) v
    = search_loop generation parents (s\<lparr>heap := q, propagated := (propagated s)(x \<mapsto> c)\<rparr>) (Some (bg, bx)) (v + 1)"
  using assms by (subst search_loop.simps) simp

lemma turn_spread:
  assumes "heap_pop (heap s) = Some ((g, x), q)" "paint s x = Some c"
    "c AND NOT (entry_or_zero (propagated s) x) \<noteq> 0" "c \<noteq> PAINT_BOTH"
  shows "search_loop generation parents s None v
    = search_loop generation parents (fold (paint_state generation c) (case parents x of Some ps \<Rightarrow> ps | None \<Rightarrow> [])
        (s\<lparr>heap := q, propagated := (propagated s)(x \<mapsto> c)\<rparr>)) None (v + 1)"
  using assms by (subst search_loop.simps) simp

section \<open>The search ends with the best common ancestor\<close>

definition missing :: "'i set \<Rightarrow> 'i painting \<Rightarrow> ('i \<times> bool) set" where
  "missing U s = {(x, k). x \<in> U \<and> k \<notin> passed_on s x}"

lemma finite_missing: "finite U \<Longrightarrow> finite (missing U s)"
  by (rule finite_subset [of _ "U \<times> UNIV"]) (auto simp: missing_def)

text \<open>Once a common ancestor of generation \<open>g\<close> is known, what is left of \<open>g\<close> is drained.\<close>

definition considered :: "('i :: linorder \<Rightarrow> nat option) \<Rightarrow> nat option \<Rightarrow> 'i \<Rightarrow> 'i painting \<Rightarrow> 'i \<Rightarrow> bool" where
  "considered generation g m s y \<longleftrightarrow> generation y < g
     \<or> (generation y = g \<and> (m \<le> y \<or> (painted s y = UNIV \<and> passed_on s y \<noteq> UNIV \<and> (g, y) \<in> set (heap s))))"

definition draining :: "('i :: linorder \<Rightarrow> nat option) \<Rightarrow> ('i \<Rightarrow> 'i list option) \<Rightarrow> 'i \<Rightarrow> 'i \<Rightarrow> nat option \<Rightarrow> 'i \<Rightarrow> 'i painting \<Rightarrow> bool" where
  "draining generation parents a b g m s \<longleftrightarrow>
     painting_ok generation parents a b s \<and> m \<in> common parents a b \<and> generation m = g
     \<and> (\<forall>y \<in> common parents a b. considered generation g m s y)
     \<and> (\<forall>(h, y) \<in> set (heap s). h \<le> g)"

lemma drained_best:
  assumes "draining generation parents a b g m s" "\<And>y. (g, y) \<notin> set (heap s)"
  shows "best_common generation parents a b (Some m)"
  using assms by (auto simp: draining_def best_common_def considered_def)

lemma drain_ends:
  assumes "draining generation parents a b g m s"
  shows "\<exists>r. search_loop generation parents s (Some (g, m)) v = Some (Searched r) \<and> best_common generation parents a b (merge_base r)"
  using assms
proof (induction "length (heap s)" arbitrary: s m v rule: less_induct)
  case (less s)
  have ok: "painting_ok generation parents a b s" using less.prems by (simp add: draining_def)
  show ?case
  proof (cases "heap_pop (heap s)")
    case None
    then have "best_common generation parents a b (Some m)" using drained_best [OF less.prems] by simp
    then show ?thesis using None by (simp add: turn_empty search_result_def)
  next
    case (Some e)
    then obtain h x q where pop: "heap_pop (heap s) = Some ((h, x), q)" by (cases e) auto
    note q = heap_pop_Some [OF pop]
    have h: "h \<le> g" "h = generation x" using less.prems q(1) painting_okD(5) [OF ok] by (auto simp: draining_def)
    show ?thesis
    proof (cases "h < g")
      case True
      then have "(g, y) \<notin> set (heap s)" for y using q(2) [of "(g, y)"] by auto
      then show ?thesis using drained_best [OF less.prems] True pop by (simp add: turn_below search_result_def)
    next
      case False
      then have hg: "h = g" using h by simp
      define colors where "colors = entry_or_zero (paint s) x"
      have px: "paint s x = Some colors" using painted_entry painting_okD(6) [OF ok q(1)] by (metis colors_def)
      note tb = paint_bits [OF painting_okD(1) [OF ok, of x] painting_okD(2) [OF ok, of x]]
      have shrink: "length q < length (heap s)" using q(5) .
      let ?idle = "s\<lparr>heap := q, propagated := (propagated s)(x \<mapsto> entry_or_zero (propagated s) x)\<rparr>"
      let ?pass = "s\<lparr>heap := q, propagated := (propagated s)(x \<mapsto> colors)\<rparr>"
      have low: "\<forall>(h, y) \<in> set q. h \<le> g" using less.prems q(3) by (auto simp: draining_def)
      have rest: "(g, y) \<in> set q" if "(g, y) \<in> set (heap s)" "y \<noteq> x" for y using q(4) that by auto
      show ?thesis
      proof (cases "bits colors \<subseteq> passed_on s x")
        case True
        have "draining generation parents a b g m ?idle"
          unfolding draining_def
        proof (intro conjI)
          show "painting_ok generation parents a b ?idle" using pop_ok [OF ok pop] True colors_def by blast
          show "\<forall>y \<in> common parents a b. considered generation g m ?idle y"
          proof
            fix y assume "y \<in> common parents a b"
            then have "considered generation g m s y" using less.prems by (simp add: draining_def)
            then show "considered generation g m ?idle y"
              using True rest [of y] by (cases "y = x") (auto simp: considered_def entry_upd colors_def)
          qed
        qed (use less.prems low in \<open>auto simp: draining_def\<close>)
        from less.hyps [OF _ this, of v] show ?thesis
          using turn_idle [OF pop _ px, of "Some (g, m)"] True False tb(4) shrink by (simp add: colors_def)
      next
        case fresh: False
        have pass: "painting_ok generation parents a b ?pass" using pop_ok [OF ok pop] colors_def by blast
        show ?thesis
        proof (cases "colors = PAINT_BOTH")
          case True
          then have both: "painted s x = UNIV" using tb(5) colors_def by simp
          have x: "x \<in> common parents a b" by (rule both_common [OF ok both])
          define m' where "m' = (if m \<le> x then m else x)"
          have better: "better (Some (g, m)) h x = Some (g, m')" using hg by (simp add: better_def m'_def)
          have "draining generation parents a b g m' ?pass"
            unfolding draining_def
          proof (intro conjI)
            show "\<forall>y \<in> common parents a b. considered generation g m' ?pass y"
            proof
              fix y assume "y \<in> common parents a b"
              then have "considered generation g m s y" using less.prems by (simp add: draining_def)
              then show "considered generation g m' ?pass y"
                using rest [of y] by (cases "y = x") (auto simp: considered_def entry_upd m'_def)
            qed
            show "m' \<in> common parents a b" "generation m' = g" using less.prems x h hg by (auto simp: draining_def m'_def)
          qed (use pass low in auto)
          from less.hyps [OF _ this, of "v + 1"] show ?thesis
            using turn_both [OF pop, of "Some (g, m)" generation parents v] px fresh False tb(4) shrink True better by (simp add: colors_def)
        next
          case single: False
          have notboth: "painted s x \<noteq> UNIV" using single tb(5) colors_def by simp
          have "draining generation parents a b g m ?pass"
            unfolding draining_def
          proof (intro conjI)
            show "\<forall>y \<in> common parents a b. considered generation g m ?pass y"
            proof
              fix y assume "y \<in> common parents a b"
              then have "considered generation g m s y" using less.prems by (simp add: draining_def)
              then show "considered generation g m ?pass y"
                using rest [of y] notboth by (cases "y = x") (auto simp: considered_def entry_upd)
            qed
          qed (use less.prems pass low in \<open>auto simp: draining_def\<close>)
          from less.hyps [OF _ this, of "v + 1"] show ?thesis
            using turn_single [OF pop False px _ single] fresh tb(4) shrink by (simp add: colors_def)
        qed
      qed
    qed
  qed
qed

lemma missing_shrinks:
  assumes U: "finite U" "x \<in> U" and k: "k \<in> passed_on s' x" "k \<notin> passed_on s x"
    and m: "\<And>y. passed_on s y \<subseteq> passed_on s' y"
  shows "card (missing U s') < card (missing U s)"
proof (rule psubset_card_mono [OF finite_missing [OF U(1)]])
  have "(x, k) \<in> missing U s" "(x, k) \<notin> missing U s'" using U k by (auto simp: missing_def)
  moreover have "missing U s' \<subseteq> missing U s" using m by (auto simp: missing_def)
  ultimately show "missing U s' \<subset> missing U s" by blast
qed

lemma search_ends:
  assumes graded: "graded generation parents a" "graded generation parents b"
    and ok: "painting_ok generation parents a b s" and sp: "spreading parents a b s"
  shows "\<exists>r. search_loop generation parents s None v = Some (Searched r) \<and> best_common generation parents a b (merge_base r)"
  using ok sp
proof (induction "(card (missing (ancestors parents a \<union> ancestors parents b) s), length (heap s))" arbitrary: s v
    rule: wf_induct_rule [OF wf_lex_prod [OF wf_less wf_less]])
  case (1 s)
  note ok = "1.prems"(1) and sp = "1.prems"(2)
  let ?U = "ancestors parents a \<union> ancestors parents b"
  have U: "finite ?U" using graded graded_finite by auto
  show ?case
  proof (cases "heap_pop (heap s)")
    case None
    then show ?thesis using nothing_common [OF ok sp] by (simp add: turn_empty search_result_def best_common_def)
  next
    case (Some e)
    then obtain g x q where pop: "heap_pop (heap s) = Some ((g, x), q)" by (cases e) auto
    note q = heap_pop_Some [OF pop]
    have g: "g = generation x" using painting_okD(5) [OF ok q(1)] .
    define colors where "colors = entry_or_zero (paint s) x"
    have px: "paint s x = Some colors" using painted_entry painting_okD(6) [OF ok q(1)] by (metis colors_def)
    note tb = paint_bits [OF painting_okD(1) [OF ok, of x] painting_okD(2) [OF ok, of x]]
    let ?idle = "s\<lparr>heap := q, propagated := (propagated s)(x \<mapsto> entry_or_zero (propagated s) x)\<rparr>"
    let ?pass = "s\<lparr>heap := q, propagated := (propagated s)(x \<mapsto> colors)\<rparr>"
    show ?thesis
    proof (cases "bits colors \<subseteq> passed_on s x")
      case True
      have same: "passed_on ?idle y = passed_on s y" for y by (simp add: entry_upd)
      have "painting_ok generation parents a b ?idle" using pop_ok [OF ok pop] True colors_def by blast
      moreover have "spreading parents a b ?idle" using sp unfolding spreading_def same by simp
      moreover have "missing ?U ?idle = missing ?U s" unfolding missing_def same ..
      ultimately have "\<exists>r. search_loop generation parents ?idle None v = Some (Searched r) \<and> best_common generation parents a b (merge_base r)"
        using "1.hyps" [of ?idle v] q(5) by simp
      then show ?thesis using turn_idle [OF pop _ px, of None] True tb(4) by (simp add: colors_def)
    next
      case fresh: False
      have pass: "painting_ok generation parents a b ?pass" using pop_ok [OF ok pop] colors_def by blast
      show ?thesis
      proof (cases "colors = PAINT_BOTH")
        case True
        then have both: "painted s x = UNIV" using tb(5) colors_def by simp
        have top: "h \<le> g" if "(h, z) \<in> set (heap s)" for h z using q(2) [OF that] by (auto simp: less_eq_prod_def)
        have "draining generation parents a b g x ?pass"
          unfolding draining_def
        proof (intro conjI)
          show "\<forall>y \<in> common parents a b. considered generation g x ?pass y"
          proof
            fix y assume y: "y \<in> common parents a b"
            have below: "generation y \<le> g" and level: "g \<le> generation y \<Longrightarrow> painted s y = UNIV \<and> (generation y, y) \<in> set (heap s)"
              using common_below [where h = g, OF ok sp graded _ y] top by blast+
            show "considered generation g x ?pass y"
            proof (cases "generation y < g \<or> y = x")
              case True
              then show ?thesis using g by (auto simp: considered_def)
            next
              case False
              then have eq: "generation y = g" using below by simp
              have "passed_on s y \<noteq> UNIV" using sp by (simp add: spreading_def)
              then show ?thesis using level eq False q(4) by (auto simp: considered_def entry_upd)
            qed
          qed
          show "x \<in> common parents a b" by (rule both_common [OF ok both])
          show "\<forall>(h, y) \<in> set (heap ?pass). h \<le> g" using top q(3) by auto
        qed (use pass g in auto)
        from drain_ends [OF this, of "v + 1"] show ?thesis
          using turn_both [OF pop, of None generation parents v] px fresh tb(4) True by (simp add: colors_def better_def)
      next
        case single: False
        let ?ps = "case parents x of Some ps \<Rightarrow> ps | None \<Rightarrow> []"
        let ?next = "fold (paint_state generation colors) ?ps ?pass"
        have two: "two_bits colors" using painting_okD(1) [OF ok] colors_def by simp
        have cols: "bits colors \<subseteq> painted ?pass x" by (simp add: colors_def)
        have ps: "set ?ps = parent_set parents x" by (simp add: parent_set_def split: option.splits)
        note e = fold_paint_effect [OF two painting_okD(1) [OF pass], of generation ?ps]
        have painted: "painted ?next y = painted s y \<union> (if y \<in> parent_set parents x then bits colors else {})" for y
          using e [of y] unfolding ps by simp
        have passed: "passed_on ?next y = (if y = x then bits colors else passed_on s y)" for y
          using e [of y] by (simp add: entry_upd)
        have ok': "painting_ok generation parents a b ?next" by (rule spread_ok [OF pass two cols])
        have notboth: "bits colors \<noteq> UNIV" using single tb(5) colors_def by simp
        have sp': "spreading parents a b ?next"
          unfolding spreading_def
        proof (intro conjI allI ballI)
          fix z p assume "p \<in> parent_set parents z"
          then show "passed_on ?next z \<subseteq> painted ?next p"
            using sp unfolding passed painted by (auto simp: spreading_def)
        next
          fix z show "passed_on ?next z \<noteq> UNIV" using sp notboth unfolding passed by (simp add: spreading_def)
        qed (use sp in \<open>unfold painted, auto simp: spreading_def\<close>)
        obtain k where k: "k \<in> bits colors" "k \<notin> passed_on s x" using fresh by blast
        have x: "x \<in> ?U" using painting_okD(3) [OF ok, of k x] k(1) colors_def by (cases k) auto
        have "passed_on s x \<subseteq> bits colors" using painting_okD(4) [OF ok, of x] colors_def by simp
        then have grow: "passed_on s y \<subseteq> passed_on ?next y" for y unfolding passed by simp
        have "k \<in> passed_on ?next x" unfolding passed using k(1) by simp
        then have "card (missing ?U ?next) < card (missing ?U s)" by (rule missing_shrinks [OF U x _ k(2) grow])
        then have "\<exists>r. search_loop generation parents ?next None (v + 1) = Some (Searched r)
            \<and> best_common generation parents a b (merge_base r)"
          using "1.hyps" [of ?next "v + 1"] ok' sp' by simp
        then show ?thesis using turn_spread [OF pop px _ single] fresh tb(4) by (simp add: colors_def)
      qed
    qed
  qed
qed

lemma start_ok:
  fixes a b :: "'i :: linorder"
  assumes s_def: "s = paint_state generation PAINT_B b (paint_state generation PAINT_A a
    \<lparr>heap = [], paint = Map.empty, propagated = Map.empty\<rparr>)"
  shows "painting_ok generation parents a b s" "spreading parents a b s"
  by (auto simp: s_def painting_ok_def spreading_def paint_state_def Let_def entry_or_zero_def two_bits_def bits_values paint_values
      split: if_splits)

theorem merge_base_is_best:
  assumes "graded generation parents a" "graded generation parents b"
  shows "\<exists>r. find_merge_base_in_graph generation parents a b = Some (Searched r)
    \<and> best_common generation parents a b (merge_base r)"
  unfolding find_merge_base_in_graph_def by (rule search_ends [OF assms start_ok [OF refl]])

end
