(* ===== verification/Graph_Codec_Correct.thy ===== *)
theory Graph_Codec_Correct
  imports Graph_Codec Oplog_Codec_Correct
begin

text \<open>
  The file of the commit graph is read back as it was written, up to an empty model name, which is read back as none; a cache
  that saved a graph loads that graph or nothing.
\<close>

section \<open>Nodes\<close>

abbreviation graph_cut :: HeddleError where
  "graph_cut \<equiv> InvalidObject ''commit graph truncated''"

lemma graph_read_ok: "reader_ok graph_cut graph_read"
  unfolding reader_ok_def
proof (intro allI impI codecI)
  fix b bs :: bytes and off rest assume a: "length b \<le> u32_max" "off \<le> length bs" "length bs < 2 ^ 63" "drop off bs = b @ rest"
  have "length bs = off + length b + length rest" by (rule drop_lengths [OF a(4,2)])
  then show "graph_read (length b) bs off = Inr (b, off + length b)"
    using a(3) subslice_front [OF a(4)] by (simp add: graph_read_def checked_add_def usize_max_def)
next
  fix b bs :: bytes and off n
  assume a: "length b \<le> u32_max" "off \<le> length bs" "length bs < 2 ^ 63" "n < length b" "drop off bs = take n b"
  have "length bs = off + n" using arg_cong [OF a(5), of length] a(2,4) by simp
  moreover have "off + length b \<le> usize_max" using a(1-3) by (simp add: u32_max_def usize_max_def)
  ultimately show "graph_read (length b) bs off = Inl graph_cut"
    using a(4) by (simp add: graph_read_def checked_add_def)
qed

definition graph_node_fits :: "StateId \<Rightarrow> PersistedCommitGraphNode \<Rightarrow> bool" where
  "graph_node_fits x node \<longleftrightarrow> length x = 32 \<and> pn_generation node < 2 ^ 64 \<and> length (pn_parents node) < 2 ^ 32
     \<and> (\<forall>p \<in> set (pn_parents node). length p = 32) \<and> length (pn_tree_hash node) = 32
     \<and> - (2 ^ 63) \<le> pn_created_at_secs node \<and> pn_created_at_secs node < 2 ^ 63
     \<and> (\<forall>m. pn_agent_model node = Some m \<longrightarrow> length m < 2 ^ 16 \<and> is_utf8 m)
     \<and> (\<forall>b. pn_bloom node = Some b \<longrightarrow> length b = 256)"

text \<open>What is read back for a node: an empty model name is lost.\<close>

definition reread_node :: "PersistedCommitGraphNode \<Rightarrow> PersistedCommitGraphNode" where
  "reread_node node = node\<lparr>pn_agent_model := (if pn_agent_model node = Some [] then None else pn_agent_model node)\<rparr>"

lemma codec_parents:
  "\<forall>p \<in> set ps. length p = 32 \<Longrightarrow> codec graph_cut (read_parents (length ps)) ps (concat ps)"
proof (induction ps)
  case Nil
  then show ?case by (simp add: codec_return)
next
  case (Cons p ps)
  have p: "codec graph_cut (graph_read STATE_ID_BYTES) p p"
    using graph_read_ok by (rule codec_read) (use Cons.prems in \<open>simp_all add: STATE_ID_BYTES_def u32_max_def\<close>)
  have rest: "codec graph_cut (\<lambda>bs off. and_then (read_parents (length ps) bs off) (\<lambda>(parents, off). Inr (p # parents, off)))
      (p # ps) (concat ps)"
    by (rule codec_map) (use Cons in simp)
  show ?case
    using codec_bind [OF p, where g = "\<lambda>p bs off. and_then (read_parents (length ps) bs off) (\<lambda>(parents, off). Inr (p # parents, off))", OF rest]
    by simp
qed

lemma codec_model:
  assumes "length m < 2 ^ 16" "is_utf8 m"
  shows "codec graph_cut (read_model (length m)) (if m = [] then None else Some m) (str_bytes m)"
proof (cases "m = []")
  case True
  then show ?thesis by (simp add: read_model_def [abs_def] codec_return)
next
  case False
  have r: "codec graph_cut (graph_read (length m)) (str_bytes m) (str_bytes m)"
    using graph_read_ok by (rule codec_read) (use assms(1) in \<open>simp_all add: u32_max_def\<close>)
  show ?thesis
    using codec_bind [OF r, of "\<lambda>raw bs off. case from_utf8 raw of None \<Rightarrow> Inl (InvalidObject ''agent model is not valid UTF-8'')
        | Some model \<Rightarrow> Inr (Some model, off)" "Some m" "[]"] False assms(2)
    by (simp add: read_model_def [abs_def] from_utf8_str_bytes codec_return)
qed

lemma codec_bloom:
  assumes "length b = 256"
  shows "codec graph_cut (read_bloom 1) (Some b) b"
proof -
  have "codec graph_cut (graph_read 256) b b"
    using graph_read_ok by (rule codec_read) (use assms in \<open>simp_all add: u32_max_def\<close>)
  from codec_map [OF this, of Some] show ?thesis by (simp add: read_bloom_def [abs_def])
qed

lemma codec_no_bloom: "codec graph_cut (read_bloom 0) None []"
  by (simp add: read_bloom_def [abs_def] codec_return)

definition bloom_flag :: "PersistedCommitGraphNode \<Rightarrow> nat" where
  "bloom_flag node = (if pn_bloom node = None then 0 else 1)"

definition model_text :: "PersistedCommitGraphNode \<Rightarrow> string" where
  "model_text node = (case pn_agent_model node of Some m \<Rightarrow> m | None \<Rightarrow> [])"

lemma flag_byte: "le_bytes 1 (bloom_flag node) = (case pn_bloom node of Some b \<Rightarrow> [1] | None \<Rightarrow> [0])"
  by (simp add: bloom_flag_def le_bytes.simps One_nat_def split: option.splits)

lemma graph_node_written:
  assumes "graph_node_fits x node"
  shows "graph_node_bytes x node = Inr (x @ le_bytes 8 (pn_generation node) @ le_bytes 4 (length (pn_parents node))
    @ concat (pn_parents node) @ pn_tree_hash node @ le_bytes_i64 (pn_created_at_secs node)
    @ le_bytes 2 (length (model_text node)) @ str_bytes (model_text node)
    @ le_bytes 1 (bloom_flag node) @ (case pn_bloom node of Some b \<Rightarrow> b | None \<Rightarrow> []) @ [])"
proof -
  have "\<not> length (pn_parents node) > u32_max" using assms by (simp add: graph_node_fits_def u32_max_def)
  moreover have "\<not> length m > u16_max" if "pn_agent_model node = Some m" for m
    using assms that by (simp add: graph_node_fits_def u16_max_def)
  ultimately show ?thesis
    unfolding graph_node_bytes_def flag_byte
    by (cases "pn_agent_model node"; cases "pn_bloom node") (simp_all add: model_text_def)
qed

lemma codec_graph_node:
  assumes fits: "graph_node_fits x node" and b: "graph_node_bytes x node = Inr b"
  shows "codec graph_cut parse_graph_node (x, reread_node node) b"
proof -
  note f = fits [unfolded graph_node_fits_def]
  note int = codec_int [OF graph_read_ok]
  have ids: "codec graph_cut (graph_read STATE_ID_BYTES) x x"
    "codec graph_cut (graph_read CONTENT_HASH_BYTES) (pn_tree_hash node) (pn_tree_hash node)"
    by (rule codec_read [OF graph_read_ok]; use f in \<open>simp add: STATE_ID_BYTES_def CONTENT_HASH_BYTES_def u32_max_def\<close>)+
  have model: "length (model_text node) < 2 ^ 16" "is_utf8 (model_text node)"
    using f by (auto simp: model_text_def is_utf8_def split: option.splits)
  have ints: "codec graph_cut (read_int graph_read 8) (pn_generation node) (le_bytes 8 (pn_generation node))"
    "codec graph_cut (read_int graph_read 4) (length (pn_parents node)) (le_bytes 4 (length (pn_parents node)))"
    "codec graph_cut (read_int graph_read 2) (length (model_text node)) (le_bytes 2 (length (model_text node)))"
    "codec graph_cut (read_int graph_read 1) (bloom_flag node) (le_bytes 1 (bloom_flag node))"
    by (rule int; use f model in \<open>simp add: bloom_flag_def\<close>)+
  have secs: "codec graph_cut (read_i64 graph_read) (pn_created_at_secs node) (le_bytes_i64 (pn_created_at_secs node))"
    by (rule codec_i64 [OF graph_read_ok]) (use f in simp_all)
  have parents: "codec graph_cut (read_parents (length (pn_parents node))) (pn_parents node) (concat (pn_parents node))"
    by (rule codec_parents) (use f in simp)
  have bloom: "codec graph_cut (read_bloom (bloom_flag node)) (pn_bloom node) (case pn_bloom node of Some b \<Rightarrow> b | None \<Rightarrow> [])"
    using f codec_bloom codec_no_bloom by (auto simp: bloom_flag_def split: option.splits)
  note bytes = b [unfolded graph_node_written [OF fits], THEN sum.inject(2) [THEN iffD1], symmetric]
  have reread: "reread_node node = \<lparr>pn_parents = pn_parents node, pn_generation = pn_generation node,
      pn_tree_hash = pn_tree_hash node, pn_created_at_secs = pn_created_at_secs node,
      pn_agent_model = (if model_text node = [] then None else Some (model_text node)), pn_bloom = pn_bloom node\<rparr>"
    by (cases node) (auto simp: reread_node_def model_text_def split: option.splits)
  show ?thesis
    unfolding bytes reread parse_graph_node_def [abs_def]
    by (rule ids ints secs parents bloom codec_model [OF model] codec_bind codec_return)+
qed

section \<open>The file\<close>

lemma codec_graph_nodes:
  assumes "\<forall>(x, node) \<in> set es. graph_node_fits x node" "distinct (map fst es)" "\<forall>x \<in> fst ` set es. acc x = None"
    and "try_map (\<lambda>(x, node). graph_node_bytes x node) es = Inr bodies"
  shows "codec graph_cut (parse_graph_nodes (length es) acc) (acc ++ map_of (map (\<lambda>(x, node). (x, reread_node node)) es)) (concat bodies)"
  using assms
proof (induction es arbitrary: acc bodies)
  case Nil
  then show ?case by (simp add: codec_return)
next
  case (Cons e es)
  obtain x node where e: "e = (x, node)" by (cases e)
  obtain b bs where b: "graph_node_bytes x node = Inr b" "try_map (\<lambda>(x, node). graph_node_bytes x node) es = Inr bs"
    "bodies = b # bs" using Cons.prems(4) e by (auto simp: and_then_Inr)
  have node: "codec graph_cut parse_graph_node (x, reread_node node) b"
    by (rule codec_graph_node [OF _ b(1)]) (use Cons.prems(1) e in simp)
  have rest: "codec graph_cut (parse_graph_nodes (length es) (acc(x \<mapsto> reread_node node)))
      (acc(x \<mapsto> reread_node node) ++ map_of (map (\<lambda>(x, node). (x, reread_node node)) es)) (concat bs)"
    by (rule Cons.IH [OF _ _ _ b(2)]) (use Cons.prems e in \<open>auto simp: image_iff\<close>)
  have fresh: "acc x = None" using Cons.prems(3) e by simp
  have out: "x \<notin> dom (map_of (map (\<lambda>(x, node). (x, reread_node node)) es))"
    using Cons.prems(2) e by (auto simp: dom_map_of_conv_image_fst image_iff)
  have eq: "acc(x \<mapsto> reread_node node) ++ map_of (map (\<lambda>(x, node). (x, reread_node node)) es)
      = acc ++ map_of (map (\<lambda>(x, node). (x, reread_node node)) (e # es))"
    using out e by (auto simp: map_add_def fun_eq_iff split: option.splits)
  show ?case
    using codec_bind [OF node, where g = "\<lambda>p bs off. case p of (x, node) \<Rightarrow>
        if acc x \<noteq> None then Inl (InvalidObject ''duplicate state id in commit graph'')
        else parse_graph_nodes (length es) (acc(x \<mapsto> node)) bs off"] rest fresh
    unfolding eq [symmetric] b(3) by (simp add: case_prod_unfold)
qed

definition graph_fits :: "LoadedCommitGraph \<Rightarrow> bool" where
  "graph_fits nodes \<longleftrightarrow> finite (dom nodes) \<and> card (dom nodes) < 2 ^ 64 \<and> (\<forall>x node. nodes x = Some node \<longrightarrow> graph_node_fits x node)"

lemma sorted_nodes_facts:
  assumes "finite (dom nodes)"
  shows "set (sorted_nodes nodes) = {(x, node). nodes x = Some node}" "distinct (map fst (sorted_nodes nodes))"
    "length (sorted_nodes nodes) = card (dom nodes)"
proof -
  show "set (sorted_nodes nodes) = {(x, node). nodes x = Some node}"
    using assms by (auto simp: sorted_nodes_def image_iff)
  have "map fst (sorted_nodes nodes) = sorted_list_of_set (dom nodes)" by (simp add: sorted_nodes_def comp_def)
  then show "distinct (map fst (sorted_nodes nodes))" by simp
  show "length (sorted_nodes nodes) = card (dom nodes)" by (simp add: sorted_nodes_def)
qed

lemma map_of_reread:
  assumes "finite (dom nodes)"
  shows "map_of (map (\<lambda>(x, node). (x, reread_node node)) (sorted_nodes nodes)) = (\<lambda>x. map_option reread_node (nodes x))"
proof
  fix x
  note s = sorted_nodes_facts [OF assms]
  have m: "map_of (sorted_nodes nodes) x = nodes x"
    using s(1,2) by (cases "nodes x") (force simp: map_of_eq_None_iff, simp)
  have "map_of (map (\<lambda>(x, node). (x, reread_node node)) (sorted_nodes nodes)) x = map_option reread_node (map_of (sorted_nodes nodes) x)"
    by (simp add: map_of_map)
  then show "map_of (map (\<lambda>(x, node). (x, reread_node node)) (sorted_nodes nodes)) x = map_option reread_node (nodes x)"
    using m by simp
qed

lemma graph_file_read_back:
  assumes fits: "graph_fits nodes"
  obtains bs where "serialize_commit_graph nodes = Inr bs"
    "length bs < 2 ^ 63 \<Longrightarrow> parse_commit_graph bs = Inr (\<lambda>x. map_option reread_node (nodes x))"
proof -
  note f = fits [unfolded graph_fits_def]
  note s = sorted_nodes_facts [OF f [THEN conjunct1]]
  have fit: "\<forall>(x, node) \<in> set (sorted_nodes nodes). graph_node_fits x node" using f s(1) by auto
  have "try_map (\<lambda>(x, node). graph_node_bytes x node) (sorted_nodes nodes)
      = Inr (map (\<lambda>(x, node). projr (graph_node_bytes x node)) (sorted_nodes nodes))"
    using fit graph_node_written by (intro try_map_all) fastforce
  then obtain bodies where bodies: "try_map (\<lambda>(x, node). graph_node_bytes x node) (sorted_nodes nodes) = Inr bodies" by blast
  let ?n = "length (sorted_nodes nodes)"
  let ?bs = "str_bytes GRAPH_MAGIC @ le_bytes 4 GRAPH_VERSION @ le_bytes 8 ?n @ concat bodies"
  have written: "serialize_commit_graph nodes = Inr ?bs" using bodies by (simp add: serialize_commit_graph_def Let_def)
  have magic: "codec graph_cut (graph_read 8) (str_bytes GRAPH_MAGIC) (str_bytes GRAPH_MAGIC)"
    using graph_read_ok by (rule codec_read) (simp_all add: GRAPH_MAGIC_def u32_max_def)
  have version: "codec graph_cut (read_int graph_read 4) GRAPH_VERSION (le_bytes 4 GRAPH_VERSION)"
    by (rule codec_int [OF graph_read_ok]) (simp_all add: GRAPH_VERSION_def)
  have count: "codec graph_cut (read_int graph_read 8) ?n (le_bytes 8 ?n)"
    by (rule codec_int [OF graph_read_ok]) (use f s(3) in simp_all)
  have nodes: "codec graph_cut (parse_graph_nodes ?n Map.empty) (\<lambda>x. map_option reread_node (nodes x)) (concat bodies)"
    using codec_graph_nodes [OF fit s(2) _ bodies, of Map.empty] map_of_reread [OF f [THEN conjunct1]] by simp
  have "parse_commit_graph bs = Inr (\<lambda>x. map_option reread_node (nodes x))" if bs: "bs = ?bs" and l: "length bs < 2 ^ 63" for bs
  proof -
    have b0: "drop 0 bs = str_bytes GRAPH_MAGIC @ (le_bytes 4 GRAPH_VERSION @ le_bytes 8 ?n @ concat bodies)" using bs by simp
    note b1 = codec_ok [OF magic b0 le0 l]
    note b2 = codec_ok [OF version b1(2) b1(3) l]
    note b3 = codec_ok [OF count b2(2) b2(3) l]
    have b3': "drop (0 + length (str_bytes GRAPH_MAGIC) + length (le_bytes 4 GRAPH_VERSION) + length (le_bytes 8 ?n)) bs = concat bodies @ []"
      using b3(2) by simp
    note b4 = codec_ok [OF nodes b3' b3(3) l]
    have len: "0 + length (str_bytes GRAPH_MAGIC) + length (le_bytes 4 GRAPH_VERSION) + length (le_bytes 8 ?n) + length (concat bodies)
        = length bs" using bs by simp
    show ?thesis
      by (simp only: parse_commit_graph_def b1(1) b2(1) b3(1) b4(1) len and_then_simps prod.case simp_thms if_False if_True)
  qed
  then show ?thesis using that written by blast
qed

end
