(* ===== verification/Commit_Graph_Correct.thy ===== *)
theory Commit_Graph_Correct
  imports Commit_Graph Merge_Base_Correct Graph_Codec_Correct
begin

text \<open>
  The commit graph index settles the whole ancestry of a state, and its queries answer for the states of the source: ancestry
  is reachability, the merge base is the best common ancestor.
\<close>

section \<open>Ancestry queries\<close>

lemma ancestors_cong: "(\<And>y. y \<in> ancestors f x \<Longrightarrow> f y = g y) \<Longrightarrow> ancestors g x = ancestors f x"
proof (intro subset_antisym subsetI)
  fix y assume same: "\<And>y. y \<in> ancestors f x \<Longrightarrow> f y = g y"
  { assume "y \<in> ancestors g x"
    then show "y \<in> ancestors f x"
      unfolding ancestors_def [of g] mem_Collect_eq
    proof (induction rule: rtrancl_induct)
      case (step w v)
      then show ?case using same [of w] ancestors_parent [of w f x] by (auto simp: parent_edges_def)
    qed simp }
  { assume "y \<in> ancestors f x"
    then have "y \<in> ancestors g x \<and> y \<in> ancestors f x"
      unfolding ancestors_def [of f] mem_Collect_eq
    proof (induction rule: rtrancl_induct)
      case (step w v)
      then have w: "w \<in> ancestors f x" by (simp add: ancestors_def)
      then show ?case using step same [OF w] ancestors_parent [of w g x]
        by (auto simp: parent_edges_def intro: rtrancl.rtrancl_into_rtrancl)
    qed simp
    then show "y \<in> ancestors g x" .. }
qed

definition ancestor_inv :: "('i \<Rightarrow> nat option) \<Rightarrow> ('i \<Rightarrow> 'i list option) \<Rightarrow> 'i \<Rightarrow> nat \<Rightarrow> 'i \<Rightarrow> 'i list \<Rightarrow> 'i set \<Rightarrow> bool" where
  "ancestor_inv generation parents target g d stack visited \<longleftrightarrow>
     set stack \<union> visited \<subseteq> ancestors parents d \<and> target \<notin> visited \<and> d \<in> set stack \<union> visited
     \<and> (\<forall>v \<in> visited. \<forall>p \<in> parent_set parents v. Some g \<le> generation p \<longrightarrow> p \<in> set stack \<union> visited)"

lemma ancestor_inv_done:
  assumes graded: "graded generation parents d" and g: "generation target = Some g"
    and inv: "ancestor_inv generation parents target g d [] visited"
  shows "target \<notin> ancestors parents d"
proof
  assume t: "target \<in> ancestors parents d"
  have "target \<in> ancestors parents y \<longrightarrow> y \<in> visited" if "y \<in> ancestors parents d" for y
    using that unfolding ancestors_def [of parents d] mem_Collect_eq
  proof (induction rule: rtrancl_induct)
    case base
    then show ?case using inv by (simp add: ancestor_inv_def)
  next
    case (step w v)
    show ?case
    proof
      assume t: "target \<in> ancestors parents v"
      have v: "v \<in> ancestors parents d" "v \<in> parent_set parents w" "target \<in> ancestors parents w"
        using step(1,2) t by (auto simp: ancestors_def parent_edges_def parent_set_def intro: rtrancl.rtrancl_into_rtrancl converse_rtrancl_into_rtrancl)
      then have "w \<in> visited" using step(3) by simp
      moreover have "Some g \<le> generation v" using graded_less [OF graded v(1) t] g by auto
      ultimately show "v \<in> visited" using inv v(2) by (auto simp: ancestor_inv_def)
    qed
  qed
  from this [OF t] show False using inv by (simp add: ancestor_inv_def)
qed

lemma ancestor_loop_ends:
  assumes graded: "graded generation parents d" and g: "generation target = Some g"
    and inv: "ancestor_inv generation parents target g d stack visited"
  shows "ancestor_loop generation parents target g stack visited = Some (target \<in> ancestors parents d)"
  using inv
proof (induction "(card (ancestors parents d - visited), length stack)" arbitrary: stack visited
    rule: wf_induct_rule [OF wf_lex_prod [OF wf_less wf_less]])
  case (1 stack visited)
  note unfold = ancestor_loop.simps [of generation parents target g "[]" visited]
    ancestor_loop.simps [of generation parents target g "x # rest" visited for x rest]
  show ?case
  proof (cases stack)
    case Nil
    then show ?thesis using ancestor_inv_done [OF graded g] "1.prems" by (simp add: unfold)
  next
    case (Cons x rest)
    have x: "x \<in> ancestors parents d" using "1.prems" Cons by (simp add: ancestor_inv_def)
    consider (old) "x \<in> visited" | (hit) "x \<notin> visited" "x = target" | (new) "x \<notin> visited" "x \<noteq> target" by blast
    then show ?thesis
    proof cases
      case old
      then have "ancestor_inv generation parents target g d rest visited"
        using "1.prems" Cons by (auto simp: ancestor_inv_def)
      then show ?thesis using "1.hyps" [of visited rest] old Cons by (simp add: unfold)
    next
      case hit
      then show ?thesis using x Cons by (simp add: unfold)
    next
      case new
      let ?keep = "filter (\<lambda>p. case generation p of Some h \<Rightarrow> h \<ge> g | None \<Rightarrow> False) (case parents x of Some ps \<Rightarrow> ps | None \<Rightarrow> [])"
      have keep: "set ?keep = {p \<in> parent_set parents x. Some g \<le> generation p}"
            by (auto simp: parent_set_def less_eq_option_def split: option.splits)
      have anc: "set ?keep \<subseteq> ancestors parents d"
        using ancestors_parent [OF x] unfolding keep by (auto simp: parent_set_def split: option.splits)
      have "ancestor_inv generation parents target g d (rev ?keep @ rest) (insert x visited)"
        using "1.prems" Cons new anc keep by (auto simp: ancestor_inv_def)
      moreover have "card (ancestors parents d - insert x visited) < card (ancestors parents d - visited)"
        using graded_finite [OF graded] x new by (intro psubset_card_mono) auto
      ultimately have "ancestor_loop generation parents target g (rev ?keep @ rest) (insert x visited)
          = Some (target \<in> ancestors parents d)" using "1.hyps" [of "insert x visited" "rev ?keep @ rest"] by simp
      then show ?thesis using new Cons by (cases "parents x") (simp_all add: unfold)
    qed
  qed
qed

section \<open>What the source offers\<close>

type_synonym known_states = "StateId \<Rightarrow> GraphError + CommitGraphStateData option"

definition resolved_parents :: "known_states \<Rightarrow> StateId \<Rightarrow> StateId list option" where
  "resolved_parents K x = (case K x of Inr (Some d) \<Rightarrow> Some (fst d) | _ \<Rightarrow> None)"

text \<open>The ancestry of a state can be read without an error and is at most \<open>k\<close> deep; some of it may be unavailable.\<close>

fun resolvable :: "nat \<Rightarrow> known_states \<Rightarrow> StateId \<Rightarrow> bool" where
  "resolvable 0 K x \<longleftrightarrow> K x = Inr None"
| "resolvable (Suc k) K x \<longleftrightarrow> (case K x of Inl _ \<Rightarrow> False | Inr None \<Rightarrow> True | Inr (Some d) \<Rightarrow> list_all (resolvable k K) (fst d))"

text \<open>The length of the longest way to a state without available parents.\<close>

fun depth_at :: "nat \<Rightarrow> known_states \<Rightarrow> StateId \<Rightarrow> nat option" where
  "depth_at 0 K x = None"
| "depth_at (Suc k) K x = (case K x of Inr (Some d) \<Rightarrow> Some (next_generation (map (depth_at k K) (fst d))) | _ \<Rightarrow> None)"

definition depth :: "known_states \<Rightarrow> StateId \<Rightarrow> nat option" where
  "depth K x = depth_at (LEAST k. resolvable k K x) K x"

lemma depth_at_unique: "resolvable k K x \<Longrightarrow> resolvable j K x \<Longrightarrow> depth_at k K x = depth_at j K x"
proof (induction k arbitrary: j x)
  case 0
  then show ?case by (cases j) simp_all
next
  case (Suc k)
  show ?case
  proof (cases "\<exists>d. K x = Inr (Some d)")
    case True
    then obtain d where d: "K x = Inr (Some d)" by blast
    then obtain i where i: "j = Suc i" "list_all (resolvable i K) (fst d)" using Suc.prems(2) by (cases j) auto
    have "map (depth_at k K) (fst d) = map (depth_at i K) (fst d)"
      using Suc.IH Suc.prems(1) i(2) d by (auto simp: list_all_iff)
    then show ?thesis using i(1) by (simp only: depth_at.simps d sum.case option.case)
  next
    case False
    then show ?thesis by (cases j) (auto split: sum.splits option.splits)
  qed
qed

lemma depth_eq: "resolvable k K x \<Longrightarrow> depth K x = depth_at k K x"
  unfolding depth_def by (rule depth_at_unique [OF LeastI])

lemma resolvable_Suc: "resolvable k K x \<Longrightarrow> resolvable (Suc k) K x"
proof (induction k arbitrary: x)
  case (Suc k)
  then show ?case unfolding resolvable.simps(2) [of "Suc k"] resolvable.simps(2) [of k K x]
    by (auto simp: list_all_iff simp del: resolvable.simps split: sum.splits option.splits)
qed simp

lemma resolvable_parent:
  "resolvable k K x \<Longrightarrow> resolved_parents K x = Some ps \<Longrightarrow> p \<in> set ps \<Longrightarrow> \<exists>j. k = Suc j \<and> resolvable j K p"
  by (cases k) (auto simp: resolved_parents_def list_all_iff split: sum.splits option.splits)

lemma resolvable_ancestor: "resolvable k K x \<Longrightarrow> y \<in> ancestors (resolved_parents K) x \<Longrightarrow> resolvable k K y"
  unfolding ancestors_def mem_Collect_eq
proof (rotate_tac 1, induction rule: rtrancl_induct)
  case (step w v)
  then have "resolvable k K w" by simp
  moreover obtain ps where "resolved_parents K w = Some ps" "v \<in> set ps" using step(2) by (auto simp: parent_edges_def)
  ultimately show ?case using resolvable_parent resolvable_Suc by metis
qed

lemma ancestors_finite: "resolvable k K x \<Longrightarrow> finite (ancestors (resolved_parents K) x)"
proof (induction k arbitrary: x)
  case 0
  then show ?case by (subst ancestors_unfold) (simp add: resolved_parents_def)
next
  case (Suc k)
  have "finite (ancestors (resolved_parents K) p)" if "resolved_parents K x = Some ps" "p \<in> set ps" for ps p
    using resolvable_parent [OF Suc.prems that] Suc.IH by auto
  then show ?case by (subst ancestors_unfold) (auto split: option.splits)
qed

text \<open>No state is an ancestor of its parents.\<close>

lemma acyclic_parent:
  assumes "resolvable k K x" "resolved_parents K x = Some ps" "p \<in> set ps"
  shows "x \<notin> ancestors (resolved_parents K) p"
proof
  assume x: "x \<in> ancestors (resolved_parents K) p"
  define h where "h = (LEAST k. resolvable k K x)"
  have "resolvable h K x" unfolding h_def using assms(1) by (rule LeastI)
  from resolvable_parent [OF this assms(2,3)] obtain j where j: "h = Suc j" "resolvable j K p" by blast
  have "resolvable j K x" by (rule resolvable_ancestor [OF j(2) x])
  then have "h \<le> j" unfolding h_def by (rule Least_le)
  then show False using j(1) by simp
qed

lemma above_parents: "g \<in> set gs \<Longrightarrow> g < Some (next_generation gs)"
proof (cases g)
  case (Some n)
  assume "g \<in> set gs"
  define ns where "ns = map the (filter (\<lambda>g. g \<noteq> None) gs)"
  have "n \<in> set ns" using \<open>g \<in> set gs\<close> Some unfolding ns_def by force
  then have "ns \<noteq> []" "n \<le> Max (set ns)" by (auto intro: Max_ge)
  moreover have "next_generation gs = (if ns = [] then 0 else Max (set ns) + 1)" by (simp only: next_generation_def Let_def ns_def)
  ultimately show ?thesis using Some by simp
qed simp

lemma depth_available:
  assumes "resolvable k K x" "K x = Inr (Some d)"
  shows "depth K x = Some (next_generation (map (depth K) (fst d)))"
proof -
  obtain j where k: "k = Suc j" "list_all (resolvable j K) (fst d)" using assms by (cases k) auto
  have "map (depth_at j K) (fst d) = map (depth K) (fst d)" using k(2) depth_eq [of j K] by (auto simp: list_all_iff)
  moreover have "depth K x = Some (next_generation (map (depth_at j K) (fst d)))"
    using depth_eq [OF assms(1)] assms(2) k(1) by simp
  ultimately show ?thesis by (simp only:)
qed

lemma depth_unavailable: "resolvable k K x \<Longrightarrow> K x = Inr None \<Longrightarrow> depth K x = None"
  using depth_eq [of k K x] by (cases k) simp_all

lemma graded_depth:
  assumes "resolvable k K x"
  shows "graded (depth K) (resolved_parents K) x"
  unfolding graded_def
proof (intro conjI ballI ancestors_finite [OF assms])
  fix y p assume y: "y \<in> ancestors (resolved_parents K) x" and p: "p \<in> (case resolved_parents K y of Some ps \<Rightarrow> set ps | None \<Rightarrow> {})"
  then obtain d where d: "K y = Inr (Some d)" "p \<in> set (fst d)"
    by (auto simp: resolved_parents_def split: sum.splits option.splits)
  then show "depth K p < depth K y"
    using depth_available [OF resolvable_ancestor [OF assms y] d(1)] above_parents [of "depth K p" "map (depth K) (fst d)"] by simp
qed

section \<open>Settling the ancestry\<close>

text \<open>The node a state gets: its data, its depth as generation, and the Bloom filter it had.\<close>

definition settled_node :: "known_states \<Rightarrow> graph_nodes \<Rightarrow> StateId \<Rightarrow> CommitGraphNode option" where
  "settled_node K nodes x =
     (case K x of
        Inr (Some (parents, tree, created, agent)) \<Rightarrow>
          Some \<lparr>gn_parents = parents, gn_generation = the (depth K x), gn_tree_hash = tree,
            gn_created_at_secs = created, gn_agent_model = agent,
            gn_bloom = (case nodes x of Some node \<Rightarrow> gn_bloom node | None \<Rightarrow> None)\<rparr>
      | _ \<Rightarrow> nodes x)"

definition settled_on :: "('c, 'z) CommitGraphIndex \<Rightarrow> StateId set \<Rightarrow> bool \<Rightarrow> ('c, 'z) CommitGraphIndex" where
  "settled_on ix F dirty =
     ix\<lparr>gi_nodes := (\<lambda>x. if x \<in> F then settled_node (known_data ix) (gi_nodes ix) x else gi_nodes ix x), gi_dirty := dirty\<rparr>"

lemma settled_on_empty: "settled_on ix {} (gi_dirty ix) = ix"
  by (simp add: settled_on_def)

lemma settled_on_nodes: "gi_nodes (settled_on ix F dirty) x = (if x \<in> F then settled_node (known_data ix) (gi_nodes ix) x else gi_nodes ix x)"
  by (simp add: settled_on_def)

lemma known_settled: "known_data (settled_on ix F dirty) x = known_data ix x"
  by (auto simp: known_data_def settled_on_def settled_node_def load_state_data_def source_result_def and_then_def
      split: option.splits sum.splits)

lemma unavailable_node: "known_data ix x = Inr None \<Longrightarrow> gi_nodes ix x = None"
  by (auto simp: known_data_def split: option.splits)

lemma settled_generation:
  assumes "resolvable k (known_data ix) x" "x \<in> F"
  shows "node_generation (gi_nodes (settled_on ix F dirty)) x = depth (known_data ix) x"
proof -
  consider "known_data ix x = Inr None" | d where "known_data ix x = Inr (Some d)"
    using assms(1) by (cases k) (auto split: sum.splits option.splits)
  then show ?thesis
  proof cases
    case 1
    then show ?thesis using assms unavailable_node [OF 1] depth_unavailable [OF assms(1) 1]
      by (simp add: node_generation_def settled_on_nodes settled_node_def)
  next
    case 2
    then show ?thesis using assms depth_available [OF assms(1) 2]
      by (cases d) (simp add: node_generation_def settled_on_nodes settled_node_def)
  qed
qed

lemma settled_parents:
  assumes "resolvable k (known_data ix) x" "x \<in> F"
  shows "node_parents (gi_nodes (settled_on ix F dirty)) x = resolved_parents (known_data ix) x"
proof -
  consider "known_data ix x = Inr None" | d where "known_data ix x = Inr (Some d)"
    using assms(1) by (cases k) (auto split: sum.splits option.splits)
  then show ?thesis
  proof cases
    case 1
    then show ?thesis using assms unavailable_node [OF 1]
      by (simp add: node_parents_def settled_on_nodes settled_node_def resolved_parents_def)
  next
    case 2
    then show ?thesis using assms by (cases d) (simp add: node_parents_def settled_on_nodes settled_node_def resolved_parents_def)
  qed
qed

lemma settle_step:
  assumes r: "resolvable k (known_data ix) x" "known_data ix x = Inr (Some d)" and x: "x \<notin> F" "set (fst d) \<subseteq> F"
  shows "\<exists>dirty'. settle_node x d (settled_on ix F dirty) = settled_on ix (insert x F) dirty'"
proof -
  obtain ps t c m where d: "d = (ps, t, c, m)" by (cases d)
  have "map (node_generation (gi_nodes (settled_on ix F dirty))) ps = map (depth (known_data ix)) ps"
  proof (rule map_cong [OF refl])
    fix p assume p: "p \<in> set ps"
    have "resolved_parents (known_data ix) x = Some ps" using r(2) d by (simp add: resolved_parents_def)
    from resolvable_parent [OF r(1) this p] obtain j where "resolvable j (known_data ix) p" by blast
    then show "node_generation (gi_nodes (settled_on ix F dirty)) p = depth (known_data ix) p"
      by (rule settled_generation) (use x p d in auto)
  qed
  then have g: "next_generation (map (node_generation (gi_nodes (settled_on ix F dirty))) ps) = the (depth (known_data ix) x)"
    using depth_available [OF r] d by (simp only: fst_conv option.sel)
  have prev: "gi_nodes (settled_on ix F dirty) x = gi_nodes ix x" using x by (simp add: settled_on_nodes)
  have bloom: "(case gi_nodes ix x of Some node \<Rightarrow> if gn_parents node = ps \<and> gn_tree_hash node = t then gn_bloom node else None
      | None \<Rightarrow> None) = (case gi_nodes ix x of Some node \<Rightarrow> gn_bloom node | None \<Rightarrow> None)"
    using r(2) d by (auto simp: known_data_def split: option.splits)
  have node: "settled_node (known_data ix) (gi_nodes ix) x = Some \<lparr>gn_parents = ps,
      gn_generation = next_generation (map (node_generation (gi_nodes (settled_on ix F dirty))) ps), gn_tree_hash = t,
      gn_created_at_secs = c, gn_agent_model = m,
      gn_bloom = (case gi_nodes ix x of Some node \<Rightarrow> if gn_parents node = ps \<and> gn_tree_hash node = t then gn_bloom node else None
        | None \<Rightarrow> None)\<rparr>"
    using r(2) d g bloom by (simp add: settled_node_def)
  let ?new = "settled_node (known_data ix) (gi_nodes ix) x"
  have step: "settle_node x d (settled_on ix F dirty) = (if gi_nodes ix x \<noteq> ?new
      then (settled_on ix F dirty)\<lparr>gi_nodes := (gi_nodes (settled_on ix F dirty))(x := ?new), gi_dirty := True\<rparr>
      else settled_on ix F dirty)"
    unfolding settle_node_def d prod.case Let_def prev node ..
  show ?thesis
  proof (cases "gi_nodes ix x = ?new")
    case True
    then have "settled_on ix F dirty = settled_on ix (insert x F) dirty" by (auto simp: settled_on_def fun_eq_iff)
    then show ?thesis using step True by (metis (full_types))
  next
    case False
    have e: "(gi_nodes (settled_on ix F dirty))(x := ?new) = gi_nodes (settled_on ix (insert x F) True)"
      by (rule ext) (simp add: settled_on_nodes)
    have "(settled_on ix F dirty)\<lparr>gi_nodes := (gi_nodes (settled_on ix F dirty))(x := ?new), gi_dirty := True\<rparr>
        = settled_on ix (insert x F) True" unfolding e by (simp add: settled_on_def)
    then show ?thesis using step False by (metis (full_types))
  qed
qed

section \<open>The walk\<close>

definition pending_on :: "known_states \<Rightarrow> StateId set \<Rightarrow> StateId \<Rightarrow> CommitGraphStateData option" where
  "pending_on K D x = (if x \<in> D then (case K x of Inr d \<Rightarrow> d | Inl _ \<Rightarrow> None) else None)"

lemma pending_on_add: "K x = Inr (Some d) \<Longrightarrow> (pending_on K D)(x \<mapsto> d) = pending_on K (insert x D)"
  by (auto simp: pending_on_def)

lemma pending_on_remove: "x \<notin> D \<Longrightarrow> (pending_on K (insert x D))(x := None) = pending_on K D"
  by (auto simp: pending_on_def)

definition closed_parents :: "known_states \<Rightarrow> StateId set \<Rightarrow> bool" where
  "closed_parents K F \<longleftrightarrow> (\<forall>y \<in> F. parent_set (resolved_parents K) y \<subseteq> F)"

lemma closed_ancestors: "closed_parents K F \<Longrightarrow> x \<in> F \<Longrightarrow> ancestors (resolved_parents K) x \<subseteq> F"
proof
  fix y assume F: "closed_parents K F" "x \<in> F" and y: "y \<in> ancestors (resolved_parents K) x"
  from y show "y \<in> F" unfolding ancestors_def mem_Collect_eq
  proof (induction rule: rtrancl_induct)
    case (step w v)
    have "v \<in> parent_set (resolved_parents K) w" using step(2) by (auto simp: parent_edges_def parent_set_def)
    then show ?case using F(1) step(3) unfolding closed_parents_def by blast
  qed (rule F(2))
qed

lemma closed_add: "closed_parents K F \<Longrightarrow> closed_parents K (F \<union> ancestors (resolved_parents K) x)"
  using ancestors_parent [of _ "resolved_parents K" x]
  by (auto simp: closed_parents_def parent_set_def split: option.splits)

definition walked :: "('c, 'z) CommitGraphIndex \<Rightarrow> StateId set \<Rightarrow> (StateId \<times> bool) list \<Rightarrow> StateId set \<Rightarrow> bool \<Rightarrow>
    (('c, 'z) CommitGraphIndex \<times> (GraphError + unit)) option" where
  "walked ix D stack F dirty = load_loop stack (F \<union> D) (pending_on (known_data ix) D) (settled_on ix F dirty)"

lemma walk_list:
  assumes "\<And>p F dirty rest. p \<in> set ps \<Longrightarrow> closed_parents (known_data ix) F \<Longrightarrow> F \<inter> D = {} \<Longrightarrow>
      \<exists>dirty'. walked ix D ((p, False) # rest) F dirty = walked ix D rest (F \<union> ancestors (resolved_parents (known_data ix)) p) dirty'"
    and "\<And>p. p \<in> set ps \<Longrightarrow> D \<inter> ancestors (resolved_parents (known_data ix)) p = {}"
    and "closed_parents (known_data ix) F" "F \<inter> D = {}"
  shows "\<exists>dirty'. walked ix D (map (\<lambda>p. (p, False)) ps @ rest) F dirty
    = walked ix D rest (F \<union> (\<Union>p \<in> set ps. ancestors (resolved_parents (known_data ix)) p)) dirty'"
  using assms
proof (induction ps arbitrary: F dirty)
  case Nil
  then show ?case by auto
next
  case (Cons p ps)
  let ?A = "ancestors (resolved_parents (known_data ix))"
  obtain d1 where "walked ix D ((p, False) # map (\<lambda>p. (p, False)) ps @ rest) F dirty
      = walked ix D (map (\<lambda>p. (p, False)) ps @ rest) (F \<union> ?A p) d1"
    using Cons.prems(1) [of p F "map (\<lambda>p. (p, False)) ps @ rest" dirty] Cons.prems(3,4) by auto
  moreover have apart: "(F \<union> ?A p) \<inter> D = {}" using Cons.prems(2) [of p] Cons.prems(4) by auto
  have "\<exists>dirty'. walked ix D (map (\<lambda>p. (p, False)) ps @ rest) (F \<union> ?A p) d1
      = walked ix D rest (F \<union> ?A p \<union> (\<Union>p \<in> set ps. ?A p)) dirty'"
    by (rule Cons.IH [OF Cons.prems(1,2) closed_add [OF Cons.prems(3)] apart]) simp_all
  ultimately show ?case by (simp add: Un_assoc)
qed

lemma walk_state:
  assumes "resolvable k (known_data ix) x" "closed_parents (known_data ix) F" "F \<inter> D = {}"
    "D \<inter> ancestors (resolved_parents (known_data ix)) x = {}"
  shows "\<exists>dirty'. walked ix D ((x, False) # rest) F dirty = walked ix D rest (F \<union> ancestors (resolved_parents (known_data ix)) x) dirty'"
  using assms
proof (induction k arbitrary: x F D dirty rest)
  case (Suc k)
  let ?K = "known_data ix"
  let ?A = "ancestors (resolved_parents ?K)"
  have xD: "x \<notin> D" using Suc.prems(4) by auto
  note unfold = walked_def load_loop.simps [of "(x, False) # rest"]
  show ?case
  proof (cases "x \<in> F")
    case True
    then have "F \<union> ?A x = F" using closed_ancestors [OF Suc.prems(2)] by auto
    then show ?thesis using True by (auto simp: unfold)
  next
    case out: False
    consider "?K x = Inr None" | d where "?K x = Inr (Some d)" using Suc.prems(1) by (auto split: sum.splits option.splits)
    then show ?thesis
    proof cases
      case 1
      have A: "?A x = {x}" using 1 by (subst ancestors_unfold) (simp add: resolved_parents_def)
      have same: "settled_on ix (F \<union> {x}) dirty = settled_on ix F dirty"
        using 1 out by (auto simp: settled_on_def settled_node_def fun_eq_iff)
      have "walked ix D ((x, False) # rest) F dirty = walked ix D rest (F \<union> {x}) dirty"
        unfolding walked_def same using 1 out xD by (simp add: load_loop.simps [of "(x, False) # rest"] known_settled)
      then show ?thesis unfolding A by blast
    next
      case 2
      then have ps: "resolved_parents ?K x = Some (fst d)" by (simp add: resolved_parents_def)
      have A: "?A x = insert x (\<Union>p \<in> set (fst d). ?A p)" by (subst ancestors_unfold) (simp add: ps)
      have par: "resolvable k ?K p" if "p \<in> set (fst d)" for p using Suc.prems(1) 2 that by (simp add: list_all_iff)
      let ?D = "insert x D" and ?rest = "(x, True) # rest"
      have opened: "walked ix D ((x, False) # rest) F dirty = walked ix ?D (map (\<lambda>p. (p, False)) (fst d) @ ?rest) F dirty"
        using 2 out xD by (simp add: unfold known_settled pending_on_add)
      have apart: "?D \<inter> ?A p = {}" if "p \<in> set (fst d)" for p
        using acyclic_parent [OF Suc.prems(1) ps that] Suc.prems(4) A that by auto
      have "F \<inter> ?D = {}" using Suc.prems(3) out by auto
      then obtain d1 where "walked ix ?D (map (\<lambda>p. (p, False)) (fst d) @ ?rest) F dirty
          = walked ix ?D ?rest (F \<union> (\<Union>p \<in> set (fst d). ?A p)) d1"
        using walk_list [of "fst d" ix ?D F ?rest dirty, OF Suc.IH [OF par] apart] apart Suc.prems(2) by blast
      moreover
      let ?F = "F \<union> (\<Union>p \<in> set (fst d). ?A p)"
      have fresh: "x \<notin> ?F" using out acyclic_parent [OF Suc.prems(1) ps] by auto
      obtain d2 where step: "settle_node x d (settled_on ix ?F d1) = settled_on ix (insert x ?F) d2"
        using settle_step [OF Suc.prems(1) 2 fresh, of d1] by auto
      have "walked ix ?D ?rest ?F d1 = walked ix D rest (insert x ?F) d2"
        using 2 step pending_on_remove [OF xD, of ?K]
        by (simp add: walked_def load_loop.simps [of ?rest]) (simp add: pending_on_def)
      ultimately show ?thesis using opened A by (auto simp: Un_commute)
    qed
  qed
next
  case 0
  let ?A = "ancestors (resolved_parents (known_data ix))"
  have A: "?A x = {x}" using 0 by (subst ancestors_unfold) (simp add: resolved_parents_def)
  have same: "settled_on ix (F \<union> {x}) dirty = settled_on ix F dirty"
    using 0 by (auto simp: settled_on_def settled_node_def fun_eq_iff)
  have "walked ix D ((x, False) # rest) F dirty = walked ix D rest (F \<union> {x}) dirty"
    unfolding walked_def same using 0 A by (simp add: load_loop.simps [of "(x, False) # rest"] known_settled insert_absorb)
  then show ?case unfolding A by blast
qed

section \<open>Loading and the queries\<close>

lemma loaded_in_memory:
  assumes "resolvable k (known_data ix) x"
  shows "\<exists>dirty. ensure_loaded_in_memory x ix = Some (settled_on ix (ancestors (resolved_parents (known_data ix)) x) dirty, Inr ())"
proof -
  have e: "pending_on (known_data ix) {} = Map.empty" by (auto simp: pending_on_def)
  have "ensure_loaded_in_memory x ix = walked ix {} [(x, False)] {} (gi_dirty ix)"
    by (simp add: ensure_loaded_in_memory_def walked_def e settled_on_empty)
  also obtain dirty where "\<dots> = walked ix {} [] ({} \<union> ancestors (resolved_parents (known_data ix)) x) dirty"
    using walk_state [OF assms, of "{}" "{}" "[]" "gi_dirty ix"] by (auto simp: closed_parents_def)
  also have "\<dots> = Some (settled_on ix (ancestors (resolved_parents (known_data ix)) x) dirty, Inr ())"
    by (simp add: walked_def load_loop.simps [of "[]"])
  finally show ?thesis by blast
qed

lemma persist_keeps [simp]: "gi_nodes (persist_if_dirty ix) = gi_nodes ix" "gi_source (persist_if_dirty ix) = gi_source ix"
  by (auto simp: persist_if_dirty_def split: prod.splits sum.splits)

lemma loaded:
  assumes "resolvable k (known_data ix) x"
  obtains ix' dirty where "ensure_loaded x ix = Some (ix', Inr ())" "gi_source ix' = gi_source ix"
    "gi_nodes ix' = gi_nodes (settled_on ix (ancestors (resolved_parents (known_data ix)) x) dirty)"
  using loaded_in_memory [OF assms] by (auto simp: ensure_loaded_def settled_on_def)

lemma known_loaded:
  assumes "gi_source ix' = gi_source ix" "gi_nodes ix' = gi_nodes (settled_on ix F dirty)"
  shows "known_data ix' = known_data ix"
proof
  fix x
  have src: "load_state_data ix' y = load_state_data (settled_on ix F dirty) y" for y
    using assms(1) by (simp add: load_state_data_def settled_on_def)
  have "known_data ix' x = known_data (settled_on ix F dirty) x"
    unfolding known_data_def assms(2) src ..
  then show "known_data ix' x = known_data ix x" by (simp add: known_settled)
qed

lemma then_graph_simps [simp]: "then_graph (Some (s, Inr x)) k = k x s" "then_graph (Some (s, Inl e)) k = Some (s, Inl e)"
  by (simp_all add: then_graph_def)

lemma settled_graph:
  assumes r: "resolvable k (known_data ix) x" and F: "ancestors (resolved_parents (known_data ix)) x \<subseteq> F"
    and nodes: "\<And>y. y \<in> F \<Longrightarrow> resolvable k (known_data ix) y \<Longrightarrow> node_generation nodes y = depth (known_data ix) y
      \<and> node_parents nodes y = resolved_parents (known_data ix) y"
  shows "ancestors (node_parents nodes) x = ancestors (resolved_parents (known_data ix)) x" "graded (node_generation nodes) (node_parents nodes) x"
proof -
  let ?K = "known_data ix"
  have n: "node_generation nodes y = depth ?K y \<and> node_parents nodes y = resolved_parents ?K y"
    if "y \<in> ancestors (resolved_parents ?K) x" for y
    using nodes [OF _ resolvable_ancestor [OF r that]] F that by blast
  show A: "ancestors (node_parents nodes) x = ancestors (resolved_parents ?K) x"
    using n by (intro ancestors_cong) simp
  have "(\<forall>p \<in> (case node_parents nodes y of Some ps \<Rightarrow> set ps | None \<Rightarrow> {}). node_generation nodes p < node_generation nodes y)"
    if y: "y \<in> ancestors (resolved_parents ?K) x" for y
  proof
    fix p assume "p \<in> (case node_parents nodes y of Some ps \<Rightarrow> set ps | None \<Rightarrow> {})"
    then have p: "p \<in> (case resolved_parents ?K y of Some ps \<Rightarrow> set ps | None \<Rightarrow> {})" using n [OF y] by simp
    then have "p \<in> ancestors (resolved_parents ?K) x" using ancestors_parent [OF y] by (auto split: option.splits)
    moreover have "depth ?K p < depth ?K y" using graded_depth [OF r] y p by (simp add: graded_def)
    ultimately show "node_generation nodes p < node_generation nodes y" using n y by simp
  qed
  then show "graded (node_generation nodes) (node_parents nodes) x"
    unfolding graded_def A using ancestors_finite [OF r] by blast
qed

lemma settled_values:
  assumes "resolvable k (known_data ix) y" "y \<in> F"
  shows "node_generation (gi_nodes (settled_on ix F dirty)) y = depth (known_data ix) y
    \<and> node_parents (gi_nodes (settled_on ix F dirty)) y = resolved_parents (known_data ix) y"
  using settled_generation [OF assms] settled_parents [OF assms] by blast

text \<open>C24: Loading a state whose ancestry can be read ends. Afterwards every available ancestor has a node with the parents, tree,
  time and model that the cache or else the source gives for it, its generation is one more than the greatest generation of its
  available parents, or zero, and its Bloom filter is the one it had; no other node has changed.\<close>

theorem ancestry_is_settled:
  assumes "resolvable k (known_data ix) x"
  shows "\<exists>ix'. ensure_loaded x ix = Some (ix', Inr ())
    \<and> (\<forall>y \<in> ancestors (resolved_parents (known_data ix)) x. gi_nodes ix' y = settled_node (known_data ix) (gi_nodes ix) y)
    \<and> (\<forall>y. y \<notin> ancestors (resolved_parents (known_data ix)) x \<longrightarrow> gi_nodes ix' y = gi_nodes ix y)
    \<and> (\<forall>y \<in> ancestors (resolved_parents (known_data ix)) x. \<forall>ps. node_parents (gi_nodes ix') y = Some ps \<longrightarrow>
         node_generation (gi_nodes ix') y = Some (next_generation (map (node_generation (gi_nodes ix')) ps)))"
proof -
  let ?K = "known_data ix"
  let ?A = "ancestors (resolved_parents ?K) x"
  from loaded [OF assms] obtain ix' dirty where ix': "ensure_loaded x ix = Some (ix', Inr ())"
    "gi_nodes ix' = gi_nodes (settled_on ix ?A dirty)" by blast
  have vals: "node_generation (gi_nodes ix') y = depth ?K y \<and> node_parents (gi_nodes ix') y = resolved_parents ?K y" if "y \<in> ?A" for y
    unfolding ix'(2) by (rule settled_values [OF resolvable_ancestor [OF assms that] that])
  have "node_generation (gi_nodes ix') y = Some (next_generation (map (node_generation (gi_nodes ix')) ps))"
    if y: "y \<in> ?A" and ps: "node_parents (gi_nodes ix') y = Some ps" for y ps
  proof -
    obtain d where d: "?K y = Inr (Some d)" "ps = fst d"
      using ps vals [OF y] by (auto simp: resolved_parents_def split: sum.splits option.splits)
    have "map (node_generation (gi_nodes ix')) ps = map (depth ?K) ps"
    proof (rule map_cong [OF refl])
      fix p assume "p \<in> set ps"
      then have "p \<in> ?A" using ancestors_parent [OF y] ps vals [OF y] by simp
      then show "node_generation (gi_nodes ix') p = depth ?K p" using vals by blast
    qed
    then show ?thesis using depth_available [OF resolvable_ancestor [OF assms y] d(1)] vals [OF y] d(2) by (simp only:)
  qed
  then show ?thesis using ix' by (auto simp: settled_on_nodes)
qed

text \<open>C23: Asking for ancestry returns, and the answer is reachability over the parents of the source: a state is its own
  ancestor, and another is one when it is reachable and available.\<close>

theorem ancestor_is_reachable:
  assumes "resolvable k (known_data ix) d"
  shows "\<exists>ix'. is_ancestor a d ix
    = Some (ix', Inr (a = d \<or> (a \<in> ancestors (resolved_parents (known_data ix)) d \<and> resolved_parents (known_data ix) a \<noteq> None)))"
proof (cases "a = d")
  case True
  then show ?thesis by (simp add: is_ancestor_def)
next
  case False
  let ?K = "known_data ix"
  let ?A = "ancestors (resolved_parents ?K) d"
  from loaded [OF assms] obtain ix' dirty where ix': "ensure_loaded d ix = Some (ix', Inr ())"
    "gi_nodes ix' = gi_nodes (settled_on ix ?A dirty)" by blast
  let ?gen = "node_generation (gi_nodes ix')" and ?par = "node_parents (gi_nodes ix')"
  have vals: "?gen y = depth ?K y \<and> ?par y = resolved_parents ?K y" if "y \<in> ?A" for y
    unfolding ix'(2) by (rule settled_values [OF resolvable_ancestor [OF assms that] that])
  have G: "ancestors ?par d = ?A" "graded ?gen ?par d"
    using settled_graph [OF assms subset_refl, of "gi_nodes ix'"] vals by blast+
  have available: "a \<in> ?A \<Longrightarrow> ?gen a \<noteq> None \<longleftrightarrow> resolved_parents ?K a \<noteq> None"
    using vals [of a] by (metis node_generation_def node_parents_def option.map_disc_iff)
  show ?thesis
  proof (cases "?gen a")
    case None
    then have "is_ancestor a d ix = Some (ix', Inr False)" using ix'(1) False by (simp add: is_ancestor_def)
    then show ?thesis using None available False by auto
  next
    case (Some g)
    have "ancestor_inv ?gen ?par a g d [d] {}" by (simp add: ancestor_inv_def)
    from ancestor_loop_ends [OF G(2) Some this]
    have "is_ancestor a d ix = Some (ix', Inr (a \<in> ?A))" using ix'(1) False Some G(1) by (simp add: is_ancestor_def)
    then show ?thesis using Some available False by auto
  qed
qed

lemma index_merge_base:
  assumes "resolvable k (known_data ix) a" "resolvable k (known_data ix) b"
  shows "\<exists>ix' r. find_merge_base a b ix = Some (ix', Inr (Some r))
    \<and> best_common (depth (known_data ix)) (resolved_parents (known_data ix)) a b r"
proof -
  let ?K = "known_data ix"
  let ?A = "ancestors (resolved_parents ?K)"
  from loaded [OF assms(1)] obtain ix1 d1 where ix1: "ensure_loaded a ix = Some (ix1, Inr ())" "gi_source ix1 = gi_source ix"
    "gi_nodes ix1 = gi_nodes (settled_on ix (?A a) d1)" by blast
  have K1: "known_data ix1 = ?K" by (rule known_loaded [OF ix1(2,3)])
  have b1: "resolvable k (known_data ix1) b" using assms(2) K1 by simp
  from loaded [OF b1] obtain ix2 d2 where ix2: "ensure_loaded b ix1 = Some (ix2, Inr ())"
    "gi_nodes ix2 = gi_nodes (settled_on ix1 (?A b) d2)" unfolding K1 by blast
  let ?gen = "node_generation (gi_nodes ix2)" and ?par = "node_parents (gi_nodes ix2)"
  have vals: "?gen y = depth ?K y \<and> ?par y = resolved_parents ?K y" if y: "y \<in> ?A a \<union> ?A b" for y
  proof (cases "y \<in> ?A b")
    case True
    then show ?thesis unfolding ix2(2) using settled_values [of k ix1 y "?A b" d2] K1 resolvable_ancestor [OF assms(2) True] by simp
  next
    case False
    then have y: "y \<in> ?A a" using y by blast
    have "gi_nodes ix2 y = gi_nodes ix1 y" using False by (simp add: ix2(2) settled_on_nodes)
    then have "?gen y = node_generation (gi_nodes ix1) y" "?par y = node_parents (gi_nodes ix1) y"
      by (simp_all add: node_generation_def node_parents_def)
    then show ?thesis unfolding ix1(3) using settled_values [OF resolvable_ancestor [OF assms(1) y] y] by simp
  qed
  have G: "ancestors ?par a = ?A a" "graded ?gen ?par a" "ancestors ?par b = ?A b" "graded ?gen ?par b"
    using settled_graph [OF assms(1), of "?A a \<union> ?A b" "gi_nodes ix2"] settled_graph [OF assms(2), of "?A a \<union> ?A b" "gi_nodes ix2"]
      vals by blast+
  from merge_base_is_best [OF G(2,4)] obtain r where r: "find_merge_base_in_graph ?gen ?par a b = Some (Searched r)"
    "best_common ?gen ?par a b (merge_base r)" by blast
  have common: "common ?par a b = common (resolved_parents ?K) a b" using G(1,3) by (simp add: common_def)
  have "best_common (depth ?K) (resolved_parents ?K) a b (merge_base r)"
    using r(2) vals unfolding best_common_def common by (auto simp: common_def split: option.splits)
  moreover have "find_merge_base a b ix = Some (ix2, Inr (Some (merge_base r)))"
    using ix1(1) ix2(1) r(1) by (simp add: find_merge_base_def)
  ultimately show ?thesis by blast
qed

text \<open>C21: The merge base of two states whose ancestries can be read is found without a panic, and it is the best common
  ancestor: none when there is no common ancestor, else the one of the greatest depth, and of those the one with the smallest
  identifier.\<close>

theorem merge_base_is_best_common:
  assumes "resolvable k (known_data ix) a" "resolvable k (known_data ix) b"
  shows "\<exists>ix' r. find_merge_base a b ix = Some (ix', Inr (Some r))
    \<and> best_common (depth (known_data ix)) (resolved_parents (known_data ix)) a b r"
  by (rule index_merge_base [OF assms])

section \<open>Examples\<close>

text \<open>Two merges of the same two states.\<close>

definition criss_cross :: "StateId \<Rightarrow> State option outcome" where
  "criss_cross x = Inr (map_option (\<lambda>ps. \<lparr>st_parents = ps, st_tree = replicate 32 1, st_created_at_secs = 7, st_agent_model = None\<rparr>)
     (map_of [([1], []), ([2], [[1]]), ([3], [[1]]), ([4], [[2], [3]]), ([5], [[3], [2]])] x))"

definition criss_cross_index :: "(unit, unit) CommitGraphIndex" where
  "criss_cross_index = with_cache criss_cross NullCommitGraphCache ()"

lemma criss_cross_known: "known_data criss_cross_index x = Inr (map_option (\<lambda>ps. (ps, replicate 32 1, 7, None))
    (map_of [([1], []), ([2], [[1]]), ([3], [[1]]), ([4], [[2], [3]]), ([5], [[3], [2]])] x))"
  by (simp add: known_data_def criss_cross_index_def with_cache_def NullCommitGraphCache_def load_state_data_def criss_cross_def
      source_result_def map_option.compositionality comp_def del: map_of.simps)

lemma criss_cross_resolvable: "resolvable 3 (known_data criss_cross_index) [4]" "resolvable 3 (known_data criss_cross_index) [5]"
  by (simp_all add: criss_cross_known numeral_3_eq_3)

theorem ancestry_is_settled_witness:
  "\<exists>ix'. ensure_loaded [4] criss_cross_index = Some (ix', Inr ())
    \<and> gi_nodes ix' [4] = settled_node (known_data criss_cross_index) (gi_nodes criss_cross_index) [4]"
  using ancestry_is_settled [OF criss_cross_resolvable(1)] by blast

theorem ancestor_is_reachable_witness:
  "\<exists>ix'. is_ancestor [1] [4] criss_cross_index = Some (ix', Inr True)"
proof -
  have 4: "[2] \<in> ancestors (resolved_parents (known_data criss_cross_index)) [4]"
    by (rule ancestors_parent [OF ancestors_self, of _ _ "[[2], [3]]"]) (simp_all add: resolved_parents_def criss_cross_known)
  have "[1] \<in> ancestors (resolved_parents (known_data criss_cross_index)) [4]"
    by (rule ancestors_parent [OF 4, of "[[1]]"]) (simp_all add: resolved_parents_def criss_cross_known)
  then show ?thesis using ancestor_is_reachable [OF criss_cross_resolvable(1), of "[1]"]
    by (simp add: resolved_parents_def criss_cross_known)
qed

theorem merge_base_is_best_common_witness:
  "\<exists>ix' r. find_merge_base [4] [5] criss_cross_index = Some (ix', Inr (Some r))
    \<and> best_common (depth (known_data criss_cross_index)) (resolved_parents (known_data criss_cross_index)) [4] [5] r"
  by (rule merge_base_is_best_common [OF criss_cross_resolvable])

end
