(* ===== verification/Commit_Graph_Cache.thy ===== *)
theory Commit_Graph_Cache
  imports Commit_Graph_Correct
begin

text \<open>
  The contract between the commit graph and its cache: a save that failed changes nothing a load would see, and of a save that
  succeeded a load gives what the cache keeps or, with a cache that keeps nothing, nothing. A durable cache always loads it again.
\<close>

section \<open>The contract\<close>

definition persisted :: "graph_nodes \<Rightarrow> LoadedCommitGraph" where
  "persisted nodes x = map_option to_persisted_node (nodes x)"

text \<open>What an index opened on a loaded graph has of it: the nodes but the placeholders of older files.\<close>

definition opened_nodes :: "graph_nodes \<Rightarrow> graph_nodes" where
  "opened_nodes nodes x = (case nodes x of
     Some node \<Rightarrow> if is_legacy_unresolved_placeholder node then None else Some node | None \<Rightarrow> None)"

lemma into_persisted [simp]: "into_memory_nodes (persisted nodes) = nodes"
proof -
  have "into_memory_node (to_persisted_node node) = node" for node
    by (cases node) (simp add: into_memory_node_def to_persisted_node_def)
  then show ?thesis by (simp add: fun_eq_iff into_memory_nodes_def persisted_def option.map_comp comp_def option.map_ident)
qed

lemma persist_saves: "gi_dirty ix \<Longrightarrow> persist_if_dirty ix =
    (case cache_save (gi_cache ix) (persisted (gi_nodes ix)) (gi_disk ix) of
       (disk, Inr _) \<Rightarrow> ix\<lparr>gi_disk := disk, gi_dirty := False\<rparr> | (disk, Inl e) \<Rightarrow> ix\<lparr>gi_disk := disk\<rparr>)"
  by (simp add: persist_if_dirty_def persisted_def [abs_def])

locale graph_cache =
  fixes cache :: "'c CommitGraphCache" and storable :: "LoadedCommitGraph \<Rightarrow> bool" and kept :: "LoadedCommitGraph \<Rightarrow> LoadedCommitGraph"
  assumes saved: "storable nodes \<Longrightarrow> cache_save cache nodes disk = (disk', Inr u) \<Longrightarrow>
      cache_load cache disk' = Inr (Some (kept nodes)) \<or> cache_load cache disk' = Inr None"
    and failed: "cache_save cache nodes disk = (disk', Inl e) \<Longrightarrow> cache_load cache disk' = cache_load cache disk"
begin

text \<open>An index opened after a save that failed is the one that would have been opened before.\<close>

lemma failed_save_harmless:
  assumes "gi_cache ix = cache" "gi_dirty (persist_if_dirty ix)"
  shows "gi_nodes (with_cache source cache (gi_disk (persist_if_dirty ix))) = gi_nodes (with_cache source cache (gi_disk ix))"
proof (cases "gi_dirty ix")
  case True
  obtain disk r where s: "cache_save cache (persisted (gi_nodes ix)) (gi_disk ix) = (disk, r)" by fastforce
  then obtain e where "r = Inl e" using assms True by (cases r) (simp_all add: persist_saves)
  then have "gi_disk (persist_if_dirty ix) = disk" "cache_load cache disk = cache_load cache (gi_disk ix)"
    using assms True s failed by (simp_all add: persist_saves)
  then show ?thesis by (simp add: with_cache_def Let_def split: sum.splits option.splits)
qed (simp add: persist_if_dirty_def)

end

locale durable_cache = graph_cache +
  assumes durable: "storable nodes \<Longrightarrow> cache_save cache nodes disk = (disk', Inr u) \<Longrightarrow> cache_load cache disk' = Inr (Some (kept nodes))"
begin

lemma reopened:
  fixes source :: "StateId \<Rightarrow> ('z State_scheme) option outcome"
  assumes "gi_cache ix = cache" "gi_dirty ix" "\<not> gi_dirty (persist_if_dirty ix)" "storable (persisted (gi_nodes ix))"
  defines "loaded \<equiv> into_memory_nodes (kept (persisted (gi_nodes ix)))" and "again \<equiv> with_cache source cache (gi_disk (persist_if_dirty ix))"
  shows "gi_nodes again = opened_nodes loaded \<and> (gi_dirty again \<longleftrightarrow> card (dom (opened_nodes loaded)) \<noteq> card (dom loaded))"
proof -
  obtain disk r where s: "cache_save cache (persisted (gi_nodes ix)) (gi_disk ix) = (disk, r)" by fastforce
  then obtain u where "r = Inr u" using assms(1-3) by (cases r) (simp_all add: persist_saves)
  then have d: "gi_disk (persist_if_dirty ix) = disk" "cache_load cache disk = Inr (Some (kept (persisted (gi_nodes ix))))"
    using assms(1,2,4) s durable by (auto simp: persist_saves)
  have "(\<lambda>x. case loaded x of Some node \<Rightarrow> if is_legacy_unresolved_placeholder node then None else Some node | None \<Rightarrow> None)
      = opened_nodes loaded" by (simp add: opened_nodes_def fun_eq_iff)
  then show ?thesis unfolding again_def d(1) by (simp add: with_cache_def d(2) loaded_def Let_def)
qed

end

section \<open>The caches of the program\<close>

text \<open>
  What the types of the program say of a graph: ids and hashes of 32 bytes, a generation and a time of 64 bits, a text as the model
  name, a filter of 256 bytes; and a file is shorter than 2^63 bytes. The limits of the format on the numbers of parents and the
  length of a model name are checked by the writer.
\<close>

definition node_typed :: "StateId \<Rightarrow> PersistedCommitGraphNode \<Rightarrow> bool" where
  "node_typed x node \<longleftrightarrow> length x = 32 \<and> pn_generation node < 2 ^ 64 \<and> (\<forall>p \<in> set (pn_parents node). length p = 32)
     \<and> length (pn_tree_hash node) = 32 \<and> - (2 ^ 63) \<le> pn_created_at_secs node \<and> pn_created_at_secs node < 2 ^ 63
     \<and> (\<forall>m. pn_agent_model node = Some m \<longrightarrow> is_utf8 m) \<and> (\<forall>b. pn_bloom node = Some b \<longrightarrow> length b = 256)"

definition graph_typed :: "LoadedCommitGraph \<Rightarrow> bool" where
  "graph_typed nodes \<longleftrightarrow> finite (dom nodes) \<and> card (dom nodes) < 2 ^ 64 \<and> (\<forall>x node. nodes x = Some node \<longrightarrow> node_typed x node)
     \<and> (\<forall>bs. serialize_commit_graph nodes = Inr bs \<longrightarrow> length bs < 2 ^ 63)"

lemma written_node_fits: "node_typed x node \<Longrightarrow> graph_node_bytes x node = Inr b \<Longrightarrow> graph_node_fits x node"
  by (auto simp: node_typed_def graph_node_fits_def graph_node_bytes_def and_then_Inr u32_max_def u16_max_def
      split: if_splits option.splits)

lemma written_graph_fits:
  assumes "graph_typed nodes" "serialize_commit_graph nodes = Inr bs"
  shows "graph_fits nodes"
proof -
  have finite: "finite (dom nodes)" using assms(1) by (simp add: graph_typed_def)
  obtain bodies where "try_map (\<lambda>(x, node). graph_node_bytes x node) (sorted_nodes nodes) = Inr bodies"
    using assms(2) by (auto simp: serialize_commit_graph_def Let_def and_then_Inr)
  then have bodies: "list_all2 (\<lambda>(x, node) b. graph_node_bytes x node = Inr b) (sorted_nodes nodes) bodies"
    by (simp add: try_map_Inr case_prod_unfold)
  have "graph_node_fits x node" if node: "nodes x = Some node" for x node
  proof -
    have "(x, node) \<in> set (sorted_nodes nodes)" using node sorted_nodes_facts(1) [OF finite] by simp
    then obtain b where "graph_node_bytes x node = Inr b" using list_all2_member [OF bodies] by auto
    then show ?thesis using assms(1) node by (intro written_node_fits) (simp_all add: graph_typed_def)
  qed
  then show ?thesis using assms(1) by (simp add: graph_typed_def graph_fits_def)
qed

lemma file_cache_durable:
  assumes "graph_typed nodes" "cache_save FsCommitGraphCache nodes disk = (disk', Inr u)"
  shows "cache_load FsCommitGraphCache disk' = Inr (Some (\<lambda>x. map_option reread_node (nodes x)))"
proof -
  obtain bs where bs: "serialize_commit_graph nodes = Inr bs" "graph_bytes disk' = Inr (Some bs)"
    using assms(2) by (auto simp: FsCommitGraphCache_def save_commit_graph_def split: if_splits sum.splits)
  from graph_file_read_back [OF written_graph_fits [OF assms(1) bs(1)]]
  have "parse_commit_graph bs = Inr (\<lambda>x. map_option reread_node (nodes x))"
    using assms(1) bs(1) by (metis graph_typed_def sum.inject(2))
  then show ?thesis using bs(2) by (simp add: FsCommitGraphCache_def load_commit_graph_def)
qed

interpretation file_cache: durable_cache FsCommitGraphCache graph_typed "\<lambda>nodes x. map_option reread_node (nodes x)"
proof unfold_locales
  fix nodes disk disk' u assume a: "graph_typed nodes" "cache_save FsCommitGraphCache nodes disk = (disk', Inr u)"
  show "cache_load FsCommitGraphCache disk' = Inr (Some (\<lambda>x. map_option reread_node (nodes x)))" by (rule file_cache_durable [OF a])
  then show "cache_load FsCommitGraphCache disk' = Inr (Some (\<lambda>x. map_option reread_node (nodes x)))
    \<or> cache_load FsCommitGraphCache disk' = Inr None" ..
next
  fix nodes disk disk' e assume "cache_save FsCommitGraphCache nodes disk = (disk', Inl e)"
  then show "cache_load FsCommitGraphCache disk' = cache_load FsCommitGraphCache disk"
    by (auto simp: FsCommitGraphCache_def save_commit_graph_def split: sum.splits if_splits)
qed

interpretation null_cache: graph_cache NullCommitGraphCache "\<lambda>_. True" "\<lambda>nodes. nodes"
  by unfold_locales (simp_all add: NullCommitGraphCache_def)

text \<open>The node an index opened on the file has for a node: an empty model name is none.\<close>

definition without_empty_model :: "CommitGraphNode \<Rightarrow> CommitGraphNode" where
  "without_empty_model node = node\<lparr>gn_agent_model := (if gn_agent_model node = Some [] then None else gn_agent_model node)\<rparr>"

definition reopened_nodes :: "graph_nodes \<Rightarrow> graph_nodes" where
  "reopened_nodes nodes = opened_nodes (\<lambda>x. map_option without_empty_model (nodes x))"

lemma reread_persisted: "into_memory_nodes (\<lambda>x. map_option reread_node (persisted nodes x)) = (\<lambda>x. map_option without_empty_model (nodes x))"
  by (auto simp: fun_eq_iff into_memory_nodes_def persisted_def into_memory_node_def to_persisted_node_def reread_node_def
      without_empty_model_def option.map_comp comp_def intro: option.map_cong)

lemma opened_dirty:
  assumes "finite (dom nodes)"
  shows "card (dom (opened_nodes nodes)) \<noteq> card (dom nodes) \<longleftrightarrow> (\<exists>x node. nodes x = Some node \<and> is_legacy_unresolved_placeholder node)"
proof -
  have sub: "dom (opened_nodes nodes) \<subseteq> dom nodes" by (auto simp: opened_nodes_def split: option.splits)
  then have "card (dom (opened_nodes nodes)) = card (dom nodes) \<longleftrightarrow> dom (opened_nodes nodes) = dom nodes"
    using card_subset_eq [OF assms sub] by auto
  also have "\<dots> \<longleftrightarrow> (\<forall>x node. nodes x = Some node \<longrightarrow> \<not> is_legacy_unresolved_placeholder node)"
    using sub by (auto simp: opened_nodes_def dom_def split: option.splits if_splits)
  finally show ?thesis by blast
qed

text \<open>C25: An index opened on a graph file that was written starts from the graph that was written, except that an empty model name
  has become none and that a node without parents, of zero tree hash and time and without a model name or with an empty one, is
  dropped as a placeholder; the index has to be written again exactly when one was dropped.\<close>

theorem graph_survives_reopening:
  assumes "gi_cache ix = FsCommitGraphCache" "gi_dirty ix" "\<not> gi_dirty (persist_if_dirty ix)" "graph_typed (persisted (gi_nodes ix))"
  shows "gi_nodes (with_cache source FsCommitGraphCache (gi_disk (persist_if_dirty ix))) = reopened_nodes (gi_nodes ix)
    \<and> (gi_dirty (with_cache source FsCommitGraphCache (gi_disk (persist_if_dirty ix)))
       \<longleftrightarrow> (\<exists>x node. gi_nodes ix x = Some node \<and> is_legacy_unresolved_placeholder (without_empty_model node)))"
proof -
  have "dom (persisted (gi_nodes ix)) = dom (gi_nodes ix)" by (auto simp: persisted_def dom_def)
  then have "finite (dom (\<lambda>x. map_option without_empty_model (gi_nodes ix x)))"
    using assms(4) by (simp add: graph_typed_def dom_map_option)
  then show ?thesis
    using file_cache.reopened [OF assms, of source]
    unfolding reread_persisted reopened_nodes_def by (simp add: opened_dirty) blast
qed

text \<open>A state with an empty model name.\<close>

definition one_state_index :: "(graph_file, unit) CommitGraphIndex" where
  "one_state_index =
     \<lparr>gi_source = \<lambda>_. Inr None,
      gi_nodes = [replicate 32 1 \<mapsto> \<lparr>gn_parents = [], gn_generation = 0, gn_tree_hash = replicate 32 2, gn_created_at_secs = 7,
        gn_agent_model = Some [], gn_bloom = None\<rparr>],
      gi_cache = FsCommitGraphCache, gi_disk = \<lparr>graph_bytes = Inr None, graph_write_fails = False\<rparr>, gi_dirty = True\<rparr>"

lemma one_state_persisted: "persisted (gi_nodes one_state_index) = [replicate 32 1 \<mapsto>
    \<lparr>pn_parents = [], pn_generation = 0, pn_tree_hash = replicate 32 2, pn_created_at_secs = 7, pn_agent_model = Some [], pn_bloom = None\<rparr>]"
  by (auto simp: one_state_index_def persisted_def to_persisted_node_def)

lemma one_state_written:
  "\<exists>bs. serialize_commit_graph (persisted (gi_nodes one_state_index)) = Inr bs \<and> length bs = 107"
  unfolding one_state_persisted
  by (simp add: serialize_commit_graph_def sorted_nodes_def graph_node_bytes_def u32_max_def u16_max_def GRAPH_MAGIC_def)

lemma one_state_typed: "graph_typed (persisted (gi_nodes one_state_index))"
proof -
  have "\<forall>bs. serialize_commit_graph (persisted (gi_nodes one_state_index)) = Inr bs \<longrightarrow> length bs < 2 ^ 63"
    using one_state_written by fastforce
  moreover have "node_typed x node" if "persisted (gi_nodes one_state_index) x = Some node" for x node
    using that unfolding one_state_persisted by (auto simp: node_typed_def is_utf8_def split: if_splits)
  ultimately show ?thesis unfolding graph_typed_def by (simp add: one_state_persisted)
qed

theorem graph_survives_reopening_witness:
  "gi_nodes (with_cache (gi_source one_state_index) FsCommitGraphCache (gi_disk (persist_if_dirty one_state_index)))
    = [replicate 32 1 \<mapsto> \<lparr>gn_parents = [], gn_generation = 0, gn_tree_hash = replicate 32 2, gn_created_at_secs = 7,
        gn_agent_model = None, gn_bloom = None\<rparr>]
   \<and> \<not> gi_dirty (with_cache (gi_source one_state_index) FsCommitGraphCache (gi_disk (persist_if_dirty one_state_index)))"
proof -
  obtain bs where bs: "serialize_commit_graph (persisted (gi_nodes one_state_index)) = Inr bs"
    using one_state_written by blast
  have dirty: "gi_dirty one_state_index" by (simp add: one_state_index_def)
  have "\<not> gi_dirty (persist_if_dirty one_state_index)"
    unfolding persist_saves [OF dirty] using bs
    by (simp add: one_state_index_def FsCommitGraphCache_def save_commit_graph_def)
  moreover have "gi_cache one_state_index = FsCommitGraphCache" by (simp add: one_state_index_def)
  ultimately have again: "gi_nodes (with_cache (gi_source one_state_index) FsCommitGraphCache (gi_disk (persist_if_dirty one_state_index)))
      = reopened_nodes (gi_nodes one_state_index)
    \<and> (gi_dirty (with_cache (gi_source one_state_index) FsCommitGraphCache (gi_disk (persist_if_dirty one_state_index)))
       \<longleftrightarrow> (\<exists>x node. gi_nodes one_state_index x = Some node \<and> is_legacy_unresolved_placeholder (without_empty_model node)))"
    using graph_survives_reopening [of one_state_index] dirty one_state_typed by blast
  have "reopened_nodes (gi_nodes one_state_index) = [replicate 32 1 \<mapsto> \<lparr>gn_parents = [], gn_generation = 0,
      gn_tree_hash = replicate 32 2, gn_created_at_secs = 7, gn_agent_model = None, gn_bloom = None\<rparr>]"
    by (auto simp: reopened_nodes_def opened_nodes_def one_state_index_def without_empty_model_def is_legacy_unresolved_placeholder_def
        fun_eq_iff)
  moreover have "\<not> (\<exists>x node. gi_nodes one_state_index x = Some node \<and> is_legacy_unresolved_placeholder (without_empty_model node))"
    by (auto simp: one_state_index_def without_empty_model_def is_legacy_unresolved_placeholder_def split: if_splits)
  ultimately show ?thesis using again by simp
qed

end
