(* ===== verification/Commit_Graph_Async.thy ===== *)
theory Commit_Graph_Async
  imports Commit_Graph_Correct
begin

text \<open>
  The merge base over an asynchronous source, \<^verbatim>\<open>find_merge_base_async\<close> in \<^verbatim>\<open>src/crates/repo/src/commit_graph.rs\<close>: it loads
  the ancestry with a loop of its own into smaller nodes and shares the search. An awaited read is a read.
\<close>

section \<open>Loading\<close>

record AsyncCommitGraphNode =
  an_parents :: "StateId list"
  an_generation :: nat

type_synonym async_nodes = "StateId \<Rightarrow> AsyncCommitGraphNode option"

definition generation_async :: "async_nodes \<Rightarrow> StateId \<Rightarrow> nat option" where
  "generation_async nodes x = map_option an_generation (nodes x)"

definition parents_async :: "async_nodes \<Rightarrow> StateId \<Rightarrow> StateId list option" where
  "parents_async nodes x = map_option an_parents (nodes x)"

definition load_state_parents_async :: "(StateId \<Rightarrow> ('z State_scheme) option outcome) \<Rightarrow> StateId \<Rightarrow> GraphError + StateId list option" where
  "load_state_parents_async source x = and_then (source_result (source x)) (\<lambda>s. Inr (map_option st_parents s))"

partial_function (option) load_async_loop ::
  "(StateId \<Rightarrow> ('z State_scheme) option outcome) \<Rightarrow> StateId list \<Rightarrow> StateId set \<Rightarrow> async_nodes \<Rightarrow> (GraphError + async_nodes) option" where
  "load_async_loop source stack expanded nodes =
     (case stack of
        [] \<Rightarrow> Some (Inr nodes)
      | x # rest \<Rightarrow>
          if nodes x \<noteq> None then load_async_loop source rest expanded nodes
          else if x \<notin> expanded
          then (case load_state_parents_async source x of
                  Inl e \<Rightarrow> Some (Inl e)
                | Inr None \<Rightarrow> load_async_loop source (x # rest) (insert x expanded) nodes
                | Inr (Some ps) \<Rightarrow>
                    load_async_loop source (rev (filter (\<lambda>p. nodes p = None) ps) @ x # rest) (insert x expanded) nodes)
          else (case load_state_parents_async source x of
                  Inl e \<Rightarrow> Some (Inl e)
                | Inr None \<Rightarrow> load_async_loop source rest expanded nodes
                | Inr (Some ps) \<Rightarrow>
                    load_async_loop source rest expanded
                      (nodes(x \<mapsto> \<lparr>an_parents = ps, an_generation = next_generation (map (generation_async nodes) ps)\<rparr>))))"

definition ensure_loaded_async ::
  "(StateId \<Rightarrow> ('z State_scheme) option outcome) \<Rightarrow> StateId \<Rightarrow> async_nodes \<Rightarrow> (GraphError + async_nodes) option" where
  "ensure_loaded_async source x nodes = load_async_loop source [x] {} nodes"

definition find_merge_base_async ::
  "(StateId \<Rightarrow> ('z State_scheme) option outcome) \<Rightarrow> StateId \<Rightarrow> StateId \<Rightarrow> (GraphError + StateId option option) option" where
  "find_merge_base_async source a b =
     (case ensure_loaded_async source a Map.empty of
        None \<Rightarrow> None
      | Some (Inl e) \<Rightarrow> Some (Inl e)
      | Some (Inr nodes) \<Rightarrow>
          (case ensure_loaded_async source b nodes of
             None \<Rightarrow> None
           | Some (Inl e) \<Rightarrow> Some (Inl e)
           | Some (Inr nodes) \<Rightarrow>
               map_option (\<lambda>r. Inr (case r of Panicked \<Rightarrow> None | Searched search \<Rightarrow> Some (merge_base search)))
                 (find_merge_base_in_graph (generation_async nodes) (parents_async nodes) a b)))"

section \<open>The nodes of a settled set\<close>

definition source_known :: "(StateId \<Rightarrow> ('z State_scheme) option outcome) \<Rightarrow> known_states" where
  "source_known source x =
     (case source x of
        Inl e \<Rightarrow> Inl (SourceError e)
      | Inr s \<Rightarrow> Inr (map_option (\<lambda>s. (st_parents s, st_tree s, st_created_at_secs s, st_agent_model s)) s))"

lemma loads_known:
  "load_state_parents_async source x = (case source_known source x of Inl e \<Rightarrow> Inl e | Inr d \<Rightarrow> Inr (map_option fst d))"
  by (cases "source x") (simp_all add: load_state_parents_async_def source_known_def source_result_def option.map_comp comp_def)

definition async_on :: "known_states \<Rightarrow> StateId set \<Rightarrow> async_nodes" where
  "async_on K F x =
     (if x \<in> F then map_option (\<lambda>ps. \<lparr>an_parents = ps, an_generation = the (depth K x)\<rparr>) (resolved_parents K x) else None)"

lemma async_on_values:
  assumes "resolvable k K x" "x \<in> F"
  shows "generation_async (async_on K F) x = depth K x" "parents_async (async_on K F) x = resolved_parents K x"
proof -
  consider "K x = Inr None" | d where "K x = Inr (Some d)"
    using assms(1) by (cases k) (auto split: sum.splits option.splits)
  then show "generation_async (async_on K F) x = depth K x"
    by cases (use assms depth_unavailable [OF assms(1)] depth_available [OF assms(1)] in
      \<open>auto simp: generation_async_def async_on_def resolved_parents_def\<close>)
  show "parents_async (async_on K F) x = resolved_parents K x"
    using assms(2) by (cases "resolved_parents K x") (simp_all add: parents_async_def async_on_def)
qed

lemma async_on_add:
  assumes r: "resolvable k K x" "K x = Inr (Some d)" and F: "set (fst d) \<subseteq> F"
  shows "(async_on K F)(x \<mapsto> \<lparr>an_parents = fst d, an_generation = next_generation (map (generation_async (async_on K F)) (fst d))\<rparr>)
    = async_on K (insert x F)"
proof -
  have ps: "resolved_parents K x = Some (fst d)" using r(2) by (simp add: resolved_parents_def)
  have "map (generation_async (async_on K F)) (fst d) = map (depth K) (fst d)"
  proof (rule map_cong [OF refl])
    fix p assume p: "p \<in> set (fst d)"
    from resolvable_parent [OF r(1) ps p] obtain j where "resolvable j K p" by blast
    then show "generation_async (async_on K F) p = depth K p" by (rule async_on_values(1)) (use p F in auto)
  qed
  then have "next_generation (map (generation_async (async_on K F)) (fst d)) = the (depth K x)"
    using depth_available [OF r] by (simp only: option.sel)
  then show ?thesis using ps by (auto simp: async_on_def fun_eq_iff)
qed

section \<open>The walk\<close>

definition expanded_ok :: "known_states \<Rightarrow> StateId set \<Rightarrow> StateId set \<Rightarrow> StateId set \<Rightarrow> bool" where
  "expanded_ok K F D E \<longleftrightarrow> (\<forall>x \<in> E. resolved_parents K x \<noteq> None \<longrightarrow> x \<in> F \<union> D) \<and> D \<subseteq> E"

definition walks_async ::
  "(StateId \<Rightarrow> ('z State_scheme) option outcome) \<Rightarrow> StateId list \<Rightarrow> StateId set \<Rightarrow> StateId set \<Rightarrow> (GraphError + async_nodes) option" where
  "walks_async source stack F E = load_async_loop source stack E (async_on (source_known source) F)"

lemma async_list:
  assumes "\<And>p F E rest. p \<in> set ps \<Longrightarrow> closed_parents K F \<Longrightarrow> F \<inter> D = {} \<Longrightarrow> expanded_ok K F D E \<Longrightarrow>
      \<exists>E'. expanded_ok K (F \<union> ancestors (resolved_parents K) p) D E'
        \<and> walks_async source (p # rest) F E = walks_async source rest (F \<union> ancestors (resolved_parents K) p) E'"
    and "\<And>p. p \<in> set ps \<Longrightarrow> D \<inter> ancestors (resolved_parents K) p = {}"
    and "closed_parents K F" "F \<inter> D = {}" "expanded_ok K F D E"
  shows "\<exists>E'. expanded_ok K (F \<union> (\<Union>p \<in> set ps. ancestors (resolved_parents K) p)) D E'
    \<and> walks_async source (ps @ rest) F E = walks_async source rest (F \<union> (\<Union>p \<in> set ps. ancestors (resolved_parents K) p)) E'"
  using assms
proof (induction ps arbitrary: F E)
  case Nil
  then show ?case by auto
next
  case (Cons p ps)
  let ?A = "ancestors (resolved_parents K)"
  obtain E1 where E1: "expanded_ok K (F \<union> ?A p) D E1" "walks_async source (p # ps @ rest) F E = walks_async source (ps @ rest) (F \<union> ?A p) E1"
    using Cons.prems(1) [of p F E "ps @ rest"] Cons.prems(3-5) by auto
  have apart: "(F \<union> ?A p) \<inter> D = {}" using Cons.prems(2) [of p] Cons.prems(4) by auto
  have "\<exists>E'. expanded_ok K (F \<union> ?A p \<union> (\<Union>p \<in> set ps. ?A p)) D E'
      \<and> walks_async source (ps @ rest) (F \<union> ?A p) E1 = walks_async source rest (F \<union> ?A p \<union> (\<Union>p \<in> set ps. ?A p)) E'"
    by (rule Cons.IH [OF Cons.prems(1,2) closed_add [OF Cons.prems(3)] apart E1(1)]) simp_all
  then show ?case using E1(2) by (simp add: Un_assoc)
qed

lemma async_state:
  fixes source :: "StateId \<Rightarrow> ('z State_scheme) option outcome"
  defines "K \<equiv> source_known source"
  assumes "resolvable k K x" "closed_parents K F" "F \<inter> D = {}" "expanded_ok K F D E" "D \<inter> ancestors (resolved_parents K) x = {}"
  shows "\<exists>E'. expanded_ok K (F \<union> ancestors (resolved_parents K) x) D E'
    \<and> walks_async source (x # rest) F E = walks_async source rest (F \<union> ancestors (resolved_parents K) x) E'"
  using assms(2-)
proof (induction k arbitrary: x F D E rest rule: less_induct)
  case (less k)
  let ?A = "ancestors (resolved_parents K)"
  note turn = load_async_loop.simps [of source "x # rest"]
  have load: "load_state_parents_async source x = (case K x of Inl e \<Rightarrow> Inl e | Inr d \<Rightarrow> Inr (map_option fst d))"
    unfolding K_def by (rule loads_known)
  consider (absent) "K x = Inr None" | (there) d where "K x = Inr (Some d)"
    using less.prems(1) by (cases k) (auto split: sum.splits option.splits)
  then show ?case
  proof cases
    case absent
    have A: "?A x = {x}" by (subst ancestors_unfold) (simp add: resolved_parents_def absent)
    have none: "resolved_parents K x = None" by (simp add: resolved_parents_def absent)
    have n: "async_on K G x = None" for G by (simp add: async_on_def none)
    have same: "async_on K (F \<union> {x}) = async_on K F" by (auto simp: async_on_def none fun_eq_iff)
    have "load_async_loop source (x # rest) (insert x E) (async_on K F) = load_async_loop source rest (insert x E) (async_on K F)"
      using n absent load by (subst turn) simp
    then have "walks_async source (x # rest) F E = walks_async source rest (F \<union> {x}) (insert x E)"
      unfolding walks_async_def K_def [symmetric] same using n absent load by (subst turn) (simp add: insert_absorb)
    moreover have "expanded_ok K (F \<union> {x}) D (insert x E)" using less.prems(4) by (auto simp: expanded_ok_def none)
    ultimately show ?thesis unfolding A by blast
  next
    case there
    have ps: "resolved_parents K x = Some (fst d)" by (simp add: resolved_parents_def there)
    have A: "?A x = insert x (\<Union>p \<in> set (fst d). ?A p)" by (subst ancestors_unfold) (simp add: ps)
    show ?thesis
    proof (cases "x \<in> F")
      case True
      then have "F \<union> ?A x = F" using closed_ancestors [OF less.prems(2)] by auto
      moreover have "async_on K F x \<noteq> None" using True ps by (simp add: async_on_def)
      then have "walks_async source (x # rest) F E = walks_async source rest F E"
        unfolding walks_async_def K_def [symmetric] by (subst turn) simp
      ultimately show ?thesis using less.prems(4) by auto
    next
      case out: False
      have xD: "x \<notin> D" using less.prems(5) by auto
      have xE: "x \<notin> E" using less.prems(4) out xD ps by (auto simp: expanded_ok_def)
      have n: "async_on K F x = None" using out by (simp add: async_on_def)
      let ?todo = "rev (filter (\<lambda>p. async_on K F p = None) (fst d))"
      let ?D = "insert x D" and ?E = "insert x E"
      have opened: "walks_async source (x # rest) F E = walks_async source (?todo @ x # rest) F ?E"
        unfolding walks_async_def K_def [symmetric] using n xE there load by (subst turn) simp
      obtain j where j: "j < k" "\<And>p. p \<in> set (fst d) \<Longrightarrow> resolvable j K p"
      proof (cases k)
        case (Suc i)
        then show ?thesis using that [of i] less.prems(1) there by (simp add: list_all_iff)
      qed (use less.prems(1) there in simp)
      have apart: "?D \<inter> ?A p = {}" if "p \<in> set (fst d)" for p
        using acyclic_parent [OF less.prems(1) ps that] less.prems(5) A that by auto
      have ok: "F \<inter> ?D = {}" "expanded_ok K F ?D ?E" using less.prems(3,4) out by (auto simp: expanded_ok_def)
      let ?T = "\<Union>p \<in> set ?todo. ?A p"
      have "\<exists>E'. expanded_ok K (F \<union> ?T) ?D E' \<and> walks_async source (?todo @ x # rest) F ?E = walks_async source (x # rest) (F \<union> ?T) E'"
      proof (rule async_list)
        fix p F E rest
        assume p: "p \<in> set ?todo" and s: "closed_parents K F" "F \<inter> ?D = {}" "expanded_ok K F ?D E"
        then have p: "p \<in> set (fst d)" by simp
        show "\<exists>E'. expanded_ok K (F \<union> ?A p) ?D E' \<and> walks_async source (p # rest) F E = walks_async source rest (F \<union> ?A p) E'"
          by (rule less.IH [OF j(1) j(2) [OF p] s apart [OF p]])
      qed (use apart ok less.prems(2) in auto)
      then obtain E1 where E1: "expanded_ok K (F \<union> ?T) ?D E1"
        "walks_async source (?todo @ x # rest) F ?E = walks_async source (x # rest) (F \<union> ?T) E1" by blast
      let ?all = "F \<union> (\<Union>p \<in> set (fst d). ?A p)"
      have done_nodes: "async_on K (F \<union> ?T) = async_on K ?all"
      proof
        fix z
        show "async_on K (F \<union> ?T) z = async_on K ?all z"
        proof (cases "z \<in> ?all \<and> z \<notin> F \<union> ?T \<and> resolved_parents K z \<noteq> None")
          case True
          then obtain p where p: "p \<in> set (fst d)" "z \<in> ?A p" "async_on K F p \<noteq> None" by auto
          then have "p \<in> F" by (auto simp: async_on_def split: if_splits)
          then show ?thesis using closed_ancestors [OF less.prems(2)] p(2) True by blast
        next
          case False
          have sub: "F \<union> ?T \<subseteq> ?all" by auto
          show ?thesis using False sub unfolding async_on_def [of K "F \<union> ?T" z] async_on_def [of K ?all z]
            by (cases "resolved_parents K z") auto
        qed
      qed
      have x_all: "x \<notin> ?all" using out acyclic_parent [OF less.prems(1) ps] by auto
      have xE1: "x \<in> E1" using E1(1) by (simp add: expanded_ok_def)
      have x_none: "async_on K ?all x = None" using x_all by (simp add: async_on_def)
      have parents_in: "set (fst d) \<subseteq> ?all" by auto
      have "walks_async source (x # rest) (F \<union> ?T) E1 = walks_async source rest (F \<union> ?A x) E1"
        unfolding walks_async_def K_def [symmetric] done_nodes A
        using x_none xE1 there load async_on_add [OF less.prems(1) there parents_in] by (subst turn) simp
      moreover have "expanded_ok K (F \<union> ?A x) D E1"
        using E1(1) A by (auto simp: expanded_ok_def)
      ultimately show ?thesis using opened E1(2) by metis
    qed
  qed
qed

section \<open>The merge base\<close>

lemma loaded_async:
  assumes "resolvable k (source_known source) x" "closed_parents (source_known source) F"
  shows "ensure_loaded_async source x (async_on (source_known source) F)
    = Some (Inr (async_on (source_known source) (F \<union> ancestors (resolved_parents (source_known source)) x)))"
proof -
  let ?K = "source_known source"
  have "ensure_loaded_async source x (async_on ?K F) = walks_async source [x] F {}"
    by (simp add: ensure_loaded_async_def walks_async_def)
  also obtain E where "\<dots> = walks_async source [] (F \<union> ancestors (resolved_parents ?K) x) E"
    using async_state [OF assms, of "{}" "{}" "[]"] by (auto simp: expanded_ok_def)
  also have "\<dots> = Some (Inr (async_on ?K (F \<union> ancestors (resolved_parents ?K) x)))"
    by (simp add: walks_async_def load_async_loop.simps [of source "[]"])
  finally show ?thesis .
qed

lemma async_graph:
  assumes r: "resolvable k K x" and F: "ancestors (resolved_parents K) x \<subseteq> F"
  shows "ancestors (parents_async (async_on K F)) x = ancestors (resolved_parents K) x"
    "graded (generation_async (async_on K F)) (parents_async (async_on K F)) x"
proof -
  let ?A = "ancestors (resolved_parents K) x"
  have n: "generation_async (async_on K F) y = depth K y \<and> parents_async (async_on K F) y = resolved_parents K y" if "y \<in> ?A" for y
    using async_on_values [OF resolvable_ancestor [OF r that]] F that by blast
  show A: "ancestors (parents_async (async_on K F)) x = ?A" using n by (intro ancestors_cong) simp
  have "\<forall>p \<in> (case parents_async (async_on K F) y of Some ps \<Rightarrow> set ps | None \<Rightarrow> {}).
      generation_async (async_on K F) p < generation_async (async_on K F) y" if y: "y \<in> ?A" for y
  proof
    fix p assume "p \<in> (case parents_async (async_on K F) y of Some ps \<Rightarrow> set ps | None \<Rightarrow> {})"
    then have p: "p \<in> (case resolved_parents K y of Some ps \<Rightarrow> set ps | None \<Rightarrow> {})" using n [OF y] by simp
    then have "p \<in> ?A" using ancestors_parent [OF y] by (auto split: option.splits)
    moreover have "depth K p < depth K y" using graded_depth [OF r] y p by (simp add: graded_def)
    ultimately show "generation_async (async_on K F) p < generation_async (async_on K F) y" using n y by simp
  qed
  then show "graded (generation_async (async_on K F)) (parents_async (async_on K F)) x"
    unfolding graded_def A using ancestors_finite [OF r] by blast
qed

text \<open>The merge base over an asynchronous source is the best common ancestor as well, found without a panic.\<close>

lemma async_merge_base_is_best_common:
  assumes "resolvable k (source_known source) a" "resolvable k (source_known source) b"
  shows "\<exists>r. find_merge_base_async source a b = Some (Inr (Some r))
    \<and> best_common (depth (source_known source)) (resolved_parents (source_known source)) a b r"
proof -
  let ?K = "source_known source"
  let ?A = "ancestors (resolved_parents ?K)"
  have start: "Map.empty = async_on ?K {}" by (simp add: async_on_def fun_eq_iff)
  have "closed_parents ?K {}" by (simp add: closed_parents_def)
  note la = loaded_async [OF assms(1) this, folded start]
  have "closed_parents ?K ({} \<union> ?A a)" using closed_add [of ?K "{}" a] by (simp add: closed_parents_def)
  note lb = loaded_async [OF assms(2) this]
  let ?nodes = "async_on ?K ({} \<union> ?A a \<union> ?A b)"
  have ga: "ancestors (parents_async ?nodes) a = ?A a" "graded (generation_async ?nodes) (parents_async ?nodes) a"
    by (rule async_graph [OF assms(1)]; blast)+
  have gb: "ancestors (parents_async ?nodes) b = ?A b" "graded (generation_async ?nodes) (parents_async ?nodes) b"
    by (rule async_graph [OF assms(2)]; blast)+
  from merge_base_is_best [OF ga(2) gb(2)] obtain r where
    r: "find_merge_base_in_graph (generation_async ?nodes) (parents_async ?nodes) a b = Some (Searched r)"
    "best_common (generation_async ?nodes) (parents_async ?nodes) a b (merge_base r)" by blast
  have common: "common (parents_async ?nodes) a b = common (resolved_parents ?K) a b" using ga(1) gb(1) by (simp add: common_def)
  have gen: "generation_async ?nodes y = depth ?K y" if "y \<in> common (resolved_parents ?K) a b" for y
    using async_on_values(1) [OF resolvable_ancestor [OF assms(1)]] that by (simp add: common_def)
  have "best_common (depth ?K) (resolved_parents ?K) a b (merge_base r)"
    using r(2) gen unfolding best_common_def common by (auto split: option.splits)
  moreover have "find_merge_base_async source a b = Some (Inr (Some (merge_base r)))"
    unfolding find_merge_base_async_def la lb option.case sum.case r(1) by simp
  ultimately show ?thesis by blast
qed

lemma best_common_unique:
  assumes "best_common generation parents a b r" "best_common generation parents a b r'"
  shows "r = r'"
proof (cases r)
  case None
  then show ?thesis using assms by (cases r') (auto simp: best_common_def)
next
  case (Some m)
  then obtain m' where m': "r' = Some m'" using assms by (cases r') (auto simp: best_common_def)
  have "m \<in> common parents a b" "m' \<in> common parents a b" using assms Some m' by (auto simp: best_common_def)
  then have "generation m' < generation m \<or> generation m' = generation m \<and> m \<le> m'"
    "generation m < generation m' \<or> generation m = generation m' \<and> m' \<le> m"
    using assms Some m' by (auto simp: best_common_def)
  then show ?thesis using Some m' by auto
qed

lemma null_cache_known: "known_data (with_cache source NullCommitGraphCache ()) = source_known source"
  by (rule ext) (simp add: known_data_def with_cache_def NullCommitGraphCache_def load_state_data_def source_result_def
      source_known_def split: sum.splits)

text \<open>C22: Without a cache the synchronous and the asynchronous merge base return, and they return the same state or none.\<close>

theorem merge_bases_agree:
  assumes "resolvable k (source_known source) a" "resolvable k (source_known source) b"
  shows "\<exists>ix r. find_merge_base a b (with_cache source NullCommitGraphCache ()) = Some (ix, Inr (Some r))
    \<and> find_merge_base_async source a b = Some (Inr (Some r))"
proof -
  let ?ix = "with_cache source NullCommitGraphCache ()"
  obtain ix r where r: "find_merge_base a b ?ix = Some (ix, Inr (Some r))"
    "best_common (depth (source_known source)) (resolved_parents (source_known source)) a b r"
    using index_merge_base [of k ?ix a b] assms unfolding null_cache_known by blast
  obtain r' where r': "find_merge_base_async source a b = Some (Inr (Some r'))"
    "best_common (depth (source_known source)) (resolved_parents (source_known source)) a b r'"
    using async_merge_base_is_best_common [OF assms] by blast
  show ?thesis using r(1) r'(1) best_common_unique [OF r(2) r'(2)] by blast
qed

theorem merge_bases_agree_witness:
  "\<exists>ix r. find_merge_base [4] [5] (with_cache criss_cross NullCommitGraphCache ()) = Some (ix, Inr (Some r))
    \<and> find_merge_base_async criss_cross [4] [5] = Some (Inr (Some r))"
  by (rule merge_bases_agree [where k = 3])
    (use criss_cross_resolvable in \<open>simp_all add: criss_cross_index_def null_cache_known\<close>)

end
