(* ===== verification/Repo_History.thy ===== *)
theory Repo_History
  imports Commit_Graph Slash_Path
begin

text \<open>
  First-parent history, \<^verbatim>\<open>src/crates/repo/src/repository_history.rs\<close>, with the Bloom filters of changed paths from
  \<^verbatim>\<open>bloom_filter.rs\<close> and their computation in \<^verbatim>\<open>commit_graph.rs\<close>. The keyed BLAKE3 hash is a parameter.
\<close>

unbundle bit_operations_syntax

section \<open>Bloom filters\<close>

definition BLOOM_BITS :: nat where "BLOOM_BITS = 256 * 8"

definition bloom_positions :: "(bytes \<Rightarrow> bytes) \<Rightarrow> string \<Rightarrow> nat list" where
  "bloom_positions keyed_hash path =
     (let b = keyed_hash (str_bytes path)
      in map (\<lambda>i. from_le_bytes [b ! i, b ! (i + 1)] mod BLOOM_BITS) [0, 2, 4])"

definition bloom_set :: "nat \<Rightarrow> bytes \<Rightarrow> bytes" where
  "bloom_set pos filter_bits = filter_bits[pos div 8 := filter_bits ! (pos div 8) OR push_bit (pos mod 8) 1]"

text \<open>\<^verbatim>\<open>p.rfind('/')\<close>\<close>

definition rfind_slash :: "string \<Rightarrow> nat option" where
  "rfind_slash p =
     (if CHR 0x2F \<in> set p then Some (length p - 1 - length (takeWhile (\<lambda>c. c \<noteq> CHR 0x2F) (rev p))) else None)"

lemma rfind_slash_bound: "rfind_slash p = Some i \<Longrightarrow> i < length p"
  by (cases p) (auto simp: rfind_slash_def split: if_splits)

function bloom_insert :: "(bytes \<Rightarrow> bytes) \<Rightarrow> string \<Rightarrow> bytes \<Rightarrow> bytes" where
  "bloom_insert keyed_hash p filter_bits =
     (let filter_bits = fold bloom_set (bloom_positions keyed_hash p) filter_bits
      in case rfind_slash p of Some idx \<Rightarrow> bloom_insert keyed_hash (take idx p) filter_bits | None \<Rightarrow> filter_bits)"
  by pat_completeness auto
termination
  by (relation "measure (\<lambda>(keyed_hash, p, filter_bits). length p)") (auto dest: rfind_slash_bound)

declare bloom_insert.simps [simp del]

definition bloom_maybe_contains :: "(bytes \<Rightarrow> bytes) \<Rightarrow> bytes \<Rightarrow> string \<Rightarrow> bool" where
  "bloom_maybe_contains keyed_hash filter_bits path =
     list_all (\<lambda>pos. filter_bits ! (pos div 8) AND push_bit (pos mod 8) 1 \<noteq> 0) (bloom_positions keyed_hash path)"

section \<open>Changed paths\<close>

record ChangedPathFilter =
  cf_path :: string

text \<open>\<^verbatim>\<open>Path::components\<close> of a relative path skips empty components and \<open>.\<close>\<close>

definition normalize_repo_relative_path :: "string \<Rightarrow> string outcome" where
  "normalize_repo_relative_path path =
     (let quoted = CHR 0x27 # path @ [CHR 0x27];
          portable = map (\<lambda>c. if c = CHR 0x5C then CHR 0x2F else c) path;
          segments = filter (\<lambda>part. part \<noteq> [] \<and> part \<noteq> ''.'') (split_slash portable)
      in if take 1 portable = [CHR 0x2F] then Inl (Config (''changed-path filter must be repository-relative: '' @ quoted))
         else if ''..'' \<in> set segments then Inl (Config (''changed-path filter cannot escape repository root: '' @ quoted))
         else if segments = [] then Inl (Config ''changed-path filter cannot be empty'')
         else Inr (join_slash segments))"

definition new_filter :: "string \<Rightarrow> ChangedPathFilter outcome" where
  "new_filter path = and_then (normalize_repo_relative_path path) (\<lambda>path. Inr \<lparr>cf_path = path\<rparr>)"

definition try_from_paths :: "string list \<Rightarrow> ChangedPathFilter list outcome" where
  "try_from_paths = try_map new_filter"

definition filter_matches :: "ChangedPathFilter \<Rightarrow> string \<Rightarrow> bool" where
  "filter_matches f candidate \<longleftrightarrow> candidate = cf_path f
     \<or> (case strip_prefix (cf_path f) candidate of
          Some rest \<Rightarrow> take 1 rest = [CHR 0x2F] | None \<Rightarrow> False)"

type_synonym ChangedPathFilters = "ChangedPathFilter list"

definition filters_matches :: "ChangedPathFilters \<Rightarrow> string \<Rightarrow> bool" where
  "filters_matches fs candidate = list_ex (\<lambda>f. filter_matches f candidate) fs"

definition normalized_paths :: "ChangedPathFilters \<Rightarrow> string list" where
  "normalized_paths = map cf_path"

definition bloom_maybe_matches :: "(bytes \<Rightarrow> bytes) \<Rightarrow> ChangedPathFilters \<Rightarrow> bytes \<Rightarrow> bool" where
  "bloom_maybe_matches keyed_hash fs bloom = list_ex (\<lambda>f. bloom_maybe_contains keyed_hash bloom (cf_path f)) fs"

record HistoryQuery =
  hq_start :: "StateId option"
  hq_limit :: nat
  hq_agent_model_substring :: "string option"
  hq_changed_paths :: ChangedPathFilters
  hq_stop_at :: "StateId option"

definition new_query :: "StateId option \<Rightarrow> HistoryQuery" where
  "new_query start = \<lparr>hq_start = start, hq_limit = 20, hq_agent_model_substring = None, hq_changed_paths = [], hq_stop_at = None\<rparr>"

section \<open>The Bloom filter of a node\<close>

text \<open>What the walk over trees needs: the error of a missing tree and the trees of the source.\<close>

record 'g history_lib =
  hl_missing :: "ContentHash \<Rightarrow> HeddleError"
  hl_trees :: "'g tree_store"
  hl_hash :: "bytes \<Rightarrow> bytes"

definition bloom_visitor :: "(bytes \<Rightarrow> bytes) \<Rightarrow> bytes \<Rightarrow> FileChange \<Rightarrow> bytes \<times> unit option" where
  "bloom_visitor keyed_hash filter_bits change = (bloom_insert keyed_hash (fc_path change) filter_bits, None)"

definition ensure_bloom_populated_from_loaded ::
  "'g history_lib \<Rightarrow> StateId \<Rightarrow> ('c, 'z) CommitGraphIndex \<Rightarrow> (('c, 'z) CommitGraphIndex \<times> (GraphError + unit)) option" where
  "ensure_bloom_populated_from_loaded L x ix =
     (if node_bloom ix x \<noteq> None then Some (ix, Inr ())
      else case gi_nodes ix x of
        None \<Rightarrow> Some (ix, Inl (StateNotFound x))
      | Some node \<Rightarrow>
          (case (case gn_parents node of
                   [] \<Rightarrow> Inr None
                 | p # _ \<Rightarrow> (case gi_nodes ix p of None \<Rightarrow> Inl (StateNotFound p) | Some parent \<Rightarrow> Inr (Some (gn_tree_hash parent)))) of
             Inl e \<Rightarrow> Some (ix, Inl e)
           | Inr parent_tree \<Rightarrow>
               (case diff_trees_visit (hl_missing L) (hl_trees L) parent_tree (gn_tree_hash node)
                       (bloom_visitor (hl_hash L)) (replicate 256 0) of
                  None \<Rightarrow> None
                | Some (bloom, Inl e) \<Rightarrow> Some (ix, Inl (SourceError e))
                | Some (bloom, Inr _) \<Rightarrow>
                    Some (ix\<lparr>gi_nodes := (gi_nodes ix)(x \<mapsto> node\<lparr>gn_bloom := Some bloom\<rparr>), gi_dirty := True\<rparr>, Inr ()))))"

definition ensure_bloom_populated ::
  "'g history_lib \<Rightarrow> StateId \<Rightarrow> ('c, 'z) CommitGraphIndex \<Rightarrow> (('c, 'z) CommitGraphIndex \<times> (GraphError + unit)) option" where
  "ensure_bloom_populated L x ix =
     (if node_bloom ix x \<noteq> None then Some (ix, Inr ())
      else then_graph (ensure_loaded_in_memory x ix) (\<lambda>_ ix.
        then_graph (ensure_bloom_populated_from_loaded L x ix) (\<lambda>_ ix. Some (persist_if_dirty ix, Inr ()))))"

section \<open>The query\<close>

definition parent_tree_hash ::
  "(StateId \<Rightarrow> ('z State_scheme) option outcome) \<Rightarrow> ('z State_scheme) \<Rightarrow> GraphError + ContentHash option" where
  "parent_tree_hash source state =
     (case st_parents state of
        [] \<Rightarrow> Inr None
      | p # _ \<Rightarrow> and_then (source_result (source p)) (\<lambda>parent.
          case parent of None \<Rightarrow> Inl (StateNotFound p) | Some parent \<Rightarrow> Inr (Some (st_tree parent))))"

definition match_visitor :: "ChangedPathFilters \<Rightarrow> unit \<Rightarrow> FileChange \<Rightarrow> unit \<times> unit option" where
  "match_visitor fs u change = ((), if filters_matches fs (fc_path change) then Some () else None)"

definition state_matches_changed_paths ::
  "'g history_lib \<Rightarrow> (StateId \<Rightarrow> ('z State_scheme) option outcome) \<Rightarrow> ('z State_scheme) \<Rightarrow> ChangedPathFilters \<Rightarrow> (GraphError + bool) option" where
  "state_matches_changed_paths L source state fs =
     (case parent_tree_hash source state of
        Inl e \<Rightarrow> Some (Inl e)
      | Inr base_tree \<Rightarrow>
          map_option (\<lambda>(_, r). case r of Inl e \<Rightarrow> Inl (SourceError e) | Inr flow \<Rightarrow> Inr (flow \<noteq> None))
            (diff_trees_visit (hl_missing L) (hl_trees L) base_tree (st_tree state) (match_visitor fs) ()))"

text \<open>\<^verbatim>\<open>model.contains(filter)\<close>\<close>

fun str_contains :: "string \<Rightarrow> string \<Rightarrow> bool" where
  "str_contains [] pat = (pat = [])"
| "str_contains (c # s) pat = (strip_prefix pat (c # s) \<noteq> None \<or> str_contains s pat)"

definition agent_allows :: "HistoryQuery \<Rightarrow> string option \<Rightarrow> bool" where
  "agent_allows query model =
     (case hq_agent_model_substring query of
        None \<Rightarrow> True
      | Some pat \<Rightarrow> (case model of Some model \<Rightarrow> str_contains model pat | None \<Rightarrow> False))"

partial_function (option) history_walk ::
  "'g history_lib \<Rightarrow> HistoryQuery \<Rightarrow> StateId option \<Rightarrow> StateId list \<Rightarrow> ('c, 'z) CommitGraphIndex
    \<Rightarrow> (('c, 'z) CommitGraphIndex \<times> (GraphError + StateId list)) option" where
  "history_walk L query current candidates ix =
     (case current of
        None \<Rightarrow> Some (ix, Inr candidates)
      | Some x \<Rightarrow>
          if length candidates \<ge> hq_limit query then Some (ix, Inr candidates)
          else if hq_stop_at query = Some x then Some (ix, Inr candidates)
          else (case node_metadata ix x of
            None \<Rightarrow> Some (ix, Inr candidates)
          | Some meta \<Rightarrow>
              if \<not> agent_allows query (cm_agent_model meta) then history_walk L query (cm_first_parent meta) candidates ix
              else if hq_changed_paths query = [] then history_walk L query (cm_first_parent meta) (candidates @ [x]) ix
              else (case ensure_bloom_populated_from_loaded L x ix of
                None \<Rightarrow> None
              | Some (ix', Inl e) \<Rightarrow> Some (ix', Inl e)
              | Some (ix', Inr _) \<Rightarrow>
                  if (case node_bloom ix' x of Some bloom \<Rightarrow> \<not> bloom_maybe_matches (hl_hash L) (hq_changed_paths query) bloom | None \<Rightarrow> False)
                  then history_walk L query (cm_first_parent meta) candidates ix'
                  else (case gi_source ix' x of
                    Inl e \<Rightarrow> Some (ix', Inl (SourceError e))
                  | Inr None \<Rightarrow> Some (ix', Inr candidates)
                  | Inr (Some state) \<Rightarrow>
                      (case state_matches_changed_paths L (gi_source ix') state (hq_changed_paths query) of
                        None \<Rightarrow> None
                      | Some (Inl e) \<Rightarrow> Some (ix', Inl e)
                      | Some (Inr matched) \<Rightarrow>
                          history_walk L query (cm_first_parent meta) (if matched then candidates @ [x] else candidates) ix')))))"

text \<open>The states of the candidates; one that has gone is left out.\<close>

fun load_candidates :: "(StateId \<Rightarrow> ('z State_scheme) option outcome) \<Rightarrow> StateId list \<Rightarrow> GraphError + ('z State_scheme) list" where
  "load_candidates source [] = Inr []"
| "load_candidates source (x # xs) =
     and_then (source_result (source x)) (\<lambda>state.
     and_then (load_candidates source xs) (\<lambda>states. Inr ((case state of Some s \<Rightarrow> [s] | None \<Rightarrow> []) @ states)))"

definition query_history_with_cache ::
  "'g history_lib \<Rightarrow> (StateId \<Rightarrow> ('z State_scheme) option outcome) \<Rightarrow> HistoryQuery \<Rightarrow> 'c CommitGraphCache \<Rightarrow> 'c
    \<Rightarrow> ('c \<times> (GraphError + ('z State_scheme) list)) option" where
  "query_history_with_cache L source query cache disk =
     (let ix = with_cache source cache disk
      in case hq_start query of
           None \<Rightarrow> Some (disk, Inr [])
         | Some start \<Rightarrow>
             if hq_limit query = 0 \<or> hq_stop_at query = Some start then Some (disk, Inr [])
             else case ensure_loaded_in_memory start ix of
                    None \<Rightarrow> None
                  | Some (ix, Inl e) \<Rightarrow> Some (gi_disk ix, Inl e)
                  | Some (ix, Inr _) \<Rightarrow>
                      map_option (\<lambda>(ix, r). (gi_disk (persist_if_dirty ix), and_then r (load_candidates source)))
                        (history_walk L query (Some start) [] ix))"

definition query_history_from_source ::
  "'g history_lib \<Rightarrow> (StateId \<Rightarrow> ('z State_scheme) option outcome) \<Rightarrow> HistoryQuery \<Rightarrow> (GraphError + ('z State_scheme) list) option" where
  "query_history_from_source L source query =
     map_option snd (query_history_with_cache L source query NullCommitGraphCache ())"

end
