(* ===== verification/Repo_History_Correct.thy ===== *)
theory Repo_History_Correct
  imports Repo_History Commit_Graph_Correct Tree_Diff_Correct
begin

text \<open>
  The Bloom filters never hide a change, so a history query answers as if it compared the trees of every state.
  What a query cannot see is a file in a directory that took the place of a file: the comparison reports the place alone.
\<close>

section \<open>Bits\<close>

definition has_bit :: "bytes \<Rightarrow> nat \<Rightarrow> bool" where
  "has_bit b pos \<longleftrightarrow> b ! (pos div 8) AND push_bit (pos mod 8) 1 \<noteq> 0"

lemma has_bit_iff: "has_bit b pos \<longleftrightarrow> bit (b ! (pos div 8)) (pos mod 8)"
  unfolding has_bit_def push_bit_of_1 by (simp add: and_exp_eq_0_iff_not_bit)

lemma length_bloom_set [simp]: "length (bloom_set pos b) = length b"
  by (simp add: bloom_set_def)

lemma same_position: "q = pos \<longleftrightarrow> q div 8 = pos div 8 \<and> q mod 8 = pos mod (8 :: nat)"
  by (metis div_mult_mod_eq)

lemma has_bit_set: "pos div 8 < length b \<Longrightarrow> has_bit (bloom_set pos b) q \<longleftrightarrow> q = pos \<or> has_bit b q"
  unfolding has_bit_iff bloom_set_def same_position [of q pos]
  by (cases "q div 8 = pos div 8") (auto simp: bit_or_iff push_bit_of_1 bit_exp_iff)

lemma positions_bound: "pos \<in> set (bloom_positions keyed_hash p) \<Longrightarrow> pos div 8 < 256"
proof -
  assume "pos \<in> set (bloom_positions keyed_hash p)"
  then obtain n where "pos = n mod 2048" by (auto simp: bloom_positions_def Let_def BLOOM_BITS_def)
  then have "pos < 256 * 8" by simp
  then show ?thesis by (rule less_mult_imp_div_less)
qed

lemma fold_bloom_set:
  "\<forall>pos \<in> set ps. pos div 8 < length b \<Longrightarrow>
   length (fold bloom_set ps b) = length b \<and> (has_bit (fold bloom_set ps b) q \<longleftrightarrow> q \<in> set ps \<or> has_bit b q)"
  by (induction ps arbitrary: b) (auto simp: has_bit_set)

lemma contains_iff: "bloom_maybe_contains keyed_hash b p \<longleftrightarrow> (\<forall>pos \<in> set (bloom_positions keyed_hash p). has_bit b pos)"
  by (simp add: bloom_maybe_contains_def has_bit_def list_all_iff)

section \<open>Paths above a path\<close>

lemma rfind_slash_last:
  assumes "CHR 0x2F \<notin> set w"
  shows "rfind_slash (q @ CHR 0x2F # w) = Some (length q)"
proof -
  have "takeWhile (\<lambda>c. c \<noteq> CHR 0x2F) (rev w @ CHR 0x2F # rev q) = rev w"
    using assms by (subst takeWhile_append2) auto
  then show ?thesis by (simp add: rfind_slash_def)
qed

lemma cut_at_slash:
  assumes "p = d @ CHR 0x2F # rest" "rfind_slash p = Some i"
  shows "d = take i p \<or> (\<exists>rest. take i p = d @ CHR 0x2F # rest)"
proof (cases "CHR 0x2F \<in> set rest")
  case True
  then obtain u w where r: "rest = u @ CHR 0x2F # w" "CHR 0x2F \<notin> set w" by (metis split_list_last)
  then have "i = length (d @ CHR 0x2F # u)" using assms rfind_slash_last [OF r(2), of "d @ CHR 0x2F # u"] by simp
  then show ?thesis using assms(1) r(1) by simp
next
  case False
  then show ?thesis using assms rfind_slash_last [OF False, of d] by simp
qed

text \<open>An insertion sets the bits of the path and of every directory above it, and clears none.\<close>

lemma bloom_insert_effect:
  assumes "length b = 256"
  shows "length (bloom_insert keyed_hash p b) = 256"
    "has_bit b q \<Longrightarrow> has_bit (bloom_insert keyed_hash p b) q"
    "(d = p \<or> (\<exists>rest. p = d @ CHR 0x2F # rest)) \<Longrightarrow> bloom_maybe_contains keyed_hash (bloom_insert keyed_hash p b) d"
proof -
  have "length (bloom_insert keyed_hash p b) = 256
    \<and> (\<forall>q. has_bit b q \<longrightarrow> has_bit (bloom_insert keyed_hash p b) q)
    \<and> (\<forall>d. (d = p \<or> (\<exists>rest. p = d @ CHR 0x2F # rest)) \<longrightarrow> bloom_maybe_contains keyed_hash (bloom_insert keyed_hash p b) d)"
    using assms
  proof (induction keyed_hash p b rule: bloom_insert.induct)
    case (1 keyed_hash p b)
    define b' where "b' = fold bloom_set (bloom_positions keyed_hash p) b"
    have b': "length b' = 256" "\<And>q. has_bit b' q \<longleftrightarrow> q \<in> set (bloom_positions keyed_hash p) \<or> has_bit b q"
      using fold_bloom_set [of "bloom_positions keyed_hash p" b] positions_bound "1.prems" by (auto simp: b'_def)
    show ?case
    proof (cases "rfind_slash p")
      case None
      then have "CHR 0x2F \<notin> set p" by (auto simp: rfind_slash_def split: if_splits)
      then have top: "d = p \<or> (\<exists>rest. p = d @ CHR 0x2F # rest) \<longleftrightarrow> d = p" for d by auto
      have eq: "bloom_insert keyed_hash p b = b'" using None by (simp add: bloom_insert.simps [of _ p] b'_def)
      show ?thesis unfolding eq top using b' by (simp add: contains_iff)
    next
      case (Some i)
      have eq: "bloom_insert keyed_hash p b = bloom_insert keyed_hash (take i p) b'"
        using Some by (simp add: bloom_insert.simps [of _ p] b'_def)
      note IH = "1.IH" [OF b'_def Some b'(1)]
      have "bloom_maybe_contains keyed_hash (bloom_insert keyed_hash p b) d"
        if "d = p \<or> (\<exists>rest. p = d @ CHR 0x2F # rest)" for d
        using that
      proof
        assume "d = p"
        then show ?thesis using IH b'(2) by (auto simp: eq contains_iff)
      next
        assume "\<exists>rest. p = d @ CHR 0x2F # rest"
        then obtain rest where p: "p = d @ CHR 0x2F # rest" by blast
        have "d = take i p \<or> (\<exists>rest. take i p = d @ CHR 0x2F # rest)" by (rule cut_at_slash [OF p Some])
        then show ?thesis using IH unfolding eq by blast
      qed
      then show ?thesis using IH b'(2) unfolding eq by blast
    qed
  qed
  then show "length (bloom_insert keyed_hash p b) = 256"
    "has_bit b q \<Longrightarrow> has_bit (bloom_insert keyed_hash p b) q"
    "(d = p \<or> (\<exists>rest. p = d @ CHR 0x2F # rest)) \<Longrightarrow> bloom_maybe_contains keyed_hash (bloom_insert keyed_hash p b) d"
    by blast+
qed

lemma filter_matches_iff: "filter_matches f c \<longleftrightarrow> cf_path f = c \<or> (\<exists>rest. c = cf_path f @ CHR 0x2F # rest)"
proof -
  have "take 1 r = [CHR 0x2F] \<longleftrightarrow> (\<exists>rest. r = CHR 0x2F # rest)" for r by (cases r) auto
  then show ?thesis by (cases "strip_prefix (cf_path f) c") (auto simp: filter_matches_def strip_prefix_Some)
qed

section \<open>Filter paths\<close>

definition plain_part :: "string \<Rightarrow> bool" where
  "plain_part part \<longleftrightarrow> part \<noteq> [] \<and> part \<noteq> ''.'' \<and> part \<noteq> ''..'' \<and> CHR 0x2F \<notin> set part \<and> CHR 0x5C \<notin> set part"

lemma join_slash_head: "parts \<noteq> [] \<Longrightarrow> \<forall>part \<in> set parts. plain_part part \<Longrightarrow> take 1 (join_slash parts) \<noteq> [CHR 0x2F]"
  by (cases parts; cases "hd parts"; cases "tl parts") (auto simp: plain_part_def)

text \<open>C27: A path that is accepted as a filter is normal: joined with slashes from one or more parts, none of them empty, a dot or
  two dots, without backslashes; normalizing it again changes nothing.\<close>

theorem filter_paths_normal:
  assumes "normalize_repo_relative_path p = Inr q"
  shows "\<exists>parts. parts \<noteq> [] \<and> (\<forall>part \<in> set parts. plain_part part) \<and> q = join_slash parts
    \<and> normalize_repo_relative_path q = Inr q"
proof -
  let ?portable = "map (\<lambda>c. if c = CHR 0x5C then CHR 0x2F else c) p"
  define parts where "parts = filter (\<lambda>part. part \<noteq> [] \<and> part \<noteq> ''.'') (split_slash ?portable)"
  have parts: "parts \<noteq> []" "''..'' \<notin> set parts" "q = join_slash parts"
    using assms by (auto simp: normalize_repo_relative_path_def Let_def parts_def split: if_splits)
  have plain: "\<forall>part \<in> set parts. plain_part part"
  proof
    fix part assume p: "part \<in> set parts"
    then have "part \<in> set (split_slash ?portable)" by (simp add: parts_def)
    then have "set part \<subseteq> set ?portable - {CHR 0x2F}" by (rule split_slash_parts)
    moreover have "CHR 0x5C \<notin> set ?portable" by auto
    ultimately have "CHR 0x2F \<notin> set part" "CHR 0x5C \<notin> set part" by blast+
    moreover have "part \<noteq> []" "part \<noteq> ''.''" "part \<noteq> ''..''" using p parts(2) by (auto simp: parts_def)
    ultimately show "plain_part part" by (simp add: plain_part_def)
  qed
  have chars: "CHR 0x5C \<notin> set q" using join_slash_chars [of parts] plain unfolding parts(3) by (auto simp: plain_part_def)
  then have "map (\<lambda>c. if c = CHR 0x5C then CHR 0x2F else c) q = q" by (induction q) auto
  moreover have "split_slash q = parts" unfolding parts(3) by (rule split_join [OF parts(1)]) (use plain in \<open>simp add: plain_part_def\<close>)
  moreover have "filter (\<lambda>part. part \<noteq> [] \<and> part \<noteq> ''.'') parts = parts" using plain by (simp add: filter_id_conv plain_part_def)
  moreover have "take 1 q \<noteq> [CHR 0x2F]" unfolding parts(3) by (rule join_slash_head [OF parts(1) plain])
  ultimately have "normalize_repo_relative_path q = Inr q"
    using parts by (simp add: normalize_repo_relative_path_def Let_def)
  then show ?thesis using parts plain by blast
qed

theorem filter_paths_normal_witness:
  "\<exists>parts. parts \<noteq> [] \<and> (\<forall>part \<in> set parts. plain_part part) \<and> ''src/lib.rs'' = join_slash parts
    \<and> normalize_repo_relative_path ''src/lib.rs'' = Inr ''src/lib.rs''"
  by (rule filter_paths_normal [of "''./src'' @ CHR 0x5C # ''lib.rs''"]) (simp add: normalize_repo_relative_path_def Let_def)

section \<open>Visiting the changes\<close>

fun visit_list :: "('v, 'b) visitor \<Rightarrow> FileChange list \<Rightarrow> 'v \<Rightarrow> 'v \<times> 'b option" where
  "visit_list f [] v = (v, None)"
| "visit_list f (c # cs) v = (case f v c of (v', Some b) \<Rightarrow> (v', Some b) | (v', None) \<Rightarrow> visit_list f cs v')"

text \<open>The walk shows every visitor the same changes.\<close>

lemma diff_loop_visits:
  assumes "diff_loop M S visitor stack v = Some r"
  shows "visitor = collect \<longrightarrow> snd r = Inr None \<longrightarrow>
    (\<exists>cs. fst r = v @ cs \<and> (\<forall>(f :: ('w, 'c) visitor) w. diff_loop M S f stack w = Some (case visit_list f cs w of (w', b) \<Rightarrow> (w', Inr b))))"
proof (rule diff_loop.raw_induct [where P = "\<lambda>M S visitor stack v r. visitor = collect \<longrightarrow> snd r = Inr None \<longrightarrow>
    (\<exists>cs. fst r = v @ cs \<and> (\<forall>(f :: ('w, 'c) visitor) w. diff_loop M S f stack w = Some (case visit_list f cs w of (w', b) \<Rightarrow> (w', Inr b))))"],
    goal_cases)
  case (1 diff M S visitor stack v r)
  show ?case
  proof (intro impI)
    assume vis: "visitor = collect" and fine: "snd r = Inr None"
    have IH: "\<exists>cs. fst r' = v' @ cs \<and> (\<forall>(f :: ('w, 'c) visitor) w. diff_loop M S f stack' w = Some (case visit_list f cs w of (w', b) \<Rightarrow> (w', Inr b)))"
      if "diff M S collect stack' v' = Some r'" "snd r' = Inr None" for stack' v' r'
      using 1(1) [of M S collect stack' v' r'] that vis by blast
    show "\<exists>cs. fst r = v @ cs \<and> (\<forall>(f :: ('w, 'c) visitor) w. diff_loop M S f stack w = Some (case visit_list f cs w of (w', b) \<Rightarrow> (w', Inr b)))"
    proof (cases stack)
      case Nil
      then show ?thesis using 1(2) by (intro exI [of _ "[]"]) (auto simp: diff_loop.simps [of M S _ "[]"])
    next
      case (Cons frame rest)
      note turn = diff_loop.simps [of M S _ "frame # rest"]
      obtain frame' step where adv: "advance_merge frame = (frame', step)" by (cases "advance_merge frame")
      show ?thesis
      proof (cases step)
        case (Emit c)
        then have "diff M S collect (frame' # rest) (v @ [c]) = Some r"
          using 1(2) Cons adv vis by (simp add: collect_def)
        from IH [OF this fine] obtain cs where cs: "fst r = (v @ [c]) @ cs"
          "\<forall>(f :: ('w, 'c) visitor) w. diff_loop M S f (frame' # rest) w = Some (case visit_list f cs w of (w', b) \<Rightarrow> (w', Inr b))" by blast
        have "diff_loop M S f (frame # rest) w = Some (case visit_list f (c # cs) w of (w', b) \<Rightarrow> (w', Inr b))" for f :: "('w, 'c) visitor" and w
          using Emit adv cs(2) by (auto simp: turn split: prod.splits option.splits)
        then show ?thesis using cs(1) Cons by (intro exI [of _ "c # cs"]) auto
      next
        case (Descend fh th name)
        obtain ft where ft: "require_tree_option M S fh = Inr ft"
          using 1(2) Cons adv Descend fine by (cases "require_tree_option M S fh") auto
        obtain tt where tt: "require_tree_option M S th = Inr tt"
          using 1(2) Cons adv Descend fine ft by (cases "require_tree_option M S th") auto
        have "diff M S collect (\<lparr>df_from = ft, df_to = tt, df_prefix = child_path (df_prefix frame') name,
            df_from_index = 0, df_to_index = 0\<rparr> # frame' # rest) v = Some r"
          using 1(2) Cons adv Descend ft tt vis by simp
        from IH [OF this fine] show ?thesis using Cons adv Descend ft tt by (simp add: turn)
      next
        case Done
        then have "diff M S collect rest v = Some r" using 1(2) Cons adv vis by simp
        from IH [OF this fine] show ?thesis using Cons adv Done by (simp add: turn)
      qed
    qed
  qed
qed (rule assms)

definition tree_changes :: "'g history_lib \<Rightarrow> ContentHash option \<Rightarrow> ContentHash \<Rightarrow> FileChange list \<Rightarrow> bool" where
  "tree_changes L base tree cs \<longleftrightarrow> diff_trees_visit (hl_missing L) (hl_trees L) base tree collect [] = Some (cs, Inr None)"

lemma changes_visited:
  fixes f :: "('w, 'c) visitor"
  assumes "tree_changes L base tree cs"
  shows "diff_trees_visit (hl_missing L) (hl_trees L) base tree f w = Some (case visit_list f cs w of (w', b) \<Rightarrow> (w', Inr b))"
proof -
  obtain bt where bt: "require_tree_option (hl_missing L) (hl_trees L) base = Inr bt"
    using assms by (cases "require_tree_option (hl_missing L) (hl_trees L) base") (auto simp: tree_changes_def diff_trees_visit_def)
  show ?thesis
  proof (cases "base = Some tree")
    case True
    then show ?thesis using assms bt by (auto simp: tree_changes_def diff_trees_visit_def)
  next
    case False
    obtain tt where tt: "require_tree (hl_missing L) (hl_trees L) tree = Inr tt"
      using assms bt False by (cases "require_tree (hl_missing L) (hl_trees L) tree") (auto simp: tree_changes_def diff_trees_visit_def)
    let ?frame = "\<lparr>df_from = bt, df_to = Some tt, df_prefix = [], df_from_index = 0, df_to_index = 0\<rparr>"
    have "diff_loop (hl_missing L) (hl_trees L) collect [?frame] [] = Some (cs, Inr None)"
      using assms bt tt False by (simp add: tree_changes_def diff_trees_visit_def)
    from diff_loop_visits [OF this, where ?'w = 'w and ?'c = 'c] have
      "diff_loop (hl_missing L) (hl_trees L) f [?frame] w = Some (case visit_list f cs w of (w', b) \<Rightarrow> (w', Inr b))" by auto
    then show ?thesis using bt tt False by (simp add: diff_trees_visit_def)
  qed
qed

text \<open>On a store without cycles the changes are those of the recursion over both trees.\<close>

lemma deep_changes:
  assumes "\<forall>h. base = Some h \<longrightarrow> deep (Suc k) S h" "deep (Suc k) S tree"
  shows "diff_trees_visit M S base tree collect [] = Some (if base = Some tree then [] else
      diff_ref S k [] (case base of Some h \<Rightarrow> sub_entries S h | None \<Rightarrow> []) (sub_entries S tree), Inr None)"
proof -
  let ?from = "case base of Some h \<Rightarrow> sub_entries S h | None \<Rightarrow> []"
  have t: "require_tree_option M S base = Inr (opened S base)" by (rule require_deep [OF assms(1)])
  obtain t' where t': "S tree = Inr (Some t')" using assms(2) by (auto elim: deep_tree)
  have frame: "at_lists (open_frame S base (Some tree) []) [] ?from (sub_entries S tree)"
    using at_open [OF assms(1), of "Some tree" "[]"] assms(2) by simp
  have "all_deep k S ?from" "all_deep k S (sub_entries S tree)"
    using assms by (auto simp: deep_entries split: option.split)
  then have "diff_loop M S collect [open_frame S base (Some tree) []] [] = Some (diff_ref S k [] ?from (sub_entries S tree), Inr None)"
    using walks_all frame unfolding walks_def by (metis append_Nil loop_end)
  then show ?thesis
    using t t' by (simp add: diff_trees_visit_def require_tree_def open_frame_def opened_def)
qed

definition bloom_of :: "'g history_lib \<Rightarrow> FileChange list \<Rightarrow> bytes" where
  "bloom_of L cs = fold (\<lambda>c. bloom_insert (hl_hash L) (fc_path c)) cs (replicate 256 0)"

lemma visit_bloom: "visit_list (bloom_visitor H) cs b = (fold (\<lambda>c. bloom_insert H (fc_path c)) cs b, None)"
  by (induction cs arbitrary: b) (simp_all add: bloom_visitor_def)

lemma visit_match: "visit_list (match_visitor fs) cs () = ((), if \<exists>c \<in> set cs. filters_matches fs (fc_path c) then Some () else None)"
  by (induction cs) (simp_all add: match_visitor_def)

lemma fold_bloom_keeps:
  "length b = 256 \<Longrightarrow> length (fold (\<lambda>c. bloom_insert H (fc_path c)) cs b) = 256
     \<and> (has_bit b q \<longrightarrow> has_bit (fold (\<lambda>c. bloom_insert H (fc_path c)) cs b) q)"
  by (induction cs arbitrary: b) (simp_all add: bloom_insert_effect)

text \<open>No change is hidden by the filter of all changes.\<close>

lemma bloom_of_matches:
  assumes c: "c \<in> set cs" "filters_matches fs (fc_path c)"
  shows "bloom_maybe_matches (hl_hash L) fs (bloom_of L cs)"
proof -
  let ?ins = "\<lambda>c. bloom_insert (hl_hash L) (fc_path c)"
  obtain f where f: "f \<in> set fs" "filter_matches f (fc_path c)" using c(2) by (auto simp: filters_matches_def list_ex_iff)
  obtain us vs where cs: "cs = us @ c # vs" using c(1) by (meson split_list)
  let ?b = "fold ?ins us (replicate 256 0)"
  have b: "length ?b = 256" by (rule fold_bloom_keeps [THEN conjunct1]) simp
  have "bloom_maybe_contains (hl_hash L) (?ins c ?b) (cf_path f)"
    by (rule bloom_insert_effect(3) [OF b]) (use f(2) in \<open>simp add: filter_matches_iff\<close>)
  moreover have "bloom_of L cs = fold ?ins vs (?ins c ?b)" by (simp add: bloom_of_def cs)
  ultimately have "bloom_maybe_contains (hl_hash L) (bloom_of L cs) (cf_path f)"
    using fold_bloom_keeps [OF bloom_insert_effect(1) [OF b], where cs = vs] by (auto simp: contains_iff)
  then show ?thesis using f(1) by (auto simp: bloom_maybe_matches_def list_ex_iff)
qed

section \<open>The chain of first parents\<close>

fun history_chain :: "(StateId \<Rightarrow> ('z State_scheme) option outcome) \<Rightarrow> StateId \<Rightarrow> StateId list \<Rightarrow> bool" where
  "history_chain source x [] \<longleftrightarrow> False"
| "history_chain source x (y # ys) \<longleftrightarrow> x = y
     \<and> (case source x of
          Inr (Some st) \<Rightarrow> (case st_parents st of [] \<Rightarrow> ys = [] | p # _ \<Rightarrow> history_chain source p ys)
        | _ \<Rightarrow> False)"

definition state_of :: "(StateId \<Rightarrow> ('z State_scheme) option outcome) \<Rightarrow> StateId \<Rightarrow> 'z State_scheme" where
  "state_of source x = the (projr (source x))"

text \<open>What changed in a state against its first parent.\<close>

definition state_changes :: "'g history_lib \<Rightarrow> (StateId \<Rightarrow> ('z State_scheme) option outcome) \<Rightarrow> StateId \<Rightarrow> FileChange list \<Rightarrow> bool" where
  "state_changes L source x cs \<longleftrightarrow>
     (\<exists>base. parent_tree_hash source (state_of source x) = Inr base \<and> tree_changes L base (st_tree (state_of source x)) cs)"

definition selected :: "HistoryQuery \<Rightarrow> (StateId \<Rightarrow> ('z State_scheme) option outcome) \<Rightarrow> (StateId \<Rightarrow> FileChange list) \<Rightarrow> StateId \<Rightarrow> bool" where
  "selected query source changed x \<longleftrightarrow> agent_allows query (st_agent_model (state_of source x))
     \<and> (hq_changed_paths query = [] \<or> (\<exists>c \<in> set (changed x). filters_matches (hq_changed_paths query) (fc_path c)))"

definition history_answer :: "HistoryQuery \<Rightarrow> (StateId \<Rightarrow> ('z State_scheme) option outcome) \<Rightarrow> (StateId \<Rightarrow> FileChange list) \<Rightarrow> nat \<Rightarrow> StateId list \<Rightarrow> StateId list" where
  "history_answer query source changed n xs =
     take n (filter (selected query source changed) (takeWhile (\<lambda>x. hq_stop_at query \<noteq> Some x) xs))"

text \<open>The nodes agree with the source, and a Bloom filter, where there is one, is that of the changes.\<close>

definition session_ok :: "'g history_lib \<Rightarrow> (StateId \<Rightarrow> FileChange list) \<Rightarrow> StateId list \<Rightarrow> ('c, 'z) CommitGraphIndex \<Rightarrow> bool" where
  "session_ok L changed xs ix \<longleftrightarrow> (\<forall>x \<in> set xs. \<exists>st node. gi_source ix x = Inr (Some st) \<and> gi_nodes ix x = Some node
     \<and> gn_parents node = st_parents st \<and> gn_tree_hash node = st_tree st \<and> gn_agent_model node = st_agent_model st
     \<and> (gn_bloom node = None \<or> gn_bloom node = Some (bloom_of L (changed x)))
     \<and> state_changes L (gi_source ix) x (changed x))"

lemma bloom_populated:
  assumes ok: "session_ok L changed (x # ys) ix" and chain: "history_chain (gi_source ix) x (x # ys)"
  obtains ix' where "ensure_bloom_populated_from_loaded L x ix = Some (ix', Inr ())" "gi_source ix' = gi_source ix"
    "session_ok L changed (x # ys) ix'" "node_bloom ix' x = Some (bloom_of L (changed x))"
proof -
  obtain st node where n: "gi_source ix x = Inr (Some st)" "gi_nodes ix x = Some node" "gn_parents node = st_parents st"
    "gn_tree_hash node = st_tree st" "gn_bloom node = None \<or> gn_bloom node = Some (bloom_of L (changed x))"
    "state_changes L (gi_source ix) x (changed x)" using ok by (auto simp: session_ok_def)
  show ?thesis
  proof (cases "gn_bloom node")
    case (Some b)
    then show ?thesis using that [of ix] n ok by (auto simp: ensure_bloom_populated_from_loaded_def node_bloom_def)
  next
    case None
    obtain base where base: "parent_tree_hash (gi_source ix) st = Inr base" "tree_changes L base (st_tree st) (changed x)"
      using n(1,6) by (auto simp: state_changes_def state_of_def)
    have parent: "(case gn_parents node of [] \<Rightarrow> Inr None
        | p # _ \<Rightarrow> (case gi_nodes ix p of None \<Rightarrow> Inl (StateNotFound p) | Some parent \<Rightarrow> Inr (Some (gn_tree_hash parent)))) = Inr base"
    proof (cases "st_parents st")
      case Nil
      then show ?thesis using base(1) n(3) by (simp add: parent_tree_hash_def)
    next
      case (Cons p ps)
      then have "history_chain (gi_source ix) p ys" using chain n(1) by simp
      then have "p \<in> set ys" by (cases ys) auto
      then obtain pst pnode where "gi_source ix p = Inr (Some pst)" "gi_nodes ix p = Some pnode" "gn_tree_hash pnode = st_tree pst"
        using ok by (force simp: session_ok_def)
      then show ?thesis using base(1) n(3) Cons by (simp add: parent_tree_hash_def source_result_def)
    qed
    let ?ix = "ix\<lparr>gi_nodes := (gi_nodes ix)(x \<mapsto> node\<lparr>gn_bloom := Some (bloom_of L (changed x))\<rparr>), gi_dirty := True\<rparr>"
    have "ensure_bloom_populated_from_loaded L x ix = Some (?ix, Inr ())"
      using n(2,4) None parent changes_visited [OF base(2), of "bloom_visitor (hl_hash L)" "replicate 256 0"]
      by (simp add: ensure_bloom_populated_from_loaded_def node_bloom_def visit_bloom bloom_of_def)
    moreover have "session_ok L changed (x # ys) ?ix" using ok n by (auto simp: session_ok_def)
    ultimately show ?thesis using that [of ?ix] by (simp add: node_bloom_def)
  qed
qed

lemma walk_answers:
  fixes ix :: "('c, 'z) CommitGraphIndex"
  assumes "session_ok L changed xs ix" "history_chain (gi_source ix) x xs"
  shows "\<exists>ix'. history_walk L query (Some x) candidates ix
    = Some (ix', Inr (candidates @ history_answer query (gi_source ix) changed (hq_limit query - length candidates) xs))"
  using assms
proof (induction xs arbitrary: x ix candidates)
  case (Cons y ys)
  have y: "y = x" using Cons.prems(2) by simp
  obtain st node where n: "gi_source ix x = Inr (Some st)" "gi_nodes ix x = Some node" "gn_parents node = st_parents st"
    "gn_tree_hash node = st_tree st" "gn_agent_model node = st_agent_model st"
    "state_changes L (gi_source ix) x (changed x)" using Cons.prems(1) y by (auto simp: session_ok_def)
  have st: "state_of (gi_source ix) x = st" using n(1) by (simp add: state_of_def)
  let ?first = "case gn_parents node of [] \<Rightarrow> None | p # _ \<Rightarrow> Some p"
  let ?rest = "\<lambda>cands. cands @ history_answer query (gi_source ix) changed (hq_limit query - length cands) ys"
  have IH: "\<exists>ix''. history_walk L query ?first cands ix' = Some (ix'', Inr (?rest cands))"
    if s: "gi_source ix' = gi_source ix" "session_ok L changed (y # ys) ix'" for cands and ix' :: "('c, 'z) CommitGraphIndex"
  proof (cases "st_parents st")
    case Nil
    then have "ys = []" using Cons.prems(2) n(1) by simp
    then show ?thesis using Nil n(3) by (simp add: history_walk.simps [of _ _ None] history_answer_def)
  next
    case (Cons p ps)
    then have "history_chain (gi_source ix') p ys" using Cons.prems(2) n(1) s(1) y by simp
    moreover have "session_ok L changed ys ix'" using s(2) by (simp add: session_ok_def)
    ultimately show ?thesis using Cons.IH [of ix' p cands] Cons n(3) s(1) by simp
  qed
  note turn = history_walk.simps [of L query "Some x" candidates ix]
  have meta: "node_metadata ix x = Some \<lparr>cm_tree_hash = gn_tree_hash node, cm_first_parent = ?first,
      cm_agent_model = gn_agent_model node, cm_created_at_secs = gn_created_at_secs node\<rparr>" using n(2) by (simp add: node_metadata_def)
  show ?case
  proof (cases "length candidates \<ge> hq_limit query \<or> hq_stop_at query = Some x")
    case True
    then show ?thesis using y by (auto simp: turn history_answer_def)
  next
    case go: False
    have answer: "candidates @ history_answer query (gi_source ix) changed (hq_limit query - length candidates) (y # ys)
        = ?rest (if selected query (gi_source ix) changed x then candidates @ [x] else candidates)"
    proof -
      obtain m where m: "hq_limit query - length candidates = Suc m" using go by (metis Suc_diff_Suc not_le)
      then have "hq_limit query - Suc (length candidates) = m" by simp
      then show ?thesis using m go y by (simp add: history_answer_def)
    qed
    show ?thesis
    proof (cases "agent_allows query (gn_agent_model node) \<and> hq_changed_paths query \<noteq> []")
      case False
      then have "history_walk L query (Some x) candidates ix
          = history_walk L query ?first (if selected query (gi_source ix) changed x then candidates @ [x] else candidates) ix"
        using go meta n(5) st by (auto simp: turn selected_def)
      then show ?thesis using IH [OF refl Cons.prems(1)] answer by simp
    next
      case True
      have chain: "history_chain (gi_source ix) x (x # ys)" using Cons.prems(2) y by simp
      from bloom_populated [OF Cons.prems(1) [unfolded y] chain] obtain ix1 where ix1:
        "ensure_bloom_populated_from_loaded L x ix = Some (ix1, Inr ())" "gi_source ix1 = gi_source ix"
        "session_ok L changed (x # ys) ix1" "node_bloom ix1 x = Some (bloom_of L (changed x))" by blast
      let ?hit = "\<exists>c \<in> set (changed x). filters_matches (hq_changed_paths query) (fc_path c)"
      have sel: "selected query (gi_source ix) changed x \<longleftrightarrow> ?hit" using True n(5) st by (simp add: selected_def)
      have "history_walk L query (Some x) candidates ix
          = history_walk L query ?first (if ?hit then candidates @ [x] else candidates) ix1"
      proof (cases "bloom_maybe_matches (hl_hash L) (hq_changed_paths query) (bloom_of L (changed x))")
        case False
        then have "\<not> ?hit" using bloom_of_matches by blast
        then show ?thesis using go meta True ix1 False by (simp add: turn)
      next
        case maybe: True
        obtain base where base: "parent_tree_hash (gi_source ix) st = Inr base" "tree_changes L base (st_tree st) (changed x)"
          using n(1,6) by (auto simp: state_changes_def state_of_def)
        have "state_matches_changed_paths L (gi_source ix) st (hq_changed_paths query) = Some (Inr ?hit)"
          using base changes_visited [OF base(2), of "match_visitor (hq_changed_paths query)" "()"]
          by (simp add: state_matches_changed_paths_def visit_match)
        then show ?thesis using go meta True ix1 maybe n(1) by (simp add: turn)
      qed
      then show ?thesis using IH [OF ix1(2) ix1(3) [folded y]] answer sel by simp
    qed
  qed
qed simp

section \<open>The query\<close>

lemma chain_ancestors:
  assumes "history_chain source x xs" "y \<in> set xs"
    and "\<And>z st. source z = Inr (Some st) \<Longrightarrow> resolved_parents K z = Some (st_parents st)"
  shows "y \<in> ancestors (resolved_parents K) x \<and> (\<exists>st. source y = Inr (Some st))"
  using assms(1,2)
proof (induction xs arbitrary: x)
  case (Cons z zs)
  obtain st where st: "source x = Inr (Some st)" "x = z" using Cons.prems(1) by (auto split: sum.splits option.splits)
  show ?case
  proof (cases "y = x")
    case False
    then have y: "y \<in> set zs" using Cons.prems(2) st(2) by simp
    then obtain p ps where p: "st_parents st = p # ps" "history_chain source p zs"
      using Cons.prems(1) st by (cases "st_parents st") auto
    have "p \<in> ancestors (resolved_parents K) x"
      using ancestors_parent [OF ancestors_self [of x "resolved_parents K"] assms(3) [OF st(1)], of p] p(1) by simp
    then show ?thesis using Cons.IH [OF p(2) y] ancestors_trans by metis
  qed (use st in auto)
qed simp

lemma candidates_loaded:
  "\<forall>x \<in> set xs. \<exists>st. source x = Inr (Some st) \<Longrightarrow> load_candidates source xs = Inr (map (state_of source) xs)"
  by (induction xs) (auto simp: source_result_def state_of_def)

lemma fresh_known:
  "known_data (with_cache source NullCommitGraphCache ()) x =
     (case source x of Inl e \<Rightarrow> Inl (SourceError e)
      | Inr st \<Rightarrow> Inr (map_option (\<lambda>s. (st_parents s, st_tree s, st_created_at_secs s, st_agent_model s)) st))"
  by (simp add: known_data_def with_cache_def NullCommitGraphCache_def load_state_data_def source_result_def split: sum.splits)

text \<open>C26: A history query over a source returns the states of the first-parent chain, in order and up to the limit, that come
  before the stop and whose agent and changes against the first parent match the filters; the Bloom filters only save work.\<close>

theorem history_query_exact:
  assumes start: "hq_start query = Some start"
    and readable: "resolvable k (known_data (with_cache source NullCommitGraphCache ())) start"
    and chain: "history_chain source start xs"
    and changes: "\<forall>x \<in> set xs. state_changes L source x (changed x)"
  shows "query_history_from_source L source query
    = Some (Inr (map (state_of source) (history_answer query source changed (hq_limit query) xs)))"
proof -
  let ?ix = "with_cache source NullCommitGraphCache ()"
  let ?K = "known_data ?ix"
  have src: "gi_source ?ix = source" by (simp add: with_cache_def NullCommitGraphCache_def)
  have empty: "gi_nodes ?ix x = None" for x by (simp add: with_cache_def NullCommitGraphCache_def)
  have parents: "resolved_parents ?K z = Some (st_parents st)" if "source z = Inr (Some st)" for z st
    using that by (simp add: resolved_parents_def fresh_known)
  have anc: "y \<in> ancestors (resolved_parents ?K) start" "\<exists>st. source y = Inr (Some st)" if "y \<in> set xs" for y
    using chain_ancestors [OF chain that parents] by blast+
  show ?thesis
  proof (cases "hq_limit query = 0 \<or> hq_stop_at query = Some start")
    case True
    moreover obtain ys where "xs = start # ys" using chain by (cases xs) auto
    ultimately have "history_answer query source changed (hq_limit query) xs = []" by (auto simp: history_answer_def)
    then show ?thesis using True start by (simp add: query_history_from_source_def query_history_with_cache_def Let_def)
  next
    case False
    obtain dirty where loaded: "ensure_loaded_in_memory start ?ix = Some (settled_on ?ix (ancestors (resolved_parents ?K) start) dirty, Inr ())"
      using loaded_in_memory [OF readable] by blast
    let ?ix1 = "settled_on ?ix (ancestors (resolved_parents ?K) start) dirty"
    have src1: "gi_source ?ix1 = source" using src by (simp add: settled_on_def)
    have "session_ok L changed xs ?ix1"
      unfolding session_ok_def src1
    proof
      fix x assume x: "x \<in> set xs"
      obtain st where st: "source x = Inr (Some st)" using anc(2) [OF x] by blast
      have "gi_nodes ?ix1 x = Some \<lparr>gn_parents = st_parents st, gn_generation = the (depth ?K x), gn_tree_hash = st_tree st,
          gn_created_at_secs = st_created_at_secs st, gn_agent_model = st_agent_model st, gn_bloom = None\<rparr>"
        using anc(1) [OF x] st empty by (simp add: settled_on_nodes settled_node_def fresh_known)
      then show "\<exists>st node. source x = Inr (Some st) \<and> gi_nodes ?ix1 x = Some node
          \<and> gn_parents node = st_parents st \<and> gn_tree_hash node = st_tree st \<and> gn_agent_model node = st_agent_model st
          \<and> (gn_bloom node = None \<or> gn_bloom node = Some (bloom_of L (changed x))) \<and> state_changes L source x (changed x)"
        using st changes x by auto
    qed
    from walk_answers [OF this, of start query "[]"] obtain ix2 where
      "history_walk L query (Some start) [] ?ix1 = Some (ix2, Inr (history_answer query source changed (hq_limit query) xs))"
      using chain src1 by auto
    moreover have "set (history_answer query source changed (hq_limit query) xs) \<subseteq> set xs"
      by (auto simp: history_answer_def dest!: in_set_takeD set_takeWhileD)
    then have "load_candidates source (history_answer query source changed (hq_limit query) xs)
        = Inr (map (state_of source) (history_answer query source changed (hq_limit query) xs))"
      using anc(2) by (intro candidates_loaded) blast
    moreover have "query_history_with_cache L source query NullCommitGraphCache ()
        = map_option (\<lambda>(ix, r). (gi_disk (persist_if_dirty ix), and_then r (load_candidates source))) (history_walk L query (Some start) [] ?ix1)"
      unfolding query_history_with_cache_def Let_def start option.case loaded prod.case sum.case using False by (simp only: if_False simp_thms)
    ultimately show ?thesis
      by (simp only: query_history_from_source_def option.map prod.case and_then_simps snd_conv)
  qed
qed

section \<open>A file and a directory of one name\<close>

definition proper_name :: "string \<Rightarrow> bool" where
  "proper_name n \<longleftrightarrow> n \<noteq> [] \<and> CHR 0x2F \<notin> set n"

text \<open>Every stored tree names its entries with proper names.\<close>

definition proper_names :: "'g tree_store \<Rightarrow> bool" where
  "proper_names S \<longleftrightarrow> (\<forall>h. \<forall>e \<in> set (sub_entries S h). proper_name (te_name e))"

lemma path_of_join: "p \<noteq> [] \<Longrightarrow> path_of p ns = join_slash (p # ns)"
proof (induction ns arbitrary: p)
  case (Cons n ns)
  have "path_of p (n # ns) = join_slash ((p @ CHR 0x2F # n) # ns)" using Cons.prems Cons.IH by (simp add: child_path_def)
  also have "\<dots> = join_slash (p # n # ns)" by (cases ns) simp_all
  finally show ?case .
qed simp

lemma root_path_of: "\<forall>n \<in> set ns. proper_name n \<Longrightarrow> path_of [] ns = join_slash ns"
  by (cases ns) (simp_all add: child_path_def proper_name_def path_of_join)

lemma split_join_below:
  "parts \<noteq> [] \<Longrightarrow> \<forall>part \<in> set parts. CHR 0x2F \<notin> set part \<Longrightarrow> split_slash (join_slash parts @ CHR 0x2F # s) = parts @ split_slash s"
  by (induction parts rule: join_slash.induct) (simp_all add: split_slash_append)

lemma path_match:
  assumes "q \<noteq> []" "\<forall>n \<in> set q. proper_name n" "\<forall>n \<in> set ns. proper_name n"
    and "filter_matches \<lparr>cf_path = path_of [] q\<rparr> (path_of [] ns)"
  shows "\<exists>rest. ns = q @ rest"
proof -
  have plain: "\<forall>n \<in> set q. CHR 0x2F \<notin> set n" "\<forall>n \<in> set ns. CHR 0x2F \<notin> set n" using assms(2,3) by (simp_all add: proper_name_def)
  have "join_slash q \<noteq> []" using assms(1,2) by (cases q rule: join_slash.cases) (auto simp: proper_name_def)
  then have "ns \<noteq> []" using assms(2-4) by (auto simp: filter_matches_iff root_path_of)
  then have ns: "split_slash (path_of [] ns) = ns" using plain(2) assms(3) by (simp add: root_path_of split_join)
  have "path_of [] ns = join_slash q \<or> (\<exists>rest. path_of [] ns = join_slash q @ CHR 0x2F # rest)"
    using assms(2,4) by (auto simp: filter_matches_iff root_path_of)
  then have "split_slash (path_of [] ns) = q \<or> (\<exists>rest. split_slash (path_of [] ns) = q @ split_slash rest)"
    using split_join [OF assms(1) plain(1)] split_join_below [OF assms(1) plain(1)] by metis
  then show ?thesis using ns by (metis append_Nil2)
qed

lemma reported_proper:
  "reported S fs ts ns kind \<Longrightarrow> proper_names S \<Longrightarrow> \<forall>e \<in> set fs \<union> set ts. proper_name (te_name e) \<Longrightarrow> \<forall>n \<in> set ns. proper_name n"
proof (induction ns arbitrary: fs ts)
  case (Cons n ns)
  have sub: "\<And>h. \<forall>e \<in> set (sub_entries S h). proper_name (te_name e)" using Cons.prems(2) by (simp add: proper_names_def)
  have below: "\<forall>m \<in> set ns. proper_name m" if "reported S fs' ts' ns kind" "\<forall>e \<in> set fs' \<union> set ts'. proper_name (te_name e)" for fs' ts'
    using Cons.IH [OF that(1) Cons.prems(2) that(2)] .
  have name: "proper_name n" if "entry_at fs n = Some e \<or> entry_at ts n = Some e" for e
    using that Cons.prems(3) by (auto dest!: entry_at_in)
  show ?case
  proof (cases "entry_at fs n"; cases "entry_at ts n")
    fix f assume e: "entry_at fs n = Some f" "entry_at ts n = None"
    then show ?thesis using Cons.prems(1) name sub below [of _ "[]"] by (cases "target_tree_hash (te_target f)") auto
  next
    fix t assume e: "entry_at fs n = None" "entry_at ts n = Some t"
    then show ?thesis using Cons.prems(1) name sub below [of "[]"] by (cases "target_tree_hash (te_target t)") auto
  next
    fix f t assume e: "entry_at fs n = Some f" "entry_at ts n = Some t"
    then have n: "proper_name n" using name by blast
    show ?thesis
    proof (cases "target_tree_hash (te_target f)"; cases "target_tree_hash (te_target t)")
      fix h h' assume "target_tree_hash (te_target f) = Some h" "target_tree_hash (te_target t) = Some h'"
      then have "reported S (sub_entries S h) (sub_entries S h') ns kind" using Cons.prems(1) e by simp
      from below [OF this] show ?thesis using n sub [of h] sub [of h'] by auto
    qed (use Cons.prems(1) e n in simp_all)
  qed (use Cons.prems in simp)
qed simp

lemma leaf_proper:
  "leaf_at S es ns \<noteq> None \<Longrightarrow> proper_names S \<Longrightarrow> \<forall>e \<in> set es. proper_name (te_name e) \<Longrightarrow> \<forall>n \<in> set ns. proper_name n"
proof (induction ns arbitrary: es)
  case (Cons n ns)
  then obtain e where e: "entry_at es n = Some e" by (cases "entry_at es n") auto
  then have n: "proper_name n" using Cons.prems(3) by (auto dest!: entry_at_in)
  show ?case
  proof (cases "target_tree_hash (te_target e)")
    case (Some h)
    then have "leaf_at S (sub_entries S h) ns \<noteq> None" using Cons.prems(1) e by simp
    from Cons.IH [OF this Cons.prems(2)] show ?thesis using n Cons.prems(2) by (simp add: proper_names_def)
  qed (use Cons.prems(1) e n in \<open>simp split: if_splits\<close>)
qed simp

lemma replaced_stops:
  assumes "leaf_at S fs ns \<noteq> None \<and> leaf_at S ts (ns @ m # ms) \<noteq> None \<or> leaf_at S ts ns \<noteq> None \<and> leaf_at S fs (ns @ m # ms) \<noteq> None"
  shows "reported S fs ts ns Modified" "\<not> reported S fs ts (ns @ m # rest) kind"
proof -
  have "reported S fs ts ns Modified \<and> \<not> reported S fs ts (ns @ m # rest) kind"
    using assms
  proof (induction ns arbitrary: fs ts)
    case (Cons n ns)
    obtain f t where e: "entry_at fs n = Some f" "entry_at ts n = Some t"
      using Cons.prems by (cases "entry_at fs n"; cases "entry_at ts n") auto
    show ?case
    proof (cases "target_tree_hash (te_target f)"; cases "target_tree_hash (te_target t)")
      fix h h' assume h: "target_tree_hash (te_target f) = Some h" "target_tree_hash (te_target t) = Some h'"
      have IH: "reported S (sub_entries S h) (sub_entries S h') ns Modified
          \<and> \<not> reported S (sub_entries S h) (sub_entries S h') (ns @ m # rest) kind"
        using Cons.prems e h by (intro Cons.IH) simp
      moreover have "te_target f \<noteq> te_target t"
        using IH h reported_differs [of S "sub_entries S h" "sub_entries S h'" ns Modified] by auto
      ultimately show ?thesis using e h by simp
    qed (use Cons.prems e in \<open>auto split: if_splits\<close>)
  qed simp
  then show "reported S fs ts ns Modified" "\<not> reported S fs ts (ns @ m # rest) kind" by blast+
qed

text \<open>C28: Where one of two trees has a file and the other a directory with a file in it, the file in the directory is not among
  the changes: on a store without cycles whose entries have proper names, the comparison ends, reports the path of the file as
  modified, and no change it reports matches a history filter for the path of the file in the directory, although only one of the
  trees has it.\<close>

theorem replaced_file_hides_additions:
  assumes "deep (Suc k) S source" "deep (Suc k) S to" "proper_names S"
    and "leaf_at S (sub_entries S source) ns \<noteq> None \<and> leaf_at S (sub_entries S to) (ns @ m # ms) \<noteq> None
      \<or> leaf_at S (sub_entries S to) ns \<noteq> None \<and> leaf_at S (sub_entries S source) (ns @ m # ms) \<noteq> None"
  shows "\<exists>changes. diff_trees M S source to = Some (Inr changes)
    \<and> new_change (path_of [] ns) Modified \<in> set changes
    \<and> (\<forall>c \<in> set changes. \<not> filters_matches [\<lparr>cf_path = path_of [] (ns @ m # ms)\<rparr>] (fc_path c))"
proof -
  let ?fs = "sub_entries S source" and ?ts = "sub_entries S to"
  note reports = diff_ref_reported [OF deep_entries [OF assms(1)] deep_entries [OF assms(2)], of _ "[]"]
  have stops: "reported S ?fs ?ts ns Modified" "\<And>rest kind. \<not> reported S ?fs ?ts (ns @ m # rest) kind"
    using replaced_stops [OF assms(4)] by blast+
  have "\<forall>e \<in> set ?fs \<union> set ?ts. proper_name (te_name e)" using assms(3) by (auto simp: proper_names_def)
  then have proper: "\<And>ns kind. reported S ?fs ?ts ns kind \<Longrightarrow> \<forall>n \<in> set ns. proper_name n"
    and leaves: "\<forall>n \<in> set (ns @ m # ms). proper_name n"
    using reported_proper [OF _ assms(3)] assms(4) leaf_proper [OF _ assms(3)] by (blast, meson UnI1 UnI2)
  have "\<not> filter_matches \<lparr>cf_path = path_of [] (ns @ m # ms)\<rparr> (path_of [] ns')" if "reported S ?fs ?ts ns' kind" for ns' kind
    using path_match [of "ns @ m # ms" ns'] proper [OF that] leaves stops(2) that by fastforce
  then have "\<forall>c \<in> set (diff_ref S k [] ?fs ?ts). \<not> filters_matches [\<lparr>cf_path = path_of [] (ns @ m # ms)\<rparr>] (fc_path c)"
    by (auto simp: filters_matches_def reports)
  moreover have "new_change (path_of [] ns) Modified \<in> set (diff_ref S k [] ?fs ?ts)"
    unfolding reports using stops(1) by (auto simp: new_change_def)
  moreover have "source \<noteq> to" using reported_differs [OF stops(1)] by blast
  ultimately show ?thesis unfolding diff_trees_ref [OF assms(1,2)] by simp
qed

theorem replaced_file_hides_additions_witness:
  "\<exists>changes. diff_trees (\<lambda>_. IoError ''missing'') moved_in [1] [2] = Some (Inr changes)
    \<and> new_change ''a'' Modified \<in> set changes \<and> (\<forall>c \<in> set changes. \<not> filters_matches [\<lparr>cf_path = ''a/x''\<rparr>] (fc_path c))"
proof -
  have d: "deep (Suc 1) moved_in [1]" "deep (Suc 1) moved_in [2]" using moved_in_deep by (simp_all add: numeral_2_eq_2)
  have names: "proper_names moved_in"
    by (simp add: proper_names_def proper_name_def sub_entries_def moved_in_def flat_tree_def new_entry_def)
  have leaves: "leaf_at moved_in (sub_entries moved_in [1]) [''a''] \<noteq> None"
    "leaf_at moved_in (sub_entries moved_in [2]) ([''a''] @ ''x'' # []) \<noteq> None"
    by (simp_all add: leaf_at.simps sub_entries_def moved_in_def flat_tree_def new_entry_def)
  have paths: "path_of [] [''a''] = ''a''" "path_of [] ([''a''] @ ''x'' # []) = ''a/x''" by (simp_all add: child_path_def)
  show ?thesis
    using replaced_file_hides_additions [OF d names disjI1 [OF conjI [OF leaves]], of "\<lambda>_. IoError ''missing''"]
    unfolding paths .
qed

section \<open>Examples\<close>

text \<open>Two states: the first has a file \<open>a\<close>, the second a directory \<open>a\<close> with a file \<open>x\<close> in its place.\<close>

definition moved_lib :: "bytes history_lib" where
  "moved_lib = \<lparr>hl_missing = \<lambda>_. IoError ''missing'', hl_trees = moved_in, hl_hash = \<lambda>_. replicate 32 0\<rparr>"

definition moved_states :: "StateId \<Rightarrow> State option outcome" where
  "moved_states x = Inr (map_of
     [([10], \<lparr>st_parents = [], st_tree = [1], st_created_at_secs = 5, st_agent_model = None\<rparr>),
      ([11], \<lparr>st_parents = [[10]], st_tree = [2], st_created_at_secs = 6, st_agent_model = None\<rparr>)] x)"

definition moved_query :: HistoryQuery where
  "moved_query = (new_query (Some [11]))\<lparr>hq_changed_paths := [\<lparr>cf_path = ''a''\<rparr>]\<rparr>"

definition moved_changes :: "StateId \<Rightarrow> FileChange list" where
  "moved_changes x = [new_change ''a'' (if x = [10] then Added else Modified)]"

lemma moved_tree_changes:
  "diff_trees_visit (\<lambda>_. IoError ''missing'') moved_in None [1] collect [] = Some ([new_change ''a'' Added], Inr None)"
  "diff_trees_visit (\<lambda>_. IoError ''missing'') moved_in (Some [1]) [2] collect [] = Some ([new_change ''a'' Modified], Inr None)"
proof -
  have d: "deep (Suc 1) moved_in [1]" "deep (Suc 1) moved_in [2]" using moved_in_deep by (simp_all add: numeral_2_eq_2)
  have "diff_ref moved_in 1 [] [] (sub_entries moved_in [1]) = [new_change ''a'' Added]"
    "diff_ref moved_in 1 [] (sub_entries moved_in [1]) (sub_entries moved_in [2]) = [new_change ''a'' Modified]"
    by (simp_all add: sub_entries_def moved_in_def flat_tree_def new_entry_def child_path_def)
  then show "diff_trees_visit (\<lambda>_. IoError ''missing'') moved_in None [1] collect [] = Some ([new_change ''a'' Added], Inr None)"
    "diff_trees_visit (\<lambda>_. IoError ''missing'') moved_in (Some [1]) [2] collect [] = Some ([new_change ''a'' Modified], Inr None)"
    using deep_changes [of None 1 moved_in "[1]"] deep_changes [of "Some [1]" 1 moved_in "[2]"] d by simp_all
qed

lemma moved_state_changes: "\<forall>x \<in> set [[11], [10]]. state_changes moved_lib moved_states x (moved_changes x)"
  using moved_tree_changes
  by (auto simp: state_changes_def state_of_def moved_states_def moved_lib_def moved_changes_def tree_changes_def
      parent_tree_hash_def source_result_def)

theorem history_query_exact_witness:
  "query_history_from_source moved_lib moved_states moved_query
    = Some (Inr (map (state_of moved_states) (history_answer moved_query moved_states moved_changes 20 [[11], [10]])))
   \<and> history_answer moved_query moved_states moved_changes 20 [[11], [10]] = [[11], [10]]"
proof -
  have q: "hq_start moved_query = Some [11]" "hq_limit moved_query = 20" by (simp_all add: moved_query_def new_query_def)
  have "resolvable 2 (known_data (with_cache moved_states NullCommitGraphCache ())) [11]"
    by (simp add: numeral_2_eq_2 fresh_known moved_states_def)
  moreover have "history_chain moved_states [11] [[11], [10]]" by (simp add: moved_states_def)
  ultimately have "query_history_from_source moved_lib moved_states moved_query
      = Some (Inr (map (state_of moved_states) (history_answer moved_query moved_states moved_changes 20 [[11], [10]])))"
    using history_query_exact [OF q(1) _ _ moved_state_changes] q(2) by metis
  moreover have "history_answer moved_query moved_states moved_changes 20 [[11], [10]] = [[11], [10]]"
    by (simp add: history_answer_def selected_def moved_query_def new_query_def agent_allows_def moved_changes_def new_change_def
        filters_matches_def filter_matches_def)
  ultimately show ?thesis by blast
qed

end
