(* ===== verification/Spec2Isabelle.thy ===== *)
theory Spec2Isabelle
  imports Pack_Varint Pack_Entry Delta_Roundtrip Text_Merge_Correct Visibility
    Oplog_Bytes Name_Encoding_Correct Ref_Reconciler_Correct Refs_Publish_Correct Tree_Path
    Commit_Graph_Cache Commit_Graph_Async Repo_History_Correct
begin

text \<open>
  Heddle, a version control system written in Rust: a verification development of its storage formats, its
  text merge, its visibility rules, its operation log, its references, its trees, its commit graph and its history queries.

  \<^bold>\<open>The program.\<close> A repository keeps states (snapshots of a tree) in an object store, names them by threads and
  markers, and records every action as an entry of an operation log. \<^verbatim>\<open>src/crates/pack\<close> and
  \<^verbatim>\<open>src/crates/format\<close> hold the byte formats of packs and deltas, \<^verbatim>\<open>src/crates/merge\<close> the three-way
  merge of texts, \<^verbatim>\<open>src/crates/object-model\<close> the records (operations, visibility, attribution), and
  \<^verbatim>\<open>src/crates/oplog\<close> the log: packed containers, segmented generations with a manifest, and the handle that
  the rest of the program calls. \<^verbatim>\<open>src/crates/refs\<close> keeps the references in files and follows the log: a reference is written by
  committing a record to the log and then publishing its file, and a read that finds the files behind the log folds the newer records in.
  \<^verbatim>\<open>src/crates/repo\<close> puts them together; of it the ancestry of states and the queries of their history are modelled.

  \<^bold>\<open>Theories and sources.\<close>
  \<^item> \<open>Heddle_Prelude\<close>, \<open>Byte_Cursor\<close>, \<open>Rust_Str\<close>: bytes, sub-slices, big- and little-endian integers, UTF-8, decimal
    digits and the string functions of the standard library that the sources use.
  \<^item> \<open>Pack_Varint\<close>, \<open>Pack_Entry\<close>: \<^verbatim>\<open>pack/src/store/pack\<close>, the integers and tagged ids of pack entries, the strict and the
    streaming header decoder, and the checksummed container.
  \<^item> \<open>Delta_Decoder\<close>, \<open>Delta_Encoder\<close>, \<open>Delta_Roundtrip\<close>: \<^verbatim>\<open>format/src/delta\<close>, copy and insert instructions, the block index of the
    base, the greedy encoder and the size estimator.
  \<^item> \<open>Text_Merge\<close>, \<open>Text_Merge_Correct\<close>: \<^verbatim>\<open>merge/src\<close>, the alignment of base and sides, the walk that emits merged lines and
    conflict blocks, and the classification of the regions. The differ of the \<^verbatim>\<open>similar\<close> crate is a parameter; the
    merge relies on it returning an edit script (\<open>differ\<close>).
  \<^item> \<open>Visibility\<close>: \<^verbatim>\<open>object-model/src/object\<close>, tiers, audiences, the visibility records of a state, their signing payload
    and the per-entry sidecar.
  \<^item> \<open>Op_Record\<close>: \<^verbatim>\<open>object-model/src/op_record\<close>, every operation record and what undo, redo and isolation read off it.
  \<^item> \<open>Oplog_Index\<close>, \<open>Oplog_Index_Correct\<close>: \<^verbatim>\<open>packed_oplog.rs\<close>, the index sections of a container, how they are built, validated and
    queried. A container is its index with the entries at their positions.
  \<^item> \<open>Oplog_Codec\<close>, \<open>Oplog_Codec_Correct\<close>, \<open>Oplog_Container\<close>: the same file at the level of bytes, with the salvage of a truncated
    container. The msgpack coding of a record and the civil time of a timestamp are the parameters of \<open>entry_codec\<close>.
  \<^item> \<open>Oplog_Segments\<close>, \<open>Oplog_Append\<close> and their \<open>_Correct\<close> theories: \<^verbatim>\<open>segmented_oplog.rs\<close>, the manifest, opening and
    reading a generation, appending with the merging of segments, replacing, sweeping and the repair of the manifest. The disk is
    a map from paths to files; a step of an operation is a prefix of its file operations, so a crash is a disk in between.
  \<^item> \<open>Oplog\<close>, \<open>Oplog_Correct\<close>, \<open>Oplog_Runs\<close>, \<open>Oplog_Properties\<close>: \<^verbatim>\<open>oplog_core.rs\<close>, the handle: recording batches, exactly-once and
    isolated commits, undo, redo, coalescing and the queries; a step relation of all calls and its invariant.
  \<^item> \<open>Oplog_Bytes\<close>: the files that a disk of containers is written as and what a reader opens and decodes from them. The theories of
    the log above keep the entries of a container as they are; that this is what the bytes give back needs entries that can be
    stored (\<open>storable\<close>: fields shorter than 2^16 bytes, no empty scope), which the writer does not check.
  \<^item> \<open>Name_Encoding\<close>, \<open>Name_Encoding_Correct\<close>: \<^verbatim>\<open>object-model/src/name_encoding.rs\<close> and \<^verbatim>\<open>identifiers.rs\<close>, names of references as paths that
    survive a case-folding file system, digests of long names (a parameter), and the mapping of Git names that Heddle reserves.
  \<^item> \<open>Refs_Text\<close>, \<open>Refs_Summary\<close>, \<open>Refs_Text_Correct\<close>: the texts of HEAD, packed references and the summary, \<^verbatim>\<open>object-model/src/refs.rs\<close>,
    \<^verbatim>\<open>refs/src/refs/head.rs\<close>, \<^verbatim>\<open>text.rs\<close> and \<^verbatim>\<open>ref_summary_index.rs\<close>. Base32 and the name rules of Git are parameters.
  \<^item> \<open>Refs_Files\<close>, \<open>Refs_Publish\<close>, \<open>Refs_Publish_Correct\<close>: \<^verbatim>\<open>refs_storage.rs\<close>, \<^verbatim>\<open>refs_transactions.rs\<close>, \<^verbatim>\<open>packed_refs.rs\<close>: files and directories,
    each change of which may fail before or after it took effect as an oracle decides, staged plans and their rollback.
  \<^item> \<open>Refs_Manager\<close>: \<^verbatim>\<open>refs_manager.rs\<close>, reads and writes through the two watermarks, materialization, commits and snapshots.
  \<^item> \<open>Ref_Reconciler\<close>, \<open>Ref_Reconciler_Correct\<close>: \<^verbatim>\<open>repo/src/atomic/reconciler.rs\<close> and \<^verbatim>\<open>committer.rs\<close>, the fold of committed records over the
    log that is modelled here.
  \<^item> \<open>Tree_Entry\<close>, \<open>Tree_Object\<close>, \<open>Tree_Correct\<close>, \<open>Tree_Edits\<close>: \<^verbatim>\<open>object-model/src/object/tree.rs\<close> and \<^verbatim>\<open>tree_git_layout.rs\<close>, entries with the
    raw modes of Git, flat and salted trees, their validation, edits and hashes (BLAKE3 is a parameter), and redacted trees.
  \<^item> \<open>Tree_Diff\<close>, \<open>Tree_Diff_Correct\<close>: \<^verbatim>\<open>tree_diff.rs\<close> and \<^verbatim>\<open>diff.rs\<close>, the merge walk of two trees with a visitor, over a store that is a
    function from hashes to trees. \<open>Tree_Path\<close>: \<^verbatim>\<open>tree_path.rs\<close>, a path resolved in a tree. \<open>Slash_Path\<close>: names joined with slashes.
  \<^item> \<open>Merge_Base\<close>, \<open>Merge_Base_Correct\<close>: the search for the merge base in \<^verbatim>\<open>repo/src/commit_graph.rs\<close>, over the two functions of its
    trait. \<open>Commit_Graph\<close>, \<open>Commit_Graph_Correct\<close>: the index of that file, its loading and its queries. \<open>Commit_Graph_Async\<close>: the
    asynchronous loading. \<open>Graph_Codec\<close>, \<open>Graph_Codec_Correct\<close>, \<open>Commit_Graph_Cache\<close>: \<^verbatim>\<open>commit_graph_persistence.rs\<close>, the bytes of the
    graph, and the contract of a cache with its two providers.
  \<^item> \<open>Repo_History\<close>, \<open>Repo_History_Correct\<close>: \<^verbatim>\<open>repository_history.rs\<close> and \<^verbatim>\<open>bloom_filter.rs\<close>, filters of changed paths and the walk
    along first parents. The keyed BLAKE3 hash and the source of states and trees are parameters.
  \<^item> \<open>Rust_Search\<close>: the binary search of the standard library, which the delta index and the lookup of a tree entry use.

  \<^bold>\<open>What the lemmas show.\<close> Formats: what is written is read back, by every decoder, and what a decoder accepts is bounded.
  Algorithms: the encoder against the decoder, the estimator against the encoder, the index against a search, the merge against
  the partition of its inputs. Log: a handle \<open>holds\<close> a list of entries, each operation refines an operation on that list,
  each query is a query of it, and every sequence of calls keeps it numbered and append-only. Bytes: the container bytes
  implement the containers on which the log is verified, and a log of storable entries reads back from its files, also after a
  crash. References: names and texts read back, publishing is all or nothing, and a lagging read answers with the newest committed target. Trees: a Git tree is listed as it was
  imported, a redacted tree keeps the hash, edits are map updates, and the difference of two trees misses no path outside a
  reported one. States: loading settles the whole ancestry, the merge base is the best common ancestor, ancestry is reachability,
  and a history query answers as if no Bloom filter were used. The interfaces are locales, interpreted on the model.

  \<^bold>\<open>Bounds.\<close> Rust integers are words where the source wraps or shifts (packs, deltas), and natural numbers with the limit
  written out where it checks or cannot reach it (offsets, ids, lengths). Loops are structural, have a measure, or are
  partial functions over the option type, where \<open>None\<close> is not returning; those return on stores and histories without cycles,
  which \<open>deep\<close>, \<open>resolvable\<close> and \<open>graded\<close> state with the depth as their number. There is no fuel in a definition of the code. A string
  is its list of bytes in the log and its code points below 256 in the visibility records.

  \<^bold>\<open>Not modelled.\<close> Hashes, signatures, compression and serde codecs are parameters or left out. Concurrency is the order of calls:
  the write lock serializes them. The operator command that recovers a log only renames files around the salvage that is modelled.
  The canonical bytes of trees compress blocks with zstd, the merge of trees scores the similarity of blobs, and the line diff of
  blame is the crate's: they are left out, and so are the asynchronous copies of the tree walk and of the history walk, which are the
  same code over awaited reads. Of the references, reads of files do not fail, the lock is free, and the
  cache of the packed file is left out. The command
  line, Git conversion, mounts, network clients and semantic analysis are glue around libraries; the manifest gives the reason
  for each.
\<close>

end
